(* ===== verification/OL_Prelude.thy ===== *)
theory OL_Prelude
  imports Complex_Main "HOL-Library.Product_Lexorder"
begin

text \<open>
  Shared vocabulary of the development.

  \<^item> Fallible code returns a value of the sum type \<open>'e + 'a\<close>: \<open>Inl e\<close> is a raised
    exception, \<open>Inr x\<close> a returned value. \<open>res_bind\<close> sequences two such computations.
  \<^item> The Python string operations the sources use, on ASCII text: \<open>str.upper\<close>,
    \<open>str.lower\<close>, \<open>str.strip\<close>, \<open>str.split\<close>, \<open>str.replace\<close>,
    \<open>str.isdigit\<close>, \<open>str.isalpha\<close>, \<open>str.isspace\<close>, \<open>in\<close> and \<open>int\<close> on
    a digit string. A character of a Python string is one \<open>char\<close>; characters from 128 on
    are neither letters, digits nor blanks here, so what the development says about the
    case and class of characters is said about ASCII text.
  \<^item> Python floats are modelled by \<open>real\<close>, Python integers by \<open>int\<close>: rounding errors
    of binary floating point are outside the model. \<open>py_round\<close> is \<open>round\<close> with its
    ties-to-even rule.
  \<^item> \<open>str_ops\<close> and \<open>res_intros\<close> collect the rules the component theories use.
\<close>

named_theorems str_ops "unfolding rules of the string operations"
named_theorems res_simps "rules for computations that may raise"

section \<open>Computations that may raise\<close>

type_synonym ('e, 'a) result = "'e + 'a"

fun res_bind :: "'e + 'a \<Rightarrow> ('a \<Rightarrow> 'e + 'b) \<Rightarrow> 'e + 'b" where
  "res_bind (Inl e) f = Inl e"
| "res_bind (Inr x) f = f x"

lemma res_bind_Inr_iff [res_simps]:
  "res_bind m f = Inr y \<longleftrightarrow> (\<exists>x. m = Inr x \<and> f x = Inr y)"
  by (cases m) auto

lemma res_bind_Inl_iff [res_simps]:
  "res_bind m f = Inl e \<longleftrightarrow> m = Inl e \<or> (\<exists>x. m = Inr x \<and> f x = Inl e)"
  by (cases m) auto

lemma res_bind_Inr_right [simp]: "res_bind m Inr = m"
  by (cases m) auto

lemma res_bind_cong [fundef_cong]:
  "m = m' \<Longrightarrow> (\<And>x. m' = Inr x \<Longrightarrow> f x = g x) \<Longrightarrow> res_bind m f = res_bind m' g"
  by (cases m') auto

section \<open>Characters and strings\<close>

definition chr_code :: "char \<Rightarrow> nat" where
  "chr_code c = of_char c"

definition is_digit :: "char \<Rightarrow> bool" where
  "is_digit c \<longleftrightarrow> 48 \<le> chr_code c \<and> chr_code c \<le> 57"

definition is_upper :: "char \<Rightarrow> bool" where
  "is_upper c \<longleftrightarrow> 65 \<le> chr_code c \<and> chr_code c \<le> 90"

definition is_lower :: "char \<Rightarrow> bool" where
  "is_lower c \<longleftrightarrow> 97 \<le> chr_code c \<and> chr_code c \<le> 122"

definition is_alpha :: "char \<Rightarrow> bool" where
  "is_alpha c \<longleftrightarrow> is_upper c \<or> is_lower c"

definition is_alnum :: "char \<Rightarrow> bool" where
  "is_alnum c \<longleftrightarrow> is_alpha c \<or> is_digit c"

definition is_space :: "char \<Rightarrow> bool" where
  "is_space c \<longleftrightarrow> (9 \<le> chr_code c \<and> chr_code c \<le> 13) \<or> (28 \<le> chr_code c \<and> chr_code c \<le> 32)"

definition upper_char :: "char \<Rightarrow> char" where
  "upper_char c = (if is_lower c then char_of (chr_code c - 32) else c)"

definition lower_char :: "char \<Rightarrow> char" where
  "lower_char c = (if is_upper c then char_of (chr_code c + 32) else c)"

definition str_upper :: "string \<Rightarrow> string" where
  "str_upper s = map upper_char s"

definition str_lower :: "string \<Rightarrow> string" where
  "str_lower s = map lower_char s"

definition digit_val :: "char \<Rightarrow> nat" where
  "digit_val c = chr_code c - 48"

text \<open>\<open>str.strip()\<close>, \<open>str.replace(old, new)\<close> for a non-empty \<open>old\<close>,
  \<open>str.split(sep)\<close> for a one-character separator, \<open>str.split()\<close> on blanks.\<close>

definition str_strip :: "string \<Rightarrow> string" where
  "str_strip s = rev (dropWhile is_space (rev (dropWhile is_space s)))"

definition starts_with :: "string \<Rightarrow> string \<Rightarrow> bool" where
  "starts_with s p \<longleftrightarrow> take (length p) s = p"

definition ends_with :: "string \<Rightarrow> string \<Rightarrow> bool" where
  "ends_with s p \<longleftrightarrow> starts_with (rev s) (rev p)"

fun str_contains :: "string \<Rightarrow> string \<Rightarrow> bool" where
  "str_contains p [] \<longleftrightarrow> p = []"
| "str_contains p (c # cs) \<longleftrightarrow> starts_with (c # cs) p \<or> str_contains p cs"

function str_replace :: "string \<Rightarrow> string \<Rightarrow> string \<Rightarrow> string" where
  "str_replace old new s =
     (if old = [] \<or> s = [] then s
      else if starts_with s old then new @ str_replace old new (drop (length old) s)
      else hd s # str_replace old new (tl s))"
  by pat_completeness auto
termination
  by (relation "measure (\<lambda>(old, new, s). length s)") auto

declare str_replace.simps [simp del]

fun str_split :: "char \<Rightarrow> string \<Rightarrow> string list" where
  "str_split sep [] = [[]]"
| "str_split sep (c # cs) =
     (if c = sep then [] # str_split sep cs
      else (case str_split sep cs of [] \<Rightarrow> [[c]] | w # ws \<Rightarrow> (c # w) # ws))"

definition str_words :: "string \<Rightarrow> string list" where
  "str_words s = filter (\<lambda>w. w \<noteq> [])
     (str_split (CHR '' '') (map (\<lambda>c. if is_space c then CHR '' '' else c) s))"

text \<open>Slices \<open>s[i:j]\<close> and \<open>s[i:]\<close>: a negative bound counts from the end, and a bound
  past an end is cut to it.\<close>

definition py_index :: "int \<Rightarrow> int \<Rightarrow> int" where
  "py_index n i = (if i < 0 then max 0 (n + i) else min n i)"

definition py_slice :: "'a list \<Rightarrow> int \<Rightarrow> int \<Rightarrow> 'a list" where
  "py_slice s i j =
     (let n = int (length s); a = py_index n i; b = py_index n j
      in take (nat (b - a)) (drop (nat a) s))"

definition slice_from :: "'a list \<Rightarrow> int \<Rightarrow> 'a list" where
  "slice_from s i = drop (nat (py_index (int (length s)) i)) s"

text \<open>\<open>int(s)\<close> for a string of decimal digits.\<close>

definition digits_nat :: "string \<Rightarrow> nat" where
  "digits_nat s = foldl (\<lambda>n c. 10 * n + digit_val c) 0 s"

definition str_isdigit :: "string \<Rightarrow> bool" where
  "str_isdigit s \<longleftrightarrow> s \<noteq> [] \<and> list_all is_digit s"

definition str_isalpha :: "string \<Rightarrow> bool" where
  "str_isalpha s \<longleftrightarrow> s \<noteq> [] \<and> list_all is_alpha s"

definition str_isalnum :: "string \<Rightarrow> bool" where
  "str_isalnum s \<longleftrightarrow> s \<noteq> [] \<and> list_all is_alnum s"

text \<open>\<open>str(n)\<close> for a natural number.\<close>

fun show_nat :: "nat \<Rightarrow> string" where
  "show_nat n = (if n < 10 then [char_of (48 + n)] else show_nat (n div 10) @ [char_of (48 + n mod 10)])"

declare show_nat.simps [simp del]

text \<open>\<open>int(s, base)\<close>: blanks around the literal, one sign and single underscores between
  digits are accepted, with base 16 a \<open>0x\<close> prefix too; anything else raises
  \<open>ValueError\<close>, here \<open>None\<close>. \<open>digit_groups ok\<close> is the part after sign and prefix.\<close>

fun digit_groups :: "(char \<Rightarrow> bool) \<Rightarrow> string \<Rightarrow> bool" where
  "digit_groups ok [] \<longleftrightarrow> False"
| "digit_groups ok [c] \<longleftrightarrow> ok c"
| "digit_groups ok (c # d # cs) \<longleftrightarrow>
     ok c \<and> (if d = CHR ''_'' then digit_groups ok cs else digit_groups ok (d # cs))"

definition split_sign :: "string \<Rightarrow> bool \<times> string" where
  "split_sign s =
     (case s of [] \<Rightarrow> (False, [])
      | c # cs \<Rightarrow> if c = CHR ''-'' then (True, cs) else if c = CHR ''+'' then (False, cs) else (False, s))"

definition py_int :: "string \<Rightarrow> int option" where
  "py_int s =
     (let (neg, body) = split_sign (str_strip s) in
      if digit_groups is_digit body
      then (let n = int (digits_nat (filter is_digit body)) in Some (if neg then - n else n))
      else None)"

definition is_hex :: "char \<Rightarrow> bool" where
  "is_hex c \<longleftrightarrow> is_digit c \<or> (97 \<le> chr_code (lower_char c) \<and> chr_code (lower_char c) \<le> 102)"

definition py_int16_accepts :: "string \<Rightarrow> bool" where
  "py_int16_accepts s =
     (let body = snd (split_sign (str_strip s));
          rest = (if str_lower (take 2 body) = ''0x'' then drop 2 body else body)
      in digit_groups is_hex rest
         \<or> (rest \<noteq> body \<and> rest \<noteq> [] \<and> hd rest = CHR ''_'' \<and> digit_groups is_hex (tl rest)))"

lemmas [str_ops] = str_isdigit_def str_isalpha_def str_isalnum_def

lemmas [str_ops] = chr_code_def is_digit_def is_upper_def is_lower_def is_alpha_def
  is_alnum_def is_space_def upper_char_def lower_char_def str_upper_def str_lower_def
  digit_val_def str_strip_def starts_with_def ends_with_def digits_nat_def

lemma chr_code_less: "chr_code c < 256"
  by (simp add: chr_code_def)

lemma chr_code_char_of: "n < 256 \<Longrightarrow> chr_code (char_of n) = n"
  by (simp add: chr_code_def)

lemma upper_char_idem [simp]: "upper_char (upper_char c) = upper_char c"
  using chr_code_less [of c]
  by (auto simp: upper_char_def is_lower_def chr_code_char_of)

lemma lower_char_idem [simp]: "lower_char (lower_char c) = lower_char c"
  using chr_code_less [of c]
  by (auto simp: lower_char_def is_upper_def chr_code_char_of)

lemma str_upper_idem [simp]: "str_upper (str_upper s) = str_upper s"
  by (simp add: str_upper_def)

lemma str_lower_idem [simp]: "str_lower (str_lower s) = str_lower s"
  by (simp add: str_lower_def)

lemma length_str_upper [simp]: "length (str_upper s) = length s"
  by (simp add: str_upper_def)

lemma length_str_lower [simp]: "length (str_lower s) = length s"
  by (simp add: str_lower_def)

lemma is_digit_not_alpha: "is_digit c \<Longrightarrow> \<not> is_alpha c"
  by (simp add: is_digit_def is_alpha_def is_upper_def is_lower_def)

lemma digit_val_less: "is_digit c \<Longrightarrow> digit_val c < 10"
  unfolding is_digit_def digit_val_def by linarith

lemma upper_char_digit [simp]: "is_digit c \<Longrightarrow> upper_char c = c"
  by (simp add: upper_char_def is_digit_def is_lower_def)

lemma digits_nat_acc: "foldl (\<lambda>n c. 10 * n + digit_val c) a s = a * 10 ^ length s + digits_nat s"
proof (induction s arbitrary: a)
  case (Cons c s)
  have "foldl (\<lambda>n c. 10 * n + digit_val c) (10 * a + digit_val c) s
      = (10 * a + digit_val c) * 10 ^ length s + digits_nat s"
    and "foldl (\<lambda>n c. 10 * n + digit_val c) (digit_val c) s = digit_val c * 10 ^ length s + digits_nat s"
    by (rule Cons)+
  then show ?case by (simp add: digits_nat_def algebra_simps)
qed (simp add: digits_nat_def)

lemma digits_nat_append: "digits_nat (s @ t) = digits_nat s * 10 ^ length t + digits_nat t"
  by (simp only: digits_nat_def [of "s @ t"] foldl_append digits_nat_acc [of _ t]
      digits_nat_def [of s, symmetric])

lemma digits_nat_single [simp]: "digits_nat [c] = digit_val c"
  by (simp add: digits_nat_def)

lemma digits_nat_Nil [simp]: "digits_nat [] = 0"
  by (simp add: digits_nat_def)

lemma digit_val_inject: "is_digit c \<Longrightarrow> is_digit d \<Longrightarrow> digit_val c = digit_val d \<Longrightarrow> c = d"
proof -
  assume "is_digit c" "is_digit d" "digit_val c = digit_val d"
  then have "chr_code c = chr_code d" by (auto simp: is_digit_def digit_val_def)
  then show "c = d" unfolding chr_code_def by (metis char_of_char)
qed

lemma is_digit_alnum: "is_digit c \<Longrightarrow> is_alnum c"
  by (simp add: is_alnum_def)

lemma starts_with_iff: "starts_with s p \<longleftrightarrow> (\<exists>r. s = p @ r)"
  unfolding starts_with_def by (metis append_eq_conv_conj append_take_drop_id)

lemma slice_from_nonneg: "0 \<le> i \<Longrightarrow> slice_from s i = drop (nat i) s"
  by (cases "i \<le> int (length s)") (auto simp: slice_from_def py_index_def min_def)

lemma py_slice_inside:
  "0 \<le> i \<Longrightarrow> i \<le> j \<Longrightarrow> j \<le> int (length s) \<Longrightarrow> py_slice s i j = take (nat (j - i)) (drop (nat i) s)"
  by (simp add: py_slice_def py_index_def)

lemma length_py_slice_inside:
  "0 \<le> i \<Longrightarrow> i \<le> j \<Longrightarrow> j \<le> int (length s) \<Longrightarrow> int (length (py_slice s i j)) = j - i"
  by (simp add: py_slice_inside)

lemma take_drop_join:
  assumes "i \<le> k" and "k \<le> m" and "m \<le> j"
  shows "take (m - i) (drop i s) @ drop (m - k) (take (j - k) (drop k s)) = take (j - i) (drop i s)"
proof -
  have "drop (m - k) (take (j - k) (drop k s)) = take (j - m) (drop m s)"
    using assms by (simp add: drop_take)
  moreover have "take (j - i) (drop i s) = take (m - i) (drop i s) @ take (j - m) (drop m s)"
    using assms take_add [of "m - i" "j - m" "drop i s"] by simp
  ultimately show ?thesis by simp
qed

text \<open>Two overlapping slices of a text glue to the slice of the union.\<close>

lemma py_slice_glue:
  assumes "0 \<le> a" and "a \<le> c" and "c \<le> b" and "b \<le> d" and "d \<le> int (length s)"
  shows "py_slice s a b @ slice_from (py_slice s c d) (b - c) = py_slice s a d"
proof -
  have "nat (b - c) = nat b - nat c" and "nat (b - a) = nat b - nat a"
    and "nat (d - c) = nat d - nat c" and "nat (d - a) = nat d - nat a"
    using assms by auto
  then show ?thesis
    using assms take_drop_join [OF nat_mono nat_mono nat_mono, OF assms(2,3,4), of s]
    by (simp add: py_slice_inside slice_from_nonneg)
qed

section \<open>Rounding\<close>

definition py_round :: "real \<Rightarrow> int" where
  "py_round x = (let f = \<lfloor>x\<rfloor>; d = x - of_int f in
     if d < 1/2 then f else if d > 1/2 then f + 1 else if even f then f else f + 1)"

lemma py_round_bounds: "of_int (py_round x) \<le> x + 1/2 \<and> x - 1/2 \<le> of_int (py_round x)"
  unfolding py_round_def Let_def by auto linarith+

lemma py_round_mono: "x \<le> y \<Longrightarrow> py_round x \<le> py_round y"
proof (cases "\<lfloor>x\<rfloor> = \<lfloor>y\<rfloor>")
  case True
  then show "x \<le> y \<Longrightarrow> py_round x \<le> py_round y"
    by (auto simp: py_round_def Let_def)
next
  case False
  assume "x \<le> y"
  with False have "\<lfloor>x\<rfloor> + 1 \<le> \<lfloor>y\<rfloor>"
    by (meson floor_mono le_less zless_imp_add1_zle)
  moreover have "py_round x \<le> \<lfloor>x\<rfloor> + 1" and "\<lfloor>y\<rfloor> \<le> py_round y"
    by (auto simp: py_round_def Let_def)
  ultimately show ?thesis by linarith
qed

lemma py_round_of_int [simp]: "py_round (of_int n) = n"
  by (simp add: py_round_def)

section \<open>Stable sorting\<close>

text \<open>\<open>list.sort(key=f)\<close> and \<open>sorted(xs, key=f)\<close> are stable; so is \<open>sort_key f\<close>.\<close>

lemma sort_key_stable_class: "filter (\<lambda>y. f y = k) (sort_key f xs) = filter (\<lambda>y. f y = k) xs"
  by (rule sort_key_stable)

lemma insort_key_map: "insort_key f (g x) (map g xs) = map g (insort_key (\<lambda>i. f (g i)) x xs)"
  by (induction xs) auto

lemma sort_key_map: "sort_key f (map g xs) = map g (sort_key (\<lambda>i. f (g i)) xs)"
  by (induction xs) (auto simp: insort_key_map)

lemma sorted_map_weaken:
  assumes "sorted (map f xs)" and "\<And>x y. f x \<le> f y \<Longrightarrow> g x \<le> g y"
  shows "sorted (map g xs)"
  using assms by (auto simp: sorted_wrt_map intro: sorted_wrt_mono_rel [rotated])

lemma sorted_wrt_filter_list: "sorted_wrt R xs \<Longrightarrow> sorted_wrt R (filter P xs)"
  by (induction xs) auto

section \<open>Machines driven by events\<close>

text \<open>A component whose operations each keep an invariant keeps it over any sequence of them.
  The components with state interpret this interface with their own step function.\<close>

locale event_machine =
  fixes step :: "'e \<Rightarrow> 's \<Rightarrow> 's" and inv :: "'s \<Rightarrow> bool"
  assumes step_inv: "inv s \<Longrightarrow> inv (step e s)"
begin

lemma fold_inv: "inv s \<Longrightarrow> inv (fold step es s)"
  by (induction es arbitrary: s) (auto intro: step_inv)

lemma fold_prefix_inv: "inv s \<Longrightarrow> inv (fold step (take n es) s)"
  by (rule fold_inv)

end

end
