(* ===== verification/Entity_Types.thy ===== *)
theory Entity_Types
  imports OL_Prelude
begin

text \<open>
  The core data types of the detection engine, \<^verbatim>\<open>src/openlabels/core/types.py\<close>: the detector
  tiers, the risk tiers, the job statuses, the tables of known entity types and aliases with the
  functions over them, and the span a detector reports, whose \<open>__post_init__\<close> validation is
  \<open>span_post_init\<close>. The four enumerations that the code compares or orders are instances of
  \<open>linorder\<close>. Logging is left out; it is the only effect of an unknown entity type.
\<close>

section \<open>Enumerations\<close>

datatype tier = TIER_ML | TIER_PATTERN | TIER_STRUCTURED | TIER_CHECKSUM

fun tier_value :: "tier \<Rightarrow> int" where
  "tier_value TIER_ML = 1"
| "tier_value TIER_PATTERN = 2"
| "tier_value TIER_STRUCTURED = 3"
| "tier_value TIER_CHECKSUM = 4"

instantiation tier :: linorder
begin
definition less_eq_tier :: "tier \<Rightarrow> tier \<Rightarrow> bool" where
  "less_eq_tier a b \<longleftrightarrow> tier_value a \<le> tier_value b"
definition less_tier :: "tier \<Rightarrow> tier \<Rightarrow> bool" where
  "less_tier a b \<longleftrightarrow> tier_value a < tier_value b"
instance
proof
  fix a b :: tier
  show "a \<le> b \<Longrightarrow> b \<le> a \<Longrightarrow> a = b"
    by (cases a; cases b) (simp_all add: less_eq_tier_def)
qed (auto simp: less_eq_tier_def less_tier_def)
end

datatype risk_tier = RT_MINIMAL | RT_LOW | RT_MEDIUM | RT_HIGH | RT_CRITICAL

fun risk_rank :: "risk_tier \<Rightarrow> nat" where
  "risk_rank RT_MINIMAL = 0"
| "risk_rank RT_LOW = 1"
| "risk_rank RT_MEDIUM = 2"
| "risk_rank RT_HIGH = 3"
| "risk_rank RT_CRITICAL = 4"

instantiation risk_tier :: linorder
begin
definition less_eq_risk_tier :: "risk_tier \<Rightarrow> risk_tier \<Rightarrow> bool" where
  "less_eq_risk_tier a b \<longleftrightarrow> risk_rank a \<le> risk_rank b"
definition less_risk_tier :: "risk_tier \<Rightarrow> risk_tier \<Rightarrow> bool" where
  "less_risk_tier a b \<longleftrightarrow> risk_rank a < risk_rank b"
instance
proof
  fix a b :: risk_tier
  show "a \<le> b \<Longrightarrow> b \<le> a \<Longrightarrow> a = b"
    by (cases a; cases b) (simp_all add: less_eq_risk_tier_def)
qed (auto simp: less_eq_risk_tier_def less_risk_tier_def)
end

datatype job_status = JS_PENDING | JS_RUNNING | JS_COMPLETED | JS_FAILED | JS_CANCELLED

section \<open>Entity types\<close>

definition KNOWN_ENTITY_TYPES :: "string list" where
  "KNOWN_ENTITY_TYPES = [
     ''NAME'', ''NAME_PATIENT'', ''NAME_PROVIDER'', ''NAME_RELATIVE'', ''PERSON'', ''PER'',
     ''PATIENT'', ''DOCTOR'', ''PHYSICIAN'', ''NURSE'', ''STAFF'', ''FIRSTNAME'', ''LASTNAME'',
     ''MIDDLENAME'', ''PREFIX'', ''SUFFIX'', ''FULLNAME'', ''DATE'', ''DATE_DOB'',
     ''DATE_TIME'', ''DATETIME'', ''TIME'', ''BIRTHDAY'', ''DOB'', ''DATEOFBIRTH'',
     ''DATE_OF_BIRTH'', ''BIRTH_DATE'', ''BIRTHDATE'', ''BIRTH_YEAR'', ''YEAR_OF_BIRTH'',
     ''DATE_RANGE'', ''AGE'', ''ADDRESS'', ''ZIP'', ''CITY'', ''STATE'', ''COUNTRY'',
     ''COUNTY'', ''GPS_COORDINATE'', ''LATITUDE'', ''LONGITUDE'', ''COORDINATE'',
     ''COORDINATES'', ''GPE'', ''LOC'', ''STREET_ADDRESS'', ''STREET'', ''ZIPCODE'',
     ''LOCATION_ZIP'', ''ZIP_CODE'', ''POSTCODE'', ''LOCATION_OTHER'', ''ROOM'',
     ''ROOM_NUMBER'', ''SSN'', ''SSN_PARTIAL'', ''US_SSN'', ''SOCIAL_SECURITY'',
     ''SOCIALSECURITYNUMBER'', ''UKNINUMBER'', ''SIN'', ''SIN_CA'', ''DRIVER_LICENSE'',
     ''LICENSE'', ''US_DRIVER_LICENSE'', ''DRIVERSLICENSE'', ''STATE_ID'', ''STATEID'',
     ''PASSPORT'', ''US_PASSPORT'', ''PASSPORT_NUMBER'', ''MILITARY_ID'', ''EDIPI'',
     ''DOD_ID'', ''TAX_ID'', ''TIN'', ''EIN'', ''ITIN'', ''MRN'', ''MEDICAL_RECORD'',
     ''MEDICALRECORD'', ''NPI'', ''DEA'', ''MEDICAL_LICENSE'', ''ENCOUNTER_ID'',
     ''ACCESSION_ID'', ''HEALTH_PLAN_ID'', ''HEALTHPLAN'', ''HEALTH_PLAN'', ''MEMBERID'',
     ''MEMBER_ID'', ''MEDICARE_ID'', ''MBI'', ''PHARMACY_ID'', ''NDC'', ''VIN'',
     ''VEHICLEVIN'', ''VEHICLE_VIN'', ''VEHICLE_IDENTIFICATION'', ''LICENSE_PLATE'',
     ''VEHICLEVRM'', ''VEHICLE_PLATE'', ''PLATE_NUMBER'', ''PHONE'', ''PHONE_NUMBER'',
     ''PHONENUMBER'', ''US_PHONE_NUMBER'', ''TELEPHONE'', ''EMAIL'', ''EMAIL_ADDRESS'',
     ''EMAILADDRESS'', ''FAX'', ''FAX_NUMBER'', ''FAXNUMBER'', ''PAGER'', ''PAGER_NUMBER'',
     ''URL'', ''USERNAME'', ''IP_ADDRESS'', ''IP'', ''IPADDRESS'', ''IPV4'', ''IPV6'',
     ''MAC_ADDRESS'', ''MAC'', ''MACADDRESS'', ''DEVICE_ID'', ''IMEI'', ''DEVICE'', ''BIOID'',
     ''USERAGENT'', ''BIOMETRIC_ID'', ''FINGERPRINT'', ''DNA_ID'', ''IMAGE_ID'', ''PHOTO_ID'',
     ''DICOM_UID'', ''CERTIFICATE_NUMBER'', ''CLAIM_NUMBER'', ''CREDIT_CARD'',
     ''CREDIT_CARD_NUMBER'', ''CREDITCARDNUMBER'', ''CC'', ''CREDIT_CARD_PARTIAL'',
     ''ACCOUNT_NUMBER'', ''ACCOUNT'', ''BANK_ACCOUNT'', ''IBAN'', ''IBAN_CODE'',
     ''ABA_ROUTING'', ''ROUTING'', ''ROUTING_NUMBER'', ''BIC'', ''SWIFT'', ''SWIFT_BIC'',
     ''CUSIP'', ''ISIN'', ''SEDOL'', ''FIGI'', ''LEI'', ''BITCOIN_ADDRESS'',
     ''ETHEREUM_ADDRESS'', ''CRYPTO_SEED_PHRASE'', ''SOLANA_ADDRESS'', ''CARDANO_ADDRESS'',
     ''LITECOIN_ADDRESS'', ''DOGECOIN_ADDRESS'', ''XRP_ADDRESS'', ''AWS_ACCESS_KEY'',
     ''AWS_SECRET_KEY'', ''AWS_SESSION_TOKEN'', ''AZURE_STORAGE_KEY'',
     ''AZURE_CONNECTION_STRING'', ''AZURE_SAS_TOKEN'', ''GOOGLE_API_KEY'', ''GOOGLE_OAUTH_ID'',
     ''GOOGLE_OAUTH_SECRET'', ''FIREBASE_KEY'', ''GITHUB_TOKEN'', ''GITLAB_TOKEN'',
     ''NPM_TOKEN'', ''PYPI_TOKEN'', ''NUGET_KEY'', ''SLACK_TOKEN'', ''SLACK_WEBHOOK'',
     ''DISCORD_TOKEN'', ''DISCORD_WEBHOOK'', ''TWILIO_ACCOUNT_SID'', ''TWILIO_KEY'',
     ''TWILIO_TOKEN'', ''SENDGRID_KEY'', ''MAILCHIMP_KEY'', ''STRIPE_KEY'', ''SQUARE_TOKEN'',
     ''SQUARE_SECRET'', ''SHOPIFY_TOKEN'', ''SHOPIFY_KEY'', ''SHOPIFY_SECRET'', ''HEROKU_KEY'',
     ''DATADOG_KEY'', ''NEWRELIC_KEY'', ''DATABASE_URL'', ''PRIVATE_KEY'', ''JWT'',
     ''BASIC_AUTH'', ''BEARER_TOKEN'', ''PASSWORD'', ''API_KEY'', ''SECRET'',
     ''CLASSIFICATION_LEVEL'', ''CLASSIFICATION_MARKING'', ''SCI_MARKING'',
     ''DISSEMINATION_CONTROL'', ''CAGE_CODE'', ''DUNS_NUMBER'', ''UEI'', ''DOD_CONTRACT'',
     ''GSA_CONTRACT'', ''CLEARANCE_LEVEL'', ''ITAR_MARKING'', ''EAR_MARKING'', ''PROFESSION'',
     ''OCCUPATION'', ''JOB'', ''JOB_TITLE'', ''DRUG'', ''MEDICATION'', ''LAB_TEST'',
     ''DIAGNOSIS'', ''PROCEDURE'', ''PAYER'', ''RX_NUMBER'', ''PRESCRIPTION'', ''BLOOD_TYPE'',
     ''FACILITY'', ''HOSPITAL'', ''ORG'', ''ORGANIZATION'', ''VENDOR'', ''COMPANYNAME'',
     ''COMPANY'', ''EMPLOYER'', ''DOCUMENT_ID'', ''ID_NUMBER'', ''TRACKING_NUMBER'',
     ''SHIPMENT_ID'', ''RELATIVE'', ''FAMILY'', ''UNIQUE_ID'', ''HCW'', ''ID'']"

definition CLINICAL_CONTEXT_TYPES :: "string list" where
  "CLINICAL_CONTEXT_TYPES = [
     ''LAB_TEST'', ''DIAGNOSIS'', ''MEDICATION'', ''DRUG'', ''PROCEDURE'', ''PAYER'',
     ''PHYSICAL_DESC'']"

definition ENTITY_ALIASES :: "(string \<times> string) list" where
  "ENTITY_ALIASES = [
     (''US_SSN'', ''SSN''), (''SOCIAL_SECURITY'', ''SSN''),
     (''SOCIALSECURITYNUMBER'', ''SSN''), (''PER'', ''NAME''), (''PERSON'', ''NAME''),
     (''PATIENT'', ''NAME_PATIENT''), (''DOCTOR'', ''NAME_PROVIDER''),
     (''PHYSICIAN'', ''NAME_PROVIDER''), (''HCW'', ''NAME_PROVIDER''), (''DOB'', ''DATE_DOB''),
     (''BIRTHDAY'', ''DATE_DOB''), (''DATEOFBIRTH'', ''DATE_DOB''),
     (''DATE_OF_BIRTH'', ''DATE_DOB''), (''BIRTH_DATE'', ''DATE_DOB''),
     (''BIRTHDATE'', ''DATE_DOB''), (''CC'', ''CREDIT_CARD''),
     (''CREDITCARD'', ''CREDIT_CARD''), (''CREDITCARDNUMBER'', ''CREDIT_CARD''),
     (''CREDIT_CARD_NUMBER'', ''CREDIT_CARD''), (''TELEPHONE'', ''PHONE''),
     (''TEL'', ''PHONE''), (''MOBILE'', ''PHONE''), (''CELL'', ''PHONE''),
     (''PHONENUMBER'', ''PHONE''), (''PHONE_NUMBER'', ''PHONE''),
     (''US_PHONE_NUMBER'', ''PHONE''), (''EMAILADDRESS'', ''EMAIL''),
     (''EMAIL_ADDRESS'', ''EMAIL''), (''STREET_ADDRESS'', ''ADDRESS''),
     (''STREET'', ''ADDRESS''), (''IP'', ''IP_ADDRESS''), (''IPADDRESS'', ''IP_ADDRESS''),
     (''IPV4'', ''IP_ADDRESS''), (''IPV6'', ''IP_ADDRESS''), (''MEDICAL_RECORD'', ''MRN''),
     (''MEDICALRECORD'', ''MRN''), (''LICENSE'', ''DRIVER_LICENSE''),
     (''US_DRIVER_LICENSE'', ''DRIVER_LICENSE''), (''DRIVERSLICENSE'', ''DRIVER_LICENSE''),
     (''US_PASSPORT'', ''PASSPORT''), (''PASSPORT_NUMBER'', ''PASSPORT''),
     (''ZIPCODE'', ''ZIP''), (''ZIP_CODE'', ''ZIP''), (''POSTCODE'', ''ZIP''),
     (''LOCATION_ZIP'', ''ZIP'')]"

definition validate_entity_type :: "string \<Rightarrow> bool" where
  "validate_entity_type entity_type \<longleftrightarrow> str_upper entity_type \<in> set KNOWN_ENTITY_TYPES"

definition is_clinical_context_type :: "string \<Rightarrow> bool" where
  "is_clinical_context_type entity_type \<longleftrightarrow> str_upper entity_type \<in> set CLINICAL_CONTEXT_TYPES"

definition normalize_entity_type :: "string \<Rightarrow> string" where
  "normalize_entity_type entity_type =
     (let upper = str_upper entity_type
      in case map_of ENTITY_ALIASES upper of Some canonical \<Rightarrow> canonical | None \<Rightarrow> upper)"

section \<open>Spans\<close>

record span_context =
  source_page :: "int option"
  source_sheet :: "string option"
  source_section :: "string option"
  source_cell :: "string option"
  surrounding_text :: "string option"
  extraction_method :: "string option"

record span =
  sp_start :: int
  sp_end :: int
  sp_text :: string
  sp_entity_type :: string
  sp_confidence :: real
  sp_detector :: string
  sp_tier :: tier
  sp_context :: "span_context option"
  sp_needs_review :: bool
  sp_review_reason :: "string option"
  sp_coref_anchor_value :: "string option"

text \<open>The exceptions of the validation, all of them \<open>ValueError\<close>s in the code, with what
  their messages report.\<close>

datatype value_error =
    InvalidTier int
  | NegativeStart int
  | StartNotBeforeEnd int int
  | InvalidConfidence real
  | TextLengthMismatch int int

text \<open>The \<open>tier\<close> field may be given as a \<open>Tier\<close> or as a plain integer.\<close>

datatype tier_arg = TierEnum tier | TierInt int

definition tier_from_value :: "int \<Rightarrow> value_error + tier" where
  "tier_from_value v =
     (if v = 1 then Inr TIER_ML else if v = 2 then Inr TIER_PATTERN
      else if v = 3 then Inr TIER_STRUCTURED else if v = 4 then Inr TIER_CHECKSUM
      else Inl (InvalidTier v))"

text \<open>\<open>Span.__post_init__\<close>, run on the object whose fields the generated initialiser has
  stored; \<open>t\<close> is what was stored in the \<open>tier\<close> field.\<close>

definition span_post_init :: "tier_arg \<Rightarrow> span \<Rightarrow> value_error + span" where
  "span_post_init t self =
     (if sp_start self < 0 then Inl (NegativeStart (sp_start self))
      else if sp_end self \<le> sp_start self
        then Inl (StartNotBeforeEnd (sp_start self) (sp_end self))
      else if \<not> (0 \<le> sp_confidence self \<and> sp_confidence self \<le> 1)
        then Inl (InvalidConfidence (sp_confidence self))
      else if int (length (sp_text self)) \<noteq> sp_end self - sp_start self
        then Inl (TextLengthMismatch (int (length (sp_text self))) (sp_end self - sp_start self))
      else (case t of
              TierEnum tr \<Rightarrow> Inr (self\<lparr>sp_tier := tr\<rparr>)
            | TierInt v \<Rightarrow> res_bind (tier_from_value v) (\<lambda>tr. Inr (self\<lparr>sp_tier := tr\<rparr>))))"

text \<open>A call \<open>Span(...)\<close> that leaves the optional fields at their defaults.\<close>

definition mk_span :: "int \<Rightarrow> int \<Rightarrow> string \<Rightarrow> string \<Rightarrow> real \<Rightarrow> string \<Rightarrow> tier \<Rightarrow> value_error + span" where
  "mk_span st en txt ety conf det tr =
     span_post_init (TierEnum tr)
       \<lparr>sp_start = st, sp_end = en, sp_text = txt, sp_entity_type = ety, sp_confidence = conf,
        sp_detector = det, sp_tier = tr, sp_context = None, sp_needs_review = False,
        sp_review_reason = None, sp_coref_anchor_value = None\<rparr>"

definition overlaps :: "span \<Rightarrow> span \<Rightarrow> bool" where
  "overlaps self other \<longleftrightarrow>
     \<not> (sp_end self \<le> sp_start other \<or> sp_end other \<le> sp_start self)"

definition contains :: "span \<Rightarrow> span \<Rightarrow> bool" where
  "contains self other \<longleftrightarrow> sp_start self \<le> sp_start other \<and> sp_end self \<ge> sp_end other"

definition span_len :: "span \<Rightarrow> int" where
  "span_len self = sp_end self - sp_start self"

text \<open>What every constructed span satisfies.\<close>

definition wf_span :: "span \<Rightarrow> bool" where
  "wf_span s \<longleftrightarrow> 0 \<le> sp_start s \<and> sp_start s < sp_end s \<and>
     0 \<le> sp_confidence s \<and> sp_confidence s \<le> 1 \<and>
     int (length (sp_text s)) = sp_end s - sp_start s"

section \<open>Facts\<close>

lemma tier_value_inject [simp]: "tier_value a = tier_value b \<longleftrightarrow> a = b"
  by (cases a; cases b) simp_all

lemma tier_value_range: "1 \<le> tier_value t \<and> tier_value t \<le> 4"
  by (cases t) simp_all

lemma tier_from_value_iff: "tier_from_value v = Inr t \<longleftrightarrow> v = tier_value t"
  by (cases t) (auto simp: tier_from_value_def)

text \<open>
  Constructing a span with a \<open>Tier\<close> succeeds exactly for a non-empty range that starts at
  a non-negative position, with a confidence in \<open>[0, 1]\<close> and a text as long as the range; with
  an integer tier it also needs a value from 1 to 4, which becomes that tier. The object is
  otherwise unchanged, and no other outcome but a \<open>ValueError\<close> exists.
\<close>

theorem span_post_init_characterised:
  "span_post_init t self = Inr s \<longleftrightarrow>
     wf_span self \<and> s = self\<lparr>sp_tier := sp_tier s\<rparr> \<and>
     (case t of TierEnum tr \<Rightarrow> sp_tier s = tr | TierInt v \<Rightarrow> v = tier_value (sp_tier s))"
proof (cases "wf_span self")
  case True
  then show ?thesis
    by (cases t) (auto simp: span_post_init_def wf_span_def res_simps tier_from_value_iff)
next
  case False
  then show ?thesis
    by (cases t) (auto simp: span_post_init_def wf_span_def res_simps)
qed

lemma mk_span_Inr:
  "mk_span st en txt ety conf det tr = Inr s \<Longrightarrow>
     wf_span s \<and> sp_start s = st \<and> sp_end s = en \<and> sp_text s = txt \<and> sp_entity_type s = ety \<and>
     sp_confidence s = conf \<and> sp_detector s = det \<and> sp_tier s = tr"
  by (auto simp: mk_span_def span_post_init_def wf_span_def split: if_splits)

lemma mk_span_ok:
  assumes "0 \<le> st" and "st < en" and "0 \<le> conf" and "conf \<le> 1" and "int (length txt) = en - st"
  shows "\<exists>s. mk_span st en txt ety conf det tr = Inr s"
  using assms by (auto simp: mk_span_def span_post_init_def)

lemma wf_span_overlaps_self: "wf_span s \<Longrightarrow> overlaps s s"
  by (auto simp: wf_span_def overlaps_def)

lemma overlaps_sym: "overlaps a b \<longleftrightarrow> overlaps b a"
  by (auto simp: overlaps_def)

lemma contains_overlaps: "wf_span b \<Longrightarrow> contains a b \<Longrightarrow> overlaps a b"
  by (auto simp: overlaps_def contains_def wf_span_def)

subsection \<open>The alias table\<close>

definition alias_targets :: "string list" where
  "alias_targets = [''SSN'', ''NAME'', ''NAME_PATIENT'', ''NAME_PROVIDER'', ''DATE_DOB'', ''CREDIT_CARD'',
     ''PHONE'', ''EMAIL'', ''ADDRESS'', ''IP_ADDRESS'', ''MRN'', ''DRIVER_LICENSE'', ''PASSPORT'', ''ZIP'']"

lemma alias_targets_complete: "list_all (\<lambda>(a, c). c \<in> set alias_targets) ENTITY_ALIASES"
  by (simp add: ENTITY_ALIASES_def alias_targets_def)

lemma alias_targets_upper: "list_all (\<lambda>c. str_upper c = c) alias_targets"
  by code_simp

lemma alias_targets_no_alias: "list_all (\<lambda>c. map_of ENTITY_ALIASES c = None) alias_targets"
  by code_simp

lemma alias_targets_known: "list_all (\<lambda>c. c \<in> set KNOWN_ENTITY_TYPES) alias_targets"
  by (simp add: KNOWN_ENTITY_TYPES_def alias_targets_def)

lemma alias_target:
  assumes "map_of ENTITY_ALIASES u = Some c"
  shows "str_upper c = c" and "map_of ENTITY_ALIASES c = None" and "c \<in> set KNOWN_ENTITY_TYPES"
proof -
  have "c \<in> set alias_targets"
    using map_of_SomeD [OF assms] alias_targets_complete by (auto simp: list_all_iff)
  then show "str_upper c = c" and "map_of ENTITY_ALIASES c = None" and "c \<in> set KNOWN_ENTITY_TYPES"
    using alias_targets_upper alias_targets_no_alias alias_targets_known
    by (auto simp: list_all_iff)
qed

text \<open>
  Normalising an entity type yields a canonical form: normalising again changes nothing,
  the spelling's case does not matter, and the normal form of a known type is known.
\<close>

theorem normalize_entity_type_canonical:
  "normalize_entity_type (normalize_entity_type t) = normalize_entity_type t \<and>
   normalize_entity_type (str_upper t) = normalize_entity_type t \<and>
   (validate_entity_type t \<longrightarrow> validate_entity_type (normalize_entity_type t))"
proof (cases "map_of ENTITY_ALIASES (str_upper t)")
  case None
  then show ?thesis
    by (simp add: normalize_entity_type_def validate_entity_type_def)
next
  case (Some c)
  with alias_target [OF Some] show ?thesis
    by (simp add: normalize_entity_type_def validate_entity_type_def)
qed

theorem normalize_entity_type_canonical_witness:
  "validate_entity_type ''us_ssn'' \<and> validate_entity_type (normalize_entity_type ''us_ssn'') \<and>
   normalize_entity_type ''us_ssn'' = ''SSN''"
proof -
  have v: "validate_entity_type ''us_ssn''" and n: "normalize_entity_type ''us_ssn'' = ''SSN''"
    by code_simp+
  from v normalize_entity_type_canonical [of "''us_ssn''"]
  have "validate_entity_type (normalize_entity_type ''us_ssn'')" by blast
  with v n show ?thesis by simp
qed

end
