(* ===== verification/Risk_Scoring.thy ===== *)
theory Risk_Scoring
  imports Entity_Types
begin

text \<open>
  The risk scoring engine, \<^verbatim>\<open>src/openlabels/core/scoring/scorer.py\<close>. The dictionary
  \<open>{entity_type: count}\<close> is an association list in insertion order; weights, categories and
  rules are the source's tables. Scores are reals: \<open>math.log\<close> is \<open>ln\<close>.

  The lemmas show the shape of the co-occurrence loop (it returns the largest multiplier of the
  triggered rules and exactly the rules that attain it), the bounds of the score, and that more
  findings or a wider exposure never lower it.
\<close>

section \<open>Tables\<close>

definition WEIGHT_SCALE :: real where
  "WEIGHT_SCALE = 4"

definition DEFAULT_CONFIDENCE :: real where
  "DEFAULT_CONFIDENCE = 85 / 100"

definition TIER_THRESHOLDS :: "(risk_tier \<times> real) list" where
  "TIER_THRESHOLDS = [(RT_CRITICAL, 80), (RT_HIGH, 55), (RT_MEDIUM, 31), (RT_LOW, 11)]"

definition EXPOSURE_MULTIPLIERS :: "(string \<times> real) list" where
  "EXPOSURE_MULTIPLIERS =
     [(''PRIVATE'', 1), (''INTERNAL'', 12 / 10), (''ORG_WIDE'', 18 / 10), (''PUBLIC'', 25 / 10)]"

definition DEFAULT_WEIGHT :: int where
  "DEFAULT_WEIGHT = 5"

definition ENTITY_WEIGHTS :: "(string \<times> int) list" where
  "ENTITY_WEIGHTS = [
     (''SSN'', 10), (''PASSPORT'', 10), (''CREDIT_CARD'', 10), (''PASSWORD'', 10),
     (''API_KEY'', 10), (''PRIVATE_KEY'', 10), (''AWS_ACCESS_KEY'', 10),
     (''AWS_SECRET_KEY'', 10), (''DATABASE_URL'', 10), (''GITHUB_TOKEN'', 10),
     (''GITLAB_TOKEN'', 10), (''SLACK_TOKEN'', 10), (''STRIPE_KEY'', 10),
     (''CRYPTO_SEED_PHRASE'', 10), (''MRN'', 9), (''DIAGNOSIS'', 9), (''HEALTH_PLAN_ID'', 9),
     (''JWT'', 9), (''DRIVER_LICENSE'', 8), (''NPI'', 8), (''DEA'', 8), (''TAX_ID'', 8),
     (''MILITARY_ID'', 8), (''BITCOIN_ADDRESS'', 7), (''ETHEREUM_ADDRESS'', 7), (''IBAN'', 7),
     (''SWIFT_BIC'', 7), (''PHONE'', 6), (''EMAIL'', 6), (''SENDGRID_KEY'', 6),
     (''TWILIO_KEY'', 6), (''NAME'', 5), (''ADDRESS'', 5), (''IP_ADDRESS'', 5),
     (''MAC_ADDRESS'', 5), (''VIN'', 5), (''CUSIP'', 5), (''ISIN'', 5), (''LEI'', 5),
     (''DATE_DOB'', 5), (''AGE'', 4), (''CLASSIFICATION_LEVEL'', 4), (''DOD_CONTRACT'', 4),
     (''GSA_CONTRACT'', 4), (''CAGE_CODE'', 4), (''UEI'', 4), (''DATE'', 3), (''ZIP'', 3),
     (''CITY'', 2), (''STATE'', 2), (''COUNTRY'', 2), (''TRACKING_NUMBER'', 2),
     (''FACILITY'', 1), (''ORGANIZATION'', 1)]"

definition ENTITY_CATEGORIES :: "(string \<times> string) list" where
  "ENTITY_CATEGORIES = [
     (''SSN'', ''direct_identifier''), (''PASSPORT'', ''direct_identifier''),
     (''DRIVER_LICENSE'', ''direct_identifier''), (''MILITARY_ID'', ''direct_identifier''),
     (''TAX_ID'', ''direct_identifier''), (''MRN'', ''direct_identifier''),
     (''STATE_ID'', ''direct_identifier''), (''DIAGNOSIS'', ''health_info''),
     (''MEDICATION'', ''health_info''), (''HEALTH_PLAN_ID'', ''health_info''),
     (''NPI'', ''health_info''), (''DEA'', ''health_info''), (''LAB_TEST'', ''health_info''),
     (''PROCEDURE'', ''health_info''), (''CREDIT_CARD'', ''financial''),
     (''IBAN'', ''financial''), (''SWIFT_BIC'', ''financial''),
     (''ACCOUNT_NUMBER'', ''financial''), (''CUSIP'', ''financial''),
     (''ISIN'', ''financial''), (''BITCOIN_ADDRESS'', ''financial''),
     (''ETHEREUM_ADDRESS'', ''financial''), (''CRYPTO_SEED_PHRASE'', ''financial''),
     (''EMAIL'', ''contact''), (''PHONE'', ''contact''), (''ADDRESS'', ''contact''),
     (''ZIP'', ''contact''), (''FAX'', ''contact''), (''PASSWORD'', ''credential''),
     (''API_KEY'', ''credential''), (''PRIVATE_KEY'', ''credential''),
     (''JWT'', ''credential''), (''AWS_ACCESS_KEY'', ''credential''),
     (''AWS_SECRET_KEY'', ''credential''), (''GITHUB_TOKEN'', ''credential''),
     (''GITLAB_TOKEN'', ''credential''), (''SLACK_TOKEN'', ''credential''),
     (''STRIPE_KEY'', ''credential''), (''DATABASE_URL'', ''credential''),
     (''NAME'', ''quasi_identifier''), (''DATE_DOB'', ''quasi_identifier''),
     (''AGE'', ''quasi_identifier''), (''DATE'', ''quasi_identifier''),
     (''CLASSIFICATION_LEVEL'', ''classification_marking''),
     (''CLASSIFICATION_MARKING'', ''classification_marking''),
     (''SCI_MARKING'', ''classification_marking''),
     (''DISSEMINATION_CONTROL'', ''classification_marking'')]"

definition CO_OCCURRENCE_RULES :: "(string list \<times> real \<times> string) list" where
  "CO_OCCURRENCE_RULES = [
     ([''direct_identifier'', ''health_info''], 2, ''hipaa_phi''),
     ([''direct_identifier'', ''financial''], 9 / 5, ''identity_theft''),
     ([''credential''], 3 / 2, ''credential_exposure''),
     ([''quasi_identifier'', ''health_info''], 3 / 2, ''phi_without_id''),
     ([''contact'', ''health_info''], 7 / 5, ''phi_with_contact''),
     ([''direct_identifier'', ''quasi_identifier'', ''financial''], 11 / 5, ''full_identity''),
     ([''classification_marking''], 5 / 2, ''classified_data'')]"

section \<open>Scoring functions\<close>

type_synonym entity_dict = "(string \<times> int) list"

definition get_weight :: "string \<Rightarrow> int" where
  "get_weight entity_type =
     (case map_of ENTITY_WEIGHTS (normalize_entity_type entity_type) of
        Some w \<Rightarrow> w | None \<Rightarrow> DEFAULT_WEIGHT)"

definition get_category :: "string \<Rightarrow> string" where
  "get_category entity_type =
     (case map_of ENTITY_CATEGORIES (normalize_entity_type entity_type) of
        Some c \<Rightarrow> c | None \<Rightarrow> ''unknown'')"

fun get_categories :: "entity_dict \<Rightarrow> string set" where
  "get_categories [] = {}"
| "get_categories ((entity_type, n) # rest) =
     (let cat = get_category entity_type
      in (if cat \<noteq> [] \<and> cat \<noteq> ''unknown'' then insert cat (get_categories rest)
          else get_categories rest))"

fun co_occurrence_loop ::
  "string set \<Rightarrow> (string list \<times> real \<times> string) list \<Rightarrow> real \<Rightarrow> string list \<Rightarrow> real \<times> string list" where
  "co_occurrence_loop cats [] max_mult triggered = (max_mult, triggered)"
| "co_occurrence_loop cats ((required_cats, mult, rule_name) # rules) max_mult triggered =
     (if set required_cats \<subseteq> cats
      then (if mult > max_mult then co_occurrence_loop cats rules mult [rule_name]
            else if mult = max_mult then co_occurrence_loop cats rules max_mult (triggered @ [rule_name])
            else co_occurrence_loop cats rules max_mult triggered)
      else co_occurrence_loop cats rules max_mult triggered)"

definition get_co_occurrence_multiplier :: "entity_dict \<Rightarrow> real \<times> string list" where
  "get_co_occurrence_multiplier entities =
     (if entities = [] then (1, [])
      else co_occurrence_loop (get_categories entities) CO_OCCURRENCE_RULES 1 [])"

definition entity_score :: "real \<Rightarrow> string \<times> int \<Rightarrow> real" where
  "entity_score confidence e =
     real_of_int (get_weight (fst e)) * WEIGHT_SCALE
       * (1 + ln (real_of_int (max 1 (snd e)))) * confidence"

definition calculate_content_score :: "entity_dict \<Rightarrow> real \<Rightarrow> real" where
  "calculate_content_score entities confidence =
     (if entities = [] then 0
      else (let base_score = foldl (\<lambda>acc e. acc + entity_score confidence e) 0 entities;
                multiplier = fst (get_co_occurrence_multiplier entities)
            in min 100 (base_score * multiplier)))"

definition tier_threshold :: "risk_tier \<Rightarrow> real" where
  "tier_threshold t = (case map_of TIER_THRESHOLDS t of Some x \<Rightarrow> x | None \<Rightarrow> 0)"

definition score_to_tier :: "real \<Rightarrow> risk_tier" where
  "score_to_tier s =
     (if s \<ge> tier_threshold RT_CRITICAL then RT_CRITICAL
      else if s \<ge> tier_threshold RT_HIGH then RT_HIGH
      else if s \<ge> tier_threshold RT_MEDIUM then RT_MEDIUM
      else if s \<ge> tier_threshold RT_LOW then RT_LOW
      else RT_MINIMAL)"

record scoring_result =
  sr_score :: int
  sr_tier :: risk_tier
  sr_content_score :: real
  sr_exposure_multiplier :: real
  sr_co_occurrence_multiplier :: real
  sr_co_occurrence_rules :: "string list"
  sr_categories :: "string set"
  sr_exposure :: string

definition exposure_multiplier :: "string \<Rightarrow> real" where
  "exposure_multiplier exposure =
     (case map_of EXPOSURE_MULTIPLIERS (str_upper exposure) of Some m \<Rightarrow> m | None \<Rightarrow> 1)"

definition risk_score :: "entity_dict \<Rightarrow> string \<Rightarrow> real \<Rightarrow> scoring_result" where
  "risk_score entities exposure confidence =
     (let content_score = calculate_content_score entities confidence;
          co = get_co_occurrence_multiplier entities;
          exp_mult = exposure_multiplier exposure;
          final_score = min 100 (content_score * exp_mult);
          tier = score_to_tier final_score
      in \<lparr>sr_score = py_round final_score, sr_tier = tier,
          sr_content_score = of_int (py_round (content_score * 10)) / 10,
          sr_exposure_multiplier = exp_mult, sr_co_occurrence_multiplier = fst co,
          sr_co_occurrence_rules = snd co, sr_categories = get_categories entities,
          sr_exposure = str_upper exposure\<rparr>)"

section \<open>Tables: range facts\<close>

lemma entity_weights_range: "list_all (\<lambda>(k, w). 1 \<le> w \<and> w \<le> 10) ENTITY_WEIGHTS"
  by (simp add: ENTITY_WEIGHTS_def)

lemma get_weight_range: "1 \<le> get_weight t \<and> get_weight t \<le> 10"
proof (cases "map_of ENTITY_WEIGHTS (normalize_entity_type t)")
  case (Some w)
  then have "(normalize_entity_type t, w) \<in> set ENTITY_WEIGHTS" by (rule map_of_SomeD)
  with entity_weights_range Some show ?thesis
    by (auto simp: get_weight_def list_all_iff)
qed (simp add: get_weight_def DEFAULT_WEIGHT_def)

lemma exposure_multiplier_range: "1 \<le> exposure_multiplier e \<and> exposure_multiplier e \<le> 5 / 2"
  by (auto simp: exposure_multiplier_def EXPOSURE_MULTIPLIERS_def split: option.splits if_splits)

lemma rules_above_one: "list_all (\<lambda>(req, m, n). 1 < m) CO_OCCURRENCE_RULES"
  by (simp add: CO_OCCURRENCE_RULES_def)

section \<open>The co-occurrence loop\<close>

definition triggered_rules ::
  "string set \<Rightarrow> (string list \<times> real \<times> string) list \<Rightarrow> (string list \<times> real \<times> string) list" where
  "triggered_rules cats rules = filter (\<lambda>(req, m, n). set req \<subseteq> cats) rules"

definition best_multiplier :: "real \<Rightarrow> (string list \<times> real \<times> string) list \<Rightarrow> real" where
  "best_multiplier b rules = foldr (\<lambda>(req, m, n) acc. max m acc) rules b"

definition rules_at :: "real \<Rightarrow> (string list \<times> real \<times> string) list \<Rightarrow> string list" where
  "rules_at m rules = map (\<lambda>(req, k, n). n) (filter (\<lambda>(req, k, n). k = m) rules)"

lemma best_multiplier_simps [simp]:
  "best_multiplier b [] = b"
  "best_multiplier b ((req, m, n) # rs) = max m (best_multiplier b rs)"
  by (simp_all add: best_multiplier_def)

lemma rules_at_simps [simp]:
  "rules_at m [] = []"
  "rules_at m ((req, k, n) # rs) = (if k = m then n # rules_at m rs else rules_at m rs)"
  by (simp_all add: rules_at_def)

lemma triggered_rules_simps [simp]:
  "triggered_rules cats [] = []"
  "triggered_rules cats ((req, k, n) # rs) =
     (if set req \<subseteq> cats then (req, k, n) # triggered_rules cats rs else triggered_rules cats rs)"
  by (simp_all add: triggered_rules_def)

lemma best_multiplier_ge: "b \<le> best_multiplier b rs"
  by (induction rs) (auto simp: max_def)

lemma best_multiplier_max: "best_multiplier (max a b) rs = max a (best_multiplier b rs)"
  by (induction rs) (auto simp: max.left_commute)

lemma best_multiplier_mono_base: "a \<le> b \<Longrightarrow> best_multiplier a rs \<le> best_multiplier b rs"
  by (induction rs) (auto simp: max_def)

lemma rules_at_above: "best_multiplier b rs < m \<Longrightarrow> rules_at m rs = []"
  by (induction rs) auto

lemma co_occurrence_loop_eq:
  "co_occurrence_loop cats rules b acc =
     (let trig = triggered_rules cats rules; m = best_multiplier b trig
      in (m, (if m = b then acc else []) @ rules_at m trig))"
proof (induction cats rules b acc rule: co_occurrence_loop.induct)
  case (1 cats b acc)
  then show ?case by simp
next
  case (2 cats req m n rules b acc)
  let ?t = "triggered_rules cats rules"
  show ?case
  proof (cases "set req \<subseteq> cats")
    case False
    with 2 show ?thesis by simp
  next
    case True
    have mb: "best_multiplier (max m b) ?t = max m (best_multiplier b ?t)"
      by (rule best_multiplier_max)
    consider "m > b" | "m = b" | "m < b" by linarith
    then show ?thesis
    proof cases
      case 1
      with mb have "best_multiplier m ?t = max m (best_multiplier b ?t)" by (simp add: max_def)
      moreover have "b \<le> best_multiplier b ?t" by (rule best_multiplier_ge)
      ultimately show ?thesis using True 1 2 by (auto simp: Let_def max_def)
    next
      case 2
      with True "2.IH" show ?thesis
        using best_multiplier_ge [of b ?t] by (auto simp: Let_def max_def)
    next
      case 3
      with True "2.IH" show ?thesis
        using best_multiplier_ge [of b ?t] by (auto simp: Let_def max_def)
    qed
  qed
qed

lemma co_occurrence_ge_1: "1 \<le> fst (get_co_occurrence_multiplier es)"
  by (simp add: get_co_occurrence_multiplier_def co_occurrence_loop_eq Let_def best_multiplier_ge)

lemma best_multiplier_triggered_mono:
  "A \<subseteq> B \<Longrightarrow> best_multiplier b (triggered_rules A rs) \<le> best_multiplier b (triggered_rules B rs)"
proof (induction rs)
  case (Cons r rs)
  obtain req m n where "r = (req, m, n)" by (cases r)
  with Cons show ?case by (auto simp: max_def le_max_iff_disj)
qed simp

text \<open>
  C19: The co-occurrence multiplier is the largest multiplier among the rules all of whose
  categories are present, or 1 when none is, and the reported rules are exactly the triggered
  rules with that multiplier, in the order of the table.
\<close>

theorem co_occurrence_multiplier_is_max:
  "fst (get_co_occurrence_multiplier es) =
     Max (insert 1 {m. \<exists>req n. (req, m, n) \<in> set CO_OCCURRENCE_RULES \<and> set req \<subseteq> get_categories es}) \<and>
   snd (get_co_occurrence_multiplier es) =
     [n. (req, m, n) \<leftarrow> CO_OCCURRENCE_RULES, set req \<subseteq> get_categories es,
         m = fst (get_co_occurrence_multiplier es)]"
proof -
  let ?trig = "triggered_rules (get_categories es) CO_OCCURRENCE_RULES"
  have empty: "triggered_rules {} CO_OCCURRENCE_RULES = []"
    by (simp add: CO_OCCURRENCE_RULES_def)
  have eq: "get_co_occurrence_multiplier es = (best_multiplier 1 ?trig, rules_at (best_multiplier 1 ?trig) ?trig)"
    by (cases "es = []") (simp_all add: get_co_occurrence_multiplier_def co_occurrence_loop_eq Let_def empty)
  have max: "best_multiplier b rs = Max (insert b ((\<lambda>(req, m, n). m) ` set rs))" for b rs
  proof (induction rs)
    case (Cons r rs)
    obtain req m n where "r = (req, m, n)" by (cases r)
    with Cons show ?case by (simp add: insert_commute [of b])
  qed simp
  have mults: "(\<lambda>(req, m, n). m) ` set ?trig =
      {m. \<exists>req n. (req, m, n) \<in> set CO_OCCURRENCE_RULES \<and> set req \<subseteq> get_categories es}"
    unfolding triggered_rules_def by force
  have names: "rules_at m (triggered_rules C rs) =
      [n. (req, k, n) \<leftarrow> rs, set req \<subseteq> C, k = m]" for m C rs
    by (induction rs) auto
  show ?thesis
    unfolding eq fst_conv snd_conv names max mults by (rule conjI) (rule refl)+
qed

section \<open>Bounds and monotonicity of the score\<close>

lemma content_sum:
  "foldl (\<lambda>acc e. acc + entity_score c e) b es = b + sum_list (map (entity_score c) es)"
  by (induction es arbitrary: b) auto

lemma entity_score_nonneg: "0 \<le> c \<Longrightarrow> 0 \<le> entity_score c e"
  using get_weight_range [of "fst e"]
  by (auto simp: entity_score_def WEIGHT_SCALE_def intro!: mult_nonneg_nonneg add_nonneg_nonneg)

lemma entity_score_mono:
  assumes "n \<le> n'" and "0 \<le> c" and "c \<le> c'"
  shows "entity_score c (k, n) \<le> entity_score c' (k, n')"
proof -
  have "ln (real_of_int (max 1 n)) \<le> ln (real_of_int (max 1 n'))"
    using assms(1) by (subst ln_le_cancel_iff) auto
  then show ?thesis
    using assms get_weight_range [of k]
    unfolding entity_score_def WEIGHT_SCALE_def fst_conv snd_conv
    by (intro mult_mono) (auto intro!: mult_nonneg_nonneg add_nonneg_nonneg)
qed

lemma content_nonneg: "0 \<le> c \<Longrightarrow> 0 \<le> sum_list (map (entity_score c) es)"
  by (intro sum_list_nonneg) (auto simp: entity_score_nonneg)

lemma content_score_bounds: "0 \<le> c \<Longrightarrow> 0 \<le> calculate_content_score es c \<and> calculate_content_score es c \<le> 100"
  using co_occurrence_ge_1 [of es] content_nonneg [of c es]
  by (auto simp: calculate_content_score_def content_sum Let_def intro!: mult_nonneg_nonneg)

lemma score_to_tier_mono: "a \<le> b \<Longrightarrow> score_to_tier a \<le> score_to_tier b"
  by (auto simp: score_to_tier_def tier_threshold_def TIER_THRESHOLDS_def less_eq_risk_tier_def)

lemma score_to_tier_of_int:
  "score_to_tier x \<le> score_to_tier (of_int (py_round x))"
  "of_int (py_round x) \<le> x \<Longrightarrow> score_to_tier (of_int (py_round x)) = score_to_tier x"
proof -
  have thr: "of_int k \<le> x \<Longrightarrow> k \<le> py_round x" for k :: int
    using py_round_mono [of "of_int k" x] by simp
  show le: "score_to_tier x \<le> score_to_tier (of_int (py_round x))"
    using thr [of 80] thr [of 55] thr [of 31] thr [of 11]
    by (auto simp: score_to_tier_def tier_threshold_def TIER_THRESHOLDS_def less_eq_risk_tier_def)
  show "score_to_tier (of_int (py_round x)) = score_to_tier x" if "of_int (py_round x) \<le> x"
    using le score_to_tier_mono [OF that] by simp
qed

text \<open>A dictionary grows when counts rise and new entity types are appended.\<close>

fun entities_le :: "entity_dict \<Rightarrow> entity_dict \<Rightarrow> bool" where
  "entities_le [] es' \<longleftrightarrow> True"
| "entities_le (e # es) [] \<longleftrightarrow> False"
| "entities_le ((k, n) # es) ((k', n') # es') \<longleftrightarrow> k = k' \<and> n \<le> n' \<and> entities_le es es'"

lemma get_categories_mono: "entities_le es es' \<Longrightarrow> get_categories es \<subseteq> get_categories es'"
  by (induction es es' rule: entities_le.induct) (auto simp: Let_def)

lemma co_occurrence_mono:
  assumes "entities_le es es'"
  shows "fst (get_co_occurrence_multiplier es) \<le> fst (get_co_occurrence_multiplier es')"
proof (cases "es = []")
  case True
  then show ?thesis using co_occurrence_ge_1 [of es'] by (simp add: get_co_occurrence_multiplier_def)
next
  case False
  with assms have "es' \<noteq> []" by (cases es; cases es') auto
  with False show ?thesis
    by (simp add: get_co_occurrence_multiplier_def co_occurrence_loop_eq Let_def
        best_multiplier_triggered_mono get_categories_mono [OF assms])
qed

lemma content_sum_mono:
  assumes "0 \<le> c" and "c \<le> c'"
  shows "entities_le es es' \<Longrightarrow>
    sum_list (map (entity_score c) es) \<le> sum_list (map (entity_score c') es')"
proof (induction es es' rule: entities_le.induct)
  case (1 es')
  show ?case using assms content_nonneg [of c' es'] by simp
next
  case (3 k n es k' n' es')
  then show ?case using entity_score_mono [of n n' c c' k] assms by (auto intro: add_mono)
qed simp

lemma content_score_mono:
  assumes "entities_le es es'" and "0 \<le> c" and "c \<le> c'"
  shows "calculate_content_score es c \<le> calculate_content_score es' c'"
proof (cases "es = []")
  case True
  then show ?thesis using content_score_bounds [of c' es'] assms by (simp add: calculate_content_score_def)
next
  case False
  with assms(1) have "es' \<noteq> []" by (cases es; cases es') auto
  moreover have "sum_list (map (entity_score c) es) * fst (get_co_occurrence_multiplier es)
      \<le> sum_list (map (entity_score c') es') * fst (get_co_occurrence_multiplier es')"
    using content_sum_mono [OF assms(2,3,1)] co_occurrence_mono [OF assms(1)]
      content_nonneg [of c' es'] co_occurrence_ge_1 [of es] assms
    by (intro mult_mono) auto
  ultimately show ?thesis
    using False by (simp add: calculate_content_score_def content_sum Let_def min_def)
qed

lemma final_score_bounds:
  assumes "0 \<le> c"
  shows "0 \<le> min 100 (calculate_content_score es c * exposure_multiplier ex)"
    and "min 100 (calculate_content_score es c * exposure_multiplier ex) \<le> 100"
  using content_score_bounds [OF assms, of es] exposure_multiplier_range [of ex] by auto

lemma normalize_SSN: "normalize_entity_type ''SSN'' = ''SSN''"
  by code_simp

lemma ssn_content: "calculate_content_score [(''SSN'', 1)] c = min 100 (40 * c)"
  by (simp add: calculate_content_score_def entity_score_def get_weight_def normalize_SSN
      ENTITY_WEIGHTS_def WEIGHT_SCALE_def get_co_occurrence_multiplier_def get_category_def
      ENTITY_CATEGORIES_def CO_OCCURRENCE_RULES_def)

lemma score_to_tier_bands:
  "score_to_tier x = RT_CRITICAL \<longleftrightarrow> 80 \<le> x"
  "score_to_tier x = RT_HIGH \<longleftrightarrow> 55 \<le> x \<and> x < 80"
  "score_to_tier x = RT_MEDIUM \<longleftrightarrow> 31 \<le> x \<and> x < 55"
  "score_to_tier x = RT_LOW \<longleftrightarrow> 11 \<le> x \<and> x < 31"
  "score_to_tier x = RT_MINIMAL \<longleftrightarrow> x < 11"
  by (simp_all add: score_to_tier_def tier_threshold_def TIER_THRESHOLDS_def)

text \<open>
  C20: For a non-negative confidence let \<open>f\<close> be the content score times the exposure
  multiplier, capped at 100. The reported score is an integer from 0 to 100 at a distance of at
  most one half from \<open>f\<close>. The reported tier is the band of \<open>f\<close> itself, before rounding:
  critical from 80, high from 55, medium from 31, low from 11, minimal below. So it is never
  above the band of the reported score, and below it only where the rounding raised the score.
\<close>

theorem risk_score_bounds:
  assumes "0 \<le> c" and "f = min 100 (calculate_content_score es c * exposure_multiplier ex)"
    and "r = risk_score es ex c"
  shows "0 \<le> sr_score r \<and> sr_score r \<le> 100 \<and> \<bar>of_int (sr_score r) - f\<bar> \<le> 1 / 2 \<and>
    (sr_tier r = RT_CRITICAL \<longleftrightarrow> 80 \<le> f) \<and>
    (sr_tier r = RT_HIGH \<longleftrightarrow> 55 \<le> f \<and> f < 80) \<and>
    (sr_tier r = RT_MEDIUM \<longleftrightarrow> 31 \<le> f \<and> f < 55) \<and>
    (sr_tier r = RT_LOW \<longleftrightarrow> 11 \<le> f \<and> f < 31) \<and>
    (sr_tier r = RT_MINIMAL \<longleftrightarrow> f < 11) \<and>
    sr_tier r \<le> score_to_tier (of_int (sr_score r)) \<and>
    (of_int (sr_score r) \<le> f \<longrightarrow> sr_tier r = score_to_tier (of_int (sr_score r)))"
proof -
  have r: "sr_score r = py_round f" "sr_tier r = score_to_tier f"
    by (simp_all add: assms(2,3) risk_score_def Let_def)
  have "0 \<le> f" and "f \<le> 100" using final_score_bounds [OF assms(1), of es ex] assms(2) by auto
  then have "0 \<le> py_round f \<and> py_round f \<le> 100"
    using py_round_mono [of 0 f] py_round_mono [of f 100] py_round_of_int [of 0] py_round_of_int [of 100]
    by simp
  moreover have "\<bar>of_int (py_round f) - f\<bar> \<le> 1 / 2" using py_round_bounds [of f] by linarith
  ultimately show ?thesis
    using score_to_tier_of_int [of f] by (simp add: r score_to_tier_bands)
qed

theorem risk_score_bounds_witness:
  "sr_tier (risk_score [(''SSN'', 1)] ''PRIVATE'' 1) = RT_MEDIUM"
proof -
  have "str_upper ''PRIVATE'' = ''PRIVATE''" by code_simp
  then have "calculate_content_score [(''SSN'', 1)] 1 * exposure_multiplier ''PRIVATE'' = 40"
    by (simp add: ssn_content exposure_multiplier_def EXPOSURE_MULTIPLIERS_def)
  then show ?thesis
    using risk_score_bounds [of 1 40 "[(''SSN'', 1)]" "''PRIVATE''"] by simp
qed

text \<open>
  C21: More findings never lower the risk: when counts rise, entity types are added, the
  confidence rises or the exposure multiplier rises, neither the score nor the tier drops.
\<close>

theorem risk_score_monotone:
  assumes "entities_le es es'" and "0 \<le> c" and "c \<le> c'"
    and "exposure_multiplier ex \<le> exposure_multiplier ex'"
  shows "sr_score (risk_score es ex c) \<le> sr_score (risk_score es' ex' c') \<and>
    sr_tier (risk_score es ex c) \<le> sr_tier (risk_score es' ex' c')"
proof -
  have "calculate_content_score es c * exposure_multiplier ex
      \<le> calculate_content_score es' c' * exposure_multiplier ex'"
    using content_score_mono [OF assms(1-3)] assms content_score_bounds [of c' es']
      exposure_multiplier_range [of ex] by (intro mult_mono) auto
  then have "min 100 (calculate_content_score es c * exposure_multiplier ex)
      \<le> min 100 (calculate_content_score es' c' * exposure_multiplier ex')"
    by simp
  then show ?thesis
    using py_round_mono score_to_tier_mono by (simp add: risk_score_def Let_def)
qed

theorem risk_score_monotone_witness:
  "sr_score (risk_score [(''SSN'', 1)] ''PRIVATE'' 1)
     \<le> sr_score (risk_score [(''SSN'', 3), (''DIAGNOSIS'', 1)] ''public'' 1)"
proof -
  have "str_upper ''PRIVATE'' = ''PRIVATE''" and "str_upper ''public'' = ''PUBLIC''"
    by code_simp+
  then have "exposure_multiplier ''PRIVATE'' \<le> exposure_multiplier ''public''"
    by (simp add: exposure_multiplier_def EXPOSURE_MULTIPLIERS_def)
  then show ?thesis
    using risk_score_monotone [of "[(''SSN'', 1)]" "[(''SSN'', 3), (''DIAGNOSIS'', 1)]" 1 1
        "''PRIVATE''" "''public''"] by simp
qed

text \<open>
  The tier is computed from the score before rounding, so the reported integer score and
  the reported tier can disagree with the documented bands: one SSN at confidence 0.76 with
  exposure ORG_WIDE scores 55, the documented lower end of HIGH, and is reported as MEDIUM.
\<close>

theorem risk_score_tier_band_mismatch:
  "sr_score (risk_score [(''SSN'', 1)] ''ORG_WIDE'' (76 / 100)) = 55 \<and>
   sr_tier (risk_score [(''SSN'', 1)] ''ORG_WIDE'' (76 / 100)) = RT_MEDIUM \<and>
   score_to_tier 55 = RT_HIGH"
proof -
  have "str_upper ''ORG_WIDE'' = ''ORG_WIDE''" by code_simp
  then have e: "exposure_multiplier ''ORG_WIDE'' = 18 / 10"
    by (simp add: exposure_multiplier_def EXPOSURE_MULTIPLIERS_def)
  have "\<lfloor>1368 / 25 :: real\<rfloor> = 54" by (simp add: floor_eq_iff)
  then show ?thesis
    by (simp add: risk_score_def Let_def ssn_content e py_round_def score_to_tier_def
        tier_threshold_def TIER_THRESHOLDS_def)
qed

end
