(* ===== verification/Span_Resolution.thy ===== *)
theory Span_Resolution
  imports Entity_Types
begin

text \<open>
  Overlap resolution, \<^verbatim>\<open>src/openlabels/core/pipeline/span_resolver.py\<close>. \<open>merge_scan\<close> is the inner
  \<open>while i >= 0\<close> loop of \<open>_deduplicate\<close> over the list of accepted spans (its last argument
  is the loop index plus one), \<open>place_span\<close> one round of the outer loop, \<open>deduplicate\<close>
  and \<open>resolve_spans\<close> the functions of the same name. A merged span is built by the
  constructor of \<open>Entity_Types\<close>, so its validation may raise.

  \<open>push\<close> is the specification of a round: it looks at the last accepted span only. On sorted
  well-formed input the scan refines it (\<open>place_span_push\<close>), from which the invariant of the
  pass follows: the accepted spans are well formed, ordered and disjoint.
\<close>

section \<open>The resolver\<close>

datatype overlap_strategy = HIGHER_TIER | HIGHER_CONFIDENCE | LONGER_SPAN

definition outranks :: "span \<Rightarrow> span \<Rightarrow> bool" where
  "outranks a b \<longleftrightarrow>
     tier_value (sp_tier a) > tier_value (sp_tier b)
     \<or> (tier_value (sp_tier a) = tier_value (sp_tier b) \<and> sp_confidence a > sp_confidence b)"

fun compare_by_strategy :: "span \<Rightarrow> span \<Rightarrow> overlap_strategy \<Rightarrow> bool" where
  "compare_by_strategy candidate incumbent HIGHER_TIER \<longleftrightarrow>
     tier_value (sp_tier candidate) > tier_value (sp_tier incumbent)
     \<or> (tier_value (sp_tier candidate) = tier_value (sp_tier incumbent)
        \<and> sp_confidence candidate > sp_confidence incumbent)"
| "compare_by_strategy candidate incumbent LONGER_SPAN \<longleftrightarrow>
     (let cand_len = sp_end candidate - sp_start candidate;
          inc_len = sp_end incumbent - sp_start incumbent
      in cand_len > inc_len
         \<or> (cand_len = inc_len \<and> sp_confidence candidate > sp_confidence incumbent))"
| "compare_by_strategy candidate incumbent HIGHER_CONFIDENCE \<longleftrightarrow>
     sp_confidence candidate > sp_confidence incumbent
     \<or> (sp_confidence candidate = sp_confidence incumbent
        \<and> tier_value (sp_tier candidate) > tier_value (sp_tier incumbent))"

definition merge_spans :: "span \<Rightarrow> span \<Rightarrow> value_error + span" where
  "merge_spans accepted sp =
     (let new_start = min (sp_start accepted) (sp_start sp);
          new_end = max (sp_end accepted) (sp_end sp);
          (left, right) = (if sp_start accepted \<le> sp_start sp then (accepted, sp) else (sp, accepted));
          overlap_chars = sp_end left - sp_start right;
          merged_text = sp_text left @ slice_from (sp_text right) overlap_chars;
          base = (if outranks sp accepted then sp else accepted)
      in mk_span new_start new_end merged_text (sp_entity_type base)
           (max (sp_confidence accepted) (sp_confidence sp)) (sp_detector base) (sp_tier base))"

definition list_pop :: "'a list \<Rightarrow> nat \<Rightarrow> 'a list" where
  "list_pop xs i = take i xs @ drop (Suc i) xs"

text \<open>The result is the (possibly merged) span, the accepted spans and whether the span was
  absorbed.\<close>

fun merge_scan ::
  "overlap_strategy \<Rightarrow> span \<Rightarrow> span list \<Rightarrow> nat \<Rightarrow> value_error + (span \<times> span list \<times> bool)" where
  "merge_scan strategy sp res 0 = Inr (sp, res, False)"
| "merge_scan strategy sp res (Suc i) =
     (let accepted = res ! i in
      if sp_end accepted \<le> sp_start sp then Inr (sp, res, False)
      else if \<not> overlaps accepted sp then merge_scan strategy sp res i
      else if sp_start sp = sp_start accepted \<and> sp_end sp = sp_end accepted then
        Inr (sp, if outranks sp accepted then res[i := sp] else res, True)
      else if contains accepted sp then Inr (sp, res, True)
      else if contains sp accepted then merge_scan strategy sp (list_pop res i) i
      else if normalize_entity_type (sp_entity_type accepted)
                = normalize_entity_type (sp_entity_type sp) then
        res_bind (merge_spans accepted sp) (\<lambda>m. merge_scan strategy m (list_pop res i) i)
      else if compare_by_strategy sp accepted strategy then
        merge_scan strategy sp (list_pop res i) i
      else Inr (sp, res, True))"

definition place_span :: "overlap_strategy \<Rightarrow> span list \<Rightarrow> span \<Rightarrow> value_error + span list" where
  "place_span strategy res sp =
     res_bind (merge_scan strategy sp res (length res))
       (\<lambda>(sp', res', absorbed). Inr (if absorbed then res' else res' @ [sp']))"

fun place_all :: "overlap_strategy \<Rightarrow> span list \<Rightarrow> span list \<Rightarrow> value_error + span list" where
  "place_all strategy res [] = Inr res"
| "place_all strategy res (sp # sps) =
     res_bind (place_span strategy res sp) (\<lambda>res'. place_all strategy res' sps)"

definition dedup_key :: "span \<Rightarrow> int \<times> int \<times> real" where
  "dedup_key s = (sp_start s, - tier_value (sp_tier s), - sp_confidence s)"

definition deduplicate :: "span list \<Rightarrow> overlap_strategy \<Rightarrow> value_error + span list" where
  "deduplicate spans strategy =
     (if spans = [] then Inr [] else place_all strategy [] (sort_key dedup_key spans))"

definition resolve_spans :: "span list \<Rightarrow> real \<Rightarrow> overlap_strategy \<Rightarrow> value_error + span list" where
  "resolve_spans spans confidence_threshold strategy =
     (if spans = [] then Inr []
      else res_bind (deduplicate (filter (\<lambda>s. sp_confidence s \<ge> confidence_threshold) spans) strategy)
        (\<lambda>deduped. Inr (sort_key (\<lambda>s. (sp_start s, - sp_end s)) deduped)))"

section \<open>Tie breaking\<close>

text \<open>What the resolver needs of a strategy: it never lets two spans beat each other. Then the
  span that survives a partial overlap is never beaten by the one that is dropped.\<close>

locale tie_break =
  fixes wins :: "span \<Rightarrow> span \<Rightarrow> bool"
  assumes wins_asym: "wins a b \<Longrightarrow> \<not> wins b a"
begin

definition survivor :: "span \<Rightarrow> span \<Rightarrow> span" where
  "survivor candidate incumbent = (if wins candidate incumbent then candidate else incumbent)"

lemma wins_irrefl: "\<not> wins a a"
  using wins_asym by blast

lemma survivor_unbeaten: "\<not> wins a (survivor a b) \<and> \<not> wins b (survivor a b)"
  using wins_asym wins_irrefl by (auto simp: survivor_def)

end

interpretation strategy_wins: tie_break "\<lambda>c i. compare_by_strategy c i strategy" for strategy
  by unfold_locales (cases strategy; auto simp: Let_def)

interpretation rank_wins: tie_break outranks
  by unfold_locales (auto simp: outranks_def)

section \<open>The specification of a round\<close>

definition push :: "overlap_strategy \<Rightarrow> span list \<Rightarrow> span \<Rightarrow> span list" where
  "push strategy res sp =
     (if res = [] then [sp]
      else let a = last res in
        if sp_end a \<le> sp_start sp then res @ [sp]
        else if sp_start sp = sp_start a \<and> sp_end sp = sp_end a then
          butlast res @ [rank_wins.survivor sp a]
        else if contains a sp then res
        else if contains sp a then butlast res @ [sp]
        else if normalize_entity_type (sp_entity_type a) = normalize_entity_type (sp_entity_type sp)
          then butlast res @ [projr (merge_spans a sp)]
        else butlast res @ [strategy_wins.survivor strategy sp a])"

text \<open>The invariant of the pass.\<close>

definition disjoint_ordered :: "span list \<Rightarrow> bool" where
  "disjoint_ordered R \<longleftrightarrow> sorted_wrt (\<lambda>a b. sp_end a \<le> sp_start b) R \<and> list_all wf_span R"

lemma disjoint_ordered_simps [simp]:
  "disjoint_ordered []"
  "disjoint_ordered (R @ [a]) \<longleftrightarrow>
     disjoint_ordered R \<and> wf_span a \<and> list_all (\<lambda>b. sp_end b \<le> sp_start a) R"
  by (auto simp: disjoint_ordered_def sorted_wrt_append list_all_iff)

lemma list_pop_last [simp]: "list_pop (R @ [a]) (length R) = R"
  by (simp add: list_pop_def)

lemma merge_spans_ok:
  assumes a: "wf_span a" and s: "wf_span s" and le: "sp_start a \<le> sp_start s"
    and ov: "sp_start s \<le> sp_end a" and ends: "sp_end a \<le> sp_end s"
  shows "\<exists>m. merge_spans a s = Inr m \<and> wf_span m \<and> sp_start m = sp_start a \<and> sp_end m = sp_end s \<and>
    sp_text m = sp_text a @ slice_from (sp_text s) (sp_end a - sp_start s) \<and>
    sp_confidence m = max (sp_confidence a) (sp_confidence s) \<and>
    sp_entity_type m = sp_entity_type (if outranks s a then s else a)"
proof -
  let ?b = "if outranks s a then s else a"
  let ?t = "sp_text a @ slice_from (sp_text s) (sp_end a - sp_start s)"
  have "int (length ?t) = sp_end s - sp_start a"
    using a s le ov ends by (simp add: slice_from_nonneg wf_span_def) arith
  moreover have "merge_spans a s = mk_span (sp_start a) (sp_end s) ?t (sp_entity_type ?b)
      (max (sp_confidence a) (sp_confidence s)) (sp_detector ?b) (sp_tier ?b)"
    using le ends by (simp add: merge_spans_def Let_def min_def max_def)
  moreover have "\<exists>m. mk_span (sp_start a) (sp_end s) ?t (sp_entity_type ?b)
      (max (sp_confidence a) (sp_confidence s)) (sp_detector ?b) (sp_tier ?b) = Inr m"
    using a s le ends calculation(1) by (intro mk_span_ok) (auto simp: wf_span_def)
  ultimately show ?thesis by (metis mk_span_Inr)
qed

text \<open>The scan stops at once when every accepted span ends at or before the new one starts.\<close>

lemma merge_scan_clear:
  "list_all (\<lambda>b. sp_end b \<le> sp_start sp) R \<Longrightarrow> merge_scan strategy sp R (length R) = Inr (sp, R, False)"
  by (cases R rule: rev_cases) auto

lemma merge_scan_snoc:
  assumes R: "disjoint_ordered (R @ [a])" and s: "wf_span s" and le: "sp_start a \<le> sp_start s"
  shows "res_bind (merge_scan strategy s (R @ [a]) (length (R @ [a])))
      (\<lambda>(sp', res', absorbed). Inr (if absorbed then res' else res' @ [sp'])) =
    (Inr (push strategy (R @ [a]) s) :: value_error + span list)"
proof (cases "sp_end a \<le> sp_start s")
  case True
  then show ?thesis by (simp add: push_def)
next
  case False
  have wa: "wf_span a" and clear: "list_all (\<lambda>b. sp_end b \<le> sp_start a) R" using R by auto
  then have clear_s: "list_all (\<lambda>b. sp_end b \<le> sp_start s) R"
    using le by (auto simp: list_all_iff)
  have ov: "overlaps a s" using False le s by (auto simp: overlaps_def wf_span_def)
  note scan = merge_scan_clear [OF clear_s]
  show ?thesis
  proof (cases "contains a s \<or> contains s a")
    case True
    then show ?thesis
      using False ov scan
      by (auto simp: push_def rank_wins.survivor_def contains_def Let_def)
  next
    case nc: False
    then have ends: "sp_end a \<le> sp_end s" and ne: "\<not> (sp_start s = sp_start a \<and> sp_end s = sp_end a)"
      using le by (auto simp: contains_def)
    show ?thesis
    proof (cases "normalize_entity_type (sp_entity_type a) = normalize_entity_type (sp_entity_type s)")
      case True
      obtain m where m: "merge_spans a s = Inr m" and "sp_start m = sp_start a"
        using merge_spans_ok [OF wa s le _ ends] False by fastforce
      then have "merge_scan strategy m R (length R) = Inr (m, R, False)"
        using clear by (intro merge_scan_clear) simp
      with True nc ne False ov m show ?thesis by (auto simp: push_def)
    next
      case False
      with nc ne \<open>\<not> sp_end a \<le> sp_start s\<close> ov scan show ?thesis
        by (auto simp: push_def strategy_wins.survivor_def)
    qed
  qed
qed

lemma place_span_push:
  assumes "disjoint_ordered R" and "wf_span s" and "list_all (\<lambda>b. sp_start b \<le> sp_start s) R"
  shows "place_span strategy R s = Inr (push strategy R s)"
proof (cases R rule: rev_cases)
  case Nil
  then show ?thesis by (simp add: place_span_def push_def)
next
  case (snoc R' a)
  with assms merge_scan_snoc [of R' a s strategy] show ?thesis by (simp add: place_span_def)
qed

text \<open>What a round leaves as the last accepted span, given the last one before it.\<close>

definition joined :: "overlap_strategy \<Rightarrow> span \<Rightarrow> span \<Rightarrow> span" where
  "joined strategy a s =
     (if sp_start s = sp_start a \<and> sp_end s = sp_end a then rank_wins.survivor s a
      else if contains a s then a
      else if contains s a then s
      else if normalize_entity_type (sp_entity_type a) = normalize_entity_type (sp_entity_type s)
        then projr (merge_spans a s)
      else strategy_wins.survivor strategy s a)"

lemma push_simps:
  "push strategy [] s = [s]"
  "push strategy (R @ [a]) s =
     (if sp_end a \<le> sp_start s then R @ [a, s] else R @ [joined strategy a s])"
  by (auto simp: push_def joined_def Let_def)

lemma joined_cases:
  assumes "wf_span a" and "wf_span s" and "sp_start a \<le> sp_start s" and "sp_start s < sp_end a"
  obtains (old) "joined strategy a s = a" | (new) "joined strategy a s = s"
  | (merged) m where "joined strategy a s = m" and "merge_spans a s = Inr m" and "wf_span m"
      and "sp_start m = sp_start a" and "sp_end m = sp_end s" and "sp_end a \<le> sp_end s"
      and "sp_text m = sp_text a @ slice_from (sp_text s) (sp_end a - sp_start s)"
      and "sp_confidence m = max (sp_confidence a) (sp_confidence s)"
      and "sp_entity_type m \<in> {sp_entity_type a, sp_entity_type s}"
proof (cases "contains a s \<or> contains s a \<or>
    normalize_entity_type (sp_entity_type a) \<noteq> normalize_entity_type (sp_entity_type s)")
  case True
  then have "joined strategy a s = a \<or> joined strategy a s = s"
    by (auto simp: joined_def rank_wins.survivor_def strategy_wins.survivor_def contains_def)
  with old new show thesis by blast
next
  case False
  then have ends: "sp_end a \<le> sp_end s" using assms by (auto simp: contains_def)
  from False have "joined strategy a s = projr (merge_spans a s)"
    by (auto simp: joined_def contains_def)
  with merge_spans_ok [OF assms(1,2,3) _ ends] assms(4) ends show thesis
    by (fastforce intro: merged split: if_splits)
qed

lemma joined_wf:
  assumes "wf_span a" and "wf_span s" and "sp_start a \<le> sp_start s" and "sp_start s < sp_end a"
  shows "wf_span (joined strategy a s) \<and> sp_start a \<le> sp_start (joined strategy a s) \<and>
    sp_start (joined strategy a s) \<le> sp_start s"
  by (rule joined_cases [OF assms]) (use assms in auto)

lemma push_inv:
  assumes "disjoint_ordered R" and "wf_span s" and "list_all (\<lambda>b. sp_start b \<le> sp_start s) R"
  shows "disjoint_ordered (push strategy R s) \<and>
    list_all (\<lambda>b. sp_start b \<le> sp_start s) (push strategy R s)"
proof (cases R rule: rev_cases)
  case Nil
  with assms show ?thesis by (simp add: push_simps disjoint_ordered_def)
next
  case (snoc R' a)
  show ?thesis
  proof (cases "sp_end a \<le> sp_start s")
    case True
    then have "push strategy R s = (R' @ [a]) @ [s]" by (simp add: snoc push_simps)
    moreover have "list_all (\<lambda>b. sp_end b \<le> sp_start s) (R' @ [a])"
      using assms(1) True snoc by (auto simp: list_all_iff wf_span_def)
    ultimately show ?thesis
      using assms snoc disjoint_ordered_simps(2) [of "R' @ [a]" s] by auto
  next
    case False
    with joined_wf [of a s strategy] assms show ?thesis
      by (auto simp: snoc push_simps list_all_iff)
  qed
qed

lemma place_all_fold:
  assumes "disjoint_ordered R" and "list_all wf_span sps" and "sorted (map sp_start sps)"
    and "list_all (\<lambda>b. list_all (\<lambda>s. sp_start b \<le> sp_start s) sps) R"
  shows "place_all strategy R sps = Inr (foldl (push strategy) R sps) \<and>
    disjoint_ordered (foldl (push strategy) R sps)"
  using assms
proof (induction sps arbitrary: R)
  case (Cons s sps)
  have le: "list_all (\<lambda>b. sp_start b \<le> sp_start s) R" and s: "wf_span s"
    using Cons.prems by (auto simp: list_all_iff)
  note inv = push_inv [OF Cons.prems(1) s le, of strategy]
  have "list_all (\<lambda>b. list_all (\<lambda>s. sp_start b \<le> sp_start s) sps) (push strategy R s)"
    using inv Cons.prems(3) by (fastforce simp: list_all_iff)
  with Cons inv show ?case
    by (simp add: place_span_push [OF Cons.prems(1) s le])
qed simp

lemma sorted_dedup_key: "sorted (map sp_start (sort_key dedup_key xs))"
proof (rule sorted_map_weaken)
  show "sorted (map dedup_key (sort_key dedup_key xs))" by simp
  show "dedup_key a \<le> dedup_key b \<Longrightarrow> sp_start a \<le> sp_start b" for a b
    by (auto simp: dedup_key_def less_eq_prod_def)
qed

lemma deduplicate_fold:
  assumes "list_all wf_span xs"
  shows "deduplicate xs strategy = Inr (foldl (push strategy) [] (sort_key dedup_key xs)) \<and>
    disjoint_ordered (foldl (push strategy) [] (sort_key dedup_key xs))"
  using place_all_fold [of "[]" "sort_key dedup_key xs" strategy] assms sorted_dedup_key [of xs]
  by (auto simp: deduplicate_def list_all_iff)

lemma disjoint_ordered_starts:
  "disjoint_ordered R \<Longrightarrow> sorted_wrt (\<lambda>a b. sp_start a < sp_start b) R"
  by (induction R) (fastforce simp: disjoint_ordered_def list_all_iff wf_span_def)+

lemma sort_key_disjoint:
  assumes "disjoint_ordered R"
  shows "sort_key (\<lambda>s. (sp_start s, - sp_end s)) R = R"
proof (rule sort_key_id_if_sorted)
  show "sorted (map (\<lambda>s. (sp_start s, - sp_end s)) R)"
    using disjoint_ordered_starts [OF assms]
    by (auto simp: sorted_wrt_map less_eq_prod_def elim: sorted_wrt_mono_rel [rotated])
qed

definition eligible :: "real \<Rightarrow> span list \<Rightarrow> span list" where
  "eligible c xs = sort_key dedup_key (filter (\<lambda>s. sp_confidence s \<ge> c) xs)"

lemma resolve_spans_fold:
  assumes "list_all wf_span xs"
  shows "resolve_spans xs c strategy = Inr (foldl (push strategy) [] (eligible c xs)) \<and>
    disjoint_ordered (foldl (push strategy) [] (eligible c xs))"
proof -
  have "list_all wf_span (filter (\<lambda>s. sp_confidence s \<ge> c) xs)"
    using assms by (auto simp: list_all_iff)
  from deduplicate_fold [OF this, of strategy] show ?thesis
    by (cases "xs = []") (auto simp: resolve_spans_def eligible_def sort_key_disjoint)
qed

section \<open>Properties of the resolver\<close>

text \<open>
  C7: On well-formed spans the resolver never raises: merging always builds a valid span. Its
  result is ordered, its spans are pairwise disjoint and well formed, and no span starts
  where another one does.
\<close>

theorem resolve_spans_disjoint:
  assumes "list_all wf_span xs"
  shows "\<exists>out. resolve_spans xs c strategy = Inr out \<and> list_all wf_span out \<and>
    sorted_wrt (\<lambda>a b. sp_end a \<le> sp_start b) out \<and> distinct (map sp_start out)"
proof -
  let ?out = "foldl (push strategy) [] (eligible c xs)"
  have inv: "resolve_spans xs c strategy = Inr ?out" "disjoint_ordered ?out"
    using resolve_spans_fold [OF assms] by blast+
  have "sorted_wrt (<) (map sp_start ?out)"
    using disjoint_ordered_starts [OF inv(2)] by (simp add: sorted_wrt_map)
  then have "distinct (map sp_start ?out)" by (simp add: strict_sorted_iff)
  with inv show ?thesis by (auto simp: disjoint_ordered_def)
qed

text \<open>Whatever holds of the spans that come in and is kept when two of them are joined holds of
  the spans that come out.\<close>

lemma fold_push_all:
  assumes joins: "\<And>a s. wf_span a \<Longrightarrow> wf_span s \<Longrightarrow> sp_start a \<le> sp_start s \<Longrightarrow> sp_start s < sp_end a \<Longrightarrow>
      P a \<Longrightarrow> P s \<Longrightarrow> P (joined strategy a s)"
    and "disjoint_ordered R" and "list_all wf_span sps" and "sorted (map sp_start sps)"
    and "list_all (\<lambda>b. list_all (\<lambda>s. sp_start b \<le> sp_start s) sps) R"
    and "list_all P R" and "list_all P sps"
  shows "list_all P (foldl (push strategy) R sps)"
  using assms(2-)
proof (induction sps arbitrary: R)
  case (Cons s sps)
  have le: "list_all (\<lambda>b. sp_start b \<le> sp_start s) R" and s: "wf_span s" and Ps: "P s"
    using Cons.prems by (auto simp: list_all_iff)
  note inv = push_inv [OF Cons.prems(1) s le, of strategy]
  have "list_all P (push strategy R s)"
  proof (cases R rule: rev_cases)
    case (snoc R' a)
    then show ?thesis
      using Cons.prems(1,5) le s Ps joins [of a s] by (auto simp: push_simps)
  qed (simp add: push_simps Ps)
  moreover have "list_all (\<lambda>b. list_all (\<lambda>s. sp_start b \<le> sp_start s) sps) (push strategy R s)"
    using inv Cons.prems(3) by (fastforce simp: list_all_iff)
  ultimately show ?case using Cons inv by simp
qed simp

lemma resolve_spans_all:
  assumes "\<And>a s. wf_span a \<Longrightarrow> wf_span s \<Longrightarrow> sp_start a \<le> sp_start s \<Longrightarrow> sp_start s < sp_end a \<Longrightarrow>
      P a \<Longrightarrow> P s \<Longrightarrow> P (joined strategy a s)"
    and "list_all wf_span xs" and "\<And>s. s \<in> set xs \<Longrightarrow> c \<le> sp_confidence s \<Longrightarrow> P s"
  shows "list_all P (foldl (push strategy) [] (eligible c xs))"
proof (rule fold_push_all [where P = P])
  show "P (joined strategy a s)" if "wf_span a" "wf_span s" "sp_start a \<le> sp_start s"
    "sp_start s < sp_end a" "P a" "P s" for a s
    using that by (rule assms(1))
qed (use assms(2,3) sorted_dedup_key in \<open>auto simp: eligible_def list_all_iff\<close>)

text \<open>A span is anchored in a text when it carries the text at its position.\<close>

definition anchored :: "string \<Rightarrow> span \<Rightarrow> bool" where
  "anchored doc s \<longleftrightarrow> sp_end s \<le> int (length doc) \<and> sp_text s = py_slice doc (sp_start s) (sp_end s)"

lemma joined_anchored:
  assumes "wf_span a" and "wf_span s" and "sp_start a \<le> sp_start s" and "sp_start s < sp_end a"
    and "anchored doc a" and "anchored doc s"
  shows "anchored doc (joined strategy a s)"
  by (rule joined_cases [OF assms(1-4), of strategy])
    (use assms py_slice_glue [of "sp_start a" "sp_start s" "sp_end a" "sp_end s" doc]
      in \<open>auto simp: anchored_def wf_span_def\<close>)

text \<open>
  C8: Resolution keeps what a span says about its text: when every input span carries the
  text at its position, so does every output span, merged ones included; each output span also
  meets the confidence threshold and has the entity type of an input span.
\<close>

theorem resolve_spans_sound:
  assumes "list_all wf_span xs" and "list_all (anchored doc) xs"
    and "resolve_spans xs c strategy = Inr out"
  shows "list_all (\<lambda>s. anchored doc s \<and> c \<le> sp_confidence s \<and>
    sp_entity_type s \<in> sp_entity_type ` set xs) out"
proof -
  have out: "out = foldl (push strategy) [] (eligible c xs)"
    using resolve_spans_fold [OF assms(1), of c strategy] assms(3) by simp
  show ?thesis
    unfolding out
  proof (rule resolve_spans_all [OF _ assms(1)])
    fix a s
    assume *: "wf_span a" "wf_span s" "sp_start a \<le> sp_start s" "sp_start s < sp_end a"
      and P: "anchored doc a \<and> c \<le> sp_confidence a \<and> sp_entity_type a \<in> sp_entity_type ` set xs"
        "anchored doc s \<and> c \<le> sp_confidence s \<and> sp_entity_type s \<in> sp_entity_type ` set xs"
    have "c \<le> sp_confidence (joined strategy a s) \<and>
        sp_entity_type (joined strategy a s) \<in> sp_entity_type ` set xs"
      by (rule joined_cases [OF *, of strategy]) (use P in auto)
    with joined_anchored [OF *] P show "anchored doc (joined strategy a s) \<and>
        c \<le> sp_confidence (joined strategy a s) \<and>
        sp_entity_type (joined strategy a s) \<in> sp_entity_type ` set xs" by blast
  qed (use assms(2) in \<open>auto simp: list_all_iff\<close>)
qed

lemma eligible_disjoint:
  assumes "disjoint_ordered R" and "list_all (\<lambda>s. c \<le> sp_confidence s) R"
  shows "eligible c R = R"
proof -
  have "filter (\<lambda>s. c \<le> sp_confidence s) R = R"
    using assms(2) by (simp add: filter_id_conv list_all_iff)
  moreover have "sorted (map dedup_key R)"
    using disjoint_ordered_starts [OF assms(1)]
    by (auto simp: sorted_wrt_map dedup_key_def less_eq_prod_def elim: sorted_wrt_mono_rel [rotated])
  ultimately show ?thesis by (simp add: eligible_def sort_key_id_if_sorted)
qed

lemma fold_push_disjoint:
  "disjoint_ordered (R @ S) \<Longrightarrow> foldl (push strategy) R S = R @ S"
proof (induction S arbitrary: R)
  case (Cons s S)
  have "push strategy R s = R @ [s]"
  proof (cases R rule: rev_cases)
    case (snoc R' a)
    with Cons.prems have "sp_end a \<le> sp_start s"
      by (auto simp: disjoint_ordered_def sorted_wrt_append)
    with snoc show ?thesis by (simp add: push_simps)
  qed (simp add: push_simps)
  with Cons show ?case by simp
qed simp

text \<open>
  Resolution is idempotent: resolving the result again, with any strategy, changes nothing.
\<close>

theorem resolve_spans_idempotent:
  assumes "list_all wf_span xs" and "resolve_spans xs c strategy = Inr out"
  shows "resolve_spans out c strategy' = Inr out"
proof -
  have out: "out = foldl (push strategy) [] (eligible c xs)" and inv: "disjoint_ordered out"
    using resolve_spans_fold [OF assms(1), of c strategy] assms(2) by auto
  have conf: "list_all (\<lambda>s. c \<le> sp_confidence s) out"
    unfolding out
  proof (rule resolve_spans_all [OF _ assms(1)])
    fix a s
    assume *: "wf_span a" "wf_span s" "sp_start a \<le> sp_start s" "sp_start s < sp_end a"
      and P: "c \<le> sp_confidence a" "c \<le> sp_confidence s"
    show "c \<le> sp_confidence (joined strategy a s)"
      by (rule joined_cases [OF *, of strategy]) (use P in auto)
  qed
  have "list_all wf_span out" using inv by (simp add: disjoint_ordered_def)
  from resolve_spans_fold [OF this, of c strategy'] show ?thesis
    using fold_push_disjoint [of "[]" out strategy'] inv eligible_disjoint [OF inv conf] by simp
qed

text \<open>The positions a list of spans covers.\<close>

definition covered :: "span list \<Rightarrow> int set" where
  "covered xs = (\<Union>s\<in>set xs. {sp_start s..<sp_end s})"

lemma covered_simps [simp]:
  "covered [] = {}"
  "covered (s # xs) = {sp_start s..<sp_end s} \<union> covered xs"
  "covered (xs @ ys) = covered xs \<union> covered ys"
  by (auto simp: covered_def)

lemma joined_covers:
  assumes "wf_span a" and "wf_span s" and "sp_start a \<le> sp_start s" and "sp_start s < sp_end a"
    and "normalize_entity_type (sp_entity_type a) = normalize_entity_type (sp_entity_type s)"
  shows "{sp_start (joined strategy a s)..<sp_end (joined strategy a s)} =
    {sp_start a..<sp_end a} \<union> {sp_start s..<sp_end s}"
proof (cases "contains a s \<or> contains s a")
  case True
  then show ?thesis
    by (auto simp: joined_def rank_wins.survivor_def contains_def)
next
  case False
  with assms(5) have "joined strategy a s = projr (merge_spans a s)"
    by (auto simp: joined_def contains_def)
  moreover from False have "sp_end a \<le> sp_end s" using assms(3) by (auto simp: contains_def)
  ultimately show ?thesis using merge_spans_ok [OF assms(1-3)] assms(3,4) by fastforce
qed

lemma fold_push_covers:
  assumes "disjoint_ordered R" and "list_all wf_span sps" and "sorted (map sp_start sps)"
    and "list_all (\<lambda>b. list_all (\<lambda>s. sp_start b \<le> sp_start s) sps) R"
    and "list_all (\<lambda>s. normalize_entity_type (sp_entity_type s) = t) R"
    and "list_all (\<lambda>s. normalize_entity_type (sp_entity_type s) = t) sps"
  shows "covered (foldl (push strategy) R sps) = covered R \<union> covered sps"
  using assms
proof (induction sps arbitrary: R)
  case (Cons s sps)
  have le: "list_all (\<lambda>b. sp_start b \<le> sp_start s) R" and s: "wf_span s"
    using Cons.prems by (auto simp: list_all_iff)
  note inv = push_inv [OF Cons.prems(1) s le, of strategy]
  have step: "covered (push strategy R s) = covered R \<union> {sp_start s..<sp_end s} \<and>
      list_all (\<lambda>s. normalize_entity_type (sp_entity_type s) = t) (push strategy R s)"
  proof (cases R rule: rev_cases)
    case (snoc R' a)
    show ?thesis
    proof (cases "sp_end a \<le> sp_start s")
      case True
      then show ?thesis using Cons.prems(5,6) by (auto simp: snoc push_simps)
    next
      case False
      then have *: "wf_span a" "wf_span s" "sp_start a \<le> sp_start s" "sp_start s < sp_end a"
        and t: "normalize_entity_type (sp_entity_type a) = t"
          "normalize_entity_type (sp_entity_type s) = t"
        using snoc Cons.prems(1,5,6) le s by auto
      have "normalize_entity_type (sp_entity_type (joined strategy a s)) = t"
        by (rule joined_cases [OF *, of strategy]) (use t in auto)
      with False t Cons.prems(5) show ?thesis
        by (auto simp: snoc push_simps joined_covers [OF *])
    qed
  qed (use Cons.prems(6) in \<open>simp add: push_simps\<close>)
  moreover have "list_all (\<lambda>b. list_all (\<lambda>s. sp_start b \<le> sp_start s) sps) (push strategy R s)"
    using inv Cons.prems(3) by (fastforce simp: list_all_iff)
  ultimately show ?case using Cons inv by auto
qed simp

text \<open>
  On spans of one entity type, aliases included, resolution computes the union of the
  intervals: the positions covered by the result are exactly those covered by the spans that
  meet the threshold.
\<close>

theorem resolve_spans_one_type_union:
  assumes "list_all wf_span xs"
    and "list_all (\<lambda>s. normalize_entity_type (sp_entity_type s) = t) xs"
    and "resolve_spans xs c strategy = Inr out"
  shows "covered out = covered (filter (\<lambda>s. sp_confidence s \<ge> c) xs)"
proof -
  have out: "out = foldl (push strategy) [] (eligible c xs)"
    using resolve_spans_fold [OF assms(1), of c strategy] assms(3) by simp
  have "covered out = covered (eligible c xs)"
    unfolding out using assms(1,2) sorted_dedup_key
    by (subst fold_push_covers [where t = t]) (auto simp: eligible_def list_all_iff)
  then show ?thesis by (simp add: covered_def eligible_def)
qed

section \<open>Examples\<close>

definition ex_span :: "int \<Rightarrow> string \<Rightarrow> string \<Rightarrow> real \<Rightarrow> tier \<Rightarrow> span" where
  "ex_span st doc ety conf tr =
     \<lparr>sp_start = st, sp_end = st + int (length doc), sp_text = doc, sp_entity_type = ety,
      sp_confidence = conf, sp_detector = ''d'', sp_tier = tr, sp_context = None,
      sp_needs_review = False, sp_review_reason = None, sp_coref_anchor_value = None\<rparr>"

lemmas resolve_eval = resolve_spans_def deduplicate_def place_span_def Let_def ex_span_def
  overlaps_def contains_def outranks_def list_pop_def dedup_key_def merge_spans_def mk_span_def
  span_post_init_def slice_from_def py_index_def

definition ex_email :: "span list" where
  "ex_email = [ex_span 0 ''ann@x.or'' ''EMAIL'' (8/10) TIER_ML,
               ex_span 4 ''x.org'' ''EMAIL_ADDRESS'' (9/10) TIER_PATTERN]"

lemma ex_email_ok: "list_all wf_span ex_email" "list_all (anchored ''ann@x.org'') ex_email"
    "list_all (\<lambda>s. normalize_entity_type (sp_entity_type s) = ''EMAIL'') ex_email"
proof -
  have "normalize_entity_type ''EMAIL'' = ''EMAIL''" "normalize_entity_type ''EMAIL_ADDRESS'' = ''EMAIL''"
    by code_simp+
  then show "list_all wf_span ex_email" "list_all (anchored ''ann@x.org'') ex_email"
    "list_all (\<lambda>s. normalize_entity_type (sp_entity_type s) = ''EMAIL'') ex_email"
    by (simp_all add: ex_email_def ex_span_def wf_span_def anchored_def py_slice_def py_index_def)
qed

lemma ex_email_resolved:
  "\<exists>out. resolve_spans ex_email (1/2) HIGHER_CONFIDENCE = Inr out"
  using resolve_spans_fold [OF ex_email_ok(1)] by blast

theorem resolve_spans_disjoint_witness:
  "list_all wf_span ex_email \<and> (\<exists>out. resolve_spans ex_email (1/2) HIGHER_CONFIDENCE = Inr out \<and>
     sorted_wrt (\<lambda>a b. sp_end a \<le> sp_start b) out)"
  using resolve_spans_disjoint [OF ex_email_ok(1)] ex_email_ok(1) by blast

theorem resolve_spans_sound_witness:
  "\<exists>out. resolve_spans ex_email (1/2) HIGHER_CONFIDENCE = Inr out \<and>
     list_all (\<lambda>s. anchored ''ann@x.org'' s \<and> 1/2 \<le> sp_confidence s \<and>
       sp_entity_type s \<in> sp_entity_type ` set ex_email) out"
  using ex_email_resolved resolve_spans_sound [OF ex_email_ok(1,2)] by blast

theorem resolve_spans_idempotent_witness:
  "\<exists>out. resolve_spans ex_email (1/2) HIGHER_CONFIDENCE = Inr out \<and>
     resolve_spans out (1/2) LONGER_SPAN = Inr out"
  using ex_email_resolved resolve_spans_idempotent [OF ex_email_ok(1)] by blast

theorem resolve_spans_one_type_union_witness:
  "\<exists>out. resolve_spans ex_email (1/2) HIGHER_CONFIDENCE = Inr out \<and> covered out = {0..<9}"
proof -
  obtain out where out: "resolve_spans ex_email (1/2) HIGHER_CONFIDENCE = Inr out"
    using ex_email_resolved by blast
  have "covered (filter (\<lambda>s. sp_confidence s \<ge> 1/2) ex_email) = {0..<9}"
    by (auto simp: ex_email_def ex_span_def)
  with out resolve_spans_one_type_union [OF ex_email_ok(1,3) out] show ?thesis by simp
qed

text \<open>
  A detection can be lost without any span of the result overlapping it. A long name span
  absorbs a checksum-validated SSN inside it and is then itself replaced by a phone span that
  overlaps only the name: the result holds the phone span alone.
\<close>

theorem resolve_spans_loses_detection:
  "resolve_spans
     [ex_span 0 ''abcdefghij'' ''NAME'' (1/2) TIER_ML,
      ex_span 1 ''bc'' ''SSN'' (99/100) TIER_CHECKSUM,
      ex_span 8 ''ijklm'' ''PHONE'' (9/10) TIER_PATTERN] 0 HIGHER_CONFIDENCE
   = Inr [ex_span 8 ''ijklm'' ''PHONE'' (9/10) TIER_PATTERN] \<and>
   \<not> overlaps (ex_span 8 ''ijklm'' ''PHONE'' (9/10) TIER_PATTERN)
       (ex_span 1 ''bc'' ''SSN'' (99/100) TIER_CHECKSUM)"
proof -
  have "normalize_entity_type ''NAME'' = ''NAME''" "normalize_entity_type ''PHONE'' = ''PHONE''"
    by code_simp+
  then show ?thesis by (simp add: resolve_eval)
qed

end
