(* ===== verification/Span_Validation.thy ===== *)
theory Span_Validation
  imports Span_Resolution
begin

text \<open>
  Position validation and overlap diagnosis, \<^verbatim>\<open>src/openlabels/core/pipeline/span_validation.py\<close>,
  with the Rust routine it calls when the extension is present,
  \<^verbatim>\<open>src/openlabels/core/_rust/src/spans.rs\<close>. \<open>overlap_outer\<close> and \<open>overlap_inner\<close> are the
  two nested loops of the Python fallback, \<open>rust_outer\<close> and \<open>rust_inner\<close> those of the
  extension, over indices. Log output is left out.

  The lemmas show which spans survive validation, that the loops with their early \<open>break\<close>
  find exactly the overlapping pairs, and that the two implementations agree.
\<close>

section \<open>Validation\<close>

datatype position_error =
    StartNegative int
  | EndNegative int
  | StartPastText int int
  | EndPastText int int
  | StartNotBelowEnd int int
  | SpanTextLength int int int int

definition validate_single_span :: "span \<Rightarrow> string \<Rightarrow> int \<Rightarrow> position_error option" where
  "validate_single_span s doc text_len =
     (if sp_start s < 0 then Some (StartNegative (sp_start s))
      else if sp_end s < 0 then Some (EndNegative (sp_end s))
      else if sp_start s > text_len then Some (StartPastText (sp_start s) text_len)
      else if sp_end s > text_len then Some (EndPastText (sp_end s) text_len)
      else if sp_start s \<ge> sp_end s then Some (StartNotBelowEnd (sp_start s) (sp_end s))
      else (let actual_text = py_slice doc (sp_start s) (sp_end s) in
        if str_lower actual_text \<noteq> str_lower (sp_text s) then
          (if length actual_text \<noteq> length (sp_text s)
           then Some (SpanTextLength (sp_start s) (sp_end s)
                  (int (length (sp_text s))) (int (length actual_text)))
           else None)
        else None))"

text \<open>\<open>SpanValidationError\<close> carries the message, the span and the text length.\<close>

type_synonym span_validation_error = "position_error \<times> span \<times> int"

fun validate_loop ::
  "string \<Rightarrow> int \<Rightarrow> bool \<Rightarrow> span list \<Rightarrow> span list \<Rightarrow> span_validation_error + span list" where
  "validate_loop doc text_len strict valid [] = Inr valid"
| "validate_loop doc text_len strict valid (s # ss) =
     (case validate_single_span s doc text_len of
        None \<Rightarrow> validate_loop doc text_len strict (valid @ [s]) ss
      | Some e \<Rightarrow> if strict then Inl (e, s, text_len)
                  else validate_loop doc text_len strict valid ss)"

definition validate_span_positions ::
  "string \<Rightarrow> span list \<Rightarrow> bool \<Rightarrow> span_validation_error + span list" where
  "validate_span_positions doc spans strict =
     (if spans = [] then Inr [] else validate_loop doc (int (length doc)) strict [] spans)"

section \<open>Overlap diagnosis: the Python fallback\<close>

fun overlap_inner :: "bool \<Rightarrow> span \<Rightarrow> span list \<Rightarrow> (span \<times> span) list" where
  "overlap_inner allow_identical s1 [] = []"
| "overlap_inner allow_identical s1 (s2 # rest) =
     (if sp_start s2 \<ge> sp_end s1 then []
      else if allow_identical \<and> sp_start s1 = sp_start s2 \<and> sp_end s1 = sp_end s2
        then overlap_inner allow_identical s1 rest
      else (s1, s2) # overlap_inner allow_identical s1 rest)"

fun overlap_outer :: "bool \<Rightarrow> span list \<Rightarrow> (span \<times> span) list" where
  "overlap_outer allow_identical [] = []"
| "overlap_outer allow_identical (s1 # rest) =
     overlap_inner allow_identical s1 rest @ overlap_outer allow_identical rest"

definition range_key :: "span \<Rightarrow> int \<times> int" where
  "range_key s = (sp_start s, sp_end s)"

definition check_for_overlaps :: "span list \<Rightarrow> bool \<Rightarrow> (span \<times> span) list" where
  "check_for_overlaps spans allow_identical =
     (if length spans < 2 then [] else overlap_outer allow_identical (sort_key range_key spans))"

definition validate_after_coref :: "string \<Rightarrow> span list \<Rightarrow> bool \<Rightarrow> span_validation_error + span list" where
  "validate_after_coref doc spans strict = validate_span_positions doc spans strict"

section \<open>Overlap diagnosis: the Rust extension\<close>

fun rust_inner :: "bool \<Rightarrow> (nat \<times> nat) list \<Rightarrow> nat \<Rightarrow> nat list \<Rightarrow> (nat \<times> nat) list" where
  "rust_inner allow_identical spans idx_i [] = []"
| "rust_inner allow_identical spans idx_i (idx_j # rest) =
     (let (start_i, end_i) = spans ! idx_i; (start_j, end_j) = spans ! idx_j in
      if start_j \<ge> end_i then []
      else if allow_identical \<and> start_i = start_j \<and> end_i = end_j
        then rust_inner allow_identical spans idx_i rest
      else (if idx_i < idx_j then (idx_i, idx_j) else (idx_j, idx_i))
             # rust_inner allow_identical spans idx_i rest)"

fun rust_outer :: "bool \<Rightarrow> (nat \<times> nat) list \<Rightarrow> nat list \<Rightarrow> (nat \<times> nat) list" where
  "rust_outer allow_identical spans [] = []"
| "rust_outer allow_identical spans (idx_i # rest) =
     rust_inner allow_identical spans idx_i rest @ rust_outer allow_identical spans rest"

definition rust_check_overlaps :: "(nat \<times> nat) list \<Rightarrow> bool \<Rightarrow> (nat \<times> nat) list" where
  "rust_check_overlaps spans allow_identical =
     (if length spans < 2 then []
      else rust_outer allow_identical spans (sort_key (\<lambda>i. spans ! i) [0..<length spans]))"

text \<open>\<open>check_for_overlaps\<close> when \<open>_USE_RUST_SPANS\<close> is set. The extension takes unsigned
  positions; validated spans have no negative ones.\<close>

definition check_for_overlaps_rust :: "span list \<Rightarrow> bool \<Rightarrow> (span \<times> span) list" where
  "check_for_overlaps_rust spans allow_identical =
     (if length spans < 2 then []
      else (let sorted_spans = sort_key (\<lambda>i. range_key (spans ! i)) [0..<length spans];
                sorted_span_list = map (\<lambda>i. spans ! i) sorted_spans;
                sorted_tuples = map (\<lambda>s. (nat (sp_start s), nat (sp_end s))) sorted_span_list
            in map (\<lambda>(i, j). (sorted_span_list ! i, sorted_span_list ! j))
                 (rust_check_overlaps sorted_tuples allow_identical)))"

section \<open>What validation keeps\<close>

definition in_text :: "string \<Rightarrow> span \<Rightarrow> bool" where
  "in_text doc s \<longleftrightarrow> 0 \<le> sp_start s \<and> sp_start s < sp_end s \<and> sp_end s \<le> int (length doc) \<and>
     int (length (sp_text s)) = sp_end s - sp_start s"

lemma validate_single_None:
  "validate_single_span s doc (int (length doc)) = None \<longleftrightarrow> in_text doc s"
proof (cases "0 \<le> sp_start s \<and> sp_start s < sp_end s \<and> sp_end s \<le> int (length doc)")
  case True
  then have len: "int (length (py_slice doc (sp_start s) (sp_end s))) = sp_end s - sp_start s"
    by (intro length_py_slice_inside) auto
  have "str_lower (py_slice doc (sp_start s) (sp_end s)) = str_lower (sp_text s) \<Longrightarrow>
      length (py_slice doc (sp_start s) (sp_end s)) = length (sp_text s)"
    by (metis length_str_lower)
  with True len show ?thesis
    by (auto simp: validate_single_span_def in_text_def Let_def)
next
  case False
  then show ?thesis by (auto simp: validate_single_span_def in_text_def)
qed

lemma validate_loop_lenient:
  "validate_loop doc (int (length doc)) False valid ss = Inr (valid @ filter (in_text doc) ss)"
  by (induction ss arbitrary: valid)
    (auto simp: validate_single_None [symmetric] split: option.splits)

lemma validate_loop_strict:
  "validate_loop doc (int (length doc)) True valid ss =
     (case find (\<lambda>s. \<not> in_text doc s) ss of
        None \<Rightarrow> Inr (valid @ ss)
      | Some s \<Rightarrow> Inl (the (validate_single_span s doc (int (length doc))), s, int (length doc)))"
  by (induction ss arbitrary: valid)
    (auto simp: validate_single_None [symmetric] split: option.splits)

text \<open>
  Lenient validation keeps exactly the spans that lie inside the text and whose own text
  has the length of their range, in order; strict validation returns the same list when all
  spans are of that kind and otherwise raises at the first one that is not.
\<close>

theorem validate_span_positions_filters:
  "validate_span_positions doc spans False = Inr (filter (in_text doc) spans) \<and>
   validate_span_positions doc spans True =
     (case find (\<lambda>s. \<not> in_text doc s) spans of
        None \<Rightarrow> Inr spans
      | Some s \<Rightarrow> Inl (the (validate_single_span s doc (int (length doc))), s, int (length doc)))"
  by (simp add: validate_span_positions_def validate_loop_lenient validate_loop_strict
      split: option.split)

text \<open>
  The comparison with the text never rejects a span whose length fits: a span that claims
  another text of the same length passes strict validation.
\<close>

theorem validate_accepts_other_text:
  "validate_span_positions ''abc'' [ex_span 0 ''xyz'' ''NAME'' 1 TIER_ML] True
     = Inr [ex_span 0 ''xyz'' ''NAME'' 1 TIER_ML] \<and>
   str_lower (py_slice ''abc'' 0 3) \<noteq> str_lower ''xyz''"
proof -
  have "validate_single_span (ex_span 0 ''xyz'' ''NAME'' 1 TIER_ML) ''abc'' (int (length ''abc'')) = None"
    unfolding validate_single_None by (simp add: in_text_def ex_span_def)
  then show ?thesis
    by (simp add: validate_span_positions_def py_slice_def py_index_def str_lower_def lower_char_def
        is_upper_def chr_code_def)
qed

section \<open>The overlap loops find every pair\<close>

fun all_pairs :: "'a list \<Rightarrow> ('a \<times> 'a) list" where
  "all_pairs [] = []"
| "all_pairs (x # xs) = map (\<lambda>y. (x, y)) xs @ all_pairs xs"

definition reported :: "bool \<Rightarrow> span \<times> span \<Rightarrow> bool" where
  "reported allow_identical p \<longleftrightarrow> overlaps (fst p) (snd p) \<and>
     \<not> (allow_identical \<and> range_key (fst p) = range_key (snd p))"

lemma overlap_inner_filter:
  assumes "list_all wf_span ss" and "sorted (map sp_start (s # ss))"
  shows "overlap_inner allow s ss = filter (reported allow) (map (\<lambda>y. (s, y)) ss)"
  using assms
proof (induction ss)
  case (Cons t ss)
  show ?case
  proof (cases "sp_end s \<le> sp_start t")
    case True
    then have "filter (reported allow) (map (\<lambda>y. (s, y)) (t # ss)) = []"
      using Cons.prems by (auto simp: filter_empty_conv reported_def overlaps_def)
    with True show ?thesis by simp
  next
    case False
    then have "overlaps s t" using Cons.prems by (auto simp: overlaps_def wf_span_def)
    with False Cons show ?thesis by (auto simp: reported_def range_key_def)
  qed
qed simp

lemma overlap_outer_filter:
  "list_all wf_span ss \<Longrightarrow> sorted (map sp_start ss) \<Longrightarrow>
     overlap_outer allow ss = filter (reported allow) (all_pairs ss)"
  by (induction ss) (simp_all add: overlap_inner_filter)

lemma sorted_range_key: "sorted (map sp_start (sort_key range_key xs))"
proof (rule sorted_map_weaken)
  show "sorted (map range_key (sort_key range_key xs))" by simp
  show "range_key a \<le> range_key b \<Longrightarrow> sp_start a \<le> sp_start b" for a b
    by (auto simp: range_key_def less_eq_prod_def)
qed

lemma all_pairs_short: "length xs < 2 \<Longrightarrow> all_pairs (sort_key f xs) = []"
proof (cases xs)
  case (Cons x ys)
  moreover assume "length xs < 2"
  ultimately show ?thesis by simp
qed simp

text \<open>
  The early \<open>break\<close> of the overlap diagnosis loses nothing: on well-formed spans the
  result is every pair of the sorted list that overlaps, identical ranges left out when they
  are allowed, each pair once and in order.
\<close>

theorem check_for_overlaps_complete:
  assumes "list_all wf_span spans"
  shows "check_for_overlaps spans allow =
    filter (\<lambda>(a, b). overlaps a b \<and> \<not> (allow \<and> sp_start a = sp_start b \<and> sp_end a = sp_end b))
      (all_pairs (sort_key range_key spans))"
proof -
  have r: "(\<lambda>(a, b). overlaps a b \<and> \<not> (allow \<and> sp_start a = sp_start b \<and> sp_end a = sp_end b))
      = reported allow"
    by (auto simp: reported_def range_key_def fun_eq_iff)
  have "list_all wf_span (sort_key range_key spans)"
    using assms by (simp add: list_all_iff)
  then show ?thesis
    unfolding r using all_pairs_short [of spans range_key]
    by (simp add: check_for_overlaps_def overlap_outer_filter sorted_range_key)
qed

theorem check_for_overlaps_complete_witness:
  "list_all wf_span ex_email \<and> check_for_overlaps ex_email True =
    filter (\<lambda>(a, b). overlaps a b \<and> \<not> (True \<and> sp_start a = sp_start b \<and> sp_end a = sp_end b))
      (all_pairs (sort_key range_key ex_email))"
  using check_for_overlaps_complete [OF ex_email_ok(1)] ex_email_ok(1) by blast

section \<open>The two implementations agree\<close>

lemma sort_key_nth: "map (\<lambda>i. xs ! i) (sort_key (\<lambda>i. f (xs ! i)) [0..<length xs]) = sort_key f xs"
  by (simp add: sort_key_map [symmetric] map_nth)

definition tuples :: "span list \<Rightarrow> (nat \<times> nat) list" where
  "tuples L = map (\<lambda>s. (nat (sp_start s), nat (sp_end s))) L"

definition pair_up :: "span list \<Rightarrow> nat \<times> nat \<Rightarrow> span \<times> span" where
  "pair_up L p = (L ! fst p, L ! snd p)"

lemma rust_inner_python:
  assumes "list_all wf_span L" and "i < j" and "j \<le> length L"
  shows "map (pair_up L) (rust_inner allow (tuples L) i [j..<length L]) =
    overlap_inner allow (L ! i) (drop j L)"
  using assms(2,3)
proof (induction "length L - j" arbitrary: j)
  case (Suc k)
  then have j: "j < length L" by simp
  have wf: "wf_span (L ! i)" "wf_span (L ! j)"
    using assms(1) j Suc.prems(1) by (simp_all add: list_all_length)
  have IH: "map (pair_up L) (rust_inner allow (tuples L) i [Suc j..<length L]) =
      overlap_inner allow (L ! i) (drop (Suc j) L)"
    using Suc j by (intro Suc.hyps) auto
  have "nat (sp_end (L ! i)) \<le> nat (sp_start (L ! j)) \<longleftrightarrow> sp_end (L ! i) \<le> sp_start (L ! j)"
    and "nat (sp_start (L ! i)) = nat (sp_start (L ! j)) \<longleftrightarrow> sp_start (L ! i) = sp_start (L ! j)"
    and "nat (sp_end (L ! i)) = nat (sp_end (L ! j)) \<longleftrightarrow> sp_end (L ! i) = sp_end (L ! j)"
    using wf unfolding wf_span_def by linarith+
  moreover have "tuples L ! i = (nat (sp_start (L ! i)), nat (sp_end (L ! i)))"
    and "tuples L ! j = (nat (sp_start (L ! j)), nat (sp_end (L ! j)))"
    using j Suc.prems(1) by (simp_all add: tuples_def)
  moreover have "[j..<length L] = j # [Suc j..<length L]" using j by (rule upt_conv_Cons)
  ultimately show ?case
    using IH Suc.prems(1) unfolding Cons_nth_drop_Suc [OF j, symmetric]
    by (cases allow) (simp_all add: pair_up_def)
qed simp

lemma rust_outer_python:
  assumes "list_all wf_span L" and "k \<le> length L"
  shows "map (pair_up L) (rust_outer allow (tuples L) [k..<length L]) =
    overlap_outer allow (drop k L)"
  using assms(2)
proof (induction "length L - k" arbitrary: k)
  case (Suc n)
  then have k: "k < length L" by simp
  have IH: "map (pair_up L) (rust_outer allow (tuples L) [Suc k..<length L]) =
      overlap_outer allow (drop (Suc k) L)"
    using Suc k by (intro Suc.hyps) auto
  have "[k..<length L] = k # [Suc k..<length L]" using k by (rule upt_conv_Cons)
  then show ?case
    using IH k rust_inner_python [OF assms(1), of k "Suc k" allow]
    unfolding Cons_nth_drop_Suc [OF k, symmetric] by simp
qed simp

lemma rust_sorted_indices:
  assumes "list_all wf_span L" and "sorted (map range_key L)"
  shows "sort_key (\<lambda>i. tuples L ! i) [0..<length L] = [0..<length L]"
proof (rule sort_key_id_if_sorted)
  have "sorted (tuples L)"
    using assms(2) unfolding tuples_def sorted_wrt_map
    by (rule sorted_wrt_mono_rel [rotated])
      (use assms(1) in \<open>auto simp: range_key_def less_eq_prod_def list_all_iff wf_span_def\<close>)
  then show "sorted (map (\<lambda>i. tuples L ! i) [0..<length L])"
    using map_nth [of "tuples L"] by (simp add: tuples_def)
qed

text \<open>
  The diagnosis gives the same list whether the Rust extension or the Python fallback
  computes it, for well-formed spans in any order.
\<close>

theorem check_for_overlaps_rust_eq:
  assumes "list_all wf_span spans"
  shows "check_for_overlaps_rust spans allow = check_for_overlaps spans allow"
proof (cases "length spans < 2")
  case False
  let ?L = "sort_key range_key spans"
  have wf: "list_all wf_span ?L" using assms by (simp add: list_all_iff)
  have "map (\<lambda>i. spans ! i) (sort_key (\<lambda>i. range_key (spans ! i)) [0..<length spans]) = ?L"
    by (rule sort_key_nth)
  then have "check_for_overlaps_rust spans allow =
      map (pair_up ?L) (rust_outer allow (tuples ?L) [0..<length ?L])"
    using False rust_sorted_indices [OF wf]
    by (simp add: check_for_overlaps_rust_def rust_check_overlaps_def tuples_def pair_up_def
        case_prod_beta' Let_def)
  also have "\<dots> = overlap_outer allow ?L"
    using rust_outer_python [OF wf, of 0 allow] by simp
  finally show ?thesis using False by (simp add: check_for_overlaps_def)
qed (simp add: check_for_overlaps_rust_def check_for_overlaps_def)

theorem check_for_overlaps_rust_eq_witness:
  "list_all wf_span ex_email \<and>
   check_for_overlaps_rust ex_email False = check_for_overlaps ex_email False"
  using check_for_overlaps_rust_eq [OF ex_email_ok(1)] ex_email_ok(1) by blast

end
