(* ===== verification/Checksum_Validators.thy ===== *)
theory Checksum_Validators
  imports OL_Prelude
begin

text \<open>
  The check-digit validators: the canonical ones of
  \<^verbatim>\<open>src/openlabels/core/_rust/validators_py.py\<close> (names \<open>canon_\<close>\<dots>), the wrappers with a
  confidence of \<^verbatim>\<open>src/openlabels/core/detectors/checksum.py\<close> (names \<open>validate_\<close>\<dots>) and the
  financial ones of \<^verbatim>\<open>src/openlabels/core/detectors/financial.py\<close> (names \<open>fin_\<close>\<dots>). Inputs
  are ASCII strings. The regular expressions that propose candidates and the Rust variants that
  may replace these functions at import time are not modelled.

  The locale \<open>position_code\<close> states what a positional check sum needs to detect a wrong digit;
  its interpretations are the Luhn code, the routing-number code, the shipping code with weights
  3 and 1, and the remainder modulo 97.
\<close>

section \<open>Canonical validators\<close>

definition digit_list :: "string \<Rightarrow> nat list" where
  "digit_list text = map digit_val (filter is_digit text)"

fun luhn_loop :: "nat \<Rightarrow> bool \<Rightarrow> nat list \<Rightarrow> nat" where
  "luhn_loop tot double [] = tot"
| "luhn_loop tot double (digit # ds) =
     (let digit' = (if double then (let x = digit * 2 in if x > 9 then x - 9 else x) else digit)
      in luhn_loop (tot + digit') (\<not> double) ds)"

definition canon_luhn :: "string \<Rightarrow> bool" where
  "canon_luhn text =
     (let digits = digit_list text in
      if length digits < 2 then False else luhn_loop 0 False (rev digits) mod 10 = 0)"

definition canon_ssn :: "string \<Rightarrow> bool" where
  "canon_ssn text =
     (let digits = filter is_digit text in
      if length digits \<noteq> 9 then False
      else (let area = digits_nat (take 3 digits); group = digits_nat (take 2 (drop 3 digits));
                serial = digits_nat (drop 5 digits) in
        if area = 0 \<or> area = 666 \<or> (900 \<le> area \<and> area \<le> 999) then False
        else if group = 0 \<or> serial = 0 then False
        else if digits \<in> {''078051120'', ''219099999''} then False
        else True))"

definition canon_phone :: "string \<Rightarrow> bool" where
  "canon_phone text \<longleftrightarrow> 10 \<le> length (filter is_digit text) \<and> length (filter is_digit text) \<le> 15"

definition canon_email :: "string \<Rightarrow> bool" where
  "canon_email text =
     (case str_split (CHR ''@'') text of
        [local_part, domain] \<Rightarrow>
          length local_part > 0 \<and> length domain > 0 \<and> CHR ''.'' \<in> set domain
          \<and> \<not> starts_with domain ''.'' \<and> \<not> ends_with domain ''.''
      | _ \<Rightarrow> False)"

definition canon_ipv4 :: "string \<Rightarrow> bool" where
  "canon_ipv4 text =
     (let parts = str_split (CHR ''.'') text in
      length parts = 4 \<and>
      list_all (\<lambda>part. case py_int part of Some n \<Rightarrow> 0 \<le> n \<and> n \<le> 255 | None \<Rightarrow> False) parts)"

definition canon_clean :: "string \<Rightarrow> string" where
  "canon_clean text = str_upper (filter is_alnum text)"

text \<open>\<open>ord(c) - ord("A") + 10\<close>, and the digits a character contributes to the number.\<close>

definition letter_val :: "char \<Rightarrow> nat" where
  "letter_val c = chr_code c - 55"

definition numeric_of :: "string \<Rightarrow> string" where
  "numeric_of s = concat (map (\<lambda>c. if is_digit c then [c] else show_nat (letter_val c)) s)"

definition canon_iban :: "string \<Rightarrow> bool" where
  "canon_iban text =
     (let cleaned = canon_clean text in
      if \<not> (15 \<le> length cleaned \<and> length cleaned \<le> 34) then False
      else (let rearranged = drop 4 cleaned @ take 4 cleaned
            in digits_nat (numeric_of rearranged) mod 97 = 1))"

definition canon_npi :: "string \<Rightarrow> bool" where
  "canon_npi text =
     (let digits = digit_list text in
      if length digits \<noteq> 10 then False
      else luhn_loop 0 False (rev ([8, 0, 8, 4, 0] @ digits)) mod 10 = 0)"

fun cusip_loop :: "nat \<Rightarrow> nat \<Rightarrow> string \<Rightarrow> nat" where
  "cusip_loop tot i [] = tot"
| "cusip_loop tot i (c # cs) =
     (let val = (if is_digit c then digit_val c else letter_val c);
          val' = (if i mod 2 = 1 then val * 2 else val)
      in cusip_loop (tot + (val' div 10 + val' mod 10)) (i + 1) cs)"

definition canon_cusip :: "string \<Rightarrow> bool" where
  "canon_cusip text =
     (let cleaned = canon_clean text in
      if length cleaned \<noteq> 9 then False
      else (let check_digit = (10 - cusip_loop 0 0 (take 8 cleaned) mod 10) mod 10
            in is_digit (cleaned ! 8) \<and> digit_val (cleaned ! 8) = check_digit))"

definition canon_isin :: "string \<Rightarrow> bool" where
  "canon_isin text =
     (let cleaned = canon_clean text in
      if length cleaned \<noteq> 12 then False
      else if \<not> is_alpha (cleaned ! 0) \<or> \<not> is_alpha (cleaned ! 1) then False
      else luhn_loop 0 False (rev (map digit_val (numeric_of cleaned))) mod 10 = 0)"

definition canon_validators :: "(string \<times> (string \<Rightarrow> bool) \<times> real) list" where
  "canon_validators =
     [(''luhn'', canon_luhn, 15/100), (''ssn'', canon_ssn, 10/100), (''phone'', canon_phone, 5/100),
      (''email'', canon_email, 5/100), (''ipv4'', canon_ipv4, 5/100), (''iban'', canon_iban, 15/100),
      (''npi'', canon_npi, 15/100), (''cusip'', canon_cusip, 15/100), (''isin'', canon_isin, 15/100)]"

definition canon_validate :: "string \<Rightarrow> string \<Rightarrow> bool \<times> real" where
  "canon_validate text validator =
     (case map_of canon_validators validator of
        Some (func, boost) \<Rightarrow> if func text then (True, boost) else (False, 0)
      | None \<Rightarrow> (True, 0))"

section \<open>Validators with a confidence\<close>

abbreviation rejected :: "bool \<times> real" where
  "rejected \<equiv> (False, 0)"

abbreviation validated :: "bool \<times> real" where
  "validated \<equiv> (True, 99 / 100)"

definition strip_blanks :: "string \<Rightarrow> string" where
  "strip_blanks s = filter (\<lambda>c. c \<noteq> CHR '' '') s"

definition validate_ssn :: "string \<Rightarrow> bool \<times> real" where
  "validate_ssn ssn0 =
     (let ssn = str_strip ssn0 in
      if ssn = [] \<or> \<not> list_all (\<lambda>c. is_digit c \<or> c = CHR ''-'' \<or> c = CHR '' '') ssn then rejected
      else (let digits = filter is_digit ssn in
        if length digits \<noteq> 9 then rejected
        else if canon_ssn digits then validated
        else (let group = take 2 (drop 3 digits); serial = drop 5 digits;
                  c1 = (85 / 100 :: real);
                  c2 = (if group = ''00'' then min c1 (80 / 100) else c1);
                  c3 = (if serial = ''0000'' then min c2 (80 / 100) else c2)
              in (True, c3))))"

definition card_prefix_ok :: "string \<Rightarrow> bool" where
  "card_prefix_ok digits =
     (let prefix2 = digits_nat (take 2 digits); prefix3 = digits_nat (take 3 digits);
          prefix4 = digits_nat (take 4 digits)
      in starts_with digits ''4''
         \<or> (51 \<le> prefix2 \<and> prefix2 \<le> 55)
         \<or> (2221 \<le> prefix4 \<and> prefix4 \<le> 2720)
         \<or> (starts_with digits ''34'' \<or> starts_with digits ''37'')
         \<or> starts_with digits ''6011''
         \<or> starts_with digits ''65''
         \<or> (644 \<le> prefix3 \<and> prefix3 \<le> 649)
         \<or> starts_with digits ''35''
         \<or> starts_with digits ''36''
         \<or> (300 \<le> prefix3 \<and> prefix3 \<le> 305)
         \<or> (starts_with digits ''38'' \<or> starts_with digits ''39''))"

definition validate_credit_card :: "string \<Rightarrow> bool \<times> real" where
  "validate_credit_card cc =
     (let digits = filter is_digit cc in
      if length digits < 13 \<or> length digits > 19 then rejected
      else if \<not> card_prefix_ok digits then rejected
      else if \<not> canon_luhn digits then (True, 87 / 100)
      else validated)"

definition validate_npi :: "string \<Rightarrow> bool \<times> real" where
  "validate_npi npi =
     (let digits = filter is_digit npi in
      if length digits \<noteq> 10 then rejected
      else if hd digits \<noteq> CHR ''1'' \<and> hd digits \<noteq> CHR ''2'' then rejected
      else if \<not> canon_luhn (''80840'' @ digits) then rejected
      else validated)"

definition validate_dea :: "string \<Rightarrow> bool \<times> real" where
  "validate_dea dea0 =
     (let dea = strip_blanks (str_upper dea0) in
      if length dea \<noteq> 9 then rejected
      else if \<not> is_alpha (dea ! 0) \<or> \<not> is_alpha (dea ! 1) then rejected
      else if \<not> str_isdigit (drop 2 dea) then rejected
      else (let d = map digit_val (drop 2 dea);
                checksum = d ! 0 + d ! 2 + d ! 4 + 2 * (d ! 1 + d ! 3 + d ! 5)
            in if checksum mod 10 \<noteq> d ! 6 then rejected else validated))"

fun iban_numeric :: "string \<Rightarrow> string option" where
  "iban_numeric [] = Some []"
| "iban_numeric (c # cs) =
     (if is_digit c then map_option (\<lambda>r. c # r) (iban_numeric cs)
      else if is_alpha c then map_option (\<lambda>r. show_nat (letter_val c) @ r) (iban_numeric cs)
      else None)"

definition validate_iban :: "string \<Rightarrow> bool \<times> real" where
  "validate_iban iban0 =
     (let iban = strip_blanks (str_upper iban0) in
      if length iban < 15 \<or> length iban > 34 then rejected
      else (case iban_numeric (drop 4 iban @ take 4 iban) of
              None \<Rightarrow> rejected
            | Some numeric \<Rightarrow> if digits_nat numeric mod 97 \<noteq> 1 then rejected else validated))"

definition vin_trans :: "(char \<times> nat) list" where
  "vin_trans = zip ''ABCDEFGHJKLMNPRSTUVWXYZ''
     [1, 2, 3, 4, 5, 6, 7, 8, 1, 2, 3, 4, 5, 7, 9, 2, 3, 4, 5, 6, 7, 8, 9]"

definition vin_weights :: "nat list" where
  "vin_weights = [8, 7, 6, 5, 4, 3, 2, 10, 0, 9, 8, 7, 6, 5, 4, 3, 2]"

fun coded_total :: "(char \<times> nat) list \<Rightarrow> nat list \<Rightarrow> nat \<Rightarrow> string \<Rightarrow> nat option" where
  "coded_total tbl ws tot (c # cs) =
     (case (if is_digit c then Some (digit_val c) else map_of tbl c) of
        None \<Rightarrow> None
      | Some v \<Rightarrow> (case ws of w # ws' \<Rightarrow> coded_total tbl ws' (tot + v * w) cs | [] \<Rightarrow> None))"
| "coded_total tbl ws tot [] = Some tot"

definition validate_vin :: "string \<Rightarrow> bool \<times> real" where
  "validate_vin vin0 =
     (let vin = strip_blanks (str_upper vin0) in
      if length vin \<noteq> 17 then rejected
      else if list_ex (\<lambda>c. c \<in> {CHR ''I'', CHR ''O'', CHR ''Q''}) vin then rejected
      else (case coded_total vin_trans vin_weights 0 vin of
              None \<Rightarrow> rejected
            | Some tot \<Rightarrow>
                (let check = tot mod 11; check_char = (if check = 10 then ''X'' else show_nat check)
                 in if [vin ! 8] \<noteq> check_char then rejected else validated)))"

definition validate_aba_routing :: "string \<Rightarrow> bool \<times> real" where
  "validate_aba_routing aba =
     (let digits = filter is_digit aba in
      if length digits \<noteq> 9 then rejected
      else (let prefix = digits_nat (take 2 digits) in
        if \<not> (prefix \<le> 12 \<or> (21 \<le> prefix \<and> prefix \<le> 32) \<or> (61 \<le> prefix \<and> prefix \<le> 72) \<or> prefix = 80)
        then rejected
        else (let d = map digit_val digits;
                  checksum = 3 * (d ! 0 + d ! 3 + d ! 6) + 7 * (d ! 1 + d ! 4 + d ! 7)
                    + 1 * (d ! 2 + d ! 5 + d ! 8)
              in if checksum mod 10 \<noteq> 0 then rejected else validated)))"

subsection \<open>Tracking numbers\<close>

definition ups_letters :: "(char \<times> nat) list" where
  "ups_letters = zip ''ABCDEFGHJKLMNPQRSTUVWXYZ''
     [2, 3, 4, 5, 6, 7, 8, 9, 1, 2, 3, 4, 5, 7, 8, 9, 1, 2, 3, 4, 5, 6, 7, 8]"

fun ups_values :: "string \<Rightarrow> nat list option" where
  "ups_values [] = Some []"
| "ups_values (c # cs) =
     (case (if is_digit c then Some (digit_val c) else map_of ups_letters c) of
        None \<Rightarrow> None
      | Some v \<Rightarrow> map_option (\<lambda>vs. v # vs) (ups_values cs))"

fun ups_total :: "nat \<Rightarrow> nat \<Rightarrow> nat list \<Rightarrow> nat" where
  "ups_total tot i [] = tot"
| "ups_total tot i (v # vs) = ups_total (tot + (if i mod 2 = 1 then v * 2 else v)) (i + 1) vs"

definition validate_ups_tracking :: "string \<Rightarrow> bool \<times> real" where
  "validate_ups_tracking tracking0 =
     (let tracking = strip_blanks (str_upper tracking0) in
      if \<not> starts_with tracking ''1Z'' \<or> length tracking \<noteq> 18 then rejected
      else (case ups_values (drop 2 tracking) of
              None \<Rightarrow> rejected
            | Some vals \<Rightarrow>
                if (10 - ups_total 0 0 (butlast vals) mod 10) mod 10 \<noteq> last vals then rejected
                else validated))"

definition weighted_sum :: "nat list \<Rightarrow> nat list \<Rightarrow> nat" where
  "weighted_sum ds ws = sum_list (map2 (*) ds ws)"

definition validate_fedex_tracking :: "string \<Rightarrow> bool \<times> real" where
  "validate_fedex_tracking tracking =
     (let digits = filter is_digit tracking; d = map digit_val digits in
      if length digits = 12 then
        (let tot = weighted_sum (take 11 d) [1, 7, 3, 1, 7, 3, 1, 7, 3, 1, 7];
             check = (tot mod 11) mod 10
         in if check \<noteq> d ! 11 then rejected else validated)
      else if length digits = 15 \<and> starts_with digits ''96'' then
        (let tot = sum_list (take 14 d); check = (10 - tot mod 10) mod 10
         in if check \<noteq> d ! 14 then rejected else validated)
      else if length digits = 20 then
        (let tot = weighted_sum (take 19 d) (concat (replicate 9 [3, 1]) @ [3]);
             check = (10 - tot mod 10) mod 10
         in if check \<noteq> d ! 19 then rejected else validated)
      else if length digits = 22 \<and> starts_with digits ''92'' then
        (let tot = weighted_sum (take 21 d) (concat (replicate 10 [3, 1]) @ [3]);
             check = (10 - tot mod 10) mod 10
         in if check \<noteq> d ! 21 then rejected else validated)
      else rejected)"

definition validate_usps_tracking :: "string \<Rightarrow> bool \<times> real" where
  "validate_usps_tracking tracking0 =
     (let tracking = strip_blanks (str_upper tracking0) in
      if length tracking = 13 \<and> str_isalpha (take 2 tracking) \<and> str_isalpha (drop 11 tracking) then
        (let digits = take 9 (drop 2 tracking); d = map digit_val digits in
         if \<not> str_isdigit digits then rejected
         else (let tot = weighted_sum (take 8 d) [8, 6, 4, 2, 3, 5, 9, 7];
                   check = 11 - tot mod 11;
                   check' = (if check = 10 then 0 else if check = 11 then 5 else check)
               in if check' \<noteq> d ! 8 then rejected else validated))
      else
        (let digits = filter is_digit tracking; n = length digits; d = map digit_val digits in
         if n = 20 \<or> n = 22 then
           (let weights = take (n - 1) (concat (replicate ((n - 1) div 2 + 1) [3, 1]));
                tot = weighted_sum (butlast d) weights;
                check = (10 - tot mod 10) mod 10
            in if check \<noteq> last d then rejected else validated)
         else rejected))"

definition validate_cusip :: "string \<Rightarrow> bool \<times> real" where
  "validate_cusip cusip = (if \<not> canon_cusip cusip then rejected else validated)"

definition validate_isin :: "string \<Rightarrow> bool \<times> real" where
  "validate_isin isin = (if \<not> canon_isin isin then rejected else validated)"

section \<open>Financial identifiers\<close>

definition sedol_weights :: "nat list" where
  "sedol_weights = [1, 3, 1, 7, 3, 9, 1]"

fun sedol_total :: "nat list \<Rightarrow> nat \<Rightarrow> string \<Rightarrow> nat option" where
  "sedol_total (w # ws) tot (c # cs) =
     (if is_digit c then sedol_total ws (tot + digit_val c * w) cs
      else if is_alpha c then sedol_total ws (tot + letter_val c * w) cs
      else None)"
| "sedol_total ws tot cs = Some tot"

definition fin_sedol :: "string \<Rightarrow> bool" where
  "fin_sedol sedol0 =
     (let sedol = strip_blanks (str_upper sedol0) in
      if length sedol \<noteq> 7 \<or> list_ex (\<lambda>c. c \<in> set ''AEIOU'') sedol then False
      else (case sedol_total sedol_weights 0 (take 6 sedol) of
              None \<Rightarrow> False
            | Some tot \<Rightarrow> is_digit (sedol ! 6) \<and> digit_val (sedol ! 6) = (10 - tot mod 10) mod 10))"

definition SWIFT_DENY_LIST :: "string list" where
  "SWIFT_DENY_LIST =
     [''REFERRAL'', ''HOSPITAL'', ''TERMINAL'', ''NATIONAL'', ''REGIONAL'', ''MATERIAL'',
      ''PERSONAL'', ''OFFICIAL'', ''ORIGINAL'', ''CARDINAL'', ''APPROVAL'', ''TROPICAL'',
      ''INFORMATION'', ''APPLICATION'', ''DESCRIPTION'']"

definition fin_swift :: "string \<Rightarrow> bool" where
  "fin_swift swift0 =
     (let swift = strip_blanks (str_upper swift0) in
      if length swift \<noteq> 8 \<and> length swift \<noteq> 11 then False
      else if swift \<in> set SWIFT_DENY_LIST then False
      else if \<not> str_isalpha (take 4 swift) \<or> \<not> str_isalpha (take 2 (drop 4 swift)) then False
      else if \<not> str_isalnum (take 2 (drop 6 swift)) then False
      else if length swift = 11 \<and> \<not> str_isalnum (take 3 (drop 8 swift)) then False
      else True)"

definition fin_lei :: "string \<Rightarrow> bool" where
  "fin_lei lei0 =
     (let lei = filter (\<lambda>c. c \<noteq> CHR ''-'') (strip_blanks (str_upper lei0)) in
      if length lei \<noteq> 20 \<or> \<not> str_isalnum lei then False
      else digits_nat (numeric_of lei) mod 97 = 1)"

definition bech32_charset :: string where
  "bech32_charset = ''qpzry9x8gf2tvdw0s3jn54khce6mua7l''"

definition fin_bitcoin_bech32 :: "string \<Rightarrow> bool" where
  "fin_bitcoin_bech32 address0 =
     (let address = str_lower address0 in
      if \<not> starts_with address ''bc1'' then False
      else (let data_part = drop 3 address in
        if length data_part < 8 then False
        else if \<not> list_all (\<lambda>c. c \<in> set bech32_charset) data_part then False
        else (let witness_version = hd data_part; total_len = length address in
          if witness_version \<noteq> CHR ''q'' \<and> witness_version \<noteq> CHR ''p'' then False
          else if witness_version = CHR ''q'' \<and> total_len \<noteq> 42 \<and> total_len \<noteq> 62 then False
          else if witness_version = CHR ''p'' \<and> total_len \<noteq> 62 then False
          else True)))"

definition fin_ethereum :: "string \<Rightarrow> bool" where
  "fin_ethereum address =
     (if \<not> (starts_with address ''0x'' \<or> starts_with address ''0X'') then False
      else (let hex_part = drop 2 address in
        if length hex_part \<noteq> 40 then False else py_int16_accepts hex_part))"

section \<open>Positional codes\<close>

fun code_from :: "(nat \<Rightarrow> nat \<Rightarrow> int) \<Rightarrow> nat \<Rightarrow> nat list \<Rightarrow> int" where
  "code_from w i [] = 0"
| "code_from w i (d # ds) = w i d + code_from w (Suc i) ds"

lemma code_from_append: "code_from w i (xs @ ys) = code_from w i xs + code_from w (i + length xs) ys"
  by (induction xs arbitrary: i) auto

text \<open>A check sum modulo \<open>m\<close> in which the digit at position \<open>i\<close> counts \<open>weigh i\<close> finds every
  single wrong digit as soon as \<open>weigh i\<close> separates the ten digits modulo \<open>m\<close>.\<close>

locale position_code =
  fixes weigh :: "nat \<Rightarrow> nat \<Rightarrow> int" and m :: int
  assumes weigh_separates: "a < 10 \<Longrightarrow> b < 10 \<Longrightarrow> weigh i a mod m = weigh i b mod m \<Longrightarrow> a = b"
begin

lemma single_error:
  assumes "a < 10" and "b < 10" and "a \<noteq> b"
  shows "(k + code_from weigh i (xs @ a # ys)) mod m \<noteq> (k + code_from weigh i (xs @ b # ys)) mod m"
proof
  assume "(k + code_from weigh i (xs @ a # ys)) mod m = (k + code_from weigh i (xs @ b # ys)) mod m"
  then have "m dvd weigh (i + length xs) a - weigh (i + length xs) b"
    by (simp add: code_from_append mod_eq_dvd_iff)
  then have "weigh (i + length xs) a mod m = weigh (i + length xs) b mod m"
    by (simp add: mod_eq_dvd_iff)
  with assms weigh_separates show False by blast
qed

end

definition luhn_weigh :: "nat \<Rightarrow> nat \<Rightarrow> int" where
  "luhn_weigh i d = int (if odd i then (if 2 * d > 9 then 2 * d - 9 else 2 * d) else d)"

definition cyclic_weigh :: "nat list \<Rightarrow> nat \<Rightarrow> nat \<Rightarrow> int" where
  "cyclic_weigh ws i d = int (ws ! (i mod length ws) * d)"

definition decimal_weigh :: "nat \<Rightarrow> nat \<Rightarrow> int" where
  "decimal_weigh i d = int d * 10 ^ i"

lemma luhn_weigh_range: "d < 10 \<Longrightarrow> 0 \<le> luhn_weigh i d \<and> luhn_weigh i d < 10"
  by (auto simp: luhn_weigh_def)

lemma luhn_separates:
  assumes "a < 10" and "b < 10" and "luhn_weigh i a mod 10 = luhn_weigh i b mod 10"
  shows "a = b"
proof -
  have "luhn_weigh i a = luhn_weigh i b"
    using assms luhn_weigh_range [of a i] luhn_weigh_range [of b i] by simp
  then show ?thesis
    unfolding luhn_weigh_def by (auto split: if_splits) presburger+
qed

lemma coprime_bezout:
  fixes x y u v :: int
  assumes "u * x + v * y = 1"
  shows "coprime x y"
proof (rule coprimeI)
  fix c
  assume "c dvd x" and "c dvd y"
  then have "c dvd u * x + v * y" by simp
  with assms show "is_unit c" by simp
qed

text \<open>A factor prime to the modulus separates the digits.\<close>

lemma coprime_separates:
  fixes c m :: int
  assumes "coprime c m" and "10 \<le> m" and "a < (10::nat)" and "b < 10"
    and "(c * int a) mod m = (c * int b) mod m"
  shows "a = b"
proof -
  have "m dvd c * (int a - int b)"
    using assms(5) by (simp add: mod_eq_dvd_iff right_diff_distrib)
  then have "m dvd int a - int b"
    using assms(1) by (simp add: coprime_commute coprime_dvd_mult_right_iff)
  moreover have "\<bar>int a - int b\<bar> < \<bar>m\<bar>" using assms(2-4) by linarith
  ultimately have "int a - int b = 0"
    using dvd_imp_le_int [of "int a - int b" m] by linarith
  then show ?thesis by simp
qed

lemma unit_separates:
  assumes "w \<in> {1, 3, 7, 9}" and "a < (10::nat)" and "b < 10" and "int (w * a) mod 10 = int (w * b) mod 10"
  shows "a = b"
proof (rule coprime_separates [of "int w" 10])
  show "coprime (int w) 10"
    using assms(1) coprime_bezout [of 7 3 "-2" 10] coprime_bezout [of 3 7 "-2" 10]
      coprime_bezout [of 9 9 "-8" 10] by auto
qed (use assms in auto)

lemma decimal_separates:
  assumes "a < 10" and "b < 10" and "decimal_weigh i a mod 97 = decimal_weigh i b mod 97"
  shows "a = b"
proof (rule coprime_separates [of "10 ^ i" 97])
  show "coprime ((10::int) ^ i) 97"
    using coprime_bezout [of "-29" 10 3 97] by simp
qed (use assms in \<open>auto simp: decimal_weigh_def mult.commute\<close>)

interpretation luhn_code: position_code luhn_weigh 10
  by unfold_locales (rule luhn_separates)

interpretation aba_code: position_code "cyclic_weigh [3, 7, 1]" 10
proof
  fix a b i :: nat
  assume "a < 10" and "b < 10" and "cyclic_weigh [3, 7, 1] i a mod 10 = cyclic_weigh [3, 7, 1] i b mod 10"
  moreover have "[3, 7, 1] ! (i mod 3) \<in> {1, 3, 7, 9 :: nat}"
  proof -
    have "i mod 3 = 0 \<or> i mod 3 = 1 \<or> i mod 3 = 2" by presburger
    then show ?thesis by auto
  qed
  ultimately show "a = b" by (intro unit_separates) (simp_all add: cyclic_weigh_def)
qed

interpretation shipping_code: position_code "cyclic_weigh [3, 1]" 10
proof
  fix a b i :: nat
  assume "a < 10" and "b < 10" and "cyclic_weigh [3, 1] i a mod 10 = cyclic_weigh [3, 1] i b mod 10"
  moreover have "[3, 1] ! (i mod 2) \<in> {1, 3, 7, 9 :: nat}"
  proof -
    have "i mod 2 = 0 \<or> i mod 2 = 1" by presburger
    then show ?thesis by auto
  qed
  ultimately show "a = b" by (intro unit_separates) (simp_all add: cyclic_weigh_def numeral_2_eq_2)
qed

interpretation mod97_code: position_code decimal_weigh 97
  by unfold_locales (rule decimal_separates)

section \<open>Error detection\<close>

lemma digit_list_append: "digit_list (s @ t) = digit_list s @ digit_list t"
  by (simp add: digit_list_def)

lemma digit_list_Cons: "is_digit c \<Longrightarrow> digit_list (c # s) = digit_val c # digit_list s"
  by (simp add: digit_list_def)

lemma luhn_loop_code:
  "int (luhn_loop tot (odd i) ds) = int tot + code_from luhn_weigh i ds"
proof (induction ds arbitrary: tot i)
  case (Cons d ds)
  have "int (luhn_loop t (\<not> odd i) ds) = int t + code_from luhn_weigh (Suc i) ds" for t
    using Cons [of t "Suc i"] by simp
  then show ?case by (simp add: luhn_weigh_def [of i] Let_def mult.commute [of 2])
qed simp

lemma mod10_int: "(n::nat) mod 10 = 0 \<longleftrightarrow> int n mod 10 = 0"
  by presburger

lemma canon_luhn_code:
  "canon_luhn text \<longleftrightarrow> 2 \<le> length (digit_list text) \<and>
     code_from luhn_weigh 0 (rev (digit_list text)) mod 10 = 0"
  using luhn_loop_code [of 0 0 "rev (digit_list text)"]
  by (auto simp: canon_luhn_def Let_def mod10_int)

definition luhn_gain :: "nat \<Rightarrow> int" where
  "luhn_gain d = (if d \<le> 4 then int d else int d - 9)"

lemma luhn_pair:
  assumes "a < 10" and "b < 10" and "a \<noteq> b" and "{a, b} \<noteq> {0, 9}"
  shows "\<not> 10 dvd luhn_weigh i a + luhn_weigh (Suc i) b - (luhn_weigh i b + luhn_weigh (Suc i) a)"
proof
  let ?x = "luhn_weigh i a + luhn_weigh (Suc i) b - (luhn_weigh i b + luhn_weigh (Suc i) a)"
  assume "10 dvd ?x"
  moreover have x: "?x = luhn_gain a - luhn_gain b \<or> ?x = luhn_gain b - luhn_gain a"
    by (cases "odd i") (auto simp: luhn_weigh_def luhn_gain_def)
  moreover have "-4 \<le> luhn_gain a \<and> luhn_gain a \<le> 4 \<and> -4 \<le> luhn_gain b \<and> luhn_gain b \<le> 4"
    using assms(1,2) by (simp add: luhn_gain_def)
  ultimately have "?x = 0"
    using dvd_imp_le_int [of ?x 10] by linarith
  with x have "luhn_gain a = luhn_gain b" by linarith
  then have "(a = 0 \<and> b = 9) \<or> (a = 9 \<and> b = 0)"
    using assms(1-3) by (auto simp: luhn_gain_def split: if_splits)
  with assms(4) show False by auto
qed

text \<open>
  C17: The Luhn check finds every single wrong digit and every swap of two neighbouring digits
  other than 0 and 9, wherever it occurs in the text: changing one digit of an accepted number,
  or swapping two such neighbours, gives a rejected one.
\<close>

theorem luhn_detects_errors:
  assumes "is_digit c" and "is_digit d" and "c \<noteq> d"
  shows "(canon_luhn (p @ c # q) \<longrightarrow> \<not> canon_luhn (p @ d # q)) \<and>
    (canon_luhn (p @ c # d # q) \<and> {c, d} \<noteq> {CHR ''0'', CHR ''9''} \<longrightarrow> \<not> canon_luhn (p @ d # c # q))"
proof (intro conjI impI notI)
  have v: "digit_val c < 10" "digit_val d < 10" "digit_val c \<noteq> digit_val d"
    using assms digit_val_less digit_val_inject by auto
  {
    assume "canon_luhn (p @ c # q)" and "canon_luhn (p @ d # q)"
    then show False
      using luhn_code.single_error [OF v, of 0 0 "rev (digit_list q)" "rev (digit_list p)"] assms(1,2)
      by (simp add: canon_luhn_code digit_list_append digit_list_Cons)
  next
    assume luhn: "canon_luhn (p @ c # d # q) \<and> {c, d} \<noteq> {CHR ''0'', CHR ''9''}"
      and swapped: "canon_luhn (p @ d # c # q)"
    have "digit_val (CHR ''0'') = 0" "digit_val (CHR ''9'') = 9" "is_digit (CHR ''0'')" "is_digit (CHR ''9'')"
      by (simp_all add: digit_val_def is_digit_def chr_code_def)
    then have ne: "{digit_val d, digit_val c} \<noteq> {0, 9}"
      using luhn assms digit_val_inject by (metis doubleton_eq_iff)
    have *: "code_from luhn_weigh 0 (rev (digit_list (p @ x # y # q))) =
        code_from luhn_weigh 0 (rev (digit_list q)) +
        (luhn_weigh (length (digit_list q)) (digit_val y) + luhn_weigh (Suc (length (digit_list q))) (digit_val x)
        + code_from luhn_weigh (Suc (Suc (length (digit_list q)))) (rev (digit_list p)))"
      if "is_digit x" "is_digit y" for x y
      using that by (simp add: digit_list_append digit_list_Cons code_from_append)
    have "10 dvd code_from luhn_weigh 0 (rev (digit_list (p @ c # d # q)))
        - code_from luhn_weigh 0 (rev (digit_list (p @ d # c # q)))"
      using luhn swapped by (intro dvd_diff) (simp_all add: canon_luhn_code mod_0_imp_dvd)
    then show False
      using luhn_pair [OF v(2,1) v(3) [symmetric] ne, of "length (digit_list q)"]
      unfolding * [OF assms(1,2)] * [OF assms(2,1)] by (simp add: algebra_simps)
  }
qed

text \<open>Routing numbers.\<close>

lemma list9: "length d = 9 \<Longrightarrow> d = [d!0, d!1, d!2, d!3, d!4, d!5, d!6, d!7, d!8]"
  by (rule nth_equalityI) (auto simp: less_Suc_eq numeral_eq_Suc)

lemma aba_code_eq:
  assumes "length d = 9"
  shows "int (3 * (d ! 0 + d ! 3 + d ! 6) + 7 * (d ! 1 + d ! 4 + d ! 7) + 1 * (d ! 2 + d ! 5 + d ! 8))
    = code_from (cyclic_weigh [3, 7, 1]) 0 d"
  by (subst (10) list9 [OF assms]) (simp add: cyclic_weigh_def)

theorem luhn_detects_errors_witness:
  "canon_luhn ''79927398713'' \<and> \<not> canon_luhn ''79927398718'' \<and> \<not> canon_luhn ''97927398713''"
proof -
  have d: "is_digit CHR ''3''" "is_digit CHR ''8''" "is_digit CHR ''7''" "is_digit CHR ''9''"
    by (simp_all add: is_digit_def chr_code_def)
  have "canon_luhn ''79927398713''" by code_simp
  then show ?thesis
    using luhn_detects_errors [OF d(1,2), of "''7992739871''" "[]"]
      luhn_detects_errors [OF d(3,4), of "[]" "''927398713''"]
    by (simp add: doubleton_eq_iff)
qed

lemma aba_valid_code:
  "fst (validate_aba_routing s) \<Longrightarrow> code_from (cyclic_weigh [3, 7, 1]) 0 (digit_list s) mod 10 = 0"
proof -
  assume a: "fst (validate_aba_routing s)"
  then have len: "length (digit_list s) = 9"
    by (simp add: validate_aba_routing_def Let_def digit_list_def split: if_splits)
  have "(3 * (digit_list s ! 0 + digit_list s ! 3 + digit_list s ! 6) +
      7 * (digit_list s ! 1 + digit_list s ! 4 + digit_list s ! 7) +
      1 * (digit_list s ! 2 + digit_list s ! 5 + digit_list s ! 8)) mod 10 = 0"
    using a by (simp add: validate_aba_routing_def Let_def digit_list_def split: if_splits)
  then show ?thesis
    by (simp only: mod10_int aba_code_eq [OF len])
qed

lemma rotate_split:
  "\<exists>P Q. (\<forall>x. drop k (p @ x # q) @ take k (p @ x # q) = P @ x # Q)"
proof (cases "k \<le> length p")
  case True
  then have "drop k (p @ x # q) @ take k (p @ x # q) = drop k p @ x # (q @ take k p)" for x
    by simp
  then show ?thesis by blast
next
  case False
  then obtain j where j: "k - length p = Suc j" by (cases "k - length p") auto
  with False have "drop k (p @ x # q) @ take k (p @ x # q) = (drop j q @ p) @ x # take j q" for x
    by simp
  then show ?thesis by blast
qed

lemma numeric_of_append: "numeric_of (s @ t) = numeric_of s @ numeric_of t"
  by (simp add: numeric_of_def)

lemma numeric_of_digit: "is_digit c \<Longrightarrow> numeric_of (c # s) = c # numeric_of s"
  by (simp add: numeric_of_def)

lemma digits_nat_code: "int (digits_nat s) = code_from decimal_weigh 0 (rev (map digit_val s))"
proof (induction s)
  case (Cons c s)
  have "digits_nat (c # s) = digit_val c * 10 ^ length s + digits_nat s"
    using digits_nat_append [of "[c]" s] by simp
  with Cons show ?case by (simp add: code_from_append decimal_weigh_def)
qed simp

lemma mod97_single:
  assumes "is_digit c" and "is_digit d" and "c \<noteq> d"
  shows "digits_nat (A @ c # B) mod 97 \<noteq> digits_nat (A @ d # B) mod 97"
proof
  have v: "digit_val c < 10" "digit_val d < 10" "digit_val c \<noteq> digit_val d"
    using assms digit_val_less digit_val_inject by auto
  assume "digits_nat (A @ c # B) mod 97 = digits_nat (A @ d # B) mod 97"
  then have "int (digits_nat (A @ c # B)) mod 97 = int (digits_nat (A @ d # B)) mod 97"
    by (metis of_nat_mod of_nat_numeral)
  then show False
    using mod97_code.single_error [OF v, of 0 0 "rev (map digit_val B)" "rev (map digit_val A)"]
    unfolding digits_nat_code by simp
qed

lemma rotated_mod97_single:
  assumes "is_digit c" and "is_digit d" and "c \<noteq> d"
  shows "digits_nat (numeric_of (drop k (p @ c # q) @ take k (p @ c # q))) mod 97
    \<noteq> digits_nat (numeric_of (drop k (p @ d # q) @ take k (p @ d # q))) mod 97"
proof -
  obtain P Q where PQ: "\<And>x. drop k (p @ x # q) @ take k (p @ x # q) = P @ x # Q"
    using rotate_split [of k p q] by blast
  then show ?thesis
    using mod97_single [OF assms] assms
    by (simp only: PQ numeric_of_append numeric_of_digit) simp
qed

lemma iban_numeric_eq:
  "iban_numeric s = (if list_all is_alnum s then Some (numeric_of s) else None)"
  by (induction s) (auto simp: numeric_of_def is_alnum_def)

definition iban_text :: "string \<Rightarrow> string" where
  "iban_text s = strip_blanks (str_upper s)"

lemma validate_iban_iff:
  "fst (validate_iban s) \<longleftrightarrow> 15 \<le> length (iban_text s) \<and> length (iban_text s) \<le> 34 \<and>
     list_all is_alnum (iban_text s) \<and>
     digits_nat (numeric_of (drop 4 (iban_text s) @ take 4 (iban_text s))) mod 97 = 1"
proof -
  have "list_all is_alnum (drop 4 (iban_text s) @ take 4 (iban_text s)) = list_all is_alnum (iban_text s)"
    by (metis append_take_drop_id conj_commute list_all_append)
  then show ?thesis
    by (simp add: validate_iban_def Let_def iban_numeric_eq iban_text_def [symmetric])
qed

lemma digit_not_blank: "is_digit c \<Longrightarrow> c \<noteq> CHR '' ''"
  by (auto simp: is_digit_def chr_code_def)

lemma iban_text_digit: "is_digit c \<Longrightarrow> iban_text (p @ c # q) = iban_text p @ c # iban_text q"
  by (simp add: iban_text_def strip_blanks_def str_upper_def digit_not_blank)

lemma canon_clean_digit: "is_digit c \<Longrightarrow> canon_clean (p @ c # q) = canon_clean p @ c # canon_clean q"
  by (simp add: canon_clean_def str_upper_def is_digit_alnum)

text \<open>
  In a routing number, an IBAN (both implementations) or an LEI, replacing one digit by
  another one always turns an accepted number into a rejected one.
\<close>

theorem weighted_codes_detect_single_error:
  assumes "is_digit c" and "is_digit d" and "c \<noteq> d"
  shows "\<not> (fst (validate_aba_routing (p @ c # q)) \<and> fst (validate_aba_routing (p @ d # q))) \<and>
    \<not> (fst (validate_iban (p @ c # q)) \<and> fst (validate_iban (p @ d # q))) \<and>
    \<not> (canon_iban (p @ c # q) \<and> canon_iban (p @ d # q)) \<and>
    \<not> (fin_lei (p @ c # q) \<and> fin_lei (p @ d # q))"
proof (intro conjI notI; elim conjE)
  have v: "digit_val c < 10" "digit_val d < 10" "digit_val c \<noteq> digit_val d"
    using assms digit_val_less digit_val_inject by auto
  {
    assume "fst (validate_aba_routing (p @ c # q))" and "fst (validate_aba_routing (p @ d # q))"
    from this [THEN aba_valid_code] show False
      using aba_code.single_error [OF v, of 0 0 "digit_list p" "digit_list q"] assms
      by (simp add: digit_list_append digit_list_Cons)
  next
    assume "fst (validate_iban (p @ c # q))" and "fst (validate_iban (p @ d # q))"
    then show False
      using rotated_mod97_single [OF assms, of 4 "iban_text p" "iban_text q"] assms(1,2)
      by (simp add: validate_iban_iff iban_text_digit)
  next
    assume "canon_iban (p @ c # q)" and "canon_iban (p @ d # q)"
    then show False
      using rotated_mod97_single [OF assms, of 4 "canon_clean p" "canon_clean q"] assms(1,2)
      by (simp add: canon_iban_def Let_def canon_clean_digit split: if_splits)
  next
    let ?t = "\<lambda>s. filter (\<lambda>c. c \<noteq> CHR ''-'') (iban_text s)"
    have t: "?t (p @ x # q) = ?t p @ x # ?t q" if "is_digit x" for x
      using that by (auto simp: iban_text_digit is_digit_def chr_code_def)
    assume "fin_lei (p @ c # q)" and "fin_lei (p @ d # q)"
    then have "digits_nat (numeric_of (?t (p @ c # q))) mod 97 = 1"
      and "digits_nat (numeric_of (?t (p @ d # q))) mod 97 = 1"
      by (simp_all add: fin_lei_def Let_def iban_text_def [symmetric] split: if_splits)
    then show False
      using mod97_single [OF assms, of "numeric_of (?t p)" "numeric_of (?t q)"] assms(1,2)
      by (simp add: t numeric_of_append numeric_of_digit)
  }
qed

theorem weighted_codes_detect_single_error_witness:
  "canon_iban ''GB82 WEST 1234 5698 7654 32'' \<and> \<not> canon_iban ''GB82 WEST 1234 5698 7654 33''"
proof -
  have d: "is_digit CHR ''2''" "is_digit CHR ''3''" "CHR ''2'' \<noteq> CHR ''3''"
    by (simp_all add: is_digit_def chr_code_def)
  have "canon_clean ''GB82 WEST 1234 5698 7654 32'' = ''GB82WEST12345698765432''"
    and "numeric_of ''WEST12345698765432GB82'' = ''3214282912345698765432161182''"
    by code_simp+
  then have "canon_iban ''GB82 WEST 1234 5698 7654 32''"
    by (simp add: canon_iban_def digits_nat_def digit_val_def chr_code_def)
  then show ?thesis
    using weighted_codes_detect_single_error [OF d, of "''GB82 WEST 1234 5698 7654 3''" "[]"] by simp
qed

lemma digit_list_filter: "digit_list (filter is_digit s) = digit_list s"
  by (simp add: digit_list_def)

text \<open>
  Where the detector and the canonical validators check the same number they agree: the
  detector accepts an NPI exactly when the canonical check does and it starts with 1 or 2, and
  on texts of letters, digits and blanks the two IBAN checks accept the same texts.
\<close>

theorem detector_agrees_with_canonical:
  "(fst (validate_npi s) \<longleftrightarrow> canon_npi s \<and> hd (filter is_digit s) \<in> {CHR ''1'', CHR ''2''}) \<and>
   (list_all (\<lambda>c. is_alnum c \<or> c = CHR '' '') s \<longrightarrow> (fst (validate_iban s) \<longleftrightarrow> canon_iban s))"
proof (intro conjI impI)
  have "digit_list ''80840'' = [8, 0, 8, 4, 0]" by code_simp
  then have pre: "digit_list (''80840'' @ filter is_digit s) = [8, 0, 8, 4, 0] @ digit_list s"
    by (simp only: digit_list_append digit_list_filter)
  have len: "length (digit_list s) = length (filter is_digit s)" by (simp add: digit_list_def)
  show "fst (validate_npi s) \<longleftrightarrow> canon_npi s \<and> hd (filter is_digit s) \<in> {CHR ''1'', CHR ''2''}"
    unfolding validate_npi_def canon_npi_def canon_luhn_def Let_def pre len by auto
  assume s: "list_all (\<lambda>c. is_alnum c \<or> c = CHR '' '') s"
  have blank: "c = CHR '' '' \<longleftrightarrow> chr_code c = 32" for c
  proof
    assume "chr_code c = 32"
    then have "chr_code c = chr_code (CHR '' '')" by (simp add: chr_code_def)
    then show "c = CHR '' ''" unfolding chr_code_def by (metis char_of_char)
  qed (simp add: chr_code_def)
  have up: "is_alnum (upper_char c) = is_alnum c" "(upper_char c = CHR '' '') = (c = CHR '' '')" for c
    using chr_code_less [of c] unfolding blank
    by (auto simp: is_alnum_def is_alpha_def is_digit_def upper_char_def is_upper_def is_lower_def
        chr_code_char_of)
  have nb: "\<not> is_alnum (CHR '' '')"
    by (simp add: is_alnum_def is_alpha_def is_digit_def is_upper_def is_lower_def chr_code_def)
  from s have t: "iban_text s = canon_clean s \<and> list_all is_alnum (iban_text s)"
    by (induction s) (auto simp: iban_text_def strip_blanks_def canon_clean_def str_upper_def up nb)
  then show "fst (validate_iban s) \<longleftrightarrow> canon_iban s"
    by (auto simp: validate_iban_iff canon_iban_def Let_def)
qed

theorem detector_agrees_with_canonical_witness:
  "list_all (\<lambda>c. is_alnum c \<or> c = CHR '' '') ''GB82 WEST 1234'' \<and>
   (fst (validate_iban ''GB82 WEST 1234'') \<longleftrightarrow> canon_iban ''GB82 WEST 1234'')"
proof -
  have "list_all (\<lambda>c. is_alnum c \<or> c = CHR '' '') ''GB82 WEST 1234''" by code_simp
  then show ?thesis using detector_agrees_with_canonical [of "''GB82 WEST 1234''"] by blast
qed

text \<open>
  The SSN detector accepts every blank- and hyphen-separated nine-digit number, and its
  confidence tells why: 0.99 exactly for the numbers the canonical check accepts, 0.80 when the
  group or the serial is zero, 0.85 otherwise.
\<close>

theorem ssn_confidence:
  fixes s :: string
  defines "t \<equiv> str_strip s"
  defines "digits \<equiv> filter is_digit (str_strip s)"
  assumes "t \<noteq> []" and "list_all (\<lambda>c. is_digit c \<or> c = CHR ''-'' \<or> c = CHR '' '') t"
    and "length digits = 9"
  shows "validate_ssn s =
    (True, if canon_ssn digits then 99 / 100
           else if take 2 (drop 3 digits) = ''00'' \<or> drop 5 digits = ''0000'' then 80 / 100
           else 85 / 100)"
  using assms by (simp add: validate_ssn_def Let_def)

theorem ssn_confidence_witness:
  "validate_ssn '' 666-12-3456'' = (True, 85 / 100)"
proof -
  have f: "str_strip '' 666-12-3456'' \<noteq> []"
    "list_all (\<lambda>c. is_digit c \<or> c = CHR ''-'' \<or> c = CHR '' '') (str_strip '' 666-12-3456'')"
    "length (filter is_digit (str_strip '' 666-12-3456'')) = 9"
    "filter is_digit (str_strip '' 666-12-3456'') = ''666123456''"
    by code_simp+
  have "filter is_digit ''666123456'' = ''666123456''" by code_simp
  then have "\<not> canon_ssn ''666123456''"
    by (simp add: canon_ssn_def Let_def digits_nat_def digit_val_def chr_code_def)
  then show ?thesis
    using ssn_confidence [OF f(1-3)] by (simp add: f(4))
qed

text \<open>
  The Ethereum check accepts text that is not hexadecimal: Python's \<open>int(text, 16)\<close>
  also reads a sign, blanks, underscores and a second prefix.
\<close>

theorem ethereum_accepts_non_hex:
  "fin_ethereum (''0x'' @ ''+'' @ replicate 39 (CHR ''1'')) \<and>
   fin_ethereum (''0x'' @ ''0x_'' @ replicate 37 (CHR ''a'')) \<and> \<not> is_hex (CHR ''+'') \<and> \<not> is_hex (CHR ''_'')"
  by code_simp

end
