(* ===== verification/Circuit_Breaker.thy ===== *)
theory Circuit_Breaker
  imports OL_Prelude
begin

text \<open>
  The circuit breaker, \<^verbatim>\<open>src/openlabels/core/circuit_breaker.py\<close>. Every operation runs under the
  breaker's lock, so it is one atomic step; the reading of the monotonic clock it makes is its
  argument \<open>now\<close>. An exception is given by the names of its classes. \<open>call_through\<close> is the
  decorator (and the \<open>async with\<close> block): admission, the call, the recording of its outcome.

  The lemmas show the invariant of the counters, the thresholds at which the breaker opens and
  closes, and the transitions between its three states.
\<close>

section \<open>State\<close>

datatype circuit_state = CLOSED | OPEN | HALF_OPEN

type_synonym exc = "string list"

record breaker_config =
  failure_threshold :: int
  success_threshold :: int
  recovery_timeout :: real
  exclude_exceptions :: "string list"

record breaker_stats =
  total_calls :: int
  successful_calls :: int
  failed_calls :: int
  rejected_calls :: int
  state_changes :: int
  stat_last_failure :: "real option"
  stat_last_success :: "real option"

record breaker =
  cb_name :: string
  cb_config :: breaker_config
  cb_state :: circuit_state
  failure_count :: int
  success_count :: int
  last_failure_time :: "real option"
  cb_stats :: breaker_stats

definition default_config :: breaker_config where
  "default_config = \<lparr>failure_threshold = 5, success_threshold = 2, recovery_timeout = 60,
     exclude_exceptions = []\<rparr>"

definition empty_stats :: breaker_stats where
  "empty_stats = \<lparr>total_calls = 0, successful_calls = 0, failed_calls = 0, rejected_calls = 0,
     state_changes = 0, stat_last_failure = None, stat_last_success = None\<rparr>"

definition new_breaker :: "string \<Rightarrow> breaker_config option \<Rightarrow> breaker" where
  "new_breaker name config =
     \<lparr>cb_name = name, cb_config = (case config of Some c \<Rightarrow> c | None \<Rightarrow> default_config),
      cb_state = CLOSED, failure_count = 0, success_count = 0, last_failure_time = None,
      cb_stats = empty_stats\<rparr>"

section \<open>Operations\<close>

definition is_open :: "breaker \<Rightarrow> bool" where
  "is_open b \<longleftrightarrow> cb_state b = OPEN"

definition is_closed :: "breaker \<Rightarrow> bool" where
  "is_closed b \<longleftrightarrow> cb_state b = CLOSED"

definition time_until_recovery :: "real \<Rightarrow> breaker \<Rightarrow> real" where
  "time_until_recovery now b =
     (case last_failure_time b of
        None \<Rightarrow> 0
      | Some t \<Rightarrow> if cb_state b \<noteq> OPEN then 0
                  else max 0 (recovery_timeout (cb_config b) - (now - t)))"

definition bump :: "(breaker_stats \<Rightarrow> breaker_stats) \<Rightarrow> breaker \<Rightarrow> breaker" where
  "bump f b = b\<lparr>cb_stats := f (cb_stats b)\<rparr>"

definition transition_to :: "circuit_state \<Rightarrow> breaker \<Rightarrow> breaker" where
  "transition_to new_state b =
     (if cb_state b \<noteq> new_state then
        (let b1 = bump (\<lambda>s. s\<lparr>state_changes := state_changes s + 1\<rparr>) (b\<lparr>cb_state := new_state\<rparr>)
         in case new_state of
              CLOSED \<Rightarrow> b1\<lparr>failure_count := 0, success_count := 0\<rparr>
            | HALF_OPEN \<Rightarrow> b1\<lparr>success_count := 0\<rparr>
            | OPEN \<Rightarrow> b1)
      else b)"

definition check_state :: "real \<Rightarrow> breaker \<Rightarrow> breaker" where
  "check_state now b =
     (if cb_state b = OPEN then
        (case last_failure_time b of
           None \<Rightarrow> b
         | Some t \<Rightarrow> if now - t \<ge> recovery_timeout (cb_config b) then transition_to HALF_OPEN b else b)
      else b)"

definition record_success :: "real \<Rightarrow> breaker \<Rightarrow> breaker" where
  "record_success now b0 =
     (let b = bump (\<lambda>s. s\<lparr>total_calls := total_calls s + 1,
                successful_calls := successful_calls s + 1, stat_last_success := Some now\<rparr>) b0
      in case cb_state b of
           HALF_OPEN \<Rightarrow>
             (let b1 = b\<lparr>success_count := success_count b + 1\<rparr>
              in if success_count b1 \<ge> success_threshold (cb_config b1)
                 then transition_to CLOSED b1 else b1)
         | CLOSED \<Rightarrow> b\<lparr>failure_count := 0\<rparr>
         | OPEN \<Rightarrow> b)"

definition record_failure :: "real \<Rightarrow> breaker \<Rightarrow> breaker" where
  "record_failure now b0 =
     (let b = (bump (\<lambda>s. s\<lparr>total_calls := total_calls s + 1, failed_calls := failed_calls s + 1,
                stat_last_failure := Some now\<rparr>) b0)\<lparr>last_failure_time := Some now\<rparr>
      in case cb_state b of
           HALF_OPEN \<Rightarrow> transition_to OPEN b
         | CLOSED \<Rightarrow>
             (let b1 = b\<lparr>failure_count := failure_count b + 1\<rparr>
              in if failure_count b1 \<ge> failure_threshold (cb_config b1)
                 then transition_to OPEN b1 else b1)
         | OPEN \<Rightarrow> b)"

definition allow_request :: "real \<Rightarrow> breaker \<Rightarrow> bool \<times> breaker" where
  "allow_request now b0 =
     (let b = check_state now b0 in
      case cb_state b of
        CLOSED \<Rightarrow> (True, b)
      | HALF_OPEN \<Rightarrow> (True, b)
      | OPEN \<Rightarrow> (False, bump (\<lambda>s. s\<lparr>rejected_calls := rejected_calls s + 1\<rparr>) b))"

text \<open>\<open>__aenter__\<close> raises \<open>CircuitOpenError(name, recovery_time)\<close> when the request is refused;
  the recovery time is read at a later clock reading \<open>now'\<close>.\<close>

definition aenter :: "real \<Rightarrow> real \<Rightarrow> breaker \<Rightarrow> (string \<times> real + unit) \<times> breaker" where
  "aenter now now' b =
     (let (allowed, b') = allow_request now b
      in if \<not> allowed then (Inl (cb_name b', time_until_recovery now' b'), b') else (Inr (), b'))"

definition isinstance :: "exc \<Rightarrow> string list \<Rightarrow> bool" where
  "isinstance e classes \<longleftrightarrow> list_ex (\<lambda>c. c \<in> set e) classes"

definition aexit :: "real \<Rightarrow> exc option \<Rightarrow> breaker \<Rightarrow> breaker" where
  "aexit now exc_val b =
     (case exc_val of
        None \<Rightarrow> record_success now b
      | Some e \<Rightarrow> if exclude_exceptions (cb_config b) \<noteq> [] \<and> isinstance e (exclude_exceptions (cb_config b))
                  then record_success now b else record_failure now b)"

text \<open>The decorated call: \<open>Inl (Inl x)\<close> is \<open>CircuitOpenError\<close>, \<open>Inl (Inr e)\<close> the function's
  own exception, which \<open>__aexit__\<close> does not suppress.\<close>

definition call_through ::
  "real \<Rightarrow> real \<Rightarrow> real \<Rightarrow> (exc + 'a) \<Rightarrow> breaker \<Rightarrow> ((string \<times> real + exc) + 'a) \<times> breaker" where
  "call_through now now' later outcome b =
     (case aenter now now' b of
        (Inl err, b') \<Rightarrow> (Inl (Inl err), b')
      | (Inr _, b') \<Rightarrow>
          (case outcome of
             Inl e \<Rightarrow> (Inl (Inr e), aexit later (Some e) b')
           | Inr x \<Rightarrow> (Inr x, aexit later None b')))"

text \<open>The registry of breakers by name, and its class methods.\<close>

type_synonym registry = "string \<rightharpoonup> breaker"

definition register :: "breaker \<Rightarrow> registry \<Rightarrow> registry" where
  "register b reg = reg(cb_name b \<mapsto> b)"

record breaker_status =
  st_name :: string
  st_state :: circuit_state
  st_failure_count :: int
  st_success_count :: int
  st_time_until_recovery :: real
  st_total_calls :: int
  st_successful_calls :: int
  st_failed_calls :: int
  st_rejected_calls :: int
  st_state_changes :: int

definition get_status :: "real \<Rightarrow> breaker \<Rightarrow> breaker_status" where
  "get_status now b =
     \<lparr>st_name = cb_name b, st_state = cb_state b, st_failure_count = failure_count b,
      st_success_count = success_count b, st_time_until_recovery = time_until_recovery now b,
      st_total_calls = total_calls (cb_stats b), st_successful_calls = successful_calls (cb_stats b),
      st_failed_calls = failed_calls (cb_stats b), st_rejected_calls = rejected_calls (cb_stats b),
      st_state_changes = state_changes (cb_stats b)\<rparr>"

definition get_all_status :: "real \<Rightarrow> registry \<Rightarrow> (string \<rightharpoonup> breaker_status)" where
  "get_all_status now reg = (\<lambda>name. map_option (get_status now) (reg name))"

definition reset_breaker :: "breaker \<Rightarrow> breaker" where
  "reset_breaker b =
     b\<lparr>cb_state := CLOSED, failure_count := 0, success_count := 0, last_failure_time := None\<rparr>"

definition reset_all :: "registry \<Rightarrow> registry" where
  "reset_all reg = (\<lambda>name. map_option reset_breaker (reg name))"

section \<open>Invariant\<close>

lemmas breaker_ops = bump_def transition_to_def check_state_def record_success_def
  record_failure_def allow_request_def reset_breaker_def

text \<open>The operations other code can run on a breaker, as events.\<close>

datatype cb_event = Admit real | Success real | Failure real | Reset

fun cb_step :: "cb_event \<Rightarrow> breaker \<Rightarrow> breaker" where
  "cb_step (Admit now) b = snd (allow_request now b)"
| "cb_step (Success now) b = record_success now b"
| "cb_step (Failure now) b = record_failure now b"
| "cb_step Reset b = reset_breaker b"

definition sane_config :: "breaker_config \<Rightarrow> bool" where
  "sane_config c \<longleftrightarrow> 1 \<le> failure_threshold c \<and> 1 \<le> success_threshold c"

definition cb_inv :: "breaker_config \<Rightarrow> breaker \<Rightarrow> bool" where
  "cb_inv c b \<longleftrightarrow> cb_config b = c \<and> 0 \<le> failure_count b \<and> 0 \<le> success_count b \<and>
     (cb_state b = CLOSED \<longrightarrow> failure_count b < failure_threshold c) \<and>
     (cb_state b = HALF_OPEN \<longrightarrow> success_count b < success_threshold c) \<and>
     (cb_state b \<noteq> CLOSED \<longrightarrow> last_failure_time b \<noteq> None) \<and>
     total_calls (cb_stats b) = successful_calls (cb_stats b) + failed_calls (cb_stats b)"

lemma cb_step_inv: "sane_config c \<Longrightarrow> cb_inv c b \<Longrightarrow> cb_inv c (cb_step e b)"
  by (cases e; cases "cb_state b")
    (auto simp: breaker_ops cb_inv_def sane_config_def Let_def split: option.splits)

lemma cb_step_config [simp]: "cb_config (cb_step e b) = cb_config b"
  by (cases e; cases "cb_state b") (auto simp: breaker_ops Let_def split: option.splits)

lemma op_config [simp]:
  "cb_config (record_success t b) = cb_config b"
  "cb_config (record_failure t b) = cb_config b"
  "cb_config (snd (allow_request t b)) = cb_config b"
  using cb_step_config [of "Success t" b] cb_step_config [of "Failure t" b]
    cb_step_config [of "Admit t" b] by simp_all

interpretation cb: event_machine cb_step "\<lambda>b. sane_config (cb_config b) \<and> cb_inv (cb_config b) b"
  by unfold_locales (auto intro: cb_step_inv)

lemma cb_inv_new: "sane_config c \<Longrightarrow> cb_inv c (new_breaker name (Some c))"
  by (simp add: cb_inv_def new_breaker_def sane_config_def empty_stats_def)

lemma fold_config: "cb_config (fold cb_step es b) = cb_config b"
  by (induction es arbitrary: b) auto

text \<open>
  C22: Whatever operations run on a breaker, and at whatever times, a closed breaker has fewer
  failures than the threshold, a half-open one fewer successes than its threshold, a breaker
  that is not closed knows when it last failed, and the calls counted are the successes and
  failures counted.
\<close>

theorem breaker_invariant:
  assumes "1 \<le> failure_threshold c" and "1 \<le> success_threshold c"
    and "b = fold cb_step es (new_breaker name (Some c))"
  shows "(cb_state b = CLOSED \<longrightarrow> failure_count b < failure_threshold c) \<and>
    (cb_state b = HALF_OPEN \<longrightarrow> success_count b < success_threshold c) \<and>
    (cb_state b \<noteq> CLOSED \<longrightarrow> last_failure_time b \<noteq> None) \<and>
    total_calls (cb_stats b) = successful_calls (cb_stats b) + failed_calls (cb_stats b)"
proof -
  have "sane_config c" using assms by (simp add: sane_config_def)
  moreover have "cb_config (new_breaker name (Some c)) = c" by (simp add: new_breaker_def)
  ultimately have "cb_inv c b"
    using cb.fold_inv [of "new_breaker name (Some c)" es] cb_inv_new [of c name] assms(3)
    by (simp add: fold_config)
  then show ?thesis by (auto simp: cb_inv_def)
qed

theorem breaker_invariant_witness:
  "\<exists>b. b = fold cb_step [Failure 1, Failure 2, Admit 3, Success 4] (new_breaker ''g'' (Some default_config)) \<and>
     failure_count b < 5"
proof -
  let ?b = "fold cb_step [Failure 1, Failure 2, Admit 3, Success 4] (new_breaker ''g'' (Some default_config))"
  have "cb_state ?b = CLOSED"
    by (simp add: breaker_ops Let_def new_breaker_def default_config_def)
  then show ?thesis
    using breaker_invariant [of default_config ?b "[Failure 1, Failure 2, Admit 3, Success 4]" "''g''"]
    by (simp add: default_config_def)
qed

section \<open>The three-state machine\<close>

text \<open>
  What the breaker promises, as a labelled machine: a state carries only what the next moves
  depend on (the failures in a row, the time of the last failure, the successes of the probe),
  a move is labelled with the operation and with the answer it gives to a request, and the
  thresholds and the timeout of the configuration are the guards.
\<close>

datatype phase = Closed int | Opened real | Probing int

inductive moves :: "breaker_config \<Rightarrow> phase \<Rightarrow> cb_event \<Rightarrow> bool option \<Rightarrow> phase \<Rightarrow> bool" for c where
  admit: "moves c (Closed f) (Admit now) (Some True) (Closed f)"
| clear: "moves c (Closed f) (Success now) None (Closed 0)"
| tolerate: "f + 1 < failure_threshold c \<Longrightarrow> moves c (Closed f) (Failure now) None (Closed (f + 1))"
| trip: "failure_threshold c \<le> f + 1 \<Longrightarrow> moves c (Closed f) (Failure now) None (Opened now)"
| refuse: "now - t < recovery_timeout c \<Longrightarrow> moves c (Opened t) (Admit now) (Some False) (Opened t)"
| probe: "recovery_timeout c \<le> now - t \<Longrightarrow> moves c (Opened t) (Admit now) (Some True) (Probing 0)"
| late_success: "moves c (Opened t) (Success now) None (Opened t)"
| late_failure: "moves c (Opened t) (Failure now) None (Opened now)"
| admit_probe: "moves c (Probing k) (Admit now) (Some True) (Probing k)"
| gain: "k + 1 < success_threshold c \<Longrightarrow> moves c (Probing k) (Success now) None (Probing (k + 1))"
| recover: "success_threshold c \<le> k + 1 \<Longrightarrow> moves c (Probing k) (Success now) None (Closed 0)"
| retrip: "moves c (Probing k) (Failure now) None (Opened now)"
| restart: "moves c s Reset None (Closed 0)"

inductive_simps moves_simps:
  "moves c (Closed f) e out s" "moves c (Opened t) e out s" "moves c (Probing k) e out s"

definition phase_of :: "breaker \<Rightarrow> phase" where
  "phase_of b = (case cb_state b of
       CLOSED \<Rightarrow> Closed (failure_count b)
     | OPEN \<Rightarrow> Opened (the (last_failure_time b))
     | HALF_OPEN \<Rightarrow> Probing (success_count b))"

fun reply :: "cb_event \<Rightarrow> breaker \<Rightarrow> bool option" where
  "reply (Admit now) b = Some (fst (allow_request now b))"
| "reply _ b = None"

text \<open>One step, from a state with the invariant: the machine makes exactly the breaker's move.\<close>

lemma step_is_move:
  assumes "cb_inv c b"
  shows "moves c (phase_of b) e out s \<longleftrightarrow> out = reply e b \<and> s = phase_of (cb_step e b)"
  using assms
  by (cases e; cases "cb_state b"; cases "last_failure_time b")
    (auto simp: phase_of_def cb_inv_def moves_simps breaker_ops Let_def split: if_splits)

lemma step_counts_changes:
  "e \<noteq> Reset \<Longrightarrow> state_changes (cb_stats (cb_step e b)) =
     state_changes (cb_stats b) + of_bool (cb_state (cb_step e b) \<noteq> cb_state b)"
  by (cases e; cases "cb_state b") (auto simp: breaker_ops Let_def split: option.splits)

text \<open>
  C9: The breaker refines the labelled three-state machine \<open>moves\<close>: after any run of its
  operations on a new breaker whose two thresholds are at least one, the machine, in the
  state that the breaker's fields represent, has exactly one move for the next operation, and
  that move gives the breaker's answer and leads to the state of the breaker afterwards. The
  moves carry the triggers and guards: a closed breaker opens on the failure that reaches
  the failure threshold and on no other, a success clears its count, an open one refuses until
  the recovery timeout has passed since the last failure and then probes, a probing one closes on
  the success that reaches the success threshold and opens on any failure, and the reset closes
  it from any state. The change counter counts the changes of state made by every
  operation but the reset.
\<close>

theorem breaker_refines_machine:
  assumes "1 \<le> failure_threshold c" and "1 \<le> success_threshold c"
    and "b = fold cb_step es (new_breaker name (Some c))"
  shows "(moves c (phase_of b) e out s \<longleftrightarrow> out = reply e b \<and> s = phase_of (cb_step e b)) \<and>
    state_changes (cb_stats (cb_step e b)) = state_changes (cb_stats b) +
      (if e \<noteq> Reset \<and> cb_state (cb_step e b) \<noteq> cb_state b then 1 else 0)"
proof -
  have "sane_config c" using assms by (simp add: sane_config_def)
  moreover have "cb_config (new_breaker name (Some c)) = c" by (simp add: new_breaker_def)
  ultimately have "cb_inv c b"
    using cb.fold_inv [of "new_breaker name (Some c)" es] cb_inv_new [of c name] assms(3)
    by (simp add: fold_config)
  moreover have "state_changes (cb_stats (cb_step Reset b)) = state_changes (cb_stats b)"
    by (simp add: breaker_ops)
  ultimately show ?thesis
    using step_is_move [of c b e out s] step_counts_changes [of e b] by (cases "e = Reset") auto
qed

theorem breaker_refines_machine_witness:
  "moves default_config (Opened 5) (Admit 65) (Some True) (Probing 0)"
proof -
  let ?es = "[Failure 1, Failure 2, Failure 3, Failure 4, Failure 5]"
  let ?b = "fold cb_step ?es (new_breaker ''g'' (Some default_config))"
  have p: "phase_of ?b = Opened 5" and r: "reply (Admit 65) ?b = Some True"
    and q: "phase_of (cb_step (Admit 65) ?b) = Probing 0"
    by (simp_all add: breaker_ops Let_def new_breaker_def default_config_def phase_of_def)
  show ?thesis
    using breaker_refines_machine [of default_config ?b ?es "''g''" "Admit 65" "Some True" "Probing 0"]
      p r q by (simp add: default_config_def)
qed

lemma failures_run:
  assumes "cb_state b = CLOSED" and "failure_count b < failure_threshold (cb_config b)"
  shows "cb_state (fold cb_step (map Failure ts) b) =
    (if failure_count b + int (length ts) \<ge> failure_threshold (cb_config b) then OPEN else CLOSED)"
  using assms
proof (induction ts arbitrary: b)
  case (Cons t ts)
  let ?b = "cb_step (Failure t) b"
  have stay_open: "cb_state b' = OPEN \<Longrightarrow> cb_state (fold cb_step (map Failure us) b') = OPEN" for us b'
    by (induction us arbitrary: b') (simp_all add: breaker_ops Let_def)
  show ?case
  proof (cases "failure_count b + 1 \<ge> failure_threshold (cb_config b)")
    case True
    with Cons.prems have "cb_state ?b = OPEN" by (simp add: breaker_ops Let_def)
    with True show ?thesis by (simp add: stay_open)
  next
    case False
    with Cons.prems have b: "cb_state ?b = CLOSED" "failure_count ?b = failure_count b + 1"
      by (simp_all add: breaker_ops Let_def)
    with Cons.IH [of ?b] False show ?thesis by (simp add: add.assoc)
  qed
qed auto

text \<open>
  From a closed breaker that has just seen a success, a run of failures opens it exactly
  when the run reaches the threshold; until then it stays closed and admits requests.
\<close>

theorem breaker_opens_at_threshold:
  assumes "cb_state b = CLOSED" and "1 \<le> failure_threshold (cb_config b)"
  shows "cb_state (fold cb_step (Success t # map Failure ts) b) =
    (if int (length ts) \<ge> failure_threshold (cb_config b) then OPEN else CLOSED)"
proof -
  have "cb_state (cb_step (Success t) b) = CLOSED" and "failure_count (cb_step (Success t) b) = 0"
    using assms(1) by (simp_all add: breaker_ops Let_def)
  with failures_run [of "cb_step (Success t) b" ts] assms(2) show ?thesis by simp
qed

theorem breaker_opens_at_threshold_witness:
  "cb_state (fold cb_step (Success 0 # map Failure [1, 2, 3, 4, 5]) (new_breaker ''g'' None)) = OPEN"
  using breaker_opens_at_threshold [of "new_breaker ''g'' None" 0 "[1, 2, 3, 4, 5]"]
  by (simp add: new_breaker_def default_config_def)

text \<open>
  An open breaker refuses every request until the recovery timeout has passed since the
  last failure, changes nothing but its rejection count, and announces a positive waiting time;
  from then on it admits the request and is half-open.
\<close>

theorem open_breaker_admission:
  assumes "cb_state b = OPEN" and "last_failure_time b = Some t"
  shows "(now - t < recovery_timeout (cb_config b) \<longrightarrow>
      allow_request now b = (False, bump (\<lambda>s. s\<lparr>rejected_calls := rejected_calls s + 1\<rparr>) b) \<and>
      (\<exists>wait. 0 < wait \<and> fst (aenter now now b) = Inl (cb_name b, wait))) \<and>
    (recovery_timeout (cb_config b) \<le> now - t \<longrightarrow>
      fst (allow_request now b) \<and> cb_state (snd (allow_request now b)) = HALF_OPEN \<and>
      success_count (snd (allow_request now b)) = 0)"
  using assms by (auto simp: breaker_ops aenter_def time_until_recovery_def Let_def)

definition tripped :: breaker where
  "tripped = (new_breaker ''g'' None)\<lparr>cb_state := OPEN, failure_count := 5, last_failure_time := Some 100\<rparr>"

theorem open_breaker_admission_witness:
  "\<not> fst (allow_request 159 tripped) \<and> fst (allow_request 160 tripped)"
  using open_breaker_admission [of tripped 100 159] open_breaker_admission [of tripped 100 160]
  by (simp add: tripped_def new_breaker_def default_config_def)

lemma successes_run:
  assumes "cb_state b = HALF_OPEN"
    and "success_count b + int (length ts) = success_threshold (cb_config b)" and "ts \<noteq> []"
  shows "cb_state (fold cb_step (map Success ts) b) = CLOSED \<and>
    failure_count (fold cb_step (map Success ts) b) = 0"
  using assms
proof (induction ts arbitrary: b)
  case (Cons t ts)
  show ?case
  proof (cases "ts = []")
    case True
    with Cons.prems show ?thesis by (simp add: breaker_ops Let_def)
  next
    case False
    then have "0 < length ts" by simp
    then have "\<not> success_threshold (cb_config b) \<le> success_count b + 1"
      using Cons.prems(2) unfolding length_Cons by linarith
    with Cons.prems have "cb_state (cb_step (Success t) b) = HALF_OPEN"
      and "success_count (cb_step (Success t) b) = success_count b + 1"
      by (simp_all add: breaker_ops Let_def)
    with Cons False show ?thesis by simp
  qed
qed simp

text \<open>
  After the timeout, one admitted request and as many successes as the success threshold
  close the breaker and clear its failure count; one failure while half-open opens it again.
\<close>

theorem breaker_recovery:
  assumes "cb_state b = OPEN" and "last_failure_time b = Some t"
    and "recovery_timeout (cb_config b) \<le> now - t"
    and "int (length ts) = success_threshold (cb_config b)" and "ts \<noteq> []"
  shows "cb_state (fold cb_step (Admit now # map Success ts) b) = CLOSED \<and>
    failure_count (fold cb_step (Admit now # map Success ts) b) = 0 \<and>
    cb_state (fold cb_step [Admit now, Failure now'] b) = OPEN"
proof -
  have half: "cb_state (cb_step (Admit now) b) = HALF_OPEN" "success_count (cb_step (Admit now) b) = 0"
    using assms(1-3) by (auto simp: breaker_ops Let_def)
  then have "cb_state (cb_step (Failure now') (cb_step (Admit now) b)) = OPEN"
    by (simp add: record_failure_def transition_to_def bump_def Let_def)
  with half successes_run [of "cb_step (Admit now) b" ts] assms(4,5) show ?thesis by simp
qed

theorem breaker_recovery_witness:
  "cb_state (fold cb_step (Admit 160 # map Success [161, 162]) tripped) = CLOSED"
  using breaker_recovery [of tripped 100 160 "[161, 162]" 0]
  by (simp add: tripped_def new_breaker_def default_config_def)

text \<open>
  A half-open breaker admits every request, not one test request as the comment in
  \<open>allow_request\<close> says: however many requests arrive before an outcome is recorded, all are
  admitted and the breaker is unchanged.
\<close>

theorem half_open_admits_all:
  assumes "cb_state b = HALF_OPEN"
  shows "fold cb_step (map Admit ts) b = b \<and> fst (allow_request now (fold cb_step (map Admit ts) b))"
proof -
  have "cb_step (Admit t) b = b" for t using assms by (simp add: breaker_ops Let_def)
  then have "fold cb_step (map Admit ts) b = b" by (induction ts) simp_all
  then show ?thesis using assms by (simp add: breaker_ops Let_def)
qed

theorem half_open_admits_all_witness:
  "fst (allow_request 9 (fold cb_step (map Admit [1, 2, 3, 4]) (tripped\<lparr>cb_state := HALF_OPEN\<rparr>)))"
  by (rule half_open_admits_all [THEN conjunct2]) simp

end
