(* ===== verification/Filter_Lexer.thy ===== *)
theory Filter_Lexer
  imports OL_Prelude
begin

text \<open>
  The tokenizer of the result filter language, class \<open>Lexer\<close> of
  \<^verbatim>\<open>src/openlabels/cli/filter_parser.py\<close>. The lexer object is the text, which never changes,
  and the position \<open>pos\<close>, which every method takes and returns. Its loops are functions with
  the distance to the end of the text as measure; \<open>tokenize\<close> stops because every token but
  \<open>EOF\<close> ends after its start (\<open>next_token_progress\<close>).
\<close>

section \<open>Tokens\<close>

datatype token_type =
    T_STRING | T_NUMBER | T_IDENTIFIER
  | T_EQ | T_NE | T_GT | T_LT | T_GE | T_LE | T_REGEX | T_CONTAINS
  | T_AND | T_OR | T_NOT
  | T_HAS | T_MISSING | T_COUNT
  | T_LPAREN | T_RPAREN
  | T_EOF

datatype fvalue = FNone | FStr string | FInt int | FFloat real

record token =
  tok_type :: token_type
  tok_value :: fvalue
  tok_position :: nat

datatype lexer_error = UnterminatedString nat | UnexpectedCharacter char nat

definition mk_token :: "token_type \<Rightarrow> fvalue \<Rightarrow> nat \<Rightarrow> token" where
  "mk_token ty v p = \<lparr>tok_type = ty, tok_value = v, tok_position = p\<rparr>"

definition KEYWORDS :: "(string \<times> token_type) list" where
  "KEYWORDS =
     [(''AND'', T_AND), (''and'', T_AND), (''OR'', T_OR), (''or'', T_OR), (''NOT'', T_NOT),
      (''not'', T_NOT), (''has'', T_HAS), (''missing'', T_MISSING), (''count'', T_COUNT),
      (''contains'', T_CONTAINS)]"

abbreviation backslash :: char where "backslash \<equiv> CHR 0x5C"
abbreviation dquote :: char where "dquote \<equiv> CHR 0x22"
abbreviation squote :: char where "squote \<equiv> CHR 0x27"

section \<open>Reading\<close>

function skip_whitespace :: "string \<Rightarrow> nat \<Rightarrow> nat" where
  "skip_whitespace src pos =
     (if pos < length src \<and> is_space (src ! pos) then skip_whitespace src (pos + 1) else pos)"
  by pat_completeness auto
termination by (relation "measure (\<lambda>(src, pos). length src - pos)") auto

text \<open>The position of the closing quote, if there is one.\<close>

function string_close :: "string \<Rightarrow> char \<Rightarrow> nat \<Rightarrow> nat option" where
  "string_close src quote_char pos =
     (if pos < length src then
        (if src ! pos = backslash \<and> pos + 1 < length src then string_close src quote_char (pos + 2)
         else if src ! pos = quote_char then Some pos
         else string_close src quote_char (pos + 1))
      else None)"
  by pat_completeness auto
termination by (relation "measure (\<lambda>(src, q, pos). length src - pos)") auto

definition unescape :: "string \<Rightarrow> string" where
  "unescape value0 =
     (let v1 = str_replace [backslash, CHR ''n''] [CHR 0x0A] value0;
          v2 = str_replace [backslash, CHR ''t''] [CHR 0x09] v1;
          v3 = str_replace [backslash, dquote] [dquote] v2;
          v4 = str_replace [backslash, squote] [squote] v3
      in str_replace [backslash, backslash] [backslash] v4)"

definition read_string :: "string \<Rightarrow> nat \<Rightarrow> lexer_error + (string \<times> nat)" where
  "read_string src pos =
     (let quote_char = src ! pos; start = pos + 1 in
      case string_close src quote_char start of
        Some p \<Rightarrow> Inr (unescape (take (p - start) (drop start src)), p + 1)
      | None \<Rightarrow> Inl (UnterminatedString (start - 1)))"

text \<open>The end of a numeral and whether it has a dot.\<close>

function number_end :: "string \<Rightarrow> nat \<Rightarrow> bool \<Rightarrow> nat \<times> bool" where
  "number_end src pos has_dot =
     (if pos < length src then
        (if is_digit (src ! pos) then number_end src (pos + 1) has_dot
         else if src ! pos = CHR ''.'' \<and> \<not> has_dot then number_end src (pos + 1) True
         else (pos, has_dot))
      else (pos, has_dot))"
  by pat_completeness auto
termination by (relation "measure (\<lambda>(src, pos, d). length src - pos)") auto

definition parse_decimal :: "string \<Rightarrow> real" where
  "parse_decimal s =
     (let whole = takeWhile is_digit s; frac = drop (length whole + 1) s
      in real (digits_nat whole) + real (digits_nat frac) / 10 ^ length frac)"

definition number_value :: "string \<Rightarrow> bool \<Rightarrow> fvalue" where
  "number_value s has_dot =
     (let neg = (s \<noteq> [] \<and> hd s = CHR ''-''); body = (if neg then tl s else s)
      in if has_dot then FFloat (if neg then - parse_decimal body else parse_decimal body)
         else FInt (if neg then - int (digits_nat body) else int (digits_nat body)))"

definition read_number :: "string \<Rightarrow> nat \<Rightarrow> fvalue \<times> nat" where
  "read_number src pos =
     (let start = pos; pos1 = (if src ! pos = CHR ''-'' then pos + 1 else pos);
          (stop, has_dot) = number_end src pos1 False
      in (number_value (take (stop - start) (drop start src)) has_dot, stop))"

definition identifier_char :: "char \<Rightarrow> bool" where
  "identifier_char c \<longleftrightarrow> is_alnum c \<or> c \<in> {CHR ''_'', CHR ''-'', CHR ''.''}"

function identifier_end :: "string \<Rightarrow> nat \<Rightarrow> nat" where
  "identifier_end src pos =
     (if pos < length src \<and> identifier_char (src ! pos) then identifier_end src (pos + 1) else pos)"
  by pat_completeness auto
termination by (relation "measure (\<lambda>(src, pos). length src - pos)") auto

definition read_identifier :: "string \<Rightarrow> nat \<Rightarrow> string \<times> nat" where
  "read_identifier src pos =
     (let stop = identifier_end src pos in (take (stop - pos) (drop pos src), stop))"

declare skip_whitespace.simps [simp del] string_close.simps [simp del] number_end.simps [simp del]
  identifier_end.simps [simp del]

definition single_operator :: "char \<Rightarrow> token_type option" where
  "single_operator c =
     (if c = CHR ''='' then Some T_EQ else if c = CHR ''>'' then Some T_GT
      else if c = CHR ''<'' then Some T_LT else if c = CHR ''~'' then Some T_REGEX
      else if c = CHR ''('' then Some T_LPAREN else if c = CHR '')'' then Some T_RPAREN else None)"

definition double_operator :: "string \<Rightarrow> token_type option" where
  "double_operator two_char =
     (if two_char = ''!='' then Some T_NE else if two_char = ''>='' then Some T_GE
      else if two_char = ''<='' then Some T_LE else None)"

definition next_token :: "string \<Rightarrow> nat \<Rightarrow> lexer_error + (token \<times> nat)" where
  "next_token src pos0 =
     (let pos = skip_whitespace src pos0 in
      if pos \<ge> length src then Inr (mk_token T_EOF FNone pos, pos)
      else (let c = src ! pos in
        if c = dquote \<or> c = squote then
          res_bind (read_string src pos) (\<lambda>(v, pos'). Inr (mk_token T_STRING (FStr v) pos, pos'))
        else if is_digit c \<or> (c = CHR ''-'' \<and> pos + 1 < length src \<and> is_digit (src ! (pos + 1))) then
          (let (v, pos') = read_number src pos in Inr (mk_token T_NUMBER v pos, pos'))
        else (case (if pos + 1 < length src then double_operator (take 2 (drop pos src)) else None) of
          Some ty \<Rightarrow> Inr (mk_token ty (FStr (take 2 (drop pos src))) pos, pos + 2)
        | None \<Rightarrow>
          (case single_operator c of
             Some ty \<Rightarrow> Inr (mk_token ty (FStr [c]) pos, pos + 1)
           | None \<Rightarrow>
             if is_alpha c \<or> c = CHR ''_'' then
               (let (v, pos') = read_identifier src pos;
                    ty = (case map_of KEYWORDS v of Some k \<Rightarrow> k | None \<Rightarrow> T_IDENTIFIER)
                in Inr (mk_token ty (FStr v) pos, pos'))
             else Inl (UnexpectedCharacter c pos)))))"

section \<open>Progress\<close>

lemma skip_whitespace_ge: "pos \<le> skip_whitespace src pos"
proof (induction src pos rule: skip_whitespace.induct)
  case (1 src pos)
  then show ?case by (subst skip_whitespace.simps) auto
qed

lemma string_close_bounds: "string_close src q pos = Some p \<Longrightarrow> pos \<le> p \<and> p < length src"
proof (induction src q pos rule: string_close.induct)
  case (1 src q pos)
  have esc: "string_close src q (Suc (Suc pos)) = Some p \<Longrightarrow> pos < length src \<Longrightarrow>
      src ! pos = backslash \<Longrightarrow> Suc pos < length src \<Longrightarrow> Suc (Suc pos) \<le> p \<and> p < length src"
    using 1(1) by simp
  from 1(3) show ?case
    by (subst (asm) string_close.simps) (auto split: if_splits dest: esc 1(2))
qed

lemma number_end_ge: "pos \<le> fst (number_end src pos d)"
proof (induction src pos d rule: number_end.induct)
  case (1 src pos d)
  then show ?case by (subst number_end.simps) auto
qed

lemma identifier_end_ge: "pos \<le> identifier_end src pos"
proof (induction src pos rule: identifier_end.induct)
  case (1 src pos)
  then show ?case by (subst identifier_end.simps) auto
qed

lemma read_string_progress: "read_string src pos = Inr (v, pos') \<Longrightarrow> pos < pos'"
  by (auto simp: read_string_def Let_def split: option.splits dest: string_close_bounds)

lemma read_number_progress:
  assumes "pos < length src"
    and "is_digit (src ! pos) \<or> (src ! pos = CHR ''-'' \<and> pos + 1 < length src)"
  shows "pos < snd (read_number src pos)"
proof (cases "src ! pos = CHR ''-''")
  case True
  then show ?thesis
    using number_end_ge [of "pos + 1" src False]
    by (simp add: read_number_def case_prod_beta)
next
  case False
  with assms have "number_end src pos False = number_end src (pos + 1) False"
    by (subst number_end.simps) simp
  with False show ?thesis
    using number_end_ge [of "pos + 1" src False]
    by (simp add: read_number_def case_prod_beta)
qed

lemma read_identifier_progress:
  assumes "pos < length src" and "identifier_char (src ! pos)"
  shows "pos < snd (read_identifier src pos)"
proof -
  have "identifier_end src pos = identifier_end src (pos + 1)"
    using assms by (subst identifier_end.simps) simp
  then show ?thesis
    using identifier_end_ge [of "pos + 1" src] by (simp add: read_identifier_def Let_def)
qed

text \<open>Each branch of \<open>next_token\<close> makes one token that starts at \<open>p\<close> and moves past it.\<close>

definition token_at :: "nat \<Rightarrow> token \<Rightarrow> nat \<Rightarrow> bool" where
  "token_at p t pos' \<longleftrightarrow> tok_type t \<noteq> T_EOF \<and> tok_position t = p \<and> p < pos' \<and>
     (tok_type t \<noteq> T_NUMBER \<longrightarrow> (\<exists>s. tok_value t = FStr s))"

lemma token_at_mk [simp]: "token_at p (mk_token ty v q) pos' \<longleftrightarrow>
    ty \<noteq> T_EOF \<and> q = p \<and> p < pos' \<and> (ty \<noteq> T_NUMBER \<longrightarrow> (\<exists>s. v = FStr s))"
  by (simp add: token_at_def mk_token_def)

lemma operator_not_eof [simp]: "double_operator s \<noteq> Some T_EOF" "single_operator c \<noteq> Some T_EOF"
  by (auto simp: double_operator_def single_operator_def)

lemma keyword_not_eof: "(case map_of KEYWORDS v of Some k \<Rightarrow> k | None \<Rightarrow> T_IDENTIFIER) \<noteq> T_EOF"
  by (auto simp: KEYWORDS_def split: option.splits)

lemma next_token_inside:
  assumes "next_token src pos = Inr (t, pos')" and "skip_whitespace src pos = p" and "p < length src"
  shows "token_at p t pos'"
proof -
  let ?c = "src ! p"
  let ?q = "?c = dquote \<or> ?c = squote"
  let ?n = "is_digit ?c \<or> (?c = CHR ''-'' \<and> p + 1 < length src \<and> is_digit (src ! (p + 1)))"
  let ?d = "if p + 1 < length src then double_operator (take 2 (drop p src)) else None"
  consider (quoted) ?q | (num) "\<not> ?q" ?n | (double) ty where "\<not> ?q" "\<not> ?n" "?d = Some ty"
    | (single) ty where "\<not> ?q" "\<not> ?n" "?d = None" "single_operator ?c = Some ty"
    | (other) "\<not> ?q" "\<not> ?n" "?d = None" "single_operator ?c = None"
    by (cases "?d"; cases "single_operator ?c") blast+
  then show ?thesis
  proof cases
    case quoted
    with assms show ?thesis
      by (auto simp: next_token_def Let_def res_simps dest: read_string_progress)
  next
    case num
    moreover have "p < snd (read_number src p)"
      using num(2) assms(3) by (intro read_number_progress) auto
    ultimately show ?thesis
      using assms by (simp add: next_token_def Let_def case_prod_beta) auto
  next
    case double
    then have "ty \<noteq> T_EOF" by (auto split: if_splits)
    with double assms show ?thesis by (simp add: next_token_def Let_def) auto
  next
    case single
    then have "ty \<noteq> T_EOF" by auto
    with single assms show ?thesis by (simp add: next_token_def Let_def) auto
  next
    case other
    then have idn: "is_alpha ?c \<or> ?c = CHR ''_''" (is ?i)
      using assms by (simp add: next_token_def Let_def split: if_splits)
    then have "p < snd (read_identifier src p)"
      using assms(3) by (intro read_identifier_progress) (auto simp: identifier_char_def is_alnum_def)
    moreover obtain v q where "read_identifier src p = (v, q)" by force
    moreover from this other idn assms have "t = mk_token
        (case map_of KEYWORDS v of Some k \<Rightarrow> k | None \<Rightarrow> T_IDENTIFIER) (FStr v) p \<and> pos' = q"
      by (auto simp: next_token_def Let_def split: if_splits)
    ultimately show ?thesis
      by (simp add: keyword_not_eof)
  qed
qed

lemma next_token_progress:
  assumes "next_token src pos = Inr (t, pos')"
  shows "(tok_type t = T_EOF \<and> length src \<le> pos') \<or>
    (tok_type t \<noteq> T_EOF \<and> pos \<le> tok_position t \<and> tok_position t < length src \<and> tok_position t < pos')"
proof (cases "skip_whitespace src pos < length src")
  case False
  with assms show ?thesis by (auto simp: next_token_def mk_token_def Let_def)
next
  case True
  from next_token_inside [OF assms refl True] True skip_whitespace_ge [of pos src] show ?thesis
    by (auto simp: token_at_def)
qed

section \<open>The whole input\<close>

function tokenize_from :: "string \<Rightarrow> nat \<Rightarrow> lexer_error + token list" where
  "tokenize_from src pos =
     (case next_token src pos of
        Inl e \<Rightarrow> Inl e
      | Inr (t, pos') \<Rightarrow>
          if tok_type t = T_EOF then Inr [t]
          else res_bind (tokenize_from src pos') (\<lambda>ts. Inr (t # ts)))"
  by pat_completeness auto
termination
  by (relation "measure (\<lambda>(src, pos). length src - pos)")
    (auto dest!: next_token_progress)

declare tokenize_from.simps [simp del]

definition tokenize :: "string \<Rightarrow> lexer_error + token list" where
  "tokenize src = tokenize_from src 0"

text \<open>What the parser relies on: the tokens end with the only \<open>EOF\<close>.\<close>

definition eof_terminated :: "token list \<Rightarrow> bool" where
  "eof_terminated ts \<longleftrightarrow> ts \<noteq> [] \<and> tok_type (last ts) = T_EOF \<and>
     list_all (\<lambda>t. tok_type t \<noteq> T_EOF) (butlast ts)"

lemma tokenize_from_eof: "tokenize_from src pos = Inr ts \<Longrightarrow> eof_terminated ts"
proof (induction src pos arbitrary: ts rule: tokenize_from.induct)
  case (1 src pos)
  then show ?case
    by (subst (asm) tokenize_from.simps)
      (fastforce simp: eof_terminated_def res_simps split: sum.splits prod.splits if_splits)
qed

text \<open>Only numbers carry a value that is not a string.\<close>

definition well_typed_token :: "token \<Rightarrow> bool" where
  "well_typed_token t \<longleftrightarrow>
     (tok_type t = T_NUMBER \<or> tok_type t = T_EOF \<or> (\<exists>s. tok_value t = FStr s))"

lemma next_token_typed: "next_token src pos = Inr (t, pos') \<Longrightarrow> well_typed_token t"
proof (cases "skip_whitespace src pos < length src")
  case True
  moreover assume "next_token src pos = Inr (t, pos')"
  ultimately show ?thesis
    using next_token_inside [of src pos t pos'] by (auto simp: token_at_def well_typed_token_def)
qed (auto simp: next_token_def mk_token_def Let_def well_typed_token_def)

lemma tokenize_from_typed: "tokenize_from src pos = Inr ts \<Longrightarrow> list_all well_typed_token ts"
proof (induction src pos arbitrary: ts rule: tokenize_from.induct)
  case (1 src pos)
  then show ?case
    by (subst (asm) tokenize_from.simps)
      (fastforce simp: res_simps split: sum.splits prod.splits if_splits dest: next_token_typed)
qed

section \<open>String literals\<close>

text \<open>The escapes a literal may use, as the comment of \<open>_read_string\<close> lists them: what a caller
  writes between the quotes to denote \<open>s\<close>.\<close>

definition escape_char :: "char \<Rightarrow> string" where
  "escape_char c =
     (if c = CHR 0x0A then [backslash, CHR ''n''] else if c = CHR 0x09 then [backslash, CHR ''t'']
      else if c = dquote then [backslash, dquote] else if c = squote then [backslash, squote]
      else if c = backslash then [backslash, backslash] else [c])"

definition escape_literal :: "string \<Rightarrow> string" where
  "escape_literal s = concat (map escape_char s)"

text \<open>One replacement pass over a text that consists of escape pairs and plain characters.\<close>

lemma str_replace_chunks:
  assumes "\<And>c. c \<in> set s \<Longrightarrow> (f c = [backslash, x] \<and> g c = y) \<or>
      (\<exists>z. f c = [backslash, z] \<and> g c = f c \<and> z \<noteq> x \<and> z \<noteq> backslash) \<or>
      (\<exists>d. f c = [d] \<and> g c = f c \<and> d \<noteq> backslash)"
  shows "str_replace [backslash, x] y (concat (map f s)) = concat (map g s)"
  using assms
proof (induction s)
  case Nil
  show ?case by (simp add: str_replace.simps)
next
  case (Cons c s)
  have IH: "str_replace [backslash, x] y (concat (map f s)) = concat (map g s)"
    using Cons.prems by (intro Cons.IH) simp
  have plain: "str_replace [backslash, x] y (d # r) = d # str_replace [backslash, x] y r"
    if "d \<noteq> backslash" for d r
    using that by (subst str_replace.simps) (simp add: starts_with_def)
  have pair: "str_replace [backslash, x] y (backslash # z # r) =
      (if z = x then y @ str_replace [backslash, x] y r
       else backslash # str_replace [backslash, x] y (z # r))" for z r
    by (subst str_replace.simps) (auto simp: starts_with_def)
  from Cons.prems [of c] consider "f c = [backslash, x]" "g c = y"
    | z where "f c = [backslash, z]" "g c = f c" "z \<noteq> x" "z \<noteq> backslash"
    | d where "f c = [d]" "g c = f c" "d \<noteq> backslash"
    by auto
  then show ?case
    by cases (simp_all add: plain pair IH)
qed

lemma unescape_escape_literal:
  assumes "backslash \<notin> set s"
  shows "unescape (escape_literal s) = s"
proof -
  have chunk: "c \<noteq> backslash" if "c \<in> set s" for c
    using that assms by auto
  define f1 where "f1 c = (if c = CHR 0x0A then [c] else escape_char c)" for c
  define f2 where "f2 c = (if c = CHR 0x09 then [c] else f1 c)" for c
  define f3 where "f3 c = (if c = dquote then [c] else f2 c)" for c
  define f4 where "f4 c = (if c = squote then [c] else f3 c)" for c
  note fs = f1_def f2_def f3_def f4_def escape_char_def
  have 1: "str_replace [backslash, CHR ''n''] [CHR 0x0A] (escape_literal s) = concat (map f1 s)"
    unfolding escape_literal_def by (rule str_replace_chunks) (auto simp: fs dest: chunk)
  have 2: "str_replace [backslash, CHR ''t''] [CHR 0x09] (concat (map f1 s)) = concat (map f2 s)"
    by (rule str_replace_chunks) (auto simp: fs dest: chunk)
  have 3: "str_replace [backslash, dquote] [dquote] (concat (map f2 s)) = concat (map f3 s)"
    by (rule str_replace_chunks) (auto simp: fs dest: chunk)
  have 4: "str_replace [backslash, squote] [squote] (concat (map f3 s)) = concat (map f4 s)"
    by (rule str_replace_chunks) (auto simp: fs dest: chunk)
  have 5: "str_replace [backslash, backslash] [backslash] (concat (map f4 s)) = concat (map (\<lambda>c. [c]) s)"
    by (rule str_replace_chunks) (auto simp: fs dest: chunk)
  from 1 2 3 4 5 show ?thesis by (simp add: unescape_def)
qed

lemma string_close_escape:
  assumes "q = dquote \<or> q = squote"
  shows "string_close (pre @ escape_literal s @ q # rest) q (length pre) =
    Some (length pre + length (escape_literal s))"
proof (induction s arbitrary: pre)
  case Nil
  from assms show ?case
    by (subst string_close.simps) (auto simp: escape_literal_def)
next
  case (Cons c s)
  from Cons [of "pre @ escape_char c"]
  have IH: "string_close (pre @ escape_char c @ escape_literal s @ q # rest) q (length pre + length (escape_char c))
      = Some (length pre + length (escape_char c) + length (escape_literal s))"
    by simp
  have plain: "string_close (pre @ d # r) q (length pre) = string_close (pre @ d # r) q (length pre + 1)"
    if "d \<noteq> backslash" "d \<noteq> q" for d r
    using that by (subst string_close.simps) simp
  have pair: "string_close (pre @ backslash # d # r) q (length pre) =
      string_close (pre @ backslash # d # r) q (length pre + 2)" for d r
    by (subst string_close.simps) simp
  have "(escape_char c = [c] \<and> c \<noteq> backslash \<and> c \<noteq> q) \<or> (\<exists>d. escape_char c = [backslash, d])"
    using assms by (auto simp: escape_char_def)
  then consider "escape_char c = [c]" "c \<noteq> backslash" "c \<noteq> q" | d where "escape_char c = [backslash, d]"
    by blast
  then have "string_close (pre @ escape_char c @ escape_literal s @ q # rest) q (length pre) =
      string_close (pre @ escape_char c @ escape_literal s @ q # rest) q (length pre + length (escape_char c))"
    by cases (simp_all add: plain pair)
  with IH show ?case
    by (simp add: escape_literal_def)
qed

lemma next_token_end: "pos = length src \<Longrightarrow> next_token src pos = Inr (mk_token T_EOF FNone pos, pos)"
  by (simp add: next_token_def Let_def skip_whitespace.simps)

text \<open>A literal that writes a text without backslashes with the documented escapes, between
  quotes of either kind, is read back as that text: the tokenizer answers one string token
  and the end. Newlines, tabs and both quotes may occur in the text.\<close>

theorem string_literal_roundtrip:
  assumes "q = dquote \<or> q = squote" and "backslash \<notin> set s"
  shows "tokenize ([q] @ escape_literal s @ [q]) =
    Inr [mk_token T_STRING (FStr s) 0, mk_token T_EOF FNone (length (escape_literal s) + 2)]"
proof -
  let ?src = "q # escape_literal s @ [q]"
  have space: "\<not> is_space q" using assms(1) by (auto simp: is_space_def chr_code_def)
  then have skip: "skip_whitespace ?src 0 = 0" by (simp add: skip_whitespace.simps)
  have "string_close ?src q 1 = Some (1 + length (escape_literal s))"
    using string_close_escape [OF assms(1), of "[q]" s "[]"] by simp
  then have "read_string ?src 0 = Inr (s, length (escape_literal s) + 2)"
    by (simp add: read_string_def unescape_escape_literal [OF assms(2)])
  then have "next_token ?src 0 = Inr (mk_token T_STRING (FStr s) 0, length (escape_literal s) + 2)"
    using assms(1) by (auto simp: next_token_def skip)
  then show ?thesis
    by (simp add: tokenize_def tokenize_from.simps next_token_end mk_token_def)
qed

theorem string_literal_roundtrip_witness:
  "tokenize [dquote, CHR ''a'', backslash, CHR ''n'', backslash, squote, dquote] =
    Inr [mk_token T_STRING (FStr [CHR ''a'', CHR 0x0A, squote]) 0, mk_token T_EOF FNone 7]"
  using string_literal_roundtrip [of dquote "[CHR ''a'', CHR 0x0A, squote]"]
  by (simp add: escape_literal_def escape_char_def numeral_eq_Suc)

text \<open>An escaped backslash is not read back: \<open>_read_string\<close> replaces \<open>\n\<close> before
  \<open>\\\<close>, so the literal for a backslash followed by the letter n, the start of a Windows
  directory name, comes out as a backslash and a line break.\<close>

theorem escaped_backslash_misread:
  "tokenize ([dquote] @ escape_literal [backslash, CHR ''n''] @ [dquote]) =
    Inr [mk_token T_STRING (FStr [backslash, CHR 0x0A]) 0, mk_token T_EOF FNone 5]"
proof -
  let ?src = "[dquote] @ escape_literal [backslash, CHR ''n''] @ [dquote]"
  have src: "?src = [dquote, backslash, backslash, CHR ''n'', dquote]"
    by (simp add: escape_literal_def escape_char_def)
  have "unescape [backslash, backslash, CHR ''n''] = [backslash, CHR 0x0A]"
    by (simp add: unescape_def str_replace.simps starts_with_def)
  then have "read_string ?src 0 = Inr ([backslash, CHR 0x0A], 5)"
    using string_close_escape [of dquote "[dquote]" "[backslash, CHR ''n'']" "[]"]
    unfolding src by (simp add: read_string_def escape_literal_def escape_char_def)
  then have "next_token ?src 0 = Inr (mk_token T_STRING (FStr [backslash, CHR 0x0A]) 0, 5)"
    unfolding src
    by (simp add: next_token_def skip_whitespace.simps is_space_def chr_code_def)
  then show ?thesis
    unfolding src by (simp add: tokenize_def tokenize_from.simps next_token_end mk_token_def)
qed

end
