(* ===== verification/Filter_Parser.thy ===== *)
theory Filter_Parser
  imports Filter_Lexer
begin

text \<open>
  The recursive descent parser of the result filter language, the AST classes, \<open>Parser\<close> and
  \<open>parse_filter\<close> of \<^verbatim>\<open>src/openlabels/cli/filter_parser.py\<close>. The parser object is the token
  list, which never changes, and a position. \<open>d\<close> is the number of nested calls of the three
  grammar methods the interpreter's stack has room for; one more raises \<open>RecursionError\<close>, here
  \<open>RecursionLimit\<close>. The two loops are bounded by the number of tokens, which they never reach
  (\<open>parse_in_bounds\<close>). The grammar is the inductive definition \<open>g_or\<close>, \<open>g_and\<close>, \<open>g_cond\<close>:
  that of the module's documentation, but for the argument of a function, which the code takes as
  an identifier or a text where the documentation has a value for \<open>has\<close> and a field for the others.
\<close>

section \<open>Trees and errors\<close>

datatype fexpr =
    BinaryOp fexpr string fexpr
  | UnaryOp string fexpr
  | Comparison string string fvalue
  | FunctionCall string string "string option" fvalue

datatype parse_error =
    ExpectedToken token_type token_type nat
  | UnexpectedToken token_type nat
  | ExpectedArgument nat
  | CountNeedsComparison nat
  | ExpectedOperator nat
  | ExpectedValue nat
  | EmptyFilter
  | LexerError lexer_error
  | RecursionLimit
  | OutOfFuel

text \<open>Names, operators and function names are string values; the tokenizer gives the token
  types that carry them no other value (\<open>well_typed_token\<close>).\<close>

fun value_str :: "fvalue \<Rightarrow> string" where
  "value_str (FStr s) = s"
| "value_str _ = []"

definition COMPARISON_OPS :: "token_type list" where
  "COMPARISON_OPS = [T_EQ, T_NE, T_GT, T_LT, T_GE, T_LE, T_REGEX, T_CONTAINS]"

section \<open>The parser\<close>

definition current :: "token list \<Rightarrow> nat \<Rightarrow> token" where
  "current ts pos = (if pos < length ts then ts ! pos else last ts)"

definition expect_token :: "token_type \<Rightarrow> token list \<Rightarrow> nat \<Rightarrow> parse_error + (token \<times> nat)" where
  "expect_token ty ts pos =
     (let t = current ts pos in
      if tok_type t \<noteq> ty then Inl (ExpectedToken ty (tok_type t) (tok_position t))
      else Inr (t, pos + 1))"

definition parse_value :: "token list \<Rightarrow> nat \<Rightarrow> parse_error + (fvalue \<times> nat)" where
  "parse_value ts pos =
     (let t = current ts pos in
      if tok_type t = T_STRING then Inr (tok_value t, pos + 1)
      else if tok_type t = T_NUMBER then Inr (tok_value t, pos + 1)
      else if tok_type t = T_IDENTIFIER then Inr (tok_value t, pos + 1)
      else Inl (ExpectedValue (tok_position t)))"

definition parse_comparison :: "token list \<Rightarrow> nat \<Rightarrow> parse_error + (fexpr \<times> nat)" where
  "parse_comparison ts pos =
     (let field = value_str (tok_value (current ts pos));
          op_token = current ts (pos + 1) in
      if tok_type op_token \<notin> set COMPARISON_OPS then Inl (ExpectedOperator (tok_position op_token))
      else res_bind (parse_value ts (pos + 2)) (\<lambda>(v, pos').
        Inr (Comparison field (value_str (tok_value op_token)) v, pos')))"

definition parse_argument :: "token list \<Rightarrow> nat \<Rightarrow> parse_error + (string \<times> nat)" where
  "parse_argument ts pos =
     (let t = current ts pos in
      if tok_type t = T_IDENTIFIER then Inr (value_str (tok_value t), pos + 1)
      else if tok_type t = T_STRING then Inr (value_str (tok_value t), pos + 1)
      else Inl (ExpectedArgument (tok_position t)))"

definition parse_count :: "string \<Rightarrow> string \<Rightarrow> token list \<Rightarrow> nat \<Rightarrow> parse_error + (fexpr \<times> nat)" where
  "parse_count func arg ts pos =
     (let op_token = current ts pos in
      if tok_type op_token \<notin> set COMPARISON_OPS
      then Inl (CountNeedsComparison (tok_position op_token))
      else res_bind (parse_value ts (pos + 1)) (\<lambda>(v, pos').
        Inr (FunctionCall func arg (Some (value_str (tok_value op_token))) v, pos')))"

definition parse_function_call :: "token list \<Rightarrow> nat \<Rightarrow> parse_error + (fexpr \<times> nat)" where
  "parse_function_call ts pos =
     (let func_name = value_str (tok_value (current ts pos)) in
      res_bind (expect_token T_LPAREN ts (pos + 1)) (\<lambda>(_, pos).
      res_bind (parse_argument ts pos) (\<lambda>(arg, pos).
      res_bind (expect_token T_RPAREN ts pos) (\<lambda>(_, pos).
        if func_name = ''count'' then parse_count func_name arg ts pos
        else Inr (FunctionCall func_name arg None FNone, pos)))))"

text \<open>The loop of \<open>_parse_or_expr\<close> and of \<open>_parse_and_expr\<close>; \<open>item\<close> parses an operand.\<close>

fun op_loop :: "token_type \<Rightarrow> string \<Rightarrow> (nat \<Rightarrow> parse_error + (fexpr \<times> nat)) \<Rightarrow> nat \<Rightarrow> token list \<Rightarrow>
    fexpr \<Rightarrow> nat \<Rightarrow> parse_error + (fexpr \<times> nat)" where
  "op_loop ty opr item 0 ts left pos = Inl OutOfFuel"
| "op_loop ty opr item (Suc k) ts left pos =
     (if tok_type (current ts pos) = ty
      then res_bind (item (pos + 1)) (\<lambda>(right, pos). op_loop ty opr item k ts (BinaryOp left opr right) pos)
      else Inr (left, pos))"

fun parse_or_expr :: "nat \<Rightarrow> token list \<Rightarrow> nat \<Rightarrow> parse_error + (fexpr \<times> nat)"
  and parse_and_expr :: "nat \<Rightarrow> token list \<Rightarrow> nat \<Rightarrow> parse_error + (fexpr \<times> nat)"
  and parse_condition :: "nat \<Rightarrow> token list \<Rightarrow> nat \<Rightarrow> parse_error + (fexpr \<times> nat)"
where
  "parse_or_expr 0 ts = (\<lambda>pos. Inl RecursionLimit)"
| "parse_or_expr (Suc d) ts = (\<lambda>pos.
     res_bind (parse_and_expr d ts pos) (\<lambda>(left, pos).
       op_loop T_OR ''OR'' (parse_and_expr d ts) (length ts) ts left pos))"
| "parse_and_expr 0 ts = (\<lambda>pos. Inl RecursionLimit)"
| "parse_and_expr (Suc d) ts = (\<lambda>pos.
     res_bind (parse_condition d ts pos) (\<lambda>(left, pos).
       op_loop T_AND ''AND'' (parse_condition d ts) (length ts) ts left pos))"
| "parse_condition 0 ts = (\<lambda>pos. Inl RecursionLimit)"
| "parse_condition (Suc d) ts = (\<lambda>pos.
     let t = current ts pos in
      if tok_type t = T_NOT then
        res_bind (parse_condition d ts (pos + 1)) (\<lambda>(operand, pos). Inr (UnaryOp ''NOT'' operand, pos))
      else if tok_type t = T_LPAREN then
        res_bind (parse_or_expr d ts (pos + 1)) (\<lambda>(e, pos).
        res_bind (expect_token T_RPAREN ts pos) (\<lambda>(_, pos). Inr (e, pos)))
      else if tok_type t \<in> {T_HAS, T_MISSING, T_COUNT} then parse_function_call ts pos
      else if tok_type t = T_IDENTIFIER then parse_comparison ts pos
      else Inl (UnexpectedToken (tok_type t) (tok_position t)))"

definition parse_tokens :: "nat \<Rightarrow> token list \<Rightarrow> parse_error + fexpr" where
  "parse_tokens d ts =
     res_bind (parse_or_expr d ts 0) (\<lambda>(e, pos).
       let t = current ts pos in
       if tok_type t \<noteq> T_EOF then Inl (UnexpectedToken (tok_type t) (tok_position t)) else Inr e)"

definition parse_filter :: "nat \<Rightarrow> string \<Rightarrow> parse_error + fexpr" where
  "parse_filter d filter_str =
     (if filter_str = [] \<or> str_strip filter_str = [] then Inl EmptyFilter
      else (case tokenize filter_str of
          Inl e \<Rightarrow> Inl (LexerError e)
        | Inr ts \<Rightarrow> parse_tokens d ts))"

section \<open>Consumption\<close>

text \<open>The input of the parser ends with its only \<open>EOF\<close>, which no method consumes: positions grow,
  stay inside the input, and every condition takes at least one token.\<close>

lemma current_inside:
  assumes "eof_terminated ts" and "tok_type (current ts pos) \<noteq> T_EOF"
  shows "pos + 1 < length ts"
proof (rule ccontr)
  assume "\<not> pos + 1 < length ts"
  moreover from this have "pos = length ts - 1" if "pos < length ts"
    using that by simp
  ultimately have "current ts pos = last ts"
    using assms(1) by (auto simp: current_def eof_terminated_def last_conv_nth)
  with assms show False by (simp add: eof_terminated_def)
qed

lemma current_eof:
  assumes "eof_terminated ts" and "tok_type (current ts pos) = T_EOF"
  shows "length ts \<le> pos + 1"
proof (rule ccontr)
  assume "\<not> length ts \<le> pos + 1"
  then have "pos < length (butlast ts)" and "current ts pos = butlast ts ! pos"
    by (auto simp: current_def nth_butlast)
  with assms show False by (auto simp: eof_terminated_def list_all_length)
qed

definition advances :: "token list \<Rightarrow> nat \<Rightarrow> parse_error + ('a \<times> nat) \<Rightarrow> bool" where
  "advances ts pos r \<longleftrightarrow> (\<forall>x pos'. r = Inr (x, pos') \<longrightarrow> pos < pos' \<and> pos' < length ts)"

lemma advancesD: "advances ts pos r \<Longrightarrow> r = Inr (x, pos') \<Longrightarrow> pos < pos' \<and> pos' < length ts"
  by (simp add: advances_def)

lemma expect_token_advances:
  "eof_terminated ts \<Longrightarrow> ty \<noteq> T_EOF \<Longrightarrow> advances ts pos (expect_token ty ts pos)"
  using current_inside [of ts pos] by (auto simp: advances_def expect_token_def Let_def)

lemma parse_value_advances: "eof_terminated ts \<Longrightarrow> advances ts pos (parse_value ts pos)"
  using current_inside [of ts pos] by (auto simp: advances_def parse_value_def Let_def split: if_splits)

lemma parse_argument_advances: "eof_terminated ts \<Longrightarrow> advances ts pos (parse_argument ts pos)"
  using current_inside [of ts pos] by (auto simp: advances_def parse_argument_def Let_def split: if_splits)

lemma parse_comparison_advances: "eof_terminated ts \<Longrightarrow> advances ts pos (parse_comparison ts pos)"
  using parse_value_advances [of ts "pos + 2"]
  by (fastforce simp: advances_def parse_comparison_def Let_def res_simps split: if_splits)

lemma parse_count_advances: "eof_terminated ts \<Longrightarrow> advances ts pos (parse_count f a ts pos)"
  using parse_value_advances [of ts "pos + 1"]
  by (fastforce simp: advances_def parse_count_def Let_def res_simps split: if_splits)

lemma parse_function_call_advances:
  assumes "eof_terminated ts"
  shows "advances ts pos (parse_function_call ts pos)"
  unfolding advances_def
proof (intro allI impI)
  fix e pos'
  assume "parse_function_call ts pos = Inr (e, pos')"
  then obtain t1 p1 arg p2 t3 p3 where
    *: "expect_token T_LPAREN ts (pos + 1) = Inr (t1, p1)" "parse_argument ts p1 = Inr (arg, p2)"
      "expect_token T_RPAREN ts p2 = Inr (t3, p3)"
      "(if value_str (tok_value (current ts pos)) = ''count''
        then parse_count (value_str (tok_value (current ts pos))) arg ts p3
        else Inr (FunctionCall (value_str (tok_value (current ts pos))) arg None FNone, p3)) = Inr (e, pos')"
    by (auto simp: parse_function_call_def Let_def res_simps split: prod.splits)
  have "pos + 1 < p1" "p1 < p2" "p2 < p3" "p3 < length ts"
    using advancesD [OF expect_token_advances *(1)] advancesD [OF parse_argument_advances *(2)]
      advancesD [OF expect_token_advances *(3)] assms by auto
  with *(4) advancesD [OF parse_count_advances, where ts = ts and pos = p3] assms
  show "pos < pos' \<and> pos' < length ts"
    by (fastforce split: if_splits)
qed

lemma op_loop_advances:
  assumes "eof_terminated ts" and "\<And>p. advances ts p (item p)"
    and "pos < length ts" and "op_loop ty opr item k ts l pos = Inr (e, pos')"
  shows "pos \<le> pos' \<and> pos' < length ts"
  using assms(3,4)
proof (induction k arbitrary: l pos)
  case (Suc k)
  show ?case
  proof (cases "tok_type (current ts pos) = ty")
    case True
    with Suc.prems obtain r p where r: "item (pos + 1) = Inr (r, p)"
      and lp: "op_loop ty opr item k ts (BinaryOp l opr r) p = Inr (e, pos')" by (auto simp: res_simps)
    have p: "pos + 1 < p" "p < length ts" using advancesD [OF assms(2) r] by auto
    from Suc.IH [OF p(2) lp] p(1) show ?thesis by simp
  qed (use Suc.prems in simp)
qed simp

lemma level_advances:
  assumes "eof_terminated ts" and "\<And>p. advances ts p (item p)"
  shows "advances ts pos (res_bind (item pos) (\<lambda>(left, pos). op_loop ty opr item k ts left pos))"
  unfolding advances_def
proof (intro allI impI)
  fix e pos' assume "res_bind (item pos) (\<lambda>(left, pos). op_loop ty opr item k ts left pos) = Inr (e, pos')"
  then obtain l p where l: "item pos = Inr (l, p)" and lp: "op_loop ty opr item k ts l p = Inr (e, pos')"
    by (auto simp: res_simps)
  then show "pos < pos' \<and> pos' < length ts"
    using advancesD [OF assms(2) l] op_loop_advances [OF assms _ lp] by simp
qed

lemma parser_advances:
  assumes "eof_terminated ts"
  shows "advances ts pos (parse_or_expr d ts pos)" and "advances ts pos (parse_and_expr d ts pos)"
    and "advances ts pos (parse_condition d ts pos)"
proof (induction d arbitrary: pos)
  case 0
  { case 1 show ?case by (simp add: advances_def) next
    case 2 show ?case by (simp add: advances_def) next
    case 3 show ?case by (simp add: advances_def) }
next
  case (Suc d)
  { case 1 show ?case using level_advances [OF assms Suc.IH(2)] by simp next
    case 2 show ?case using level_advances [OF assms Suc.IH(3)] by simp next
    case 3
    have paren: "expect_token T_RPAREN ts p = Inr (t, q) \<Longrightarrow> p < q \<and> q < length ts" for p t q
      by (rule advancesD [OF expect_token_advances [OF assms]]) simp_all
    note leaves = advancesD [OF parse_function_call_advances [OF assms], of pos]
      advancesD [OF parse_comparison_advances [OF assms], of pos]
    show ?case unfolding advances_def
    proof (intro allI impI)
      fix e pos'
      assume "parse_condition (Suc d) ts pos = Inr (e, pos')"
      then show "pos < pos' \<and> pos' < length ts"
        by (auto simp: res_simps Let_def split: if_splits
            dest!: advancesD [OF Suc.IH(3)] advancesD [OF Suc.IH(1)] paren leaves)
    qed }
qed

section \<open>The bounds\<close>

lemma leaves_stay_in_bounds:
  "x \<in> {OutOfFuel, RecursionLimit} \<Longrightarrow> expect_token ty ts pos \<noteq> Inl x"
  "x \<in> {OutOfFuel, RecursionLimit} \<Longrightarrow> parse_comparison ts pos \<noteq> Inl x"
  "x \<in> {OutOfFuel, RecursionLimit} \<Longrightarrow> parse_function_call ts pos \<noteq> Inl x"
proof -
  assume x: "x \<in> {OutOfFuel, RecursionLimit}"
  have leaf: "expect_token ty ts pos \<noteq> Inl x" "parse_value ts pos \<noteq> Inl x"
    "parse_argument ts pos \<noteq> Inl x" for ty pos
    using x by (auto simp: expect_token_def parse_value_def parse_argument_def Let_def)
  then have cnt: "parse_count f a ts pos \<noteq> Inl x" for f a pos
    using x by (auto simp: parse_count_def Let_def res_simps)
  from leaf x show "expect_token ty ts pos \<noteq> Inl x" and "parse_comparison ts pos \<noteq> Inl x"
    by (auto simp: parse_comparison_def Let_def res_simps)
  from leaf cnt show "parse_function_call ts pos \<noteq> Inl x"
    by (auto simp: parse_function_call_def Let_def res_simps)
qed

text \<open>Each round of a loop takes two tokens, so as many rounds as tokens are enough.\<close>

lemma op_loop_enough:
  assumes "eof_terminated ts" and "ty \<noteq> T_EOF" and "\<And>p. advances ts p (item p)"
    and "\<And>p. item p \<noteq> Inl OutOfFuel" and "pos < length ts" and "length ts \<le> pos + k"
  shows "op_loop ty opr item k ts l pos \<noteq> Inl OutOfFuel"
  using assms(5,6)
proof (induction k arbitrary: l pos)
  case (Suc k)
  have "op_loop ty opr item k ts l' p \<noteq> Inl OutOfFuel" if "item (pos + 1) = Inr (r, p)" for l' r p
    using advancesD [OF assms(3) that] Suc.prems by (intro Suc.IH) auto
  then show ?case using assms(4) by (auto simp: res_simps)
qed simp

lemma level_enough:
  assumes "eof_terminated ts" and "ty \<noteq> T_EOF" and "\<And>p. advances ts p (item p)" and "\<And>p. item p \<noteq> Inl OutOfFuel"
  shows "res_bind (item pos) (\<lambda>(left, pos). op_loop ty opr item (length ts) ts left pos) \<noteq> Inl OutOfFuel"
proof -
  have "op_loop ty opr item (length ts) ts l p \<noteq> Inl OutOfFuel" if "item pos = Inr (l, p)" for l p
    using advancesD [OF assms(3) that] by (intro op_loop_enough [OF assms]) auto
  then show ?thesis using assms(4) by (auto simp: res_simps)
qed

lemma parser_enough:
  assumes "eof_terminated ts"
  shows "parse_or_expr d ts pos \<noteq> Inl OutOfFuel" and "parse_and_expr d ts pos \<noteq> Inl OutOfFuel"
    and "parse_condition d ts pos \<noteq> Inl OutOfFuel"
proof (induction d arbitrary: pos)
  case (Suc d)
  { case 1 show ?case using level_enough [OF assms _ parser_advances(2) [OF assms] Suc.IH(2)] by simp next
    case 2 show ?case using level_enough [OF assms _ parser_advances(3) [OF assms] Suc.IH(3)] by simp next
    case 3 show ?case using Suc.IH(1,3) leaves_stay_in_bounds [of OutOfFuel] by (auto simp: res_simps Let_def) }
qed simp_all

text \<open>The nesting a text can ask for: three calls for every opening parenthesis and one for every \<open>NOT\<close>.\<close>

definition nesting :: "token list \<Rightarrow> nat" where
  "nesting us = 3 * length (filter (\<lambda>t. tok_type t = T_LPAREN) us) + length (filter (\<lambda>t. tok_type t = T_NOT) us)"

lemma nesting_drop: "p \<le> q \<Longrightarrow> nesting (drop q ts) \<le> nesting (drop p ts)"
proof -
  have le: "nesting (drop k us) \<le> nesting us" for k us
    using append_take_drop_id [of k us] by (metis (no_types, lifting) add_le_mono le_add2 length_append filter_append
      mult_le_mono2 nesting_def)
  assume "p \<le> q"
  then have "drop q ts = drop (q - p) (drop p ts)" by simp
  then show ?thesis using le by metis
qed

lemma nesting_at:
  assumes "pos < length ts"
  shows "nesting (drop pos ts) = (if tok_type (ts ! pos) = T_LPAREN then 3 else if tok_type (ts ! pos) = T_NOT then 1 else 0) +
    nesting (drop (pos + 1) ts)"
  using Cons_nth_drop_Suc [OF assms, symmetric] by (simp add: nesting_def)

lemma op_loop_within:
  assumes "eof_terminated ts" and "\<And>p. advances ts p (item p)"
    and "\<And>p. pos \<le> p \<Longrightarrow> item p \<noteq> Inl RecursionLimit"
  shows "op_loop ty opr item k ts l pos \<noteq> Inl RecursionLimit"
  using assms(3)
proof (induction k arbitrary: l pos)
  case (Suc k)
  have "op_loop ty opr item k ts l' p \<noteq> Inl RecursionLimit" if "item (pos + 1) = Inr (r, p)" for l' r p
    using advancesD [OF assms(2) that] Suc.prems by (intro Suc.IH) auto
  moreover have "item (pos + 1) \<noteq> Inl RecursionLimit" using Suc.prems by simp
  ultimately show ?case by (auto simp: res_simps)
qed simp

lemma level_within:
  assumes "eof_terminated ts" and "\<And>p. advances ts p (item p)"
    and "\<And>p. pos \<le> p \<Longrightarrow> item p \<noteq> Inl RecursionLimit"
  shows "res_bind (item pos) (\<lambda>(left, pos). op_loop ty opr item k ts left pos) \<noteq> Inl RecursionLimit"
proof -
  have "op_loop ty opr item k ts l p \<noteq> Inl RecursionLimit" if "item pos = Inr (l, p)" for l p
    using advancesD [OF assms(2) that] assms(3) by (intro op_loop_within [OF assms(1,2)]) auto
  then show ?thesis using assms(3) [of pos] by (auto simp: res_simps)
qed

lemma parser_within:
  assumes eof: "eof_terminated ts"
  shows "nesting (drop pos ts) + 3 \<le> d \<Longrightarrow> parse_or_expr d ts pos \<noteq> Inl RecursionLimit"
    and "nesting (drop pos ts) + 2 \<le> d \<Longrightarrow> parse_and_expr d ts pos \<noteq> Inl RecursionLimit"
    and "nesting (drop pos ts) + 1 \<le> d \<Longrightarrow> parse_condition d ts pos \<noteq> Inl RecursionLimit"
proof (induction d arbitrary: pos)
  case (Suc d)
  { case 1
    then have "parse_and_expr d ts p \<noteq> Inl RecursionLimit" if "pos \<le> p" for p
      using nesting_drop [OF that, of ts] by (intro Suc.IH(2)) simp
    then show ?case using level_within [of ts "parse_and_expr d ts", OF eof parser_advances(2) [OF eof]] by simp
  next
    case 2
    then have "parse_condition d ts p \<noteq> Inl RecursionLimit" if "pos \<le> p" for p
      using nesting_drop [OF that, of ts] by (intro Suc.IH(3)) simp
    then show ?case using level_within [of ts "parse_condition d ts", OF eof parser_advances(3) [OF eof]] by simp
  next
    case 3
    have at: "pos < length ts \<and> current ts pos = ts ! pos" if "tok_type (current ts pos) \<noteq> T_EOF"
      using current_inside [OF eof that] by (simp add: current_def)
    have "parse_condition d ts (pos + 1) \<noteq> Inl RecursionLimit" if "tok_type (current ts pos) = T_NOT"
      using 3 at that nesting_at [of pos ts] by (intro Suc.IH(3)) simp
    moreover have "parse_or_expr d ts (pos + 1) \<noteq> Inl RecursionLimit" if "tok_type (current ts pos) = T_LPAREN"
      using 3 at that nesting_at [of pos ts] by (intro Suc.IH(1)) simp
    ultimately show ?case using leaves_stay_in_bounds [of RecursionLimit] by (auto simp: res_simps Let_def)
  }
qed simp_all

text \<open>A run the stack had room for does not change with more room.\<close>

definition settled :: "parse_error + 'a \<Rightarrow> parse_error + 'a \<Rightarrow> bool" where
  "settled r r' \<longleftrightarrow> r = Inl RecursionLimit \<or> r' = r"

lemma settled_refl [simp]: "settled r r"
  by (simp add: settled_def)

lemma settled_bind:
  "settled m m' \<Longrightarrow> (\<And>x. settled (f x) (f' x)) \<Longrightarrow> settled (res_bind m f) (res_bind m' f')"
  by (cases m) (auto simp: settled_def)

lemma settled_out [simp]: "settled (Inl RecursionLimit) r"
  by (simp add: settled_def)

lemma op_loop_mono:
  "(\<And>p. settled (item p) (item' p)) \<Longrightarrow> settled (op_loop ty opr item k ts l pos) (op_loop ty opr item' k ts l pos)"
  by (induction k arbitrary: l pos) (auto intro!: settled_bind split: prod.splits)

lemma parser_mono:
  "settled (parse_or_expr d ts pos) (parse_or_expr (d + k) ts pos)"
  "settled (parse_and_expr d ts pos) (parse_and_expr (d + k) ts pos)"
  "settled (parse_condition d ts pos) (parse_condition (d + k) ts pos)"
proof (induction d arbitrary: pos)
  case (Suc d)
  { case 1 show ?case by (auto intro!: settled_bind op_loop_mono Suc.IH split: prod.splits) next
    case 2 show ?case by (auto intro!: settled_bind op_loop_mono Suc.IH split: prod.splits) next
    case 3 show ?case by (auto simp: Let_def intro!: settled_bind Suc.IH split: prod.splits) }
qed simp_all

section \<open>The grammar\<close>

text \<open>
  The grammar in the head of \<^verbatim>\<open>filter_parser.py\<close>, over tokens, with the tree of each sentence:
  \<open>OR\<close> and \<open>AND\<close> associate to the left, \<open>AND\<close> binds tighter, \<open>NOT\<close> binds a condition.
  Where the head says \<open>has(value)\<close>, \<open>missing(field)\<close> and \<open>count(field)\<close>, every function
  takes an identifier or a text (\<open>argument_rule_differs\<close>). Whether a comparison follows is decided
  by the text of the function name.
\<close>

definition g_value :: "token \<Rightarrow> bool" where
  "g_value t \<longleftrightarrow> tok_type t \<in> {T_STRING, T_NUMBER, T_IDENTIFIER}"

definition g_operator :: "token \<Rightarrow> bool" where
  "g_operator t \<longleftrightarrow> tok_type t \<in> set COMPARISON_OPS"

abbreviation tok_str :: "token \<Rightarrow> string" where
  "tok_str t \<equiv> value_str (tok_value t)"

inductive g_or :: "token list \<Rightarrow> fexpr \<Rightarrow> bool"
  and g_and :: "token list \<Rightarrow> fexpr \<Rightarrow> bool"
  and g_cond :: "token list \<Rightarrow> fexpr \<Rightarrow> bool"
where
  or_one: "g_and us e \<Longrightarrow> g_or us e"
| or_more: "g_or us l \<Longrightarrow> tok_type t = T_OR \<Longrightarrow> g_and vs r \<Longrightarrow> g_or (us @ t # vs) (BinaryOp l ''OR'' r)"
| and_one: "g_cond us e \<Longrightarrow> g_and us e"
| and_more: "g_and us l \<Longrightarrow> tok_type t = T_AND \<Longrightarrow> g_cond vs r \<Longrightarrow> g_and (us @ t # vs) (BinaryOp l ''AND'' r)"
| cond_not: "tok_type t = T_NOT \<Longrightarrow> g_cond us e \<Longrightarrow> g_cond (t # us) (UnaryOp ''NOT'' e)"
| cond_paren: "tok_type l = T_LPAREN \<Longrightarrow> g_or us e \<Longrightarrow> tok_type r = T_RPAREN \<Longrightarrow> g_cond (l # us @ [r]) e"
| cond_call: "tok_type f \<in> {T_HAS, T_MISSING, T_COUNT} \<Longrightarrow> tok_type l = T_LPAREN \<Longrightarrow>
    tok_type a \<in> {T_IDENTIFIER, T_STRING} \<Longrightarrow> tok_type r = T_RPAREN \<Longrightarrow> tok_str f \<noteq> ''count'' \<Longrightarrow>
    g_cond [f, l, a, r] (FunctionCall (tok_str f) (tok_str a) None FNone)"
| cond_count: "tok_type f \<in> {T_HAS, T_MISSING, T_COUNT} \<Longrightarrow> tok_type l = T_LPAREN \<Longrightarrow>
    tok_type a \<in> {T_IDENTIFIER, T_STRING} \<Longrightarrow> tok_type r = T_RPAREN \<Longrightarrow> tok_str f = ''count'' \<Longrightarrow>
    g_operator opr \<Longrightarrow> g_value v \<Longrightarrow>
    g_cond [f, l, a, r, opr, v] (FunctionCall (tok_str f) (tok_str a) (Some (tok_str opr)) (tok_value v))"
| cond_compare: "tok_type f = T_IDENTIFIER \<Longrightarrow> g_operator opr \<Longrightarrow> g_value v \<Longrightarrow>
    g_cond [f, opr, v] (Comparison (tok_str f) (tok_str opr) (tok_value v))"

text \<open>The tokens a method consumed.\<close>

definition seg :: "'a list \<Rightarrow> nat \<Rightarrow> nat \<Rightarrow> 'a list" where
  "seg ts p q = take (q - p) (drop p ts)"

lemma seg_append: "p \<le> q \<Longrightarrow> q \<le> r \<Longrightarrow> r \<le> length ts \<Longrightarrow> seg ts p q @ seg ts q r = seg ts p r"
  unfolding seg_def using take_add [of "q - p" "r - q" "drop p ts"] by simp

lemma seg_Cons: "p < q \<Longrightarrow> p < length ts \<Longrightarrow> seg ts p q = ts ! p # seg ts (Suc p) q"
  unfolding seg_def by (simp add: Cons_nth_drop_Suc [symmetric] take_Cons')

lemma seg_Nil [simp]: "seg ts p p = []"
  by (simp add: seg_def)

lemma seg_mid: "p \<le> q \<Longrightarrow> q < r \<Longrightarrow> r \<le> length ts \<Longrightarrow> seg ts p r = seg ts p q @ ts ! q # seg ts (Suc q) r"
  using seg_append [of p q r ts] by (simp add: seg_Cons)

lemma seg_pad [simp]: "seg (pre @ us @ rest) (length pre) (length pre + length us) = us"
  by (simp add: seg_def)

lemma current_nth: "pos < length ts \<Longrightarrow> current ts pos = ts ! pos"
  by (simp add: current_def)

lemma value_consumed:
  assumes "eof_terminated ts" and "parse_value ts pos = Inr (v, pos')"
  shows "pos' = pos + 1 \<and> pos' < length ts \<and> g_value (ts ! pos) \<and> v = tok_value (ts ! pos)"
proof -
  have "pos + 1 < length ts"
    using advancesD [OF parse_value_advances [OF assms(1)] assms(2)] by simp
  with assms(2) show ?thesis
    by (auto simp: parse_value_def Let_def g_value_def current_def split: if_splits)
qed

lemma token_consumed:
  assumes "eof_terminated ts" and "ty \<noteq> T_EOF" and "expect_token ty ts pos = Inr (t, pos')"
  shows "pos' = pos + 1 \<and> pos' < length ts \<and> tok_type (ts ! pos) = ty"
proof -
  have "pos + 1 < length ts"
    using advancesD [OF expect_token_advances [OF assms(1,2)] assms(3)] assms(3)
    by (auto simp: expect_token_def Let_def split: if_splits)
  with assms(3) show ?thesis
    by (auto simp: expect_token_def Let_def current_def split: if_splits)
qed

lemma argument_consumed:
  assumes "eof_terminated ts" and "parse_argument ts pos = Inr (a, pos')"
  shows "pos' = pos + 1 \<and> pos' < length ts \<and> tok_type (ts ! pos) \<in> {T_IDENTIFIER, T_STRING} \<and>
    a = tok_str (ts ! pos)"
proof -
  have "pos + 1 < length ts"
    using advancesD [OF parse_argument_advances [OF assms(1)] assms(2)] assms(2)
    by (auto simp: parse_argument_def Let_def split: if_splits)
  with assms(2) show ?thesis
    by (auto simp: parse_argument_def Let_def current_def split: if_splits)
qed

lemma comparison_sound:
  assumes "eof_terminated ts" and "tok_type (current ts pos) = T_IDENTIFIER"
    and "parse_comparison ts pos = Inr (e, pos')"
  shows "g_cond (seg ts pos pos') e"
proof -
  let ?o = "current ts (pos + 1)"
  from assms(3) obtain v where v: "parse_value ts (pos + 2) = Inr (v, pos')"
    and e: "e = Comparison (tok_str (current ts pos)) (tok_str ?o) v"
    and opr: "tok_type ?o \<in> set COMPARISON_OPS"
    by (auto simp: parse_comparison_def Let_def res_simps split: if_splits prod.splits)
  note val = value_consumed [OF assms(1) v]
  then have len: "pos + 3 < length ts" and p': "pos' = Suc (Suc (Suc pos))" by auto
  then have "seg ts pos pos' = [ts ! pos, ts ! Suc pos, ts ! Suc (Suc pos)]"
    by (simp add: seg_Cons)
  moreover have "g_cond [ts ! pos, ts ! Suc pos, ts ! Suc (Suc pos)]
      (Comparison (tok_str (ts ! pos)) (tok_str (ts ! Suc pos)) (tok_value (ts ! Suc (Suc pos))))"
    using assms(2) opr val len by (intro cond_compare) (auto simp: g_operator_def current_nth)
  ultimately show ?thesis
    using e val len by (simp add: current_nth)
qed

lemma function_call_sound:
  assumes "eof_terminated ts" and "tok_type (current ts pos) \<in> {T_HAS, T_MISSING, T_COUNT}"
    and "parse_function_call ts pos = Inr (e, pos')"
  shows "g_cond (seg ts pos pos') e"
proof -
  let ?f = "value_str (tok_value (current ts pos))"
  from assms(3) obtain t1 p1 arg p2 t3 p3 where
    l: "expect_token T_LPAREN ts (pos + 1) = Inr (t1, p1)" and a: "parse_argument ts p1 = Inr (arg, p2)" and
    r: "expect_token T_RPAREN ts p2 = Inr (t3, p3)" and
    e: "(if ?f = ''count'' then parse_count ?f arg ts p3 else Inr (FunctionCall ?f arg None FNone, p3)) = Inr (e, pos')"
    by (auto simp: parse_function_call_def Let_def res_simps split: prod.splits)
  have ps: "p1 = Suc (Suc pos)" "p2 = Suc (Suc (Suc pos))" "p3 = Suc (Suc (Suc (Suc pos)))"
    and len: "p3 < length ts" and f: "?f = tok_str (ts ! pos)"
    using token_consumed [OF assms(1) _ l] argument_consumed [OF assms(1) a] token_consumed [OF assms(1) _ r]
    by (auto simp: current_nth)
  have tl: "tok_type (ts ! Suc pos) = T_LPAREN" and ta: "tok_type (ts ! p1) \<in> {T_IDENTIFIER, T_STRING}"
    and tr: "tok_type (ts ! p2) = T_RPAREN" and arg: "arg = tok_str (ts ! p1)"
    and tf: "tok_type (ts ! pos) \<in> {T_HAS, T_MISSING, T_COUNT}"
    using token_consumed [OF assms(1) _ l] argument_consumed [OF assms(1) a] token_consumed [OF assms(1) _ r]
      assms(2) len ps by (auto simp: current_nth)
  have call: "seg ts pos p3 = [ts ! pos, ts ! Suc pos, ts ! p1, ts ! p2]"
    using len ps by (simp add: seg_Cons)
  show ?thesis
  proof (cases "?f = ''count''")
    case False
    with e have "pos' = p3" and "e = FunctionCall (tok_str (ts ! pos)) (tok_str (ts ! p1)) None FNone"
      by (auto simp: f arg)
    then show ?thesis
      using cond_call [OF tf tl ta tr] False by (simp add: call f)
  next
    case True
    let ?o = "current ts p3"
    from e True obtain v where v: "parse_value ts (p3 + 1) = Inr (v, pos')"
      and e': "e = FunctionCall ?f arg (Some (tok_str ?o)) v" and opr: "tok_type ?o \<in> set COMPARISON_OPS"
      by (auto simp: parse_count_def Let_def res_simps split: if_splits prod.splits)
    note val = value_consumed [OF assms(1) v]
    have "seg ts pos pos' = [ts ! pos, ts ! Suc pos, ts ! p1, ts ! p2, ts ! p3, ts ! (p3 + 1)]"
      using val ps by (simp add: seg_Cons)
    moreover have "g_cond [ts ! pos, ts ! Suc pos, ts ! p1, ts ! p2, ts ! p3, ts ! (p3 + 1)]
        (FunctionCall (tok_str (ts ! pos)) (tok_str (ts ! p1)) (Some (tok_str (ts ! p3))) (tok_value (ts ! (p3 + 1))))"
      using tf tl ta tr opr val True len by (intro cond_count) (auto simp: g_operator_def current_nth f)
    ultimately show ?thesis
      using e' val len by (simp add: current_nth f arg)
  qed
qed

lemma op_loop_sound:
  assumes "eof_terminated ts" and "\<And>p. advances ts p (item p)"
    and step: "\<And>us l t vs r. G us l \<Longrightarrow> tok_type t = ty \<Longrightarrow> H vs r \<Longrightarrow> G (us @ t # vs) (BinaryOp l opr r)"
    and item: "\<And>p e q. item p = Inr (e, q) \<Longrightarrow> H (seg ts p q) e"
    and "G (seg ts p0 pos) l" and "p0 \<le> pos" and "pos < length ts" and "op_loop ty opr item k ts l pos = Inr (e, pos')"
  shows "G (seg ts p0 pos') e"
  using assms(5-)
proof (induction k arbitrary: l pos)
  case (Suc k)
  show ?case
  proof (cases "tok_type (current ts pos) = ty")
    case True
    with Suc.prems obtain r p where r: "item (pos + 1) = Inr (r, p)"
      and lp: "op_loop ty opr item k ts (BinaryOp l opr r) p = Inr (e, pos')" by (auto simp: res_simps)
    have p: "pos + 1 < p" "p < length ts" using advancesD [OF assms(2) r] by auto
    have "tok_type (ts ! pos) = ty" using True Suc.prems(3) by (simp add: current_nth)
    with Suc.prems(1) item [OF r] have "G (seg ts p0 pos @ ts ! pos # seg ts (Suc pos) p) (BinaryOp l opr r)"
      by (intro step) simp_all
    moreover have "seg ts p0 p = seg ts p0 pos @ ts ! pos # seg ts (Suc pos) p"
      using Suc.prems(2) p by (intro seg_mid) auto
    ultimately have "G (seg ts p0 p) (BinaryOp l opr r)" by (simp only:)
    from Suc.IH [OF this _ p(2) lp] Suc.prems(2) p(1) show ?thesis by simp
  qed (use Suc.prems in simp)
qed simp

lemma parser_sound:
  assumes eof: "eof_terminated ts"
  shows "parse_or_expr d ts pos = Inr (e, pos') \<Longrightarrow> g_or (seg ts pos pos') e"
    and "parse_and_expr d ts pos = Inr (e, pos') \<Longrightarrow> g_and (seg ts pos pos') e"
    and "parse_condition d ts pos = Inr (e, pos') \<Longrightarrow> g_cond (seg ts pos pos') e"
proof (induction d arbitrary: pos e pos')
  case 0
  { case 1 then show ?case by simp next
    case 2 then show ?case by simp next
    case 3 then show ?case by simp }
next
  case (Suc d)
  note adv = parser_advances(2,3) [OF eof]
  { case 1
    then obtain l p where a: "parse_and_expr d ts pos = Inr (l, p)"
      and lp: "op_loop T_OR ''OR'' (parse_and_expr d ts) (length ts) ts l p = Inr (e, pos')"
      by (auto simp: res_simps)
    show ?case
      using advancesD [OF adv(1) a]
      by (intro op_loop_sound [where G = g_or and H = g_and, OF eof adv(1) or_more Suc.IH(2) or_one [OF Suc.IH(2) [OF a]] _ _ lp]) auto
  next
    case 2
    then obtain l p where a: "parse_condition d ts pos = Inr (l, p)"
      and lp: "op_loop T_AND ''AND'' (parse_condition d ts) (length ts) ts l p = Inr (e, pos')"
      by (auto simp: res_simps)
    show ?case
      using advancesD [OF adv(2) a]
      by (intro op_loop_sound [where G = g_and and H = g_cond, OF eof adv(2) and_more Suc.IH(3) and_one [OF Suc.IH(3) [OF a]] _ _ lp]) auto
  next
    case 3
    consider (neg) "tok_type (current ts pos) = T_NOT" | (paren) "tok_type (current ts pos) = T_LPAREN"
      | (call) "tok_type (current ts pos) \<in> {T_HAS, T_MISSING, T_COUNT}"
      | (cmp) "tok_type (current ts pos) = T_IDENTIFIER"
      using 3 by (auto simp: Let_def split: if_splits)
    then show ?case
    proof cases
      case neg
      with 3 obtain x where x: "parse_condition d ts (pos + 1) = Inr (x, pos')" and e: "e = UnaryOp ''NOT'' x"
        by (auto simp: res_simps Let_def)
      note in_x = advancesD [OF adv(2) x]
      have "seg ts pos pos' = ts ! pos # seg ts (Suc pos) pos'"
        using in_x by (intro seg_Cons) auto
      with cond_not [OF _ Suc.IH(3) [OF x], of "ts ! pos"] neg e in_x show ?thesis
        by (simp add: current_nth)
    next
      case paren
      with 3 obtain p t where x: "parse_or_expr d ts (pos + 1) = Inr (e, p)"
        and t: "expect_token T_RPAREN ts p = Inr (t, pos')"
        by (auto simp: res_simps Let_def)
      note close = token_consumed [OF eof _ t] and in_x = advancesD [OF parser_advances(1) [OF eof] x]
      have "seg ts pos pos' = ts ! pos # seg ts (Suc pos) p @ [ts ! p]"
        using in_x close seg_mid [of "Suc pos" p "Suc p" ts] seg_Cons [of pos "Suc p" ts] by simp
      with cond_paren [OF _ Suc.IH(1) [OF x], of "ts ! pos" "ts ! p"] paren close in_x show ?thesis
        by (simp add: current_nth)
    next
      case call
      with 3 have "parse_function_call ts pos = Inr (e, pos')"
        by (auto simp: Let_def)
      with eof call show ?thesis by (rule function_call_sound)
    next
      case cmp
      with 3 have "parse_comparison ts pos = Inr (e, pos')"
        by (simp add: Let_def)
      with eof cmp show ?thesis by (rule comparison_sound)
    qed
  }
qed

text \<open>Conversely every sentence is parsed, with room for enough nested calls, wherever it stands in
  the input. The loops are followed one operator at a time.\<close>

abbreviation enough :: "(nat \<Rightarrow> bool) \<Rightarrow> bool" where
  "enough P \<equiv> eventually P sequentially"

lemma enough_Suc: "enough (\<lambda>n. P (Suc n)) \<longleftrightarrow> enough P"
  by (rule eventually_sequentially_Suc)

lemma enough_add: "enough (\<lambda>n. P (n + k)) \<longleftrightarrow> enough P"
  by (rule eventually_sequentially_seg)

lemma current_append:
  "current (pre @ us @ t # rest) (length pre + length us) = t"
  "current (pre @ t # rest) (length pre) = t"
  "current (pre @ a # t # rest) (Suc (length pre)) = t"
  "current (pre @ a # b # t # rest) (Suc (Suc (length pre))) = t"
  "current (pre @ a # b # c # t # rest) (Suc (Suc (Suc (length pre)))) = t"
  "current (pre @ a # b # c # d # t # rest) (Suc (Suc (Suc (Suc (length pre))))) = t"
  "current (pre @ a # b # c # d # h # t # rest) (Suc (Suc (Suc (Suc (Suc (length pre)))))) = t"
  by (simp_all add: current_def nth_append)

lemma parse_value_complete:
  "g_value (current ts pos) \<Longrightarrow> parse_value ts pos = Inr (tok_value (current ts pos), pos + 1)"
  by (auto simp: g_value_def parse_value_def Let_def)

lemma parse_argument_complete:
  "tok_type (current ts pos) \<in> {T_IDENTIFIER, T_STRING} \<Longrightarrow>
    parse_argument ts pos = Inr (tok_str (current ts pos), pos + 1)"
  by (auto simp: parse_argument_def Let_def)

lemma expect_token_complete:
  "tok_type (current ts pos) = ty \<Longrightarrow> expect_token ty ts pos = Inr (current ts pos, pos + 1)"
  by (auto simp: expect_token_def Let_def)

lemma parse_call_complete:
  assumes "ts = pre @ [f, l, a, r] @ rest" and "tok_type l = T_LPAREN"
    and "tok_type a \<in> {T_IDENTIFIER, T_STRING}" and "tok_type r = T_RPAREN"
  shows "parse_function_call ts (length pre) =
    (if tok_str f = ''count'' then parse_count (tok_str f) (tok_str a) ts (length pre + 4)
     else Inr (FunctionCall (tok_str f) (tok_str a) None FNone, length pre + 4))"
proof -
  have cur: "current ts (length pre) = f" "current ts (Suc (length pre)) = l"
    "current ts (Suc (Suc (length pre))) = a" "current ts (Suc (Suc (Suc (length pre)))) = r"
    using assms(1) by (simp_all add: current_append)
  have "expect_token T_LPAREN ts (Suc (length pre)) = Inr (l, Suc (Suc (length pre)))"
    "parse_argument ts (Suc (Suc (length pre))) = Inr (tok_str a, Suc (Suc (Suc (length pre))))"
    "expect_token T_RPAREN ts (Suc (Suc (Suc (length pre)))) = Inr (r, Suc (Suc (Suc (Suc (length pre)))))"
    using assms(2-4) by (auto simp: expect_token_def parse_argument_def cur)
  then show ?thesis
    by (simp add: parse_function_call_def cur Let_def numeral_eq_Suc)
qed

text \<open>A loop that stands behind its last operand is done.\<close>

lemma op_loop_done:
  assumes "length us < k" and "i \<le> length us" and "tok_type (current ts pos) \<noteq> ty"
  shows "op_loop ty opr item (k - i) ts e pos = Inr (e, pos)"
  using assms by (cases "k - i") auto

lemma op_loop_next:
  assumes "i < k" and "tok_type (current ts pos) = ty" and "item (pos + 1) = Inr (r, q)"
  shows "op_loop ty opr item (k - i) ts e pos = op_loop ty opr item (k - Suc i) ts (BinaryOp e opr r) q"
proof -
  have "k - i = Suc (k - Suc i)" using assms(1) by simp
  then show ?thesis using assms(2,3) by simp
qed

lemma grammar_complete:
  shows "g_or us e \<Longrightarrow> rest \<noteq> [] \<Longrightarrow> tok_type (hd rest) \<noteq> T_AND \<Longrightarrow>
      \<exists>i \<le> length us. enough (\<lambda>d. parse_or_expr (Suc d) (pre @ us @ rest) (length pre) =
        op_loop T_OR ''OR'' (parse_and_expr d (pre @ us @ rest)) (length (pre @ us @ rest) - i) (pre @ us @ rest) e
          (length pre + length us))"
    and "g_and us e \<Longrightarrow> rest \<noteq> [] \<Longrightarrow>
      \<exists>i \<le> length us. enough (\<lambda>d. parse_and_expr (Suc d) (pre @ us @ rest) (length pre) =
        op_loop T_AND ''AND'' (parse_condition d (pre @ us @ rest)) (length (pre @ us @ rest) - i) (pre @ us @ rest) e
          (length pre + length us))"
    and "g_cond us e \<Longrightarrow> rest \<noteq> [] \<Longrightarrow>
      enough (\<lambda>d. parse_condition d (pre @ us @ rest) (length pre) = Inr (e, length pre + length us))"
proof (induction arbitrary: pre rest and pre rest and pre rest rule: g_or_g_and_g_cond.inducts)
  case (or_one us e)
  let ?ts = "pre @ us @ rest" and ?p = "length pre + length us"
  from or_one obtain i where i: "i \<le> length us" and "enough (\<lambda>d. parse_and_expr (Suc d) ?ts (length pre) =
      op_loop T_AND ''AND'' (parse_condition d ?ts) (length ?ts - i) ?ts e ?p)" by blast
  moreover have "op_loop T_AND ''AND'' item (length ?ts - i) ?ts e ?p = Inr (e, ?p)" for item
    using or_one.prems i by (intro op_loop_done [of us]) (cases rest; simp add: current_append)+
  ultimately have "enough (\<lambda>d. parse_and_expr d ?ts (length pre) = Inr (e, ?p))"
    by (subst enough_Suc [symmetric]) simp
  then have "enough (\<lambda>d. parse_or_expr (Suc d) ?ts (length pre) =
      op_loop T_OR ''OR'' (parse_and_expr d ?ts) (length ?ts - 0) ?ts e ?p)"
    by eventually_elim simp
  then show ?case by blast
next
  case (or_more us l t vs r)
  let ?ts = "pre @ us @ t # vs @ rest" and ?p = "length pre + length us"
  let ?q = "?p + 1 + length vs"
  from or_more.IH(1) [of "t # vs @ rest" pre] or_more.hyps obtain i where i: "i \<le> length us"
    and l: "enough (\<lambda>d. parse_or_expr (Suc d) ?ts (length pre) =
      op_loop T_OR ''OR'' (parse_and_expr d ?ts) (length ?ts - i) ?ts l ?p)"
    by auto
  from or_more.IH(2) [of rest "pre @ us @ [t]"] or_more.prems obtain j where j: "j \<le> length vs"
    and "enough (\<lambda>d. parse_and_expr (Suc d) ?ts (?p + 1) =
      op_loop T_AND ''AND'' (parse_condition d ?ts) (length ?ts - j) ?ts r ?q)"
    by (auto simp: add.assoc)
  moreover have "op_loop T_AND ''AND'' item (length ?ts - j) ?ts r ?q = Inr (r, ?q)" for item
  proof (rule op_loop_done [of vs])
    have "current ?ts ?q = hd rest"
      using or_more.prems current_append(1) [of "pre @ us @ [t]" vs] by (cases rest) (simp_all add: add.assoc)
    then show "tok_type (current ?ts ?q) \<noteq> T_AND" using or_more.prems by simp
  qed (use j in simp_all)
  ultimately have "enough (\<lambda>d. parse_and_expr d ?ts (?p + 1) = Inr (r, ?q))"
    by (subst enough_Suc [symmetric]) simp
  with l have "enough (\<lambda>d. parse_or_expr (Suc d) ?ts (length pre) =
      op_loop T_OR ''OR'' (parse_and_expr d ?ts) (length ?ts - Suc i) ?ts (BinaryOp l ''OR'' r) ?q)"
  proof eventually_elim
    case (elim d)
    have "op_loop T_OR ''OR'' (parse_and_expr d ?ts) (length ?ts - i) ?ts l ?p =
        op_loop T_OR ''OR'' (parse_and_expr d ?ts) (length ?ts - Suc i) ?ts (BinaryOp l ''OR'' r) ?q"
      by (rule op_loop_next) (use i or_more.hyps elim(2) in \<open>simp_all add: current_append\<close>)
    with elim(1) show ?case by (simp only:)
  qed
  then show ?case using i by (intro exI [of _ "Suc i"]) (simp add: add.assoc)
next
  case (and_one us e)
  let ?ts = "pre @ us @ rest" and ?p = "length pre + length us"
  from and_one have "enough (\<lambda>d. parse_condition d ?ts (length pre) = Inr (e, ?p))" by blast
  then have "enough (\<lambda>d. parse_and_expr (Suc d) ?ts (length pre) =
      op_loop T_AND ''AND'' (parse_condition d ?ts) (length ?ts - 0) ?ts e ?p)"
    by eventually_elim simp
  then show ?case by blast
next
  case (and_more us l t vs r)
  let ?ts = "pre @ us @ t # vs @ rest" and ?p = "length pre + length us"
  let ?q = "?p + 1 + length vs"
  from and_more.IH(1) [of "t # vs @ rest" pre] obtain i where i: "i \<le> length us"
    and l: "enough (\<lambda>d. parse_and_expr (Suc d) ?ts (length pre) =
      op_loop T_AND ''AND'' (parse_condition d ?ts) (length ?ts - i) ?ts l ?p)"
    by auto
  from and_more.IH(2) [of rest "pre @ us @ [t]"] and_more.prems have
    "enough (\<lambda>d. parse_condition d ?ts (?p + 1) = Inr (r, ?q))"
    by (auto simp: add.assoc)
  with l have "enough (\<lambda>d. parse_and_expr (Suc d) ?ts (length pre) =
      op_loop T_AND ''AND'' (parse_condition d ?ts) (length ?ts - Suc i) ?ts (BinaryOp l ''AND'' r) ?q)"
  proof eventually_elim
    case (elim d)
    have "op_loop T_AND ''AND'' (parse_condition d ?ts) (length ?ts - i) ?ts l ?p =
        op_loop T_AND ''AND'' (parse_condition d ?ts) (length ?ts - Suc i) ?ts (BinaryOp l ''AND'' r) ?q"
      by (rule op_loop_next) (use i and_more.hyps elim(2) in \<open>simp_all add: current_append\<close>)
    with elim(1) show ?case by (simp only:)
  qed
  then show ?case using i by (intro exI [of _ "Suc i"]) (simp add: add.assoc)
next
  case (cond_not t us e)
  from cond_not.IH [of rest "pre @ [t]"] cond_not.prems
  have "enough (\<lambda>n. parse_condition n (pre @ t # us @ rest) (length pre + 1) = Inr (e, length pre + 1 + length us))"
    by simp
  then have "enough (\<lambda>n. parse_condition (Suc n) (pre @ t # us @ rest) (length pre) =
      Inr (UnaryOp ''NOT'' e, length pre + 1 + length us))"
    by eventually_elim (use cond_not.hyps in \<open>simp add: current_append\<close>)
  then show ?case by (subst (asm) enough_Suc) simp
next
  case (cond_paren l us e r)
  let ?ts = "pre @ l # us @ r # rest" and ?p = "length pre + 1 + length us"
  from cond_paren.IH [of "r # rest" "pre @ [l]"] cond_paren.hyps obtain i where i: "i \<le> length us"
    and "enough (\<lambda>d. parse_or_expr (Suc d) ?ts (length pre + 1) =
      op_loop T_OR ''OR'' (parse_and_expr d ?ts) (length ?ts - i) ?ts e ?p)"
    by auto
  moreover have r: "current ?ts ?p = r"
    using current_append(1) [of "pre @ [l]" us r rest] by simp
  moreover have "op_loop T_OR ''OR'' item (length ?ts - i) ?ts e ?p = Inr (e, ?p)" for item
    using i r cond_paren.hyps by (intro op_loop_done [of us]) simp_all
  ultimately have "enough (\<lambda>d. parse_or_expr d ?ts (length pre + 1) = Inr (e, ?p))"
    by (subst enough_Suc [symmetric]) simp
  then have "enough (\<lambda>n. parse_condition (Suc n) ?ts (length pre) = Inr (e, ?p + 1))"
    by eventually_elim (use cond_paren.hyps r in \<open>simp add: current_append expect_token_complete\<close>)
  then show ?case by (subst (asm) enough_Suc) simp
next
  case (cond_call f l a r)
  then show ?case
    using parse_call_complete [of "pre @ [f, l, a, r] @ rest" pre f l a r rest]
    by (subst enough_Suc [symmetric]) (auto simp: current_append)
next
  case (cond_count f l a r opr v)
  let ?ts = "pre @ [f, l, a, r, opr, v] @ rest"
  have "parse_count (tok_str f) (tok_str a) ?ts (length pre + 4) =
      Inr (FunctionCall (tok_str f) (tok_str a) (Some (tok_str opr)) (tok_value v), length pre + 6)"
    using cond_count.hyps parse_value_complete [of ?ts "length pre + 5"]
    by (simp add: parse_count_def Let_def current_append g_operator_def numeral_eq_Suc)
  then have "parse_function_call ?ts (length pre) =
      Inr (FunctionCall (tok_str f) (tok_str a) (Some (tok_str opr)) (tok_value v), length pre + 6)"
    using parse_call_complete [of ?ts pre f l a r "[opr, v] @ rest"] cond_count.hyps by simp
  then show ?case
    using cond_count.hyps by (subst enough_Suc [symmetric]) (auto simp: current_append)
next
  case (cond_compare f opr v)
  let ?ts = "pre @ [f, opr, v] @ rest"
  have "parse_comparison ?ts (length pre) =
      Inr (Comparison (tok_str f) (tok_str opr) (tok_value v), length pre + 3)"
    using cond_compare.hyps parse_value_complete [of ?ts "length pre + 2"]
    by (simp add: parse_comparison_def Let_def current_append g_operator_def numeral_eq_Suc)
  then show ?case
    using cond_compare.hyps by (subst enough_Suc [symmetric]) (auto simp: current_append)
qed

lemma parse_tokens_complete:
  assumes "eof_terminated ts" and "g_or (butlast ts) e"
  shows "parse_tokens d ts \<in> {Inr e, Inl RecursionLimit}"
proof -
  let ?us = "butlast ts"
  from assms(1) have ts: "?us @ [last ts] = ts" and eof: "tok_type (last ts) = T_EOF"
    by (auto simp: eof_terminated_def)
  from grammar_complete(1) [OF assms(2), of "[last ts]" "[]"] ts eof obtain i where i: "i \<le> length ?us"
    and *: "enough (\<lambda>d. parse_or_expr (Suc d) ts 0 = op_loop T_OR ''OR'' (parse_and_expr d ts) (length ts - i) ts e (length ?us))"
    by auto
  have cur: "current ts (length ?us) = last ts"
    using current_append(2) [of ?us "last ts" "[]"] ts by simp
  have len: "length ?us < length ts" using arg_cong [OF ts, of length] by simp
  have "op_loop T_OR ''OR'' item (length ts - i) ts e (length ?us) = Inr (e, length ?us)" for item
    using i eof cur len by (intro op_loop_done [of ?us]) simp_all
  with * have "enough (\<lambda>d. parse_or_expr d ts 0 = Inr (e, length ?us))"
    by (subst enough_Suc [symmetric]) simp
  then obtain n where n: "\<And>k. n \<le> k \<Longrightarrow> parse_or_expr k ts 0 = Inr (e, length ?us)"
    by (auto simp: eventually_sequentially)
  have "settled (parse_or_expr d ts 0) (Inr (e, length ?us))"
    using parser_mono(1) [of d ts 0 n] n [of "d + n"] by simp
  then consider "parse_or_expr d ts 0 = Inl RecursionLimit" | "parse_or_expr d ts 0 = Inr (e, length ?us)"
    by (auto simp: settled_def)
  moreover have "current ts (length ts - Suc 0) = last ts" using cur by simp
  ultimately show ?thesis by cases (simp_all add: parse_tokens_def eof)
qed

lemma parse_tokens_sound:
  assumes "eof_terminated ts" and "parse_tokens d ts = Inr e"
  shows "g_or (butlast ts) e"
proof -
  from assms(2) obtain pos where pos: "parse_or_expr d ts 0 = Inr (e, pos)"
    and eof: "tok_type (current ts pos) = T_EOF"
    by (auto simp: parse_tokens_def res_simps Let_def split: if_splits)
  have "pos = length ts - 1"
    using advancesD [OF parser_advances(1) [OF assms(1)] pos] current_eof [OF assms(1) eof] by linarith
  then have "seg ts 0 pos = butlast ts"
    by (simp add: seg_def butlast_conv_take)
  with parser_sound(1) [OF assms(1) pos] show ?thesis by simp
qed

lemma parse_in_bounds:
  assumes "eof_terminated ts"
  shows "parse_tokens d ts \<noteq> Inl OutOfFuel" and "nesting ts + 3 \<le> d \<Longrightarrow> parse_tokens d ts \<noteq> Inl RecursionLimit"
  using parser_enough(1) [OF assms, of d 0] parser_within(1) [OF assms, of 0 d]
  by (auto simp: parse_tokens_def res_simps Let_def split: if_splits)

text \<open>The tokenizer the parser is a client of.\<close>

locale token_source =
  fixes lex :: "string \<Rightarrow> lexer_error + token list"
  assumes lex_eof: "lex s = Inr ts \<Longrightarrow> eof_terminated ts"
begin

lemma parse_exact:
  assumes "lex s = Inr ts"
  shows "parse_tokens d ts = Inr e \<longleftrightarrow> g_or (butlast ts) e \<and> parse_tokens d ts \<noteq> Inl RecursionLimit"
    and "parse_tokens d ts \<noteq> Inl OutOfFuel" and "nesting ts + 3 \<le> d \<Longrightarrow> parse_tokens d ts \<noteq> Inl RecursionLimit"
  using parse_tokens_complete [OF lex_eof [OF assms], of e d] parse_tokens_sound [OF lex_eof [OF assms], of d e]
    parse_in_bounds [OF lex_eof [OF assms], of d] by auto

lemma unambiguous: "lex s = Inr ts \<Longrightarrow> g_or (butlast ts) e \<Longrightarrow> g_or (butlast ts) e' \<Longrightarrow> e = e'"
  using parse_exact(1,3) [of s ts "nesting ts + 3"] by (metis Inr_inject le_refl)

end

interpretation lexed: token_source tokenize
  by unfold_locales (simp add: tokenize_def tokenize_from_eof)

section \<open>What the parser promises\<close>

definition is_filter :: "string \<Rightarrow> fexpr \<Rightarrow> bool" where
  "is_filter s e \<longleftrightarrow> str_strip s \<noteq> [] \<and> (\<exists>ts. tokenize s = Inr ts \<and> g_or (butlast ts) e)"

text \<open>C1: With room on the stack for the nesting of the text, three calls for every opening
  parenthesis, one for every \<open>NOT\<close> and three more, \<open>parse_filter\<close> answers a tree exactly for the
  texts that are not blank, consist of tokens and are, without the final \<open>EOF\<close>, a sentence of the
  grammar, and the tree is the one the grammar assigns; every other text is refused with an error of
  the tokenizer or the parser. The grammar is that of the head of the module, with an identifier or a
  text as the argument of every function. With less room it never answers another tree: it gives the
  same answer or raises \<open>RecursionError\<close>. The loops always end within their bound.\<close>

theorem parse_filter_implements_grammar:
  assumes "\<And>ts. tokenize s = Inr ts \<Longrightarrow> nesting ts + 3 \<le> d"
  shows "(parse_filter d s = Inr e \<longleftrightarrow> is_filter s e) \<and> parse_filter d s \<noteq> Inl RecursionLimit \<and>
    (\<forall>d'. parse_filter d' s \<in> {parse_filter d s, Inl RecursionLimit} \<and> parse_filter d' s \<noteq> Inl OutOfFuel)"
proof (cases "str_strip s = [] \<or> (\<exists>x. tokenize s = Inl x)")
  case True
  have "str_strip [] = []" by (simp add: str_strip_def)
  with True show ?thesis by (auto simp: parse_filter_def is_filter_def split: sum.splits)
next
  case False
  then obtain ts where ts: "tokenize s = Inr ts" and s: "s \<noteq> []" "str_strip s \<noteq> []"
    by (cases "tokenize s"; cases s) (auto simp: str_strip_def)
  have eof: "eof_terminated ts" using ts by (rule lexed.lex_eof)
  note room = assms [OF ts]
  have "parse_tokens d' ts \<in> {parse_tokens d ts, Inl RecursionLimit}" for d'
  proof -
    have "settled (parse_tokens d' ts) (parse_tokens (d' + d) ts)" "settled (parse_tokens d ts) (parse_tokens (d + d') ts)"
      unfolding parse_tokens_def by (auto intro!: settled_bind parser_mono)
    then show ?thesis using lexed.parse_exact(3) [OF ts room] by (auto simp: settled_def add.commute)
  qed
  then show ?thesis
    using lexed.parse_exact(1) [OF ts, of d e] lexed.parse_exact(2) [OF ts] lexed.parse_exact(3) [OF ts room] ts s
    by (auto simp: parse_filter_def is_filter_def)
qed

lemma ex_filter_tokens:
  "tokenize ''NOT (a = 1)'' = Inr [mk_token T_NOT (FStr ''NOT'') 0, mk_token T_LPAREN (FStr ''('') 4,
     mk_token T_IDENTIFIER (FStr ''a'') 5, mk_token T_EQ (FStr ''='') 7, mk_token T_NUMBER (FInt 1) 9,
     mk_token T_RPAREN (FStr '')'') 10, mk_token T_EOF FNone 11]"
  by code_simp

theorem parse_filter_implements_grammar_witness:
  "(parse_filter 7 ''NOT (a = 1)'' = Inr (UnaryOp ''NOT'' (Comparison ''a'' ''='' (FInt 1))) \<longleftrightarrow>
      is_filter ''NOT (a = 1)'' (UnaryOp ''NOT'' (Comparison ''a'' ''='' (FInt 1)))) \<and>
    parse_filter 7 ''NOT (a = 1)'' \<noteq> Inl RecursionLimit \<and>
    (\<forall>d'. parse_filter d' ''NOT (a = 1)'' \<in> {parse_filter 7 ''NOT (a = 1)'', Inl RecursionLimit} \<and>
      parse_filter d' ''NOT (a = 1)'' \<noteq> Inl OutOfFuel)"
  by (rule parse_filter_implements_grammar) (auto simp: ex_filter_tokens nesting_def mk_token_def)

text \<open>Where the code leaves the documented grammar: a number as the argument of \<open>has\<close> is refused, a
  text as that of \<open>count\<close> is taken.\<close>

theorem argument_rule_differs:
  "parse_filter 100 ''has(5)'' = Inl (ExpectedArgument 4) \<and>
   parse_filter 100 [CHR ''c'', CHR ''o'', CHR ''u'', CHR ''n'', CHR ''t'', CHR ''('', CHR 0x22, CHR ''x'', CHR 0x22, CHR '')'',
     CHR ''>'', CHR ''1''] = Inr (FunctionCall ''count'' ''x'' (Some ''>'') (FInt 1))"
  by code_simp

text \<open>A tree written out as tokens, with every operand in parentheses.\<close>

definition operator_types :: "(string \<times> token_type) list" where
  "operator_types = [(''='', T_EQ), (''!='', T_NE), (''>'', T_GT), (''<'', T_LT), (''>='', T_GE),
     (''<='', T_LE), (''~'', T_REGEX), (''contains'', T_CONTAINS)]"

definition operator_token :: "string \<Rightarrow> token" where
  "operator_token opr = mk_token (case map_of operator_types opr of Some ty \<Rightarrow> ty | None \<Rightarrow> T_EOF) (FStr opr) 0"

fun value_token :: "fvalue \<Rightarrow> token" where
  "value_token (FStr s) = mk_token T_STRING (FStr s) 0"
| "value_token v = mk_token T_NUMBER v 0"

abbreviation in_parens :: "token list \<Rightarrow> token list" where
  "in_parens us \<equiv> mk_token T_LPAREN (FStr ''('') 0 # us @ [mk_token T_RPAREN (FStr '')'') 0]"

definition function_token :: "string \<Rightarrow> token" where
  "function_token f = mk_token (case map_of KEYWORDS f of Some ty \<Rightarrow> ty | None \<Rightarrow> T_IDENTIFIER) (FStr f) 0"

primrec unparse :: "fexpr \<Rightarrow> token list" where
  "unparse (BinaryOp l opr r) = in_parens (unparse l) @
     mk_token (if opr = ''OR'' then T_OR else T_AND) (FStr opr) 0 # in_parens (unparse r)"
| "unparse (UnaryOp opr e) = mk_token T_NOT (FStr opr) 0 # in_parens (unparse e)"
| "unparse (Comparison f opr v) = [mk_token T_IDENTIFIER (FStr f) 0, operator_token opr, value_token v]"
| "unparse (FunctionCall f a opr v) = function_token f # in_parens [mk_token T_STRING (FStr a) 0] @
     (case opr of None \<Rightarrow> [] | Some x \<Rightarrow> [operator_token x, value_token v])"

text \<open>The trees the parser can build.\<close>

definition operator_ok :: "string \<Rightarrow> bool" where
  "operator_ok opr \<longleftrightarrow> opr \<in> set (map fst operator_types)"

primrec well_formed :: "fexpr \<Rightarrow> bool" where
  "well_formed (BinaryOp l opr r) \<longleftrightarrow> (opr = ''OR'' \<or> opr = ''AND'') \<and> well_formed l \<and> well_formed r"
| "well_formed (UnaryOp opr e) \<longleftrightarrow> opr = ''NOT'' \<and> well_formed e"
| "well_formed (Comparison f opr v) \<longleftrightarrow> operator_ok opr"
| "well_formed (FunctionCall f a opr v) \<longleftrightarrow>
     (case opr of None \<Rightarrow> (f = ''has'' \<or> f = ''missing'') \<and> v = FNone
      | Some x \<Rightarrow> f = ''count'' \<and> operator_ok x)"

lemma mk_token_sel [simp]:
  "tok_type (mk_token ty v p) = ty" "tok_value (mk_token ty v p) = v" "tok_position (mk_token ty v p) = p"
  by (simp_all add: mk_token_def)

lemma operator_token_ok:
  "operator_ok opr \<Longrightarrow> g_operator (operator_token opr)" "tok_str (operator_token opr) = opr"
  by (auto simp: operator_ok_def g_operator_def operator_token_def operator_types_def COMPARISON_OPS_def)

lemma value_token_ok: "g_value (value_token v)" "tok_value (value_token v) = v"
  by (cases v; simp add: g_value_def)+

lemma in_parens_cond: "g_or us e \<Longrightarrow> g_cond (in_parens us) e"
  using cond_paren [of "mk_token T_LPAREN (FStr ''('') 0" us e "mk_token T_RPAREN (FStr '')'') 0"] by simp

lemma unparse_sentence: "well_formed e \<Longrightarrow> g_or (unparse e) e"
proof (induction e)
  case (BinaryOp l opr r)
  then have l: "g_cond (in_parens (unparse l)) l" and r: "g_cond (in_parens (unparse r)) r"
    by (auto intro: in_parens_cond)
  show ?case
  proof (cases "opr = ''OR''")
    case True
    then show ?thesis
      using or_more [OF or_one [OF and_one [OF l]] _ and_one [OF r], of "mk_token T_OR (FStr opr) 0"] by simp
  next
    case False
    with BinaryOp.prems have "opr = ''AND''" by simp
    then show ?thesis
      using and_more [OF and_one [OF l] _ r, of "mk_token T_AND (FStr opr) 0"] by (auto intro: or_one)
  qed
next
  case (UnaryOp opr e)
  then show ?case
    using cond_not [OF _ in_parens_cond, of "mk_token T_NOT (FStr opr) 0" "unparse e" e]
    by (auto intro: or_one and_one)
next
  case (Comparison f opr v)
  then show ?case
    using cond_compare [of "mk_token T_IDENTIFIER (FStr f) 0" "operator_token opr" "value_token v"]
    by (auto simp: operator_token_ok value_token_ok intro: or_one and_one)
next
  case (FunctionCall f a opr v)
  let ?l = "mk_token T_LPAREN (FStr ''('') 0" and ?a = "mk_token T_STRING (FStr a) 0"
    and ?r = "mk_token T_RPAREN (FStr '')'') 0"
  have ft: "tok_type (function_token ''has'') = T_HAS" "tok_type (function_token ''missing'') = T_MISSING"
    "tok_type (function_token ''count'') = T_COUNT" "tok_value (function_token f) = FStr f"
    by (simp_all add: function_token_def KEYWORDS_def)
  have "g_cond (unparse (FunctionCall f a opr v)) (FunctionCall f a opr v)"
  proof (cases opr)
    case None
    with FunctionCall ft show ?thesis
      using cond_call [of "function_token f" ?l ?a ?r] by auto
  next
    case (Some x)
    with FunctionCall ft show ?thesis
      using cond_count [of "function_token f" ?l ?a ?r "operator_token x" "value_token v"]
      by (simp add: operator_token_ok value_token_ok)
  qed
  then show ?case by (intro or_one and_one)
qed

lemma operand_not_eof: "g_operator t \<Longrightarrow> tok_type t \<noteq> T_EOF" "g_value t \<Longrightarrow> tok_type t \<noteq> T_EOF"
  "tok_type t \<in> {T_HAS, T_MISSING, T_COUNT} \<Longrightarrow> tok_type t \<noteq> T_EOF"
  "tok_type t \<in> {T_IDENTIFIER, T_STRING} \<Longrightarrow> tok_type t \<noteq> T_EOF"
  by (auto simp: g_operator_def g_value_def COMPARISON_OPS_def)

lemma g_or_no_eof: "g_or us e \<Longrightarrow> \<forall>t \<in> set us. tok_type t \<noteq> T_EOF"
  and "g_and us e \<Longrightarrow> \<forall>t \<in> set us. tok_type t \<noteq> T_EOF"
  and "g_cond us e \<Longrightarrow> \<forall>t \<in> set us. tok_type t \<noteq> T_EOF"
proof (induction rule: g_or_g_and_g_cond.inducts)
  case (cond_call f l a r)
  then show ?case using operand_not_eof(3) [of f] operand_not_eof(4) [of a] by simp
next
  case (cond_count f l a r opr v)
  then show ?case
    using operand_not_eof(3) [of f] operand_not_eof(4) [of a] operand_not_eof(1) [of opr] operand_not_eof(2) [of v]
    by simp
next
  case (cond_compare f opr v)
  then show ?case using operand_not_eof(1) [of opr] operand_not_eof(2) [of v] by simp
qed auto

text \<open>Every tree the parser can build is the parse of its written-out tokens, when the stack has room
  for their nesting.\<close>

theorem parse_unparse:
  assumes "well_formed e" and "nesting (unparse e) + 3 \<le> d"
  shows "parse_tokens d (unparse e @ [mk_token T_EOF FNone p]) = Inr e"
proof -
  let ?ts = "unparse e @ [mk_token T_EOF FNone p]"
  have eof: "eof_terminated ?ts"
    using g_or_no_eof [OF unparse_sentence [OF assms(1)]] by (auto simp: eof_terminated_def list_all_iff)
  have "nesting ?ts + 3 \<le> d" using assms(2) by (simp add: nesting_def)
  then show ?thesis
    using parse_tokens_complete [OF eof, of e d] parse_in_bounds(2) [OF eof] unparse_sentence [OF assms(1)] by auto
qed

theorem parse_unparse_witness:
  "parse_tokens 20 (unparse (BinaryOp (FunctionCall ''has'' ''SSN'' None FNone) ''AND''
      (UnaryOp ''NOT'' (Comparison ''score'' ''>'' (FInt 75)))) @ [mk_token T_EOF FNone 0]) =
    Inr (BinaryOp (FunctionCall ''has'' ''SSN'' None FNone) ''AND''
      (UnaryOp ''NOT'' (Comparison ''score'' ''>'' (FInt 75))))"
  by (rule parse_unparse) (simp add: operator_ok_def operator_types_def, code_simp)

end
