(* ===== verification/Filter_Executor.thy ===== *)
theory Filter_Executor
  imports Filter_Parser "HOL-Library.List_Lexorder" "HOL-Library.Char_ord"
begin

text \<open>
  Evaluation of result filters, \<^verbatim>\<open>src/openlabels/cli/filter_executor.py\<close>. The result a filter
  looks at is a Python value: a dictionary or an object with attributes. Comparing a text with a
  number by order raises \<open>TypeError\<close>, which nothing in the module catches.

  Two things are parameters of the definitions: \<open>re\<close> is the regular expression engine with its
  one second limit, \<open>re pattern text = None\<close> standing for a pattern that does not compile, a
  match that is stopped by the limit or any other exception; \<open>fmt\<close> is \<open>str\<close> on the values
  whose text the sources do not determine (floats, lists, dictionaries, objects). \<open>d\<close> is the number
  of nested calls the interpreter's stack has room for, of the grammar methods and of \<open>_evaluate\<close>.
\<close>

section \<open>Python values\<close>

datatype pyval =
    VNone
  | VBool bool
  | VInt int
  | VFloat real
  | VStr string
  | VList "pyval list"
  | VDict "(string \<times> pyval) list"
  | VObj "(string \<times> pyval) list"

datatype filter_error = InvalidFilter parse_error | TypeError | EvaluationTooDeep

definition show_int :: "int \<Rightarrow> string" where
  "show_int i = (if i < 0 then CHR ''-'' # show_nat (nat (- i)) else show_nat (nat i))"

fun py_str :: "(pyval \<Rightarrow> string) \<Rightarrow> pyval \<Rightarrow> string" where
  "py_str fmt VNone = ''None''"
| "py_str fmt (VBool b) = (if b then ''True'' else ''False'')"
| "py_str fmt (VInt i) = show_int i"
| "py_str fmt (VStr s) = s"
| "py_str fmt v = fmt v"

fun of_fvalue :: "fvalue \<Rightarrow> pyval" where
  "of_fvalue FNone = VNone"
| "of_fvalue (FStr s) = VStr s"
| "of_fvalue (FInt i) = VInt i"
| "of_fvalue (FFloat x) = VFloat x"

fun as_number :: "pyval \<Rightarrow> real option" where
  "as_number (VBool b) = Some (if b then 1 else 0)"
| "as_number (VInt i) = Some (of_int i)"
| "as_number (VFloat x) = Some x"
| "as_number _ = None"

text \<open>Strings are ordered by code points, from the left.\<close>

fun str_less :: "string \<Rightarrow> string \<Rightarrow> bool" where
  "str_less [] ys \<longleftrightarrow> ys \<noteq> []"
| "str_less (x # xs) [] \<longleftrightarrow> False"
| "str_less (x # xs) (y # ys) \<longleftrightarrow> chr_code x < chr_code y \<or> (x = y \<and> str_less xs ys)"

text \<open>\<open>==\<close> and the order of two values: \<open>(less, equal)\<close>, or \<open>TypeError\<close>. A filter compares
  with a literal, a text or a number, so lists, dictionaries and objects are never equal to it.\<close>

definition py_eq :: "pyval \<Rightarrow> pyval \<Rightarrow> bool" where
  "py_eq l r =
     (case (as_number l, as_number r) of
        (Some x, Some y) \<Rightarrow> x = y
      | _ \<Rightarrow> (case (l, r) of
            (VStr s, VStr t) \<Rightarrow> s = t
          | (VNone, VNone) \<Rightarrow> True
          | _ \<Rightarrow> False))"

definition py_order :: "pyval \<Rightarrow> pyval \<Rightarrow> filter_error + (bool \<times> bool)" where
  "py_order l r =
     (case (as_number l, as_number r) of
        (Some x, Some y) \<Rightarrow> Inr (x < y, x = y)
      | _ \<Rightarrow> (case (l, r) of
            (VStr s, VStr t) \<Rightarrow> Inr (str_less s t, s = t)
          | _ \<Rightarrow> Inl TypeError))"

section \<open>Fields\<close>

definition field_map :: "(string \<times> string) list" where
  "field_map =
     [(''score'', ''risk_score''), (''tier'', ''risk_tier''), (''exposure'', ''exposure_level''),
      (''path'', ''file_path''), (''name'', ''file_name''), (''filename'', ''file_name''),
      (''entities'', ''total_entities''), (''total'', ''total_entities'')]"

definition normalized_field :: "string \<Rightarrow> string" where
  "normalized_field field = (case map_of field_map (str_lower field) of Some n \<Rightarrow> n | None \<Rightarrow> field)"

text \<open>\<open>field.split(".", 1)\<close> for a field with a dot.\<close>

definition before_dot :: "string \<Rightarrow> string" where
  "before_dot field = takeWhile (\<lambda>c. c \<noteq> CHR ''.'') field"

definition after_dot :: "string \<Rightarrow> string" where
  "after_dot field = drop (length (before_dot field) + 1) field"

text \<open>The value of an enumeration member is its attribute \<open>value\<close>.\<close>

fun enum_value :: "pyval \<Rightarrow> pyval" where
  "enum_value (VObj attrs) = (case map_of attrs ''value'' of Some v \<Rightarrow> v | None \<Rightarrow> VObj attrs)"
| "enum_value v = v"

function get_field_value :: "pyval \<Rightarrow> string \<Rightarrow> pyval" where
  "get_field_value result field =
     (let normalized = normalized_field field in
      case result of
        VDict d \<Rightarrow>
          (case map_of d normalized of Some v \<Rightarrow> v
           | None \<Rightarrow> (case map_of d field of Some v \<Rightarrow> v
             | None \<Rightarrow>
                 if CHR ''.'' \<in> set field then
                   (case map_of d (before_dot field) of
                      Some (VDict d') \<Rightarrow> get_field_value (VDict d') (after_dot field)
                    | _ \<Rightarrow> VNone)
                 else VNone))
      | VObj attrs \<Rightarrow>
          (case map_of attrs normalized of Some v \<Rightarrow> enum_value v
           | None \<Rightarrow> (case map_of attrs field of Some v \<Rightarrow> enum_value v | None \<Rightarrow> VNone))
      | _ \<Rightarrow> VNone)"
  by pat_completeness auto
termination
  by (relation "measure (\<lambda>(r, f). length f)") (auto simp: after_dot_def dest: length_pos_if_in_set)

declare get_field_value.simps [simp del]

section \<open>Comparisons\<close>

definition MAX_REGEX_PATTERN_LENGTH :: nat where
  "MAX_REGEX_PATTERN_LENGTH = 500"

type_synonym regex_engine = "string \<Rightarrow> string \<Rightarrow> bool option"

definition safe_regex_match :: "regex_engine \<Rightarrow> string \<Rightarrow> string \<Rightarrow> bool" where
  "safe_regex_match re pattern txt0 =
     (if length pattern > MAX_REGEX_PATTERN_LENGTH then False
      else (case re pattern txt0 of Some b \<Rightarrow> b | None \<Rightarrow> False))"

fun upper_if_str :: "pyval \<Rightarrow> pyval" where
  "upper_if_str (VStr s) = VStr (str_upper s)"
| "upper_if_str v = v"

definition compare_values ::
  "regex_engine \<Rightarrow> (pyval \<Rightarrow> string) \<Rightarrow> pyval \<Rightarrow> string \<Rightarrow> pyval \<Rightarrow> filter_error + bool" where
  "compare_values re fmt left0 opr right0 =
     (let left = upper_if_str left0; right = upper_if_str right0 in
      if opr = ''='' then Inr (py_eq left right)
      else if opr = ''!='' then Inr (\<not> py_eq left right)
      else if opr = ''>'' then
        (if left = VNone then Inr False
         else res_bind (py_order left right) (\<lambda>(lt, eq). Inr (\<not> lt \<and> \<not> eq)))
      else if opr = ''<'' then
        (if left = VNone then Inr False else res_bind (py_order left right) (\<lambda>(lt, eq). Inr lt))
      else if opr = ''>='' then
        (if left = VNone then Inr False else res_bind (py_order left right) (\<lambda>(lt, eq). Inr (\<not> lt)))
      else if opr = ''<='' then
        (if left = VNone then Inr False else res_bind (py_order left right) (\<lambda>(lt, eq). Inr (lt \<or> eq)))
      else if opr = ''~'' then
        (if left = VNone then Inr False
         else Inr (safe_regex_match re (py_str fmt right) (py_str fmt left)))
      else if opr = ''contains'' then
        (if left = VNone then Inr False
         else Inr (str_contains (str_lower (py_str fmt right)) (str_lower (py_str fmt left))))
      else Inr False)"

definition get_entity_count :: "pyval \<Rightarrow> string \<Rightarrow> pyval" where
  "get_entity_count result entity_type =
     (case get_field_value result ''entity_counts'' of
        VDict d \<Rightarrow>
          (case map_of d entity_type of Some v \<Rightarrow> v
           | None \<Rightarrow> (case map_of d (str_upper entity_type) of Some v \<Rightarrow> v
             | None \<Rightarrow> (case find (\<lambda>(k, v). str_upper k = str_upper entity_type) d of
                 Some (k, v) \<Rightarrow> v | None \<Rightarrow> VInt 0)))
      | _ \<Rightarrow> VInt 0)"

section \<open>Evaluation\<close>

definition field_missing :: "pyval \<Rightarrow> bool" where
  "field_missing v =
     (case v of VNone \<Rightarrow> True | VStr s \<Rightarrow> str_strip s = [] | VList xs \<Rightarrow> xs = [] | VDict d \<Rightarrow> d = []
      | _ \<Rightarrow> False)"

definition eval_function ::
  "regex_engine \<Rightarrow> (pyval \<Rightarrow> string) \<Rightarrow> pyval \<Rightarrow> string \<Rightarrow> string \<Rightarrow> string option \<Rightarrow> fvalue \<Rightarrow> filter_error + bool" where
  "eval_function re fmt result func arg opr value0 =
     (if func = ''has'' then
        res_bind (py_order (get_entity_count result arg) (VInt 0)) (\<lambda>(lt, eq). Inr (\<not> lt \<and> \<not> eq))
      else if func = ''missing'' then Inr (field_missing (get_field_value result arg))
      else if func = ''count'' then
        (case opr of
           Some o' \<Rightarrow> compare_values re fmt (get_entity_count result arg) o' (of_fvalue value0)
         | None \<Rightarrow> Inr False)
      else Inr False)"

fun evaluate :: "nat \<Rightarrow> regex_engine \<Rightarrow> (pyval \<Rightarrow> string) \<Rightarrow> fexpr \<Rightarrow> pyval \<Rightarrow> filter_error + bool" where
  "evaluate 0 re fmt e result = Inl EvaluationTooDeep"
| "evaluate (Suc d) re fmt (BinaryOp l opr r) result =
     res_bind (evaluate d re fmt l result) (\<lambda>left_result.
       if opr = ''AND'' then (if \<not> left_result then Inr False else evaluate d re fmt r result)
       else if opr = ''OR'' then (if left_result then Inr True else evaluate d re fmt r result)
       else Inr False)"
| "evaluate (Suc d) re fmt (UnaryOp opr e) result =
     (if opr = ''NOT'' then res_bind (evaluate d re fmt e result) (\<lambda>b. Inr (\<not> b)) else Inr False)"
| "evaluate (Suc d) re fmt (Comparison field opr v) result =
     compare_values re fmt (get_field_value result field) opr (of_fvalue v)"
| "evaluate (Suc d) re fmt (FunctionCall func arg opr v) result = eval_function re fmt result func arg opr v"

primrec select_results ::
  "nat \<Rightarrow> regex_engine \<Rightarrow> (pyval \<Rightarrow> string) \<Rightarrow> fexpr \<Rightarrow> pyval list \<Rightarrow> filter_error + pyval list" where
  "select_results d re fmt e [] = Inr []"
| "select_results d re fmt e (r # rs) =
     res_bind (evaluate d re fmt e r) (\<lambda>b.
     res_bind (select_results d re fmt e rs) (\<lambda>out. Inr (if b then r # out else out)))"

definition filter_scan_results ::
  "nat \<Rightarrow> regex_engine \<Rightarrow> (pyval \<Rightarrow> string) \<Rightarrow> pyval list \<Rightarrow> string \<Rightarrow> filter_error + pyval list" where
  "filter_scan_results d re fmt results filter_str =
     (case parse_filter d filter_str of
        Inl e \<Rightarrow> Inl (InvalidFilter e)
      | Inr e \<Rightarrow> select_results d re fmt e results)"

text \<open>The message is represented by the error it is made from.\<close>

definition validate_filter :: "nat \<Rightarrow> string \<Rightarrow> parse_error option" where
  "validate_filter d filter_str = (case parse_filter d filter_str of Inr _ \<Rightarrow> None | Inl e \<Rightarrow> Some e)"

section \<open>Filters that cannot fail\<close>

definition orderings :: "string list" where
  "orderings = [''>'', ''<'', ''>='', ''<='']"

text \<open>A value can be ordered against a literal when it is absent, or both are texts, or both are
  numbers; the literal's case does not matter.\<close>

definition orderable :: "pyval \<Rightarrow> pyval \<Rightarrow> bool" where
  "orderable l r \<longleftrightarrow> l = VNone \<or> (\<exists>s t. l = VStr s \<and> r = VStr t) \<or>
     (as_number l \<noteq> None \<and> as_number r \<noteq> None)"

primrec comparable :: "fexpr \<Rightarrow> pyval \<Rightarrow> bool" where
  "comparable (BinaryOp l opr r) x \<longleftrightarrow> comparable l x \<and> comparable r x"
| "comparable (UnaryOp opr e) x \<longleftrightarrow> comparable e x"
| "comparable (Comparison f opr v) x \<longleftrightarrow>
     (opr \<in> set orderings \<longrightarrow> orderable (get_field_value x f) (of_fvalue v))"
| "comparable (FunctionCall f a opr v) x \<longleftrightarrow>
     (f = ''has'' \<longrightarrow> as_number (get_entity_count x a) \<noteq> None) \<and>
     (f = ''count'' \<and> opr \<in> Some ` set orderings \<longrightarrow> orderable (get_entity_count x a) (of_fvalue v))"

lemma upper_if_str_simps [simp]: "upper_if_str l = VNone \<longleftrightarrow> l = VNone" "as_number (upper_if_str l) = as_number l"
  by (cases l; simp)+

lemma py_order_orderable: "orderable l r \<Longrightarrow> l \<noteq> VNone \<Longrightarrow> \<exists>p. py_order (upper_if_str l) (upper_if_str r) = Inr p"
  by (auto simp: orderable_def py_order_def)

lemma compare_values_Inl: "compare_values re fmt l opr r = Inl e \<Longrightarrow>
    opr \<in> set orderings \<and> l \<noteq> VNone \<and> py_order (upper_if_str l) (upper_if_str r) = Inl e"
  by (auto simp: compare_values_def Let_def res_simps orderings_def split: if_splits)

lemma compare_values_returns:
  assumes "opr \<in> set orderings \<longrightarrow> orderable l r"
  shows "\<exists>b. compare_values re fmt l opr r = Inr b"
proof (cases "compare_values re fmt l opr r")
  case (Inl e)
  with compare_values_Inl [OF Inl] py_order_orderable [of l r] assms show ?thesis by auto
qed blast

text \<open>How many nested calls a tree needs: left-associative chains of operators nest on the left.\<close>

primrec height :: "fexpr \<Rightarrow> nat" where
  "height (BinaryOp l opr r) = Suc (max (height l) (height r))"
| "height (UnaryOp opr e) = Suc (height e)"
| "height (Comparison f opr v) = 1"
| "height (FunctionCall f a opr v) = 1"

lemma eval_function_returns:
  assumes "comparable (FunctionCall f a opr v) x"
  shows "\<exists>b. eval_function re fmt x f a opr v = Inr b"
proof (cases "f = ''has''")
  case True
  with assms obtain n where "as_number (get_entity_count x a) = Some n" by auto
  with True show ?thesis by (simp add: eval_function_def py_order_def)
next
  case False
  show ?thesis
  proof (cases "f = ''count'' \<and> opr \<noteq> None")
    case True
    then obtain o' where o': "f = ''count''" "opr = Some o'" by auto
    with assms have "o' \<in> set orderings \<longrightarrow> orderable (get_entity_count x a) (of_fvalue v)" by auto
    from compare_values_returns [OF this] o' show ?thesis by (simp add: eval_function_def)
  qed (use False in \<open>auto simp: eval_function_def\<close>)
qed

text \<open>A filter whose order comparisons meet comparable values never fails when the stack has room for
  its tree, whatever its shape, the regular expressions in it and the engine; in particular a filter
  that uses only \<open>=\<close>, \<open>!=\<close>, \<open>~\<close>, \<open>contains\<close> and \<open>missing\<close> raises no \<open>TypeError\<close>, and an absent
  field fails no comparison.\<close>

theorem evaluate_returns:
  assumes "comparable e x" and "height e \<le> d"
  shows "\<exists>b. evaluate d re fmt e x = Inr b"
  using assms
proof (induction e arbitrary: d)
  case (BinaryOp l opr r)
  then obtain d' where d: "d = Suc d'" by (cases d) auto
  with BinaryOp obtain a b where "evaluate d' re fmt l x = Inr a" "evaluate d' re fmt r x = Inr b" by fastforce
  then show ?case by (auto simp: d)
next
  case (UnaryOp opr e)
  then obtain d' where d: "d = Suc d'" by (cases d) auto
  with UnaryOp obtain b where "evaluate d' re fmt e x = Inr b" by fastforce
  then show ?case by (simp add: d) blast
next
  case (Comparison f opr v)
  then show ?case using compare_values_returns by (cases d) auto
next
  case (FunctionCall f a opr v)
  then show ?case using eval_function_returns [of f a opr v x re fmt] by (cases d) auto
qed

section \<open>What a filter means\<close>

text \<open>The meaning of a filter by connectives, orders on numbers and on upper-cased texts, and
  occurrence; comparing with an absent field is false but for \<open>!=\<close>.\<close>

definition ordering_of :: "string \<Rightarrow> 'a::linorder \<Rightarrow> 'a \<Rightarrow> bool" where
  "ordering_of opr a b \<longleftrightarrow>
     (opr = ''>'' \<and> a > b) \<or> (opr = ''<'' \<and> a < b) \<or> (opr = ''>='' \<and> a \<ge> b) \<or> (opr = ''<='' \<and> a \<le> b)"

definition same_value :: "pyval \<Rightarrow> pyval \<Rightarrow> bool" where
  "same_value l r \<longleftrightarrow> (\<exists>a. as_number l = Some a \<and> as_number r = Some a) \<or>
     (\<exists>s t. l = VStr s \<and> r = VStr t \<and> str_upper s = str_upper t) \<or> (l = VNone \<and> r = VNone)"

definition meets :: "regex_engine \<Rightarrow> (pyval \<Rightarrow> string) \<Rightarrow> string \<Rightarrow> pyval \<Rightarrow> pyval \<Rightarrow> bool" where
  "meets re fmt opr l r \<longleftrightarrow>
     (\<exists>a b. as_number l = Some a \<and> as_number r = Some b \<and> ordering_of opr a b) \<or>
     (\<exists>s t. l = VStr s \<and> r = VStr t \<and> ordering_of opr (str_upper s) (str_upper t)) \<or>
     (opr = ''='' \<and> same_value l r) \<or> (opr = ''!='' \<and> \<not> same_value l r) \<or>
     (l \<noteq> VNone \<and> opr = ''~'' \<and> length (py_str fmt (upper_if_str r)) \<le> 500 \<and>
        re (py_str fmt (upper_if_str r)) (py_str fmt (upper_if_str l)) = Some True) \<or>
     (l \<noteq> VNone \<and> opr = ''contains'' \<and> (\<exists>before behind. str_lower (py_str fmt (upper_if_str l)) =
        before @ str_lower (py_str fmt (upper_if_str r)) @ behind))"

primrec holds :: "regex_engine \<Rightarrow> (pyval \<Rightarrow> string) \<Rightarrow> fexpr \<Rightarrow> pyval \<Rightarrow> bool" where
  "holds re fmt (BinaryOp l opr r) x \<longleftrightarrow>
     (opr = ''AND'' \<and> holds re fmt l x \<and> holds re fmt r x) \<or> (opr = ''OR'' \<and> (holds re fmt l x \<or> holds re fmt r x))"
| "holds re fmt (UnaryOp opr e) x \<longleftrightarrow> opr = ''NOT'' \<and> \<not> holds re fmt e x"
| "holds re fmt (Comparison f opr v) x \<longleftrightarrow> meets re fmt opr (get_field_value x f) (of_fvalue v)"
| "holds re fmt (FunctionCall f a opr v) x \<longleftrightarrow>
     (f = ''has'' \<and> meets re fmt ''>'' (get_entity_count x a) (VInt 0)) \<or>
     (f = ''missing'' \<and> field_missing (get_field_value x a)) \<or>
     (f = ''count'' \<and> (\<exists>o'. opr = Some o' \<and> meets re fmt o' (get_entity_count x a) (of_fvalue v)))"

lemma less_char_code: "(c :: char) < d \<longleftrightarrow> chr_code c < chr_code d"
  by (simp add: less_char_def chr_code_def)

lemma str_less_lexord: "str_less s t \<longleftrightarrow> s < t"
proof (induction s t rule: str_less.induct)
  case (1 ys)
  show ?case by (cases ys) simp_all
qed (auto simp: less_char_code)

lemma str_contains_sublist: "str_contains p s \<longleftrightarrow> (\<exists>before behind. s = before @ p @ behind)"
proof (induction p s rule: str_contains.induct)
  case (2 p c cs)
  have "starts_with (c # cs) p \<longleftrightarrow> (\<exists>behind. c # cs = p @ behind)" by (auto simp: starts_with_iff)
  with "2.IH" show ?case by (auto simp: Cons_eq_append_conv)
qed auto

lemma py_eq_same: "py_eq (upper_if_str l) (upper_if_str r) \<longleftrightarrow> same_value l r"
  by (cases l; cases r) (auto simp: py_eq_def same_value_def split: option.splits)

lemma py_order_meets:
  assumes "orderable l r"
  shows "l = VNone \<or> py_order (upper_if_str l) (upper_if_str r) \<in>
    {Inr (meets re fmt ''<'' l r, meets re fmt ''<='' l r \<and> meets re fmt ''>='' l r)} \<and>
    (meets re fmt ''<='' l r \<longleftrightarrow> meets re fmt ''<'' l r \<or> (meets re fmt ''<='' l r \<and> meets re fmt ''>='' l r)) \<and>
    (meets re fmt ''>='' l r \<longleftrightarrow> \<not> meets re fmt ''<'' l r) \<and> (meets re fmt ''>'' l r \<longleftrightarrow> \<not> meets re fmt ''<='' l r)"
proof (cases "as_number l = None \<or> as_number r = None")
  case True
  then consider "l = VNone" | s t where "l = VStr s" "r = VStr t" using assms by (auto simp: orderable_def)
  then show ?thesis
    by cases (auto simp: py_order_def meets_def ordering_of_def str_less_lexord)
next
  case False
  then obtain a b where "as_number l = Some a" "as_number r = Some b" by auto
  then show ?thesis
    by (cases l; cases r) (auto simp: py_order_def meets_def ordering_of_def)
qed

lemma compare_values_meets:
  assumes "opr \<in> set orderings \<longrightarrow> orderable l r"
  shows "compare_values re fmt l opr r = Inr (meets re fmt opr l r)"
proof -
  have none: "\<not> meets re fmt x VNone r" if "x \<in> set orderings" for x
    using that by (auto simp: meets_def orderings_def ordering_of_def)
  consider (ordering) "opr \<in> set orderings" | (equal) "opr = ''=''" | (differ) "opr = ''!=''" | (regex) "opr = ''~''"
    | (contains) "opr = ''contains''" | (other) "opr \<notin> set orderings \<union> {''='', ''!='', ''~'', ''contains''}" by auto
  then show ?thesis
  proof cases
    case ordering
    with assms none [OF ordering] py_order_meets [of l r re fmt] show ?thesis
      by (cases "l = VNone") (auto simp: compare_values_def orderings_def)
  next
    case equal
    then show ?thesis by (auto simp: compare_values_def meets_def ordering_of_def py_eq_same)
  next
    case differ
    then show ?thesis by (auto simp: compare_values_def meets_def ordering_of_def py_eq_same)
  next
    case regex
    then show ?thesis
      by (auto simp: compare_values_def meets_def ordering_of_def safe_regex_match_def MAX_REGEX_PATTERN_LENGTH_def
          split: option.split)
  next
    case contains
    then show ?thesis by (auto simp: compare_values_def meets_def ordering_of_def str_contains_sublist)
  next
    case other
    then show ?thesis by (auto simp: compare_values_def meets_def ordering_of_def orderings_def)
  qed
qed

lemma evaluate_holds:
  assumes "comparable e x" and "height e \<le> d"
  shows "evaluate d re fmt e x = Inr (holds re fmt e x)"
  using assms
proof (induction e arbitrary: d)
  case (BinaryOp l opr r)
  then obtain d' where d: "d = Suc d'" by (cases d) auto
  with BinaryOp have "evaluate d' re fmt l x = Inr (holds re fmt l x)" "evaluate d' re fmt r x = Inr (holds re fmt r x)"
    by auto
  then show ?case by (simp add: d)
next
  case (UnaryOp opr e)
  then show ?case by (cases d) auto
next
  case (Comparison f opr v)
  then show ?case by (cases d) (simp_all add: compare_values_meets)
next
  case (FunctionCall f a opr v)
  have "res_bind (py_order (get_entity_count x a) (VInt 0)) (\<lambda>(lt, eq). Inr (\<not> lt \<and> \<not> eq)) =
      Inr (meets re fmt ''>'' (get_entity_count x a) (VInt 0))" if "f = ''has''"
  proof -
    obtain n where n: "as_number (get_entity_count x a) = Some n" using FunctionCall.prems(1) \<open>f = ''has''\<close> by auto
    then show ?thesis by (auto simp: py_order_def meets_def ordering_of_def)
  qed
  moreover have "compare_values re fmt (get_entity_count x a) o' (of_fvalue v) =
      Inr (meets re fmt o' (get_entity_count x a) (of_fvalue v))" if "f = ''count''" "opr = Some o'" for o'
    using FunctionCall.prems(1) that by (intro compare_values_meets) auto
  ultimately show ?case using FunctionCall.prems(2)
    by (cases d) (auto simp: eval_function_def split: option.split)
qed

lemma select_results_holds:
  assumes "\<And>r. r \<in> set rs \<Longrightarrow> comparable e r" and "height e \<le> d"
  shows "select_results d re fmt e rs = Inr (filter (holds re fmt e) rs)"
  using assms(1) by (induction rs) (simp_all add: evaluate_holds assms(2))

text \<open>C18: What \<open>filter_scan_results\<close> answers for a filter that is parsed, whose tree the stack has room
  for and whose order comparisons meet comparable values in every result: in their order exactly the
  results for which the filter is true, read by the logical connectives, the orders on numbers and on
  upper-cased texts, equality, occurrence and the entity counts. A text that is no filter is refused
  with the parser's error.\<close>

theorem filter_scan_results_exact:
  assumes "\<And>e r. parse_filter d s = Inr e \<Longrightarrow> r \<in> set rs \<Longrightarrow> comparable e r"
    and "\<And>e. parse_filter d s = Inr e \<Longrightarrow> height e \<le> d"
  shows "filter_scan_results d re fmt rs s =
    (case parse_filter d s of Inl e \<Rightarrow> Inl (InvalidFilter e) | Inr e \<Rightarrow> Inr (filter (holds re fmt e) rs))"
proof (cases "parse_filter d s")
  case (Inr e)
  then have "select_results d re fmt e rs = Inr (filter (holds re fmt e) rs)"
    by (intro select_results_holds assms)
  with Inr show ?thesis by (simp add: filter_scan_results_def)
qed (simp add: filter_scan_results_def)

text \<open>Nothing else can happen but a \<open>TypeError\<close> or a tree too deep for the stack.\<close>

lemma select_results_errors: "select_results d re fmt e rs = Inl x \<Longrightarrow> x \<in> {TypeError, EvaluationTooDeep}"
proof -
  have order: "py_order l r = Inl x \<Longrightarrow> x = TypeError" for l r x
    by (auto simp: py_order_def split: option.splits pyval.splits)
  have cmp: "compare_values re fmt l opr r = Inl x \<Longrightarrow> x = TypeError" for re fmt l opr r x
    by (auto dest!: compare_values_Inl order)
  have ev: "evaluate d re fmt e r = Inl x \<Longrightarrow> x = TypeError \<or> x = EvaluationTooDeep" for d e r x
    by (induction d re fmt e r arbitrary: x rule: evaluate.induct)
      (auto simp: eval_function_def res_simps split: if_splits option.splits dest: order cmp)
  show "select_results d re fmt e rs = Inl x \<Longrightarrow> x \<in> {TypeError, EvaluationTooDeep}"
    by (induction rs arbitrary: x) (auto simp: res_simps dest: ev)
qed

text \<open>A scan result as the command line builds it.\<close>

definition ex_result :: "string \<Rightarrow> int \<Rightarrow> pyval" where
  "ex_result tier score = VDict [(''file_path'', VStr ''/a.txt''), (''risk_tier'', VStr tier),
     (''risk_score'', VInt score), (''entity_counts'', VDict [(''SSN'', VInt 5)])]"

definition no_regex :: regex_engine where
  "no_regex p t = None"

definition plain_fmt :: "pyval \<Rightarrow> string" where
  "plain_fmt v = ''value''"

lemmas field_eval = get_field_value.simps normalized_field_def field_map_def str_lower_def lower_char_def
  is_upper_def chr_code_def

lemma ex_result_fields:
  "get_field_value (ex_result t n) ''score'' = VInt n"
  "get_field_value (ex_result t n) ''tier'' = VStr t"
  "get_field_value (ex_result t n) ''entity_counts'' = VDict [(''SSN'', VInt 5)]"
  by (simp_all add: ex_result_def field_eval)

lemma ex_filter: "parse_filter 10 ''score > 50 AND has(SSN)'' =
    Inr (BinaryOp (Comparison ''score'' ''>'' (FInt 50)) ''AND'' (FunctionCall ''has'' ''SSN'' None FNone))"
  by code_simp

theorem filter_scan_results_exact_witness:
  "filter_scan_results 10 no_regex plain_fmt [ex_result ''HIGH'' 60, ex_result ''LOW'' 40] ''score > 50 AND has(SSN)'' =
    (case parse_filter 10 ''score > 50 AND has(SSN)'' of Inl e \<Rightarrow> Inl (InvalidFilter e)
     | Inr e \<Rightarrow> Inr (filter (holds no_regex plain_fmt e) [ex_result ''HIGH'' 60, ex_result ''LOW'' 40]))"
  by (rule filter_scan_results_exact)
    (auto simp: ex_filter orderable_def ex_result_fields get_entity_count_def)

theorem evaluate_returns_witness:
  "\<exists>b. evaluate 2 no_regex plain_fmt (BinaryOp (Comparison ''score'' ''>'' (FInt 50)) ''AND''
      (FunctionCall ''has'' ''SSN'' None FNone)) (ex_result ''HIGH'' 60) = Inr b"
  by (rule evaluate_returns)
    (simp_all add: orderable_def ex_result_fields get_entity_count_def)

text \<open>Order comparisons on the tier are alphabetical. Of the five tiers, \<open>tier >= HIGH\<close>
  selects HIGH, MEDIUM, MINIMAL and LOW, and drops CRITICAL, the only one above HIGH.\<close>

theorem tier_order_alphabetical:
  "select_results 1 re fmt (Comparison ''tier'' ''>='' (FStr ''HIGH''))
      (map (\<lambda>t. ex_result t 50) [''CRITICAL'', ''HIGH'', ''MEDIUM'', ''LOW'', ''MINIMAL'']) =
    Inr (map (\<lambda>t. ex_result t 50) [''HIGH'', ''MEDIUM'', ''LOW'', ''MINIMAL''])"
  by (simp add: ex_result_fields compare_values_def py_order_def str_upper_def upper_char_def is_lower_def
      chr_code_def)

lemma upper_digit_class: "str_upper [CHR 0x5C, CHR ''d''] = [CHR 0x5C, CHR ''D'']" "str_upper ''7'' = ''7''"
  by code_simp+

text \<open>The pattern of \<open>~\<close> is upper-cased before it is compiled, which turns a character class
  into its complement: \<open>\d\<close> becomes \<open>\D\<close>. With any engine that knows the two classes, asking
  for a digit in a name that consists of one digit answers no.\<close>

theorem regex_class_complemented:
  assumes "re [CHR 0x5C, CHR ''d''] ''7'' = Some True" and "re [CHR 0x5C, CHR ''D''] ''7'' = Some False"
  shows "evaluate 1 re fmt (Comparison ''note'' ''~'' (FStr [CHR 0x5C, CHR ''d''])) (VDict [(''note'', VStr ''7'')]) =
    Inr False"
  using assms
  by (simp add: compare_values_def field_eval safe_regex_match_def MAX_REGEX_PATTERN_LENGTH_def upper_digit_class)

definition digit_regex :: regex_engine where
  "digit_regex p t =
     (if p = [CHR 0x5C, CHR ''d''] then Some (list_ex is_digit t)
      else if p = [CHR 0x5C, CHR ''D''] then Some (list_ex (\<lambda>c. \<not> is_digit c) t) else None)"

theorem regex_class_complemented_witness:
  "evaluate 1 digit_regex plain_fmt (Comparison ''note'' ''~'' (FStr [CHR 0x5C, CHR ''d'']))
    (VDict [(''note'', VStr ''7'')]) = Inr False"
  by (rule regex_class_complemented) (simp_all add: digit_regex_def is_digit_def chr_code_def)

end
