(* ===== verification/Job_Queue.thy ===== *)
theory Job_Queue
  imports OL_Prelude Entity_Types
begin

text \<open>
  The job queue, \<^verbatim>\<open>src/openlabels/jobs/queue.py\<close>, class \<open>JobQueue\<close> and \<open>dequeue_next_job\<close>,
  over the table \<open>job_queue\<close> of \<^verbatim>\<open>src/openlabels/server/models.py\<close>.

  The database session is a parameter \<open>db\<close>, a record of the operations the code calls:
  the rows a \<open>SELECT\<close> reads, \<open>get\<close> by primary key, \<open>add\<close> and \<open>flush\<close> of a new row, the
  flush of a changed row, bulk \<open>UPDATE\<close> and \<open>DELETE\<close> with their row counts. \<open>WHERE\<close>,
  \<open>ORDER BY\<close> and \<open>LIMIT\<close> of a query are written out over the rows. What the session promises
  is the locale \<open>job_session\<close>. Times are real numbers of seconds and every method takes the
  present time \<open>now\<close>; \<open>locked\<close> are the rows that another transaction holds and
  \<open>SKIP LOCKED\<close> passes over. Metrics and log messages are left out. Callbacks are parameters that act
  on the session; an exception in one is caught, so a callback always returns.
\<close>

section \<open>Rows\<close>

type_synonym uuid = nat
type_synonym time = real

record job =
  jid :: uuid
  tenant_id :: uuid
  task_type :: string
  payload :: string
  priority :: int
  status :: job_status
  scheduled_for :: "time option"
  started_at :: "time option"
  completed_at :: "time option"
  worker_id :: "string option"
  job_result :: "string option"
  job_error :: "string option"
  retry_count :: nat
  max_retries :: nat
  created_at :: time

record 's job_db =
  db_rows :: "'s \<Rightarrow> job list"
  db_get :: "'s \<Rightarrow> uuid \<Rightarrow> job option"
  db_add :: "job \<Rightarrow> 's \<Rightarrow> 's"
  db_save :: "job \<Rightarrow> 's \<Rightarrow> 's"
  db_update :: "(job \<Rightarrow> bool) \<Rightarrow> (job \<Rightarrow> job) \<Rightarrow> 's \<Rightarrow> 's \<times> nat"
  db_delete :: "(job \<Rightarrow> bool) \<Rightarrow> 's \<Rightarrow> 's \<times> nat"

type_synonym 's callback = "(job \<Rightarrow> 's \<Rightarrow> 's) option"

definition fire :: "'s callback \<Rightarrow> job \<Rightarrow> 's \<Rightarrow> 's" where
  "fire cb j s = (case cb of Some f \<Rightarrow> f j s | None \<Rightarrow> s)"

text \<open>SQL comparisons with \<open>NULL\<close> are not true.\<close>

definition sql_less :: "time option \<Rightarrow> time \<Rightarrow> bool" where
  "sql_less t cutoff = (case t of Some x \<Rightarrow> x < cutoff | None \<Rightarrow> False)"

definition days :: "int \<Rightarrow> time" where
  "days n = 86400 * of_int n"

section \<open>Operations\<close>

definition BASE_RETRY_DELAY_SECONDS :: int where "BASE_RETRY_DELAY_SECONDS = 2"
definition MAX_RETRY_DELAY_SECONDS :: int where "MAX_RETRY_DELAY_SECONDS = 3600"
definition DEFAULT_JOB_TIMEOUT_SECONDS :: int where "DEFAULT_JOB_TIMEOUT_SECONDS = 3600"

definition calculate_retry_delay :: "nat \<Rightarrow> int" where
  "calculate_retry_delay n = min (BASE_RETRY_DELAY_SECONDS * 2 ^ n) MAX_RETRY_DELAY_SECONDS"

definition enqueue :: "'s job_db \<Rightarrow> uuid \<Rightarrow> uuid \<Rightarrow> time \<Rightarrow> string \<Rightarrow> string \<Rightarrow> int \<Rightarrow> time option \<Rightarrow> 's \<Rightarrow> uuid \<times> 's" where
  "enqueue db tenant new_id now task load prio sched s =
     (new_id, db_add db \<lparr>jid = new_id, tenant_id = tenant, task_type = task, payload = load, priority = prio,
        status = JS_PENDING, scheduled_for = sched, started_at = None, completed_at = None, worker_id = None,
        job_result = None, job_error = None, retry_count = 0, max_retries = 3, created_at = now\<rparr> s)"

definition count_status :: "'s job_db \<Rightarrow> uuid \<Rightarrow> job_status \<Rightarrow> 's \<Rightarrow> nat" where
  "count_status db tenant st s = length (filter (\<lambda>j. tenant_id j = tenant \<and> status j = st) (db_rows db s))"

definition get_pending_count :: "'s job_db \<Rightarrow> uuid \<Rightarrow> 's \<Rightarrow> nat" where
  "get_pending_count db tenant s = count_status db tenant JS_PENDING s"

definition get_running_count :: "'s job_db \<Rightarrow> uuid \<Rightarrow> 's \<Rightarrow> nat" where
  "get_running_count db tenant s = count_status db tenant JS_RUNNING s"

definition due :: "time \<Rightarrow> job \<Rightarrow> bool" where
  "due now j \<longleftrightarrow> status j = JS_PENDING \<and> (case scheduled_for j of None \<Rightarrow> True | Some t \<Rightarrow> t \<le> now)"

definition queue_order :: "job \<Rightarrow> int \<times> time" where
  "queue_order j = (- priority j, created_at j)"

text \<open>\<open>SELECT ... WHERE ok ORDER BY priority DESC, created_at ASC LIMIT 1 FOR UPDATE SKIP LOCKED\<close>
  and the claim of the row it answers.\<close>

definition claim_first ::
  "'s job_db \<Rightarrow> (uuid \<Rightarrow> bool) \<Rightarrow> (job \<Rightarrow> bool) \<Rightarrow> string \<Rightarrow> time \<Rightarrow> 's \<Rightarrow> job option \<times> 's" where
  "claim_first db locked ok worker now s =
     (case sort_key queue_order (filter (\<lambda>j. ok j \<and> \<not> locked (jid j)) (db_rows db s)) of
        [] \<Rightarrow> (None, s)
      | j # _ \<Rightarrow>
          (let j' = j\<lparr>status := JS_RUNNING, worker_id := Some worker, started_at := Some now\<rparr>
           in (Some j', db_save db j' s)))"

definition dequeue ::
  "'s job_db \<Rightarrow> (uuid \<Rightarrow> bool) \<Rightarrow> uuid \<Rightarrow> string \<Rightarrow> nat option \<Rightarrow> time \<Rightarrow> 's \<Rightarrow> job option \<times> 's" where
  "dequeue db locked tenant worker max_concurrent now s =
     (if (case max_concurrent of Some m \<Rightarrow> get_running_count db tenant s \<ge> m | None \<Rightarrow> False) then (None, s)
      else claim_first db locked (\<lambda>j. tenant_id j = tenant \<and> due now j) worker now s)"

definition dequeue_next_job ::
  "'s job_db \<Rightarrow> (uuid \<Rightarrow> bool) \<Rightarrow> string \<Rightarrow> time \<Rightarrow> 's \<Rightarrow> job option \<times> 's" where
  "dequeue_next_job db locked worker now s = claim_first db locked (due now) worker now s"

definition complete :: "'s job_db \<Rightarrow> 's callback \<Rightarrow> time \<Rightarrow> uuid \<Rightarrow> string option \<Rightarrow> 's \<Rightarrow> 's" where
  "complete db on_complete now i res s =
     (let j = db_get db s i;
          s' = fst (db_update db (\<lambda>k. jid k = i)
            (\<lambda>k. k\<lparr>status := JS_COMPLETED, completed_at := Some now, job_result := res\<rparr>) s)
      in case j of Some j' \<Rightarrow> fire on_complete j' s' | None \<Rightarrow> s')"

text \<open>The change of a row by \<open>fail\<close>.\<close>

definition fail_row :: "time \<Rightarrow> string \<Rightarrow> bool \<Rightarrow> job \<Rightarrow> job" where
  "fail_row now err retry j =
     (if retry \<and> retry_count j < max_retries j then
        j\<lparr>status := JS_PENDING, retry_count := retry_count j + 1, worker_id := None, started_at := None,
          job_error := Some err, scheduled_for := Some (now + of_int (calculate_retry_delay (retry_count j)))\<rparr>
      else j\<lparr>status := JS_FAILED, completed_at := Some now, job_error := Some err\<rparr>)"

definition fail :: "'s job_db \<Rightarrow> 's callback \<Rightarrow> time \<Rightarrow> uuid \<Rightarrow> string \<Rightarrow> bool \<Rightarrow> 's \<Rightarrow> 's" where
  "fail db on_failed now i err retry s =
     (case db_get db s i of
        None \<Rightarrow> s
      | Some j \<Rightarrow>
          (let j' = fail_row now err retry j; s' = db_save db j' s
           in if status j' = JS_FAILED then fire on_failed j' s' else s'))"

definition get_job :: "'s job_db \<Rightarrow> uuid \<Rightarrow> 's \<Rightarrow> job option" where
  "get_job db i s = db_get db s i"

definition cancel :: "'s job_db \<Rightarrow> time \<Rightarrow> uuid \<Rightarrow> 's \<Rightarrow> bool \<times> 's" where
  "cancel db now i s =
     (case db_get db s i of
        None \<Rightarrow> (False, s)
      | Some j \<Rightarrow>
          if status j \<notin> {JS_PENDING, JS_RUNNING} then (False, s)
          else (True, db_save db (j\<lparr>status := JS_CANCELLED, completed_at := Some now\<rparr>) s))"

text \<open>The dead letter queue. A task type that is missing or empty does not restrict.\<close>

definition failed_of :: "uuid \<Rightarrow> string option \<Rightarrow> job \<Rightarrow> bool" where
  "failed_of tenant task j \<longleftrightarrow> tenant_id j = tenant \<and> status j = JS_FAILED \<and>
     (case task of Some t \<Rightarrow> t = [] \<or> task_type j = t | None \<Rightarrow> True)"

definition completed_desc :: "job \<Rightarrow> nat \<times> time" where
  "completed_desc j = (case completed_at j of None \<Rightarrow> (0, 0) | Some t \<Rightarrow> (1, - t))"

definition get_failed_jobs :: "'s job_db \<Rightarrow> uuid \<Rightarrow> string option \<Rightarrow> nat \<Rightarrow> nat \<Rightarrow> 's \<Rightarrow> job list" where
  "get_failed_jobs db tenant task limit offset s =
     take limit (drop offset (sort_key completed_desc (filter (failed_of tenant task) (db_rows db s))))"

definition get_failed_count :: "'s job_db \<Rightarrow> uuid \<Rightarrow> string option \<Rightarrow> 's \<Rightarrow> nat" where
  "get_failed_count db tenant task s = length (filter (failed_of tenant task) (db_rows db s))"

definition requeue_row :: "bool \<Rightarrow> job \<Rightarrow> job" where
  "requeue_row reset j =
     (let j' = j\<lparr>status := JS_PENDING, worker_id := None, started_at := None, completed_at := None,
        scheduled_for := None, job_error := None\<rparr>
      in if reset then j'\<lparr>retry_count := 0\<rparr> else j')"

definition requeue_failed :: "'s job_db \<Rightarrow> uuid \<Rightarrow> uuid \<Rightarrow> bool \<Rightarrow> 's \<Rightarrow> bool \<times> 's" where
  "requeue_failed db tenant i reset s =
     (case db_get db s i of
        None \<Rightarrow> (False, s)
      | Some j \<Rightarrow>
          if status j \<noteq> JS_FAILED then (False, s)
          else if tenant_id j \<noteq> tenant then (False, s)
          else (True, db_save db (requeue_row reset j) s))"

definition requeue_all_failed :: "'s job_db \<Rightarrow> uuid \<Rightarrow> string option \<Rightarrow> bool \<Rightarrow> 's \<Rightarrow> 's \<times> nat" where
  "requeue_all_failed db tenant task reset s = db_update db (failed_of tenant task) (requeue_row reset) s"

definition purge_failed :: "'s job_db \<Rightarrow> uuid \<Rightarrow> time \<Rightarrow> string option \<Rightarrow> int option \<Rightarrow> 's \<Rightarrow> 's \<times> nat" where
  "purge_failed db tenant now task older_than_days s =
     db_delete db (\<lambda>j. failed_of tenant task j \<and>
       (case older_than_days of
          Some d \<Rightarrow> d = 0 \<or> sql_less (completed_at j) (now - days d) | None \<Rightarrow> True)) s"

definition get_queue_stats :: "'s job_db \<Rightarrow> uuid \<Rightarrow> 's \<Rightarrow> (job_status \<Rightarrow> nat) \<times> (string \<Rightarrow> nat)" where
  "get_queue_stats db tenant s =
     (\<lambda>st. count_status db tenant st s,
      \<lambda>task. length (filter (\<lambda>j. tenant_id j = tenant \<and> status j = JS_FAILED \<and> task_type j = task) (db_rows db s)))"

text \<open>Recovery of jobs whose worker died.\<close>

definition stuck :: "uuid \<Rightarrow> time \<Rightarrow> int \<Rightarrow> job \<Rightarrow> bool" where
  "stuck tenant now timeout_seconds j \<longleftrightarrow> tenant_id j = tenant \<and> status j = JS_RUNNING \<and>
     sql_less (started_at j) (now - of_int timeout_seconds)"

definition reclaim_row :: "time \<Rightarrow> string \<Rightarrow> job \<Rightarrow> job" where
  "reclaim_row now err j =
     (let j' = j\<lparr>status := JS_PENDING, retry_count := retry_count j + 1, worker_id := None, started_at := None,
        job_error := Some err\<rparr>
      in if retry_count j' \<ge> max_retries j' then j'\<lparr>status := JS_FAILED, completed_at := Some now\<rparr> else j')"

definition stuck_error :: "(int \<Rightarrow> string) \<Rightarrow> int \<Rightarrow> string" where
  "stuck_error show_int timeout_seconds =
     ''Reclaimed: job was stuck (running for >'' @ show_int timeout_seconds @ ''s)''"

definition reclaim_stuck_jobs ::
  "'s job_db \<Rightarrow> (uuid \<Rightarrow> bool) \<Rightarrow> (int \<Rightarrow> string) \<Rightarrow> uuid \<Rightarrow> time \<Rightarrow> int \<Rightarrow> 's \<Rightarrow> nat \<times> 's" where
  "reclaim_stuck_jobs db locked show_int tenant now timeout_seconds s =
     (let stuck_jobs = take 1000 (filter (\<lambda>j. stuck tenant now timeout_seconds j \<and> \<not> locked (jid j)) (db_rows db s))
      in (length stuck_jobs,
          fold (\<lambda>j. db_save db (reclaim_row now (stuck_error show_int timeout_seconds) j)) stuck_jobs s))"

definition get_stuck_jobs_count :: "'s job_db \<Rightarrow> uuid \<Rightarrow> time \<Rightarrow> int \<Rightarrow> 's \<Rightarrow> nat" where
  "get_stuck_jobs_count db tenant now timeout_seconds s =
     length (filter (stuck tenant now timeout_seconds) (db_rows db s))"

text \<open>Expiry. \<open>settings\<close> are the two configured numbers of days, if the configuration loads.\<close>

definition or_default :: "int option \<Rightarrow> int \<Rightarrow> int" where
  "or_default x d = (case x of Some n \<Rightarrow> if n = 0 then d else n | None \<Rightarrow> d)"

definition expired :: "uuid \<Rightarrow> job_status \<Rightarrow> time \<Rightarrow> job \<Rightarrow> bool" where
  "expired tenant st cutoff j \<longleftrightarrow> tenant_id j = tenant \<and> status j = st \<and> sql_less (completed_at j) cutoff"

definition cleanup_expired_jobs ::
  "'s job_db \<Rightarrow> (int \<times> int) option \<Rightarrow> uuid \<Rightarrow> time \<Rightarrow> int option \<Rightarrow> int option \<Rightarrow> 's \<Rightarrow> 's \<times> nat \<times> nat \<times> nat" where
  "cleanup_expired_jobs db settings tenant now completed_ttl failed_ttl s =
     (let (cdef, fdef) = (case settings of Some p \<Rightarrow> p | None \<Rightarrow> (7, 30));
          completed_cutoff = now - days (or_default completed_ttl cdef);
          failed_cutoff = now - days (or_default failed_ttl fdef);
          (s1, n1) = db_delete db (expired tenant JS_COMPLETED completed_cutoff) s;
          (s2, n2) = db_delete db (expired tenant JS_CANCELLED completed_cutoff) s1;
          (s3, n3) = db_delete db (expired tenant JS_FAILED failed_cutoff) s2
      in (s3, n1, n2, n3))"

definition get_stale_pending_jobs :: "'s job_db \<Rightarrow> int option \<Rightarrow> uuid \<Rightarrow> time \<Rightarrow> int option \<Rightarrow> 's \<Rightarrow> job list" where
  "get_stale_pending_jobs db settings tenant now max_age_hours s =
     (let hours = or_default max_age_hours (case settings of Some h \<Rightarrow> h | None \<Rightarrow> 24);
          cutoff = now - 3600 * of_int hours
      in take 10000 (sort_key created_at
           (filter (\<lambda>j. tenant_id j = tenant \<and> status j = JS_PENDING \<and> created_at j < cutoff) (db_rows db s))))"

section \<open>What the session promises\<close>

text \<open>The primary key is unique, \<open>get\<close> finds the row of a key, and the writes change the rows
  they name and no others. The order in which rows come is not promised.\<close>

locale job_session =
  fixes db :: "'s job_db"
  assumes rows_distinct: "distinct (map jid (db_rows db s))"
    and get_row: "db_get db s i = Some j \<longleftrightarrow> j \<in> set (db_rows db s) \<and> jid j = i"
    and add_rows: "jid j \<notin> jid ` set (db_rows db s) \<Longrightarrow>
      set (db_rows db (db_add db j s)) = insert j (set (db_rows db s))"
    and save_rows: "jid j \<in> jid ` set (db_rows db s) \<Longrightarrow>
      set (db_rows db (db_save db j s)) = insert j {k \<in> set (db_rows db s). jid k \<noteq> jid j}"
    and update_rows: "(\<And>k. jid (f k) = jid k) \<Longrightarrow>
      set (db_rows db (fst (db_update db P f s))) = (\<lambda>k. if P k then f k else k) ` set (db_rows db s)"
    and update_count: "snd (db_update db P f s) = card {k \<in> set (db_rows db s). P k}"
    and delete_rows: "set (db_rows db (fst (db_delete db P s))) = {k \<in> set (db_rows db s). \<not> P k}"
    and delete_count: "snd (db_delete db P s) = card {k \<in> set (db_rows db s). P k}"
begin

abbreviation rows :: "'s \<Rightarrow> job set" where
  "rows s \<equiv> set (db_rows db s)"

lemma row_unique: "j \<in> rows s \<Longrightarrow> k \<in> rows s \<Longrightarrow> jid j = jid k \<Longrightarrow> j = k"
  using rows_distinct [of s] by (auto simp: distinct_map inj_on_def)

lemma get_own: "j \<in> rows s \<Longrightarrow> db_get db s (jid j) = Some j"
  by (simp add: get_row)

lemma get_None: "db_get db s i = None \<longleftrightarrow> i \<notin> jid ` rows s"
  by (metis (no_types, lifting) get_row image_iff not_None_eq)

lemma save_row:
  assumes "j \<in> rows s" and "jid j' = jid j"
  shows "rows (db_save db j' s) = insert j' (rows s - {j})"
proof -
  have "{k \<in> rows s. jid k \<noteq> jid j'} = rows s - {j}"
    using assms row_unique by auto
  then show ?thesis
    using save_rows [of j' s] assms by force
qed

lemma get_saved: "j \<in> rows s \<Longrightarrow> jid j' = jid j \<Longrightarrow> db_get db (db_save db j' s) (jid j) = Some j'"
  using get_row [of "db_save db j' s" "jid j" j'] by (simp add: save_row)

lemma get_saved_other:
  assumes "j \<in> rows s" and "jid j' = jid j" and "i \<noteq> jid j"
  shows "db_get db (db_save db j' s) i = db_get db s i"
proof -
  have "db_get db (db_save db j' s) i = Some k \<longleftrightarrow> db_get db s i = Some k" for k
    using assms by (auto simp: get_row save_row)
  then show ?thesis
    by (cases "db_get db s i"; cases "db_get db (db_save db j' s) i") auto
qed

text \<open>A property of single rows that the changed row has is kept.\<close>

lemma save_all:
  "\<forall>k \<in> rows s. P k \<Longrightarrow> j \<in> rows s \<Longrightarrow> jid j' = jid j \<Longrightarrow> P j' \<Longrightarrow> \<forall>k \<in> rows (db_save db j' s). P k"
  by (simp add: save_row)

lemma update_all:
  assumes "\<forall>k \<in> rows s. P k" and "\<And>k. jid (f k) = jid k" and "\<And>k. P k \<Longrightarrow> Q k \<Longrightarrow> P (f k)"
  shows "\<forall>k \<in> rows (fst (db_update db Q f s)). P k"
  using assms by (auto simp: update_rows)

lemma delete_all: "\<forall>k \<in> rows s. P k \<Longrightarrow> \<forall>k \<in> rows (fst (db_delete db Q s)). P k"
  by (simp add: delete_rows)

lemma claim_all:
  assumes "\<forall>k \<in> rows s. P k"
    and "\<And>k. P k \<Longrightarrow> ok k \<Longrightarrow> P (k\<lparr>status := JS_RUNNING, worker_id := Some worker, started_at := Some now\<rparr>)"
  shows "\<forall>k \<in> rows (snd (claim_first db locked ok worker now s)). P k"
proof (cases "sort_key queue_order (filter (\<lambda>j. ok j \<and> \<not> locked (jid j)) (db_rows db s))")
  case Nil
  with assms show ?thesis by (simp add: claim_first_def)
next
  case (Cons j js)
  then have "j \<in> set (sort_key queue_order (filter (\<lambda>j. ok j \<and> \<not> locked (jid j)) (db_rows db s)))" by simp
  then have j: "j \<in> rows s" "ok j" by auto
  let ?c = "j\<lparr>status := JS_RUNNING, worker_id := Some worker, started_at := Some now\<rparr>"
  have "\<forall>k \<in> rows (db_save db ?c s). P k"
    using assms j by (intro save_all [OF assms(1) j(1)]) simp_all
  with Cons show ?thesis by (simp only: claim_first_def Let_def list.case snd_conv)
qed

lemma fold_save_all:
  assumes "\<forall>k \<in> rows s. P k" and "set js \<subseteq> rows s" and "distinct (map jid js)"
    and "\<And>j. jid (f j) = jid j" and "\<And>j. j \<in> set js \<Longrightarrow> P (f j)"
  shows "\<forall>k \<in> rows (fold (\<lambda>j. db_save db (f j)) js s). P k"
  using assms
proof (induction js arbitrary: s)
  case (Cons j js)
  then have "j \<in> rows s" by simp
  moreover have "set js \<subseteq> rows (db_save db (f j) s)"
    using Cons.prems \<open>j \<in> rows s\<close> by (auto simp: save_row)
  ultimately have "\<forall>k \<in> rows (fold (\<lambda>j. db_save db (f j)) js (db_save db (f j) s)). P k"
    using Cons.prems by (intro Cons.IH save_all [OF Cons.prems(1)]) auto
  then show ?case by simp
qed simp

end

section \<open>A table\<close>

text \<open>A session over a list of rows, of which the first of each key counts.\<close>

fun table_rows :: "job list \<Rightarrow> job list" where
  "table_rows [] = []"
| "table_rows (j # js) = j # filter (\<lambda>k. jid k \<noteq> jid j) (table_rows js)"

definition table_db :: "job list job_db" where
  "table_db = \<lparr>db_rows = table_rows,
     db_get = (\<lambda>s i. find (\<lambda>j. jid j = i) (table_rows s)),
     db_add = (\<lambda>j s. s @ [j]),
     db_save = (\<lambda>j s. map (\<lambda>k. if jid k = jid j then j else k) (table_rows s)),
     db_update = (\<lambda>P f s. (map (\<lambda>k. if P k then f k else k) (table_rows s), length (filter P (table_rows s)))),
     db_delete = (\<lambda>P s. (filter (\<lambda>k. \<not> P k) (table_rows s), length (filter P (table_rows s))))\<rparr>"

lemma distinct_table_rows: "distinct (map jid (table_rows s))"
  by (induction s) (auto simp: distinct_map inj_on_def)

lemma table_rows_id: "distinct (map jid s) \<Longrightarrow> table_rows s = s"
proof (induction s)
  case (Cons j s)
  then have "jid j \<notin> jid ` set s" by simp
  then have "\<forall>k \<in> set s. jid k \<noteq> jid j" by (metis image_eqI)
  then have "filter (\<lambda>k. jid k \<noteq> jid j) s = s" by (simp add: filter_id_conv)
  with Cons show ?case by simp
qed simp

lemma set_table_rows_append:
  "set (table_rows (s @ [j])) = set (table_rows s) \<union> (if jid j \<in> jid ` set (table_rows s) then {} else {j})"
  by (induction s) auto

lemma table_rows_map:
  assumes "\<And>k. P k \<Longrightarrow> jid (f k) = jid k"
  shows "table_rows (map (\<lambda>k. if P k then f k else k) (table_rows s)) = map (\<lambda>k. if P k then f k else k) (table_rows s)"
proof (rule table_rows_id)
  have "map jid (map (\<lambda>k. if P k then f k else k) (table_rows s)) = map jid (table_rows s)"
    using assms by (simp add: map_eq_conv)
  then show "distinct (map jid (map (\<lambda>k. if P k then f k else k) (table_rows s)))"
    using distinct_table_rows [of s] by (simp only:)
qed

lemma table_rows_filter: "table_rows (filter P (table_rows s)) = filter P (table_rows s)"
  using distinct_table_rows [of s] by (intro table_rows_id distinct_map_filter)

interpretation table: job_session table_db
proof
  fix s :: "job list" and i j and P :: "job \<Rightarrow> bool" and f
  show "distinct (map jid (db_rows table_db s))"
    by (simp add: table_db_def distinct_table_rows)
  show "db_get table_db s i = Some j \<longleftrightarrow> j \<in> set (db_rows table_db s) \<and> jid j = i"
  proof
    assume "db_get table_db s i = Some j"
    then show "j \<in> set (db_rows table_db s) \<and> jid j = i"
      by (auto simp: table_db_def find_Some_iff)
  next
    assume j: "j \<in> set (db_rows table_db s) \<and> jid j = i"
    then obtain k where k: "find (\<lambda>j. jid j = i) (table_rows s) = Some k"
      by (cases "find (\<lambda>j. jid j = i) (table_rows s)") (auto simp: table_db_def find_None_iff)
    then have "k \<in> set (table_rows s)" "jid k = i" by (auto simp: find_Some_iff)
    with j k distinct_table_rows [of s] show "db_get table_db s i = Some j"
      by (auto simp: table_db_def distinct_map inj_on_def)
  qed
  show "jid j \<notin> jid ` set (db_rows table_db s) \<Longrightarrow>
      set (db_rows table_db (db_add table_db j s)) = insert j (set (db_rows table_db s))"
    by (simp add: table_db_def set_table_rows_append)
  show "jid j \<in> jid ` set (db_rows table_db s) \<Longrightarrow>
      set (db_rows table_db (db_save table_db j s)) = insert j {k \<in> set (db_rows table_db s). jid k \<noteq> jid j}"
    using table_rows_map [of "\<lambda>k. jid k = jid j" "\<lambda>_. j" s] by (auto simp: table_db_def)
  show "(\<And>k. jid (f k) = jid k) \<Longrightarrow> set (db_rows table_db (fst (db_update table_db P f s))) =
      (\<lambda>k. if P k then f k else k) ` set (db_rows table_db s)"
    by (simp add: table_db_def table_rows_map)
  show "set (db_rows table_db (fst (db_delete table_db P s))) = {k \<in> set (db_rows table_db s). \<not> P k}"
    by (simp add: table_db_def table_rows_filter)
  have card: "length (filter P (table_rows s)) = card {k \<in> set (table_rows s). P k}"
    using distinct_table_rows [of s] by (simp add: distinct_map distinct_length_filter Int_def conj_commute)
  show "snd (db_update table_db P f s) = card {k \<in> set (db_rows table_db s). P k}"
    and "snd (db_delete table_db P s) = card {k \<in> set (db_rows table_db s). P k}"
    by (simp_all add: table_db_def card)
qed

section \<open>Well-formed rows\<close>

text \<open>Which columns are set in which status.\<close>

definition job_ok :: "job \<Rightarrow> bool" where
  "job_ok j \<longleftrightarrow>
     (case status j of
        JS_PENDING \<Rightarrow> worker_id j = None \<and> started_at j = None
      | JS_RUNNING \<Rightarrow> worker_id j \<noteq> None \<and> started_at j \<noteq> None
      | _ \<Rightarrow> completed_at j \<noteq> None)"

datatype job_op =
    Enqueue uuid uuid time string string int "time option"
  | Dequeue "uuid \<Rightarrow> bool" uuid string "nat option" time
  | DequeueNext "uuid \<Rightarrow> bool" string time
  | Complete time uuid "string option"
  | Fail time uuid string bool
  | Cancel time uuid
  | Requeue uuid uuid bool
  | RequeueAll uuid "string option" bool
  | Purge uuid time "string option" "int option"
  | Reclaim "uuid \<Rightarrow> bool" "int \<Rightarrow> string" uuid time int
  | Cleanup "(int \<times> int) option" uuid time "int option" "int option"

text \<open>A new id is a fresh \<open>uuid4\<close>: an \<open>Enqueue\<close> with a used one is not a step.\<close>

fun job_step :: "'s job_db \<Rightarrow> 's callback \<Rightarrow> 's callback \<Rightarrow> job_op \<Rightarrow> 's \<Rightarrow> 's" where
  "job_step db cb_done cb_failed (Enqueue tenant i now task load prio sched) s =
     (if i \<in> jid ` set (db_rows db s) then s else snd (enqueue db tenant i now task load prio sched s))"
| "job_step db cb_done cb_failed (Dequeue locked tenant worker m now) s = snd (dequeue db locked tenant worker m now s)"
| "job_step db cb_done cb_failed (DequeueNext locked worker now) s = snd (dequeue_next_job db locked worker now s)"
| "job_step db cb_done cb_failed (Complete now i res) s = complete db cb_done now i res s"
| "job_step db cb_done cb_failed (Fail now i err retry) s = fail db cb_failed now i err retry s"
| "job_step db cb_done cb_failed (Cancel now i) s = snd (cancel db now i s)"
| "job_step db cb_done cb_failed (Requeue tenant i reset) s = snd (requeue_failed db tenant i reset s)"
| "job_step db cb_done cb_failed (RequeueAll tenant task reset) s = fst (requeue_all_failed db tenant task reset s)"
| "job_step db cb_done cb_failed (Purge tenant now task d) s = fst (purge_failed db tenant now task d s)"
| "job_step db cb_done cb_failed (Reclaim locked sh tenant now t) s = snd (reclaim_stuck_jobs db locked sh tenant now t s)"
| "job_step db cb_done cb_failed (Cleanup settings tenant now c f) s = fst (cleanup_expired_jobs db settings tenant now c f s)"

definition jobs_ok :: "'s job_db \<Rightarrow> 's \<Rightarrow> bool" where
  "jobs_ok db s \<longleftrightarrow> (\<forall>j \<in> set (db_rows db s). job_ok j)"

lemma fail_row_ok: "job_ok j \<Longrightarrow> job_ok (fail_row now err retry j)" "jid (fail_row now err retry j) = jid j"
  by (auto simp: fail_row_def job_ok_def)

lemma requeue_row_ok: "job_ok (requeue_row reset j)" "jid (requeue_row reset j) = jid j"
  by (auto simp: requeue_row_def job_ok_def Let_def)

lemma reclaim_row_ok: "job_ok (reclaim_row now err j)" "jid (reclaim_row now err j) = jid j"
  by (auto simp: reclaim_row_def job_ok_def Let_def)

text \<open>A queue whose callbacks leave the rows well-formed.\<close>

locale job_queue = job_session db for db :: "'s job_db" +
  fixes cb_done cb_failed :: "'s callback"
  assumes done_keeps: "jobs_ok db s \<Longrightarrow> jobs_ok db (fire cb_done j s)"
    and failed_keeps: "jobs_ok db s \<Longrightarrow> jobs_ok db (fire cb_failed j s)"
begin

lemma save_ok: "jobs_ok db s \<Longrightarrow> db_get db s i = Some j \<Longrightarrow> jid j' = jid j \<Longrightarrow> job_ok j' \<Longrightarrow>
    jobs_ok db (db_save db j' s)"
  unfolding jobs_ok_def by (rule save_all) (auto simp: get_row)

lemma get_ok: "jobs_ok db s \<Longrightarrow> db_get db s i = Some j \<Longrightarrow> job_ok j"
  by (simp add: jobs_ok_def get_row)

lemma complete_ok: "jobs_ok db s \<Longrightarrow> jobs_ok db (complete db cb_done now i res s)"
proof -
  assume "jobs_ok db s"
  then have "jobs_ok db (fst (db_update db (\<lambda>k. jid k = i)
      (\<lambda>k. k\<lparr>status := JS_COMPLETED, completed_at := Some now, job_result := res\<rparr>) s))"
    unfolding jobs_ok_def by (rule update_all) (simp_all add: job_ok_def)
  then show ?thesis
    by (simp add: complete_def Let_def done_keeps split: option.split)
qed

lemma fail_ok: "jobs_ok db s \<Longrightarrow> jobs_ok db (fail db cb_failed now i err retry s)"
  using get_ok [of s i]
  by (auto simp: fail_def Let_def fail_row_ok save_ok failed_keeps split: option.split)

lemma cancel_ok: "jobs_ok db s \<Longrightarrow> jobs_ok db (snd (cancel db now i s))"
  by (auto simp: cancel_def job_ok_def save_ok split: option.split)

lemma requeue_ok: "jobs_ok db s \<Longrightarrow> jobs_ok db (snd (requeue_failed db tenant i reset s))"
  by (auto simp: requeue_failed_def requeue_row_ok save_ok split: option.split)

lemma claim_ok: "(\<And>j. ok j \<Longrightarrow> status j = JS_PENDING) \<Longrightarrow> jobs_ok db s \<Longrightarrow>
    jobs_ok db (snd (claim_first db locked ok worker now s))"
  unfolding jobs_ok_def by (rule claim_all) (simp_all add: job_ok_def)

lemma reclaim_ok: "jobs_ok db s \<Longrightarrow> jobs_ok db (snd (reclaim_stuck_jobs db locked sh tenant now t s))"
proof -
  let ?js = "take 1000 (filter (\<lambda>j. stuck tenant now t j \<and> \<not> locked (jid j)) (db_rows db s))"
  have "set ?js \<subseteq> rows s" by (auto dest: in_set_takeD)
  moreover have "distinct (map jid ?js)"
    using rows_distinct [of s] by (simp add: take_map [symmetric] distinct_map_filter)
  ultimately show "jobs_ok db s \<Longrightarrow> ?thesis"
    unfolding jobs_ok_def reclaim_stuck_jobs_def Let_def snd_conv
    by (rule fold_save_all [rotated]) (simp_all add: reclaim_row_ok)
qed

lemma enqueue_ok: "i \<notin> jid ` rows s \<Longrightarrow> jobs_ok db s \<Longrightarrow>
    jobs_ok db (snd (enqueue db tenant i now task load prio sched s))"
  by (simp add: jobs_ok_def enqueue_def add_rows job_ok_def)

lemma delete_ok: "jobs_ok db s \<Longrightarrow> jobs_ok db (fst (db_delete db Q s))"
  by (simp add: jobs_ok_def delete_rows)

lemma cleanup_ok: "jobs_ok db s \<Longrightarrow> jobs_ok db (fst (cleanup_expired_jobs db settings tenant now c f s))"
  by (simp add: cleanup_expired_jobs_def Let_def case_prod_beta delete_ok)

lemma requeue_all_ok: "jobs_ok db s \<Longrightarrow> jobs_ok db (fst (requeue_all_failed db tenant task reset s))"
  by (auto simp: requeue_all_failed_def jobs_ok_def update_rows requeue_row_ok)

lemma dequeue_ok: "jobs_ok db s \<Longrightarrow> jobs_ok db (snd (dequeue db locked tenant worker m now s))"
  by (auto simp: dequeue_def due_def intro: claim_ok)

lemma dequeue_next_ok: "jobs_ok db s \<Longrightarrow> jobs_ok db (snd (dequeue_next_job db locked worker now s))"
  unfolding dequeue_next_job_def by (rule claim_ok) (simp_all add: due_def)

lemma step_ok: "jobs_ok db s \<Longrightarrow> jobs_ok db (job_step db cb_done cb_failed e s)"
  by (cases e)
    (simp_all add: enqueue_ok dequeue_ok dequeue_next_ok complete_ok fail_ok cancel_ok requeue_ok
      requeue_all_ok reclaim_ok cleanup_ok purge_failed_def delete_ok)

end

sublocale job_queue \<subseteq> steps: event_machine "job_step db cb_done cb_failed" "jobs_ok db"
  by unfold_locales (rule step_ok)

context job_queue
begin

lemma run_ok: "jobs_ok db s \<Longrightarrow> jobs_ok db (fold (job_step db cb_done cb_failed) es s)"
  by (rule steps.fold_inv)

end

interpretation table_queue: job_queue table_db None None
  by unfold_locales (simp_all add: fire_def)

section \<open>What the queue promises\<close>

text \<open>The retry delay doubles from 2 seconds and is capped: 2, 4, 8, ... 2048 seconds for the
  first eleven retries and one hour from then on. It never decreases.\<close>

theorem retry_delay_closed_form:
  "calculate_retry_delay n = (if n \<le> 10 then 2 ^ (n + 1) else 3600) \<and>
    2 \<le> calculate_retry_delay n \<and> calculate_retry_delay n \<le> 3600 \<and>
    calculate_retry_delay n \<le> calculate_retry_delay (n + k)"
proof -
  have mono: "(2::int) ^ a \<le> 2 ^ (a + b)" for a b by (rule power_increasing) simp_all
  have pos: "(1::int) \<le> 2 ^ n" by (rule one_le_power) simp
  have "calculate_retry_delay n = (if n \<le> 10 then 2 ^ (n + 1) else 3600)"
  proof (cases "n \<le> 10")
    case True
    then have "(2::int) ^ n \<le> 2 ^ 10" by (intro power_increasing) simp_all
    then show ?thesis
      using True by (simp add: calculate_retry_delay_def BASE_RETRY_DELAY_SECONDS_def MAX_RETRY_DELAY_SECONDS_def)
  next
    case False
    then have "(2::int) ^ 11 \<le> 2 ^ n" by (intro power_increasing) simp_all
    then show ?thesis
      using False by (simp add: calculate_retry_delay_def BASE_RETRY_DELAY_SECONDS_def MAX_RETRY_DELAY_SECONDS_def)
  qed
  moreover have "2 \<le> calculate_retry_delay n" and "calculate_retry_delay n \<le> 3600"
    using pos by (simp_all add: calculate_retry_delay_def BASE_RETRY_DELAY_SECONDS_def MAX_RETRY_DELAY_SECONDS_def)
  moreover have "calculate_retry_delay n \<le> calculate_retry_delay (n + k)"
    unfolding calculate_retry_delay_def BASE_RETRY_DELAY_SECONDS_def
    using mono [of n k] by (intro min.mono) simp_all
  ultimately show ?thesis by blast
qed

text \<open>C15: Whatever operations run, by whichever workers and tenants, in whatever order, on jobs in
  whatever status, every row stays well-formed: a pending job has no worker and no start time, a
  running job has both, and a completed, failed or cancelled job has its time of completion.\<close>

theorem queue_rows_well_formed:
  assumes "job_queue db cb_done cb_failed" and "jobs_ok db s"
  shows "jobs_ok db (fold (job_step db cb_done cb_failed) ops s)"
  using assms by (rule job_queue.run_ok)

definition ex_job :: "uuid \<Rightarrow> int \<Rightarrow> time \<Rightarrow> job" where
  "ex_job i prio created = \<lparr>jid = i, tenant_id = 1, task_type = ''scan'', payload = [], priority = prio,
     status = JS_PENDING, scheduled_for = None, started_at = None, completed_at = None, worker_id = None,
     job_result = None, job_error = None, retry_count = 0, max_retries = 3, created_at = created\<rparr>"

lemma table_queue_ok: "job_queue table_db None None"
  by unfold_locales

lemma empty_table_ok: "jobs_ok table_db []"
  by (simp add: jobs_ok_def table_db_def)

theorem queue_rows_well_formed_witness:
  "jobs_ok table_db (fold (job_step table_db None None)
      [Enqueue 1 7 0 ''scan'' [] 50 None, Dequeue (\<lambda>_. False) 1 ''w'' None 1, Complete 2 7 None] [])"
  by (rule queue_rows_well_formed [OF table_queue_ok empty_table_ok])

section \<open>Claims\<close>

definition claimed :: "string \<Rightarrow> time \<Rightarrow> job \<Rightarrow> job" where
  "claimed worker now j = j\<lparr>status := JS_RUNNING, worker_id := Some worker, started_at := Some now\<rparr>"

text \<open>What one claim does.\<close>

definition claim_correct ::
  "'s job_db \<Rightarrow> (job \<Rightarrow> bool) \<Rightarrow> string \<Rightarrow> time \<Rightarrow> 's \<Rightarrow> job option \<times> 's \<Rightarrow> bool" where
  "claim_correct db avail worker now s r \<longleftrightarrow>
     (case r of
        (None, s') \<Rightarrow> s' = s \<and> (\<forall>j \<in> set (db_rows db s). \<not> avail j)
      | (Some j', s') \<Rightarrow> \<exists>j \<in> set (db_rows db s). avail j \<and> j' = claimed worker now j \<and>
          (\<forall>k \<in> set (db_rows db s). avail k \<longrightarrow>
            priority k < priority j \<or> (priority k = priority j \<and> created_at j \<le> created_at k)) \<and>
          set (db_rows db s') = insert j' (set (db_rows db s) - {j}))"

context job_session
begin

lemma claim_first_correct:
  "claim_correct db (\<lambda>j. ok j \<and> \<not> locked (jid j)) worker now s (claim_first db locked ok worker now s)"
proof -
  let ?av = "\<lambda>j. ok j \<and> \<not> locked (jid j)"
  let ?q = "sort_key queue_order (filter ?av (db_rows db s))"
  have q: "set ?q = {j \<in> rows s. ?av j}" by auto
  show ?thesis
  proof (cases ?q)
    case Nil
    with q show ?thesis by (simp add: claim_first_def claim_correct_def)
  next
    case (Cons j js)
    with q have j: "j \<in> rows s" "?av j" by auto
    have "sorted (map queue_order ?q)" by simp
    with Cons have "\<forall>k \<in> set ?q. queue_order j \<le> queue_order k" by auto
    with q have first: "\<forall>k \<in> rows s. ?av k \<longrightarrow> queue_order j \<le> queue_order k" by auto
    have "rows (db_save db (claimed worker now j) s) = insert (claimed worker now j) (rows s - {j})"
      using j by (intro save_row) (simp_all add: claimed_def)
    moreover have "claim_first db locked ok worker now s = (Some (claimed worker now j), db_save db (claimed worker now j) s)"
      using Cons by (simp add: claim_first_def claimed_def Let_def)
    moreover have "\<forall>k \<in> rows s. ?av k \<longrightarrow>
        priority k < priority j \<or> (priority k = priority j \<and> created_at j \<le> created_at k)"
      using first by (force simp: queue_order_def less_eq_prod_def)
    ultimately show ?thesis
      using j by (auto simp: claim_correct_def intro!: bexI [of _ j])
  qed
qed

end

text \<open>C10: \<open>dequeue\<close> answers nothing when the tenant already runs as many jobs as it may.
  Otherwise it claims a row of this tenant that is pending, due and not held by another
  transaction, of the highest priority among those and of that priority the oldest; it marks the
  row as running by the worker since now and changes no other row. It answers nothing only when
  there is no such row.\<close>

theorem dequeue_claims_first:
  assumes "job_session db"
  shows "if \<exists>m. max_concurrent = Some m \<and> m \<le> get_running_count db tenant s
    then dequeue db locked tenant worker max_concurrent now s = (None, s)
    else claim_correct db (\<lambda>j. (tenant_id j = tenant \<and> due now j) \<and> \<not> locked (jid j)) worker now s
      (dequeue db locked tenant worker max_concurrent now s)"
  using job_session.claim_first_correct [OF assms, of "\<lambda>j. tenant_id j = tenant \<and> due now j" locked worker now s]
  by (auto simp: dequeue_def split: option.splits)

lemma table_session: "job_session table_db"
  by unfold_locales

theorem dequeue_claims_first_witness:
  "claim_correct table_db (\<lambda>j. (tenant_id j = 1 \<and> due 9 j) \<and> \<not> False) ''w'' 9 [ex_job 1 10 0, ex_job 2 90 5]
    (dequeue table_db (\<lambda>_. False) 1 ''w'' (Some 3) 9 [ex_job 1 10 0, ex_job 2 90 5])"
  using dequeue_claims_first [OF table_session, of "Some 3" 1 "[ex_job 1 10 0, ex_job 2 90 5]" "\<lambda>_. False" "''w''" 9]
  by (simp add: get_running_count_def count_status_def table_db_def ex_job_def)

text \<open>Claims of several workers one after the other.\<close>

fun claim_run :: "'s job_db \<Rightarrow> ((uuid \<Rightarrow> bool) \<times> string \<times> time) list \<Rightarrow> 's \<Rightarrow> uuid list" where
  "claim_run db [] s = []"
| "claim_run db ((locked, worker, now) # calls) s =
     (case dequeue_next_job db locked worker now s of
        (None, s') \<Rightarrow> claim_run db calls s'
      | (Some j, s') \<Rightarrow> jid j # claim_run db calls s')"

context job_session
begin

lemma claim_run_distinct:
  "set (claim_run db calls s) \<subseteq> jid ` {j \<in> rows s. status j = JS_PENDING} \<and> distinct (claim_run db calls s)"
proof (induction calls arbitrary: s)
  case (Cons call calls)
  obtain locked worker now where call: "call = (locked, worker, now)" by (cases call)
  obtain r s' where r: "dequeue_next_job db locked worker now s = (r, s')" by force
  have correct: "claim_correct db (\<lambda>j. due now j \<and> \<not> locked (jid j)) worker now s (r, s')"
    using claim_first_correct [of "due now" locked worker now s] r by (simp add: dequeue_next_job_def)
  show ?case
  proof (cases r)
    case None
    with correct have "s' = s" by (simp add: claim_correct_def)
    with None r call Cons [of s] show ?thesis by simp
  next
    case (Some j')
    with correct obtain j where j: "j \<in> rows s" "due now j" and j': "j' = claimed worker now j"
      and s': "rows s' = insert j' (rows s - {j})"
      by (auto simp: claim_correct_def)
    have "jid k \<noteq> jid j" if "k \<in> rows s'" "status k = JS_PENDING" for k
      using that row_unique [of k s j] j(1) by (auto simp: s' j' claimed_def)
    then have "jid j \<notin> jid ` {k \<in> rows s'. status k = JS_PENDING}" by force
    moreover have "{k \<in> rows s'. status k = JS_PENDING} \<subseteq> {k \<in> rows s. status k = JS_PENDING}"
      by (auto simp: s' j' claimed_def)
    moreover have "jid j' = jid j" and "status j = JS_PENDING"
      using j(2) by (simp_all add: j' claimed_def due_def)
    ultimately show ?thesis
      using Cons [of s'] Some r call j(1) by (auto simp: subset_iff)
  qed
qed simp

lemma get_fail:
  assumes "db_get db s i = Some j"
  shows "db_get db (fail db None now i err retry s) i = Some (fail_row now err retry j)"
proof -
  have j: "j \<in> rows s" "jid j = i" using assms by (simp_all add: get_row)
  from get_saved [OF j(1), of "fail_row now err retry j"] j assms show ?thesis
    by (simp add: fail_def Let_def fire_def fail_row_ok)
qed

lemma get_cancel:
  assumes "db_get db s i = Some j" and "status j \<in> {JS_PENDING, JS_RUNNING}"
  shows "db_get db (snd (cancel db now i s)) i = Some (j\<lparr>status := JS_CANCELLED, completed_at := Some now\<rparr>)"
proof -
  have j: "j \<in> rows s" "jid j = i" using assms by (simp_all add: get_row)
  from get_saved [OF j(1), of "j\<lparr>status := JS_CANCELLED, completed_at := Some now\<rparr>"] j assms show ?thesis
    by (auto simp: cancel_def)
qed

lemma get_complete:
  assumes "db_get db s i = Some j"
  shows "db_get db (complete db None now i res s) i =
    Some (j\<lparr>status := JS_COMPLETED, completed_at := Some now, job_result := res\<rparr>)"
proof -
  let ?f = "\<lambda>k. k\<lparr>status := JS_COMPLETED, completed_at := Some now, job_result := res\<rparr>"
  have j: "j \<in> rows s" "jid j = i" using assms by (simp_all add: get_row)
  have "rows (fst (db_update db (\<lambda>k. jid k = i) ?f s)) = (\<lambda>k. if jid k = i then ?f k else k) ` rows s"
    by (rule update_rows) simp
  with j have "?f j \<in> rows (fst (db_update db (\<lambda>k. jid k = i) ?f s))" by force
  moreover have "complete db None now i res s = fst (db_update db (\<lambda>k. jid k = i) ?f s)"
    by (simp add: complete_def Let_def fire_def assms)
  ultimately show ?thesis using j(2) by (simp only: get_row) simp
qed

end

text \<open>No job is handed out twice: however many workers dequeue one after the other, at whatever
  times and with whatever rows held by others, the jobs they receive are pairwise different.\<close>

theorem claims_distinct:
  assumes "job_session db"
  shows "distinct (claim_run db calls s)"
  using job_session.claim_run_distinct [OF assms] by blast

theorem claims_distinct_witness:
  "distinct (claim_run table_db [(\<lambda>_. False, ''a'', 1), (\<lambda>_. False, ''b'', 1), (\<lambda>_. False, ''c'', 2)]
    [ex_job 1 10 0, ex_job 2 90 5])"
  by (rule claims_distinct [OF table_session])

section \<open>Retries\<close>

definition fail_run :: "'s job_db \<Rightarrow> uuid \<Rightarrow> (time \<times> string) list \<Rightarrow> 's \<Rightarrow> 's" where
  "fail_run db i fs s = fold (\<lambda>(now, err). fail db None now i err True) fs s"

text \<open>The row of a job that was new and has now failed \<open>n\<close> times, last at \<open>now\<close>.\<close>

definition after_failures :: "job \<Rightarrow> nat \<Rightarrow> time \<Rightarrow> string \<Rightarrow> job \<Rightarrow> bool" where
  "after_failures j n now err j' \<longleftrightarrow> max_retries j' = max_retries j \<and> job_error j' = Some err \<and>
     (if n \<le> max_retries j
      then status j' = JS_PENDING \<and> retry_count j' = n \<and>
        scheduled_for j' = Some (now + of_int (calculate_retry_delay (n - 1)))
      else status j' = JS_FAILED \<and> retry_count j' = max_retries j \<and> completed_at j' = Some now)"

text \<open>C16: A job is tried a bounded number of times. A new job whose attempts keep failing is
  pending again after each of the first \<open>max_retries\<close> failures, not before the back-off delay
  of that retry has passed, and is in the dead letter queue from the next failure on.\<close>

theorem retries_bounded:
  assumes "job_session db" and "db_get db s i = Some j" and "retry_count j = 0"
  shows "\<exists>j'. db_get db (fail_run db i (fs @ [(now, err)]) s) i = Some j' \<and>
    after_failures j (length fs + 1) now err j'"
proof (induction fs arbitrary: now err rule: rev_induct)
  case Nil
  show ?case
    using job_session.get_fail [OF assms(1,2), of now err True] assms(3)
    by (auto simp: fail_run_def after_failures_def fail_row_def)
next
  case (snoc f fs)
  obtain t e where f: "f = (t, e)" by (cases f)
  from snoc [of t e] obtain j' where j': "db_get db (fail_run db i (fs @ [f]) s) i = Some j'"
    and a: "after_failures j (length fs + 1) t e j'"
    by (auto simp: f)
  have "db_get db (fail_run db i ((fs @ [f]) @ [(now, err)]) s) i = Some (fail_row now err True j')"
    using job_session.get_fail [OF assms(1) j', of now err True] by (simp add: fail_run_def)
  moreover have "after_failures j (length (fs @ [f]) + 1) now err (fail_row now err True j')"
    using a by (auto simp: after_failures_def fail_row_def split: if_splits)
  ultimately show ?case by blast
qed

theorem retries_bounded_witness:
  "\<exists>j'. db_get table_db (fail_run table_db 1 ([(10, ''a''), (20, ''b''), (30, ''c'')] @ [(40, ''d'')]) [ex_job 1 50 0]) 1
      = Some j' \<and> after_failures (ex_job 1 50 0) (length [(10::time, ''a''), (20, ''b''), (30, ''c'')] + 1) 40 ''d'' j'"
  by (rule retries_bounded [OF table_session]) (simp_all add: table_db_def ex_job_def)

text \<open>A cancellation does not last. \<open>fail\<close> and \<open>complete\<close> do not look at the status: when the
  worker that runs a cancelled job reports a failure with retries left, the job is pending again
  and will be run once more, and when it reports success the job counts as completed.\<close>

theorem cancelled_job_revived:
  assumes "job_session db" and "db_get db s i = Some j" and "status j = JS_RUNNING"
    and "retry_count j < max_retries j"
  shows "map_option status (db_get db (fail db None t i err True (snd (cancel db now i s))) i) = Some JS_PENDING \<and>
    map_option status (db_get db (complete db None t i res (snd (cancel db now i s))) i) = Some JS_COMPLETED"
proof -
  from assms(3) have "status j \<in> {JS_PENDING, JS_RUNNING}" by simp
  note c = job_session.get_cancel [OF assms(1,2) this, of now]
  show ?thesis
    using job_session.get_fail [OF assms(1) c, of t err True] job_session.get_complete [OF assms(1) c, of t res]
      assms(4)
    by (simp add: fail_row_def)
qed

theorem cancelled_job_revived_witness:
  "map_option status (db_get table_db (fail table_db None 9 1 ''lost'' True
      (snd (cancel table_db 8 1 [claimed ''w'' 5 (ex_job 1 50 0)]))) 1) = Some JS_PENDING \<and>
   map_option status (db_get table_db (complete table_db None 9 1 None
      (snd (cancel table_db 8 1 [claimed ''w'' 5 (ex_job 1 50 0)]))) 1) = Some JS_COMPLETED"
  by (rule cancelled_job_revived [OF table_session, of _ _ "claimed ''w'' 5 (ex_job 1 50 0)"])
    (simp_all add: table_db_def ex_job_def claimed_def)

text \<open>Recovery of a stuck job is no failure with retry logic. With one retry left, a job that
  reports a failure is pending again, after its back-off delay, and a job that is reclaimed goes
  to the dead letter queue; a reclaimed job that stays pending is due at once.\<close>

theorem reclaim_stricter_than_fail:
  "status (fail_row now err True (j\<lparr>retry_count := n, max_retries := n + 1\<rparr>)) = JS_PENDING \<and>
   status (reclaim_row now err (j\<lparr>retry_count := n, max_retries := n + 1\<rparr>)) = JS_FAILED \<and>
   scheduled_for (reclaim_row now err j) = scheduled_for j"
  by (simp add: fail_row_def reclaim_row_def Let_def)

text \<open>Expiry deletes the completed and cancelled rows of the tenant that were completed before
  the one limit and the failed rows completed before the other, and no other row; pending and
  running jobs and other tenants' jobs stay. The three counts add up to the rows deleted.\<close>

theorem cleanup_deletes_expired:
  assumes "job_session db"
  shows "case cleanup_expired_jobs db (Some (cdays, fdays)) tenant now None None s of
    (s', n_completed, n_cancelled, n_failed) \<Rightarrow>
      set (db_rows db s') = {j \<in> set (db_rows db s). \<not> (tenant_id j = tenant \<and>
        ((status j \<in> {JS_COMPLETED, JS_CANCELLED} \<and> sql_less (completed_at j) (now - days cdays)) \<or>
         (status j = JS_FAILED \<and> sql_less (completed_at j) (now - days fdays))))} \<and>
      n_completed + n_cancelled + n_failed = card (set (db_rows db s) - set (db_rows db s'))"
proof -
  let ?R = "set (db_rows db s)"
  let ?A = "{j \<in> ?R. expired tenant JS_COMPLETED (now - days cdays) j}"
  let ?B = "{j \<in> ?R. expired tenant JS_CANCELLED (now - days cdays) j}"
  let ?C = "{j \<in> ?R. expired tenant JS_FAILED (now - days fdays) j}"
  note del = job_session.delete_rows [OF assms] job_session.delete_count [OF assms]
  obtain s1 n1 s2 n2 s3 n3 where steps:
    "db_delete db (expired tenant JS_COMPLETED (now - days cdays)) s = (s1, n1)"
    "db_delete db (expired tenant JS_CANCELLED (now - days cdays)) s1 = (s2, n2)"
    "db_delete db (expired tenant JS_FAILED (now - days fdays)) s2 = (s3, n3)"
    by (metis surj_pair)
  have rows: "set (db_rows db s1) = ?R - ?A" "set (db_rows db s2) = ?R - ?A - ?B" "set (db_rows db s3) = ?R - ?A - ?B - ?C"
    using del(1) [of "expired tenant JS_COMPLETED (now - days cdays)" s]
      del(1) [of "expired tenant JS_CANCELLED (now - days cdays)" s1]
      del(1) [of "expired tenant JS_FAILED (now - days fdays)" s2]
    by (auto simp: steps)
  have "n1 = card ?A"
    using del(2) [of "expired tenant JS_COMPLETED (now - days cdays)" s] by (simp add: steps)
  moreover have "{k \<in> set (db_rows db s1). expired tenant JS_CANCELLED (now - days cdays) k} = ?B"
    "{k \<in> set (db_rows db s2). expired tenant JS_FAILED (now - days fdays) k} = ?C"
    by (auto simp: rows expired_def)
  then have "n2 = card ?B" "n3 = card ?C"
    using del(2) [of "expired tenant JS_CANCELLED (now - days cdays)" s1]
      del(2) [of "expired tenant JS_FAILED (now - days fdays)" s2] by (simp_all add: steps)
  moreover have "card (?A \<union> ?B \<union> ?C) = card ?A + card ?B + card ?C"
    by (subst card_Un_disjoint, simp, simp, force simp: expired_def)
      (subst card_Un_disjoint, auto simp: expired_def)
  moreover have "?R - set (db_rows db s3) = ?A \<union> ?B \<union> ?C" by (auto simp: rows)
  ultimately have "n1 + n2 + n3 = card (?R - set (db_rows db s3))" by simp
  then show ?thesis
    by (auto simp: cleanup_expired_jobs_def or_default_def steps rows expired_def)
qed

definition ex_done :: job where
  "ex_done = (ex_job 1 50 0)\<lparr>status := JS_COMPLETED, completed_at := Some (days 10)\<rparr>"

theorem cleanup_deletes_expired_witness:
  "set (db_rows table_db (fst (cleanup_expired_jobs table_db (Some (7, 30)) 1 (days 100) None None
    [ex_done, ex_job 2 50 0]))) = {ex_job 2 50 0}"
proof -
  have rows: "set (db_rows table_db [ex_done, ex_job 2 50 0]) = {ex_done, ex_job 2 50 0}"
    by (simp add: table_db_def ex_done_def ex_job_def)
  have done_row: "tenant_id ex_done = 1" "status ex_done = JS_COMPLETED" "completed_at ex_done = Some (days 10)"
    by (simp_all add: ex_done_def ex_job_def)
  have new_row: "status (ex_job 2 50 0) = JS_PENDING" by (simp add: ex_job_def)
  have cutoff: "days 10 < days 100 - days 7" by (simp add: days_def)
  obtain s' n1 n2 n3 where c:
    "cleanup_expired_jobs table_db (Some (7, 30)) 1 (days 100) None None [ex_done, ex_job 2 50 0] = (s', n1, n2, n3)"
    by (metis prod_cases4)
  have "set (db_rows table_db s') = {j \<in> {ex_done, ex_job 2 50 0}. \<not> (tenant_id j = 1 \<and>
      ((status j \<in> {JS_COMPLETED, JS_CANCELLED} \<and> sql_less (completed_at j) (days 100 - days 7)) \<or>
       (status j = JS_FAILED \<and> sql_less (completed_at j) (days 100 - days 30))))}"
    using cleanup_deletes_expired [OF table_session, where cdays = 7 and fdays = 30 and tenant = 1
        and now = "days 100" and s = "[ex_done, ex_job 2 50 0]"]
    unfolding c rows prod.case by (rule conjunct1)
  also have "\<dots> = {ex_job 2 50 0}"
    by (auto simp: done_row new_row sql_less_def cutoff)
  finally show ?thesis by (simp only: c fst_conv)
qed

end
