(* ===== verification/Py_Collections.thy ===== *)
theory Py_Collections
  imports OL_Prelude "HOL-Library.Multiset"
begin

text \<open>
  Python dictionaries in insertion order, as association lists with distinct keys: a new key goes
  to the end, an existing one keeps its place. \<open>dict_build\<close> is the loop
  \<open>for k, v in items: d.setdefault(k, []).append(v)\<close>, which many components use to group values;
  \<open>dict_build_conv\<close> says what it computes. \<open>max_by\<close> is \<open>max(xs, key=f)\<close>, which
  answers the first of the maximal elements, and \<open>uniq_by\<close> keeps the first element of every
  key.
\<close>

text \<open>Membership in a list comprehension, one generator at a time.\<close>

lemma in_concat_map: "y \<in> set (concat (map f xs)) \<longleftrightarrow> (\<exists>x \<in> set xs. y \<in> set (f x))"
  by auto

lemma in_if_list: "y \<in> set (if c then xs else []) \<longleftrightarrow> c \<and> y \<in> set xs"
  by simp

lemmas in_comprehension = in_concat_map in_if_list set_map image_iff

lemma find_SomeD: "find P xs = Some x \<Longrightarrow> x \<in> set xs \<and> P x"
  by (induction xs) (auto split: if_splits)

text \<open>A search in a table whose key is unique.\<close>

lemma find_unique:
  assumes "distinct (map k xs)" and "x \<in> set xs" and "P x" and "\<And>y. P y \<Longrightarrow> k y = k x"
  shows "find P xs = Some x"
proof (cases "find P xs")
  case None
  then show ?thesis using assms(2,3) unfolding find_None_iff by blast
next
  case (Some y)
  with find_SomeD have y: "y \<in> set xs" "P y" by fast+
  have "inj_on k (set xs)" using assms(1) by (simp add: distinct_map)
  moreover have "k y = k x" using assms(4) y(2) by this
  ultimately have "y = x" using y(1) assms(2) by (rule inj_onD)
  with Some show ?thesis by simp
qed

section \<open>Dictionaries\<close>

fun dict_set :: "'k \<Rightarrow> 'v \<Rightarrow> ('k \<times> 'v) list \<Rightarrow> ('k \<times> 'v) list" where
  "dict_set k v [] = [(k, v)]"
| "dict_set k v ((k', v') # d) = (if k' = k then (k, v) # d else (k', v') # dict_set k v d)"

definition dict_del :: "'k \<Rightarrow> ('k \<times> 'v) list \<Rightarrow> ('k \<times> 'v) list" where
  "dict_del k d = filter (\<lambda>(k', _). k' \<noteq> k) d"

fun dict_append :: "'k \<Rightarrow> 'v \<Rightarrow> ('k \<times> 'v list) list \<Rightarrow> ('k \<times> 'v list) list" where
  "dict_append k v [] = [(k, [v])]"
| "dict_append k v ((k', vs) # d) = (if k' = k then (k', vs @ [v]) # d else (k', vs) # dict_append k v d)"

definition dict_build :: "('k \<times> 'v) list \<Rightarrow> ('k \<times> 'v list) list" where
  "dict_build kvs = foldl (\<lambda>d (k, v). dict_append k v d) [] kvs"

definition dict_get :: "('k \<times> 'v) list \<Rightarrow> 'k \<Rightarrow> 'v \<Rightarrow> 'v" where
  "dict_get d k v = (case map_of d k of None \<Rightarrow> v | Some x \<Rightarrow> x)"

lemma map_of_dict_set [simp]: "map_of (dict_set k v d) = (map_of d)(k \<mapsto> v)"
  by (induction k v d rule: dict_set.induct) auto

lemma map_of_dict_del: "map_of (dict_del k d) = (map_of d)(k := None)"
  by (induction d) (auto simp: dict_del_def fun_eq_iff)

lemma keys_dict_set: "map fst (dict_set k v d) = map fst d @ (if k \<in> fst ` set d then [] else [k])"
  by (induction k v d rule: dict_set.induct) auto

lemma keys_dict_del: "map fst (dict_del k d) = filter (\<lambda>x. x \<noteq> k) (map fst d)"
  by (induction d) (auto simp: dict_del_def)

lemma distinct_dict_set [intro]: "distinct (map fst d) \<Longrightarrow> distinct (map fst (dict_set k v d))"
  by (auto simp: keys_dict_set)

lemma distinct_dict_del [intro]: "distinct (map fst d) \<Longrightarrow> distinct (map fst (dict_del k d))"
  by (auto simp: keys_dict_del)

lemma length_dict_set: "length (dict_set k v d) = (if k \<in> fst ` set d then length d else length d + 1)"
  by (induction k v d rule: dict_set.induct) auto

text \<open>JSON values, the data that configuration files and database columns hold.\<close>

datatype json =
    JNull
  | JBool bool
  | JInt int
  | JReal real
  | JStr string
  | JList "json list"
  | JObj "(string \<times> json) list"

text \<open>What a test \<open>if value\<close> takes for false.\<close>

fun falsy :: "json \<Rightarrow> bool" where
  "falsy JNull = True" | "falsy (JBool b) = (\<not> b)" | "falsy (JInt i) = (i = 0)" | "falsy (JReal x) = (x = 0)"
| "falsy (JStr s) = (s = [])" | "falsy (JList js) = (js = [])" | "falsy (JObj d) = (d = [])"

section \<open>First of its kind\<close>

fun uniq_by :: "('a \<Rightarrow> 'k) \<Rightarrow> 'a list \<Rightarrow> 'a list" where
  "uniq_by f [] = []"
| "uniq_by f (x # xs) = x # filter (\<lambda>y. f y \<noteq> f x) (uniq_by f xs)"

lemma set_uniq_by_subset: "set (uniq_by f xs) \<subseteq> set xs"
  by (induction xs) auto

lemma keys_uniq_by [simp]: "f ` set (uniq_by f xs) = f ` set xs"
proof (induction xs)
  case (Cons x xs)
  have "f ` {y \<in> set (uniq_by f xs). f y \<noteq> f x} = f ` set (uniq_by f xs) - {f x}" by auto
  with Cons show ?case by auto
qed simp

lemma inj_on_uniq_by: "inj_on f (set (uniq_by f xs))"
  by (induction xs) (auto simp: inj_on_def)

lemma distinct_uniq_by [simp]: "distinct (uniq_by f xs)"
  by (induction xs) auto

lemma distinct_keys_uniq_by [simp]: "distinct (map f (uniq_by f xs))"
  by (simp add: distinct_map inj_on_uniq_by)

lemma filter_uniq_by_absent: "\<forall>x \<in> set xs. f x \<noteq> k \<Longrightarrow> filter (\<lambda>y. f y \<noteq> k) xs = xs"
  by (induction xs) auto

lemma uniq_by_snoc:
  "uniq_by f (xs @ [x]) = uniq_by f xs @ (if f x \<in> f ` set xs then [] else [x])"
  by (induction xs) auto

lemma uniq_by_kernel:
  "(\<And>x y. x \<in> set xs \<Longrightarrow> y \<in> set xs \<Longrightarrow> f x = f y \<longleftrightarrow> g x = g y) \<Longrightarrow> uniq_by f xs = uniq_by g xs"
proof (induction xs)
  case (Cons x xs)
  then have "uniq_by f xs = uniq_by g xs" by auto
  moreover have "filter (\<lambda>y. f y \<noteq> f x) (uniq_by g xs) = filter (\<lambda>y. g y \<noteq> g x) (uniq_by g xs)"
    using Cons.prems set_uniq_by_subset [of g xs] by (intro filter_cong) auto
  ultimately show ?case by simp
qed simp

section \<open>Grouping\<close>

definition values_of :: "'k \<Rightarrow> ('k \<times> 'v) list \<Rightarrow> 'v list" where
  "values_of k kvs = map snd (filter (\<lambda>kv. fst kv = k) kvs)"

lemma dict_append_map:
  assumes "distinct ks"
  shows "dict_append k v (map (\<lambda>x. (x, h x)) ks)
    = (if k \<in> set ks then map (\<lambda>x. (x, if x = k then h x @ [v] else h x)) ks
       else map (\<lambda>x. (x, h x)) ks @ [(k, [v])])"
  using assms by (induction ks) auto

lemma dict_build_conv: "dict_build kvs = map (\<lambda>k. (k, values_of k kvs)) (map fst (uniq_by fst kvs))"
proof (induction kvs rule: rev_induct)
  case (snoc kv kvs)
  obtain k v where kv: "kv = (k, v)" by force
  let ?ks = "map fst (uniq_by fst kvs)"
  have keys: "k \<in> set ?ks \<longleftrightarrow> k \<in> fst ` set kvs" by (simp only: set_map keys_uniq_by)
  have absent: "values_of k kvs = []" if "k \<notin> fst ` set kvs"
    using that by (auto simp: values_of_def filter_empty_conv)
  have "dict_build (kvs @ [kv]) = dict_append k v (map (\<lambda>k. (k, values_of k kvs)) ?ks)"
    using snoc by (simp add: dict_build_def kv)
  also have "\<dots> = (if k \<in> set ?ks then map (\<lambda>x. (x, if x = k then values_of x kvs @ [v] else values_of x kvs)) ?ks
       else map (\<lambda>k. (k, values_of k kvs)) ?ks @ [(k, [v])])"
    by (rule dict_append_map) simp
  also have "\<dots> = map (\<lambda>x. (x, values_of x (kvs @ [kv]))) (map fst (uniq_by fst (kvs @ [kv])))"
    using keys absent set_uniq_by_subset [of fst kvs] unfolding uniq_by_snoc
    by (auto simp: values_of_def kv)
  finally show ?case .
qed (simp add: dict_build_def)

lemma distinct_dict_build [simp]: "distinct (map fst (dict_build kvs))"
  by (simp add: dict_build_conv comp_def)

lemma set_dict_build:
  "(k, vs) \<in> set (dict_build kvs) \<longleftrightarrow> k \<in> fst ` set kvs \<and> vs = values_of k kvs"
  unfolding dict_build_conv set_map keys_uniq_by by (auto simp: image_iff)

lemma map_of_dict_build:
  "map_of (dict_build kvs) k = (if k \<in> fst ` set kvs then Some (values_of k kvs) else None)"
proof (cases "k \<in> fst ` set kvs")
  case True
  then have "(k, values_of k kvs) \<in> set (dict_build kvs)" by (simp add: set_dict_build)
  with True show ?thesis by (simp add: map_of_is_SomeI)
next
  case False
  then have "k \<notin> fst ` set (dict_build kvs)" by (auto simp: set_dict_build)
  with False show ?thesis by (simp add: map_of_eq_None_iff)
qed

lemma set_values_of: "v \<in> set (values_of k kvs) \<longleftrightarrow> (k, v) \<in> set kvs"
  by (force simp: values_of_def)

lemma values_of_nonempty: "k \<in> fst ` set kvs \<Longrightarrow> values_of k kvs \<noteq> []"
  by (auto simp: values_of_def filter_empty_conv)

text \<open>Grouping the elements of a list under a key of theirs.\<close>

lemma uniq_by_map: "uniq_by f (map g xs) = map g (uniq_by (\<lambda>x. f (g x)) xs)"
  by (induction xs) (auto simp: filter_map comp_def)

lemma values_of_map: "values_of k (map (\<lambda>x. (f x, x)) xs) = filter (\<lambda>x. f x = k) xs"
  by (induction xs) (auto simp: values_of_def)

lemma dict_build_by:
  "dict_build (map (\<lambda>x. (f x, x)) xs) = map (\<lambda>x. (f x, filter (\<lambda>y. f y = f x) xs)) (uniq_by f xs)"
  by (simp add: dict_build_conv uniq_by_map values_of_map comp_def)

lemma uniq_by_upt: "uniq_by f [0..<n] = filter (\<lambda>i. \<forall>j < i. f j \<noteq> f i) [0..<n]"
proof (induction n)
  case (Suc n)
  have "f n \<in> f ` set [0..<n] \<longleftrightarrow> \<not> (\<forall>j < n. f j \<noteq> f n)" by (auto simp: image_iff) (metis atLeastLessThan_iff le0)
  with Suc show ?case by (simp add: uniq_by_snoc)
qed simp

section \<open>Stable sorting\<close>

lemma sort_key_snoc_sorted: "sort_key f (sort_key f xs @ [x]) = sort_key f (xs @ [x])"
proof (rule properties_for_sort_key)
  have "filter (\<lambda>y. k = f y) (sort_key f zs) = filter (\<lambda>y. k = f y) zs" for k zs
    using sort_key_stable [of f k zs] by (simp only: eq_commute [of k])
  then show "filter (\<lambda>y. f k = f y) (sort_key f (xs @ [x])) = filter (\<lambda>y. f k = f y) (sort_key f xs @ [x])" for k
    by simp
qed simp_all

lemma sort_key_agree:
  assumes "\<And>x. x \<in> set xs \<Longrightarrow> f x = g x"
  shows "sort_key f xs = sort_key g xs"
proof (rule properties_for_sort_key)
  show "filter (\<lambda>x. f k = f x) (sort_key g xs) = filter (\<lambda>x. f k = f x) xs" if "k \<in> set (sort_key g xs)" for k
  proof -
    have "filter (\<lambda>x. f k = f x) zs = filter (\<lambda>x. g x = g k) zs" if "set zs = set xs" for zs
      using that assms \<open>k \<in> set (sort_key g xs)\<close> by (intro filter_cong) auto
    then show ?thesis using sort_key_stable [of g "g k" xs] by simp
  qed
  have "map f (sort_key g xs) = map g (sort_key g xs)" using assms by (intro map_cong) auto
  then show "sorted (map f (sort_key g xs))" by (simp only: sorted_sort_key)
qed simp

lemma sort_key_idem: "sort_key f (sort_key f xs) = sort_key f xs"
  by (rule sort_key_id_if_sorted) simp

section \<open>Maxima\<close>

fun max_by :: "('a \<Rightarrow> 'k::linorder) \<Rightarrow> 'a \<Rightarrow> 'a list \<Rightarrow> 'a" where
  "max_by f m [] = m"
| "max_by f m (x # xs) = (if f m < f x then max_by f x xs else max_by f m xs)"

lemma max_by_in: "max_by f m xs \<in> set (m # xs)"
  by (induction f m xs rule: max_by.induct) auto

lemma max_by_max: "x \<in> set (m # xs) \<Longrightarrow> f x \<le> f (max_by f m xs)"
proof (induction f m xs arbitrary: x rule: max_by.induct)
  case (2 f m y ys)
  then show ?case by (cases "f m < f y") (force simp: not_less intro: order_trans)+
qed simp

end
