(* ===== verification/Entity_Resolver.thy ===== *)
theory Entity_Resolver
  imports Entity_Types Py_Collections "HOL-Library.List_Lexorder" "HOL-Library.Char_ord"
begin

text \<open>
  Grouping of mentions by identity, \<^verbatim>\<open>src/openlabels/core/pipeline/entity_resolver.py\<close>: the
  three sieves (equal text, shared name words, coreference anchors) as the sequence of \<open>union\<close>
  calls they make, the union-find structure on an index list with path compression, and the
  entities built from its groups. The recursion of \<open>find\<close> is bounded by the interpreter's
  recursion limit, here the number \<open>d\<close> of nested \<open>find\<close> calls that fit: exceeding it is the
  exception \<open>RecursionError\<close>. \<open>ids\<close> supplies the random identifiers, \<open>order\<close> is the
  iteration order of a set of words, which Python does not fix.
\<close>

section \<open>Mentions\<close>

definition ISOLATED_TYPES :: "string list" where
  "ISOLATED_TYPES = [''SSN'', ''MRN'', ''CREDIT_CARD'', ''ACCOUNT_NUMBER'', ''DRIVER_LICENSE'',
     ''PASSPORT'', ''PHONE'', ''EMAIL'', ''IP_ADDRESS'']"

definition NAME_TYPES :: "string list" where
  "NAME_TYPES = [''NAME'', ''NAME_PATIENT'', ''NAME_PROVIDER'', ''NAME_RELATIVE'', ''PERSON'']"

record mention =
  m_span :: span
  m_norm :: string
  m_words :: "string set"

record entity =
  e_id :: string
  e_type :: string
  e_canonical :: string
  e_mentions :: "mention list"
  e_role :: "string option"

datatype recursion_error = RecursionError

definition normalize_text :: "string \<Rightarrow> string" where
  "normalize_text t = str_strip (str_lower t)"

definition TITLES :: "string list" where
  "TITLES = [''dr'', ''mr'', ''mrs'', ''ms'', ''prof'', ''rev'', ''jr'', ''sr'', ''ii'', ''iii'', ''iv'']"

definition get_words :: "string \<Rightarrow> string \<Rightarrow> string set" where
  "get_words t entity_type =
     (if entity_type \<notin> set NAME_TYPES then {}
      else set (str_words (str_replace ''.'' [] t)) - set TITLES)"

definition to_mention :: "span \<Rightarrow> mention" where
  "to_mention s =
     (let normalized = normalize_text (sp_text s)
      in \<lparr>m_span = s, m_norm = normalized, m_words = get_words normalized (sp_entity_type s)\<rparr>)"

section \<open>Union-find\<close>

fun uf_find :: "nat \<Rightarrow> nat \<Rightarrow> nat list \<Rightarrow> recursion_error + (nat \<times> nat list)" where
  "uf_find 0 x parent = Inl RecursionError"
| "uf_find (Suc d) x parent =
     (if parent ! x \<noteq> x then
        res_bind (uf_find d (parent ! x) parent) (\<lambda>(r, parent). Inr (r, parent[x := r]))
      else Inr (x, parent))"

definition uf_union :: "nat \<Rightarrow> nat \<Rightarrow> nat \<Rightarrow> nat list \<Rightarrow> recursion_error + nat list" where
  "uf_union d x y parent =
     res_bind (uf_find d x parent) (\<lambda>(px, parent).
     res_bind (uf_find d y parent) (\<lambda>(py, parent).
       Inr (if px \<noteq> py then parent[px := py] else parent)))"

fun union_all :: "nat \<Rightarrow> (nat \<times> nat) list \<Rightarrow> nat list \<Rightarrow> recursion_error + nat list" where
  "union_all d [] parent = Inr parent"
| "union_all d ((x, y) # ps) parent = res_bind (uf_union d x y parent) (union_all d ps)"

fun find_each :: "nat \<Rightarrow> nat list \<Rightarrow> nat list \<Rightarrow> recursion_error + (nat \<times> nat) list" where
  "find_each d [] parent = Inr []"
| "find_each d (i # is) parent =
     res_bind (uf_find d i parent) (\<lambda>(r, parent).
     res_bind (find_each d is parent) (\<lambda>gs. Inr ((i, r) # gs)))"

section \<open>Sieves\<close>

text \<open>The entries of the three indexes in the order the loop over the mentions adds them.\<close>

definition text_entries :: "mention list \<Rightarrow> (string \<times> nat) list" where
  "text_entries ms = [(m_norm m, i). (i, m) \<leftarrow> enumerate 0 ms]"

definition anchors :: "mention \<Rightarrow> string list" where
  "anchors m = (case sp_coref_anchor_value (m_span m) of None \<Rightarrow> []
     | Some a \<Rightarrow> if a = [] then [] else [str_lower a])"

definition coref_entries :: "mention list \<Rightarrow> (string \<times> nat) list" where
  "coref_entries ms = [(a, i). (i, m) \<leftarrow> enumerate 0 ms, a \<leftarrow> anchors m]"

definition word_entries :: "(string set \<Rightarrow> string list) \<Rightarrow> mention list \<Rightarrow> (string \<times> nat) list" where
  "word_entries order ms = [(w, i). (i, m) \<leftarrow> enumerate 0 ms, w \<leftarrow> order (m_words m), 2 \<le> length w]"

text \<open>The calls of \<open>union\<close> each sieve makes.\<close>

definition sieve_exact :: "(string \<times> nat list) list \<Rightarrow> (nat \<times> nat) list" where
  "sieve_exact text_index =
     [(hd is, i). (_, is) \<leftarrow> text_index, length is > 1, i \<leftarrow> tl is]"

definition bucket_unions :: "mention list \<Rightarrow> nat list \<Rightarrow> (nat \<times> nat) list" where
  "bucket_unions ms is =
     (let multi = filter (\<lambda>i. card (m_words (ms ! i)) > 1) is;
          single = filter (\<lambda>i. card (m_words (ms ! i)) = 1) is
      in (if multi \<noteq> [] \<and> single \<noteq> [] then map (Pair (hd multi)) single else []) @
         [(multi ! i, multi ! j). i \<leftarrow> [0..<length multi], j \<leftarrow> [i + 1..<length multi],
           m_words (ms ! (multi ! i)) \<inter> m_words (ms ! (multi ! j)) \<noteq> {}])"

definition sieve_names :: "mention list \<Rightarrow> (string \<times> nat list) list \<Rightarrow> (nat \<times> nat) list" where
  "sieve_names ms word_index =
     [u. (_, is) \<leftarrow> word_index, length is > 1, u \<leftarrow> bucket_unions ms is]"

definition sieve_coref ::
  "(string \<times> nat list) list \<Rightarrow> (string \<times> nat list) list \<Rightarrow> (nat \<times> nat) list" where
  "sieve_coref text_index coref_index =
     [(i, ai). (anchor, is) \<leftarrow> coref_index, i \<leftarrow> is, ai \<leftarrow> dict_get text_index anchor []]"

definition unions :: "(string set \<Rightarrow> string list) \<Rightarrow> mention list \<Rightarrow> (nat \<times> nat) list" where
  "unions order ms =
     (let text_index = dict_build (text_entries ms); coref_index = dict_build (coref_entries ms);
          word_index = dict_build (word_entries order ms)
      in sieve_exact text_index @ sieve_names ms word_index @ sieve_coref text_index coref_index)"

definition apply_sieves ::
  "nat \<Rightarrow> (string set \<Rightarrow> string list) \<Rightarrow> mention list \<Rightarrow> recursion_error + (nat \<times> nat) list" where
  "apply_sieves d order ms =
     (let n = length ms in
      res_bind (union_all d (unions order ms) [0..<n]) (find_each d [0..<n]))"

section \<open>Entities\<close>

definition make_entity :: "string \<Rightarrow> mention list \<Rightarrow> entity" where
  "make_entity i ms =
     (let canonical = max_by (\<lambda>m. (int (length (sp_text (m_span m))), - sp_start (m_span m))) (hd ms) (tl ms);
          best = max_by (\<lambda>m. tier_value (sp_tier (m_span m))) (hd ms) (tl ms)
      in \<lparr>e_id = i, e_type = sp_entity_type (m_span best), e_canonical = sp_text (m_span canonical),
          e_mentions = ms, e_role = None\<rparr>)"

definition first_start :: "entity \<Rightarrow> int" where
  "first_start e = Min (set (map (\<lambda>m. sp_start (m_span m)) (e_mentions e)))"

definition groups_to_entities ::
  "(nat \<Rightarrow> string) \<Rightarrow> (nat \<times> nat) list \<Rightarrow> mention list \<Rightarrow> entity list" where
  "groups_to_entities ids groups ms =
     (let grouped = dict_build [(r, i). (i, r) \<leftarrow> groups]
      in sort_key first_start
           [make_entity (ids k) (map ((!) ms) is). (k, _, is) \<leftarrow> enumerate 0 grouped])"

definition resolve ::
  "nat \<Rightarrow> (string set \<Rightarrow> string list) \<Rightarrow> (nat \<Rightarrow> string) \<Rightarrow> real \<Rightarrow> span list \<Rightarrow> recursion_error + entity list" where
  "resolve d order ids min_confidence spans =
     (let eligible = filter (\<lambda>s. min_confidence \<le> sp_confidence s) spans in
      if eligible = [] then Inr []
      else (let ms = map to_mention eligible in
        res_bind (apply_sieves d order ms) (\<lambda>groups. Inr (groups_to_entities ids groups ms))))"

definition get_entity_counts :: "entity list \<Rightarrow> (string \<times> nat) list" where
  "get_entity_counts es = foldl (\<lambda>c e. dict_set (e_type e) (dict_get c (e_type e) 0 + 1) c) [] es"

section \<open>Correctness of union-find\<close>

text \<open>\<open>uf_ok p rep ht\<close>: following the parents in \<open>p\<close> leads from \<open>i\<close> to the root
  \<open>rep i\<close> in at most \<open>ht i\<close> steps. The height of a tree and the number of roots together
  never exceed the number of nodes.\<close>

definition roots :: "nat list \<Rightarrow> nat set" where
  "roots p = {i. i < length p \<and> p ! i = i}"

definition uf_ok :: "nat list \<Rightarrow> (nat \<Rightarrow> nat) \<Rightarrow> (nat \<Rightarrow> nat) \<Rightarrow> bool" where
  "uf_ok p rep ht \<longleftrightarrow>
     (\<forall>i < length p. p ! i < length p \<and> rep i \<in> roots p \<and> rep (p ! i) = rep i \<and>
        (p ! i = i \<longrightarrow> rep i = i \<and> ht i = 0) \<and> (p ! i \<noteq> i \<longrightarrow> ht (p ! i) < ht i) \<and>
        ht i + card (roots p) \<le> length p)"

lemma finite_roots [simp]: "finite (roots p)"
  by (simp add: roots_def)

lemma uf_okD:
  assumes "uf_ok p rep ht" and "i < length p"
  shows "p ! i < length p" "rep i \<in> roots p" "rep (p ! i) = rep i" "p ! i = i \<Longrightarrow> rep i = i \<and> ht i = 0"
    "p ! i \<noteq> i \<Longrightarrow> ht (p ! i) < ht i" "ht i + card (roots p) \<le> length p"
  using assms by (auto simp: uf_ok_def)

lemma uf_ok_root: "uf_ok p rep ht \<Longrightarrow> i \<in> roots p \<Longrightarrow> rep i = i \<and> ht i = 0"
  by (auto simp: uf_ok_def roots_def)

lemma uf_ok_compress:
  assumes ok: "uf_ok p rep ht" and x: "x < length p" "p ! x \<noteq> x"
  shows "uf_ok (p[x := rep x]) rep ht"
proof -
  have r: "rep x \<in> roots p" using uf_okD(2) [OF ok x(1)] .
  then have r': "rep (rep x) = rep x" "ht (rep x) = 0" "rep x < length p" "rep x \<noteq> x"
    using uf_ok_root [OF ok r] x by (auto simp: roots_def)
  have "roots (p[x := rep x]) = roots p"
    using r' x by (auto simp: roots_def nth_list_update split: if_splits)
  moreover have "0 < ht x" using uf_okD(5) [OF ok x] by simp
  ultimately show ?thesis
    using ok r r' x(1) by (simp add: uf_ok_def nth_list_update)
qed

lemma uf_find_ok:
  assumes "uf_ok p rep ht" and "x < length p" and "ht x < d"
  shows "\<exists>p'. uf_find d x p = Inr (rep x, p') \<and> uf_ok p' rep ht \<and> length p' = length p"
  using assms
proof (induction d arbitrary: x)
  case (Suc d)
  show ?case
  proof (cases "p ! x = x")
    case True
    then show ?thesis using Suc.prems uf_okD(4) [OF Suc.prems(1,2)] by auto
  next
    case False
    note px = uf_okD [OF Suc.prems(1,2)]
    then have "ht (p ! x) < d" using False Suc.prems(3) by simp
    from Suc.IH [OF Suc.prems(1) px(1) this] obtain p' where
      p': "uf_find d (p ! x) p = Inr (rep x, p')" "uf_ok p' rep ht" "length p' = length p"
      using px(3) by auto
    have "uf_ok (p'[x := rep x]) rep ht"
    proof (cases "p' ! x = x")
      case True
      then have "rep x = x" using uf_okD(4) [OF p'(2)] p'(3) Suc.prems(2) by simp
      with True p'(2) show ?thesis by (metis list_update_id)
    next
      case False
      with p' Suc.prems(2) show ?thesis by (intro uf_ok_compress) auto
    qed
    with False p' show ?thesis by auto
  qed
qed simp

lemma uf_ok_height: "uf_ok p rep ht \<Longrightarrow> i < length p \<Longrightarrow> ht i < length p"
  using uf_okD(2,6) [of p rep ht i] card_gt_0_iff [of "roots p"] by fastforce

lemma uf_ok_link:
  assumes ok: "uf_ok p rep ht" and r: "a \<in> roots p" "b \<in> roots p" "a \<noteq> b"
  shows "uf_ok (p[a := b]) (\<lambda>i. if rep i = a then b else rep i) (\<lambda>i. if rep i = a then ht i + 1 else ht i)"
proof -
  have rts: "roots (p[a := b]) = roots p - {a}"
    using r by (auto simp: roots_def nth_list_update split: if_splits)
  have c: "card (roots p) = card (roots p - {a}) + 1"
    using r(1) by (metis Suc_eq_plus1 card_Suc_Diff1 finite_roots)
  have ab: "rep a = a" "ht a = 0" "rep b = b" "ht b = 0" "a < length p" "b < length p" "p ! a = a"
    using uf_ok_root [OF ok] r by (auto simp: roots_def)
  show ?thesis
    unfolding uf_ok_def rts
  proof (intro allI impI)
    fix i assume "i < length (p[a := b])"
    then have i: "i < length p" by simp
    note D = uf_okD [OF ok i]
    show "(p[a := b]) ! i < length (p[a := b]) \<and> (if rep i = a then b else rep i) \<in> roots p - {a} \<and>
      (if rep ((p[a := b]) ! i) = a then b else rep ((p[a := b]) ! i)) = (if rep i = a then b else rep i) \<and>
      ((p[a := b]) ! i = i \<longrightarrow> (if rep i = a then b else rep i) = i \<and> (if rep i = a then ht i + 1 else ht i) = 0) \<and>
      ((p[a := b]) ! i \<noteq> i \<longrightarrow> (if rep ((p[a := b]) ! i) = a then ht ((p[a := b]) ! i) + 1 else ht ((p[a := b]) ! i))
        < (if rep i = a then ht i + 1 else ht i)) \<and>
      (if rep i = a then ht i + 1 else ht i) + card (roots p - {a}) \<le> length (p[a := b])"
    proof (cases "i = a")
      case True
      then show ?thesis using r ab c D(6) by (simp add: nth_list_update)
    next
      case False
      then have "(p[a := b]) ! i = p ! i" by simp
      moreover have "rep i \<noteq> a \<longrightarrow> rep i \<in> roots p - {a}" "b \<in> roots p - {a}" using D(2) r by auto
      moreover have "p ! i = i \<longrightarrow> rep i = i" "p ! i = i \<longrightarrow> ht i = 0" using D(4) by auto
      moreover have "ht i + 1 + card (roots p - {a}) \<le> length p" using D(6) c by simp
      ultimately show ?thesis using D(1,3,5) False by simp
    qed
  qed
qed

section \<open>Sequences of unions\<close>

lemma equivclp_least:
  assumes "equivclp R a b" and "\<And>x y. R x y \<Longrightarrow> equivclp S x y"
  shows "equivclp S a b"
  using assms(1)
proof (induction rule: equivclp_induct)
  case (step y z)
  then have "equivclp S y z" using assms(2) equivclp_sym [of S z y] by blast
  with step.IH show ?case by (rule equivclp_trans)
qed simp

text \<open>What the sieves rely on: \<open>find\<close> answers the representative, \<open>unite\<close> moves one class
  to the representative of another. A sequence of unions then computes the equivalence closure of
  its pairs.\<close>

locale partition_store =
  fixes n :: nat and inv :: "'p \<Rightarrow> (nat \<Rightarrow> nat) \<Rightarrow> bool"
    and find_op :: "nat \<Rightarrow> 'p \<Rightarrow> 'e + (nat \<times> 'p)" and unite :: "nat \<Rightarrow> nat \<Rightarrow> 'p \<Rightarrow> 'e + 'p"
  assumes find_rep: "inv p rep \<Longrightarrow> x < n \<Longrightarrow> \<exists>p'. find_op x p = Inr (rep x, p') \<and> inv p' rep"
    and unite_rep: "inv p rep \<Longrightarrow> x < n \<Longrightarrow> y < n \<Longrightarrow>
      \<exists>p'. unite x y p = Inr p' \<and> inv p' (\<lambda>i. if rep i = rep x then rep y else rep i)"
begin

lemma unions_close:
  assumes run: "\<And>p. run [] p = Inr p" "\<And>x y ps p. run ((x, y) # ps) p = res_bind (unite x y p) (run ps)"
    and "inv p rep" and "\<And>x y. (x, y) \<in> set ps \<Longrightarrow> x < n \<and> y < n"
    and "\<And>x y. (x, y) \<in> E \<Longrightarrow> rep x = rep y"
    and "\<And>i. i < n \<Longrightarrow> equivclp (\<lambda>a b. (a, b) \<in> E) i (rep i)"
  shows "\<exists>p' rep'. run ps p = Inr p' \<and> inv p' rep' \<and> (\<forall>x y. (x, y) \<in> E \<union> set ps \<longrightarrow> rep' x = rep' y) \<and>
    (\<forall>i < n. equivclp (\<lambda>a b. (a, b) \<in> E \<union> set ps) i (rep' i))"
  using assms(3-)
proof (induction ps arbitrary: p rep E)
  case (Cons xy ps)
  obtain x y where xy: "xy = (x, y)" by force
  then have xn: "x < n" "y < n" using Cons.prems(2) by auto
  let ?rep = "\<lambda>i. if rep i = rep x then rep y else rep i" and ?E = "insert (x, y) E"
  obtain p' where p': "unite x y p = Inr p'" "inv p' ?rep" using unite_rep [OF Cons.prems(1) xn] by blast
  have sub: "equivclp (\<lambda>a b. (a, b) \<in> ?E) i (rep i)" if "i < n" for i
    using Cons.prems(4) [OF that] by (rule equivclp_least) auto
  have xy_rep: "equivclp (\<lambda>a b. (a, b) \<in> ?E) (rep x) (rep y)"
  proof -
    have "equivclp (\<lambda>a b. (a, b) \<in> ?E) x y" by (rule r_into_equivclp) simp
    with equivclp_sym [OF sub [OF xn(1)]] have "equivclp (\<lambda>a b. (a, b) \<in> ?E) (rep x) y"
      by (rule equivclp_trans)
    then show ?thesis using sub [OF xn(2)] by (rule equivclp_trans)
  qed
  have "equivclp (\<lambda>a b. (a, b) \<in> ?E) i (?rep i)" if "i < n" for i
    using sub [OF that] xy_rep equivclp_trans [of _ i "rep x" "rep y"] by (cases "rep i = rep x") simp_all
  moreover have "?rep a = ?rep b" if "(a, b) \<in> ?E" for a b
    using that Cons.prems(3) by auto
  moreover have "a < n \<and> b < n" if "(a, b) \<in> set ps" for a b
    by (rule Cons.prems(2)) (simp add: that)
  ultimately have "\<exists>q rep'. run ps p' = Inr q \<and> inv q rep' \<and> (\<forall>x y. (x, y) \<in> ?E \<union> set ps \<longrightarrow> rep' x = rep' y) \<and>
      (\<forall>i < n. equivclp (\<lambda>a b. (a, b) \<in> ?E \<union> set ps) i (rep' i))"
    using p'(2) by (intro Cons.IH)
  moreover have "?E \<union> set ps = E \<union> set (xy # ps)" using xy by auto
  moreover have "run (xy # ps) p = run ps p'" using p'(1) by (simp add: run xy)
  ultimately show ?case by (simp only:)
next
  case Nil
  then show ?case by (auto simp: run)
qed

lemma unions_equivalence:
  assumes run: "\<And>p. run [] p = Inr p" "\<And>x y ps p. run ((x, y) # ps) p = res_bind (unite x y p) (run ps)"
    and "inv p (\<lambda>i. i)" and "\<And>x y. (x, y) \<in> set ps \<Longrightarrow> x < n \<and> y < n"
  shows "\<exists>p' rep. run ps p = Inr p' \<and> inv p' rep \<and>
    (\<forall>i < n. \<forall>j < n. rep i = rep j \<longleftrightarrow> equivclp (\<lambda>a b. (a, b) \<in> set ps) i j)"
proof -
  obtain p' rep where r: "run ps p = Inr p'" "inv p' rep" "\<forall>x y. (x, y) \<in> set ps \<longrightarrow> rep x = rep y"
    "\<forall>i < n. equivclp (\<lambda>a b. (a, b) \<in> set ps) i (rep i)"
    using unions_close [where run = run and E = "{}" and ps = ps, OF run assms(3,4)] by auto
  have "rep i = rep j" if "equivclp (\<lambda>a b. (a, b) \<in> set ps) i j" for i j
    using that by (induction rule: equivclp_induct) (use r(3) in auto)
  moreover have "equivclp (\<lambda>a b. (a, b) \<in> set ps) i j" if "i < n" "j < n" "rep i = rep j" for i j
  proof -
    have "equivclp (\<lambda>a b. (a, b) \<in> set ps) i (rep j)" using r(4) that(1,3) by auto
    moreover have "equivclp (\<lambda>a b. (a, b) \<in> set ps) (rep j) j" using r(4) that(2) by (blast intro: equivclp_sym)
    ultimately show ?thesis by (rule equivclp_trans)
  qed
  ultimately show ?thesis using r(1,2) by blast
qed

lemma finds_reps:
  assumes run: "\<And>p. run [] p = Inr []" "\<And>i is p. run (i # is) p = res_bind (find_op i p) (\<lambda>(r, p).
      res_bind (run is p) (\<lambda>gs. Inr ((i, r) # gs)))"
    and "inv p rep" and "\<forall>i \<in> set is. i < n"
  shows "run is p = Inr (map (\<lambda>i. (i, rep i)) is)"
  using assms(3,4)
proof (induction "is" arbitrary: p)
  case (Cons i "is")
  then obtain p' where "find_op i p = Inr (rep i, p')" "inv p' rep" using find_rep [of p rep i] by auto
  with Cons show ?case by (simp add: run)
qed (simp add: run)

end

definition uf_inv :: "nat \<Rightarrow> nat list \<Rightarrow> (nat \<Rightarrow> nat) \<Rightarrow> bool" where
  "uf_inv n p rep \<longleftrightarrow> length p = n \<and> (\<exists>ht. uf_ok p rep ht)"

lemma uf_find_rep:
  assumes "uf_inv n p rep" and "x < n" and "n \<le> d"
  shows "\<exists>p'. uf_find d x p = Inr (rep x, p') \<and> uf_inv n p' rep"
proof -
  obtain ht where ok: "uf_ok p rep ht" "length p = n" using assms(1) by (auto simp: uf_inv_def)
  with assms uf_ok_height [OF ok(1), of x] uf_find_ok [OF ok(1), of x d] show ?thesis
    by (auto simp: uf_inv_def)
qed

lemma uf_union_rep:
  assumes "uf_inv n p rep" and "x < n" and "y < n" and "n \<le> d"
  shows "\<exists>p'. uf_union d x y p = Inr p' \<and> uf_inv n p' (\<lambda>i. if rep i = rep x then rep y else rep i)"
proof -
  obtain p1 where p1: "uf_find d x p = Inr (rep x, p1)" "uf_inv n p1 rep"
    using uf_find_rep [OF assms(1,2,4)] by blast
  obtain p2 where p2: "uf_find d y p1 = Inr (rep y, p2)" "uf_inv n p2 rep"
    using uf_find_rep [OF p1(2) assms(3,4)] by blast
  then obtain ht where ok: "uf_ok p2 rep ht" "length p2 = n" by (auto simp: uf_inv_def)
  have "rep x \<in> roots p2" "rep y \<in> roots p2" using uf_okD(2) [OF ok(1)] ok(2) assms(2,3) by auto
  from uf_ok_link [OF ok(1) this] ok(2)
  have "rep x \<noteq> rep y \<Longrightarrow> uf_inv n (p2[rep x := rep y]) (\<lambda>i. if rep i = rep x then rep y else rep i)"
    by (auto simp: uf_inv_def)
  moreover have "rep x = rep y \<Longrightarrow> (\<lambda>i. if rep i = rep x then rep y else rep i) = rep" by auto
  ultimately show ?thesis using p1(1) p2 by (auto simp: uf_union_def)
qed

lemma uf_start: "uf_inv n [0..<n] (\<lambda>i. i)"
proof -
  have "roots [0..<n] = {0..<n}" by (auto simp: roots_def)
  then have "uf_ok [0..<n] (\<lambda>i. i) (\<lambda>_. 0)" by (simp add: uf_ok_def)
  then show ?thesis by (auto simp: uf_inv_def)
qed

text \<open>The interface on the index list: it holds as soon as the recursion limit is at least the
  number of mentions.\<close>

interpretation uf: partition_store n "uf_inv n" "uf_find (n + k)" "uf_union (n + k)" for n k
  by unfold_locales (auto intro: uf_find_rep uf_union_rep)

lemma sieve_groups:
  assumes "length ms \<le> d" and "\<And>x y. (x, y) \<in> set (unions order ms) \<Longrightarrow> x < length ms \<and> y < length ms"
  shows "\<exists>rep. apply_sieves d order ms = Inr (map (\<lambda>i. (i, rep i)) [0..<length ms]) \<and>
    (\<forall>i < length ms. \<forall>j < length ms. rep i = rep j \<longleftrightarrow> equivclp (\<lambda>a b. (a, b) \<in> set (unions order ms)) i j)"
proof -
  let ?n = "length ms"
  obtain k where d: "d = ?n + k" using assms(1) le_Suc_ex by blast
  obtain p rep where p: "union_all d (unions order ms) [0..<?n] = Inr p" "uf_inv ?n p rep"
    "\<forall>i < ?n. \<forall>j < ?n. rep i = rep j \<longleftrightarrow> equivclp (\<lambda>a b. (a, b) \<in> set (unions order ms)) i j"
    using uf.unions_equivalence [where run = "union_all d" and k = k and ps = "unions order ms", OF _ _ uf_start assms(2)]
    unfolding d by auto
  moreover have "find_each d [0..<?n] p = Inr (map (\<lambda>i. (i, rep i)) [0..<?n])"
    using uf.finds_reps [where run = "find_each d" and k = k, OF _ _ p(2)] by (simp add: d)
  ultimately show ?thesis by (auto simp: apply_sieves_def)
qed

section \<open>What the sieves link\<close>

definition good_order :: "(string set \<Rightarrow> string list) \<Rightarrow> bool" where
  "good_order order \<longleftrightarrow> (\<forall>W. finite W \<longrightarrow> set (order W) = W \<and> distinct (order W))"

definition same_text :: "mention list \<Rightarrow> nat \<Rightarrow> nat \<Rightarrow> bool" where
  "same_text ms i j \<longleftrightarrow> m_norm (ms ! i) = m_norm (ms ! j)"

definition share_name :: "mention list \<Rightarrow> nat \<Rightarrow> nat \<Rightarrow> bool" where
  "share_name ms i j \<longleftrightarrow> (\<exists>w. 2 \<le> length w \<and> w \<in> m_words (ms ! i) \<and> w \<in> m_words (ms ! j) \<and>
     (\<exists>m \<in> set ms. w \<in> m_words m \<and> 1 < card (m_words m)))"

definition refers_to :: "mention list \<Rightarrow> nat \<Rightarrow> nat \<Rightarrow> bool" where
  "refers_to ms i j \<longleftrightarrow> m_norm (ms ! j) \<in> set (anchors (ms ! i))"

definition linked :: "mention list \<Rightarrow> nat \<Rightarrow> nat \<Rightarrow> bool" where
  "linked ms i j \<longleftrightarrow> i < length ms \<and> j < length ms \<and> (same_text ms i j \<or> share_name ms i j \<or> refers_to ms i j)"

lemma text_entries_iff: "(k, i) \<in> set (text_entries ms) \<longleftrightarrow> i < length ms \<and> m_norm (ms ! i) = k"
  by (force simp: text_entries_def in_set_enumerate_eq)

lemma coref_entries_iff: "(k, i) \<in> set (coref_entries ms) \<longleftrightarrow> i < length ms \<and> k \<in> set (anchors (ms ! i))"
  by (force simp: coref_entries_def in_set_enumerate_eq)

lemma word_entries_iff:
  assumes "good_order order" and "\<forall>m \<in> set ms. finite (m_words m)"
  shows "(w, i) \<in> set (word_entries order ms) \<longleftrightarrow> i < length ms \<and> w \<in> m_words (ms ! i) \<and> 2 \<le> length w"
proof -
  have "set (order (m_words (ms ! i))) = m_words (ms ! i)" if "i < length ms"
    using assms that nth_mem by (auto simp: good_order_def)
  then show ?thesis by (force simp: word_entries_def in_set_enumerate_eq)
qed

lemma sieve_exact_sound:
  "(i, j) \<in> set (sieve_exact (dict_build es)) \<Longrightarrow> \<exists>k. (k, i) \<in> set es \<and> (k, j) \<in> set es"
proof -
  assume "(i, j) \<in> set (sieve_exact (dict_build es))"
  then obtain k "is" where b: "(k, is) \<in> set (dict_build es)" "i = hd is" "j \<in> set (tl is)" "length is > 1"
    by (auto simp: sieve_exact_def split: if_splits)
  then have "i \<in> set is" "j \<in> set is" by (cases "is"; auto)+
  with b(1) show ?thesis by (auto simp: set_dict_build set_values_of)
qed

lemma sieve_exact_complete:
  assumes "(k, i) \<in> set es" and "(k, j) \<in> set es"
  shows "equivclp (\<lambda>a b. (a, b) \<in> set (sieve_exact (dict_build es))) i j"
proof -
  let ?is = "values_of k es" and ?R = "equivclp (\<lambda>a b. (a, b) \<in> set (sieve_exact (dict_build es)))"
  have b: "(k, ?is) \<in> set (dict_build es)" using assms by (force simp: set_dict_build)
  have hd: "?R (hd ?is) a" if "a \<in> set ?is" for a
  proof (cases "a = hd ?is")
    case False
    with that have "a \<in> set (tl ?is)" "length ?is > 1" by (cases ?is; auto)+
    with b have "(hd ?is, a) \<in> set (sieve_exact (dict_build es))" unfolding sieve_exact_def by force
    then show ?thesis by (rule r_into_equivclp)
  qed simp
  have "i \<in> set ?is" "j \<in> set ?is" using assms by (auto simp: set_values_of)
  then show ?thesis using equivclp_trans [OF equivclp_sym [OF hd] hd] by blast
qed

lemma nth_filter_mem: "k < length (filter P xs) \<Longrightarrow> filter P xs ! k \<in> set xs \<and> P (filter P xs ! k)"
  using nth_mem [of k "filter P xs"] by simp

lemma later_pairs_iff:
  "(a, b) \<in> set [(xs ! i, xs ! j). i \<leftarrow> [0..<length xs], j \<leftarrow> [i + 1..<length xs], P (xs ! i) (xs ! j)] \<longleftrightarrow>
    (\<exists>i j. i < j \<and> j < length xs \<and> a = xs ! i \<and> b = xs ! j \<and> P a b)"
proof
  assume "(a, b) \<in> set [(xs ! i, xs ! j). i \<leftarrow> [0..<length xs], j \<leftarrow> [i + 1..<length xs], P (xs ! i) (xs ! j)]"
  then obtain i j where "i \<in> set [0..<length xs]" "j \<in> set [i + 1..<length xs]"
    "(a, b) \<in> set (if P (xs ! i) (xs ! j) then [(xs ! i, xs ! j)] else [])"
    unfolding in_concat_map by blast
  then have "i < j \<and> j < length xs \<and> a = xs ! i \<and> b = xs ! j \<and> P a b" by (auto split: if_splits)
  then show "\<exists>i j. i < j \<and> j < length xs \<and> a = xs ! i \<and> b = xs ! j \<and> P a b" by (intro exI)
next
  assume "\<exists>i j. i < j \<and> j < length xs \<and> a = xs ! i \<and> b = xs ! j \<and> P a b"
  then obtain i j where ij: "i < j" "j < length xs" "a = xs ! i" "b = xs ! j" "P (xs ! i) (xs ! j)" by blast
  then show "(a, b) \<in> set [(xs ! i, xs ! j). i \<leftarrow> [0..<length xs], j \<leftarrow> [i + 1..<length xs], P (xs ! i) (xs ! j)]"
    unfolding in_comprehension by (intro bexI [of _ i] bexI [of _ j]) auto
qed

lemma bucket_unions_iff:
  fixes ms :: "mention list" and "is" :: "nat list"
  defines "multi \<equiv> filter (\<lambda>i. card (m_words (ms ! i)) > 1) is"
  shows "(a, b) \<in> set (bucket_unions ms is) \<longleftrightarrow>
    (multi \<noteq> [] \<and> a = hd multi \<and> b \<in> set is \<and> card (m_words (ms ! b)) = 1) \<or>
    (\<exists>i j. i < j \<and> j < length multi \<and> a = multi ! i \<and> b = multi ! j \<and> m_words (ms ! a) \<inter> m_words (ms ! b) \<noteq> {})"
proof -
  have "set (if multi \<noteq> [] \<and> filter (\<lambda>i. card (m_words (ms ! i)) = 1) is \<noteq> []
      then map (Pair (hd multi)) (filter (\<lambda>i. card (m_words (ms ! i)) = 1) is) else [])
    = (if multi \<noteq> [] then Pair (hd multi) ` {i \<in> set is. card (m_words (ms ! i)) = 1} else {})"
    by (auto simp: filter_empty_conv)
  then show ?thesis
    unfolding bucket_unions_def Let_def multi_def [symmetric] set_append Un_iff
      later_pairs_iff [where xs = multi and P = "\<lambda>a b. m_words (ms ! a) \<inter> m_words (ms ! b) \<noteq> {}"]
    by auto
qed

lemma bucket_unions_sound:
  assumes "(i, j) \<in> set (bucket_unions ms is)"
  shows "i \<in> set is \<and> j \<in> set is \<and> 1 < card (m_words (ms ! i))"
proof -
  let ?multi = "filter (\<lambda>i. card (m_words (ms ! i)) > 1) is"
  consider "i = hd ?multi" "?multi \<noteq> []" "j \<in> set is" | p q where "p < q" "q < length ?multi" "i = ?multi ! p" "j = ?multi ! q"
    using assms unfolding bucket_unions_iff by blast
  then show ?thesis
  proof cases
    case 1
    then have "i \<in> set ?multi" using hd_in_set by blast
    with 1 show ?thesis by simp
  next
    case 2
    with nth_filter_mem [of p "\<lambda>i. card (m_words (ms ! i)) > 1" "is"]
      nth_filter_mem [of q "\<lambda>i. card (m_words (ms ! i)) > 1" "is"] show ?thesis by simp
  qed
qed

lemma bucket_unions_complete:
  assumes w: "\<And>i. i \<in> set is \<Longrightarrow> w \<in> m_words (ms ! i) \<and> finite (m_words (ms ! i))"
    and k: "k \<in> set is" "1 < card (m_words (ms ! k))" and ij: "i \<in> set is" "j \<in> set is"
  shows "equivclp (\<lambda>a b. (a, b) \<in> set (bucket_unions ms is)) i j"
proof -
  let ?multi = "filter (\<lambda>i. card (m_words (ms ! i)) > 1) is"
  let ?R = "equivclp (\<lambda>a b. (a, b) \<in> set (bucket_unions ms is))"
  have ne: "?multi \<noteq> []" using k by (auto simp: filter_empty_conv)
  have hd: "?R (hd ?multi) a" if a: "a \<in> set is" for a
  proof (cases "card (m_words (ms ! a)) = 1")
    case True
    with a ne have "(hd ?multi, a) \<in> set (bucket_unions ms is)" unfolding bucket_unions_iff by blast
    then show ?thesis by (rule r_into_equivclp)
  next
    case False
    have "card (m_words (ms ! a)) > 0" using w [OF a] by (auto simp: card_gt_0_iff)
    with False a have "a \<in> set ?multi" by auto
    then obtain q where q: "q < length ?multi" "a = ?multi ! q" using in_set_conv_nth [of a ?multi] by metis
    show ?thesis
    proof (cases q)
      case 0
      with q ne show ?thesis by (simp add: hd_conv_nth)
    next
      case (Suc q')
      have "?multi ! 0 \<in> set is" "?multi ! q \<in> set is" 
        using q(1) Suc ne nth_filter_mem [of 0 "\<lambda>i. card (m_words (ms ! i)) > 1" "is"]
          nth_filter_mem [of q "\<lambda>i. card (m_words (ms ! i)) > 1" "is"] by simp_all
      then have "m_words (ms ! (?multi ! 0)) \<inter> m_words (ms ! (?multi ! q)) \<noteq> {}" using w by blast
      then have "(?multi ! 0, ?multi ! q) \<in> set (bucket_unions ms is)"
        using q(1) Suc unfolding bucket_unions_iff by blast
      then show ?thesis using q ne by (simp add: hd_conv_nth r_into_equivclp)
    qed
  qed
  then show ?thesis using equivclp_trans [OF equivclp_sym [OF hd] hd] ij by blast
qed

lemma sieve_coref_iff:
  "(i, j) \<in> set (sieve_coref (dict_build es) (dict_build cs)) \<longleftrightarrow> (\<exists>a. (a, i) \<in> set cs \<and> (a, j) \<in> set es)"
proof -
  have get: "j \<in> set (dict_get (dict_build es) a []) \<longleftrightarrow> (a, j) \<in> set es" for a j
    by (force simp: dict_get_def map_of_dict_build set_values_of)
  show ?thesis
  proof
    assume "(i, j) \<in> set (sieve_coref (dict_build es) (dict_build cs))"
    then obtain a "is" where "(a, is) \<in> set (dict_build cs)" "i \<in> set is" "j \<in> set (dict_get (dict_build es) a [])"
      by (auto simp: sieve_coref_def)
    then show "\<exists>a. (a, i) \<in> set cs \<and> (a, j) \<in> set es"
      by (auto simp: set_dict_build set_values_of get)
  next
    assume "\<exists>a. (a, i) \<in> set cs \<and> (a, j) \<in> set es"
    then obtain a where a: "(a, i) \<in> set cs" "(a, j) \<in> set es" by blast
    then have "(a, values_of a cs) \<in> set (dict_build cs)" by (force simp: set_dict_build)
    moreover have "i \<in> set (values_of a cs)" using a by (simp add: set_values_of)
    moreover have "j \<in> set (dict_get (dict_build es) a [])" using a by (simp add: get)
    ultimately show "(i, j) \<in> set (sieve_coref (dict_build es) (dict_build cs))"
      unfolding sieve_coref_def in_concat_map by (intro bexI [of _ "(a, values_of a cs)"]) auto
  qed
qed

lemma unions_linked:
  assumes "good_order order" and "\<forall>m \<in> set ms. finite (m_words m)" and "(i, j) \<in> set (unions order ms)"
  shows "linked ms i j"
proof -
  consider "(i, j) \<in> set (sieve_exact (dict_build (text_entries ms)))"
    | "(i, j) \<in> set (sieve_names ms (dict_build (word_entries order ms)))"
    | "(i, j) \<in> set (sieve_coref (dict_build (text_entries ms)) (dict_build (coref_entries ms)))"
    using assms(3) by (auto simp: unions_def Let_def)
  then show ?thesis
  proof cases
    case 1
    then show ?thesis
      by (auto dest!: sieve_exact_sound simp: text_entries_iff linked_def same_text_def)
  next
    case 2
    then obtain w "is" where b: "(w, is) \<in> set (dict_build (word_entries order ms))" "(i, j) \<in> set (bucket_unions ms is)"
      by (auto simp: sieve_names_def split: if_splits)
    then have "(w, i) \<in> set (word_entries order ms)" "(w, j) \<in> set (word_entries order ms)" "1 < card (m_words (ms ! i))"
      using bucket_unions_sound [OF b(2)] by (auto simp: set_dict_build set_values_of)
    moreover have "ms ! i \<in> set ms" if "i < length ms" using that by simp
    ultimately show ?thesis
      unfolding word_entries_iff [OF assms(1,2)] linked_def share_name_def by blast
  next
    case 3
    then show ?thesis
      by (auto simp: sieve_coref_iff text_entries_iff coref_entries_iff linked_def refers_to_def)
  qed
qed

lemma linked_closed:
  assumes "good_order order" and "\<forall>m \<in> set ms. finite (m_words m)" and "linked ms i j"
  shows "equivclp (\<lambda>a b. (a, b) \<in> set (unions order ms)) i j"
proof -
  let ?T = "dict_build (text_entries ms)"
  have i: "i < length ms" "j < length ms" using assms(3) by (auto simp: linked_def)
  consider "same_text ms i j" | "share_name ms i j" | "refers_to ms i j" using assms(3) by (auto simp: linked_def)
  then show ?thesis
  proof cases
    case 1
    then have "equivclp (\<lambda>a b. (a, b) \<in> set (sieve_exact ?T)) i j"
      using i by (intro sieve_exact_complete) (auto simp: text_entries_iff same_text_def)
    then show ?thesis by (rule equivclp_least) (auto simp: unions_def Let_def)
  next
    case 2
    then obtain w k where w: "2 \<le> length w" "w \<in> m_words (ms ! i)" "w \<in> m_words (ms ! j)"
      "k < length ms" "w \<in> m_words (ms ! k)" "1 < card (m_words (ms ! k))"
      by (auto simp: share_name_def in_set_conv_nth)
    let ?is = "values_of w (word_entries order ms)"
    have mem: "a \<in> set ?is \<longleftrightarrow> a < length ms \<and> w \<in> m_words (ms ! a)" for a
      using w(1) by (simp add: set_values_of word_entries_iff [OF assms(1,2)])
    have bucket: "(w, ?is) \<in> set (dict_build (word_entries order ms))"
      using mem [of i] i(1) w(2) by (force simp: set_dict_build set_values_of)
    have eq: "equivclp (\<lambda>a b. (a, b) \<in> set (bucket_unions ms ?is)) i j"
      using assms(2) w i by (intro bucket_unions_complete [where w = w and k = k]) (auto simp: mem)
    show ?thesis
    proof (cases "1 < length ?is")
      case True
      from eq show ?thesis
      proof (rule equivclp_least)
        fix a b assume "(a, b) \<in> set (bucket_unions ms ?is)"
        with bucket True have "(a, b) \<in> set (sieve_names ms (dict_build (word_entries order ms)))"
          unfolding sieve_names_def in_concat_map by (intro bexI [of _ "(w, ?is)"]) auto
        then show "equivclp (\<lambda>a b. (a, b) \<in> set (unions order ms)) a b"
          by (intro r_into_equivclp) (simp add: unions_def Let_def)
      qed
    next
      case False
      then have "i = j" using mem [of i] mem [of j] i w(2,3) by (cases ?is) auto
      then show ?thesis by simp
    qed
  next
    case 3
    then have "(i, j) \<in> set (unions order ms)"
      using i by (auto simp: unions_def Let_def sieve_coref_iff text_entries_iff coref_entries_iff refers_to_def)
    then show ?thesis by (rule r_into_equivclp)
  qed
qed

abbreviation same_entity :: "mention list \<Rightarrow> nat \<Rightarrow> nat \<Rightarrow> bool" where
  "same_entity ms \<equiv> equivclp (linked ms)"

lemma unions_same_entity:
  assumes "good_order order" and "\<forall>m \<in> set ms. finite (m_words m)"
  shows "equivclp (\<lambda>a b. (a, b) \<in> set (unions order ms)) i j \<longleftrightarrow> same_entity ms i j"
proof
  assume "equivclp (\<lambda>a b. (a, b) \<in> set (unions order ms)) i j"
  then show "same_entity ms i j"
    by (rule equivclp_least) (rule r_into_equivclp, rule unions_linked [OF assms])
next
  assume "same_entity ms i j"
  then show "equivclp (\<lambda>a b. (a, b) \<in> set (unions order ms)) i j"
    by (rule equivclp_least) (rule linked_closed [OF assms])
qed

lemma sieve_partition:
  assumes "good_order order" and "\<forall>m \<in> set ms. finite (m_words m)" and "length ms \<le> d"
  shows "\<exists>rep. apply_sieves d order ms = Inr (map (\<lambda>i. (i, rep i)) [0..<length ms]) \<and>
    (\<forall>i < length ms. \<forall>j < length ms. rep i = rep j \<longleftrightarrow> same_entity ms i j)"
proof -
  have "x < length ms \<and> y < length ms" if "(x, y) \<in> set (unions order ms)" for x y
    using unions_linked [OF assms(1,2) that] by (simp add: linked_def)
  from sieve_groups [where order = order, OF assms(3) this] show ?thesis
    by (simp only: unions_same_entity [OF assms(1,2)])
qed

section \<open>The resolved entities\<close>

text \<open>The classes of a relation on the positions of a list, by their first members.\<close>

definition classes :: "(nat \<Rightarrow> nat \<Rightarrow> bool) \<Rightarrow> nat \<Rightarrow> nat list list" where
  "classes R n = map (\<lambda>i. filter (R i) [0..<n]) (filter (\<lambda>i. \<forall>j < i. \<not> R j i) [0..<n])"

definition entities_of :: "(nat \<Rightarrow> string) \<Rightarrow> mention list \<Rightarrow> entity list" where
  "entities_of ids ms = sort_key first_start
     (map (\<lambda>(k, is). make_entity (ids k) (map ((!) ms) is)) (enumerate 0 (classes (same_entity ms) (length ms))))"

lemma groups_classes:
  assumes "\<And>i j. i < n \<Longrightarrow> j < n \<Longrightarrow> rep i = rep j \<longleftrightarrow> R i j"
  shows "map snd (dict_build (map (\<lambda>i. (rep i, i)) [0..<n])) = classes R n"
proof -
  have "filter (\<lambda>j. rep j = rep i) [0..<n] = filter (R i) [0..<n]" if "i < n" for i
    by (rule filter_cong [OF refl]) (metis assms that atLeastLessThan_iff set_upt)
  moreover have "filter (\<lambda>i. \<forall>j < i. rep j \<noteq> rep i) [0..<n] = filter (\<lambda>i. \<forall>j < i. \<not> R j i) [0..<n]"
    using assms by (intro filter_cong) auto
  ultimately show ?thesis by (simp add: dict_build_by uniq_by_upt classes_def comp_def)
qed

lemma enumerate_map_snd: "[g k v. (k, _, v) \<leftarrow> enumerate n d] = map (\<lambda>(k, v). g k v) (enumerate n (map snd d))"
  by (induction d arbitrary: n) auto

lemma to_mention_finite: "finite (m_words (to_mention s))"
  by (simp add: to_mention_def get_words_def Let_def)

lemma resolved_entities:
  assumes "good_order order" and "length spans \<le> d"
  shows "resolve d order ids c spans =
    Inr (entities_of ids (map to_mention (filter (\<lambda>s. c \<le> sp_confidence s) spans)))"
proof -
  let ?el = "filter (\<lambda>s. c \<le> sp_confidence s) spans"
  let ?ms = "map to_mention ?el"
  have fin: "\<forall>m \<in> set ?ms. finite (m_words m)" by (auto simp: to_mention_finite)
  have "length ?ms \<le> d" 
    using assms(2) by (simp add: le_trans [OF length_filter_le])
  from sieve_partition [OF assms(1) fin this] obtain rep where
    rep: "apply_sieves d order ?ms = Inr (map (\<lambda>i. (i, rep i)) [0..<length ?ms])"
    "\<And>i j. i < length ?ms \<Longrightarrow> j < length ?ms \<Longrightarrow> rep i = rep j \<longleftrightarrow> same_entity ?ms i j" by blast
  have "map snd (dict_build (map (\<lambda>i. (rep i, i)) [0..<length ?ms])) = classes (same_entity ?ms) (length ?ms)"
    using rep(2) by (rule groups_classes)
  then have "groups_to_entities ids (map (\<lambda>i. (i, rep i)) [0..<length ?ms]) ?ms = entities_of ids ?ms"
    unfolding groups_to_entities_def Let_def entities_of_def enumerate_map_snd
    by (simp add: comp_def del: length_map)
  moreover have "entities_of ids [] = []" by (simp add: entities_of_def classes_def)
  ultimately show ?thesis using rep(1) by (auto simp: resolve_def Let_def)
qed

text \<open>
  C25: Entity resolution computes the identity of mentions exactly: as long as the recursion limit is
  at least the number of spans it never raises, and two mentions end up in one entity precisely when
  a chain of links connects them, a link being an equal normalized text, a common word of two names
  of which one has several words, or a coreference anchor that names the other's text. The result
  does not depend on the order in which Python iterates over a set of words.
\<close>

theorem resolve_by_identity:
  assumes "good_order order" and "length spans \<le> d"
  shows "resolve d order ids c spans =
    Inr (entities_of ids (map to_mention (filter (\<lambda>s. c \<le> sp_confidence s) spans)))"
  using assms by (rule resolved_entities)

lemma good_order_sorted: "good_order sorted_list_of_set"
  by (simp add: good_order_def)

definition ex_name :: "int \<Rightarrow> string \<Rightarrow> tier \<Rightarrow> span" where
  "ex_name start src tr = \<lparr>sp_start = start, sp_end = start + int (length src), sp_text = src,
     sp_entity_type = ''NAME'', sp_confidence = 9/10, sp_detector = ''ml'', sp_tier = tr, sp_context = None,
     sp_needs_review = False, sp_review_reason = None, sp_coref_anchor_value = None\<rparr>"

theorem resolve_by_identity_witness:
  "resolve 3 sorted_list_of_set show_nat (7/10) [ex_name 0 ''Ann Lee'' TIER_ML, ex_name 9 ''Dr. Lee'' TIER_PATTERN] =
    Inr (entities_of show_nat (map to_mention [ex_name 0 ''Ann Lee'' TIER_ML, ex_name 9 ''Dr. Lee'' TIER_PATTERN]))"
  using resolve_by_identity [OF good_order_sorted, of "[ex_name 0 ''Ann Lee'' TIER_ML, ex_name 9 ''Dr. Lee'' TIER_PATTERN]" 3 show_nat "7/10"]
  by (simp add: ex_name_def)

lemma distinct_concat_map:
  "distinct xs \<Longrightarrow> (\<And>x. x \<in> set xs \<Longrightarrow> distinct (f x)) \<Longrightarrow>
    (\<And>x y. x \<in> set xs \<Longrightarrow> y \<in> set xs \<Longrightarrow> x \<noteq> y \<Longrightarrow> set (f x) \<inter> set (f y) = {}) \<Longrightarrow> distinct (concat (map f xs))"
  by (induction xs) force+

lemma class_members:
  assumes "equivp R" and "is \<in> set (classes R n)"
  shows "is \<noteq> [] \<and> (\<forall>i \<in> set is. i < n) \<and> (\<forall>i \<in> set is. \<forall>j < n. R i j \<longleftrightarrow> j \<in> set is)"
proof -
  obtain i where i: "i < n" "is = filter (R i) [0..<n]" using assms(2) by (auto simp: classes_def)
  have "R i i" using assms(1) by (rule equivp_reflp)
  have *: "R a b \<longleftrightarrow> R i b" if "R i a" for a b
    using equivp_transp [OF assms(1) that, of b]
      equivp_transp [OF assms(1) equivp_symp [OF assms(1) that], of b] by blast
  have "is \<noteq> []" "set is = {j. j < n \<and> R i j}" using i \<open>R i i\<close> by (auto simp: filter_empty_conv)
  then show ?thesis using * by simp
qed

lemma class_of:
  assumes "equivp R" and "i < n"
  shows "\<exists>is \<in> set (classes R n). i \<in> set is"
proof -
  define k where "k = (LEAST k. R k i)"
  have refl: "R i i" using assms(1) by (rule equivp_reflp)
  then have k: "R k i" "k \<le> i" unfolding k_def by (rule LeastI) (rule Least_le, rule refl)
  have "\<not> R j k" if "j < k" for j
    using that not_less_Least [of j "\<lambda>k. R k i"] k(1) equivp_transp [OF assms(1)] unfolding k_def by blast
  with k assms(2) have "filter (R k) [0..<n] \<in> set (classes R n)" by (auto simp: classes_def)
  with k assms(2) show ?thesis by force
qed

lemma classes_partition:
  assumes "equivp R"
  shows "mset (concat (classes R n)) = mset [0..<n]"
proof -
  have "set (filter (R i) [0..<n]) \<inter> set (filter (R j) [0..<n]) = {}"
    if "\<forall>k < i. \<not> R k i" "\<forall>k < j. \<not> R k j" "i \<noteq> j" for i j
  proof -
    have "\<not> (R i k \<and> R j k)" for k
      using that equivp_symp [OF assms, of j k] equivp_symp [OF assms, of i k]
        equivp_transp [OF assms, of i k j] equivp_transp [OF assms, of j k i] by (cases i j rule: linorder_cases) blast+
    then show ?thesis by auto
  qed
  then have "distinct (concat (classes R n))"
    unfolding classes_def by (intro distinct_concat_map) auto
  moreover have "set (concat (classes R n)) = set [0..<n]"
    using class_members [OF assms] class_of [OF assms] by fastforce
  ultimately show ?thesis using distinct_upt set_eq_iff_mset_eq_distinct by blast
qed

text \<open>What an entity says about its mentions.\<close>

definition described :: "entity \<Rightarrow> bool" where
  "described e \<longleftrightarrow> e_mentions e \<noteq> [] \<and>
     e_canonical e \<in> (\<lambda>m. sp_text (m_span m)) ` set (e_mentions e) \<and>
     list_all (\<lambda>m. length (sp_text (m_span m)) \<le> length (e_canonical e)) (e_mentions e) \<and>
     list_ex (\<lambda>b. e_type e = sp_entity_type (m_span b) \<and>
       list_all (\<lambda>m. sp_tier (m_span m) \<le> sp_tier (m_span b)) (e_mentions e)) (e_mentions e)"

lemma fst_le_lex: "x \<le> y \<Longrightarrow> fst x \<le> fst y" for x y :: "int \<times> int"
  by (cases x; cases y) auto

lemma make_entity_described:
  assumes "ms \<noteq> []"
  shows "described (make_entity i ms)"
proof -
  let ?k = "\<lambda>m. (int (length (sp_text (m_span m))), - sp_start (m_span m))" and ?t = "\<lambda>m. tier_value (sp_tier (m_span m))"
  have ms: "set (hd ms # tl ms) = set ms" using assms by simp
  have *: "max_by ?k (hd ms) (tl ms) \<in> set ms" "max_by ?t (hd ms) (tl ms) \<in> set ms"
    using max_by_in [of ?k "hd ms" "tl ms"] max_by_in [of ?t "hd ms" "tl ms"] unfolding ms by simp_all
  have t: "?t m \<le> ?t (max_by ?t (hd ms) (tl ms))" if "m \<in> set ms" for m
    using max_by_max [of m "hd ms" "tl ms" ?t] that unfolding ms by simp
  have "?k m \<le> ?k (max_by ?k (hd ms) (tl ms))" if "m \<in> set ms" for m
    using max_by_max [of m "hd ms" "tl ms" ?k] that unfolding ms by simp
  then have "fst (?k m) \<le> fst (?k (max_by ?k (hd ms) (tl ms)))" if "m \<in> set ms" for m
    using that by (blast intro: fst_le_lex)
  then have "length (sp_text (m_span m)) \<le> length (sp_text (m_span (max_by ?k (hd ms) (tl ms))))" if "m \<in> set ms" for m
    using that by simp
  with * t assms show ?thesis
    unfolding described_def make_entity_def Let_def list_all_iff list_ex_iff less_eq_tier_def
    by (auto intro!: bexI [of _ "max_by ?t (hd ms) (tl ms)"])
qed

lemma mset_concat_map: "mset (concat (map f xs)) = \<Sum>\<^sub># (image_mset (\<lambda>x. mset (f x)) (mset xs))"
  by (induction xs) auto

lemma map_snd_enumerate: "map (\<lambda>x. g (snd x)) (enumerate n xs) = map g xs"
  by (induction xs arbitrary: n) auto

lemma entities_of_mentions:
  "mset (concat (map e_mentions (entities_of ids ms))) = mset ms \<and>
    sorted (map first_start (entities_of ids ms)) \<and>
    list_all described (entities_of ids ms)"
proof -
  let ?cls = "classes (same_entity ms) (length ms)"
  let ?es = "map (\<lambda>(k, is). make_entity (ids k) (map ((!) ms) is)) (enumerate 0 ?cls)"
  have eq: "equivp (same_entity ms)" by simp
  have "mset (concat (map e_mentions (entities_of ids ms))) = mset (concat (map e_mentions ?es))"
    by (simp only: entities_of_def mset_concat_map mset_sort)
  also have "concat (map e_mentions ?es) = map ((!) ms) (concat ?cls)"
    by (simp add: make_entity_def comp_def case_prod_unfold map_concat map_snd_enumerate)
  also have "mset \<dots> = mset (map ((!) ms) [0..<length ms])"
    by (simp only: mset_map classes_partition [OF eq])
  finally have "mset (concat (map e_mentions (entities_of ids ms))) = mset ms" by (simp only: map_nth)
  moreover have "sorted (map first_start (entities_of ids ms))" by (simp add: entities_of_def)
  moreover have "list_all described (entities_of ids ms)"
    unfolding list_all_iff
  proof
    fix e assume "e \<in> set (entities_of ids ms)"
    then obtain k "is" where e: "e = make_entity (ids k) (map ((!) ms) is)" "is \<in> set ?cls"
      by (auto simp: entities_of_def in_set_enumerate_eq)
    with class_members [OF eq e(2)] show "described e" by (simp add: make_entity_described)
  qed
  ultimately show ?thesis by blast
qed

text \<open>
  C26: When the recursion limit is at least the number of spans, resolution answers entities that
  account for the mentions: every mention that meets the threshold lies in exactly one entity; an
  entity's canonical value is the longest text of its mentions, its type is that of a mention of the
  highest detector tier; the entities come in the order of their first occurrence.
\<close>

theorem entities_account_for_mentions:
  assumes "good_order order" and "length spans \<le> d"
  shows "\<exists>es. resolve d order ids c spans = Inr es \<and>
    mset (concat (map e_mentions es)) = mset (map to_mention (filter (\<lambda>s. c \<le> sp_confidence s) spans)) \<and>
    sorted (map first_start es) \<and> list_all described es"
  using resolved_entities [OF assms] entities_of_mentions by blast

theorem entities_account_for_mentions_witness:
  "\<exists>es. resolve 3 sorted_list_of_set show_nat (7/10) [ex_name 0 ''Ann Lee'' TIER_ML, ex_name 9 ''Dr. Lee'' TIER_PATTERN] = Inr es \<and>
    mset (concat (map e_mentions es)) = mset (map to_mention (filter (\<lambda>s. 7/10 \<le> sp_confidence s)
      [ex_name 0 ''Ann Lee'' TIER_ML, ex_name 9 ''Dr. Lee'' TIER_PATTERN])) \<and>
    sorted (map first_start es) \<and> list_all described es"
  by (rule entities_account_for_mentions [OF good_order_sorted]) simp

lemma entity_counts_count: "dict_get (get_entity_counts es) t 0 = length (filter (\<lambda>e. e_type e = t) es)"
  by (induction es rule: rev_induct) (auto simp: get_entity_counts_def dict_get_def)

section \<open>The recursion limit\<close>

text \<open>\<open>union(indices[0], indices[i])\<close> attaches the old root to the new mention, so that the
  mentions of one value form a chain: after \<open>k\<close> unions the parents of \<open>1, 2, \<dots>\<close> are
  \<open>2, 3, \<dots>, k\<close>; only the path from \<open>0\<close> is compressed.\<close>

definition chain :: "nat \<Rightarrow> nat \<Rightarrow> nat list" where
  "chain k n = map (\<lambda>i. if i = 0 then max (min 1 k) (k - 1) else if i < k then i + 1 else i) [0..<n]"

lemma nth_chain: "i < n \<Longrightarrow> chain k n ! i = (if i = 0 then max (min 1 k) (k - 1) else if i < k then i + 1 else i)"
  by (simp add: chain_def)

lemma union_chain:
  assumes "k + 1 < n" and "3 \<le> d"
  shows "uf_union d 0 (k + 1) (chain k n) = Inr (chain (k + 1) n)"
proof -
  obtain d' where d: "d = Suc (Suc (Suc d'))" using assms(2) by (metis Suc_le_D numeral_3_eq_3 Suc_le_mono)
  have len: "length (chain j n) = n" for j by (simp add: chain_def)
  have "uf_find d 0 (chain k n) = Inr (k, (chain k n)[0 := k])"
    using assms(1) by (cases "k \<le> 1") (auto simp: d nth_chain len list_update_swap intro!: nth_equalityI simp: nth_list_update)
  moreover have "uf_find d (k + 1) ((chain k n)[0 := k]) = Inr (k + 1, (chain k n)[0 := k])"
    using assms(1) by (simp add: d nth_chain)
  moreover have "((chain k n)[0 := k])[k := k + 1] = chain (k + 1) n"
    using assms(1) by (intro nth_equalityI) (auto simp: len nth_list_update nth_chain)
  ultimately show ?thesis by (simp add: uf_union_def)
qed

lemma unions_chain:
  assumes "m < n" and "3 \<le> d"
  shows "union_all d (map (Pair 0) [k + 1..<m + 1]) (chain k n) = Inr (chain (max k m) n)"
  using assms(1)
proof (induction "m - k" arbitrary: k)
  case (Suc x)
  then have "k < m" and "[k + 1..<m + 1] = (k + 1) # [k + 1 + 1..<m + 1]" by (simp_all add: upt_rec)
  with Suc.prems Suc.hyps(1) [of "k + 1"] Suc.hyps(2) union_chain [of k n d] assms(2) show ?case
    by (simp add: max_def)
qed (simp add: max_def)

lemma find_deep:
  "(\<And>j. i \<le> j \<Longrightarrow> j < i + d \<Longrightarrow> p ! j = j + 1) \<Longrightarrow> uf_find d i p = Inl RecursionError"
  by (induction d arbitrary: i) auto

lemma find_each_deep:
  assumes "3 \<le> d" and "d + 1 < n"
  shows "find_each d [0..<n] (chain (n - 1) n) = Inl RecursionError"
proof -
  obtain d' where d: "d = Suc (Suc (Suc d'))" using assms(1) by (metis Suc_le_D numeral_3_eq_3 Suc_le_mono)
  have len: "length (chain j n) = n" for j by (simp add: chain_def)
  obtain m where n: "n = Suc (Suc m)" using assms(2) by (metis Suc_eq_plus1 add_lessD1 less_natE plus_nat.simps(2))
  have "uf_find d 0 (chain (n - 1) n) = Inr (n - 1, (chain (n - 1) n)[n - 2 := n - 1, 0 := n - 1])"
    using assms(2) by (auto simp: d n nth_chain)
  moreover have "uf_find d 1 ((chain (n - 1) n)[n - 2 := n - 1, 0 := n - 1]) = Inl RecursionError"
    using assms(2) by (intro find_deep) (auto simp: nth_list_update nth_chain len)
  moreover have "[0..<n] = 0 # 1 # [2..<n]"
    using assms(2) upt_rec [of 0 n] upt_rec [of 1 n] by (simp add: numeral_2_eq_2)
  ultimately show ?thesis by simp
qed

text \<open>A plain mention of a value: no name, no anchor.\<close>

definition plain :: "string \<Rightarrow> span \<Rightarrow> bool" where
  "plain v s \<longleftrightarrow> normalize_text (sp_text s) = v \<and> sp_entity_type s \<notin> set NAME_TYPES \<and> sp_coref_anchor_value s = None"

lemma plain_unions:
  assumes "good_order order" and "list_all (plain v) ss" and "ss \<noteq> []"
  shows "unions order (map to_mention ss) = map (Pair 0) [1..<length ss]"
proof -
  let ?ms = "map to_mention ss"
  have m: "to_mention s = \<lparr>m_span = s, m_norm = v, m_words = {}\<rparr>" if "s \<in> set ss" for s
    using that assms(2) by (auto simp: list_all_iff plain_def to_mention_def get_words_def Let_def)
  have "text_entries ?ms = map (\<lambda>i. (v, i)) [0..<length ss]"
    using m by (auto simp: text_entries_def enumerate_eq_zip comp_def case_prod_unfold intro!: nth_equalityI)
  moreover have "uniq_by (\<lambda>_. v) [0..<length ss] = [0]"
    using assms(3) by (cases "length ss") (auto simp: uniq_by_upt upt_conv_Cons filter_empty_conv simp del: upt_Suc)
  ultimately have "dict_build (text_entries ?ms) = [(v, [0..<length ss])]" by (simp add: dict_build_by)
  moreover have "word_entries order ?ms = []"
    using m assms(1) by (auto simp: word_entries_def concat_eq_Nil_conv in_set_enumerate_eq good_order_def)
  moreover have "coref_entries ?ms = []"
    using m assms(2)
    by (auto simp: coref_entries_def concat_eq_Nil_conv in_set_enumerate_eq anchors_def list_all_iff plain_def)
  moreover have "tl [0..<length ss] = [1..<length ss]" by simp
  ultimately show ?thesis
    using assms(3) by (cases "length ss > 1") (auto simp: unions_def sieve_exact_def sieve_names_def sieve_coref_def
      dict_build_def [of "[]"])
qed

text \<open>
  C37: Resolution breaks down on a text that repeats one value about as often as the recursion limit
  allows nested calls: with more than \<open>d + 1\<close> plain mentions of the same value it raises
  \<open>RecursionError\<close>, however the mentions are ordered.
\<close>

theorem repeated_value_exhausts_stack:
  assumes "good_order order" and "3 \<le> d" and "d + 1 < length ss"
    and "list_all (\<lambda>s. plain v s \<and> c \<le> sp_confidence s) ss"
  shows "resolve d order ids c ss = Inl RecursionError"
proof -
  have ss: "ss \<noteq> []" "filter (\<lambda>s. c \<le> sp_confidence s) ss = ss" "list_all (plain v) ss"
    using assms(3,4) by (auto simp: list_all_iff)
  let ?n = "length ss"
  have "chain 0 ?n = [0..<?n]" by (simp add: chain_def map_idI)
  moreover have "(?n - 1) + 1 = ?n" using assms(3) by simp
  then have "[0 + 1..<(?n - 1) + 1] = [1..<?n]" by (simp only: add_0)
  ultimately have "union_all d (unions order (map to_mention ss)) [0..<?n] = Inr (chain (?n - 1) ?n)"
    using unions_chain [of "?n - 1" ?n d 0] assms(2,3) plain_unions [OF assms(1) ss(3,1)] by simp
  then show ?thesis
    using ss find_each_deep [OF assms(2,3)] by (simp add: resolve_def Let_def apply_sieves_def)
qed

theorem repeated_value_exhausts_stack_witness:
  "resolve 3 sorted_list_of_set show_nat (7/10)
    (replicate 5 ((ex_name 0 ''42'' TIER_ML)\<lparr>sp_entity_type := ''MRN''\<rparr>)) = Inl RecursionError"
  by (rule repeated_value_exhausts_stack [OF good_order_sorted, where v = "normalize_text ''42''"])
    (simp_all add: ex_name_def plain_def NAME_TYPES_def list_all_iff)

text \<open>One common word is enough to make two different full names one entity.\<close>

lemma common_word_merges:
  "resolve 9 sorted_list_of_set show_nat (7/10) [ex_name 0 ''John Smith'' TIER_ML, ex_name 20 ''John Doe'' TIER_ML]
    = Inr [\<lparr>e_id = ''0'', e_type = ''NAME'', e_canonical = ''John Smith'',
        e_mentions = map to_mention [ex_name 0 ''John Smith'' TIER_ML, ex_name 20 ''John Doe'' TIER_ML], e_role = None\<rparr>]"
  by code_simp

end
