(* ===== verification/Policy_Engine.thy ===== *)
theory Policy_Engine
  imports Py_Collections
begin

text \<open>
  The policy engine, \<^verbatim>\<open>src/openlabels/core/policies/schema.py\<close> and \<^verbatim>\<open>engine.py\<close>: policy packs, the
  engine's two indexes, the triggers, and the combination of the matched policies' requirements.

  Python sets are sets; a list that the code makes from a set (\<open>list(a & b)\<close>), whose order
  Python does not fix, is one of its enumerations. The two dictionaries of the evaluation
  context are functions. Exceptions do not occur.
\<close>

section \<open>Schema\<close>

datatype risk_level = MINIMAL | LOW | MEDIUM | HIGH | CRITICAL

datatype policy_category =
    HIPAA | FERPA | GLBA | SOX | COPPA | CCPA | CPRA | NYDFS | SHIELD
  | GDPR | LGPD | PIPEDA | POPIA | PDPA | PCI_DSS | SOC2 | ISO27001
  | PII | PHI | CUSTOM

record policy_trigger =
  any_of :: "string list"
  all_of :: "string list"
  combinations :: "string list list"
  min_confidence :: real
  min_count :: int
  exclude_if_only :: "string list"

definition is_empty :: "policy_trigger \<Rightarrow> bool" where
  "is_empty t \<longleftrightarrow> any_of t = [] \<and> all_of t = [] \<and> combinations t = []"

record data_subject_rights =
  access :: bool
  rectification :: bool
  erasure :: bool
  portability :: bool
  restriction :: bool
  objection :: bool

record retention_policy =
  max_days :: "int option"
  min_days :: "int option"
  review_frequency_days :: "int option"
  auto_delete :: bool

record handling_requirements =
  encryption_required :: bool
  encryption_at_rest :: bool
  encryption_in_transit :: bool
  tokenization_required :: bool
  masking_required :: bool
  audit_access :: bool
  access_logging :: bool
  mfa_required :: bool
  geographic_restrictions :: "string list"
  prohibited_regions :: "string list"

record policy_pack =
  name :: string
  version :: string
  description :: string
  category :: policy_category
  pack_risk_level :: risk_level
  triggers :: policy_trigger
  special_category_triggers :: policy_trigger
  handling :: handling_requirements
  retention :: retention_policy
  rights :: data_subject_rights
  jurisdictions :: "string list"
  enabled :: bool
  priority :: int
  tags :: "string list"
  metadata :: "(string \<times> json) list"

record entity_match =
  entity_type :: string
  entity_value :: string
  confidence :: real

datatype trigger_type = Any_Of | All_Of | Combination | Special_Category

record policy_match =
  policy_name :: string
  trigger_type :: trigger_type
  matched_entities :: "string set"
  matched_values :: "string list"

record policy_result =
  matches :: "policy_match list"
  risk_level :: risk_level
  categories :: "policy_category set"
  res_handling :: handling_requirements
  res_retention :: retention_policy
  res_rights :: data_subject_rights
  res_jurisdictions :: "string set"
  has_phi :: bool
  has_pii :: bool
  has_pci :: bool
  has_gdpr_special :: bool

definition no_trigger :: policy_trigger where
  "no_trigger = \<lparr>any_of = [], all_of = [], combinations = [], min_confidence = 1/2, min_count = 1,
     exclude_if_only = []\<rparr>"

definition no_rights :: data_subject_rights where
  "no_rights = \<lparr>access = False, rectification = False, erasure = False, portability = False,
     restriction = False, objection = False\<rparr>"

definition no_retention :: retention_policy where
  "no_retention = \<lparr>max_days = None, min_days = None, review_frequency_days = None, auto_delete = False\<rparr>"

definition no_handling :: handling_requirements where
  "no_handling = \<lparr>encryption_required = False, encryption_at_rest = False, encryption_in_transit = False,
     tokenization_required = False, masking_required = False, audit_access = False,
     access_logging = False, mfa_required = False, geographic_restrictions = [], prohibited_regions = []\<rparr>"

definition empty_result :: policy_result where
  "empty_result = \<lparr>matches = [], risk_level = MINIMAL, categories = {}, res_handling = no_handling,
     res_retention = no_retention, res_rights = no_rights, res_jurisdictions = {}, has_phi = False,
     has_pii = False, has_pci = False, has_gdpr_special = False\<rparr>"

definition policy_defaults :: "string \<Rightarrow> policy_pack" where
  "policy_defaults n = \<lparr>name = n, version = ''1.0'', description = [], category = CUSTOM, pack_risk_level = HIGH, triggers = no_trigger,
     special_category_triggers = no_trigger, handling = no_handling, retention = no_retention,
     rights = no_rights, jurisdictions = [], enabled = True, priority = 0, tags = [], metadata = []\<rparr>"

definition is_sensitive :: "policy_result \<Rightarrow> bool" where
  "is_sensitive r \<longleftrightarrow> length (matches r) > 0"

definition requires_encryption :: "policy_result \<Rightarrow> bool" where
  "requires_encryption r \<longleftrightarrow> encryption_required (res_handling r)"

section \<open>The engine's policies\<close>

definition RISK_ORDER :: "risk_level \<Rightarrow> nat" where
  "RISK_ORDER l = (case l of MINIMAL \<Rightarrow> 0 | LOW \<Rightarrow> 1 | MEDIUM \<Rightarrow> 2 | HIGH \<Rightarrow> 3 | CRITICAL \<Rightarrow> 4)"

record policy_engine =
  policies :: "policy_pack list"
  policies_by_category :: "policy_category \<Rightarrow> policy_pack list option"

definition empty_engine :: policy_engine where
  "empty_engine = \<lparr>policies = [], policies_by_category = (\<lambda>_. None)\<rparr>"

text \<open>\<open>_policies_by_category\<close> is a \<open>defaultdict(list)\<close>: a lookup with \<open>[]\<close> enters an empty list.\<close>

definition category_list :: "policy_engine \<Rightarrow> policy_category \<Rightarrow> policy_pack list" where
  "category_list e c = (case policies_by_category e c of Some ps \<Rightarrow> ps | None \<Rightarrow> [])"

definition add_policy :: "policy_pack \<Rightarrow> policy_engine \<Rightarrow> policy_engine" where
  "add_policy p e =
     (if \<not> enabled p then e
      else \<lparr>policies = sort_key (\<lambda>q. - priority q) (policies e @ [p]),
            policies_by_category = (policies_by_category e)(category p \<mapsto> category_list e (category p) @ [p])\<rparr>)"

definition add_policies :: "policy_pack list \<Rightarrow> policy_engine \<Rightarrow> policy_engine" where
  "add_policies ps e = fold add_policy ps e"

definition remove_policy :: "string \<Rightarrow> policy_engine \<Rightarrow> bool \<times> policy_engine" where
  "remove_policy n e =
     (case List.extract (\<lambda>p. name p = n) (policies e) of
        Some (before, p, after) \<Rightarrow>
          (True, \<lparr>policies = before @ after,
                  policies_by_category = (policies_by_category e)
                    (category p \<mapsto> remove1 p (category_list e (category p)))\<rparr>)
      | None \<Rightarrow> (False, e))"

definition clear_policies :: "policy_engine \<Rightarrow> policy_engine" where
  "clear_policies e = empty_engine"

definition policy_count :: "policy_engine \<Rightarrow> nat" where
  "policy_count e = length (policies e)"

definition policy_names :: "policy_engine \<Rightarrow> string list" where
  "policy_names e = map name (policies e)"

definition get_policies_for_category :: "policy_engine \<Rightarrow> policy_category \<Rightarrow> policy_pack list" where
  "get_policies_for_category e c = category_list e c"

definition get_enabled_categories :: "policy_engine \<Rightarrow> policy_category set" where
  "get_enabled_categories e = dom (policies_by_category e)"

section \<open>Triggers\<close>

record eval_context =
  entity_types :: "string set"
  type_counts :: "string \<Rightarrow> nat"
  type_max_confidence :: "string \<Rightarrow> real option"
  entities :: "entity_match list"

definition empty_context :: eval_context where
  "empty_context = \<lparr>entity_types = {}, type_counts = (\<lambda>_. 0), type_max_confidence = (\<lambda>_. None), entities = []\<rparr>"

definition confidence_of :: "eval_context \<Rightarrow> string \<Rightarrow> real" where
  "confidence_of ctx t = (case type_max_confidence ctx t of Some c \<Rightarrow> c | None \<Rightarrow> 0)"

definition add_entity :: "real \<Rightarrow> entity_match \<Rightarrow> eval_context \<Rightarrow> eval_context" where
  "add_entity min_conf m ctx =
     (if confidence m < min_conf then ctx
      else (let etype = str_lower (entity_type m) in
        \<lparr>entity_types = insert etype (entity_types ctx),
         type_counts = (type_counts ctx)(etype := type_counts ctx etype + 1),
         type_max_confidence = (type_max_confidence ctx)(etype \<mapsto> max (confidence_of ctx etype) (confidence m)),
         entities = entities ctx @ [m]\<rparr>))"

definition build_context :: "entity_match list \<Rightarrow> real \<Rightarrow> eval_context" where
  "build_context es min_conf = fold (add_entity min_conf) es empty_context"

definition redact :: "string \<Rightarrow> string" where
  "redact v =
     (if length v > 4 then take 2 v @ replicate (length v - 4) (CHR ''*'') @ drop (length v - 2) v
      else replicate (length v) (CHR ''*''))"

definition get_matched_values :: "eval_context \<Rightarrow> string set \<Rightarrow> string list" where
  "get_matched_values ctx types =
     take 10 (map (\<lambda>m. entity_type m @ '':'' @ redact (entity_value m))
       (filter (\<lambda>m. str_lower (entity_type m) \<in> types) (entities ctx)))"

definition lowered :: "string list \<Rightarrow> string set" where
  "lowered ts = str_lower ` set ts"

definition confident :: "policy_trigger \<Rightarrow> eval_context \<Rightarrow> string set \<Rightarrow> bool" where
  "confident t ctx types \<longleftrightarrow> (\<forall>x \<in> types. confidence_of ctx x \<ge> min_confidence t)"

definition mk_match :: "policy_pack \<Rightarrow> eval_context \<Rightarrow> trigger_type \<Rightarrow> string set \<Rightarrow> policy_match" where
  "mk_match p ctx ty types = \<lparr>policy_name = name p, trigger_type = ty, matched_entities = types,
     matched_values = get_matched_values ctx types\<rparr>"

definition evaluate_triggers :: "policy_trigger \<Rightarrow> eval_context \<Rightarrow> string set option" where
  "evaluate_triggers t ctx =
     (let matched = entity_types ctx \<inter> lowered (any_of t) in
      if any_of t \<noteq> [] \<and> matched \<noteq> {} then Some matched
      else if all_of t \<noteq> [] \<and> lowered (all_of t) \<subseteq> entity_types ctx then Some (lowered (all_of t))
      else (case find (\<lambda>c. lowered c \<subseteq> entity_types ctx) (combinations t) of
          Some c \<Rightarrow> Some (lowered c) | None \<Rightarrow> None))"

definition evaluate_policy :: "policy_pack \<Rightarrow> eval_context \<Rightarrow> policy_match option" where
  "evaluate_policy p ctx =
     (let t = triggers p; matched = entity_types ctx \<inter> lowered (any_of t) in
      if is_empty t then None
      else if exclude_if_only t \<noteq> [] \<and> entity_types ctx \<noteq> {} \<and>
              entity_types ctx \<subseteq> lowered (exclude_if_only t) then None
      else if any_of t \<noteq> [] \<and> matched \<noteq> {} \<and> confident t ctx matched \<and>
              (\<forall>x \<in> matched. int (type_counts ctx x) \<ge> min_count t)
        then Some (mk_match p ctx Any_Of matched)
      else if all_of t \<noteq> [] \<and> lowered (all_of t) \<subseteq> entity_types ctx \<and> confident t ctx (lowered (all_of t))
        then Some (mk_match p ctx All_Of (lowered (all_of t)))
      else (case find (\<lambda>c. lowered c \<subseteq> entity_types ctx \<and> confident t ctx (lowered c)) (combinations t) of
          Some c \<Rightarrow> Some (mk_match p ctx Combination (lowered c))
        | None \<Rightarrow>
            if \<not> is_empty (special_category_triggers p)
            then (case evaluate_triggers (special_category_triggers p) ctx of
                Some types \<Rightarrow> if types \<noteq> {} then Some (mk_match p ctx Special_Category types) else None
              | None \<Rightarrow> None)
            else None))"

section \<open>Combination\<close>

definition keep_max :: "int option \<Rightarrow> int option \<Rightarrow> int option" where
  "keep_max r p = (case p of None \<Rightarrow> r
     | Some x \<Rightarrow> (case r of None \<Rightarrow> Some x | Some y \<Rightarrow> if x > y then Some x else r))"

definition keep_min :: "int option \<Rightarrow> int option \<Rightarrow> int option" where
  "keep_min r p = (case p of None \<Rightarrow> r
     | Some x \<Rightarrow> (case r of None \<Rightarrow> Some x | Some y \<Rightarrow> if x < y then Some x else r))"

definition merge_regions :: "string list \<Rightarrow> string list \<Rightarrow> string list" where
  "merge_regions rh ph =
     (if ph \<noteq> [] then (if rh \<noteq> [] then filter (\<lambda>x. x \<in> set ph) (remdups rh) else ph) else rh)"

definition merge_handling :: "handling_requirements \<Rightarrow> handling_requirements \<Rightarrow> handling_requirements" where
  "merge_handling ph rh =
     \<lparr>encryption_required = encryption_required rh \<or> encryption_required ph,
      encryption_at_rest = encryption_at_rest rh \<or> encryption_at_rest ph,
      encryption_in_transit = encryption_in_transit rh \<or> encryption_in_transit ph,
      tokenization_required = tokenization_required rh \<or> tokenization_required ph,
      masking_required = masking_required rh \<or> masking_required ph,
      audit_access = audit_access rh \<or> audit_access ph,
      access_logging = access_logging rh \<or> access_logging ph,
      mfa_required = mfa_required rh \<or> mfa_required ph,
      geographic_restrictions = merge_regions (geographic_restrictions rh) (geographic_restrictions ph),
      prohibited_regions =
        (if prohibited_regions ph \<noteq> [] then remdups (prohibited_regions rh @ prohibited_regions ph)
         else prohibited_regions rh)\<rparr>"

definition merge_retention :: "retention_policy \<Rightarrow> retention_policy \<Rightarrow> retention_policy" where
  "merge_retention pr rr = rr\<lparr>
     min_days := keep_max (min_days rr) (min_days pr),
     max_days := keep_min (max_days rr) (max_days pr),
     review_frequency_days := keep_min (review_frequency_days rr) (review_frequency_days pr)\<rparr>"

definition merge_rights :: "data_subject_rights \<Rightarrow> data_subject_rights \<Rightarrow> data_subject_rights" where
  "merge_rights pd rd =
     \<lparr>access = access rd \<or> access pd, rectification = rectification rd \<or> rectification pd,
      erasure = erasure rd \<or> erasure pd, portability = portability rd \<or> portability pd,
      restriction = restriction rd \<or> restriction pd, objection = objection rd \<or> objection pd\<rparr>"

definition merge_policy_into_result :: "policy_pack \<Rightarrow> policy_result \<Rightarrow> policy_result" where
  "merge_policy_into_result p r = r\<lparr>
     categories := insert (category p) (categories r),
     risk_level := (if RISK_ORDER (pack_risk_level p) > RISK_ORDER (risk_level r)
       then pack_risk_level p else risk_level r),
     res_handling := merge_handling (handling p) (res_handling r),
     res_retention := merge_retention (retention p) (res_retention r),
     res_rights := merge_rights (rights p) (res_rights r),
     res_jurisdictions := res_jurisdictions r \<union> set (jurisdictions p)\<rparr>"

definition evaluate_one :: "eval_context \<Rightarrow> policy_pack \<Rightarrow> policy_result \<Rightarrow> policy_result" where
  "evaluate_one ctx p r =
     (case evaluate_policy p ctx of
        Some m \<Rightarrow> merge_policy_into_result p (r\<lparr>matches := matches r @ [m]\<rparr>)
      | None \<Rightarrow> r)"

definition evaluate_policies :: "policy_engine \<Rightarrow> entity_match list \<Rightarrow> real \<Rightarrow> policy_result" where
  "evaluate_policies e es min_conf =
     (let ctx = build_context es min_conf in
      if entity_types ctx = {} then empty_result
      else (let r = fold (evaluate_one ctx) (policies e) empty_result in
        r\<lparr>has_phi := HIPAA \<in> categories r \<or> PHI \<in> categories r,
          has_pii := PII \<in> categories r,
          has_pci := PCI_DSS \<in> categories r,
          has_gdpr_special := list_ex (\<lambda>m. trigger_type m = Special_Category) (matches r)\<rparr>))"

section \<open>The two indexes agree\<close>

datatype engine_op = Add policy_pack | Remove string | Clear

fun engine_step :: "engine_op \<Rightarrow> policy_engine \<Rightarrow> policy_engine" where
  "engine_step (Add p) e = add_policy p e"
| "engine_step (Remove n) e = snd (remove_policy n e)"
| "engine_step Clear e = clear_policies e"

definition engine_inv :: "policy_engine \<Rightarrow> bool" where
  "engine_inv e \<longleftrightarrow> sorted (map (\<lambda>p. - priority p) (policies e)) \<and> list_all enabled (policies e) \<and>
     (\<forall>c. mset (category_list e c) = mset (filter (\<lambda>p. category p = c) (policies e)))"

lemma category_list_update:
  "category_list (e\<lparr>policies_by_category := (policies_by_category e)(c \<mapsto> ps)\<rparr>) d =
    (if d = c then ps else category_list e d)"
  by (simp add: category_list_def)

lemma add_policy_inv: "engine_inv e \<Longrightarrow> engine_inv (add_policy p e)"
  by (auto simp: engine_inv_def add_policy_def category_list_def list_all_iff mset_filter)

lemma remove_policy_inv:
  assumes "engine_inv e"
  shows "engine_inv (snd (remove_policy n e))"
proof (cases "List.extract (\<lambda>p. name p = n) (policies e)")
  case None
  with assms show ?thesis by (simp add: remove_policy_def)
next
  case (Some t)
  then obtain before p after where t: "t = (before, p, after)" by (cases t)
  with Some have ps: "policies e = before @ p # after"
    by (auto simp: extract_Some_iff)
  let ?e = "\<lparr>policies = before @ after, policies_by_category =
    (policies_by_category e)(category p \<mapsto> remove1 p (category_list e (category p)))\<rparr>"
  have r: "snd (remove_policy n e) = ?e"
    using Some t by (simp add: remove_policy_def)
  have "mset (category_list ?e c) = mset (filter (\<lambda>p. category p = c) (policies ?e))" for c
    using assms by (simp add: engine_inv_def ps category_list_def)
  then show ?thesis
    using assms unfolding r by (auto simp: engine_inv_def ps sorted_append)
qed

lemma empty_engine_inv: "engine_inv empty_engine"
  by (simp add: engine_inv_def empty_engine_def category_list_def)

interpretation engine: event_machine engine_step engine_inv
proof
  fix e s assume "engine_inv s"
  then show "engine_inv (engine_step e s)"
    by (cases e) (simp_all add: add_policy_inv remove_policy_inv clear_policies_def empty_engine_inv)
qed

text \<open>C23: Whatever policies are added, removed and cleared, in whatever order, the engine's list
  holds enabled policies only, from the highest priority down, which is the order of evaluation,
  and the index by category lists exactly the policies of that category, each as often.\<close>

theorem engine_indexes_agree:
  "let e = fold engine_step ops empty_engine in
     sorted (map (\<lambda>p. - priority p) (policies e)) \<and> list_all enabled (policies e) \<and>
     mset (get_policies_for_category e c) = mset (filter (\<lambda>p. category p = c) (policies e))"
proof -
  have "engine_inv (fold engine_step ops empty_engine)"
    using empty_engine_inv by (rule engine.fold_inv)
  then show ?thesis
    by (simp add: engine_inv_def get_policies_for_category_def Let_def)
qed

section \<open>The combined requirements\<close>

lemma keep_max_upper: "a \<in> {r, p} \<Longrightarrow> a = Some x \<Longrightarrow> \<exists>y. keep_max r p = Some y \<and> x \<le> y"
  by (auto simp: keep_max_def split: option.splits)

lemma keep_max_origin: "keep_max r p = r \<or> keep_max r p = p"
  by (auto simp: keep_max_def split: option.splits)

lemma keep_min_lower: "a \<in> {r, p} \<Longrightarrow> a = Some x \<Longrightarrow> \<exists>y. keep_min r p = Some y \<and> y \<le> x"
  by (auto simp: keep_min_def split: option.splits)

lemma keep_min_origin: "keep_min r p = r \<or> keep_min r p = p"
  by (auto simp: keep_min_def split: option.splits)

definition matching :: "eval_context \<Rightarrow> policy_pack list \<Rightarrow> policy_pack list" where
  "matching ctx ps = filter (\<lambda>p. evaluate_policy p ctx \<noteq> None) ps"

lemma merge_matches [simp]:
  "merge_policy_into_result p (r\<lparr>matches := ms\<rparr>) = (merge_policy_into_result p r)\<lparr>matches := ms\<rparr>"
  "matches (merge_policy_into_result p r) = matches r"
  by (simp_all add: merge_policy_into_result_def)

lemma fold_merge_matches [simp]:
  "fold merge_policy_into_result ps (r\<lparr>matches := ms\<rparr>) = (fold merge_policy_into_result ps r)\<lparr>matches := ms\<rparr>"
  by (induction ps arbitrary: r) simp_all

lemma fold_evaluate_one:
  "fold (evaluate_one ctx) ps r = (fold merge_policy_into_result (matching ctx ps) r)
    \<lparr>matches := matches r @ List.map_filter (\<lambda>p. evaluate_policy p ctx) ps\<rparr>"
proof (induction ps arbitrary: r)
  case Nil
  show ?case by (simp add: matching_def map_filter_simps)
next
  case (Cons p ps)
  then show ?case
    by (cases "evaluate_policy p ctx") (simp_all add: evaluate_one_def matching_def map_filter_simps)
qed

text \<open>What holds of the combined result of the policies \<open>ps\<close>.\<close>

definition combines :: "policy_pack list \<Rightarrow> policy_result \<Rightarrow> bool" where
  "combines ps r \<longleftrightarrow>
     (risk_level r = MINIMAL \<or> risk_level r \<in> pack_risk_level ` set ps) \<and>
     (\<forall>p \<in> set ps. RISK_ORDER (pack_risk_level p) \<le> RISK_ORDER (risk_level r)) \<and>
     categories r = category ` set ps \<and>
     res_jurisdictions r = (\<Union>p \<in> set ps. set (jurisdictions p)) \<and>
     set (prohibited_regions (res_handling r)) = (\<Union>p \<in> set ps. set (prohibited_regions (handling p)))"

definition combines_flags :: "policy_pack list \<Rightarrow> policy_result \<Rightarrow> bool" where
  "combines_flags ps r \<longleftrightarrow>
     (\<forall>f \<in> {encryption_required, encryption_at_rest, encryption_in_transit, tokenization_required,
         masking_required, audit_access, access_logging, mfa_required}.
       f (res_handling r) \<longleftrightarrow> (\<exists>p \<in> set ps. f (handling p))) \<and>
     (\<forall>f \<in> {access, rectification, erasure, portability, restriction, objection}.
       f (res_rights r) \<longleftrightarrow> (\<exists>p \<in> set ps. f (rights p)))"

definition strictest_max :: "int option list \<Rightarrow> int option \<Rightarrow> bool" where
  "strictest_max ds d \<longleftrightarrow> (d = None \<or> d \<in> set ds) \<and> (\<forall>x. Some x \<in> set ds \<longrightarrow> (\<exists>y. d = Some y \<and> x \<le> y))"

definition strictest_min :: "int option list \<Rightarrow> int option \<Rightarrow> bool" where
  "strictest_min ds d \<longleftrightarrow> (d = None \<or> d \<in> set ds) \<and> (\<forall>x. Some x \<in> set ds \<longrightarrow> (\<exists>y. d = Some y \<and> y \<le> x))"

definition combines_retention :: "policy_pack list \<Rightarrow> policy_result \<Rightarrow> bool" where
  "combines_retention ps r \<longleftrightarrow>
     strictest_max (map (\<lambda>p. min_days (retention p)) ps) (min_days (res_retention r)) \<and>
     strictest_min (map (\<lambda>p. max_days (retention p)) ps) (max_days (res_retention r)) \<and>
     strictest_min (map (\<lambda>p. review_frequency_days (retention p)) ps) (review_frequency_days (res_retention r))"

text \<open>The allowed regions are intersected one policy after the other; an empty list stands for no
  restriction, so after an empty intersection the next policy sets its own. Nothing sets
  \<open>auto_delete\<close>.\<close>

definition combines_regions :: "policy_pack list \<Rightarrow> policy_result \<Rightarrow> bool" where
  "combines_regions ps r \<longleftrightarrow>
     set (geographic_restrictions (res_handling r)) =
       foldl (\<lambda>allowed g. if g = {} then allowed else if allowed = {} then g else allowed \<inter> g) {}
         (map (\<lambda>p. set (geographic_restrictions (handling p))) ps) \<and>
     \<not> auto_delete (res_retention r)"

lemma set_merge_regions:
  "set (merge_regions rh ph) = (if set ph = {} then set rh else if set rh = {} then set ph else set rh \<inter> set ph)"
  by (auto simp: merge_regions_def)

lemma combines_regions_step: "combines_regions ps r \<Longrightarrow> combines_regions (ps @ [p]) (merge_policy_into_result p r)"
  by (simp add: combines_regions_def merge_policy_into_result_def merge_handling_def merge_retention_def set_merge_regions)

lemma strictest_max_step: "strictest_max ds d \<Longrightarrow> strictest_max (ds @ [e]) (keep_max d e)"
  unfolding strictest_max_def using keep_max_origin [of d e]
  by (fastforce simp: keep_max_def split: option.splits if_splits)

lemma strictest_min_step: "strictest_min ds d \<Longrightarrow> strictest_min (ds @ [e]) (keep_min d e)"
  unfolding strictest_min_def using keep_min_origin [of d e]
  by (fastforce simp: keep_min_def split: option.splits if_splits)

lemma combines_step: "combines ps r \<Longrightarrow> combines (ps @ [p]) (merge_policy_into_result p r)"
  by (auto simp: combines_def merge_policy_into_result_def merge_handling_def)

lemma combines_flags_step: "combines_flags ps r \<Longrightarrow> combines_flags (ps @ [p]) (merge_policy_into_result p r)"
  by (simp add: combines_flags_def merge_policy_into_result_def merge_handling_def merge_rights_def) blast

lemma combines_retention_step:
  "combines_retention ps r \<Longrightarrow> combines_retention (ps @ [p]) (merge_policy_into_result p r)"
  by (simp add: combines_retention_def merge_policy_into_result_def merge_retention_def
      strictest_max_step strictest_min_step)

lemma fold_merge_combines:
  "combines ps (fold merge_policy_into_result ps empty_result) \<and>
   combines_flags ps (fold merge_policy_into_result ps empty_result) \<and>
   combines_retention ps (fold merge_policy_into_result ps empty_result) \<and>
   combines_regions ps (fold merge_policy_into_result ps empty_result)"
proof (induction ps rule: rev_induct)
  case Nil
  show ?case
    by (simp add: combines_def combines_flags_def combines_retention_def combines_regions_def strictest_max_def strictest_min_def
        empty_result_def no_handling_def no_rights_def no_retention_def)
next
  case (snoc p ps)
  then show ?case by (simp add: combines_step combines_flags_step combines_retention_step combines_regions_step)
qed

lemma combines_more [simp]:
  "combines ps (r\<lparr>matches := ms\<rparr>) \<longleftrightarrow> combines ps r" "combines_flags ps (r\<lparr>matches := ms\<rparr>) \<longleftrightarrow> combines_flags ps r"
  "combines_retention ps (r\<lparr>matches := ms\<rparr>) \<longleftrightarrow> combines_retention ps r"
  "combines_regions ps (r\<lparr>matches := ms\<rparr>) \<longleftrightarrow> combines_regions ps r"
  "combines_regions ps (r\<lparr>has_phi := a, has_pii := b, has_pci := c, has_gdpr_special := d\<rparr>) \<longleftrightarrow> combines_regions ps r"
  "combines ps (r\<lparr>has_phi := a, has_pii := b, has_pci := c, has_gdpr_special := d\<rparr>) \<longleftrightarrow> combines ps r"
  "combines_flags ps (r\<lparr>has_phi := a, has_pii := b, has_pci := c, has_gdpr_special := d\<rparr>) \<longleftrightarrow> combines_flags ps r"
  "combines_retention ps (r\<lparr>has_phi := a, has_pii := b, has_pci := c, has_gdpr_special := d\<rparr>) \<longleftrightarrow> combines_retention ps r"
  by (simp_all add: combines_def combines_flags_def combines_retention_def combines_regions_def)

lemma evaluate_policy_name: "evaluate_policy p ctx = Some m \<Longrightarrow> policy_name m = name p"
  by (auto simp: evaluate_policy_def Let_def mk_match_def split: if_splits option.splits)

lemma matched_names: "map policy_name (List.map_filter (\<lambda>p. evaluate_policy p ctx) ps) = map name (matching ctx ps)"
  by (induction ps) (auto simp: map_filter_simps matching_def evaluate_policy_name split: option.splits)

text \<open>The policies that apply: none when no entity is confident enough.\<close>

definition applicable :: "policy_engine \<Rightarrow> eval_context \<Rightarrow> policy_pack list" where
  "applicable e ctx = (if entity_types ctx = {} then [] else matching ctx (policies e))"

lemma build_context_snoc: "build_context (es @ [m]) mc = add_entity mc m (build_context es mc)"
  by (simp add: build_context_def)

lemma context_types:
  "entity_types (build_context es mc) = (\<lambda>m. str_lower (entity_type m)) ` {m \<in> set es. mc \<le> confidence m}"
proof (induction es rule: rev_induct)
  case (snoc m es)
  then show ?case by (auto simp: build_context_snoc add_entity_def Let_def not_less)
qed (simp add: build_context_def empty_context_def)

lemma context_counts: "x \<in> entity_types (build_context es mc) \<Longrightarrow> 1 \<le> type_counts (build_context es mc) x"
proof (induction es rule: rev_induct)
  case (snoc m es)
  then show ?case by (auto simp: build_context_snoc add_entity_def Let_def split: if_splits)
qed (simp add: build_context_def empty_context_def)

lemma context_confident:
  "x \<in> entity_types (build_context es mc) \<Longrightarrow> (\<forall>m \<in> set es. str_lower (entity_type m) = x \<longrightarrow> c \<le> confidence m) \<Longrightarrow>
    c \<le> confidence_of (build_context es mc) x"
proof (induction es rule: rev_induct)
  case (snoc m es)
  then show ?case
    by (auto simp: build_context_snoc add_entity_def Let_def confidence_of_def le_max_iff_disj split: if_splits)
qed (simp add: build_context_def empty_context_def)

lemma policies_add_policies:
  "policies (add_policies ps e) = fold (\<lambda>p qs. if enabled p then sort_key (\<lambda>q. - priority q) (qs @ [p]) else qs) ps (policies e)"
  unfolding add_policies_def by (induction ps arbitrary: e) (auto simp: add_policy_def)

lemma builtin_order:
  "policies (add_policies ps empty_engine) = sort_key (\<lambda>q. - priority q) (filter enabled ps)"
proof -
  have "fold (\<lambda>p qs. if enabled p then sort_key (\<lambda>q. - priority q) (qs @ [p]) else qs) ps (sort_key (\<lambda>q. - priority q) zs)
      = sort_key (\<lambda>q. - priority q) (zs @ filter enabled ps)" for zs
    by (induction ps arbitrary: zs) (auto simp: sort_key_snoc_sorted)
  from this [of "[]"] show ?thesis by (simp add: policies_add_policies empty_engine_def)
qed

lemma evaluate_combines:
  "let r = evaluate_policies e es mc; ps = applicable e (build_context es mc) in
     combines ps r \<and> combines_flags ps r \<and> combines_retention ps r \<and> combines_regions ps r \<and>
     map policy_name (matches r) = map name ps"
proof (cases "entity_types (build_context es mc) = {}")
  case True
  then show ?thesis
    using fold_merge_combines [of "[]"] by (simp add: evaluate_policies_def applicable_def Let_def empty_result_def)
next
  case False
  then show ?thesis
    using fold_merge_combines [of "matching (build_context es mc) (policies e)"]
    by (simp add: evaluate_policies_def applicable_def Let_def fold_evaluate_one matched_names empty_result_def)
qed

text \<open>C2: What an evaluation makes of the policies that apply: the risk level is the highest of theirs;
  the categories, jurisdictions and prohibited regions are the unions; a security control or a data
  subject right is required when one of them requires it; the minimum retention is the longest, the
  maximum retention and the review period the shortest of those that are set. The allowed regions are
  the intersection, taken policy after policy, in which an empty intersection stands for no
  restriction and is replaced by the regions of the next policy; automatic deletion is never required,
  whatever the policies say. The matches are theirs, in the order of evaluation.\<close>

theorem evaluation_combines_policies:
  "let r = evaluate_policies e es mc; ps = applicable e (build_context es mc) in
     combines ps r \<and> combines_flags ps r \<and> combines_retention ps r \<and> combines_regions ps r \<and>
     map policy_name (matches r) = map name ps"
  by (rule evaluate_combines)

section \<open>Regions\<close>

definition restricted :: "policy_pack list \<Rightarrow> string list list" where
  "restricted ps = filter (\<lambda>g. g \<noteq> []) (map (\<lambda>p. geographic_restrictions (handling p)) ps)"

lemma fold_merge_regions:
  assumes "\<forall>g \<in> set (restricted ps). x \<in> set g"
  shows "set (geographic_restrictions (res_handling (fold merge_policy_into_result ps empty_result))) =
    (if restricted ps = [] then {} else \<Inter> (set ` set (restricted ps)))"
  using assms
proof (induction ps rule: rev_induct)
  case Nil
  show ?case by (simp add: restricted_def empty_result_def no_handling_def)
next
  case (snoc p ps)
  let ?r = "fold merge_policy_into_result ps empty_result"
  let ?g = "geographic_restrictions (handling p)" and ?rh = "geographic_restrictions (res_handling ?r)"
  have IH: "set ?rh = (if restricted ps = [] then {} else \<Inter> (set ` set (restricted ps)))"
    using snoc by (simp add: restricted_def)
  have new: "geographic_restrictions (res_handling (merge_policy_into_result p ?r)) = merge_regions ?rh ?g"
    by (simp add: merge_policy_into_result_def merge_handling_def)
  have app: "restricted (ps @ [p]) = (if ?g = [] then restricted ps else restricted ps @ [?g])"
    by (simp add: restricted_def)
  show ?case
  proof (cases "restricted ps = []")
    case True
    with IH show ?thesis by (simp add: new app merge_regions_def)
  next
    case False
    then have "x \<in> set ?rh" using IH snoc.prems by (auto simp: app split: if_splits)
    then have "?rh \<noteq> []" by auto
    with False IH show ?thesis by (auto simp: new app merge_regions_def)
  qed
qed

text \<open>When some region is allowed by every applicable policy that restricts regions, the
  allowed regions of the result are those they all allow.\<close>

theorem regions_intersect:
  assumes "\<forall>g \<in> set (restricted (applicable e (build_context es mc))). region \<in> set g"
    and "restricted (applicable e (build_context es mc)) \<noteq> []"
  shows "set (geographic_restrictions (res_handling (evaluate_policies e es mc))) =
    \<Inter> (set ` set (restricted (applicable e (build_context es mc))))"
proof -
  from assms(2) have ne: "entity_types (build_context es mc) \<noteq> {}"
    by (auto simp: applicable_def restricted_def)
  then have "applicable e (build_context es mc) = matching (build_context es mc) (policies e)"
    by (simp add: applicable_def)
  with ne assms fold_merge_regions show ?thesis
    by (simp add: evaluate_policies_def Let_def fold_evaluate_one)
qed

definition region_policy :: "string \<Rightarrow> int \<Rightarrow> string list \<Rightarrow> policy_pack" where
  "region_policy n prio regions = (policy_defaults n)\<lparr>triggers := no_trigger\<lparr>any_of := [''ssn'']\<rparr>,
     handling := no_handling\<lparr>geographic_restrictions := regions\<rparr>, priority := prio\<rparr>"

definition ssn_entity :: entity_match where
  "ssn_entity = \<lparr>entity_type = ''SSN'', entity_value = ''123-45-6789'', confidence = 9/10\<rparr>"

lemma lower_ssn [simp]: "str_lower ''SSN'' = ''ssn''" "str_lower ''ssn'' = ''ssn''"
  by code_simp+

lemma ssn_context:
  "build_context [ssn_entity] 0 = \<lparr>entity_types = {''ssn''}, type_counts = (\<lambda>_. 0)(''ssn'' := 1),
    type_max_confidence = [''ssn'' \<mapsto> 9/10], entities = [ssn_entity]\<rparr>"
  by (simp add: build_context_def add_entity_def empty_context_def ssn_entity_def confidence_of_def Let_def)

lemma region_policy_matches: "evaluate_policy (region_policy n k g) (build_context [ssn_entity] 0) \<noteq> None"
  by (simp add: evaluate_policy_def Let_def is_empty_def region_policy_def policy_defaults_def no_trigger_def
      ssn_context lowered_def confident_def confidence_of_def)

lemma region_policies_apply:
  "\<forall>p \<in> set ps. \<exists>n k g. p = region_policy n k g \<Longrightarrow>
    applicable \<lparr>policies = ps, policies_by_category = c\<rparr> (build_context [ssn_entity] 0) = ps"
  using region_policy_matches
  by (fastforce simp: applicable_def matching_def ssn_context [THEN arg_cong, of entity_types] intro!: filter_True)

definition region_engine :: "string list list \<Rightarrow> policy_engine" where
  "region_engine gs = \<lparr>policies = map (region_policy ''region'' 0) gs, policies_by_category = (\<lambda>_. None)\<rparr>"

lemma region_engine_applies:
  "applicable (region_engine gs) (build_context [ssn_entity] 0) = map (region_policy ''region'' 0) gs"
  unfolding region_engine_def by (rule region_policies_apply) auto

lemma region_engine_restricted: "restricted (map (region_policy n k) gs) = filter (\<lambda>g. g \<noteq> []) gs"
  by (induction gs) (simp_all add: restricted_def region_policy_def)

theorem regions_intersect_witness:
  "set (geographic_restrictions (res_handling
      (evaluate_policies (region_engine [[''EU'', ''US''], [''EU'']]) [ssn_entity] 0))) = {''EU''}"
  using regions_intersect [of "region_engine [[''EU'', ''US''], [''EU'']]" "[ssn_entity]" 0 "''EU''"]
  unfolding region_engine_applies region_engine_restricted by simp

lemma region_engine_result:
  "geographic_restrictions (res_handling (evaluate_policies (region_engine gs) [ssn_entity] 0)) =
    fold (\<lambda>g rh. merge_regions rh g) gs []"
proof -
  have "geographic_restrictions (res_handling (fold merge_policy_into_result (map (region_policy n k) gs) r)) =
      fold (\<lambda>g rh. merge_regions rh g) gs (geographic_restrictions (res_handling r))" for n k r
    by (induction gs arbitrary: r)
      (simp_all add: merge_policy_into_result_def merge_handling_def region_policy_def)
  moreover have "matching (build_context [ssn_entity] 0) (policies (region_engine gs)) = map (region_policy ''region'' 0) gs"
    using region_engine_applies [of gs] by (simp add: applicable_def ssn_context)
  ultimately show ?thesis
    by (simp add: evaluate_policies_def Let_def ssn_context fold_evaluate_one empty_result_def no_handling_def)
qed

text \<open>Policies whose allowed regions have nothing in common cancel out. The empty intersection
  is the value that stands for no restriction: data that one policy keeps in the EU and another in
  the US is left unrestricted, and one more policy that allows CN makes CN the only allowed region.\<close>

theorem disjoint_regions_lift_restriction:
  "geographic_restrictions (res_handling (evaluate_policies (region_engine [[''EU''], [''US'']]) [ssn_entity] 0)) = [] \<and>
   geographic_restrictions (res_handling (evaluate_policies (region_engine [[''EU''], [''US''], [''CN'']]) [ssn_entity] 0))
     = [''CN'']"
  by (simp add: region_engine_result merge_regions_def)

section \<open>Triggers\<close>

definition email_entity :: entity_match where
  "email_entity = \<lparr>entity_type = ''email'', entity_value = ''a@b.org'', confidence = 1/5\<rparr>"

definition contact_policy :: policy_pack where
  "contact_policy = (policy_defaults ''contacts'')\<lparr>triggers := no_trigger\<lparr>any_of := [''ssn'', ''email'']\<rparr>\<rparr>"

lemma lower_email [simp]: "str_lower ''email'' = ''email''"
  by code_simp

text \<open>One more entity can switch a policy off. \<open>any_of\<close> asks for confidence and count of every
  listed type that is present instead of one of them: a confident SSN triggers the policy, and
  the same SSN next to a doubtful e-mail address does not.\<close>

theorem any_of_not_monotone:
  "evaluate_policy contact_policy (build_context [ssn_entity] 0) \<noteq> None \<and>
   evaluate_policy contact_policy (build_context [ssn_entity, email_entity] 0) = None"
proof -
  have ctx: "build_context [ssn_entity, email_entity] 0 =
    \<lparr>entity_types = {''email'', ''ssn''}, type_counts = (\<lambda>_. 0)(''ssn'' := 1, ''email'' := 1),
      type_max_confidence = [''ssn'' \<mapsto> 9/10, ''email'' \<mapsto> 1/5], entities = [ssn_entity, email_entity]\<rparr>"
    by (simp add: build_context_def add_entity_def empty_context_def ssn_entity_def email_entity_def
        confidence_of_def Let_def)
  show ?thesis
    by (simp add: ctx ssn_context evaluate_policy_def Let_def is_empty_def contact_policy_def policy_defaults_def
        no_trigger_def lowered_def confident_def confidence_of_def)
qed

text \<open>Two flaws of the same kind, as lemmas: special categories alone never trigger a policy, and
  no evaluation asks for deletion.\<close>

lemma special_category_needs_trigger: "is_empty (triggers p) \<Longrightarrow> evaluate_policy p ctx = None"
  by (simp add: evaluate_policy_def Let_def)

lemma auto_delete_never_set: "\<not> auto_delete (res_retention (evaluate_policies e es mc))"
proof -
  have "\<not> auto_delete (res_retention r) \<Longrightarrow> \<not> auto_delete (res_retention (fold merge_policy_into_result ps r))" for ps r
    by (induction ps arbitrary: r) (simp_all add: merge_policy_into_result_def merge_retention_def)
  then show ?thesis
    by (simp add: evaluate_policies_def Let_def fold_evaluate_one empty_result_def no_retention_def)
qed

section \<open>What the audit values reveal\<close>

text \<open>Two entities the audit log may not tell apart: same type and confidence, and values of the same
  length that agree on the two first and two last characters when they have more than four.\<close>

definition same_outline :: "string \<Rightarrow> string \<Rightarrow> bool" where
  "same_outline v w \<longleftrightarrow> length v = length w \<and>
     (length v > 4 \<longrightarrow> take 2 v = take 2 w \<and> drop (length v - 2) v = drop (length w - 2) w)"

definition alike :: "entity_match \<Rightarrow> entity_match \<Rightarrow> bool" where
  "alike m n \<longleftrightarrow> entity_type m = entity_type n \<and> confidence m = confidence n \<and>
     same_outline (entity_value m) (entity_value n)"

definition alike_context :: "eval_context \<Rightarrow> eval_context \<Rightarrow> bool" where
  "alike_context c d \<longleftrightarrow> entity_types c = entity_types d \<and> type_counts c = type_counts d \<and>
     type_max_confidence c = type_max_confidence d \<and> list_all2 alike (entities c) (entities d)"

lemma redact_outline: "same_outline v w \<Longrightarrow> redact v = redact w"
  by (auto simp: same_outline_def redact_def)

lemma length_redact: "length (redact v) = length v"
  by (auto simp: redact_def)

lemma build_context_alike:
  assumes "list_all2 alike es fs"
  shows "alike_context (build_context es mc) (build_context fs mc)"
proof -
  have step: "alike m n \<Longrightarrow> alike_context c d \<Longrightarrow> alike_context (add_entity mc m c) (add_entity mc n d)" for m n c d
    by (simp add: alike_context_def add_entity_def Let_def confidence_of_def alike_def [of m n] list_all2_appendI)
  have "alike_context c d \<Longrightarrow> alike_context (fold (add_entity mc) es c) (fold (add_entity mc) fs d)" for c d
    using assms by (induction arbitrary: c d rule: list_all2_induct) (simp_all add: step)
  then show ?thesis
    by (simp add: build_context_def empty_context_def alike_context_def)
qed

lemma outlines_alike:
  assumes "list_all2 alike es fs"
  shows "map (\<lambda>m. entity_type m @ '':'' @ redact (entity_value m)) (filter (\<lambda>m. str_lower (entity_type m) \<in> types) es) =
    map (\<lambda>m. entity_type m @ '':'' @ redact (entity_value m)) (filter (\<lambda>m. str_lower (entity_type m) \<in> types) fs)"
  using assms
proof (induction rule: list_all2_induct)
  case (Cons m es n fs)
  then have "entity_type m = entity_type n" and "redact (entity_value m) = redact (entity_value n)"
    by (auto simp: alike_def intro: redact_outline)
  with Cons.IH show ?case by simp
qed simp

lemma matched_values_alike:
  assumes "alike_context c d"
  shows "get_matched_values c types = get_matched_values d types"
proof -
  from assms have "list_all2 alike (entities c) (entities d)" by (simp add: alike_context_def)
  from outlines_alike [OF this, of types] show ?thesis by (simp only: get_matched_values_def)
qed

lemma evaluate_policy_alike:
  assumes "alike_context c d"
  shows "evaluate_policy p c = evaluate_policy p d"
proof -
  have eqs: "entity_types c = entity_types d" "type_counts c = type_counts d"
    using assms by (simp_all add: alike_context_def)
  have conf: "confident t c types = confident t d types" for t types
    using assms by (simp add: confident_def confidence_of_def alike_context_def)
  have mk: "mk_match p c ty types = mk_match p d ty types" for ty types
    by (simp add: mk_match_def matched_values_alike [OF assms])
  have trg: "evaluate_triggers t c = evaluate_triggers t d" for t
    by (simp only: evaluate_triggers_def eqs)
  show ?thesis
    by (simp only: evaluate_policy_def eqs conf mk trg)
qed

text \<open>The outcome of an evaluation, its audit values included, depends on a detected value only
  through its length and, for values of more than four characters, its two first and two last
  characters: replacing values by others of the same outline changes nothing in the result.\<close>

theorem evaluation_hides_values:
  assumes "list_all2 alike es fs"
  shows "evaluate_policies e es mc = evaluate_policies e fs mc"
proof -
  note sim = build_context_alike [OF assms, of mc]
  have "evaluate_one (build_context es mc) = evaluate_one (build_context fs mc)"
    by (intro ext) (simp add: evaluate_one_def evaluate_policy_alike [OF sim])
  with sim show ?thesis
    by (simp add: evaluate_policies_def alike_context_def)
qed

theorem evaluation_hides_values_witness:
  "evaluate_policies (region_engine [[''EU'']]) [ssn_entity] 0 =
    evaluate_policies (region_engine [[''EU'']]) [ssn_entity\<lparr>entity_value := ''129-99-9989''\<rparr>] 0"
  by (rule evaluation_hides_values) (simp add: alike_def same_outline_def ssn_entity_def)

end
