(* ===== verification/Policy_Packs.thy ===== *)
theory Policy_Packs
  imports Policy_Engine Entity_Types
begin

text \<open>
  The policy loader, \<^verbatim>\<open>src/openlabels/core/policies/loader.py\<close>: the built-in packs as tables, the
  parsers of the sections and \<open>load_policy_pack\<close>, and \<open>_serialize_pack\<close> of
  \<^verbatim>\<open>src/openlabels/server/services/policy_service.py\<close>, which writes a pack to the \<open>config\<close>
  column. Configuration data is a \<open>json\<close> value; YAML parsing and the file system are
  parameters. An em dash in a description is written \<open>--\<close>. The code stores a field of an unexpected JSON type without looking at it; the model
  answers \<open>IllTyped\<close> there, since a pack with such a field is not a \<open>policy_pack\<close>.
\<close>

section \<open>Built-in policy packs\<close>

definition create_hipaa_phi :: policy_pack where
  "create_hipaa_phi = (policy_defaults ''HIPAA PHI'')\<lparr>
     version := ''1.0'',
     description := ''Protected Health Information under HIPAA Privacy Rule (45 CFR 164.514)'',
     category := HIPAA,
     pack_risk_level := CRITICAL,
     triggers := no_trigger\<lparr>any_of :=
       [''medical_record_number'', ''mrn'', ''health_insurance_id'',
        ''health_plan_beneficiary'', ''diagnosis_code'', ''icd_code'',
        ''prescription'', ''medication'', ''npi'', ''dea_number''],
     combinations :=
       [[''person_name'', ''date_of_birth'', ''medical_facility''],
        [''person_name'', ''diagnosis''], [''person_name'', ''treatment''],
        [''person_name'', ''medical_provider''], [''ssn'', ''medical_provider''],
        [''ssn'', ''diagnosis''], [''email'', ''diagnosis''],
        [''phone'', ''diagnosis''], [''address'', ''diagnosis'']],
     min_confidence := 7/10\<rparr>,
     handling := no_handling\<lparr>encryption_required := True, encryption_at_rest := True,
       encryption_in_transit := True, audit_access := True, access_logging := True\<rparr>,
     retention := no_retention\<lparr>min_days := Some 2190, review_frequency_days := Some 365\<rparr>,
     jurisdictions := [''US''],
     priority := 100,
     tags := [''healthcare'', ''phi'', ''hipaa'', ''regulated'']\<rparr>"

definition create_pii_general :: policy_pack where
  "create_pii_general = (policy_defaults ''PII General'')\<lparr>
     version := ''1.0'',
     description := ''General Personally Identifiable Information'',
     category := PII,
     pack_risk_level := HIGH,
     triggers := no_trigger\<lparr>any_of :=
       [''ssn'', ''social_security_number'', ''drivers_license'', ''passport'',
        ''national_id'', ''itin'', ''tax_id'', ''ein'', ''uk_nino'', ''ca_sin'',
        ''de_id''],
     combinations :=
       [[''person_name'', ''date_of_birth''], [''person_name'', ''address''],
        [''person_name'', ''phone''], [''person_name'', ''email'', ''date_of_birth'']],
     min_confidence := 3/5\<rparr>,
     handling := no_handling\<lparr>encryption_required := True, encryption_at_rest := True, audit_access := True\<rparr>,
     retention := no_retention\<lparr>review_frequency_days := Some 365\<rparr>,
     priority := 80,
     tags := [''pii'', ''personal-data'']\<rparr>"

definition create_pci_dss :: policy_pack where
  "create_pci_dss = (policy_defaults ''PCI-DSS'')\<lparr>
     version := ''4.0'',
     description := ''Payment Card Industry Data Security Standard'',
     category := PCI_DSS,
     pack_risk_level := CRITICAL,
     triggers := no_trigger\<lparr>any_of :=
       [''credit_card'', ''credit_card_number'', ''pan'', ''card_cvv'', ''cvv'',
        ''card_expiry'', ''cardholder_name'', ''bank_routing'', ''bank_account'',
        ''iban''],
     combinations :=
       [[''credit_card_number'', ''card_expiry''],
        [''credit_card_number'', ''cvv''], [''bank_account'', ''routing_number''],
        [''iban'', ''bic'']],
     min_confidence := 4/5\<rparr>,
     handling := no_handling\<lparr>encryption_required := True, encryption_at_rest := True,
       encryption_in_transit := True, tokenization_required := True,
       masking_required := True, audit_access := True, access_logging := True\<rparr>,
     retention := no_retention\<lparr>max_days := Some 365, review_frequency_days := Some 90\<rparr>,
     priority := 100,
     tags := [''financial'', ''pci'', ''payment-cards'', ''regulated'']\<rparr>"

definition create_gdpr_personal :: policy_pack where
  "create_gdpr_personal = (policy_defaults ''GDPR Personal Data'')\<lparr>
     version := ''1.0'',
     description := ''Personal Data under GDPR Article 4 - any information relating to an identified or identifiable natural person'',
     category := GDPR,
     pack_risk_level := HIGH,
     triggers := no_trigger\<lparr>any_of :=
       [''person_name'', ''email'', ''email_address'', ''phone'', ''phone_number'',
        ''ip_address'', ''device_id'', ''cookie_id'', ''location'',
        ''location_data'', ''gps_coordinates'', ''national_id'', ''passport'',
        ''uk_nino'', ''de_id''],
     min_confidence := 3/5\<rparr>,
     special_category_triggers := no_trigger\<lparr>any_of :=
       [''racial_ethnic_origin'', ''political_opinion'', ''religious_belief'',
        ''trade_union_membership'', ''genetic_data'', ''biometric_data'',
        ''health_data'', ''diagnosis'', ''medical_condition'', ''sex_life'',
        ''sexual_orientation''],
     min_confidence := 7/10\<rparr>,
     handling := no_handling\<lparr>encryption_required := True, encryption_in_transit := True,
       audit_access := True, access_logging := True\<rparr>,
     retention := no_retention\<lparr>review_frequency_days := Some 365, auto_delete := False\<rparr>,
     rights := no_rights\<lparr>access := True, rectification := True, erasure := True, portability := True,
       restriction := True, objection := True\<rparr>,
     jurisdictions := [''EU'', ''EEA'', ''UK''],
     priority := 90,
     tags := [''gdpr'', ''eu'', ''personal-data'', ''regulated'']\<rparr>"

definition create_ccpa_cpra :: policy_pack where
  "create_ccpa_cpra = (policy_defaults ''CCPA/CPRA'')\<lparr>
     version := ''2.0'',
     description := ''California Consumer Privacy Act and California Privacy Rights Act'',
     category := CCPA,
     pack_risk_level := HIGH,
     triggers := no_trigger\<lparr>any_of :=
       [''ssn'', ''drivers_license'', ''passport'', ''financial_account'',
        ''credit_card'', ''biometric_data''],
     combinations :=
       [[''person_name'', ''email''], [''person_name'', ''phone''],
        [''person_name'', ''address''], [''person_name'', ''ip_address''],
        [''email'', ''purchase_history''], [''device_id'', ''browsing_history'']],
     min_confidence := 3/5\<rparr>,
     special_category_triggers := no_trigger\<lparr>any_of :=
       [''ssn'', ''drivers_license'', ''passport'', ''financial_account'',
        ''precise_geolocation'', ''racial_ethnic_origin'', ''religious_belief'',
        ''union_membership'', ''genetic_data'', ''biometric_data'', ''health_data'',
        ''sex_life'', ''sexual_orientation'']\<rparr>,
     handling := no_handling\<lparr>encryption_required := True, audit_access := True\<rparr>,
     retention := no_retention\<lparr>review_frequency_days := Some 365\<rparr>,
     rights := no_rights\<lparr>access := True, erasure := True, portability := True, objection := True\<rparr>,
     jurisdictions := [''US-CA''],
     priority := 85,
     tags := [''ccpa'', ''cpra'', ''california'', ''regulated'']\<rparr>"

definition create_glba :: policy_pack where
  "create_glba = (policy_defaults ''GLBA'')\<lparr>
     version := ''1.0'',
     description := ''Gramm-Leach-Bliley Act - Financial Privacy'',
     category := GLBA,
     pack_risk_level := HIGH,
     triggers := no_trigger\<lparr>any_of :=
       [''ssn'', ''tax_id'', ''bank_account'', ''bank_routing'', ''credit_card'',
        ''financial_account''],
     combinations :=
       [[''person_name'', ''account_number''],
        [''person_name'', ''financial_account''], [''ssn'', ''account_balance''],
        [''person_name'', ''credit_score''], [''person_name'', ''loan_amount'']],
     min_confidence := 7/10\<rparr>,
     handling := no_handling\<lparr>encryption_required := True, encryption_at_rest := True,
       encryption_in_transit := True, audit_access := True\<rparr>,
     retention := no_retention\<lparr>min_days := Some 2555\<rparr>,
     jurisdictions := [''US''],
     priority := 85,
     tags := [''financial'', ''glba'', ''regulated'']\<rparr>"

definition create_ferpa :: policy_pack where
  "create_ferpa = (policy_defaults ''FERPA'')\<lparr>
     version := ''1.0'',
     description := ''Family Educational Rights and Privacy Act - Education Records'',
     category := FERPA,
     pack_risk_level := HIGH,
     triggers := no_trigger\<lparr>any_of :=
       [''student_id'', ''education_record'', ''transcript'', ''grade'', ''gpa''],
     combinations :=
       [[''person_name'', ''student_id''], [''person_name'', ''grade''],
        [''person_name'', ''school'', ''date_of_birth''],
        [''person_name'', ''disciplinary_record'']],
     min_confidence := 7/10\<rparr>,
     handling := no_handling\<lparr>encryption_required := True, audit_access := True\<rparr>,
     retention := no_retention\<lparr>min_days := Some 1825\<rparr>,
     rights := no_rights\<lparr>access := True, rectification := True\<rparr>,
     jurisdictions := [''US''],
     priority := 80,
     tags := [''education'', ''ferpa'', ''regulated'']\<rparr>"

definition create_credentials :: policy_pack where
  "create_credentials = (policy_defaults ''Credentials & Secrets'')\<lparr>
     version := ''1.0'',
     description := ''API keys, passwords, tokens, and other credentials'',
     category := CUSTOM,
     pack_risk_level := CRITICAL,
     triggers := no_trigger\<lparr>any_of :=
       [''aws_key'', ''aws_secret'', ''api_key'', ''password'', ''private_key'',
        ''ssh_key'', ''github_token'', ''azure_connection_string'',
        ''database_password'', ''jwt_secret'', ''encryption_key'', ''client_secret''],
     min_confidence := 4/5\<rparr>,
     handling := no_handling\<lparr>encryption_required := True, encryption_at_rest := True, audit_access := True,
       access_logging := True\<rparr>,
     retention := no_retention\<lparr>max_days := Some 90\<rparr>,
     priority := 100,
     tags := [''credentials'', ''secrets'', ''security'']\<rparr>"

definition create_soc2 :: policy_pack where
  "create_soc2 = (policy_defaults ''SOC2 Trust Services'')\<lparr>
     version := ''1.0'',
     description := ''SOC 2 Trust Services Criteria -- data confidentiality and processing integrity controls for service organizations'',
     category := SOC2,
     pack_risk_level := HIGH,
     triggers := no_trigger\<lparr>any_of :=
       [''ssn'', ''social_security_number'', ''credit_card'', ''bank_account'',
        ''iban'', ''api_key'', ''password'', ''private_key'', ''aws_key'',
        ''aws_secret'', ''client_secret'', ''database_password'', ''encryption_key''],
     combinations :=
       [[''person_name'', ''bank_account''], [''person_name'', ''credit_card''],
        [''email'', ''ssn'']],
     min_confidence := 7/10\<rparr>,
     handling := no_handling\<lparr>encryption_required := True, encryption_at_rest := True,
       encryption_in_transit := True, audit_access := True, access_logging := True\<rparr>,
     retention := no_retention\<lparr>min_days := Some 365, review_frequency_days := Some 90\<rparr>,
     jurisdictions := [''US''],
     priority := 60,
     tags := [''soc2'', ''trust-services'', ''confidentiality'']\<rparr>"

definition BUILTIN_POLICIES :: "policy_pack list" where
  "BUILTIN_POLICIES =
     [create_hipaa_phi, create_pii_general, create_pci_dss, create_gdpr_personal, create_ccpa_cpra, create_glba, create_ferpa, create_credentials, create_soc2]"

definition load_builtin_policies :: "policy_pack list" where
  "load_builtin_policies = BUILTIN_POLICIES"

section \<open>Reading a pack\<close>

datatype load_error = InvalidSource | YamlError | MissingName | AttributeError | IllTyped string

fun category_value :: "policy_category \<Rightarrow> string" where
  "category_value HIPAA = ''hipaa''" | "category_value FERPA = ''ferpa''" | "category_value GLBA = ''glba''"
| "category_value SOX = ''sox''" | "category_value COPPA = ''coppa''" | "category_value CCPA = ''ccpa''"
| "category_value CPRA = ''cpra''" | "category_value NYDFS = ''nydfs''" | "category_value SHIELD = ''shield''"
| "category_value GDPR = ''gdpr''" | "category_value LGPD = ''lgpd''" | "category_value PIPEDA = ''pipeda''"
| "category_value POPIA = ''popia''" | "category_value PDPA = ''pdpa''" | "category_value PCI_DSS = ''pci_dss''"
| "category_value SOC2 = ''soc2''" | "category_value ISO27001 = ''iso27001''" | "category_value PII = ''pii''"
| "category_value PHI = ''phi''" | "category_value CUSTOM = ''custom''"

fun risk_value :: "risk_level \<Rightarrow> string" where
  "risk_value MINIMAL = ''minimal''" | "risk_value LOW = ''low''" | "risk_value MEDIUM = ''medium''"
| "risk_value HIGH = ''high''" | "risk_value CRITICAL = ''critical''"

definition all_categories :: "policy_category list" where
  "all_categories = [HIPAA, FERPA, GLBA, SOX, COPPA, CCPA, CPRA, NYDFS, SHIELD, GDPR, LGPD, PIPEDA,
     POPIA, PDPA, PCI_DSS, SOC2, ISO27001, PII, PHI, CUSTOM]"

definition category_of :: "string \<Rightarrow> policy_category" where
  "category_of s = (case find (\<lambda>c. category_value c = s) all_categories of Some c \<Rightarrow> c | None \<Rightarrow> CUSTOM)"

definition risk_of :: "string \<Rightarrow> risk_level" where
  "risk_of s = (case find (\<lambda>r. risk_value r = s) [MINIMAL, LOW, MEDIUM, HIGH, CRITICAL] of Some r \<Rightarrow> r | None \<Rightarrow> HIGH)"

type_synonym json_dict = "(string \<times> json) list"

text \<open>\<open>data.get(k, default)\<close> for a field of a given type.\<close>

definition get_as :: "(json \<Rightarrow> 'a option) \<Rightarrow> json_dict \<Rightarrow> string \<Rightarrow> 'a \<Rightarrow> load_error + 'a" where
  "get_as dec d k dflt = (case map_of d k of None \<Rightarrow> Inr dflt
     | Some j \<Rightarrow> (case dec j of Some x \<Rightarrow> Inr x | None \<Rightarrow> Inl (IllTyped k)))"

fun as_bool :: "json \<Rightarrow> bool option" where
  "as_bool (JBool b) = Some b" | "as_bool _ = None"

fun as_int :: "json \<Rightarrow> int option" where
  "as_int (JInt i) = Some i" | "as_int _ = None"

fun as_opt_int :: "json \<Rightarrow> int option option" where
  "as_opt_int JNull = Some None" | "as_opt_int (JInt i) = Some (Some i)" | "as_opt_int _ = None"

fun as_real :: "json \<Rightarrow> real option" where
  "as_real (JReal x) = Some x" | "as_real (JInt i) = Some (of_int i)" | "as_real _ = None"

fun as_str :: "json \<Rightarrow> string option" where
  "as_str (JStr s) = Some s" | "as_str _ = None"

fun as_obj :: "json \<Rightarrow> json_dict option" where
  "as_obj (JObj d) = Some d" | "as_obj _ = None"

fun as_list :: "(json \<Rightarrow> 'a option) \<Rightarrow> json \<Rightarrow> 'a list option" where
  "as_list dec (JList js) = those (map dec js)" | "as_list dec _ = None"

definition get_section :: "json_dict \<Rightarrow> string \<Rightarrow> load_error + json_dict" where
  "get_section d k = (case map_of d k of None \<Rightarrow> Inr [] | Some (JObj o') \<Rightarrow> Inr o' | Some _ \<Rightarrow> Inl AttributeError)"

definition parse_trigger :: "json_dict \<Rightarrow> load_error + policy_trigger" where
  "parse_trigger d =
     res_bind (get_as (as_list as_str) d ''any_of'' []) (\<lambda>an.
     res_bind (get_as (as_list as_str) d ''all_of'' []) (\<lambda>al.
     res_bind (get_as (as_list (as_list as_str)) d ''combinations'' []) (\<lambda>co.
     res_bind (get_as as_real d ''min_confidence'' (1/2)) (\<lambda>mc.
     res_bind (get_as as_int d ''min_count'' 1) (\<lambda>n.
     res_bind (get_as (as_list as_str) d ''exclude_if_only'' []) (\<lambda>ex.
       Inr \<lparr>any_of = an, all_of = al, combinations = co, min_confidence = mc, min_count = n,
         exclude_if_only = ex\<rparr>))))))"

definition parse_handling :: "json_dict \<Rightarrow> load_error + handling_requirements" where
  "parse_handling d =
     res_bind (get_as as_bool d ''encryption_required'' False) (\<lambda>b1.
     res_bind (get_as as_bool d ''encryption_at_rest'' False) (\<lambda>b2.
     res_bind (get_as as_bool d ''encryption_in_transit'' False) (\<lambda>b3.
     res_bind (get_as as_bool d ''tokenization_required'' False) (\<lambda>b4.
     res_bind (get_as as_bool d ''masking_required'' False) (\<lambda>b5.
     res_bind (get_as as_bool d ''audit_access'' False) (\<lambda>b6.
     res_bind (get_as as_bool d ''access_logging'' False) (\<lambda>b7.
     res_bind (get_as as_bool d ''mfa_required'' False) (\<lambda>b8.
     res_bind (get_as (as_list as_str) d ''geographic_restrictions'' []) (\<lambda>g.
     res_bind (get_as (as_list as_str) d ''prohibited_regions'' []) (\<lambda>r.
       Inr \<lparr>encryption_required = b1, encryption_at_rest = b2, encryption_in_transit = b3,
         tokenization_required = b4, masking_required = b5, audit_access = b6, access_logging = b7,
         mfa_required = b8, geographic_restrictions = g, prohibited_regions = r\<rparr>))))))))))"

definition parse_retention :: "json_dict \<Rightarrow> load_error + retention_policy" where
  "parse_retention d =
     res_bind (get_as as_opt_int d ''max_days'' None) (\<lambda>mx.
     res_bind (get_as as_opt_int d ''min_days'' None) (\<lambda>mn.
     res_bind (get_as as_opt_int d ''review_frequency_days'' None) (\<lambda>rv.
     res_bind (get_as as_bool d ''auto_delete'' False) (\<lambda>ad.
       Inr \<lparr>max_days = mx, min_days = mn, review_frequency_days = rv, auto_delete = ad\<rparr>))))"

definition parse_rights :: "json_dict \<Rightarrow> load_error + data_subject_rights" where
  "parse_rights d =
     res_bind (get_as as_bool d ''access'' False) (\<lambda>b1.
     res_bind (get_as as_bool d ''rectification'' False) (\<lambda>b2.
     res_bind (get_as as_bool d ''erasure'' False) (\<lambda>b3.
     res_bind (get_as as_bool d ''portability'' False) (\<lambda>b4.
     res_bind (get_as as_bool d ''restriction'' False) (\<lambda>b5.
     res_bind (get_as as_bool d ''objection'' False) (\<lambda>b6.
       Inr \<lparr>access = b1, rectification = b2, erasure = b3, portability = b4, restriction = b5,
         objection = b6\<rparr>))))))"

text \<open>A field the code calls \<open>.lower()\<close> on.\<close>

definition get_lower :: "json_dict \<Rightarrow> string \<Rightarrow> string \<Rightarrow> load_error + string" where
  "get_lower d k dflt = (case map_of d k of None \<Rightarrow> Inr (str_lower dflt)
     | Some (JStr s) \<Rightarrow> Inr (str_lower s) | Some _ \<Rightarrow> Inl AttributeError)"

definition get_name :: "json_dict \<Rightarrow> load_error + string" where
  "get_name d = (case map_of d ''name'' of None \<Rightarrow> Inl MissingName
     | Some j \<Rightarrow> if falsy j then Inl MissingName
         else (case as_str j of Some s \<Rightarrow> Inr s | None \<Rightarrow> Inl (IllTyped ''name'')))"

definition get_special :: "json_dict \<Rightarrow> load_error + policy_trigger" where
  "get_special d = (case map_of d ''special_category_triggers'' of None \<Rightarrow> Inr no_trigger
     | Some j \<Rightarrow> if falsy j then Inr no_trigger
         else (case as_obj j of Some o' \<Rightarrow> parse_trigger o' | None \<Rightarrow> Inl AttributeError))"

definition load_dict :: "json_dict \<Rightarrow> load_error + policy_pack" where
  "load_dict d =
     res_bind (get_name d) (\<lambda>nm.
     res_bind (get_lower d ''category'' ''custom'') (\<lambda>category_str.
     res_bind (get_lower d ''risk_level'' ''high'') (\<lambda>risk_str.
     res_bind (res_bind (get_section d ''triggers'') parse_trigger) (\<lambda>tr.
     res_bind (get_special d) (\<lambda>sp.
     res_bind (res_bind (get_section d ''handling'') parse_handling) (\<lambda>ha.
     res_bind (res_bind (get_section d ''retention'') parse_retention) (\<lambda>re.
     res_bind (res_bind (get_section d ''data_subject_rights'') parse_rights) (\<lambda>ri.
     res_bind (get_as as_str d ''version'' ''1.0'') (\<lambda>ve.
     res_bind (get_as as_str d ''description'' []) (\<lambda>de.
     res_bind (get_as (as_list as_str) d ''jurisdictions'' []) (\<lambda>ju.
     res_bind (get_as as_bool d ''enabled'' True) (\<lambda>en.
     res_bind (get_as as_int d ''priority'' 0) (\<lambda>pr.
     res_bind (get_as (as_list as_str) d ''tags'' []) (\<lambda>ta.
     res_bind (get_as as_obj d ''metadata'' []) (\<lambda>me.
       Inr \<lparr>name = nm, version = ve, description = de, category = category_of category_str,
         pack_risk_level = risk_of risk_str, triggers = tr, special_category_triggers = sp,
         handling = ha, retention = re, rights = ri, jurisdictions = ju, enabled = en, priority = pr,
         tags = ta, metadata = me\<rparr>)))))))))))))))"

text \<open>The source is a dictionary, a text that names a file or is YAML itself, or anything else.
  \<open>file\<close> reads a file, \<open>yaml\<close> is the third-party parser.\<close>

datatype pack_source = SourceDict json_dict | SourceText string | SourceOther

definition load_policy_pack ::
  "(string \<Rightarrow> string option) \<Rightarrow> (string \<Rightarrow> json option) \<Rightarrow> pack_source \<Rightarrow> load_error + policy_pack" where
  "load_policy_pack file yaml source =
     (case source of
        SourceDict d \<Rightarrow> load_dict d
      | SourceText s \<Rightarrow>
          (case yaml (case file s of Some content \<Rightarrow> content | None \<Rightarrow> s) of
             None \<Rightarrow> Inl YamlError
           | Some j \<Rightarrow> (case as_obj j of Some d \<Rightarrow> load_dict d | None \<Rightarrow> Inl AttributeError))
      | SourceOther \<Rightarrow> Inl InvalidSource)"

section \<open>Writing a pack\<close>

definition j_strs :: "string list \<Rightarrow> json" where
  "j_strs xs = JList (map JStr xs)"

definition j_opt :: "int option \<Rightarrow> json" where
  "j_opt x = (case x of None \<Rightarrow> JNull | Some i \<Rightarrow> JInt i)"

definition j_trigger :: "policy_trigger \<Rightarrow> json" where
  "j_trigger t = JObj [(''any_of'', j_strs (any_of t)), (''all_of'', j_strs (all_of t)),
     (''combinations'', JList (map j_strs (combinations t))), (''min_confidence'', JReal (min_confidence t)),
     (''min_count'', JInt (min_count t)), (''exclude_if_only'', j_strs (exclude_if_only t))]"

definition j_handling :: "handling_requirements \<Rightarrow> json" where
  "j_handling h = JObj [(''encryption_required'', JBool (encryption_required h)),
     (''encryption_at_rest'', JBool (encryption_at_rest h)),
     (''encryption_in_transit'', JBool (encryption_in_transit h)),
     (''tokenization_required'', JBool (tokenization_required h)),
     (''masking_required'', JBool (masking_required h)), (''audit_access'', JBool (audit_access h)),
     (''access_logging'', JBool (access_logging h)), (''mfa_required'', JBool (mfa_required h)),
     (''geographic_restrictions'', j_strs (geographic_restrictions h)),
     (''prohibited_regions'', j_strs (prohibited_regions h))]"

definition j_retention :: "retention_policy \<Rightarrow> json" where
  "j_retention r = JObj [(''max_days'', j_opt (max_days r)), (''min_days'', j_opt (min_days r)),
     (''review_frequency_days'', j_opt (review_frequency_days r)), (''auto_delete'', JBool (auto_delete r))]"

definition j_rights :: "data_subject_rights \<Rightarrow> json" where
  "j_rights r = JObj [(''access'', JBool (access r)), (''rectification'', JBool (rectification r)),
     (''erasure'', JBool (erasure r)), (''portability'', JBool (portability r)),
     (''restriction'', JBool (restriction r)), (''objection'', JBool (objection r))]"

definition serialize_pack :: "policy_pack \<Rightarrow> json_dict" where
  "serialize_pack p = [(''name'', JStr (name p)), (''version'', JStr (version p)),
     (''description'', JStr (description p)), (''category'', JStr (category_value (category p))),
     (''risk_level'', JStr (risk_value (pack_risk_level p))), (''triggers'', j_trigger (triggers p)),
     (''special_category_triggers'', j_trigger (special_category_triggers p)),
     (''handling'', j_handling (handling p)), (''retention'', j_retention (retention p)),
     (''data_subject_rights'', j_rights (rights p)), (''jurisdictions'', j_strs (jurisdictions p)),
     (''enabled'', JBool (enabled p)), (''priority'', JInt (priority p)), (''tags'', j_strs (tags p)),
     (''metadata'', JObj (metadata p))]"

section \<open>Round trip\<close>

lemma those_map_Some: "(\<And>x. x \<in> set xs \<Longrightarrow> f (g x) = Some x) \<Longrightarrow> those (map f (map g xs)) = Some xs"
  by (induction xs) auto

lemma as_list_strs [simp]: "as_list as_str (j_strs xs) = Some xs"
  unfolding j_strs_def as_list.simps by (rule those_map_Some) simp

lemma as_list_strss [simp]: "as_list (as_list as_str) (JList (map j_strs xs)) = Some xs"
  unfolding as_list.simps by (rule those_map_Some) simp

lemma as_opt_int_opt [simp]: "as_opt_int (j_opt x) = Some x"
  by (cases x) (simp_all add: j_opt_def)

lemma lower_category: "list_all (\<lambda>c. str_lower (category_value c) = category_value c \<and> category_of (category_value c) = c) all_categories"
  by code_simp

lemma all_categories_complete: "c \<in> set all_categories"
  by (cases c) (simp_all add: all_categories_def)

lemma category_roundtrip [simp]: "category_of (str_lower (category_value c)) = c"
  using lower_category all_categories_complete [of c] by (simp add: list_all_iff)

lemma lower_risk: "list_all (\<lambda>r. str_lower (risk_value r) = risk_value r \<and> risk_of (risk_value r) = r) [MINIMAL, LOW, MEDIUM, HIGH, CRITICAL]"
  by code_simp

lemma risk_roundtrip [simp]: "risk_of (str_lower (risk_value r)) = r"
  using lower_risk by (cases r) simp_all

lemmas section_defs = j_trigger_def j_handling_def j_retention_def j_rights_def parse_trigger_def
  parse_handling_def parse_retention_def parse_rights_def get_as_def

lemma parse_sections:
  "j_trigger t = JObj d \<Longrightarrow> parse_trigger d = Inr t"
  "j_handling h = JObj d \<Longrightarrow> parse_handling d = Inr h"
  "j_retention r = JObj d \<Longrightarrow> parse_retention d = Inr r"
  "j_rights g = JObj d \<Longrightarrow> parse_rights d = Inr g"
  unfolding section_defs by (auto simp del: as_list.simps)

lemma sections_are_objects:
  "\<exists>d. j_trigger t = JObj d \<and> d \<noteq> []" "\<exists>d. j_handling h = JObj d" "\<exists>d. j_retention r = JObj d"
  "\<exists>d. j_rights g = JObj d"
  by (simp_all add: section_defs)

lemma load_serialized:
  "load_dict (serialize_pack p) = (if name p = [] then Inl MissingName else Inr p)"
proof -
  obtain dt ds dh dr dg where d: "j_trigger (triggers p) = JObj dt" "j_trigger (special_category_triggers p) = JObj ds"
    "ds \<noteq> []" "j_handling (handling p) = JObj dh" "j_retention (retention p) = JObj dr" "j_rights (rights p) = JObj dg"
    using sections_are_objects by metis
  show ?thesis
    by (simp add: load_dict_def serialize_pack_def get_name_def get_lower_def
        get_section_def get_special_def get_as_def d parse_sections(1) [OF d(1)] parse_sections(1) [OF d(2)]
        parse_sections(2) [OF d(4)] parse_sections(3) [OF d(5)] parse_sections(4) [OF d(6)] del: as_list.simps)
qed

text \<open>
  C27: A policy pack survives its storage: reading back the dictionary that serialization writes gives
  the same pack, with every trigger, requirement, retention period, right and tag, as long as the
  pack has a name; a pack without one is rejected on reading.
\<close>

theorem pack_roundtrip:
  "load_policy_pack file yaml (SourceDict (serialize_pack p)) = (if name p = [] then Inl MissingName else Inr p)"
  by (simp add: load_policy_pack_def load_serialized)

section \<open>What the built-in packs catch\<close>

definition builtin_engine :: policy_engine where
  "builtin_engine = add_policies load_builtin_policies empty_engine"

lemma builtin_facts:
  "list_all (\<lambda>p. enabled p \<and> encryption_required (handling p) \<and> audit_access (handling p) \<and>
     exclude_if_only (triggers p) = [] \<and> min_count (triggers p) = 1 \<and> min_confidence (triggers p) \<le> 4/5) BUILTIN_POLICIES"
  by (simp add: BUILTIN_POLICIES_def create_hipaa_phi_def create_pii_general_def create_pci_dss_def
      create_gdpr_personal_def create_ccpa_cpra_def create_glba_def create_ferpa_def create_credentials_def
      create_soc2_def policy_defaults_def no_trigger_def no_handling_def)

lemma builtin_names:
  "name create_hipaa_phi = ''HIPAA PHI''" "name create_pii_general = ''PII General''"
  "name create_pci_dss = ''PCI-DSS''" "name create_gdpr_personal = ''GDPR Personal Data''"
  "name create_ccpa_cpra = ''CCPA/CPRA''" "name create_glba = ''GLBA''" "name create_ferpa = ''FERPA''"
  "name create_credentials = ''Credentials & Secrets''" "name create_soc2 = ''SOC2 Trust Services''"
  by (simp_all add: create_hipaa_phi_def create_pii_general_def create_pci_dss_def
      create_gdpr_personal_def create_ccpa_cpra_def create_glba_def create_ferpa_def create_credentials_def
      create_soc2_def policy_defaults_def)

lemma builtin_policies_set: "set (policies builtin_engine) = set BUILTIN_POLICIES"
  using builtin_facts by (auto simp: builtin_engine_def load_builtin_policies_def builtin_order list_all_iff)

lemma confident_any_of_matches:
  assumes "m \<in> set es" and "str_lower (entity_type m) \<in> lowered (any_of (triggers p))"
    and "\<forall>m \<in> set es. str_lower (entity_type m) \<in> lowered (any_of (triggers p)) \<longrightarrow> min_confidence (triggers p) \<le> confidence m"
    and "mc \<le> confidence m" and "exclude_if_only (triggers p) = []" and "min_count (triggers p) = 1"
  shows "evaluate_policy p (build_context es mc) \<noteq> None"
proof -
  let ?ctx = "build_context es mc" and ?t = "triggers p"
  let ?matched = "entity_types ?ctx \<inter> lowered (any_of ?t)"
  have "str_lower (entity_type m) \<in> ?matched" using assms(1,2,4) by (auto simp: context_types)
  moreover from this have "any_of ?t \<noteq> []" by (auto simp: lowered_def)
  moreover have "confident ?t ?ctx ?matched" using context_confident [of _ es mc "min_confidence ?t"] assms(3) by (auto simp: confident_def)
  moreover have "\<forall>x \<in> ?matched. int (type_counts ?ctx x) \<ge> min_count ?t"
    using context_counts assms(6) by force
  ultimately show ?thesis
    using assms(5) by (auto simp: evaluate_policy_def Let_def is_empty_def)
qed

text \<open>
  C28: The built-in packs protect what they name: when a file has a detection of a type that some
  built-in pack lists as sensitive on its own, and all its detections of the types this pack lists
  have a confidence of at least 0.8, then the evaluation reports that pack and requires encryption and
  audited access, whatever else was detected. (One doubtful detection of a listed type suffices to
  switch a pack off, see \<open>any_of_not_monotone\<close>.)
\<close>

theorem builtin_packs_protect:
  assumes "m \<in> set es" and "p \<in> set BUILTIN_POLICIES" and "str_lower (entity_type m) \<in> lowered (any_of (triggers p))"
    and "\<And>m'. m' \<in> set es \<Longrightarrow> str_lower (entity_type m') \<in> lowered (any_of (triggers p)) \<Longrightarrow> 4/5 \<le> confidence m'"
  shows "name p \<in> policy_name ` set (matches (evaluate_policies builtin_engine es 0)) \<and>
    requires_encryption (evaluate_policies builtin_engine es 0) \<and>
    audit_access (res_handling (evaluate_policies builtin_engine es 0))"
proof -
  let ?ctx = "build_context es 0" and ?r = "evaluate_policies builtin_engine es 0"
  have f: "enabled p" "encryption_required (handling p)" "audit_access (handling p)" "exclude_if_only (triggers p) = []"
    "min_count (triggers p) = 1" "min_confidence (triggers p) \<le> 4/5"
    using builtin_facts assms(2) by (auto simp: list_all_iff)
  have c: "\<forall>m \<in> set es. str_lower (entity_type m) \<in> lowered (any_of (triggers p)) \<longrightarrow> min_confidence (triggers p) \<le> confidence m"
  proof (intro ballI impI)
    fix m' assume "m' \<in> set es" "str_lower (entity_type m') \<in> lowered (any_of (triggers p))"
    from assms(4) [OF this] f(6) show "min_confidence (triggers p) \<le> confidence m'" by linarith
  qed
  have pos: "0 \<le> confidence m" using assms(4) [OF assms(1,3)] by linarith
  have "evaluate_policy p ?ctx \<noteq> None"
    using confident_any_of_matches [OF assms(1,3) c pos f(4,5)] .
  moreover have "entity_types ?ctx \<noteq> {}" using assms(1) pos by (auto simp: context_types)
  ultimately have ap: "p \<in> set (applicable builtin_engine ?ctx)"
    using assms(2) by (simp add: applicable_def matching_def builtin_policies_set)
  have cm: "combines_flags (applicable builtin_engine ?ctx) ?r" "map policy_name (matches ?r) = map name (applicable builtin_engine ?ctx)"
    using evaluate_combines [of builtin_engine es 0] by (simp_all add: Let_def)
  have "encryption_required (res_handling ?r) \<longleftrightarrow> (\<exists>p \<in> set (applicable builtin_engine ?ctx). encryption_required (handling p))"
    "audit_access (res_handling ?r) \<longleftrightarrow> (\<exists>p \<in> set (applicable builtin_engine ?ctx). audit_access (handling p))"
    using cm(1) unfolding combines_flags_def by simp_all
  with ap f(2,3) have "requires_encryption ?r \<and> audit_access (res_handling ?r)"
    unfolding requires_encryption_def by blast
  moreover have "name p \<in> set (map policy_name (matches ?r))" using ap by (simp add: cm(2))
  ultimately show ?thesis by simp
qed

definition ssn_found :: entity_match where
  "ssn_found = \<lparr>entity_type = ''SSN'', entity_value = ''078-05-1120'', confidence = 9/10\<rparr>"

theorem builtin_packs_protect_witness:
  "''GLBA'' \<in> policy_name ` set (matches (evaluate_policies builtin_engine [ssn_found] 0)) \<and>
    requires_encryption (evaluate_policies builtin_engine [ssn_found] 0)"
proof -
  have "str_lower ''SSN'' \<in> lowered (any_of (triggers create_glba))" by code_simp
  then show ?thesis
    using builtin_packs_protect [of ssn_found "[ssn_found]" create_glba]
    by (simp add: ssn_found_def BUILTIN_POLICIES_def builtin_names)
qed

lemma char_of_chr_code: "char_of (chr_code c) = c"
  by (simp add: chr_code_def)

lemma upper_lower_char: "upper_char (lower_char c) = upper_char c"
  using chr_code_less [of c]
  by (auto simp: upper_char_def lower_char_def is_upper_def is_lower_def chr_code_char_of char_of_chr_code)

lemma upper_lower: "str_upper (str_lower s) = str_upper s"
  by (simp add: str_upper_def str_lower_def upper_lower_char)

text \<open>A trigger that needs entity types the registry of entity types does not know.\<close>

definition unreachable :: "policy_trigger \<Rightarrow> bool" where
  "unreachable t \<longleftrightarrow> \<not> list_ex validate_entity_type (any_of t) \<and> (all_of t \<noteq> [] \<longrightarrow> \<not> list_all validate_entity_type (all_of t)) \<and>
     \<not> list_ex (list_all validate_entity_type) (combinations t)"

lemma known_lowered:
  assumes "entity_types ctx \<subseteq> {x. validate_entity_type x}" and "lowered xs \<subseteq> entity_types ctx"
  shows "list_all validate_entity_type xs"
  using assms by (force simp: lowered_def list_all_iff validate_entity_type_def upper_lower)

lemma unreachable_never_matches:
  assumes "unreachable (triggers p)" and "is_empty (special_category_triggers p)"
    and "entity_types ctx \<subseteq> {x. validate_entity_type x}"
  shows "evaluate_policy p ctx = None"
proof -
  have "entity_types ctx \<inter> lowered (any_of (triggers p)) = {}"
    using assms(1,3) by (auto simp: unreachable_def lowered_def list_ex_iff validate_entity_type_def upper_lower)
  moreover have "find (\<lambda>c. lowered c \<subseteq> entity_types ctx \<and> confident (triggers p) ctx (lowered c)) (combinations (triggers p)) = None"
    using assms(1) known_lowered [OF assms(3)] by (auto simp: find_None_iff unreachable_def list_ex_iff)
  ultimately show ?thesis
    using assms(1,2) known_lowered [OF assms(3), of "all_of (triggers p)"]
    by (auto simp: evaluate_policy_def Let_def unreachable_def)
qed

lemma unregistered_upper:
  "map str_upper [''student_id'', ''education_record'', ''transcript'', ''grade'', ''gpa'', ''person_name'', ''SSN''] =
    [''STUDENT_ID'', ''EDUCATION_RECORD'', ''TRANSCRIPT'', ''GRADE'', ''GPA'', ''PERSON_NAME'', ''SSN'']"
  by code_simp

lemma unregistered:
  "\<not> validate_entity_type ''student_id''" "\<not> validate_entity_type ''education_record''"
  "\<not> validate_entity_type ''transcript''" "\<not> validate_entity_type ''grade''"
  "\<not> validate_entity_type ''gpa''" "\<not> validate_entity_type ''person_name''" "validate_entity_type ''SSN''"
  using unregistered_upper by (simp_all add: validate_entity_type_def KNOWN_ENTITY_TYPES_def)

text \<open>
  The FERPA pack is dead: however many student records a file holds, an evaluation of detections of
  registered entity types never reports FERPA, because none of the types it lists is registered and
  every combination it lists needs one that is not.
\<close>

theorem ferpa_never_applies:
  assumes "list_all (\<lambda>m. validate_entity_type (entity_type m)) es"
  shows "''FERPA'' \<notin> policy_name ` set (matches (evaluate_policies builtin_engine es mc))"
proof -
  have dead: "unreachable (triggers create_ferpa)"
    by (simp add: unreachable_def create_ferpa_def policy_defaults_def no_trigger_def unregistered)
  have sp: "is_empty (special_category_triggers create_ferpa)"
    by (simp add: create_ferpa_def policy_defaults_def no_trigger_def is_empty_def)
  have only: "p = create_ferpa" if "p \<in> set BUILTIN_POLICIES" "name p = ''FERPA''" for p
    using that by (auto simp: BUILTIN_POLICIES_def builtin_names)
  have "entity_types (build_context es mc) \<subseteq> {x. validate_entity_type x}"
    using assms by (auto simp: context_types list_all_iff validate_entity_type_def upper_lower)
  then have "evaluate_policy create_ferpa (build_context es mc) = None"
    by (rule unreachable_never_matches [OF dead sp])
  moreover have "\<exists>p \<in> set BUILTIN_POLICIES. evaluate_policy p (build_context es mc) \<noteq> None \<and> name p = ''FERPA''"
    if "''FERPA'' \<in> set (map name (applicable builtin_engine (build_context es mc)))"
    using that by (auto simp: applicable_def matching_def builtin_policies_set split: if_splits)
  ultimately have "''FERPA'' \<notin> set (map name (applicable builtin_engine (build_context es mc)))"
    using only by metis
  moreover have "map policy_name (matches (evaluate_policies builtin_engine es mc)) = map name (applicable builtin_engine (build_context es mc))"
    using evaluate_combines [of builtin_engine es mc] by (simp add: Let_def)
  ultimately show ?thesis by (metis list.set_map)
qed

theorem ferpa_never_applies_witness:
  "''FERPA'' \<notin> policy_name ` set (matches (evaluate_policies builtin_engine [ssn_found] 0))"
  by (rule ferpa_never_applies) (simp add: ssn_found_def unregistered)

text \<open>\<open>person_name\<close> is no registered type either (names are registered as \<open>NAME\<close>), so that of
  the combinations of a pack, here counted, those that contain it are dead.\<close>

lemma person_name_combinations:
  "map (\<lambda>p. (length (combinations (triggers p)),
      length (filter (\<lambda>c. ''person_name'' \<in> set c) (combinations (triggers p))))) BUILTIN_POLICIES =
    [(9, 4), (4, 4), (4, 0), (0, 0), (6, 4), (5, 4), (4, 4), (0, 0), (3, 2)]"
  by (simp add: BUILTIN_POLICIES_def create_hipaa_phi_def create_pii_general_def create_pci_dss_def
    create_gdpr_personal_def create_ccpa_cpra_def create_glba_def create_ferpa_def create_credentials_def
    create_soc2_def policy_defaults_def no_trigger_def)

end
