(* ===== verification/Policy_Service.thy ===== *)
theory Policy_Service
  imports Policy_Packs
begin

text \<open>
  The policy service of the server, \<^verbatim>\<open>src/openlabels/server/services/policy_service.py\<close>: policies
  as rows of a table that all tenants share, the operations of one tenant on them, the engine built
  from a tenant's rows, and the evaluation of stored scan results. A table is the list of its rows in
  the order of insertion. A query with \<open>ORDER BY\<close> leaves open how rows that compare equal come: \<open>db\<close>
  is the order in which the database visits the rows before it sorts them, any rearrangement.
  New identifiers and the current time are arguments; inserting a row whose identifier exists
  violates the primary key.
\<close>

section \<open>Tables\<close>

record policy_row =
  row_id :: nat
  row_tenant :: nat
  row_name :: string
  row_description :: "string option"
  row_framework :: string
  row_risk_level :: string
  row_enabled :: bool
  row_config :: json_dict
  row_priority :: int
  row_created_at :: nat
  row_created_by :: "nat option"

text \<open>The dictionary of a request: the keys it has.\<close>

record policy_data =
  d_name :: "string option"
  d_description :: "string option option"
  d_framework :: "string option"
  d_risk_level :: "string option"
  d_enabled :: "bool option"
  d_config :: "json_dict option"
  d_priority :: "int option"

datatype service_error = NotFound | KeyError string | IntegrityError

definition no_data :: policy_data where
  "no_data = \<lparr>d_name = None, d_description = None, d_framework = None, d_risk_level = None,
     d_enabled = None, d_config = None, d_priority = None\<rparr>"

definition get_or :: "'a option \<Rightarrow> 'a \<Rightarrow> 'a" where
  "get_or x d = (case x of Some y \<Rightarrow> y | None \<Rightarrow> d)"

definition required :: "string \<Rightarrow> 'a option \<Rightarrow> service_error + 'a" where
  "required k x = (case x of Some y \<Rightarrow> Inr y | None \<Rightarrow> Inl (KeyError k))"

definition ordered_by :: "('a list \<Rightarrow> 'a list) \<Rightarrow> ('a \<Rightarrow> 'k::linorder) \<Rightarrow> 'a list \<Rightarrow> 'a list" where
  "ordered_by db key rows = sort_key key (db rows)"

definition rearranges :: "('a list \<Rightarrow> 'a list) \<Rightarrow> bool" where
  "rearranges db \<longleftrightarrow> (\<forall>rows. mset (db rows) = mset rows)"

section \<open>Operations of a tenant\<close>

definition get_policy :: "nat \<Rightarrow> nat \<Rightarrow> policy_row list \<Rightarrow> service_error + policy_row" where
  "get_policy tenant i rows = (case find (\<lambda>r. row_id r = i) rows of
     None \<Rightarrow> Inl NotFound | Some r \<Rightarrow> if row_tenant r \<noteq> tenant then Inl NotFound else Inr r)"

definition list_policies ::
  "(policy_row list \<Rightarrow> policy_row list) \<Rightarrow> nat \<Rightarrow> string option \<Rightarrow> bool \<Rightarrow> nat \<Rightarrow> nat \<Rightarrow> policy_row list \<Rightarrow> policy_row list \<times> nat" where
  "list_policies db tenant framework enabled_only limit offset rows =
     (let base = filter (\<lambda>r. row_tenant r = tenant \<and>
            (case framework of Some f \<Rightarrow> f \<noteq> [] \<longrightarrow> row_framework r = f | None \<Rightarrow> True) \<and>
            (enabled_only \<longrightarrow> row_enabled r)) rows;
          ordered = ordered_by db (\<lambda>r. (- row_priority r, row_created_at r)) base
      in (take limit (drop offset ordered), length base))"

definition create_policy ::
  "nat \<Rightarrow> nat option \<Rightarrow> nat \<Rightarrow> nat \<Rightarrow> policy_data \<Rightarrow> policy_row list \<Rightarrow> service_error + policy_row \<times> policy_row list" where
  "create_policy tenant user new_id now d rows =
     res_bind (required ''name'' (d_name d)) (\<lambda>nm.
     res_bind (required ''framework'' (d_framework d)) (\<lambda>fw.
     res_bind (required ''config'' (d_config d)) (\<lambda>cf.
       let r = \<lparr>row_id = new_id, row_tenant = tenant, row_name = nm,
             row_description = get_or (d_description d) None, row_framework = fw,
             row_risk_level = get_or (d_risk_level d) ''high'', row_enabled = get_or (d_enabled d) True,
             row_config = cf, row_priority = get_or (d_priority d) 0, row_created_at = now,
             row_created_by = user\<rparr>
       in if new_id \<in> row_id ` set rows then Inl IntegrityError else Inr (r, rows @ [r]))))"

definition set_fields :: "policy_data \<Rightarrow> policy_row \<Rightarrow> policy_row" where
  "set_fields d r = r\<lparr>row_name := get_or (d_name d) (row_name r),
     row_description := get_or (d_description d) (row_description r),
     row_framework := get_or (d_framework d) (row_framework r),
     row_risk_level := get_or (d_risk_level d) (row_risk_level r),
     row_enabled := get_or (d_enabled d) (row_enabled r),
     row_config := get_or (d_config d) (row_config r),
     row_priority := get_or (d_priority d) (row_priority r)\<rparr>"

definition replace_row :: "policy_row \<Rightarrow> policy_row list \<Rightarrow> policy_row list" where
  "replace_row r' rows = map (\<lambda>r. if row_id r = row_id r' then r' else r) rows"

definition update_policy ::
  "nat \<Rightarrow> nat \<Rightarrow> policy_data \<Rightarrow> policy_row list \<Rightarrow> service_error + policy_row \<times> policy_row list" where
  "update_policy tenant i d rows =
     res_bind (get_policy tenant i rows) (\<lambda>r. let r' = set_fields d r in Inr (r', replace_row r' rows))"

definition delete_policy :: "nat \<Rightarrow> nat \<Rightarrow> policy_row list \<Rightarrow> service_error + policy_row list" where
  "delete_policy tenant i rows =
     res_bind (get_policy tenant i rows) (\<lambda>r. Inr (filter (\<lambda>r'. row_id r' \<noteq> row_id r) rows))"

definition toggle_policy ::
  "nat \<Rightarrow> nat \<Rightarrow> bool \<Rightarrow> policy_row list \<Rightarrow> service_error + policy_row \<times> policy_row list" where
  "toggle_policy tenant i b rows =
     res_bind (get_policy tenant i rows) (\<lambda>r. let r' = r\<lparr>row_enabled := b\<rparr> in Inr (r', replace_row r' rows))"

definition pack_data :: "policy_pack \<Rightarrow> policy_data" where
  "pack_data p = no_data\<lparr>d_name := Some (name p), d_description := Some (Some (description p)),
     d_framework := Some (category_value (category p)), d_risk_level := Some (risk_value (pack_risk_level p)),
     d_config := Some (serialize_pack p), d_priority := Some (priority p)\<rparr>"

definition load_builtin_pack ::
  "nat \<Rightarrow> nat option \<Rightarrow> nat \<Rightarrow> nat \<Rightarrow> string \<Rightarrow> policy_row list \<Rightarrow> service_error + policy_row \<times> policy_row list" where
  "load_builtin_pack tenant user new_id now pack_name rows =
     (case find (\<lambda>p. str_lower (name p) = str_lower pack_name) load_builtin_policies of
        None \<Rightarrow> Inl NotFound
      | Some p \<Rightarrow> create_policy tenant user new_id now (pack_data p) rows)"

definition list_builtin_packs :: "(string \<times> string \<times> string \<times> string) list" where
  "list_builtin_packs = map (\<lambda>p. (name p, description p, category_value (category p), risk_value (pack_risk_level p)))
     load_builtin_policies"

section \<open>Evaluation\<close>

text \<open>A row whose configuration cannot be read is skipped with a warning.\<close>

definition add_row :: "policy_row \<Rightarrow> policy_engine \<Rightarrow> policy_engine" where
  "add_row r e = (case load_dict (row_config r) of Inr p \<Rightarrow> add_policy p e | Inl _ \<Rightarrow> e)"

definition build_tenant_engine :: "(policy_row list \<Rightarrow> policy_row list) \<Rightarrow> nat \<Rightarrow> policy_row list \<Rightarrow> policy_engine" where
  "build_tenant_engine db tenant rows =
     fold add_row (ordered_by db (\<lambda>r. - row_priority r) (filter (\<lambda>r. row_tenant r = tenant \<and> row_enabled r) rows))
       empty_engine"

record scan_row =
  sc_id :: nat
  sc_tenant :: nat
  sc_job :: nat
  sc_path :: string
  sc_tier :: string
  sc_entities :: "(string \<times> real option) list"
  sc_scanned_at :: nat
  sc_violations :: "(string option \<times> string option) list option"

record row_violations =
  rv_result :: nat
  rv_path :: string
  rv_tier :: string
  rv_violations :: "(string \<times> trigger_type \<times> string set \<times> risk_level) list"

definition stored_matches :: "scan_row \<Rightarrow> entity_match list" where
  "stored_matches r = map (\<lambda>(t, c). \<lparr>entity_type = t, entity_value = ''[redacted]'', confidence = get_or c 1\<rparr>)
     (sc_entities r)"

definition select_rows :: "(scan_row list \<Rightarrow> scan_row list) \<Rightarrow> nat \<Rightarrow> nat option \<Rightarrow> nat list option \<Rightarrow> nat \<Rightarrow> scan_row list \<Rightarrow> scan_row list" where
  "select_rows db tenant job_id result_ids limit scans =
     take limit (ordered_by db (\<lambda>r. - int (sc_scanned_at r))
       (filter (\<lambda>r. sc_tenant r = tenant \<and>
          (case result_ids of Some is \<Rightarrow> is \<noteq> [] \<longrightarrow> sc_id r \<in> set is | None \<Rightarrow> True) \<and>
          (case job_id of Some j \<Rightarrow> sc_job r = j | None \<Rightarrow> True)) scans))"

definition violations_of :: "policy_engine \<Rightarrow> scan_row \<Rightarrow> row_violations option" where
  "violations_of e r =
     (if sc_entities r = [] then None
      else (let res = evaluate_policies e (stored_matches r) 0 in
        if is_sensitive res then Some \<lparr>rv_result = sc_id r, rv_path = sc_path r, rv_tier = sc_tier r,
          rv_violations = map (\<lambda>m. (policy_name m, trigger_type m, matched_entities m, risk_level res)) (matches res)\<rparr>
        else None))"

definition evaluate_results ::
  "(policy_row list \<Rightarrow> policy_row list) \<Rightarrow> (scan_row list \<Rightarrow> scan_row list) \<Rightarrow> nat \<Rightarrow> nat option \<Rightarrow> nat list option \<Rightarrow> nat \<Rightarrow> policy_row list \<Rightarrow> scan_row list \<Rightarrow> row_violations list" where
  "evaluate_results db scan_db tenant job_id result_ids limit rows scans =
     (let e = build_tenant_engine db tenant rows in
      if policy_count e = 0 then []
      else List.map_filter (violations_of e) (select_rows scan_db tenant job_id result_ids limit scans))"

section \<open>Compliance figures\<close>

definition DEFAULT_QUERY_LIMIT :: nat where
  "DEFAULT_QUERY_LIMIT = 500"

record compliance =
  c_total :: nat
  c_violated :: nat
  c_pct :: real
  c_framework :: "(string \<times> nat) list"
  c_severity :: "(string \<times> nat) list"

definition count_into :: "string option \<Rightarrow> (string \<times> nat) list \<Rightarrow> (string \<times> nat) list" where
  "count_into k d = (let k' = get_or k ''unknown'' in dict_set k' (dict_get d k' 0 + 1) d)"

definition compliance_stats :: "nat \<Rightarrow> scan_row list \<Rightarrow> compliance" where
  "compliance_stats tenant scans =
     (let base = filter (\<lambda>r. sc_tenant r = tenant) scans; total = length base in
      if total = 0 then \<lparr>c_total = 0, c_violated = 0, c_pct = 100, c_framework = [], c_severity = []\<rparr>
      else (let violated = filter (\<lambda>r. sc_violations r \<noteq> None) base;
              pct = of_int (py_round (real (total - length violated) / real total * 100 * 100)) / 100;
              vs = concat (map (\<lambda>r. get_or (sc_violations r) []) (take DEFAULT_QUERY_LIMIT violated))
            in \<lparr>c_total = total, c_violated = length violated, c_pct = pct,
                c_framework = fold (\<lambda>v. count_into (fst v)) vs [], c_severity = fold (\<lambda>v. count_into (snd v)) vs []\<rparr>))"

section \<open>Tenants do not meet\<close>

datatype policy_op =
    Create nat "nat option" nat nat policy_data
  | Update nat nat policy_data
  | Delete nat nat
  | Toggle nat nat bool
  | LoadBuiltin nat "nat option" nat nat string

fun op_tenant :: "policy_op \<Rightarrow> nat" where
  "op_tenant (Create t _ _ _ _) = t"
| "op_tenant (Update t _ _) = t"
| "op_tenant (Delete t _) = t"
| "op_tenant (Toggle t _ _) = t"
| "op_tenant (LoadBuiltin t _ _ _ _) = t"

text \<open>The table after a request; a request that raises leaves it as it is.\<close>

definition after :: "service_error + 'a \<times> policy_row list \<Rightarrow> policy_row list \<Rightarrow> policy_row list" where
  "after r rows = (case r of Inl _ \<Rightarrow> rows | Inr (_, rows') \<Rightarrow> rows')"

fun policy_step :: "policy_op \<Rightarrow> policy_row list \<Rightarrow> policy_row list" where
  "policy_step (Create t u i now d) rows = after (create_policy t u i now d rows) rows"
| "policy_step (Update t i d) rows = after (update_policy t i d rows) rows"
| "policy_step (Delete t i) rows = (case delete_policy t i rows of Inl _ \<Rightarrow> rows | Inr rows' \<Rightarrow> rows')"
| "policy_step (Toggle t i b) rows = after (toggle_policy t i b rows) rows"
| "policy_step (LoadBuiltin t u i now n) rows = after (load_builtin_pack t u i now n rows) rows"

definition rows_of :: "nat \<Rightarrow> policy_row list \<Rightarrow> policy_row list" where
  "rows_of t rows = filter (\<lambda>r. row_tenant r = t) rows"

definition ids_distinct :: "policy_row list \<Rightarrow> bool" where
  "ids_distinct rows \<longleftrightarrow> distinct (map row_id rows)"

lemma get_policy_Inr: "get_policy t i rows = Inr r \<Longrightarrow> r \<in> set rows \<and> row_id r = i \<and> row_tenant r = t"
  by (auto simp: get_policy_def find_Some_iff split: option.splits if_splits)

lemma rows_of_replace:
  assumes "ids_distinct rows" and "r \<in> set rows" and "row_id r' = row_id r" and "row_tenant r \<noteq> t" and "row_tenant r' \<noteq> t"
  shows "rows_of t (replace_row r' rows) = rows_of t rows"
  using assms
proof (induction rows)
  case (Cons x rows)
  have "replace_row r' rows = rows" if "row_id r' \<notin> row_id ` set rows"
    using that unfolding replace_row_def by (intro map_idI) (metis image_eqI)
  with Cons show ?case by (auto simp: replace_row_def rows_of_def ids_distinct_def split: if_splits)
qed simp

lemma rows_of_delete:
  assumes "ids_distinct rows" and "r \<in> set rows" and "row_tenant r \<noteq> t"
  shows "rows_of t (filter (\<lambda>r'. row_id r' \<noteq> row_id r) rows) = rows_of t rows"
proof -
  have "row_id x \<noteq> row_id r" if "x \<in> set rows" "row_tenant x = t" for x
    using that assms by (auto simp: ids_distinct_def distinct_map inj_on_def)
  then show ?thesis unfolding rows_of_def by (auto simp: filter_filter intro: filter_cong)
qed

lemma ids_replace: "map row_id (replace_row r' rows) = map row_id rows"
  by (simp add: replace_row_def)

lemma create_isolated:
  "t' \<noteq> t \<Longrightarrow> rows_of t (after (create_policy t' u i now d rows) rows) = rows_of t rows"
  by (auto simp: after_def create_policy_def required_def rows_of_def Let_def split: option.splits)

lemma step_isolated:
  assumes "ids_distinct rows" and "op_tenant oper \<noteq> t"
  shows "rows_of t (policy_step oper rows) = rows_of t rows"
proof (cases oper)
  case (Create t' u i now d)
  with assms show ?thesis by (simp add: create_isolated)
next
  case (LoadBuiltin t' u i now n)
  with assms show ?thesis
    by (auto simp: load_builtin_pack_def create_isolated split: option.splits) (simp add: after_def)
next
  case (Update t' i d)
  with assms show ?thesis
    by (auto simp: update_policy_def after_def set_fields_def Let_def res_simps split: sum.splits
        dest!: get_policy_Inr intro!: rows_of_replace)
next
  case (Toggle t' i b)
  with assms show ?thesis
    by (auto simp: toggle_policy_def after_def Let_def res_simps split: sum.splits
        dest!: get_policy_Inr intro!: rows_of_replace)
next
  case (Delete t' i)
  with assms show ?thesis
    by (auto simp: delete_policy_def res_simps split: sum.splits dest!: get_policy_Inr intro!: rows_of_delete)
qed

lemma step_ids: "ids_distinct rows \<Longrightarrow> ids_distinct (policy_step oper rows)"
proof (cases oper)
  case (Delete t i)
  then show "ids_distinct rows \<Longrightarrow> ids_distinct (policy_step oper rows)"
    by (auto simp: delete_policy_def ids_distinct_def res_simps distinct_map_filter split: sum.splits)
qed (auto simp: after_def create_policy_def update_policy_def toggle_policy_def load_builtin_pack_def required_def
    Let_def res_simps ids_distinct_def ids_replace split: sum.splits option.splits if_splits)

text \<open>Identifiers stay distinct over any sequence of requests.\<close>

interpretation policies: event_machine policy_step ids_distinct
  by unfold_locales (rule step_ids)

lemma run_isolated:
  assumes "ids_distinct rows" and "list_all (\<lambda>oper. op_tenant oper \<noteq> t) ops"
  shows "rows_of t (fold policy_step ops rows) = rows_of t rows"
  using assms
proof (induction ops rule: rev_induct)
  case (snoc oper ops)
  then show ?case using step_isolated [OF policies.fold_inv [OF snoc.prems(1)], of oper t ops] by simp
qed simp

lemma engine_rows_of: "build_tenant_engine db t rows = build_tenant_engine db t (rows_of t rows)"
  by (simp add: build_tenant_engine_def rows_of_def filter_filter conj_ac)

lemma list_rows_of: "list_policies db t f e limit offset rows = list_policies db t f e limit offset (rows_of t rows)"
  by (simp add: list_policies_def rows_of_def filter_filter conj_ac)

text \<open>
  C29: What other tenants do with their policies, built-in packs they load included, changes nothing a
  tenant sees: neither the list of its policies nor the violations its scan results are given.
\<close>

theorem tenants_isolated:
  assumes "ids_distinct rows" and "list_all (\<lambda>oper. op_tenant oper \<noteq> t) ops"
  shows "list_policies db t f e limit offset (fold policy_step ops rows) = list_policies db t f e limit offset rows \<and>
    evaluate_results db scan_db t job ids n (fold policy_step ops rows) scans = evaluate_results db scan_db t job ids n rows scans"
  using run_isolated [OF assms] engine_rows_of [of db t rows] engine_rows_of [of db t "fold policy_step ops rows"]
    list_rows_of [of db t f e limit offset rows] list_rows_of [of db t f e limit offset "fold policy_step ops rows"]
  by (simp add: evaluate_results_def)

section \<open>Stored packs\<close>

definition pack_row :: "nat \<Rightarrow> nat option \<Rightarrow> nat \<times> nat \<times> policy_pack \<Rightarrow> policy_row" where
  "pack_row t u x = (case x of (i, now, p) \<Rightarrow>
     \<lparr>row_id = i, row_tenant = t, row_name = name p, row_description = Some (description p),
      row_framework = category_value (category p), row_risk_level = risk_value (pack_risk_level p),
      row_enabled = True, row_config = serialize_pack p, row_priority = priority p, row_created_at = now,
      row_created_by = u\<rparr>)"

lemma create_pack_row:
  "i \<notin> row_id ` set rows \<Longrightarrow>
    create_policy t u i now (pack_data p) rows = Inr (pack_row t u (i, now, p), rows @ [pack_row t u (i, now, p)])"
  by (simp add: create_policy_def pack_data_def no_data_def required_def get_or_def Let_def pack_row_def)

text \<open>The order the database gives the rows is the order of the priorities of some sequence of the packs.\<close>

lemma map_rearranged: "mset rows = mset (map g xs) \<Longrightarrow> \<exists>ys. mset ys = mset xs \<and> rows = map g ys"
proof (induction rows arbitrary: xs)
  case (Cons r rows)
  have "r \<in> set (map g xs)" using mset_eq_setD [OF Cons.prems] by auto
  then obtain x where "x \<in> set xs" and x: "g x = r" by auto
  then obtain as bs where xs: "xs = as @ x # bs" by (auto simp: in_set_conv_decomp)
  then have "mset rows = mset (map g (as @ bs))" using Cons.prems x by simp
  from Cons.IH [OF this] obtain ys where "mset ys = mset (as @ bs)" "rows = map g ys" by blast
  then show ?case using x xs by (intro exI [of _ "x # ys"]) simp
qed simp

lemma sort_key_map_rows:
  assumes "mset rows = mset (map g xs)" and "\<And>x. x \<in> set xs \<Longrightarrow> key (g x) = key' x"
  shows "\<exists>ys. mset ys = mset xs \<and> sort_key key rows = map g (sort_key key' ys)"
proof -
  obtain ys where ys: "mset ys = mset xs" "rows = map g ys"
    using map_rearranged [OF assms(1)] by blast
  have "sort_key key (map g ys) = map g (sort_key (\<lambda>x. key (g x)) ys)" by (simp add: sort_key_map)
  also have "sort_key (\<lambda>x. key (g x)) ys = sort_key key' ys"
    using assms(2) mset_eq_setD [OF ys(1)] by (intro sort_key_agree) auto
  finally show ?thesis using ys by auto
qed

text \<open>
  C30: A tenant that has stored packs is evaluated as an engine in memory to which these packs were
  added: reading the rows back gives the same policies in an order of falling priority. Which of
  several packs of one priority comes first is the order in which the database gives their rows; with
  each such order goes an order of adding the packs in memory.
\<close>

theorem stored_packs_evaluate_alike:
  assumes "rearranges db" and "list_all (\<lambda>(i, now, p). name p \<noteq> []) xs"
  shows "\<exists>ps. mset ps = mset (map (\<lambda>(i, now, p). p) xs) \<and>
    (\<forall>es mc. evaluate_policies (build_tenant_engine db t (map (pack_row t u) xs)) es mc =
      evaluate_policies (add_policies ps empty_engine) es mc)"
proof -
  let ?rows = "map (pack_row t u) xs" and ?prio = "\<lambda>x. - priority (snd (snd x))"
  have load: "load_dict (row_config (pack_row t u x)) = Inr (snd (snd x))" if "x \<in> set xs" for x
    using that assms(2) load_serialized by (cases x) (auto simp: list_all_iff pack_row_def)
  have "filter (\<lambda>r. row_tenant r = t \<and> row_enabled r) ?rows = ?rows"
    by (intro filter_True) (auto simp: pack_row_def)
  moreover have "mset (db ?rows) = mset ?rows" using assms(1) by (simp add: rearranges_def)
  then obtain ys where ys: "mset ys = mset xs" "sort_key (\<lambda>r. - row_priority r) (db ?rows) = map (pack_row t u) (sort_key ?prio ys)"
    using sort_key_map_rows [of "db ?rows" "pack_row t u" xs "\<lambda>r. - row_priority r" ?prio] by (auto simp: pack_row_def case_prod_unfold)
  ultimately have "build_tenant_engine db t ?rows = fold add_row (map (pack_row t u) (sort_key ?prio ys)) empty_engine"
    by (simp add: build_tenant_engine_def ordered_by_def)
  also have "\<dots> = add_policies (map (\<lambda>x. snd (snd x)) (sort_key ?prio ys)) empty_engine"
    unfolding add_policies_def fold_map comp_def
    using load mset_eq_setD [OF ys(1)] by (intro fold_cong) (auto simp: add_row_def)
  also have "map (\<lambda>x. snd (snd x)) (sort_key ?prio ys) = sort_key (\<lambda>p. - priority p) (map (\<lambda>x. snd (snd x)) ys)"
    by (simp add: sort_key_map)
  finally have "policies (build_tenant_engine db t ?rows) = policies (add_policies (map (\<lambda>x. snd (snd x)) ys) empty_engine)"
    by (simp add: builtin_order filter_sort sort_key_idem)
  then have "evaluate_policies (build_tenant_engine db t ?rows) es mc =
      evaluate_policies (add_policies (map (\<lambda>x. snd (snd x)) ys) empty_engine) es mc" for es mc
    by (simp only: evaluate_policies_def)
  moreover have "mset (map (\<lambda>x. snd (snd x)) ys) = mset (map (\<lambda>(i, now, p). p) xs)"
    using ys(1) by (simp add: case_prod_unfold)
  ultimately show ?thesis by blast
qed

theorem stored_packs_evaluate_alike_witness:
  "\<exists>ps. mset ps = mset (map (\<lambda>(i, now, p). p) [(7::nat, 0::nat, create_glba), (8, 0, create_soc2)]) \<and>
    (\<forall>es mc. evaluate_policies (build_tenant_engine rev 1 (map (pack_row 1 None) [(7, 0, create_glba), (8, 0, create_soc2)])) es mc =
      evaluate_policies (add_policies ps empty_engine) es mc)"
  by (rule stored_packs_evaluate_alike) (simp_all add: builtin_names rearranges_def)

theorem tenants_isolated_witness:
  "evaluate_results id id 1 None None 9 (fold policy_step [LoadBuiltin 2 None 8 0 ''glba'', Delete 2 7] [pack_row 1 None (7, 0, create_soc2)]) [] =
    evaluate_results id id 1 None None 9 [pack_row 1 None (7, 0, create_soc2)] []"
  by (rule conjunct2 [OF tenants_isolated [where db = id and f = None and e = False and limit = 9 and offset = 0]])
    (simp_all add: ids_distinct_def)

text \<open>The columns of a row are not what is evaluated: raising or lowering the risk level, renaming the
  policy or moving it to another framework changes no evaluation, only a new \<open>config\<close> does (as long as
  the database gives the rows in the same order).\<close>

lemma columns_not_evaluated:
  assumes "d_config d = None" and "d_enabled d = None" and "d_priority d = None"
    and "update_policy t i d rows = Inr (r', rows')" and "ids_distinct rows"
    and "rearranges db" and "\<And>g xs. (\<And>x. row_id (g x) = row_id x) \<Longrightarrow> db (map g xs) = map g (db xs)"
  shows "build_tenant_engine db t rows' = build_tenant_engine db t rows"
proof -
  obtain r where r: "r \<in> set rows" "row_id r = i" "row_tenant r = t" "r' = set_fields d r" "rows' = replace_row r' rows"
    using assms(4) by (auto simp: update_policy_def Let_def res_simps dest!: get_policy_Inr)
  let ?g = "\<lambda>x. if row_id x = row_id r' then r' else x"
  have g: "row_tenant (?g x) = row_tenant x \<and> row_enabled (?g x) = row_enabled x \<and> row_priority (?g x) = row_priority x \<and>
      row_config (?g x) = row_config x" if "x \<in> set rows" for x
  proof (cases "row_id x = row_id r'")
    case True
    then have "row_id x = row_id r" by (simp add: r(4) set_fields_def)
    then have "x = r" using that r(1) assms(5) by (auto simp: ids_distinct_def distinct_map inj_on_def)
    then show ?thesis using True assms(1-3) by (simp add: r(4) set_fields_def get_or_def)
  qed simp
  let ?P = "\<lambda>r. row_tenant r = t \<and> row_enabled r" and ?k = "\<lambda>r. - row_priority r"
  have "filter ?P (map ?g rows) = map ?g (filter ?P rows)"
    unfolding filter_map comp_def using g by (intro arg_cong [of _ _ "map ?g"] filter_cong) auto
  moreover have "db (map ?g (filter ?P rows)) = map ?g (db (filter ?P rows))" by (rule assms(7)) simp
  moreover have sub: "set (db (filter ?P rows)) \<subseteq> set rows"
    using mset_eq_setD [of "db (filter ?P rows)" "filter ?P rows"] assms(6) by (auto simp: rearranges_def)
  moreover have "sort_key (\<lambda>x. ?k (?g x)) (db (filter ?P rows)) = sort_key ?k (db (filter ?P rows))"
  proof (rule sort_key_agree)
    fix x assume "x \<in> set (db (filter ?P rows))"
    then show "?k (?g x) = ?k x" using g [OF subsetD [OF sub]] by simp
  qed
  moreover have "fold add_row (map ?g xs) e = fold add_row xs e" if "set xs \<subseteq> set rows" for xs e
    using that g by (induction xs arbitrary: e) (simp_all add: add_row_def)
  ultimately show ?thesis
    by (simp add: build_tenant_engine_def ordered_by_def r(5) replace_row_def sort_key_map)
qed

text \<open>The documentation of \<open>load_builtin_pack\<close> names \<open>''soc2''\<close> as an example.\<close>

lemma soc2_not_found: "load_builtin_pack t u i now ''soc2'' rows = Inl NotFound"
proof -
  have "find (\<lambda>p. str_lower (name p) = str_lower ''soc2'') load_builtin_policies = None" by code_simp
  then show ?thesis by (simp add: load_builtin_pack_def)
qed

end
