(* ===== verification/Path_Validation.thy ===== *)
theory Path_Validation
  imports OL_Prelude
begin

text \<open>
  Validation of file paths, \<^verbatim>\<open>src/openlabels/core/path_validation.py\<close>, on a POSIX system:
  \<open>os.path.normpath\<close>, \<open>abspath\<close>, \<open>isabs\<close> and \<open>dirname\<close> are those of the standard library's
  \<open>posixpath\<close>, written out. The working directory and the state of the file system are
  parameters. The empty string stands for a missing path; log messages are left out.
\<close>

section \<open>POSIX paths\<close>

fun str_join :: "string \<Rightarrow> string list \<Rightarrow> string" where
  "str_join sep [] = []"
| "str_join sep [w] = w"
| "str_join sep (w # ws) = w @ sep @ str_join sep ws"

fun norm_comps :: "bool \<Rightarrow> string list \<Rightarrow> string list \<Rightarrow> string list" where
  "norm_comps absolute new_comps [] = new_comps"
| "norm_comps absolute new_comps (c # comps) =
     (if c = [] \<or> c = ''.'' then norm_comps absolute new_comps comps
      else if c \<noteq> ''..'' \<or> (\<not> absolute \<and> new_comps = []) \<or> (new_comps \<noteq> [] \<and> last new_comps = ''..'')
        then norm_comps absolute (new_comps @ [c]) comps
      else norm_comps absolute (butlast new_comps) comps)"

text \<open>One or two initial slashes are kept, three or more count as one.\<close>

definition initial_slashes :: "string \<Rightarrow> nat" where
  "initial_slashes path = (if starts_with path ''/'' then
     (if starts_with path ''//'' \<and> \<not> starts_with path ''///'' then 2 else 1) else 0)"

definition normpath :: "string \<Rightarrow> string" where
  "normpath path =
     (if path = [] then ''.''
      else (let n = initial_slashes path;
                comps = norm_comps (n > 0) [] (str_split (CHR ''/'') path);
                res = replicate n (CHR ''/'') @ str_join ''/'' comps
            in if res = [] then ''.'' else res))"

definition isabs :: "string \<Rightarrow> bool" where
  "isabs path = starts_with path ''/''"

definition path_join :: "string \<Rightarrow> string \<Rightarrow> string" where
  "path_join a b = (if isabs b then b else if a = [] \<or> ends_with a ''/'' then a @ b else a @ ''/'' @ b)"

definition abspath :: "string \<Rightarrow> string \<Rightarrow> string" where
  "abspath cwd path = normpath (if isabs path then path else path_join cwd path)"

definition dirname :: "string \<Rightarrow> string" where
  "dirname path =
     (let head = rev (dropWhile (\<lambda>c. c \<noteq> CHR ''/'') (rev path))
      in if head \<noteq> [] \<and> list_ex (\<lambda>c. c \<noteq> CHR ''/'') head
         then rev (dropWhile (\<lambda>c. c = CHR ''/'') (rev head)) else head)"

section \<open>Validation\<close>

definition BLOCKED_PATH_PREFIXES :: "string list" where
  "BLOCKED_PATH_PREFIXES = [''/etc/'', ''/var/'', ''/usr/'', ''/bin/'', ''/sbin/'', ''/root/'', ''/proc/'',
     ''/sys/'', ''/dev/'', ''/boot/'', ''C:'' @ [CHR 0x5C] @ ''Windows'' @ [CHR 0x5C],
     ''C:'' @ [CHR 0x5C] @ ''Program Files'' @ [CHR 0x5C],
     ''C:'' @ [CHR 0x5C] @ ''Program Files (x86)'' @ [CHR 0x5C],
     ''C:'' @ [CHR 0x5C] @ ''ProgramData'' @ [CHR 0x5C]]"

definition BLOCKED_FILE_PATTERNS :: "string list" where
  "BLOCKED_FILE_PATTERNS = [''.env'', ''.git/'', ''.ssh/'', ''id_rsa'', ''id_ed25519'', ''.htpasswd'',
     ''shadow'', ''passwd'', ''credentials'']"

datatype path_error =
    PathRequired
  | MustBeAbsolute
  | PathTraversal
  | SystemDirectory
  | SensitiveFile
  | DoesNotExist string
  | ParentDoesNotExist string
  | CannotCreate string
  | IsADirectory string

record file_system =
  fs_cwd :: string
  fs_exists :: "string \<Rightarrow> bool"
  fs_isdir :: "string \<Rightarrow> bool"
  fs_makedirs :: "string \<Rightarrow> string option"

definition blocked_path :: "string \<Rightarrow> bool" where
  "blocked_path path = list_ex (\<lambda>b. starts_with (str_lower path) (str_lower b)) BLOCKED_PATH_PREFIXES"

definition blocked_pattern :: "string \<Rightarrow> bool" where
  "blocked_pattern path =
     (let path_parts = map (\<lambda>c. if c = CHR 0x5C then CHR ''/'' else c) (str_lower path)
      in list_ex (\<lambda>p. str_contains p path_parts) BLOCKED_FILE_PATTERNS)"

definition validate_path ::
  "file_system \<Rightarrow> string \<Rightarrow> bool \<Rightarrow> bool \<Rightarrow> bool \<Rightarrow> path_error + string" where
  "validate_path fs file_path require_exists require_parent_exists allow_relative =
     (if file_path = [] then Inl PathRequired
      else (let original = filter (\<lambda>c. c \<noteq> CHR 0x00) file_path in
        if blocked_path original then Inl SystemDirectory
        else if \<not> allow_relative \<and> \<not> isabs original then Inl MustBeAbsolute
        else (let canonical = (if allow_relative then normpath (abspath (fs_cwd fs) original) else normpath original) in
          if str_contains ''..'' original then Inl PathTraversal
          else if blocked_path canonical then Inl SystemDirectory
          else if blocked_pattern canonical then Inl SensitiveFile
          else if require_exists \<and> \<not> fs_exists fs canonical then Inl (DoesNotExist canonical)
          else if require_parent_exists \<and> \<not> fs_exists fs (dirname canonical)
            then Inl (ParentDoesNotExist (dirname canonical))
          else Inr canonical)))"

definition validate_output_path :: "file_system \<Rightarrow> string \<Rightarrow> bool \<Rightarrow> path_error + string" where
  "validate_output_path fs output_path create_parent =
     res_bind (validate_path fs output_path False False True) (\<lambda>canonical.
       let parent = dirname canonical;
           made = (if parent \<noteq> [] \<and> \<not> fs_exists fs parent then
                     (if create_parent then
                        (case fs_makedirs fs parent of Some e \<Rightarrow> Inl (CannotCreate e) | None \<Rightarrow> Inr ())
                      else Inl (ParentDoesNotExist parent))
                   else Inr ())
       in res_bind made (\<lambda>_.
         if fs_exists fs canonical \<and> fs_isdir fs canonical then Inl (IsADirectory canonical)
         else Inr canonical))"

section \<open>Normal paths\<close>

text \<open>A regular component names something: it is neither empty nor a dot and has no slash.\<close>

definition regular :: "string \<Rightarrow> bool" where
  "regular c \<longleftrightarrow> c \<noteq> [] \<and> c \<noteq> ''.'' \<and> c \<noteq> ''..'' \<and> CHR ''/'' \<notin> set c"

definition path_of :: "nat \<Rightarrow> string list \<Rightarrow> string" where
  "path_of n comps = replicate n (CHR ''/'') @ str_join ''/'' comps"

lemma split_no_sep: "w \<in> set (str_split sep s) \<Longrightarrow> sep \<notin> set w"
  by (induction sep s arbitrary: w rule: str_split.induct) (auto split: if_splits list.splits)

lemma split_sep: "sep \<notin> set w \<Longrightarrow> str_split sep (w @ sep # s) = w # str_split sep s"
  by (induction w) auto

lemma split_plain: "sep \<notin> set w \<Longrightarrow> str_split sep w = [w]"
  by (induction w) auto

lemma split_join:
  "ws \<noteq> [] \<Longrightarrow> (\<And>w. w \<in> set ws \<Longrightarrow> sep \<notin> set w) \<Longrightarrow> str_split sep (str_join [sep] ws) = ws"
  by (induction "[sep]" ws rule: str_join.induct) (auto simp: split_plain split_sep)

lemma norm_regular:
  "list_all regular acc \<Longrightarrow> (\<And>c. c \<in> set cs \<Longrightarrow> CHR ''/'' \<notin> set c) \<Longrightarrow> list_all regular (norm_comps True acc cs)"
proof (induction True acc cs rule: norm_comps.induct)
  case (2 acc c cs)
  have "acc \<noteq> [] \<Longrightarrow> last acc \<noteq> ''..''" "list_all regular (butlast acc)"
    using 2(4) by (auto simp: list_all_iff regular_def dest: in_set_butlastD)
  with 2 show ?case by (auto simp: regular_def)
qed simp

lemma norm_id: "list_all regular cs \<Longrightarrow> norm_comps True acc cs = acc @ cs"
  by (induction cs arbitrary: acc) (auto simp: regular_def)

lemma norm_skip: "norm_comps ab acc ([] # cs) = norm_comps ab acc cs"
  by simp

lemma split_path_of:
  assumes "list_all regular cs" and "cs \<noteq> []"
  shows "str_split (CHR ''/'') (path_of n cs) = replicate n [] @ cs"
proof (induction n)
  case 0
  have "str_split (CHR ''/'') (str_join [CHR ''/''] cs) = cs"
    using assms by (intro split_join) (auto simp: list_all_iff regular_def)
  then show ?case by (simp add: path_of_def)
next
  case (Suc n)
  have "str_split (CHR ''/'') (path_of (Suc n) cs) = [] # str_split (CHR ''/'') (path_of n cs)"
    by (simp add: path_of_def)
  with Suc show ?case by simp
qed

lemma norm_replicate: "norm_comps ab acc (replicate n [] @ cs) = norm_comps ab acc cs"
  by (induction n) auto

lemma join_head: "list_all regular cs \<Longrightarrow> cs \<noteq> [] \<Longrightarrow> \<exists>c r. str_join ''/'' cs = c # r \<and> c \<noteq> CHR ''/''"
  by (cases cs rule: list.exhaust; cases "tl cs"; cases "hd cs") (auto simp: regular_def)

lemma initial_path_of:
  assumes "list_all regular cs" and "n \<in> {1, 2}"
  shows "initial_slashes (path_of n cs) = n"
proof (cases "cs = []")
  case False
  with join_head [OF assms(1)] obtain c r where "str_join ''/'' cs = c # r" "c \<noteq> CHR ''/''" by blast
  with assms(2) show ?thesis
    by (auto simp: initial_slashes_def path_of_def starts_with_def numeral_2_eq_2 numeral_3_eq_3)
qed (use assms(2) in \<open>auto simp: initial_slashes_def path_of_def starts_with_def numeral_2_eq_2 numeral_3_eq_3\<close>)

lemma normpath_path_of:
  assumes "list_all regular cs" and "n \<in> {1, 2}"
  shows "normpath (path_of n cs) = path_of n cs"
proof -
  have "norm_comps True [] (str_split (CHR ''/'') (path_of n cs)) = cs"
  proof (cases "cs = []")
    case True
    then show ?thesis using assms(2) by (auto simp: path_of_def numeral_2_eq_2)
  next
    case False
    then show ?thesis using assms(1) by (simp add: split_path_of norm_replicate norm_id)
  qed
  moreover have "path_of n cs \<noteq> []" using assms(2) by (auto simp: path_of_def)
  ultimately show ?thesis
    using initial_path_of [OF assms] assms(2) by (auto simp: normpath_def Let_def path_of_def)
qed

lemma normpath_absolute:
  assumes "isabs path"
  shows "\<exists>n cs. normpath path = path_of n cs \<and> n \<in> {1, 2} \<and> list_all regular cs \<and>
    set cs \<subseteq> set (str_split (CHR ''/'') path) \<and> n = initial_slashes path"
proof -
  have sub: "set (norm_comps ab acc ws) \<subseteq> set acc \<union> set ws" for ab acc ws
    by (induction ab acc ws rule: norm_comps.induct) (auto dest: in_set_butlastD)
  let ?n = "initial_slashes path" and ?cs = "norm_comps True [] (str_split (CHR ''/'') path)"
  have n: "?n \<in> {1, 2}" "path \<noteq> []" using assms by (auto simp: initial_slashes_def isabs_def starts_with_def)
  moreover have "list_all regular ?cs" by (intro norm_regular) (auto dest: split_no_sep)
  moreover have "normpath path = path_of ?n ?cs" using n by (auto simp: normpath_def Let_def path_of_def)
  ultimately show ?thesis using sub [of True "[]"] by auto
qed

definition normal :: "string \<Rightarrow> bool" where
  "normal p \<longleftrightarrow> (\<exists>n cs. p = path_of n cs \<and> n \<in> {1, 2} \<and> list_all regular cs)"

lemma normal_normpath: "isabs path \<Longrightarrow> normal (normpath path)"
  using normpath_absolute unfolding normal_def by blast

lemma normpath_normal: "normal p \<Longrightarrow> normpath p = p"
  using normpath_path_of unfolding normal_def by blast

lemma isabs_iff: "isabs p \<longleftrightarrow> (\<exists>r. p = CHR ''/'' # r)"
  by (cases p) (auto simp: isabs_def starts_with_def)

lemma isabs_normal: "normal p \<Longrightarrow> isabs p"
  by (auto simp: normal_def isabs_iff path_of_def numeral_2_eq_2)

lemma abspath_absolute: "isabs cwd \<Longrightarrow> isabs (if isabs path then path else path_join cwd path)"
  by (auto simp: isabs_iff path_join_def)

lemma canonical_form:
  assumes "isabs cwd" and "allow_relative \<or> isabs path"
  shows "normal (if allow_relative then normpath (abspath cwd path) else normpath path)"
  using assms normal_normpath [OF abspath_absolute [OF assms(1), of path]] normal_normpath [of path]
  by (cases allow_relative) (simp_all only: abspath_def normpath_normal if_True if_False simp_thms)

text \<open>The system directories of the list, by their names.\<close>

definition system_roots :: "string list" where
  "system_roots = [''etc'', ''var'', ''usr'', ''bin'', ''sbin'', ''root'', ''proc'', ''sys'', ''dev'', ''boot'']"

lemma blocked_inside:
  assumes "str_lower (hd cs) \<in> set system_roots" and "length cs \<ge> 2"
  shows "blocked_path (path_of 1 cs)"
proof -
  obtain c d r where cs: "cs = c # d # r" using assms(2) by (cases cs; cases "tl cs") auto
  then have "str_lower (path_of 1 cs) = ''/'' @ str_lower c @ ''/'' @ str_lower (str_join ''/'' (d # r))"
    by (simp add: path_of_def str_lower_def lower_char_def is_upper_def chr_code_def)
  moreover have "\<exists>b \<in> set BLOCKED_PATH_PREFIXES. str_lower b = ''/'' @ str_lower c @ ''/''"
  proof -
    have "map (\<lambda>b. str_lower b) (take 10 BLOCKED_PATH_PREFIXES) = map (\<lambda>w. ''/'' @ w @ ''/'') system_roots"
      by code_simp
    then have "(\<lambda>w. ''/'' @ w @ ''/'') ` set system_roots \<subseteq> str_lower ` set BLOCKED_PATH_PREFIXES"
      by (metis image_mono list.set_map set_take_subset)
    then obtain b where "b \<in> set BLOCKED_PATH_PREFIXES" "''/'' @ str_lower c @ ''/'' = str_lower b"
      using assms(1) cs by (auto simp: image_subset_iff image_iff)
    then show ?thesis by (intro bexI [of _ b]) (simp_all only:)
  qed
  ultimately show ?thesis
    unfolding blocked_path_def list_ex_iff starts_with_iff by (metis append.assoc)
qed

text \<open>
  C31: A path that validation accepts is an absolute path in normal form: no empty component, no dot, no
  parent reference is left in it. Unless it begins with two slashes, it lies inside none of the
  blocked system directories, in any case of the letters; and it contains no sensitive file pattern.
\<close>

theorem validated_path_safe:
  assumes "isabs (fs_cwd fs)" and "validate_path fs path re rp ar = Inr p"
  shows "\<exists>n cs. p = path_of n cs \<and> n \<in> {1, 2} \<and> list_all regular cs \<and>
    \<not> (n = 1 \<and> 2 \<le> length cs \<and> str_lower (hd cs) \<in> set system_roots) \<and> \<not> blocked_pattern p"
proof -
  let ?o = "filter (\<lambda>c. c \<noteq> CHR 0x00) path"
  have v: "p = (if ar then normpath (abspath (fs_cwd fs) ?o) else normpath ?o)" "ar \<or> isabs ?o"
    "\<not> blocked_path p" "\<not> blocked_pattern p"
    using assms(2) by (auto simp: validate_path_def Let_def split: if_splits)
  from canonical_form [OF assms(1) v(2)] v(1) obtain n cs where
    "p = path_of n cs" "n \<in> {1, 2}" "list_all regular cs" unfolding normal_def by metis
  with v(3,4) blocked_inside [of cs] show ?thesis by (intro exI [of _ n] exI [of _ cs]) auto
qed

definition linux :: file_system where
  "linux = \<lparr>fs_cwd = ''/srv'', fs_exists = (\<lambda>_. True), fs_isdir = (\<lambda>_. False), fs_makedirs = (\<lambda>_. None)\<rparr>"

lemma linux_data: "validate_path linux ''data/./a.pdf'' False False True = Inr ''/srv/data/a.pdf''"
  by code_simp

theorem validated_path_safe_witness:
  "\<exists>n cs. ''/srv/data/a.pdf'' = path_of n cs \<and> n \<in> {1, 2} \<and> list_all regular cs \<and>
    \<not> (n = 1 \<and> 2 \<le> length cs \<and> str_lower (hd cs) \<in> set system_roots) \<and> \<not> blocked_pattern ''/srv/data/a.pdf''"
  by (rule validated_path_safe [OF _ linux_data]) (simp add: linux_def isabs_iff)

text \<open>The two ways around the list of system directories: a second slash at the beginning, which POSIX
  normalization keeps, and the directory itself, which has no slash at its end.\<close>

lemma double_slash_accepted: "validate_path linux ''//etc/hosts'' False False True = Inr ''//etc/hosts''"
  by code_simp

lemma system_directory_accepted: "validate_path linux ''/etc'' False False True = Inr ''/etc''"
  by code_simp

section \<open>Validation twice\<close>

lemma str_contains_iff: "str_contains p s \<longleftrightarrow> (\<exists>u v. s = u @ p @ v)"
proof (induction s)
  case (Cons c s)
  have "(\<exists>u v. c # s = u @ p @ v) \<longleftrightarrow> (\<exists>v. c # s = p @ v) \<or> (\<exists>u v. s = u @ p @ v)"
    by (metis append_Cons append_Nil list.inject neq_Nil_conv)
  with Cons show ?case by (simp add: starts_with_iff)
qed auto

lemma contains_component:
  assumes "str_contains p w" and "w \<in> set (str_split sep s)"
  shows "str_contains p s"
proof -
  have "\<exists>u v. s = u @ w @ v" using assms(2)
  proof (induction sep s arbitrary: w rule: str_split.induct)
    case (2 sep c cs)
    show ?case
    proof (cases "c = sep")
      case True
      with 2 show ?thesis by simp (metis append_Cons append_Nil)
    next
      case False
      obtain x xs where x: "str_split sep cs = x # xs"
        by (cases "str_split sep cs") (cases cs, auto split: if_splits list.splits)
      show ?thesis
      proof (cases "w = c # x")
        case True
        obtain v where "cs = x @ v"
          using x by (induction cs arbitrary: x xs) (auto split: if_splits list.splits)
        with True show ?thesis by (intro exI [of _ "[]"] exI [of _ v]) simp
      next
        case False
        with 2(3) \<open>c \<noteq> sep\<close> x have "w \<in> set (str_split sep cs)" by auto
        with 2(2) \<open>c \<noteq> sep\<close> show ?thesis by (metis append_Cons)
      qed
    qed
  qed simp
  then show ?thesis using assms(1) unfolding str_contains_iff by (metis append.assoc)
qed

lemma split_takeWhile: "\<exists>ws. str_split sep s = takeWhile (\<lambda>c. c \<noteq> sep) s # ws"
  by (induction sep s rule: str_split.induct) auto

lemma contains_split:
  "str_contains p s \<Longrightarrow> p \<noteq> [] \<Longrightarrow> sep \<notin> set p \<Longrightarrow> \<exists>w \<in> set (str_split sep s). str_contains p w"
proof (induction s)
  case (Cons c s)
  obtain ws where ws: "str_split sep s = takeWhile (\<lambda>c. c \<noteq> sep) s # ws" using split_takeWhile by blast
  show ?case
  proof (cases "starts_with (c # s) p")
    case True
    then obtain r where r: "c # s = p @ r" by (auto simp: starts_with_iff)
    obtain xs where xs: "str_split sep (c # s) = takeWhile (\<lambda>c. c \<noteq> sep) (c # s) # xs" using split_takeWhile by blast
    have "takeWhile (\<lambda>c. c \<noteq> sep) (p @ r) = p @ takeWhile (\<lambda>c. c \<noteq> sep) r"
      using Cons.prems(3) by (intro takeWhile_append2) auto
    then have "str_contains p (takeWhile (\<lambda>c. c \<noteq> sep) (c # s))"
      unfolding r str_contains_iff by (metis append_Nil)
    then show ?thesis using xs by simp
  next
    case False
    with Cons obtain w where w: "w \<in> set (str_split sep s)" "str_contains p w" by auto
    show ?thesis
    proof (cases "c = sep")
      case True
      with w show ?thesis by auto
    next
      case nsep: False
      show ?thesis
      proof (cases "w \<in> set ws")
        case True
        with w nsep ws show ?thesis by auto
      next
        case False
        with w ws have "w = takeWhile (\<lambda>c. c \<noteq> sep) s" by simp
        then have "str_contains p (c # w)" using w(2) unfolding str_contains_iff by (metis append_Cons)
        moreover have "c # w \<in> set (str_split sep (c # s))" using nsep ws \<open>w = _\<close> by simp
        ultimately show ?thesis by blast
      qed
    qed
  qed
qed simp

text \<open>
  Validation is stable: a path it has returned for an absolute input is accepted again, with the same
  requirements, and returned unchanged, so that validating at several layers does no harm.
\<close>

theorem validate_path_idempotent:
  assumes "isabs (filter (\<lambda>c. c \<noteq> CHR 0x00) path)" and "validate_path fs path re rp ar = Inr p"
  shows "validate_path fs p re rp ar' = Inr p"
proof -
  let ?o = "filter (\<lambda>c. c \<noteq> CHR 0x00) path"
  have v: "p = normpath ?o" "\<not> blocked_path p" "\<not> blocked_pattern p" "\<not> str_contains ''..'' ?o"
    "re \<longrightarrow> fs_exists fs p" "rp \<longrightarrow> fs_exists fs (dirname p)"
    using assms normpath_normal [OF normal_normpath [OF assms(1)]]
    by (auto simp: validate_path_def Let_def abspath_def split: if_splits)
  obtain n cs where cs: "p = path_of n cs" "list_all regular cs" "set cs \<subseteq> set (str_split (CHR ''/'') ?o)"
    using normpath_absolute [OF assms(1)] v(1) by blast
  have norm: "normal p" "isabs p" using normal_normpath [OF assms(1)] v(1) isabs_normal by auto
  have no_dots: "\<not> str_contains ''..'' p"
  proof
    assume dots: "str_contains ''..'' p"
    have "cs \<noteq> []"
    proof
      assume "cs = []"
      then have "set p \<subseteq> {CHR ''/''}" using cs(1) by (auto simp: path_of_def)
      with dots show False by (auto simp: str_contains_iff)
    qed
    then have "set (str_split (CHR ''/'') p) \<subseteq> {[]} \<union> set cs"
      using split_path_of [OF cs(2)] cs(1) by auto
    with contains_split [OF dots, of "CHR ''/''"] obtain w where "w \<in> set cs" "str_contains ''..'' w" by auto
    with contains_component cs(3) v(4) show False by blast
  qed
  have "CHR 0x00 \<notin> set p"
  proof
    assume "CHR 0x00 \<in> set p"
    then have "str_contains [CHR 0x00] p" unfolding str_contains_iff by (metis append_Cons append_Nil split_list)
    then obtain w where w: "w \<in> set (str_split (CHR ''/'') p)" "str_contains [CHR 0x00] w"
      using contains_split [of "[CHR 0x00]" p "CHR ''/''"] by auto
    have "w \<in> set cs"
    proof (cases "cs = []")
      case True
      then have "set p \<subseteq> {CHR ''/''}" using cs(1) by (auto simp: path_of_def)
      with \<open>CHR 0x00 \<in> set p\<close> show ?thesis by auto
    next
      case False
      with w split_path_of [OF cs(2)] cs(1) show ?thesis by auto
    qed
    with contains_component [OF w(2)] cs(3) have "str_contains [CHR 0x00] ?o" by blast
    then obtain u v where "?o = u @ [CHR 0x00] @ v" unfolding str_contains_iff by blast
    then have "CHR 0x00 \<in> set ?o" by (metis append_Cons in_set_conv_decomp)
    then show False by simp
  qed
  then have "filter (\<lambda>c. c \<noteq> CHR 0x00) p = p" by (auto simp: filter_id_conv)
  moreover have "p \<noteq> []" using norm(2) by (auto simp: isabs_iff)
  ultimately show ?thesis
    using v norm no_dots by (auto simp: validate_path_def Let_def abspath_def normpath_normal)
qed

theorem validate_path_idempotent_witness:
  "validate_path linux ''/srv/a.pdf'' True False False = Inr ''/srv/a.pdf''"
proof (rule validate_path_idempotent [where path = "''/srv/./a.pdf''"])
  show "isabs (filter (\<lambda>c. c \<noteq> CHR 0x00) ''/srv/./a.pdf'')" by (simp add: isabs_iff)
  show "validate_path linux ''/srv/./a.pdf'' True False True = Inr ''/srv/a.pdf''" by code_simp
qed

end
