(* ===== verification/Rate_Limit.thy ===== *)
theory Rate_Limit
  imports OL_Prelude
begin

text \<open>
  Per-tenant rate limiting, \<^verbatim>\<open>src/openlabels/server/middleware/rate_limit.py\<close>: the in-memory
  sliding-window counters, the Redis fixed-window counters over a client that is a parameter, and the
  limiter that falls back from one to the other. The clocks are arguments. The limiter by address is
  a third-party library and is left out.
\<close>

section \<open>Counters in memory\<close>

record counters =
  minute_counts :: "string \<Rightarrow> real list"
  hour_counts :: "string \<Rightarrow> real list"

definition no_counts :: counters where
  "no_counts = \<lparr>minute_counts = (\<lambda>_. []), hour_counts = (\<lambda>_. [])\<rparr>"

type_synonym verdict = "bool \<times> int \<times> int"

definition check_memory :: "real \<Rightarrow> string \<Rightarrow> int \<Rightarrow> int \<Rightarrow> counters \<Rightarrow> verdict \<times> counters" where
  "check_memory now tenant rpm_limit rph_limit b0 =
     (let minute_list = filter (\<lambda>t. t > now - 60) (minute_counts b0 tenant);
          b1 = b0\<lparr>minute_counts := (minute_counts b0)(tenant := minute_list)\<rparr>
      in if int (length minute_list) \<ge> rpm_limit then ((False, 0, 0), b1)
         else (let hour_list = filter (\<lambda>t. t > now - 3600) (hour_counts b1 tenant);
                   b2 = b1\<lparr>hour_counts := (hour_counts b1)(tenant := hour_list)\<rparr>
               in if int (length hour_list) \<ge> rph_limit then ((False, 0, 0), b2)
                  else ((True, max 0 (rpm_limit - int (length (minute_list @ [now]))),
                           max 0 (rph_limit - int (length (hour_list @ [now])))),
                        b2\<lparr>minute_counts := (minute_counts b2)(tenant := minute_list @ [now]),
                           hour_counts := (hour_counts b2)(tenant := hour_list @ [now])\<rparr>)))"

section \<open>Counters in Redis\<close>

text \<open>The pipeline increments both keys and answers their new values; \<open>None\<close> is an exception of
  the client. Keys are never used again once their window has passed, so that their expiry makes no
  difference.\<close>

type_synonym 's redis = "string \<Rightarrow> string \<Rightarrow> 's \<Rightarrow> (int \<times> int) option \<times> 's"

definition window_key :: "string \<Rightarrow> string \<Rightarrow> nat \<Rightarrow> string" where
  "window_key tenant kind w = ''openlabels:tenant_rl:'' @ tenant @ '':'' @ kind @ '':'' @ show_nat w"

definition check_redis ::
  "'s redis \<Rightarrow> nat \<Rightarrow> string \<Rightarrow> int \<Rightarrow> int \<Rightarrow> 's \<Rightarrow> verdict option \<times> 's" where
  "check_redis redis now tenant rpm_limit rph_limit s =
     (case redis (window_key tenant ''m'' (now div 60)) (window_key tenant ''h'' (now div 3600)) s of
        (None, s') \<Rightarrow> (None, s')
      | (Some (minute_count, hour_count), s') \<Rightarrow>
          (Some (if minute_count > rpm_limit then (False, 0, 0)
                 else if hour_count > rph_limit then (False, 0, 0)
                 else (True, max 0 (rpm_limit - minute_count), max 0 (rph_limit - hour_count))), s'))"

section \<open>The limiter\<close>

record rate_headers =
  rl_limit :: int
  rl_remaining :: int
  rl_reset :: "int option"

definition headers_of :: "int \<Rightarrow> verdict \<Rightarrow> bool \<times> rate_headers" where
  "headers_of rpm_limit v = (case v of (allowed, minute_rem, _) \<Rightarrow>
     if \<not> allowed then (False, \<lparr>rl_limit = rpm_limit, rl_remaining = 0, rl_reset = Some 60\<rparr>)
     else (True, \<lparr>rl_limit = rpm_limit, rl_remaining = minute_rem, rl_reset = None\<rparr>))"

text \<open>\<open>ticks\<close> is the monotonic clock of the process, \<open>wall\<close> the wall clock in seconds.\<close>

definition check_rate_limit ::
  "'s redis option \<Rightarrow> int \<Rightarrow> int \<Rightarrow> real \<Rightarrow> nat \<Rightarrow> string \<Rightarrow> 's \<times> counters \<Rightarrow> (bool \<times> rate_headers) \<times> 's \<times> counters" where
  "check_rate_limit redis rpm_limit rph_limit ticks wall tenant st =
     (let (s, b) = st;
          in_memory = (\<lambda>s. (let (v, b') = check_memory ticks tenant rpm_limit rph_limit b in (headers_of rpm_limit v, s, b')))
      in case redis of
           None \<Rightarrow> in_memory s
         | Some r \<Rightarrow> (case check_redis r wall tenant rpm_limit rph_limit s of
               (Some v, s') \<Rightarrow> (headers_of rpm_limit v, s', b)
             | (None, s') \<Rightarrow> in_memory s'))"

section \<open>The reference limiter\<close>

text \<open>A request log: time, tenant and answer. The reference looks at the whole history: a request is
  allowed when fewer than the limit were allowed to the tenant in the window before it.\<close>

type_synonym request_log = "(real \<times> string \<times> bool) list"

definition granted :: "request_log \<Rightarrow> string \<Rightarrow> real list" where
  "granted hist k = map fst (filter (\<lambda>(_, k', ok). k' = k \<and> ok) hist)"

definition recent :: "real \<Rightarrow> real \<Rightarrow> real list \<Rightarrow> nat" where
  "recent w now ts = length (filter (\<lambda>t. now - w < t) ts)"

definition reference_answer :: "int \<Rightarrow> int \<Rightarrow> request_log \<Rightarrow> real \<Rightarrow> string \<Rightarrow> bool" where
  "reference_answer rpm rph hist now k \<longleftrightarrow>
     int (recent 60 now (granted hist k)) < rpm \<and> int (recent 3600 now (granted hist k)) < rph"

fun run_memory :: "int \<Rightarrow> int \<Rightarrow> (real \<times> string) list \<Rightarrow> counters \<Rightarrow> request_log" where
  "run_memory rpm rph [] b = []"
| "run_memory rpm rph ((now, k) # calls) b =
     (case check_memory now k rpm rph b of ((ok, _), b') \<Rightarrow> (now, k, ok) # run_memory rpm rph calls b')"

fun run_reference :: "int \<Rightarrow> int \<Rightarrow> (real \<times> string) list \<Rightarrow> request_log \<Rightarrow> request_log" where
  "run_reference rpm rph [] hist = []"
| "run_reference rpm rph ((now, k) # calls) hist =
     (let ok = reference_answer rpm rph hist now k
      in (now, k, ok) # run_reference rpm rph calls (hist @ [(now, k, ok)]))"

text \<open>What the counters remember of the history: of each tenant's grants those after some time no
  later than a window before now.\<close>

definition remembers :: "real \<Rightarrow> real \<Rightarrow> real list \<Rightarrow> real list \<Rightarrow> bool" where
  "remembers w now ts xs \<longleftrightarrow> (\<exists>c. c \<le> now - w \<and> xs = filter (\<lambda>t. c < t) ts)"

lemma remembers_filter:
  assumes "remembers w prev ts xs" and "prev \<le> now"
  shows "filter (\<lambda>t. now - w < t) xs = filter (\<lambda>t. now - w < t) ts"
proof -
  obtain c where "c \<le> prev - w" "xs = filter (\<lambda>t. c < t) ts" using assms(1) by (auto simp: remembers_def)
  then show ?thesis using assms(2) by (auto intro: filter_cong)
qed

lemma remembers_later: "remembers w prev ts xs \<Longrightarrow> prev \<le> now \<Longrightarrow> remembers w now ts xs"
  unfolding remembers_def by (elim exE conjE) (rule exI, erule conjI [rotated], linarith)

lemma remembers_cut: "remembers w now ts (filter (\<lambda>t. now - w < t) ts)"
  unfolding remembers_def by blast

lemma remembers_snoc: "remembers w now ts (filter (\<lambda>t. now - w < t) ts) \<Longrightarrow> 0 < w \<Longrightarrow>
    remembers w now (ts @ [now]) (filter (\<lambda>t. now - w < t) ts @ [now])"
  unfolding remembers_def by (intro exI [of _ "now - w"]) auto

definition faithful :: "real \<Rightarrow> request_log \<Rightarrow> counters \<Rightarrow> bool" where
  "faithful now hist b \<longleftrightarrow> (\<forall>k. remembers 60 now (granted hist k) (minute_counts b k) \<and>
     remembers 3600 now (granted hist k) (hour_counts b k))"

lemma granted_snoc: "granted (hist @ [(t, k, ok)]) k' = granted hist k' @ (if k = k' \<and> ok then [t] else [])"
  by (simp add: granted_def)

lemma check_memory_faithful:
  assumes "faithful prev hist b" and "prev \<le> now" and "check_memory now k rpm rph b = ((ok, rem), b')"
  shows "ok = reference_answer rpm rph hist now k \<and> faithful now (hist @ [(now, k, ok)]) b'"
proof -
  have m: "filter (\<lambda>t. t > now - 60) (minute_counts b k) = filter (\<lambda>t. t > now - 60) (granted hist k)"
    and h: "filter (\<lambda>t. t > now - 3600) (hour_counts b k) = filter (\<lambda>t. t > now - 3600) (granted hist k)"
    using assms(1,2) by (auto simp: faithful_def intro!: remembers_filter)
  have other: "remembers 60 now (granted hist k') (minute_counts b k')" "remembers 3600 now (granted hist k') (hour_counts b k')" for k'
    using assms(1,2) by (auto simp: faithful_def intro: remembers_later)
  show ?thesis
    using assms(3) other remembers_cut [of 60 now "granted hist k"] remembers_cut [of 3600 now "granted hist k"]
      remembers_snoc [OF remembers_cut, of 60 now "granted hist k"] remembers_snoc [OF remembers_cut, of 3600 now "granted hist k"]
    by (auto simp: check_memory_def Let_def m h reference_answer_def recent_def faithful_def granted_snoc split: if_splits)
qed

lemma no_counts_faithful: "faithful now [] no_counts"
  unfolding faithful_def remembers_def by (auto simp: no_counts_def granted_def)

lemma run_memory_reference:
  "faithful prev hist b \<Longrightarrow> sorted (map fst calls) \<Longrightarrow> (\<forall>c \<in> set calls. prev \<le> fst c) \<Longrightarrow>
    run_memory rpm rph calls b = run_reference rpm rph calls hist"
proof (induction calls arbitrary: prev hist b)
  case (Cons c calls)
  obtain now k where c: "c = (now, k)" by force
  obtain ok rem b' where ck: "check_memory now k rpm rph b = ((ok, rem), b')" by (metis surj_pair)
  have f: "ok = reference_answer rpm rph hist now k" "faithful now (hist @ [(now, k, ok)]) b'"
    using check_memory_faithful [OF Cons.prems(1) _ ck] Cons.prems(3) c by auto
  have "run_memory rpm rph calls b' = run_reference rpm rph calls (hist @ [(now, k, ok)])"
    using Cons.IH [OF f(2)] Cons.prems(2) c by auto
  then show ?case using f(1) by (simp add: c ck Let_def)
qed simp

lemma memory_exact:
  assumes "sorted (map fst calls)"
  shows "run_memory rpm rph calls no_counts = run_reference rpm rph calls []"
proof (cases calls)
  case (Cons c cs)
  with assms run_memory_reference [OF no_counts_faithful, of calls "fst c"] show ?thesis by auto
qed simp

text \<open>A list of grants each of which was made with fewer than \<open>r\<close> others in the window before it.\<close>

definition paced :: "real \<Rightarrow> int \<Rightarrow> real list \<Rightarrow> bool" where
  "paced w r ts \<longleftrightarrow> (\<forall>i < length ts. int (recent w (ts ! i) (take i ts)) < r)"

lemma paced_snoc: "paced w r (ts @ [t]) \<longleftrightarrow> paced w r ts \<and> int (recent w t ts) < r"
  by (auto simp: paced_def nth_append less_Suc_eq)

lemma filter_imp_length: "(\<And>x. P x \<Longrightarrow> Q x) \<Longrightarrow> length (filter P xs) \<le> length (filter Q xs)"
  by (induction xs) (auto intro: le_SucI)

lemma paced_window: "paced w r ts \<Longrightarrow> int (length (filter (\<lambda>t. x < t \<and> t \<le> x + w) ts)) \<le> max 0 r"
proof (induction ts rule: rev_induct)
  case (snoc t ts)
  show ?case
  proof (cases "x < t \<and> t \<le> x + w")
    case True
    have "length (filter (\<lambda>u. x < u \<and> u \<le> x + w) ts) \<le> recent w t ts"
      unfolding recent_def using True by (intro filter_imp_length) auto
    with snoc.prems True show ?thesis by (auto simp: paced_snoc)
  qed (use snoc in \<open>auto simp: paced_snoc\<close>)
qed simp

lemma reference_paced:
  "paced 60 rpm (granted hist k) \<Longrightarrow> paced 3600 rph (granted hist k) \<Longrightarrow>
    paced 60 rpm (granted (hist @ run_reference rpm rph calls hist) k) \<and>
    paced 3600 rph (granted (hist @ run_reference rpm rph calls hist) k)"
proof (induction calls arbitrary: hist)
  case (Cons c calls)
  obtain now k' where c: "c = (now, k')" by force
  let ?h = "hist @ [(now, k', reference_answer rpm rph hist now k')]"
  have "paced 60 rpm (granted ?h k) \<and> paced 3600 rph (granted ?h k)"
    using Cons.prems by (auto simp: granted_snoc paced_snoc reference_answer_def)
  with Cons.IH [of ?h] show ?case by (simp add: c Let_def)
qed simp

text \<open>
  C32: The in-memory limiter, which forgets all but the last minute and the last hour, answers every
  request as a limiter with the whole history would: a request is allowed exactly when fewer than
  the limit were allowed to the same tenant in the minute before and in the hour before. Rejected
  requests and requests of other tenants do not count.
\<close>

theorem memory_limiter_exact:
  assumes "sorted (map fst calls)"
  shows "run_memory rpm rph calls no_counts = run_reference rpm rph calls []"
  using assms by (rule memory_exact)

theorem memory_limiter_exact_witness:
  "run_memory 2 9 [(0, ''a''), (1, ''a''), (2, ''b''), (2, ''a''), (61, ''a'')] no_counts =
    run_reference 2 9 [(0, ''a''), (1, ''a''), (2, ''b''), (2, ''a''), (61, ''a'')] []"
  by (rule memory_limiter_exact) simp

text \<open>
  No tenant is ever allowed more than its limit: of the requests of a tenant in any period of a
  minute at most the limit per minute are allowed, and in any period of an hour at most the limit
  per hour, wherever the period begins.
\<close>

theorem memory_limiter_bound:
  assumes "sorted (map fst calls)"
  shows "int (length (filter (\<lambda>t. x < t \<and> t \<le> x + 60) (granted (run_memory rpm rph calls no_counts) k))) \<le> max 0 rpm \<and>
    int (length (filter (\<lambda>t. x < t \<and> t \<le> x + 3600) (granted (run_memory rpm rph calls no_counts) k))) \<le> max 0 rph"
proof -
  have eq: "run_memory rpm rph calls no_counts = run_reference rpm rph calls []"
    using assms by (rule memory_exact)
  have "paced 60 rpm (granted [] k)" "paced 3600 rph (granted [] k)" by (simp_all add: granted_def paced_def)
  from reference_paced [OF this, of calls] show ?thesis
    unfolding eq by (auto intro: paced_window)
qed

theorem memory_limiter_bound_witness:
  "int (length (filter (\<lambda>t. 0 < t \<and> t \<le> 0 + 60) (granted (run_memory 2 9 [(1, ''a''), (2, ''a''), (3, ''a'')] no_counts) ''a''))) \<le> max 0 2"
  by (rule conjunct1 [OF memory_limiter_bound]) simp

section \<open>Fixed windows\<close>

text \<open>A Redis that answers: counters by key. With it the limiter allows twice the limit across the
  boundary of two windows, here four requests of a tenant within two seconds under a limit of two.\<close>

definition counter_redis :: "(string \<Rightarrow> int) redis" where
  "counter_redis mk hk s = (let s1 = s(mk := s mk + 1); s2 = s1(hk := s1 hk + 1) in (Some (s1 mk, s2 hk), s2))"

fun run_redis :: "'s redis \<Rightarrow> int \<Rightarrow> int \<Rightarrow> (nat \<times> string) list \<Rightarrow> 's \<Rightarrow> bool list" where
  "run_redis redis rpm rph [] s = []"
| "run_redis redis rpm rph ((now, k) # calls) s =
     (case check_redis redis now k rpm rph s of
        (v, s') \<Rightarrow> (case v of Some (ok, _) \<Rightarrow> ok | None \<Rightarrow> False) # run_redis redis rpm rph calls s')"

lemma redis_double_rate:
  "run_redis counter_redis 2 100 [(59, ''a''), (59, ''a''), (59, ''a''), (60, ''a''), (60, ''a''), (60, ''a'')] (\<lambda>_. 0)
    = [True, True, False, True, True, False]"
  by code_simp

text \<open>Without a client, and whenever the client fails, the limiter answers as the counters in memory
  do.\<close>

lemma fallback:
  "redis = None \<or> (\<exists>r. redis = Some r \<and> fst (r (window_key k ''m'' (wall div 60)) (window_key k ''h'' (wall div 3600)) s) = None) \<Longrightarrow>
    fst (check_rate_limit redis rpm rph ticks wall k (s, b)) = headers_of rpm (fst (check_memory ticks k rpm rph b))"
  by (auto simp: check_rate_limit_def check_redis_def Let_def split: prod.splits)

end
