(* ===== verification/Session_Store.thy ===== *)
theory Session_Store
  imports Py_Collections
begin

text \<open>
  Sessions and pending logins, \<^verbatim>\<open>src/openlabels/server/session.py\<close>: the sanitized identifiers, the
  encryption of the token fields, the session store and the store of pending authorizations. A
  table is the list of its rows. The cipher is a third-party parameter: \<open>None\<close> when no key is
  configured, otherwise an encryption and a decryption, which may find the token invalid. Times are
  seconds.
\<close>

section \<open>Identifiers and encryption\<close>

datatype session_error = EmptyId | DuplicateState

definition sanitize_id :: "string \<Rightarrow> session_error + string" where
  "sanitize_id v = (let sanitized = str_strip (filter (\<lambda>c. c \<noteq> CHR 0x00) v)
     in if sanitized = [] then Inl EmptyId else Inr sanitized)"

definition SENSITIVE_FIELDS :: "string list" where
  "SENSITIVE_FIELDS = [''access_token'', ''refresh_token'', ''id_token'']"

type_synonym session_data = "(string \<times> json) list"
type_synonym cipher = "((string \<Rightarrow> string) \<times> (string \<Rightarrow> string option)) option"

definition encrypt_field :: "(string \<Rightarrow> string) \<Rightarrow> string \<Rightarrow> session_data \<Rightarrow> session_data" where
  "encrypt_field enc field d = (case map_of d field of
     Some (JStr v) \<Rightarrow> if v \<noteq> [] then dict_set field (JStr (enc v)) d else d | _ \<Rightarrow> d)"

definition encrypt_session_data :: "cipher \<Rightarrow> session_data \<Rightarrow> session_data" where
  "encrypt_session_data f d = (case f of None \<Rightarrow> d | Some (enc, _) \<Rightarrow> fold (encrypt_field enc) SENSITIVE_FIELDS d)"

definition decrypt_field :: "(string \<Rightarrow> string option) \<Rightarrow> string \<Rightarrow> session_data \<Rightarrow> session_data" where
  "decrypt_field dec field d = (case map_of d field of
     Some (JStr v) \<Rightarrow> if v \<noteq> [] then (case dec v of Some p \<Rightarrow> dict_set field (JStr p) d | None \<Rightarrow> d) else d | _ \<Rightarrow> d)"

definition decrypt_session_data :: "cipher \<Rightarrow> session_data \<Rightarrow> session_data" where
  "decrypt_session_data f d = (case f of None \<Rightarrow> d | Some (_, dec) \<Rightarrow> fold (decrypt_field dec) SENSITIVE_FIELDS d)"

section \<open>Sessions\<close>

record session =
  s_id :: string
  s_data :: session_data
  s_expires :: real
  s_tenant :: "string option"
  s_user :: "string option"

definition get_session :: "cipher \<Rightarrow> real \<Rightarrow> string \<Rightarrow> session list \<Rightarrow> session_data option" where
  "get_session f now sid rows =
     (case sanitize_id sid of Inl _ \<Rightarrow> None
      | Inr i \<Rightarrow> (case find (\<lambda>r. s_id r = i \<and> s_expires r > now) rows of
           Some r \<Rightarrow> Some (decrypt_session_data f (s_data r)) | None \<Rightarrow> None))"

definition set_session ::
  "cipher \<Rightarrow> real \<Rightarrow> string \<Rightarrow> session_data \<Rightarrow> real \<Rightarrow> string option \<Rightarrow> string option \<Rightarrow> session list \<Rightarrow>
    session_error + session list" where
  "set_session f now sid d ttl tenant user rows =
     res_bind (sanitize_id sid) (\<lambda>i.
       let expires_at = now + ttl; encrypted = encrypt_session_data f d
       in case find (\<lambda>r. s_id r = i) rows of
            Some _ \<Rightarrow> Inr (map (\<lambda>r. if s_id r = i then r\<lparr>s_data := encrypted, s_expires := expires_at\<rparr> else r) rows)
          | None \<Rightarrow> Inr (rows @ [\<lparr>s_id = i, s_data = encrypted, s_expires = expires_at, s_tenant = tenant, s_user = user\<rparr>]))"

text \<open>\<open>DELETE ... WHERE\<close>: the number of rows deleted and the rows that remain.\<close>

definition delete_where :: "('a \<Rightarrow> bool) \<Rightarrow> 'a list \<Rightarrow> nat \<times> 'a list" where
  "delete_where P rows = (length (filter P rows), filter (\<lambda>r. \<not> P r) rows)"

definition delete_session :: "string \<Rightarrow> session list \<Rightarrow> bool \<times> session list" where
  "delete_session sid rows = (case sanitize_id sid of Inl _ \<Rightarrow> (False, rows)
     | Inr i \<Rightarrow> (case delete_where (\<lambda>r. s_id r = i) rows of (n, rows') \<Rightarrow> (n > 0, rows')))"

definition cleanup_sessions :: "real \<Rightarrow> session list \<Rightarrow> nat \<times> session list" where
  "cleanup_sessions now rows = delete_where (\<lambda>r. s_expires r < now) rows"

definition delete_all_for_user :: "string \<Rightarrow> session list \<Rightarrow> nat \<times> session list" where
  "delete_all_for_user user rows = (case sanitize_id user of Inl _ \<Rightarrow> (0, rows)
     | Inr u \<Rightarrow> delete_where (\<lambda>r. s_user r = Some u) rows)"

definition count_user_sessions :: "real \<Rightarrow> string \<Rightarrow> session list \<Rightarrow> nat" where
  "count_user_sessions now user rows = length (filter (\<lambda>r. s_user r = Some user \<and> s_expires r > now) rows)"

section \<open>Pending authorizations\<close>

definition AUTH_TIMEOUT_MINUTES :: real where
  "AUTH_TIMEOUT_MINUTES = 10"

record pending =
  p_state :: string
  p_redirect :: string
  p_callback :: string
  p_nonce :: "string option"
  p_created :: real

definition get_pending :: "real \<Rightarrow> string \<Rightarrow> pending list \<Rightarrow> pending option" where
  "get_pending now st rows = (case sanitize_id st of Inl _ \<Rightarrow> None
     | Inr i \<Rightarrow> find (\<lambda>r. p_state r = i \<and> p_created r > now - AUTH_TIMEOUT_MINUTES * 60) rows)"

definition set_pending ::
  "real \<Rightarrow> string \<Rightarrow> string \<Rightarrow> string \<Rightarrow> string option \<Rightarrow> pending list \<Rightarrow> session_error + pending list" where
  "set_pending now st redirect callback nonce rows =
     res_bind (sanitize_id st) (\<lambda>i. if i \<in> p_state ` set rows then Inl DuplicateState
       else Inr (rows @ [\<lparr>p_state = i, p_redirect = redirect, p_callback = callback, p_nonce = nonce, p_created = now\<rparr>]))"

definition delete_pending :: "string \<Rightarrow> pending list \<Rightarrow> bool \<times> pending list" where
  "delete_pending st rows = (case sanitize_id st of Inl _ \<Rightarrow> (False, rows)
     | Inr i \<Rightarrow> (case delete_where (\<lambda>r. p_state r = i) rows of (n, rows') \<Rightarrow> (n > 0, rows')))"

definition cleanup_pending :: "real \<Rightarrow> pending list \<Rightarrow> nat \<times> pending list" where
  "cleanup_pending now rows = delete_where (\<lambda>r. p_created r < now - AUTH_TIMEOUT_MINUTES * 60) rows"

section \<open>What a session holds\<close>

definition cipher_ok :: "cipher \<Rightarrow> bool" where
  "cipher_ok f \<longleftrightarrow> (case f of None \<Rightarrow> True | Some (enc, dec) \<Rightarrow> \<forall>v. enc v \<noteq> [] \<and> dec (enc v) = Some v)"

lemma dict_set_same: "map_of d k = Some v \<Longrightarrow> distinct (map fst d) \<Longrightarrow> dict_set k v d = d"
  by (induction k v d rule: dict_set.induct) (auto split: if_splits)

lemma dict_set_twice: "dict_set k v (dict_set k w d) = dict_set k v d"
  by (induction k v d rule: dict_set.induct) auto

lemma dict_set_commute: "map_of d k = Some x \<Longrightarrow> k \<noteq> l \<Longrightarrow> dict_set k v (dict_set l w d) = dict_set l w (dict_set k v d)"
  by (induction k v d rule: dict_set.induct) (auto split: if_splits)

lemma distinct_encrypt [intro]: "distinct (map fst d) \<Longrightarrow> distinct (map fst (encrypt_field enc k d))"
  by (auto simp: encrypt_field_def split: option.splits json.splits)

lemma map_of_encrypt: "k \<noteq> l \<Longrightarrow> map_of (encrypt_field enc k d) l = map_of d l"
  by (auto simp: encrypt_field_def split: option.splits json.splits)

lemma map_of_decrypt: "k \<noteq> l \<Longrightarrow> map_of (decrypt_field dec k d) l = map_of d l"
  by (auto simp: decrypt_field_def split: option.splits json.splits)

lemma decrypt_encrypt_field:
  assumes "\<forall>v. enc v \<noteq> [] \<and> dec (enc v) = Some v" and "distinct (map fst d)"
  shows "decrypt_field dec k (encrypt_field enc k d) = d"
  using assms by (auto simp: encrypt_field_def decrypt_field_def dict_set_twice dict_set_same split: option.splits json.splits)

lemma decrypt_encrypt_commute:
  assumes "k \<noteq> l"
  shows "decrypt_field dec k (encrypt_field enc l d) = encrypt_field enc l (decrypt_field dec k d)"
  using assms by (auto simp: encrypt_field_def decrypt_field_def dict_set_commute split: option.splits json.splits)

lemma decrypt_encrypt:
  assumes "cipher_ok f" and "distinct (map fst d)"
  shows "decrypt_session_data f (encrypt_session_data f d) = d"
proof (cases f)
  case (Some c)
  obtain enc dec where c: "c = (enc, dec)" by force
  then have ok: "\<forall>v. enc v \<noteq> [] \<and> dec (enc v) = Some v" using assms(1) Some by (simp add: cipher_ok_def)
  show ?thesis
    using decrypt_encrypt_field [OF ok] assms(2)
    by (simp add: Some c encrypt_session_data_def decrypt_session_data_def SENSITIVE_FIELDS_def
        decrypt_encrypt_commute distinct_encrypt)
qed (simp add: encrypt_session_data_def decrypt_session_data_def)

definition ids_unique :: "session list \<Rightarrow> bool" where
  "ids_unique rows \<longleftrightarrow> distinct (map s_id rows)"

definition row_of :: "string \<Rightarrow> session list \<Rightarrow> session option" where
  "row_of i rows = find (\<lambda>r. s_id r = i) rows"

lemma row_of_iff:
  assumes "ids_unique rows"
  shows "row_of i rows = Some r \<longleftrightarrow> r \<in> set rows \<and> s_id r = i"
proof
  assume "row_of i rows = Some r"
  then show "r \<in> set rows \<and> s_id r = i" unfolding row_of_def by (rule find_SomeD)
next
  assume r: "r \<in> set rows \<and> s_id r = i"
  show "row_of i rows = Some r"
    unfolding row_of_def by (rule find_unique [where k = s_id]) (use assms r in \<open>simp_all add: ids_unique_def\<close>)
qed

lemma row_of_None: "row_of i rows = None \<longleftrightarrow> i \<notin> s_id ` set rows"
  unfolding row_of_def find_None_iff by blast

lemma row_of_map:
  assumes "\<And>r. s_id (h r) = s_id r"
  shows "row_of i (map h rows) = map_option h (row_of i rows)"
  by (induction rows) (simp_all add: row_of_def assms)

lemma row_of_append: "row_of i (rows @ [r]) = (case row_of i rows of Some x \<Rightarrow> Some x | None \<Rightarrow> if s_id r = i then Some r else None)"
  by (induction rows) (simp_all add: row_of_def)

lemma row_of_filter:
  assumes "ids_unique rows"
  shows "row_of i (filter P rows) = (case row_of i rows of Some r \<Rightarrow> if P r then Some r else None | None \<Rightarrow> None)"
  using assms
proof (induction rows)
  case (Cons r rows)
  then have IH: "row_of i (filter P rows) = (case row_of i rows of Some r \<Rightarrow> if P r then Some r else None | None \<Rightarrow> None)"
    and new: "s_id r \<notin> s_id ` set rows" by (simp_all add: ids_unique_def)
  have step: "row_of i (r # rs) = (if s_id r = i then Some r else row_of i rs)" for r rs by (simp add: row_of_def)
  show ?case
  proof (cases "s_id r = i")
    case True
    then have "row_of i rows = None" using new by (simp add: row_of_None)
    with True IH show ?thesis by (simp add: step)
  qed (simp add: step IH)
qed (simp add: row_of_def)

lemma get_session_row:
  assumes "ids_unique rows" and "sanitize_id sid = Inr i"
  shows "get_session f now sid rows = (case row_of i rows of None \<Rightarrow> None
    | Some r \<Rightarrow> if s_expires r > now then Some (decrypt_session_data f (s_data r)) else None)"
proof (cases "find (\<lambda>r. s_id r = i \<and> s_expires r > now) rows")
  case None
  moreover have "\<not> s_expires r > now" if "row_of i rows = Some r" for r
  proof -
    have "r \<in> set rows \<and> s_id r = i" using that assms(1) by (simp add: row_of_iff)
    with None show ?thesis unfolding find_None_iff by blast
  qed
  ultimately show ?thesis by (simp add: get_session_def assms(2) split: option.split)
next
  case (Some r)
  with find_SomeD [OF this] assms(1) have "row_of i rows = Some r" "s_expires r > now" by (simp_all add: row_of_iff)
  with Some show ?thesis by (simp add: get_session_def assms(2))
qed

section \<open>The store as a map\<close>

text \<open>The operations as events; a \<open>set\<close> that raises leaves the table as it was.\<close>

datatype session_op =
    SetSession real string session_data real "string option" "string option"
  | DeleteSession string
  | CleanupSessions real
  | DeleteUser string

fun session_step :: "cipher \<Rightarrow> session_op \<Rightarrow> session list \<Rightarrow> session list" where
  "session_step f (SetSession now sid d ttl t u) rows =
     (case set_session f now sid d ttl t u rows of Inr rows' \<Rightarrow> rows' | Inl _ \<Rightarrow> rows)"
| "session_step f (DeleteSession sid) rows = snd (delete_session sid rows)"
| "session_step f (CleanupSessions now) rows = snd (cleanup_sessions now rows)"
| "session_step f (DeleteUser u) rows = snd (delete_all_for_user u rows)"

record entry =
  e_data :: session_data
  e_expires :: real
  e_user :: "string option"

type_synonym store = "string \<Rightarrow> entry option"

definition drop_where :: "(entry \<Rightarrow> bool) \<Rightarrow> store \<Rightarrow> store" where
  "drop_where P m = (\<lambda>i. case m i of Some x \<Rightarrow> if P x then None else Some x | None \<Rightarrow> None)"

fun store_step :: "session_op \<Rightarrow> store \<Rightarrow> store" where
  "store_step (SetSession now sid d ttl t u) m = (case sanitize_id sid of Inl _ \<Rightarrow> m
     | Inr i \<Rightarrow> m(i \<mapsto> \<lparr>e_data = d, e_expires = now + ttl, e_user = (case m i of Some x \<Rightarrow> e_user x | None \<Rightarrow> u)\<rparr>))"
| "store_step (DeleteSession sid) m = (case sanitize_id sid of Inl _ \<Rightarrow> m | Inr i \<Rightarrow> m(i := None))"
| "store_step (CleanupSessions now) m = drop_where (\<lambda>x. e_expires x < now) m"
| "store_step (DeleteUser u) m = (case sanitize_id u of Inl _ \<Rightarrow> m | Inr v \<Rightarrow> drop_where (\<lambda>x. e_user x = Some v) m)"

definition entry_of :: "cipher \<Rightarrow> session \<Rightarrow> entry" where
  "entry_of f r = \<lparr>e_data = decrypt_session_data f (s_data r), e_expires = s_expires r, e_user = s_user r\<rparr>"

definition store_of :: "cipher \<Rightarrow> session list \<Rightarrow> store" where
  "store_of f rows = (\<lambda>i. map_option (entry_of f) (row_of i rows))"

definition dict_op :: "session_op \<Rightarrow> bool" where
  "dict_op e = (case e of SetSession _ _ d _ _ _ \<Rightarrow> distinct (map fst d) | _ \<Rightarrow> True)"

lemma ids_unique_map: "(\<And>r. s_id (h r) = s_id r) \<Longrightarrow> ids_unique (map h rows) \<longleftrightarrow> ids_unique rows"
  by (simp add: ids_unique_def comp_def)

lemma ids_unique_append: "ids_unique (rows @ [r]) \<longleftrightarrow> ids_unique rows \<and> s_id r \<notin> s_id ` set rows"
  by (auto simp: ids_unique_def)

lemma ids_unique_filter: "ids_unique rows \<Longrightarrow> ids_unique (filter P rows)"
  by (simp add: ids_unique_def distinct_map_filter)

lemma set_unique:
  assumes "ids_unique rows" and "sanitize_id sid = Inr i"
  shows "set_session f now sid d ttl t u rows = Inr (case row_of i rows of
      Some _ \<Rightarrow> map (\<lambda>r. if s_id r = i then r\<lparr>s_data := encrypt_session_data f d, s_expires := now + ttl\<rparr> else r) rows
    | None \<Rightarrow> rows @ [\<lparr>s_id = i, s_data = encrypt_session_data f d, s_expires = now + ttl, s_tenant = t, s_user = u\<rparr>])"
  using assms by (simp add: set_session_def res_simps row_of_def split: option.split)

lemma step_unique:
  assumes "ids_unique rows"
  shows "ids_unique (session_step f e rows)"
proof (cases e)
  case (SetSession now sid d ttl t u)
  show ?thesis
  proof (cases "sanitize_id sid")
    case (Inl x)
    then show ?thesis using assms SetSession by (simp add: set_session_def res_simps)
  next
    case (Inr i)
    have "ids_unique (map (\<lambda>r. if s_id r = i then r\<lparr>s_data := x, s_expires := y\<rparr> else r) rows)" for x y
      using assms by (subst ids_unique_map) simp_all
    moreover have "i \<notin> s_id ` set rows" if "row_of i rows = None" using that by (simp add: row_of_None)
    ultimately show ?thesis
      using assms by (auto simp: SetSession set_unique [OF assms Inr] ids_unique_append split: option.split)
  qed
qed (use assms in \<open>auto simp: delete_session_def cleanup_sessions_def delete_all_for_user_def delete_where_def
    ids_unique_filter split: sum.split\<close>)

interpretation sessions: event_machine "session_step f" ids_unique for f
  by unfold_locales (rule step_unique)

lemma store_of_step:
  assumes ok: "ids_unique rows" and "cipher_ok f" and "dict_op e"
  shows "store_of f (session_step f e rows) = store_step e (store_of f rows)"
proof (cases e)
  case (SetSession now sid d ttl t u)
  then have data: "decrypt_session_data f (encrypt_session_data f d) = d"
    using assms by (simp add: dict_op_def decrypt_encrypt)
  show ?thesis
  proof (cases "sanitize_id sid")
    case (Inl x)
    then show ?thesis using SetSession by (simp add: set_session_def res_simps)
  next
    case (Inr i)
    show ?thesis
    proof (cases "row_of i rows")
      case None
      then show ?thesis
        by (auto simp: SetSession set_unique [OF ok Inr] Inr store_of_def row_of_append entry_of_def data fun_eq_iff
            split: option.split)
    next
      case (Some r)
      let ?h = "\<lambda>r. if s_id r = i then r\<lparr>s_data := encrypt_session_data f d, s_expires := now + ttl\<rparr> else r"
      have id: "s_id r' = k" if "row_of k rows = Some r'" for k r' using that ok by (simp add: row_of_iff)
      have "row_of k (map ?h rows) = map_option ?h (row_of k rows)" for k by (rule row_of_map) simp
      moreover have "map_option (entry_of f) (map_option ?h (row_of k rows)) =
          ((store_of f rows)(i \<mapsto> \<lparr>e_data = d, e_expires = now + ttl, e_user = s_user r\<rparr>)) k" for k
        using Some id by (cases "row_of k rows") (auto simp: store_of_def entry_of_def data)
      ultimately have "store_of f (map ?h rows) =
          (store_of f rows)(i \<mapsto> \<lparr>e_data = d, e_expires = now + ttl, e_user = s_user r\<rparr>)"
        by (simp only: store_of_def fun_eq_iff simp_thms)
      then show ?thesis
        using Some by (simp add: SetSession set_unique [OF ok Inr] Inr) (simp add: store_of_def entry_of_def)
    qed
  qed
next
  case (DeleteSession sid)
  have "s_id r' = k" if "row_of k rows = Some r'" for k r' using that ok by (simp add: row_of_iff)
  then show ?thesis
    by (auto simp: DeleteSession delete_session_def delete_where_def row_of_filter [OF ok] fun_eq_iff store_of_def
        split: sum.split option.split)
qed (auto simp: cleanup_sessions_def delete_all_for_user_def delete_where_def row_of_filter [OF ok] drop_where_def
    fun_eq_iff store_of_def entry_of_def split: sum.split option.split)

lemma store_of_fold:
  assumes "ids_unique rows" and "cipher_ok f" and "\<forall>e \<in> set es. dict_op e"
  shows "store_of f (fold (session_step f) es rows) = fold store_step es (store_of f rows)"
  using assms by (induction es arbitrary: rows) (simp_all add: store_of_step step_unique)

lemma get_session_store:
  "ids_unique rows \<Longrightarrow> sanitize_id sid = Inr i \<Longrightarrow> get_session f now sid rows =
    (case store_of f rows i of Some x \<Rightarrow> if e_expires x > now then Some (e_data x) else None | None \<Rightarrow> None)"
  by (simp add: get_session_row store_of_def entry_of_def split: option.split)

text \<open>
  C33: The session table implements a map from identifiers to entries: after any sequence of
  operations on a table with distinct identifiers, reading a session answers the decrypted data of
  the entry that the same operations leave in the map, exactly while it has not expired, provided
  the cipher decrypts what it encrypts; the identifiers stay distinct.
\<close>

theorem sessions_refine_store:
  assumes "ids_unique rows" and "cipher_ok f" and "\<forall>e \<in> set es. dict_op e" and "sanitize_id sid = Inr i"
  shows "get_session f now sid (fold (session_step f) es rows) =
    (case fold store_step es (store_of f rows) i of Some x \<Rightarrow> if e_expires x > now then Some (e_data x) else None
     | None \<Rightarrow> None) \<and> ids_unique (fold (session_step f) es rows)"
proof
  show unique: "ids_unique (fold (session_step f) es rows)" by (rule sessions.fold_inv [OF assms(1)])
  show "get_session f now sid (fold (session_step f) es rows) =
    (case fold store_step es (store_of f rows) i of Some x \<Rightarrow> if e_expires x > now then Some (e_data x) else None
     | None \<Rightarrow> None)"
    by (simp only: get_session_store [OF unique assms(4)] store_of_fold [OF assms(1-3)])
qed

section \<open>How long a session lives\<close>

text \<open>What leaves session \<open>i\<close> of user \<open>u\<close> alone until a time: no write or deletion of
  it, no deletion of the user's sessions, no cleanup with a later clock.\<close>

definition leaves_alone :: "string \<Rightarrow> string option \<Rightarrow> real \<Rightarrow> session_op \<Rightarrow> bool" where
  "leaves_alone i u clock e = (case e of
     SetSession _ sid _ _ _ _ \<Rightarrow> sanitize_id sid \<noteq> Inr i
   | DeleteSession sid \<Rightarrow> sanitize_id sid \<noteq> Inr i
   | CleanupSessions now \<Rightarrow> now \<le> clock
   | DeleteUser v \<Rightarrow> (case sanitize_id v of Inl _ \<Rightarrow> True | Inr w \<Rightarrow> u \<noteq> Some w))"

definition visible :: "real \<Rightarrow> entry option \<Rightarrow> session_data option" where
  "visible clock x = (case x of Some x \<Rightarrow> if e_expires x > clock then Some (e_data x) else None | None \<Rightarrow> None)"

lemma store_step_alone:
  assumes "leaves_alone i u clock e" and "case m i of Some x \<Rightarrow> e_user x = u | None \<Rightarrow> True"
  shows "visible clock (store_step e m i) = visible clock (m i)"
    and "case store_step e m i of Some x \<Rightarrow> e_user x = u | None \<Rightarrow> True"
  using assms
  by (cases e; auto simp: leaves_alone_def visible_def drop_where_def split: option.splits sum.splits)+

lemma store_fold_alone:
  assumes "\<forall>e \<in> set es. leaves_alone i u clock e" and "case m i of Some x \<Rightarrow> e_user x = u | None \<Rightarrow> True"
  shows "visible clock (fold store_step es m i) = visible clock (m i)"
  using assms
proof (induction es arbitrary: m)
  case (Cons e es)
  then show ?case using store_step_alone [of i u clock e m] by simp
qed simp

text \<open>
  A session that is set is read back, decrypted, until its time to live has passed and never
  afterwards, whatever happens to the other sessions in between.
\<close>

theorem session_lives:
  assumes "ids_unique rows" and "cipher_ok f" and "distinct (map fst d)" and "sanitize_id sid = Inr i"
    and "row_of i rows = None" and "\<forall>e \<in> set es. dict_op e \<and> leaves_alone i u clock e"
  shows "get_session f clock sid (fold (session_step f) (SetSession now sid d ttl t u # es) rows) =
    (if clock < now + ttl then Some d else None)"
proof -
  let ?e = "SetSession now sid d ttl t u"
  have unique: "ids_unique (fold (session_step f) (?e # es) rows)" by (rule sessions.fold_inv [OF assms(1)])
  have fresh: "store_of f rows i = None" using assms(5) by (simp add: store_of_def)
  have "get_session f clock sid (fold (session_step f) (?e # es) rows)
      = visible clock (store_of f (fold (session_step f) (?e # es) rows) i)"
    unfolding visible_def by (rule get_session_store [OF unique assms(4)])
  also have "store_of f (fold (session_step f) (?e # es) rows) = fold store_step (?e # es) (store_of f rows)"
    by (rule store_of_fold [OF assms(1,2)]) (use assms(3,6) in \<open>auto simp: dict_op_def\<close>)
  also have "visible clock (\<dots> i) = visible clock (store_step ?e (store_of f rows) i)"
    unfolding fold_simps by (rule store_fold_alone [where u = u]) (use assms(4,6) fresh in auto)
  also have "\<dots> = (if clock < now + ttl then Some d else None)"
    using fresh by (simp add: assms(4) visible_def)
  finally show ?thesis .
qed

definition ex_cipher :: cipher where
  "ex_cipher = Some (\<lambda>v. CHR ''$'' # v, \<lambda>v. case v of [] \<Rightarrow> None | c # cs \<Rightarrow> if c = CHR ''$'' then Some cs else None)"

definition ex_data :: session_data where
  "ex_data = [(''access_token'', JStr ''t0k''), (''sub'', JStr ''ann'')]"

definition ex_row :: session where
  "ex_row = \<lparr>s_id = ''s1'', s_data = encrypt_session_data ex_cipher ex_data, s_expires = 500, s_tenant = None, s_user = Some ''ann''\<rparr>"

lemma ex_cipher_ok: "cipher_ok ex_cipher"
  by (simp add: cipher_ok_def ex_cipher_def)

lemma ex_ids: "sanitize_id ''s1'' = Inr ''s1''" "sanitize_id ''s2'' = Inr ''s2''" "sanitize_id ''bob'' = Inr ''bob''"
  "sanitize_id ''ann'' = Inr ''ann''"
  by code_simp+

theorem sessions_refine_store_witness:
  "get_session ex_cipher 100 ''s1'' (fold (session_step ex_cipher) [DeleteUser ''bob'', CleanupSessions 90] [ex_row]) =
    (case fold store_step [DeleteUser ''bob'', CleanupSessions 90] (store_of ex_cipher [ex_row]) ''s1'' of
       Some x \<Rightarrow> if e_expires x > 100 then Some (e_data x) else None | None \<Rightarrow> None) \<and>
    ids_unique (fold (session_step ex_cipher) [DeleteUser ''bob'', CleanupSessions 90] [ex_row])"
  by (rule sessions_refine_store [OF _ ex_cipher_ok _ ex_ids(1)]) (simp_all add: ids_unique_def dict_op_def)

theorem session_lives_witness:
  "get_session ex_cipher 3000 ''s2'' (fold (session_step ex_cipher)
    (SetSession 0 ''s2'' ex_data 3600 None (Some ''bob'') # [CleanupSessions 2000, DeleteUser ''ann'']) [ex_row]) =
    (if (3000 :: real) < 0 + 3600 then Some ex_data else None)"
  by (rule session_lives [OF _ ex_cipher_ok _ ex_ids(2)])
    (auto simp: ids_unique_def ex_row_def ex_data_def row_of_def dict_op_def leaves_alone_def ex_ids)

section \<open>What the stores do not do\<close>

text \<open>Writing an existing session keeps its user: a session taken over by another user is not
  found when the sessions of that user are deleted.\<close>

lemma taken_over_session_survives_logout:
  "\<exists>rows. set_session None 0 ''s1'' ex_data 3600 None (Some ''bob'') [ex_row] = Inr rows \<and>
    get_session None 10 ''s1'' (snd (delete_all_for_user ''bob'' rows)) = Some ex_data"
  by (simp add: set_session_def res_simps ex_ids ex_row_def get_session_def delete_all_for_user_def delete_where_def
      encrypt_session_data_def decrypt_session_data_def)

text \<open>A token that the key does not open is handed out as it is stored.\<close>

lemma undecryptable_token_returned:
  "decrypt_session_data (Some (enc, \<lambda>_. None)) d = d"
proof -
  have "decrypt_field (\<lambda>_. None) k d = d" for k d
    by (auto simp: decrypt_field_def split: option.split json.split)
  then show ?thesis by (simp add: decrypt_session_data_def SENSITIVE_FIELDS_def)
qed

text \<open>Control characters inside an identifier stay, only null characters and blanks at the ends go.\<close>

lemma control_characters_kept: "sanitize_id [CHR ''a'', CHR 0x1B, CHR ''b''] = Inr [CHR ''a'', CHR 0x1B, CHR ''b'']"
  by code_simp

section \<open>Pending authorizations\<close>

lemma pending_lives:
  assumes "set_pending now st redirect cb nonce rows = Inr rows'" and "distinct (map p_state rows)"
  shows "distinct (map p_state rows')"
    and "get_pending t st rows' = (if t < now + 600
      then Some \<lparr>p_state = projr (sanitize_id st), p_redirect = redirect, p_callback = cb, p_nonce = nonce, p_created = now\<rparr>
      else None)"
proof -
  obtain i where i: "sanitize_id st = Inr i" and new: "i \<notin> p_state ` set rows"
    and rows': "rows' = rows @ [\<lparr>p_state = i, p_redirect = redirect, p_callback = cb, p_nonce = nonce, p_created = now\<rparr>]"
    using assms(1) by (auto simp: set_pending_def res_simps split: sum.splits if_splits)
  show "distinct (map p_state rows')" using assms(2) new by (auto simp: rows')
  have "find (\<lambda>r. p_state r = i \<and> P r) (rows @ [r]) = (if P r then Some r else None)" if "p_state r = i" for P r
    using new that by (induction rows) auto
  then show "get_pending t st rows' = (if t < now + 600
      then Some \<lparr>p_state = projr (sanitize_id st), p_redirect = redirect, p_callback = cb, p_nonce = nonce, p_created = now\<rparr>
      else None)"
    by (simp add: get_pending_def i rows' AUTH_TIMEOUT_MINUTES_def)
qed

lemma pending_used_once: "get_pending t st (snd (delete_pending st rows)) = None"
proof (cases "sanitize_id st")
  case (Inr i)
  have "find (\<lambda>r. p_state r = i \<and> P r) (filter (\<lambda>r. p_state r \<noteq> i) rows) = None" for P
    by (induction rows) simp_all
  then show ?thesis by (simp add: Inr get_pending_def delete_pending_def delete_where_def)
qed (simp add: get_pending_def)

end
