(* ===== verification/Csrf_Guard.thy ===== *)
theory Csrf_Guard
  imports Py_Collections
begin

text \<open>
  The CSRF middleware, \<^verbatim>\<open>src/openlabels/server/middleware/csrf.py\<close>. Header names are compared in
  lower case, as the framework does. Of \<open>urlparse\<close> the scheme and the network location are
  modelled; the check of a bracketed host is a parameter. The token generator of the response
  cookie is random and only whether the cookie is set, and securely, is kept.
\<close>

section \<open>Requests\<close>

record request =
  rq_method :: string
  rq_scheme :: string
  rq_netloc :: string
  rq_path :: string
  rq_headers :: "(string \<times> string) list"
  rq_cookies :: "(string \<times> string) list"

definition header :: "request \<Rightarrow> string \<Rightarrow> string option" where
  "header r name = map_of (map (\<lambda>(k, v). (str_lower k, v)) (rq_headers r)) (str_lower name)"

definition cookie :: "request \<Rightarrow> string \<Rightarrow> string option" where
  "cookie r name = map_of (rq_cookies r) name"

definition or_empty :: "string option \<Rightarrow> string" where
  "or_empty x = (case x of Some s \<Rightarrow> s | None \<Rightarrow> [])"

record csrf_settings =
  auth_provider :: string
  allowed_origins :: "string list"

section \<open>Network locations\<close>

definition scheme_char :: "char \<Rightarrow> bool" where
  "scheme_char c = (is_alnum c \<or> c \<in> set ''+-.'')"

definition url_clean :: "string \<Rightarrow> string" where
  "url_clean u = filter (\<lambda>c. c \<notin> {CHR 0x09, CHR 0x0A, CHR 0x0D}) (dropWhile (\<lambda>c. chr_code c \<le> 32) u)"

definition url_scheme_rest :: "string \<Rightarrow> string \<times> string" where
  "url_scheme_rest u = (let p = takeWhile (\<lambda>c. c \<noteq> CHR '':'') u
     in if p \<noteq> u \<and> p \<noteq> [] \<and> is_alpha (hd p) \<and> list_all scheme_char p
        then (str_lower p, drop (length p + 1) u) else ([], u))"

text \<open>\<open>None\<close> is the \<open>ValueError\<close> of an unbalanced or malformed bracketed host.\<close>

definition urlparse :: "(string \<Rightarrow> bool) \<Rightarrow> string \<Rightarrow> (string \<times> string) option" where
  "urlparse host_ok url = (let (scheme, rest) = url_scheme_rest (url_clean url) in
     if starts_with rest ''//'' then
       (let netloc = takeWhile (\<lambda>c. c \<notin> set ''/?#'') (drop 2 rest) in
        if (CHR ''['' \<in> set netloc) \<noteq> (CHR '']'' \<in> set netloc) then None
        else if CHR ''['' \<in> set netloc \<and> \<not> host_ok netloc then None
        else Some (scheme, netloc))
     else Some (scheme, []))"

definition origin_of :: "string \<Rightarrow> string \<Rightarrow> string" where
  "origin_of scheme netloc = scheme @ ''://'' @ netloc"

section \<open>The checks\<close>

definition CSRF_COOKIE_NAME :: string where "CSRF_COOKIE_NAME = ''openlabels_csrf''"
definition CSRF_HEADER_NAME :: string where "CSRF_HEADER_NAME = ''X-CSRF-Token''"

definition PROTECTED_METHODS :: "string list" where
  "PROTECTED_METHODS = [''POST'', ''PUT'', ''DELETE'', ''PATCH'']"

definition EXEMPT_PATHS :: "string list" where
  "EXEMPT_PATHS = [''/auth/callback'', ''/health'', ''/api/docs'', ''/api/redoc'', ''/api/openapi.json'']"

text \<open>\<open>None\<close> is the exception of a malformed referrer.\<close>

definition is_same_origin :: "(string \<Rightarrow> bool) \<Rightarrow> csrf_settings \<Rightarrow> request \<Rightarrow> bool option" where
  "is_same_origin host_ok st r =
     (let origin = or_empty (header r ''origin''); referer = or_empty (header r ''referer'');
          request_origin = origin_of (rq_scheme r) (rq_netloc r)
      in if origin \<noteq> [] then
           (if origin \<in> set (allowed_origins st) then Some True
            else if origin = request_origin then Some True else Some False)
         else if referer \<noteq> [] then
           (case urlparse host_ok referer of None \<Rightarrow> None
            | Some (scheme, netloc) \<Rightarrow>
                (let referer_origin = origin_of scheme netloc
                 in if referer_origin \<in> set (allowed_origins st) then Some True
                    else if referer_origin = request_origin then Some True else Some False))
         else Some False)"

text \<open>\<open>secrets.compare_digest\<close> takes texts of ASCII characters only: \<open>None\<close> is its \<open>TypeError\<close>.\<close>

definition ascii :: "string \<Rightarrow> bool" where
  "ascii s = list_all (\<lambda>c. chr_code c < 128) s"

definition compare_digest :: "string \<Rightarrow> string \<Rightarrow> bool option" where
  "compare_digest a b = (if ascii a \<and> ascii b then Some (a = b) else None)"

definition validate_csrf_token :: "request \<Rightarrow> bool option" where
  "validate_csrf_token r =
     (let cookie_token = or_empty (cookie r CSRF_COOKIE_NAME); header_token = or_empty (header r CSRF_HEADER_NAME)
      in if cookie_token = [] \<or> header_token = [] then Some False else compare_digest cookie_token header_token)"

datatype csrf_outcome =
    Forward "bool option"
  | Forbidden string
  | RefererError
  | TokenError

definition csrf_cookie :: "request \<Rightarrow> bool option" where
  "csrf_cookie r = (if rq_method r = ''GET'' \<and> cookie r CSRF_COOKIE_NAME = None
     then Some (rq_scheme r = ''https'' \<or> header r ''x-forwarded-proto'' = Some ''https'') else None)"

definition csrf_dispatch :: "(string \<Rightarrow> bool) \<Rightarrow> csrf_settings \<Rightarrow> request \<Rightarrow> csrf_outcome" where
  "csrf_dispatch host_ok st r =
     (if auth_provider st = ''none'' then Forward (csrf_cookie r)
      else if rq_method r \<notin> set PROTECTED_METHODS then Forward (csrf_cookie r)
      else if rq_path r \<in> set EXEMPT_PATHS then Forward None
      else if str_lower (or_empty (header r ''upgrade'')) = ''websocket'' then Forward None
      else case is_same_origin host_ok st r of
          None \<Rightarrow> RefererError
        | Some False \<Rightarrow> Forbidden ''CSRF validation failed: invalid origin''
        | Some True \<Rightarrow>
            (case validate_csrf_token r of
               None \<Rightarrow> TokenError
             | Some valid \<Rightarrow>
                 (if \<not> valid \<and> \<not> starts_with (or_empty (header r ''authorization'')) ''Bearer ''
                  then Forbidden ''CSRF validation failed: missing or invalid token''
                  else Forward None)))"

section \<open>What reaches the application\<close>

text \<open>A request is guarded when it may change state under authentication.\<close>

definition guarded :: "csrf_settings \<Rightarrow> request \<Rightarrow> bool" where
  "guarded st r = (auth_provider st \<noteq> ''none'' \<and> rq_method r \<in> set PROTECTED_METHODS \<and> rq_path r \<notin> set EXEMPT_PATHS \<and>
     str_lower (or_empty (header r ''upgrade'')) \<noteq> ''websocket'')"

text \<open>The origin a request claims: its origin header, else that of its referrer.\<close>

definition claimed_origin :: "(string \<Rightarrow> bool) \<Rightarrow> request \<Rightarrow> string option" where
  "claimed_origin host_ok r = (if or_empty (header r ''origin'') \<noteq> [] then header r ''origin''
     else if or_empty (header r ''referer'') = [] then None
     else map_option (\<lambda>(s, n). origin_of s n) (urlparse host_ok (or_empty (header r ''referer''))))"

lemma same_origin_claimed:
  "is_same_origin host_ok st r = Some True \<longleftrightarrow>
    (\<exists>p. claimed_origin host_ok r = Some p \<and> p \<in> insert (origin_of (rq_scheme r) (rq_netloc r)) (set (allowed_origins st)))"
  by (auto simp: is_same_origin_def claimed_origin_def Let_def or_empty_def split: option.splits if_splits)

text \<open>Both tokens are there and one of them has a character that \<open>compare_digest\<close> does not take.\<close>

definition unreadable_tokens :: "request \<Rightarrow> bool" where
  "unreadable_tokens r = (\<exists>a b. cookie r CSRF_COOKIE_NAME = Some a \<and> header r CSRF_HEADER_NAME = Some b \<and>
     a \<noteq> [] \<and> b \<noteq> [] \<and> \<not> (ascii a \<and> ascii b))"

lemma valid_token_iff:
  "validate_csrf_token r = Some True \<longleftrightarrow>
    (\<exists>tok. tok \<noteq> [] \<and> ascii tok \<and> cookie r CSRF_COOKIE_NAME = Some tok \<and> header r CSRF_HEADER_NAME = Some tok)"
  by (auto simp: validate_csrf_token_def compare_digest_def Let_def or_empty_def split: option.splits)

lemma token_error_iff: "validate_csrf_token r = None \<longleftrightarrow> unreadable_tokens r"
  by (auto simp: validate_csrf_token_def compare_digest_def unreadable_tokens_def Let_def or_empty_def split: option.splits)

text \<open>
  C36: The middleware hands a guarded request on exactly when the origin it claims is an allowed
  origin or the server's own, and it either presents one token, of ASCII characters, both as cookie
  and as header, or authenticates by bearer token and does not present two tokens of which
  one has another character: on those the comparison raises an exception, and the request ends in it.
  Every other request is handed on, with a fresh cookie exactly on a reading request outside
  the exempt paths that has none.
\<close>

theorem csrf_forwards_exactly:
  "csrf_dispatch host_ok st r = Forward c \<longleftrightarrow>
    (if guarded st r then
       c = None \<and>
       (\<exists>p. claimed_origin host_ok r = Some p \<and>
          p \<in> insert (origin_of (rq_scheme r) (rq_netloc r)) (set (allowed_origins st))) \<and>
       ((\<exists>tok. tok \<noteq> [] \<and> ascii tok \<and> cookie r CSRF_COOKIE_NAME = Some tok \<and> header r CSRF_HEADER_NAME = Some tok) \<or>
        (starts_with (or_empty (header r ''authorization'')) ''Bearer '' \<and> \<not> unreadable_tokens r))
     else c = (if auth_provider st \<noteq> ''none'' \<and> rq_method r \<in> set PROTECTED_METHODS then None else csrf_cookie r))"
  unfolding same_origin_claimed [symmetric] valid_token_iff [symmetric] token_error_iff [symmetric]
  by (auto simp: csrf_dispatch_def guarded_def split: option.split bool.split)

text \<open>A page of another site that makes the browser send a guarded request is refused, whatever
  tokens the request carries.\<close>

lemma forged_request_refused:
  assumes "guarded st r" and "header r ''origin'' = Some site" and "site \<noteq> []"
    and "site \<notin> set (allowed_origins st)" and "site \<noteq> origin_of (rq_scheme r) (rq_netloc r)"
  shows "csrf_dispatch host_ok st r = Forbidden ''CSRF validation failed: invalid origin''"
  using assms by (simp add: csrf_dispatch_def guarded_def is_same_origin_def or_empty_def)

text \<open>A request of the own origin that presents a token with an accented letter, also one with a bearer token, is
  answered by an unhandled exception.\<close>

lemma non_ascii_token_raises:
  assumes "guarded st r" and "header r ''origin'' = Some (origin_of (rq_scheme r) (rq_netloc r))"
    and "unreadable_tokens r"
  shows "csrf_dispatch host_ok st r = TokenError"
proof -
  have "is_same_origin host_ok st r = Some True"
    using assms(2) by (simp add: is_same_origin_def or_empty_def origin_of_def Let_def)
  then show ?thesis using assms token_error_iff [of r] by (simp add: csrf_dispatch_def guarded_def)
qed

text \<open>A referrer with an unbalanced bracket is answered by an unhandled exception.\<close>

definition bracket_request :: request where
  "bracket_request = \<lparr>rq_method = ''POST'', rq_scheme = ''https'', rq_netloc = ''x.org'', rq_path = ''/api/v1/jobs'',
     rq_headers = [(''referer'', ''https://['')], rq_cookies = []\<rparr>"

lemma malformed_referer_raises:
  "csrf_dispatch host_ok \<lparr>auth_provider = ''oidc'', allowed_origins = []\<rparr> bracket_request = RefererError"
proof -
  have "url_scheme_rest (url_clean ''https://['') = (''https'', ''//['')" by code_simp
  moreover have "starts_with ''//['' ''//''" by code_simp
  ultimately have parse: "urlparse host_ok ''https://['' = None" by (simp add: urlparse_def)
  have "header bracket_request ''origin'' = None" "header bracket_request ''referer'' = Some ''https://[''"
    "header bracket_request ''upgrade'' = None" "rq_method bracket_request \<in> set PROTECTED_METHODS"
    "rq_path bracket_request \<notin> set EXEMPT_PATHS" "str_lower [] \<noteq> ''websocket''" by code_simp+
  then show ?thesis by (simp add: csrf_dispatch_def is_same_origin_def or_empty_def parse)
qed

end
