(* ===== verification/Pagination.thy ===== *)
theory Pagination
  imports Py_Collections
begin

text \<open>
  Pagination: keyset pages with base64 cursors, \<^verbatim>\<open>src/openlabels/server/pagination.py\<close>, and
  pages by number and with signed cursors, \<^verbatim>\<open>src/openlabels/server/schemas/pagination.py\<close>. The
  rows of a query are a list. Base64, JSON text, the text forms of identifiers and times, and the
  message authentication code are parameters.
\<close>

section \<open>Cursors\<close>

record ('i, 't) codec =
  b64_encode :: "string \<Rightarrow> string"
  b64_decode :: "string \<Rightarrow> string option"
  json_dumps :: "json \<Rightarrow> string"
  json_loads :: "string \<Rightarrow> json option"
  id_str :: "'i \<Rightarrow> string"
  id_parse :: "string \<Rightarrow> 'i option"
  ts_iso :: "'t \<Rightarrow> string"
  ts_parse :: "string \<Rightarrow> 't option"

definition encode_cursor :: "('i, 't) codec \<Rightarrow> 'i \<Rightarrow> 't \<Rightarrow> string" where
  "encode_cursor c i t = b64_encode c (json_dumps c (JObj [(''id'', JStr (id_str c i)), (''ts'', JStr (ts_iso c t))]))"

text \<open>A field of the decoded object that is missing, empty or not a text ends in \<open>None\<close>, by a
  test or by a caught exception.\<close>

definition text_field :: "string \<Rightarrow> json \<Rightarrow> string option" where
  "text_field k j = (case j of
     JObj d \<Rightarrow> (case map_of d k of Some (JStr s) \<Rightarrow> if s = [] then None else Some s | _ \<Rightarrow> None)
   | _ \<Rightarrow> None)"

definition decode_cursor :: "('i, 't) codec \<Rightarrow> string \<Rightarrow> ('i \<times> 't) option" where
  "decode_cursor c cursor = (if cursor = [] then None else
     Option.bind (b64_decode c cursor) (\<lambda>s.
     Option.bind (json_loads c s) (\<lambda>j.
     Option.bind (text_field ''id'' j) (\<lambda>is.
     Option.bind (text_field ''ts'' j) (\<lambda>tss.
     Option.bind (id_parse c is) (\<lambda>i.
     Option.bind (ts_parse c tss) (\<lambda>t. Some (i, t))))))))"

definition decode_params :: "('i, 't) codec \<Rightarrow> string option \<Rightarrow> ('i \<times> 't) option" where
  "decode_params c cursor = (case cursor of None \<Rightarrow> None | Some s \<Rightarrow> if s = [] then None else decode_cursor c s)"

section \<open>Keyset pages\<close>

record 'a page =
  pg_items :: "'a list"
  pg_next :: "string option"
  pg_more :: bool

definition newest_first :: "('a \<Rightarrow> 't::linorder) \<Rightarrow> ('a \<Rightarrow> 'i::linorder) \<Rightarrow> 'a list \<Rightarrow> 'a list" where
  "newest_first ts ident rows = rev (sort_key (\<lambda>r. (ts r, ident r)) rows)"

definition before_cursor :: "('a \<Rightarrow> 't::linorder) \<Rightarrow> ('a \<Rightarrow> 'i::linorder) \<Rightarrow> 'i \<times> 't \<Rightarrow> 'a \<Rightarrow> bool" where
  "before_cursor ts ident cur r = (case cur of (i, t) \<Rightarrow> ts r < t \<or> (ts r = t \<and> ident r < i))"

definition apply_cursor_pagination ::
  "('i, 't) codec \<Rightarrow> ('a \<Rightarrow> 't::linorder) \<Rightarrow> ('a \<Rightarrow> 'i::linorder) \<Rightarrow> nat \<Rightarrow> string option \<Rightarrow> 'a list \<Rightarrow> 'a page" where
  "apply_cursor_pagination c ts ident limit cursor rows =
     (let query = (case decode_params c cursor of
            Some cur \<Rightarrow> filter (before_cursor ts ident cur) rows | None \<Rightarrow> rows);
          items = take (limit + 1) (newest_first ts ident query);
          has_more = length items > limit;
          items = (if has_more then take limit items else items);
          next_cursor = (if has_more \<and> items \<noteq> []
            then Some (encode_cursor c (ident (last items)) (ts (last items))) else None)
      in \<lparr>pg_items = items, pg_next = next_cursor, pg_more = has_more\<rparr>)"

text \<open>A client that follows the cursors to the end: the pages, or \<open>None\<close> when they do not
  end within the given number. The table may change between two requests.\<close>

fun walk :: "nat \<Rightarrow> (string option \<Rightarrow> 'a list \<Rightarrow> 'a page) \<Rightarrow> (nat \<Rightarrow> 'a list) \<Rightarrow> nat \<Rightarrow> string option \<Rightarrow> 'a list list option" where
  "walk 0 fetch T k cur = None"
| "walk (Suc n) fetch T k cur = (let p = fetch cur (T k) in
     case pg_next p of None \<Rightarrow> Some [pg_items p]
     | Some c \<Rightarrow> map_option (Cons (pg_items p)) (walk n fetch T (Suc k) (Some c)))"

section \<open>The promise of a pager\<close>

definition below :: "(string \<Rightarrow> 'k::linorder) \<Rightarrow> ('a \<Rightarrow> 'k) \<Rightarrow> string option \<Rightarrow> 'a \<Rightarrow> bool" where
  "below pos key cur r = (case cur of None \<Rightarrow> True | Some c \<Rightarrow> key r < pos c)"

lemma below_simps [simp]: "below pos key None r" "below pos key (Some c) r \<longleftrightarrow> key r < pos c"
  by (simp_all add: below_def)

text \<open>A page answers the rows below the cursor from the greatest down, and the next cursor stands at
  its last row.\<close>

locale pager =
  fixes fetch :: "string option \<Rightarrow> 'a list \<Rightarrow> 'a page" and key :: "'a \<Rightarrow> 'k::linorder"
    and pos :: "string \<Rightarrow> 'k" and valid :: "string \<Rightarrow> bool" and ok :: "'a list \<Rightarrow> bool"
  assumes page_content: "ok rows \<Longrightarrow> pred_option valid cur \<Longrightarrow>
      sorted_wrt (\<lambda>x y. key y < key x) (pg_items (fetch cur rows)) \<and>
      set (pg_items (fetch cur rows)) \<subseteq> {r \<in> set rows. below pos key cur r}"
    and page_last: "ok rows \<Longrightarrow> pred_option valid cur \<Longrightarrow> pg_next (fetch cur rows) = None \<Longrightarrow>
      {r \<in> set rows. below pos key cur r} \<subseteq> set (pg_items (fetch cur rows))"
    and page_next: "ok rows \<Longrightarrow> pred_option valid cur \<Longrightarrow> pg_next (fetch cur rows) = Some c \<Longrightarrow>
      valid c \<and> pg_items (fetch cur rows) \<noteq> [] \<and> pos c = key (last (pg_items (fetch cur rows))) \<and>
      {r \<in> set rows. below pos key cur r \<and> pos c \<le> key r} \<subseteq> set (pg_items (fetch cur rows))"
begin

lemma walk_content:
  assumes "\<And>k. ok (T k)" and "pred_option valid cur" and "walk n fetch T k cur = Some ps"
  shows "sorted_wrt (\<lambda>x y. key y < key x) (concat ps) \<and> (\<forall>r \<in> set (concat ps). below pos key cur r)"
  using assms(2,3)
proof (induction n arbitrary: k cur ps)
  case (Suc n)
  note page = page_content [OF assms(1) [of k] Suc.prems(1)]
  show ?case
  proof (cases "pg_next (fetch cur (T k))")
    case None
    then show ?thesis using Suc.prems page by auto
  next
    case (Some c)
    then obtain qs where qs: "walk n fetch T (Suc k) (Some c) = Some qs" "ps = pg_items (fetch cur (T k)) # qs"
      using Suc.prems(2) by (auto simp: Let_def)
    have nx: "valid c" "pg_items (fetch cur (T k)) \<noteq> []" "pos c = key (last (pg_items (fetch cur (T k))))"
      using page_next [OF assms(1) Suc.prems(1) Some] by auto
    have IH: "sorted_wrt (\<lambda>x y. key y < key x) (concat qs)" "\<forall>r \<in> set (concat qs). key r < pos c"
      using Suc.IH [of "Some c" "Suc k" qs] nx(1) qs(1) by auto
    have le: "pos c \<le> key r" if "r \<in> set (pg_items (fetch cur (T k)))" for r
    proof -
      obtain xs x where xs: "pg_items (fetch cur (T k)) = xs @ [x]" using nx(2) by (meson rev_exhaust)
      then show ?thesis using that page nx(3) by (auto simp: sorted_wrt_append less_imp_le)
    qed
    have "below pos key cur (last (pg_items (fetch cur (T k))))" using page nx(2) last_in_set by blast
    then have up: "below pos key cur r" if "key r < pos c" for r
      using that nx(3) by (auto simp: below_def split: option.splits)
    show ?thesis
      using page IH le up qs(2) by (fastforce simp: sorted_wrt_append)
  qed
qed simp

lemma walk_subset:
  assumes "ok rows" and "pred_option valid cur" and "walk n fetch (\<lambda>_. rows) k cur = Some ps"
  shows "set (concat ps) \<subseteq> set rows"
  using assms(2,3)
proof (induction n arbitrary: k cur ps)
  case (Suc n)
  note page = page_content [OF assms(1) Suc.prems(1)]
  show ?case
  proof (cases "pg_next (fetch cur rows)")
    case (Some c)
    then obtain qs where qs: "walk n fetch (\<lambda>_. rows) (Suc k) (Some c) = Some qs" "ps = pg_items (fetch cur rows) # qs"
      using Suc.prems(2) by (auto simp: Let_def)
    have "set (concat qs) \<subseteq> set rows"
      by (rule Suc.IH [OF _ qs(1)]) (use page_next [OF assms(1) Suc.prems(1) Some] in simp)
    with page qs(2) show ?thesis by auto
  qed (use Suc.prems page in auto)
qed simp

lemma walk_complete:
  assumes "\<And>k. ok (T k)" and "pred_option valid cur" and "walk n fetch T k cur = Some ps"
    and "\<And>j. j < length ps \<Longrightarrow> r \<in> set (T (k + j))" and "below pos key cur r"
  shows "r \<in> set (concat ps)"
  using assms(2-)
proof (induction n arbitrary: k cur ps)
  case (Suc n)
  show ?case
  proof (cases "pg_next (fetch cur (T k))")
    case None
    then have "ps = [pg_items (fetch cur (T k))]" using Suc.prems(2) by simp
    then show ?thesis
      using page_last [OF assms(1) Suc.prems(1) None] Suc.prems(3) [of 0] Suc.prems(4) by auto
  next
    case (Some c)
    then obtain qs where qs: "walk n fetch T (Suc k) (Some c) = Some qs" "ps = pg_items (fetch cur (T k)) # qs"
      using Suc.prems(2) by (auto simp: Let_def)
    note nx = page_next [OF assms(1) Suc.prems(1) Some]
    show ?thesis
    proof (cases "key r < pos c")
      case True
      have later: "r \<in> set (T (Suc k + j))" if "j < length qs" for j
        using Suc.prems(3) [of "Suc j"] that qs(2) by simp
      have "r \<in> set (concat qs)"
        by (rule Suc.IH [OF _ qs(1) later]) (use nx True in auto)
      then show ?thesis using qs(2) by simp
    next
      case False
      then have "r \<in> set (pg_items (fetch cur (T k)))"
        using nx Suc.prems(3) [of 0] Suc.prems(4) qs(2) by auto
      then show ?thesis using qs(2) by simp
    qed
  qed
qed simp

lemma walk_returns:
  assumes "\<And>k. ok (T k)" and "\<And>k. set (T k) \<subseteq> set all_rows" and "pred_option valid cur"
    and "length (filter (below pos key cur) all_rows) < n"
  shows "\<exists>ps. walk n fetch T k cur = Some ps"
  using assms(3,4)
proof (induction n arbitrary: k cur)
  case (Suc n)
  show ?case
  proof (cases "pg_next (fetch cur (T k))")
    case (Some c)
    note nx = page_next [OF assms(1) Suc.prems(1) Some]
    let ?l = "last (pg_items (fetch cur (T k)))"
    have l: "?l \<in> set all_rows" "below pos key cur ?l"
      using page_content [OF assms(1) [of k] Suc.prems(1)] assms(2) [of k] nx last_in_set by blast+
    have up: "below pos key cur r" if "key r < pos c" for r
      using that l(2) nx by (auto simp: below_def split: option.splits)
    have "length (filter (below pos key (Some c)) all_rows) < length (filter (below pos key cur) all_rows)"
    proof -
      have "filter (below pos key (Some c)) all_rows = filter (below pos key (Some c)) (filter (below pos key cur) all_rows)"
        using up by (auto intro!: filter_cong)
      also have "length \<dots> < length (filter (below pos key cur) all_rows)"
        by (rule length_filter_less [of ?l]) (use l nx in auto)
      finally show ?thesis .
    qed
    then have less: "length (filter (below pos key (Some c)) all_rows) < n" using Suc.prems(2) by linarith
    have "pred_option valid (Some c)" using nx by simp
    then have "\<exists>ps. walk n fetch T (Suc k) (Some c) = Some ps" using less by (rule Suc.IH)
    then show ?thesis using Some by auto
  qed simp
qed simp

end

section \<open>Keyset pages keep the promise\<close>

abbreviation keyset :: "('a \<Rightarrow> 't) \<Rightarrow> ('a \<Rightarrow> 'i) \<Rightarrow> 'a \<Rightarrow> 't \<times> 'i" where
  "keyset ts ident r \<equiv> (ts r, ident r)"

definition cursor_pos :: "('i, 't) codec \<Rightarrow> string \<Rightarrow> 't \<times> 'i" where
  "cursor_pos c s = prod.swap (the (decode_cursor c s))"

definition readable :: "('i, 't) codec \<Rightarrow> ('a \<Rightarrow> 't) \<Rightarrow> ('a \<Rightarrow> 'i) \<Rightarrow> 'a \<Rightarrow> bool" where
  "readable c ts ident r \<longleftrightarrow> decode_cursor c (encode_cursor c (ident r) (ts r)) = Some (ident r, ts r)"

definition pageable :: "('i, 't) codec \<Rightarrow> ('a \<Rightarrow> 't) \<Rightarrow> ('a \<Rightarrow> 'i) \<Rightarrow> nat \<Rightarrow> 'a list \<Rightarrow> bool" where
  "pageable c ts ident limit rows \<longleftrightarrow> 0 < limit \<and> distinct (map (keyset ts ident) rows) \<and> list_all (readable c ts ident) rows"

lemma before_cursor_iff: "before_cursor ts ident (i, t) r \<longleftrightarrow> keyset ts ident r < (t, i)"
  by (auto simp: before_cursor_def less_prod_def)

lemma set_newest_first [simp]: "set (newest_first ts ident rows) = set rows"
  by (simp add: newest_first_def)

lemma length_newest_first [simp]: "length (newest_first ts ident rows) = length rows"
  by (simp add: newest_first_def)

lemma newest_first_sorted:
  assumes "distinct (map (keyset ts ident) rows)"
  shows "sorted_wrt (\<lambda>x y. keyset ts ident y < keyset ts ident x) (newest_first ts ident rows)"
proof -
  have "distinct (map (keyset ts ident) (sort_key (keyset ts ident) rows))"
    using assms by (simp add: distinct_map)
  then have "sorted_wrt (<) (map (keyset ts ident) (sort_key (keyset ts ident) rows))"
    by (simp only: strict_sorted_iff sorted_sort_key)
  then show ?thesis by (simp add: newest_first_def sorted_wrt_rev sorted_wrt_map)
qed

text \<open>The rows a cursor selects, greatest first.\<close>

definition selected :: "('i, 't) codec \<Rightarrow> ('a \<Rightarrow> 't::linorder) \<Rightarrow> ('a \<Rightarrow> 'i::linorder) \<Rightarrow> string option \<Rightarrow> 'a list \<Rightarrow> 'a list" where
  "selected c ts ident cur rows = newest_first ts ident (filter (below (cursor_pos c) (keyset ts ident) cur) rows)"

lemma page_selected:
  assumes "pred_option (\<lambda>s. decode_cursor c s \<noteq> None) cur"
  shows "pg_items (apply_cursor_pagination c ts ident limit cur rows) = take limit (selected c ts ident cur rows)"
    and "pg_next (apply_cursor_pagination c ts ident limit cur rows) =
      (if limit < length (selected c ts ident cur rows) \<and> take limit (selected c ts ident cur rows) \<noteq> [] then
         (let l = last (take limit (selected c ts ident cur rows)) in Some (encode_cursor c (ident l) (ts l))) else None)"
proof -
  have "(case decode_params c cur of Some cur \<Rightarrow> filter (before_cursor ts ident cur) rows | None \<Rightarrow> rows)
      = filter (below (cursor_pos c) (keyset ts ident) cur) rows"
  proof (cases cur)
    case (Some s)
    then obtain i t where it: "decode_cursor c s = Some (i, t)" using assms by auto
    moreover have "s \<noteq> []" using it by (auto simp: decode_cursor_def)
    ultimately show ?thesis
      by (simp add: Some decode_params_def cursor_pos_def before_cursor_iff below_def cong: filter_cong)
  qed (simp add: decode_params_def)
  then show "pg_items (apply_cursor_pagination c ts ident limit cur rows) = take limit (selected c ts ident cur rows)"
    and "pg_next (apply_cursor_pagination c ts ident limit cur rows) =
      (if limit < length (selected c ts ident cur rows) \<and> take limit (selected c ts ident cur rows) \<noteq> [] then
         (let l = last (take limit (selected c ts ident cur rows)) in Some (encode_cursor c (ident l) (ts l))) else None)"
    by (auto simp: apply_cursor_pagination_def selected_def Let_def min_def)
qed

lemma selected_split:
  assumes "pageable c ts ident limit rows" and "limit < length (selected c ts ident cur rows)"
    and "l = last (take limit (selected c ts ident cur rows))"
  shows "take limit (selected c ts ident cur rows) \<noteq> []" and "l \<in> set rows"
    and "{r \<in> set rows. below (cursor_pos c) (keyset ts ident) cur r \<and> keyset ts ident l \<le> keyset ts ident r}
      \<subseteq> set (take limit (selected c ts ident cur rows))"
proof -
  let ?L = "selected c ts ident cur rows"
  show ne: "take limit ?L \<noteq> []" using assms(1,2) by (auto simp: pageable_def)
  then have l: "l \<in> set (take limit ?L)" using assms(3) last_in_set by blast
  then have "l \<in> set ?L" by (rule in_set_takeD)
  then show "l \<in> set rows" by (simp add: selected_def)
  have "sorted_wrt (\<lambda>x y. keyset ts ident y < keyset ts ident x) (take limit ?L @ drop limit ?L)"
    unfolding append_take_drop_id selected_def
    using assms(1) by (intro newest_first_sorted) (simp add: pageable_def distinct_map_filter)
  then have "keyset ts ident r < keyset ts ident l" if "r \<in> set (drop limit ?L)" for r
    using that l unfolding sorted_wrt_append by blast
  moreover have "set ?L = {r \<in> set rows. below (cursor_pos c) (keyset ts ident) cur r}"
    by (auto simp: selected_def)
  moreover have "set ?L = set (take limit ?L) \<union> set (drop limit ?L)"
    by (metis append_take_drop_id set_append)
  ultimately show "{r \<in> set rows. below (cursor_pos c) (keyset ts ident) cur r \<and> keyset ts ident l \<le> keyset ts ident r}
      \<subseteq> set (take limit ?L)"
    by (auto simp: not_le [symmetric])
qed

interpretation keyset: pager "apply_cursor_pagination c ts ident limit" "keyset ts ident" "cursor_pos c"
    "\<lambda>s. decode_cursor c s \<noteq> None" "pageable c ts ident limit" for c ts ident limit
proof unfold_locales
  fix rows cur
  assume ok: "pageable c ts ident limit rows" and val: "pred_option (\<lambda>s. decode_cursor c s \<noteq> None) cur"
  let ?L = "selected c ts ident cur rows"
  have setL: "set ?L = {r \<in> set rows. below (cursor_pos c) (keyset ts ident) cur r}"
    by (auto simp: selected_def)
  have "sorted_wrt (\<lambda>x y. keyset ts ident y < keyset ts ident x) ?L"
    unfolding selected_def using ok by (intro newest_first_sorted) (simp add: pageable_def distinct_map_filter)
  then show "sorted_wrt (\<lambda>x y. keyset ts ident y < keyset ts ident x)
      (pg_items (apply_cursor_pagination c ts ident limit cur rows)) \<and>
    set (pg_items (apply_cursor_pagination c ts ident limit cur rows))
      \<subseteq> {r \<in> set rows. below (cursor_pos c) (keyset ts ident) cur r}"
    unfolding page_selected(1) [OF val] setL [symmetric] by (simp add: sorted_wrt_take set_take_subset)
  show "{r \<in> set rows. below (cursor_pos c) (keyset ts ident) cur r}
      \<subseteq> set (pg_items (apply_cursor_pagination c ts ident limit cur rows))"
    if "pg_next (apply_cursor_pagination c ts ident limit cur rows) = None"
  proof -
    have "length ?L \<le> limit"
      using that ok selected_split(1) [OF ok, of cur] unfolding page_selected(2) [OF val]
      by (auto simp: Let_def not_less split: if_splits)
    then show ?thesis unfolding page_selected(1) [OF val] by (simp add: setL)
  qed
  show "decode_cursor c s \<noteq> None \<and> pg_items (apply_cursor_pagination c ts ident limit cur rows) \<noteq> [] \<and>
      cursor_pos c s = keyset ts ident (last (pg_items (apply_cursor_pagination c ts ident limit cur rows))) \<and>
      {r \<in> set rows. below (cursor_pos c) (keyset ts ident) cur r \<and> cursor_pos c s \<le> keyset ts ident r}
        \<subseteq> set (pg_items (apply_cursor_pagination c ts ident limit cur rows))"
    if "pg_next (apply_cursor_pagination c ts ident limit cur rows) = Some s" for s
  proof -
    let ?l = "last (take limit ?L)"
    have s: "limit < length ?L" "s = encode_cursor c (ident ?l) (ts ?l)"
      using that unfolding page_selected(2) [OF val] by (auto simp: Let_def split: if_splits)
    note split = selected_split [OF ok s(1) refl]
    have "decode_cursor c s = Some (ident ?l, ts ?l)"
      using ok split(2) s(2) by (simp add: pageable_def readable_def list_all_iff)
    then show ?thesis
      using split(1,3) unfolding page_selected(1) [OF val] by (simp add: cursor_pos_def)
  qed
qed

lemma sorted_wrt_greater_unique:
  fixes f :: "'a \<Rightarrow> 'k::linorder"
  assumes "sorted_wrt (\<lambda>x y. f y < f x) xs" and "sorted_wrt (\<lambda>x y. f y < f x) ys" and "set xs = set ys"
  shows "xs = ys"
proof -
  have "sorted_wrt (\<lambda>x y. f x < f y) (rev zs) \<Longrightarrow> sorted_wrt (<) (map f (rev zs))" for zs
    by (simp add: sorted_wrt_map)
  then have strict: "sorted_wrt (<) (map f (rev xs))" "sorted_wrt (<) (map f (rev ys))"
    using assms(1,2) by (simp_all add: sorted_wrt_rev)
  have "set (map f (rev xs)) = set (map f (rev ys))" using assms(3) by simp
  with strict have "map f (rev xs) = map f (rev ys)" by (intro strict_sorted_equal) simp_all
  moreover have "inj_on f (set (rev xs) \<union> set (rev ys))"
    using strict(1) assms(3) by (simp add: strict_sorted_iff distinct_map)
  ultimately have "rev xs = rev ys" by (rule map_inj_on)
  then show ?thesis by simp
qed

text \<open>
  C34: Following the cursors over a table that does not change ends within one request more than
  the table has rows, and the pages joined are the table, newest first.
\<close>

theorem keyset_walk_exact:
  assumes "pageable c ts ident limit rows"
  shows "\<exists>ps. walk (length rows + 1) (apply_cursor_pagination c ts ident limit) (\<lambda>_. rows) 0 None = Some ps \<and>
    concat ps = newest_first ts ident rows"
proof -
  obtain ps where ps: "walk (length rows + 1) (apply_cursor_pagination c ts ident limit) (\<lambda>_. rows) 0 None = Some ps"
    using keyset.walk_returns [OF assms subset_refl, where cur = None and n = "length rows + 1" and k = 0] by auto
  have sorted: "sorted_wrt (\<lambda>x y. keyset ts ident y < keyset ts ident x) (concat ps)"
    using keyset.walk_content [OF assms _ ps] by simp
  have "set (concat ps) = set rows"
  proof
    show "set rows \<subseteq> set (concat ps)" using keyset.walk_complete [OF assms _ ps] by auto
    show "set (concat ps) \<subseteq> set rows" by (rule keyset.walk_subset [OF assms _ ps]) simp
  qed
  moreover have "sorted_wrt (\<lambda>x y. keyset ts ident y < keyset ts ident x) (newest_first ts ident rows)"
    using assms by (intro newest_first_sorted) (simp add: pageable_def)
  ultimately have "concat ps = newest_first ts ident rows"
    using sorted by (intro sorted_wrt_greater_unique [where f = "keyset ts ident"]) simp_all
  with ps show ?thesis by blast
qed

text \<open>
  C35: When rows come and go between the requests, a client that follows the cursors gets to
  the end within one request more than there are rows that are ever in the table
  while it does so; it sees no row twice, sees the rows newest first, and sees every row that stays
  in the table all the time.
\<close>

theorem keyset_walk_stable:
  assumes "\<And>k. pageable c ts ident limit (T k)" and "\<And>k. set (T k) \<subseteq> set all_rows"
  shows "\<exists>ps. walk (length all_rows + 1) (apply_cursor_pagination c ts ident limit) T 0 None = Some ps \<and>
    sorted_wrt (\<lambda>x y. keyset ts ident y < keyset ts ident x) (concat ps) \<and>
    (\<Inter>k \<in> {..<length ps}. set (T k)) \<subseteq> set (concat ps)"
proof -
  obtain ps where ps: "walk (length all_rows + 1) (apply_cursor_pagination c ts ident limit) T 0 None = Some ps"
    using keyset.walk_returns [where T = T and all_rows = all_rows and cur = None and n = "length all_rows + 1" and k = 0, OF assms]
    by (auto simp del: walk.simps)
  then show ?thesis
    using keyset.walk_content [OF assms(1) _ ps] keyset.walk_complete [OF assms(1) _ ps] by auto
qed

section \<open>Pages by number\<close>

record 'a numbered_page =
  np_items :: "'a list"
  np_total :: nat
  np_page :: nat
  np_page_size :: nat
  np_total_pages :: nat
  np_has_next :: bool
  np_has_previous :: bool

definition page_count :: "nat \<Rightarrow> nat \<Rightarrow> nat" where
  "page_count rows_total per_page = (if rows_total > 0 then (rows_total + per_page - 1) div per_page else 1)"

definition create_paginated_response :: "'a list \<Rightarrow> nat \<Rightarrow> nat \<Rightarrow> nat \<Rightarrow> 'a numbered_page" where
  "create_paginated_response items rows_total page per_page = (let total_pages = page_count rows_total per_page in
     \<lparr>np_items = items, np_total = rows_total, np_page = page, np_page_size = per_page, np_total_pages = total_pages,
      np_has_next = page < total_pages, np_has_previous = page > 1\<rparr>)"

definition offset_of :: "nat \<Rightarrow> nat \<Rightarrow> nat" where
  "offset_of page per_page = (page - 1) * per_page"

definition paginate_query :: "'a list \<Rightarrow> nat \<Rightarrow> nat \<Rightarrow> ('a \<Rightarrow> 'b) \<Rightarrow> 'b numbered_page" where
  "paginate_query query page per_page transformer =
     (let rows_total = length query; total_pages = page_count rows_total per_page;
          items = map transformer (take per_page (drop (offset_of page per_page) query))
      in \<lparr>np_items = items, np_total = rows_total, np_page = page, np_page_size = per_page, np_total_pages = total_pages,
          np_has_next = page < total_pages, np_has_previous = page > 1\<rparr>)"

lemma page_count_covers: "0 < per_page \<Longrightarrow> rows_total \<le> page_count rows_total per_page * per_page"
  unfolding page_count_def using dividend_less_div_times [of per_page "rows_total + per_page - 1"] by auto

lemma page_count_minimal:
  assumes "0 < per_page" and "0 < rows_total"
  shows "(page_count rows_total per_page - 1) * per_page < rows_total"
proof -
  let ?q = "(rows_total + per_page - 1) div per_page"
  have "?q * per_page \<le> rows_total + per_page - 1" by (rule div_times_less_eq_dividend)
  moreover have "page_count rows_total per_page = ?q" using assms(2) by (simp add: page_count_def)
  then have "(page_count rows_total per_page - 1) * per_page = ?q * per_page - per_page"
    by (simp only: diff_mult_distrib mult_1)
  ultimately show ?thesis using assms by linarith
qed

lemma concat_chunks:
  "concat (map (\<lambda>p. take per_page (drop (p * per_page) xs)) [0..<n]) = take (n * per_page) xs"
proof (induction n)
  case (Suc n)
  have "take (n * per_page) xs @ take per_page (drop (n * per_page) xs) = take (n * per_page + per_page) xs"
    by (simp only: take_add)
  with Suc show ?case by (simp add: add.commute)
qed simp

text \<open>
  The numbered pages from 1 to the reported number of pages, joined, are the rows of the
  query; \<open>has_next\<close> holds of all but the last of them, and none of them is empty unless the
  query is.
\<close>

theorem numbered_pages_partition:
  assumes "0 < per_page"
  shows "concat (map (\<lambda>p. np_items (paginate_query query p per_page f)) [1..<page_count (length query) per_page + 1]) = map f query \<and>
    (\<forall>p \<in> {1..page_count (length query) per_page}.
      np_has_next (paginate_query query p per_page f) = (p \<noteq> page_count (length query) per_page) \<and>
      (np_items (paginate_query query p per_page f) = [] \<longleftrightarrow> query = []))"
proof
  let ?n = "page_count (length query) per_page"
  have "[1..<?n + 1] = map Suc [0..<?n]" using map_Suc_upt [of 0 ?n] by simp
  moreover have "np_items (paginate_query query (Suc p) per_page f) = take per_page (drop (p * per_page) (map f query))" for p
    by (simp add: paginate_query_def offset_of_def take_map drop_map Let_def)
  ultimately have "map (\<lambda>p. np_items (paginate_query query p per_page f)) [1..<?n + 1]
      = map (\<lambda>p. take per_page (drop (p * per_page) (map f query))) [0..<?n]"
    by (simp only: map_map comp_def)
  then show "concat (map (\<lambda>p. np_items (paginate_query query p per_page f)) [1..<?n + 1]) = map f query"
    using page_count_covers [OF assms, of "length query"] by (simp only: concat_chunks) simp
  show "\<forall>p \<in> {1..?n}. np_has_next (paginate_query query p per_page f) = (p \<noteq> ?n) \<and>
      (np_items (paginate_query query p per_page f) = [] \<longleftrightarrow> query = [])"
  proof
    fix p assume p: "p \<in> {1..?n}"
    have "(p - 1) * per_page < length query" if "query \<noteq> []"
    proof -
      have "(p - 1) * per_page \<le> (?n - 1) * per_page" using p by (intro mult_le_mono1 diff_le_mono) simp
      also have "\<dots> < length query" using page_count_minimal [OF assms] that by simp
      finally show ?thesis .
    qed
    then show "np_has_next (paginate_query query p per_page f) = (p \<noteq> ?n) \<and>
      (np_items (paginate_query query p per_page f) = [] \<longleftrightarrow> query = [])"
      using p assms by (cases "query = []") (auto simp: paginate_query_def offset_of_def Let_def)
  qed
qed

theorem numbered_pages_partition_witness:
  "concat (map (\<lambda>p. np_items (paginate_query [7, 5, 3 :: nat] p 2 Suc)) [1..<page_count (length [7, 5, 3 :: nat]) 2 + 1])
    = map Suc [7, 5, 3]"
  using numbered_pages_partition [of 2 "[7, 5, 3]" Suc] by simp

section \<open>Signed cursors\<close>

datatype cursor_error = CursorInvalid | CursorCrash

datatype cursor_value = VUuid string | VTime string | VPlain json

definition serialize_value :: "cursor_value \<Rightarrow> json" where
  "serialize_value v = (case v of VUuid s \<Rightarrow> JStr s | VTime s \<Rightarrow> JStr s | VPlain j \<Rightarrow> j)"

text \<open>The key is the configured one, else one drawn afresh by this very call.\<close>

definition get_cursor_secret :: "string \<Rightarrow> string \<Rightarrow> string" where
  "get_cursor_secret configured random = (if configured = [] then random else configured)"

type_synonym mac = "string \<Rightarrow> string \<Rightarrow> string"

definition sign_payload :: "('i, 't) codec \<Rightarrow> mac \<Rightarrow> string \<Rightarrow> json \<Rightarrow> string" where
  "sign_payload c mac secret data = (let payload = json_dumps c data; sig = mac secret payload
     in b64_encode c (json_dumps c (JObj [(''p'', JStr (b64_encode c payload)), (''s'', JStr sig)])))"

definition cursor_data :: "(string \<times> cursor_value) list \<Rightarrow> string \<Rightarrow> json" where
  "cursor_data values direction = JObj [(''d'', JStr direction), (''v'', JObj (map (\<lambda>(k, v). (k, serialize_value v)) values))]"

definition encode_signed :: "('i, 't) codec \<Rightarrow> mac \<Rightarrow> string \<Rightarrow> (string \<times> cursor_value) list \<Rightarrow> string \<Rightarrow> string" where
  "encode_signed c mac secret values direction = sign_payload c mac secret (cursor_data values direction)"

definition or_invalid :: "'a option \<Rightarrow> cursor_error + 'a" where
  "or_invalid x = (case x of Some y \<Rightarrow> Inr y | None \<Rightarrow> Inl CursorInvalid)"

definition item :: "json \<Rightarrow> string \<Rightarrow> cursor_error + json" where
  "item j k = (case j of JObj d \<Rightarrow> or_invalid (map_of d k) | _ \<Rightarrow> Inl CursorInvalid)"

definition decode_signed ::
  "('i, 't) codec \<Rightarrow> mac \<Rightarrow> string \<Rightarrow> string \<Rightarrow> cursor_error + json \<times> json" where
  "decode_signed c mac secret cursor =
     res_bind (or_invalid (b64_decode c cursor)) (\<lambda>text.
     res_bind (or_invalid (json_loads c text)) (\<lambda>outer.
     res_bind (item outer ''p'') (\<lambda>p.
     res_bind (case p of JStr s \<Rightarrow> or_invalid (b64_decode c s) | _ \<Rightarrow> Inl CursorCrash) (\<lambda>payload.
     res_bind (item outer ''s'') (\<lambda>sig.
       if sig \<noteq> JStr (mac secret payload) then Inl CursorInvalid
       else res_bind (or_invalid (json_loads c payload)) (\<lambda>data.
            res_bind (item data ''v'') (\<lambda>v.
              Inr (v, case item data ''d'' of Inr d \<Rightarrow> d | Inl _ \<Rightarrow> JStr ''forward''))))))))"

section \<open>Pages with signed cursors\<close>

text \<open>A column has a name and a value in a row; the database compares it with a value of the cursor:
  \<open>lt\<close> and \<open>gt\<close> answer whether the column is smaller or greater.\<close>

record 'a column =
  col_name :: string
  col_value :: "'a \<Rightarrow> cursor_value"
  col_lt :: "'a \<Rightarrow> json \<Rightarrow> bool"
  col_gt :: "'a \<Rightarrow> json \<Rightarrow> bool"

fun tuple_before :: "('a column \<Rightarrow> 'a \<Rightarrow> json \<Rightarrow> bool) \<Rightarrow> ('a column \<Rightarrow> 'a \<Rightarrow> json \<Rightarrow> bool) \<Rightarrow> 'a \<Rightarrow> ('a column \<times> json) list \<Rightarrow> bool" where
  "tuple_before lt gt r [] = False"
| "tuple_before lt gt r ((col, v) # cvs) = (lt col r v \<or> (\<not> gt col r v \<and> tuple_before lt gt r cvs))"

record 'b cursor_page =
  cp_items :: "'b list"
  cp_next :: "string option"
  cp_previous :: "string option"
  cp_has_next :: bool
  cp_has_previous :: bool
  cp_page_size :: nat

definition cursor_filter :: "'a column list \<Rightarrow> string \<Rightarrow> json \<Rightarrow> 'a list \<Rightarrow> cursor_error + 'a list" where
  "cursor_filter cols direction vals rows =
     (case vals of
        JObj d \<Rightarrow> (let cvs = map (\<lambda>col. (col, dict_get d (col_name col) JNull)) cols
          in Inr (if d \<noteq> [] \<and> JNull \<notin> snd ` set cvs then
                    filter (\<lambda>r. if direction = ''forward'' then tuple_before col_lt col_gt r cvs
                               else tuple_before col_gt col_lt r cvs) rows
                  else rows))
      | j \<Rightarrow> if falsy j then Inr rows else Inl CursorCrash)"

definition cursor_paginate_query ::
  "('i, 't) codec \<Rightarrow> mac \<Rightarrow> string \<Rightarrow> string \<Rightarrow> 'a column list \<Rightarrow> string option \<Rightarrow> nat \<Rightarrow> string \<Rightarrow> ('a \<Rightarrow> 'b) \<Rightarrow> 'a list \<Rightarrow>
    cursor_error + 'b cursor_page" where
  "cursor_paginate_query c mac secret_in secret_out cols cursor page_size direction transformer base_query =
     res_bind (case cursor of None \<Rightarrow> Inr base_query
       | Some cur \<Rightarrow> if cur = [] then Inr base_query
           else (case decode_signed c mac secret_in cur of
               Inl CursorInvalid \<Rightarrow> Inr base_query
             | Inl CursorCrash \<Rightarrow> Inl CursorCrash
             | Inr (vals, _) \<Rightarrow> cursor_filter cols direction vals base_query)) (\<lambda>query.
       let items = take (page_size + 1) query;
           has_next = length items > page_size;
           items = (if has_next then take page_size items else items);
           at_row = (\<lambda>r dir. encode_signed c mac secret_out (map (\<lambda>col. (col_name col, col_value col r)) cols) dir);
           given = (case cursor of None \<Rightarrow> False | Some cur \<Rightarrow> cur \<noteq> [])
       in Inr \<lparr>cp_items = map transformer items,
           cp_next = (if items \<noteq> [] \<and> has_next then Some (at_row (last items) ''forward'') else None),
           cp_previous = (if items \<noteq> [] \<and> given then Some (at_row (hd items) ''backward'') else None),
           cp_has_next = has_next, cp_has_previous = (cursor \<noteq> None), cp_page_size = page_size\<rparr>)"

lemma decode_encode_signed:
  assumes "\<And>x. b64_decode c (b64_encode c x) = Some x"
    and "json_loads c (json_dumps c (cursor_data values direction)) = Some (cursor_data values direction)"
    and "\<And>j. j = JObj [(''p'', JStr (b64_encode c (json_dumps c (cursor_data values direction)))),
      (''s'', JStr (mac k (json_dumps c (cursor_data values direction))))] \<Longrightarrow> json_loads c (json_dumps c j) = Some j"
  shows "decode_signed c mac k' (encode_signed c mac k values direction) =
    (if mac k (json_dumps c (cursor_data values direction)) = mac k' (json_dumps c (cursor_data values direction))
     then Inr (JObj (map (\<lambda>(n, v). (n, serialize_value v)) values), JStr direction) else Inl CursorInvalid)"
  using assms by (simp add: decode_signed_def encode_signed_def sign_payload_def Let_def or_invalid_def item_def)
    (simp add: cursor_data_def or_invalid_def item_def)

text \<open>
  A signed cursor is read back as the values and the direction it was made from; under a key
  that signs its payload differently it is refused as invalid. No other cursor is accepted: what is
  accepted carries the signature of its payload under the key.
\<close>

theorem signed_cursor_roundtrip:
  assumes "\<And>x. b64_decode c (b64_encode c x) = Some x"
    and "json_loads c (json_dumps c (cursor_data values direction)) = Some (cursor_data values direction)"
    and "\<And>j. j = JObj [(''p'', JStr (b64_encode c (json_dumps c (cursor_data values direction)))),
      (''s'', JStr (mac k (json_dumps c (cursor_data values direction))))] \<Longrightarrow> json_loads c (json_dumps c j) = Some j"
  shows "decode_signed c mac k (encode_signed c mac k values direction) =
      Inr (JObj (map (\<lambda>(n, v). (n, serialize_value v)) values), JStr direction) \<and>
    (\<forall>k'. mac k' (json_dumps c (cursor_data values direction)) \<noteq> mac k (json_dumps c (cursor_data values direction)) \<longrightarrow>
      decode_signed c mac k' (encode_signed c mac k values direction) = Inl CursorInvalid) \<and>
    (\<forall>k' cursor v d. decode_signed c mac k' cursor = Inr (v, d) \<longrightarrow>
      (\<exists>text outer p payload. b64_decode c cursor = Some text \<and> json_loads c text = Some (JObj outer) \<and>
        map_of outer ''p'' = Some (JStr p) \<and> b64_decode c p = Some payload \<and>
        map_of outer ''s'' = Some (JStr (mac k' payload))))"
proof (intro conjI allI impI)
  note roundtrip = decode_encode_signed [OF assms]
  show "decode_signed c mac k (encode_signed c mac k values direction) =
      Inr (JObj (map (\<lambda>(n, v). (n, serialize_value v)) values), JStr direction)"
    by (simp only: roundtrip simp_thms if_True)
  show "decode_signed c mac k' (encode_signed c mac k values direction) = Inl CursorInvalid"
    if "mac k' (json_dumps c (cursor_data values direction)) \<noteq> mac k (json_dumps c (cursor_data values direction))" for k'
    using that by (simp add: roundtrip)
  show "\<exists>text outer p payload. b64_decode c cursor = Some text \<and> json_loads c text = Some (JObj outer) \<and>
        map_of outer ''p'' = Some (JStr p) \<and> b64_decode c p = Some payload \<and>
        map_of outer ''s'' = Some (JStr (mac k' payload))"
    if "decode_signed c mac k' cursor = Inr (v, d)" for k' cursor v d
    using that by (fastforce simp: decode_signed_def res_simps or_invalid_def item_def
        split: option.splits json.splits if_splits)
qed

lemma rejected_cursor_first_page:
  assumes "decode_signed c mac k cur = Inl CursorInvalid"
  shows "map_sum id cp_items (cursor_paginate_query c mac k k' cols (Some cur) n dir f q) = Inr (map f (take n q))"
  using assms by (simp add: cursor_paginate_query_def Let_def)

text \<open>Without a configured key every call signs with a key of its own: no cursor is ever accepted,
  and a client that follows the cursors receives the first page again and again.\<close>

lemma unconfigured_key_repeats_first_page:
  assumes "\<And>x. b64_decode c (b64_encode c x) = Some x"
    and "json_loads c (json_dumps c (cursor_data values dir)) = Some (cursor_data values dir)"
    and "\<And>j. j = JObj [(''p'', JStr (b64_encode c (json_dumps c (cursor_data values dir)))),
      (''s'', JStr (mac r1 (json_dumps c (cursor_data values dir))))] \<Longrightarrow> json_loads c (json_dumps c j) = Some j"
    and "mac r2 (json_dumps c (cursor_data values dir)) \<noteq> mac r1 (json_dumps c (cursor_data values dir))"
  shows "map_sum id cp_items (cursor_paginate_query c mac (get_cursor_secret [] r2) k' cols
      (Some (encode_signed c mac (get_cursor_secret [] r1) values dir)) n dir' f q) = Inr (map f (take n q))"
  by (rule rejected_cursor_first_page)
    (use assms(4) in \<open>simp add: get_cursor_secret_def decode_encode_signed [OF assms(1-3)]\<close>)

text \<open>The backward direction compares the other way but keeps the order of the query: the page before
  row 3 of seven rows is answered as the first page.\<close>

definition num_column :: "int column" where
  "num_column = \<lparr>col_name = ''n'', col_value = (\<lambda>r. VPlain (JInt r)),
     col_lt = (\<lambda>r v. case v of JInt i \<Rightarrow> r < i | _ \<Rightarrow> False), col_gt = (\<lambda>r v. case v of JInt i \<Rightarrow> r > i | _ \<Rightarrow> False)\<rparr>"

lemma backward_answers_first_page:
  assumes "decode_signed c mac k cur = Inr (JObj [(''n'', JInt 3)], JStr ''backward'')" and "cur \<noteq> []"
  shows "map_sum id cp_items (cursor_paginate_query c mac k k' [num_column] (Some cur) 2 ''backward'' id [7, 6, 5, 4, 3, 2, 1])
    = Inr [7, 6]"
  using assms by (simp add: cursor_paginate_query_def cursor_filter_def num_column_def dict_get_def Let_def)

section \<open>Example codecs\<close>

definition ex_codec :: "(nat, nat) codec" where
  "ex_codec = \<lparr>b64_encode = id, b64_decode = Some,
     json_dumps = (\<lambda>j. case j of JObj [(_, JStr a), (_, JStr b)] \<Rightarrow> a @ CHR ''|'' # b | _ \<Rightarrow> []),
     json_loads = (\<lambda>s. Some (JObj [(''id'', JStr (takeWhile (\<lambda>c. c \<noteq> CHR ''|'') s)),
       (''ts'', JStr (tl (dropWhile (\<lambda>c. c \<noteq> CHR ''|'') s)))])),
     id_str = (\<lambda>i. replicate (i + 1) (CHR ''i'')), id_parse = (\<lambda>s. Some (length s - 1)),
     ts_iso = (\<lambda>i. replicate (i + 1) (CHR ''t'')), ts_parse = (\<lambda>s. Some (length s - 1))\<rparr>"

lemma ex_readable: "readable ex_codec ts ident r"
proof -
  have "takeWhile (\<lambda>c. c \<noteq> x) (replicate n y @ x # zs) = replicate n y \<and>
      dropWhile (\<lambda>c. c \<noteq> x) (replicate n y @ x # zs) = x # zs" if "x \<noteq> y" for n and x y :: char and zs
    using that by (induction n) auto
  then show ?thesis by (simp add: readable_def encode_cursor_def decode_cursor_def ex_codec_def text_field_def)
qed

theorem keyset_walk_exact_witness:
  "\<exists>ps. walk (length [(3 :: nat, 1 :: nat), (5, 2), (3, 4)] + 1) (apply_cursor_pagination ex_codec fst snd 2) (\<lambda>_. [(3, 1), (5, 2), (3, 4)]) 0 None
    = Some ps \<and> concat ps = newest_first fst snd [(3 :: nat, 1 :: nat), (5, 2), (3, 4)]"
  by (rule keyset_walk_exact) (simp add: pageable_def ex_readable)

definition ex_tables :: "nat \<Rightarrow> (nat \<times> nat) list" where
  "ex_tables k = (if k = 0 then [(3, 1), (5, 2)] else [(9, 7), (3, 1)])"

theorem keyset_walk_stable_witness:
  "\<exists>ps. walk (length [(3 :: nat, 1 :: nat), (5, 2), (9, 7)] + 1) (apply_cursor_pagination ex_codec fst snd 1) ex_tables 0 None = Some ps \<and>
    sorted_wrt (\<lambda>x y. keyset fst snd y < keyset fst snd x) (concat ps) \<and>
    (\<Inter>k \<in> {..<length ps}. set (ex_tables k)) \<subseteq> set (concat ps)"
  by (rule keyset_walk_stable) (simp_all add: pageable_def ex_readable ex_tables_def)

lemma ex_walk: "walk 4 (apply_cursor_pagination ex_codec fst snd 1) ex_tables 0 None = Some [[(5, 2)], [(3, 1)]]"
  by code_simp

definition ex_values :: "(string \<times> cursor_value) list" where
  "ex_values = [(''id'', VUuid ''a7'')]"

definition ex_signed :: "(nat, nat) codec" where
  "ex_signed = ex_codec\<lparr>
     json_dumps := \<lambda>j. if j = cursor_data ex_values ''forward'' then ''P'' else ''E'',
     json_loads := \<lambda>s. if s = ''P'' then Some (cursor_data ex_values ''forward'')
       else Some (JObj [(''p'', JStr ''P''), (''s'', JStr ''kP'')])\<rparr>"

theorem signed_cursor_roundtrip_witness:
  "decode_signed ex_signed (@) ''k'' (encode_signed ex_signed (@) ''k'' ex_values ''forward'') =
    Inr (JObj (map (\<lambda>(n, v). (n, serialize_value v)) ex_values), JStr ''forward'')"
proof (rule conjunct1 [OF signed_cursor_roundtrip])
  show "b64_decode ex_signed (b64_encode ex_signed x) = Some x" for x by (simp add: ex_signed_def ex_codec_def)
  show "json_loads ex_signed (json_dumps ex_signed (cursor_data ex_values ''forward'')) = Some (cursor_data ex_values ''forward'')"
    by (simp add: ex_signed_def ex_codec_def)
  show "json_loads ex_signed (json_dumps ex_signed j) = Some j"
    if "j = JObj [(''p'', JStr (b64_encode ex_signed (json_dumps ex_signed (cursor_data ex_values ''forward'')))),
      (''s'', JStr (''k'' @ json_dumps ex_signed (cursor_data ex_values ''forward'')))]" for j
    using that by (simp add: ex_signed_def ex_codec_def cursor_data_def)
qed

end
