(* ===== verification/Text_Chunking.thy ===== *)
theory Text_Chunking
  imports OL_Prelude
begin

text \<open>
  The text chunker, \<^verbatim>\<open>src/openlabels/core/pipeline/chunking.py\<close>. The loop of \<open>chunk\<close> ends only
  for a positive chunk size, so it is a partial function whose value is \<open>None\<close> when the loop
  does not end. Sizes are natural numbers.
\<close>

section \<open>The chunker\<close>

record text_chunk =
  ch_text :: string
  ch_start :: nat
  ch_end :: nat

text \<open>\<open>text.rfind(" ", lo, hi)\<close>: the last blank at a position from \<open>lo\<close> and below \<open>hi\<close>.\<close>

definition rfind_blank :: "string \<Rightarrow> nat \<Rightarrow> nat \<Rightarrow> nat option" where
  "rfind_blank text lo hi = find (\<lambda>i. i < length text \<and> text ! i = CHR '' '') (rev [lo..<hi])"

definition chunk_end :: "string \<Rightarrow> nat \<Rightarrow> nat \<Rightarrow> nat" where
  "chunk_end text max_chunk_size start =
     (let en = min (start + max_chunk_size) (length text)
      in if en < length text then
           (case rfind_blank text (start + max_chunk_size div 2) en of Some break_at \<Rightarrow> break_at + 1 | None \<Rightarrow> en)
         else en)"

definition chunk_step :: "nat \<Rightarrow> nat \<Rightarrow> nat \<Rightarrow> nat" where
  "chunk_step overlap start en = (if int en - int start - int overlap \<le> 0 then en - start else en - start - overlap)"

definition text_slice :: "string \<Rightarrow> nat \<Rightarrow> nat \<Rightarrow> string" where
  "text_slice text a b = take (b - a) (drop a text)"

partial_function (option) chunk_loop :: "string \<Rightarrow> nat \<Rightarrow> nat \<Rightarrow> nat \<Rightarrow> text_chunk list option" where
  "chunk_loop text max_chunk_size overlap start =
     (if start < length text then
        Option.bind (chunk_loop text max_chunk_size overlap
          (start + chunk_step overlap start (chunk_end text max_chunk_size start)))
          (\<lambda>chunks. Some (\<lparr>ch_text = text_slice text start (chunk_end text max_chunk_size start), ch_start = start,
             ch_end = chunk_end text max_chunk_size start\<rparr> # chunks))
      else Some [])"

definition chunk :: "string \<Rightarrow> nat \<Rightarrow> nat \<Rightarrow> text_chunk list option" where
  "chunk text max_chunk_size overlap =
     (if text = [] then Some []
      else if length text \<le> max_chunk_size then Some [\<lparr>ch_text = text, ch_start = 0, ch_end = length text\<rparr>]
      else chunk_loop text max_chunk_size overlap 0)"

section \<open>The loop ends\<close>

lemma rfind_blank_bounds: "rfind_blank text lo hi = Some i \<Longrightarrow> lo \<le> i \<and> i < hi \<and> i < length text"
  unfolding rfind_blank_def find_Some_iff by (auto simp: rev_nth)

lemma chunk_end_bounds:
  assumes "start < length text" and "0 < m"
  shows "start < chunk_end text m start" and "chunk_end text m start \<le> start + m"
    and "chunk_end text m start \<le> length text"
    and "chunk_end text m start < length text \<Longrightarrow> m div 2 < chunk_end text m start - start"
proof -
  consider "start + m < length text" "rfind_blank text (start + m div 2) (start + m) = None"
    | i where "start + m < length text" "rfind_blank text (start + m div 2) (start + m) = Some i"
    | "length text \<le> start + m" by (meson not_le not_Some_eq)
  note three = this
  show "start < chunk_end text m start" "chunk_end text m start \<le> start + m" "chunk_end text m start \<le> length text"
    "chunk_end text m start < length text \<Longrightarrow> m div 2 < chunk_end text m start - start"
    by (rule three; use assms in \<open>auto simp: chunk_end_def Let_def dest!: rfind_blank_bounds\<close>)+
qed

lemma chunk_step_bounds:
  assumes "start < en"
  shows "0 < chunk_step overlap start en" and "chunk_step overlap start en \<le> en - start"
    and "overlap < en - start \<Longrightarrow> chunk_step overlap start en = en - start - overlap"
  using assms by (auto simp: chunk_step_def)

lemma chunk_loop_returns: "0 < m \<Longrightarrow> \<exists>cs. chunk_loop text m overlap start = Some cs"
proof (induction "length text - start" arbitrary: start rule: less_induct)
  case less
  show ?case
  proof (cases "start < length text")
    case True
    let ?next = "start + chunk_step overlap start (chunk_end text m start)"
    have "length text - ?next < length text - start"
      using True chunk_step_bounds(1) [OF chunk_end_bounds(1) [OF True less.prems], of overlap] by linarith
    from less.hyps [OF this less.prems] show ?thesis by (subst chunk_loop.simps) auto
  qed (simp add: chunk_loop.simps)
qed

text \<open>With chunk size zero the loop runs forever on a text that is not empty.\<close>

lemma chunk_zero_diverges:
  assumes "text \<noteq> []"
  shows "chunk text 0 overlap = None"
proof -
  have "chunk_loop text 0 overlap 0 = None"
  proof (rule ccontr)
    assume "chunk_loop text 0 overlap 0 \<noteq> None"
    then obtain cs where cs: "chunk_loop text 0 overlap 0 = Some cs" by auto
    have "False" if "chunk_loop text 0 overlap 0 = Some cs" for cs
      using that
    proof (induction cs)
      case Nil
      then show ?case using assms by (subst (asm) chunk_loop.simps) (auto simp: bind_eq_Some_conv)
    next
      case (Cons c cs)
      have step: "chunk_end text 0 0 = 0" "chunk_step overlap 0 0 = 0"
        using assms by (auto simp: chunk_end_def rfind_blank_def chunk_step_def)
      have "chunk_loop text 0 overlap 0 = Some cs"
        using Cons.prems assms by (subst (asm) chunk_loop.simps) (auto simp: bind_eq_Some_conv step)
      then show ?case by (rule Cons.IH)
    qed
    with cs show False by blast
  qed
  then show ?thesis using assms by (simp add: chunk_def)
qed

section \<open>What the chunks contain\<close>

definition chunk_ok :: "string \<Rightarrow> nat \<Rightarrow> text_chunk \<Rightarrow> bool" where
  "chunk_ok text m c \<longleftrightarrow> ch_start c < ch_end c \<and> ch_end c \<le> length text \<and> ch_end c - ch_start c \<le> m \<and>
     ch_text c = text_slice text (ch_start c) (ch_end c)"

lemma slice_of_slice:
  assumes "s \<le> a" and "b \<le> e" and "a \<le> b"
  shows "text_slice (text_slice t s e) (a - s) (b - s) = text_slice t a b"
  using assms by (simp add: text_slice_def drop_take min_def)

lemma length_text_slice: "b \<le> length t \<Longrightarrow> length (text_slice t a b) = b - a"
  by (simp add: text_slice_def)

lemma chunk_loop_ok:
  assumes "0 < m"
  shows "chunk_loop text m overlap start = Some cs \<Longrightarrow> list_all (chunk_ok text m) cs \<and> sorted_wrt (<) (map ch_start cs) \<and>
    (\<forall>c \<in> set cs. start \<le> ch_start c)"
proof (induction "length text - start" arbitrary: start cs rule: less_induct)
  case less
  show ?case
  proof (cases "start < length text")
    case True
    note bounds = chunk_end_bounds [OF True assms]
    let ?e = "chunk_end text m start" and ?next = "start + chunk_step overlap start (chunk_end text m start)"
    obtain cs' where cs': "chunk_loop text m overlap ?next = Some cs'"
      "cs = \<lparr>ch_text = text_slice text start ?e, ch_start = start, ch_end = ?e\<rparr> # cs'"
      using less.prems True by (subst (asm) chunk_loop.simps) (auto simp: bind_eq_Some_conv)
    have lt: "start < ?next" using chunk_step_bounds(1) [OF bounds(1)] by simp
    then have "length text - ?next < length text - start" using True by linarith
    from less.hyps [OF this cs'(1)] have "list_all (chunk_ok text m) cs'" "sorted_wrt (<) (map ch_start cs')"
      "\<forall>c \<in> set cs'. ?next \<le> ch_start c" by blast+
    then show ?thesis using bounds(1-3) lt by (auto simp: cs'(2) chunk_ok_def)
  next
    case False
    then show ?thesis using less.prems by (simp add: chunk_loop.simps)
  qed
qed

lemma chunk_loop_covers:
  assumes "0 < m" and "overlap \<le> m div 2" and "a < b" and "b \<le> length text" and "b - a \<le> max 1 overlap"
  shows "chunk_loop text m overlap start = Some cs \<Longrightarrow> start \<le> a \<Longrightarrow> \<exists>c \<in> set cs. ch_start c \<le> a \<and> b \<le> ch_end c"
proof (induction "length text - start" arbitrary: start cs rule: less_induct)
  case less
  have True: "start < length text" using less.prems(2) assms(3,4) by linarith
  note bounds = chunk_end_bounds [OF True assms(1)]
  let ?e = "chunk_end text m start" and ?next = "start + chunk_step overlap start (chunk_end text m start)"
  obtain cs' where cs': "chunk_loop text m overlap ?next = Some cs'"
    "cs = \<lparr>ch_text = text_slice text start ?e, ch_start = start, ch_end = ?e\<rparr> # cs'"
    using less.prems(1) True by (subst (asm) chunk_loop.simps) (auto simp: bind_eq_Some_conv)
  show ?case
  proof (cases "b \<le> ?e")
    case True
    then show ?thesis using less.prems(2) by (simp add: cs'(2))
  next
    case False
    then have "overlap < ?e - start" using bounds(4) assms(2,4) by linarith
    then have next_eq: "?next = ?e - overlap" using chunk_step_bounds(3) [OF bounds(1)] by simp
    have "?next \<le> a"
      using False assms(3,5) \<open>overlap < ?e - start\<close> unfolding next_eq by (auto simp: max_def split: if_splits)
    moreover have "length text - ?next < length text - start"
      using chunk_step_bounds(1) [OF bounds(1), of overlap] True by linarith
    ultimately show ?thesis using less.hyps [OF _ cs'(1)] by (auto simp: cs'(2))
  qed
qed

text \<open>
  C39: For a positive chunk size and an overlap of at most half of it the chunker returns; its
  chunks are pieces of the text of at most the chunk size, in ascending order, and every piece of
  the text that is not longer than the overlap (every character, whatever the overlap) lies whole
  in one of the chunks, at the offset the chunk reports.
\<close>

theorem chunks_cover_entities:
  assumes "0 < m" and "overlap \<le> m div 2"
  shows "\<exists>cs. chunk text m overlap = Some cs \<and> list_all (chunk_ok text m) cs \<and> sorted_wrt (<) (map ch_start cs) \<and>
    (\<forall>a b. a < b \<longrightarrow> b \<le> length text \<longrightarrow> b - a \<le> max 1 overlap \<longrightarrow>
      (\<exists>c \<in> set cs. ch_start c \<le> a \<and> b \<le> ch_end c \<and>
        text_slice (ch_text c) (a - ch_start c) (b - ch_start c) = text_slice text a b))"
proof -
  have "\<exists>cs. chunk text m overlap = Some cs"
    using chunk_loop_returns [OF assms(1), of "text" overlap 0] by (auto simp: chunk_def)
  then obtain cs where cs: "chunk text m overlap = Some cs" by blast
  have ok: "list_all (chunk_ok text m) cs \<and> sorted_wrt (<) (map ch_start cs)"
    using cs chunk_loop_ok [OF assms(1), of "text" overlap 0 cs]
    by (auto simp: chunk_def chunk_ok_def text_slice_def split: if_splits)
  have "\<exists>c \<in> set cs. ch_start c \<le> a \<and> b \<le> ch_end c \<and>
        text_slice (ch_text c) (a - ch_start c) (b - ch_start c) = text_slice text a b"
    if ab: "a < b" "b \<le> length text" "b - a \<le> max 1 overlap" for a b
  proof -
    have "\<exists>c \<in> set cs. ch_start c \<le> a \<and> b \<le> ch_end c"
      using cs chunk_loop_covers [OF assms ab, of 0 cs] ab by (auto simp: chunk_def split: if_splits)
    then obtain c where c: "c \<in> set cs" "ch_start c \<le> a" "b \<le> ch_end c" by blast
    moreover have "ch_text c = text_slice text (ch_start c) (ch_end c)"
      using ok c(1) by (simp add: list_all_iff chunk_ok_def)
    ultimately show ?thesis using slice_of_slice [of "ch_start c" a b "ch_end c" "text"] ab(1) by auto
  qed
  with cs ok show ?thesis by blast
qed

theorem chunks_cover_entities_witness:
  "\<exists>cs. chunk ''a b c'' 4 1 = Some cs \<and> list_all (chunk_ok ''a b c'' 4) cs \<and> sorted_wrt (<) (map ch_start cs)"
  using chunks_cover_entities [of 4 1 "''a b c''"] by auto

section \<open>The last chunk\<close>

text \<open>When a chunk reaches the end of the text, the loop steps back by the overlap and cuts one more
  chunk, which lies inside the one before it.\<close>

lemma last_chunk_redundant:
  assumes "start < length text" and "chunk_end text m start = length text" and "0 < overlap"
    and "overlap < length text - start" and "overlap \<le> m"
  shows "chunk_loop text m overlap start = Some
    [\<lparr>ch_text = text_slice text start (length text), ch_start = start, ch_end = length text\<rparr>,
     \<lparr>ch_text = text_slice text (length text - overlap) (length text), ch_start = length text - overlap, ch_end = length text\<rparr>]"
proof -
  let ?s = "length text - overlap"
  have "chunk_end text m ?s = length text" using assms by (simp add: chunk_end_def)
  moreover have "chunk_step overlap ?s (length text) = overlap" using assms by (simp add: chunk_step_def)
  ultimately have "chunk_loop text m overlap ?s =
      Some [\<lparr>ch_text = text_slice text ?s (length text), ch_start = ?s, ch_end = length text\<rparr>]"
    using assms by (simp add: chunk_loop.simps)
  moreover have "chunk_step overlap start (length text) = ?s - start"
    using assms by (simp add: chunk_step_def add.commute)
  ultimately show ?thesis using assms by (subst chunk_loop.simps) simp
qed

end
