(* ===== verification/Detection_Engine.thy ===== *)
theory Detection_Engine
  imports Span_Resolution Policy_Engine Py_Collections
begin

text \<open>
  Detectors and the orchestrator, \<^verbatim>\<open>src/openlabels/core/detectors/orchestrator.py\<close>, and the
  calibration of confidences, \<^verbatim>\<open>src/openlabels/core/pipeline/confidence.py\<close>. A detector is a
  function from a text to spans, which may raise. The thread pool answers the detectors that
  finish in time in an order of its own: that list is an argument. Timing and log messages are left
  out. Coreference and context enhancement are optional functions on spans.
\<close>

section \<open>Detectors\<close>

datatype py_exn = DetectionErr | RuntimeErr | ValueErr | OSErr | IndexErr | KeyErr | OtherErr

record detector =
  d_name :: string
  d_available :: bool
  d_detect :: "string \<Rightarrow> py_exn + span list"

text \<open>One detector under an exception handler for the given exceptions.\<close>

definition run_detector :: "py_exn list \<Rightarrow> detector \<Rightarrow> string \<Rightarrow> py_exn + span list" where
  "run_detector handled d txt =
     (if \<not> d_available d then Inr []
      else case d_detect d txt of
             Inl e \<Rightarrow> if e \<in> set handled then Inr [] else Inl e
           | Inr spans \<Rightarrow> Inr spans)"

text \<open>The loop over the futures in the order of their completion: the spans and the names of the
  detectors that found some.\<close>

fun collect :: "(detector \<Rightarrow> py_exn + span list) \<Rightarrow> py_exn list \<Rightarrow> detector list \<Rightarrow> py_exn + (span list \<times> string list)" where
  "collect run handled [] = Inr ([], [])"
| "collect run handled (d # ds) =
     (case run d of
        Inl e \<Rightarrow> if e \<in> set handled then collect run handled ds else Inl e
      | Inr spans \<Rightarrow> res_bind (collect run handled ds)
          (\<lambda>(all_spans, used). Inr (spans @ all_spans, if spans \<noteq> [] then d_name d # used else used)))"

definition count_entity :: "(string \<times> nat) list \<Rightarrow> string \<Rightarrow> (string \<times> nat) list" where
  "count_entity counts t = dict_set t (dict_get counts t 0 + 1) counts"

definition count_entities :: "span list \<Rightarrow> (string \<times> nat) list" where
  "count_entities spans = foldl count_entity [] (map (\<lambda>s. normalize_entity_type (sp_entity_type s)) spans)"

definition entity_match_of :: "span \<Rightarrow> entity_match" where
  "entity_match_of s = \<lparr>entity_type = sp_entity_type s, entity_value = sp_text s, confidence = sp_confidence s\<rparr>"

definition evaluate_spans :: "policy_engine \<Rightarrow> bool \<Rightarrow> span list \<Rightarrow> policy_result option" where
  "evaluate_spans eng wanted spans =
     (if wanted \<and> spans \<noteq> [] then Some (evaluate_policies eng (map entity_match_of spans) 0) else None)"

text \<open>An optional step on the spans, whose failures are logged.\<close>

definition optional_step :: "(string \<Rightarrow> span list \<Rightarrow> py_exn + span list) option \<Rightarrow> string \<Rightarrow> span list \<Rightarrow> py_exn + span list" where
  "optional_step f txt spans = (case f of
     Some g \<Rightarrow> if spans = [] then Inr spans
       else (case g txt spans of Inr out \<Rightarrow> Inr out
             | Inl e \<Rightarrow> if e \<in> set [RuntimeErr, ValueErr, IndexErr] then Inr spans else Inl e)
   | None \<Rightarrow> Inr spans)"

section \<open>Calibration\<close>

fun tier_floor :: "tier \<Rightarrow> real" where
  "tier_floor TIER_ML = 0"
| "tier_floor TIER_PATTERN = 50 / 100"
| "tier_floor TIER_STRUCTURED = 75 / 100"
| "tier_floor TIER_CHECKSUM = 90 / 100"

fun next_ceiling :: "tier \<Rightarrow> real" where
  "next_ceiling TIER_ML = tier_floor TIER_PATTERN"
| "next_ceiling TIER_PATTERN = tier_floor TIER_STRUCTURED"
| "next_ceiling TIER_STRUCTURED = tier_floor TIER_CHECKSUM"
| "next_ceiling TIER_CHECKSUM = 1"

definition calibrate_confidence :: "span \<Rightarrow> real" where
  "calibrate_confidence s = tier_floor (sp_tier s) + sp_confidence s * (next_ceiling (sp_tier s) - tier_floor (sp_tier s))"

fun all_results :: "('e + 'a) list \<Rightarrow> 'e + 'a list" where
  "all_results [] = Inr []"
| "all_results (r # rs) = res_bind r (\<lambda>x. res_bind (all_results rs) (\<lambda>xs. Inr (x # xs)))"

definition calibrate_spans :: "span list \<Rightarrow> value_error + span list" where
  "calibrate_spans spans =
     all_results (map (\<lambda>s. span_post_init (TierEnum (sp_tier s)) (s\<lparr>sp_confidence := calibrate_confidence s\<rparr>)) spans)"

section \<open>The orchestrator\<close>

record detection_config =
  enable_checksum :: bool
  enable_secrets :: bool
  enable_financial :: bool
  enable_government :: bool
  enable_patterns :: bool
  enable_hyperscan :: bool
  enable_ml :: bool
  enable_coref :: bool
  enable_context_enhancement :: bool
  enable_policy :: bool
  cfg_threshold :: real

definition patterns_only :: detection_config where
  "patterns_only = \<lparr>enable_checksum = True, enable_secrets = True, enable_financial = True, enable_government = True,
     enable_patterns = True, enable_hyperscan = False, enable_ml = False, enable_coref = False,
     enable_context_enhancement = False, enable_policy = True, cfg_threshold = 70 / 100\<rparr>"

definition full_config :: detection_config where
  "full_config = patterns_only\<lparr>enable_hyperscan := True, enable_ml := True, enable_coref := True, enable_context_enhancement := True,
     enable_policy := True\<rparr>"

definition quick_config :: detection_config where
  "quick_config = patterns_only\<lparr>enable_ml := False, enable_coref := False, enable_context_enhancement := False\<rparr>"

definition detector_names_of :: "detection_config \<Rightarrow> string list" where
  "detector_names_of c = concat (map (\<lambda>(flag, names). if flag then names else [])
     [(enable_checksum c, [''checksum'']), (enable_secrets c, [''secrets'']), (enable_financial c, [''financial'']),
      (enable_government c, [''government'']), (enable_patterns c, [''pattern'', ''additional_patterns''])])"

record orchestrator =
  o_config :: detection_config
  o_detectors :: "detector list"
  o_coref :: "(string \<Rightarrow> span list \<Rightarrow> py_exn + span list) option"
  o_enhancer :: "(string \<Rightarrow> span list \<Rightarrow> py_exn + span list) option"

text \<open>The registry answers a new detector or \<open>None\<close> for an unknown name; the accelerated
  detector and the models are those whose construction succeeds.\<close>

definition new_orchestrator ::
  "(string \<Rightarrow> detector option) \<Rightarrow> detector option \<Rightarrow> detector list \<Rightarrow>
    (string \<Rightarrow> span list \<Rightarrow> py_exn + span list) option \<Rightarrow> (string \<Rightarrow> span list \<Rightarrow> py_exn + span list) option \<Rightarrow>
    detection_config \<Rightarrow> orchestrator" where
  "new_orchestrator registry hyperscan models coref enhancer c =
     \<lparr>o_config = c,
      o_detectors = (if enable_hyperscan c then (case hyperscan of Some d \<Rightarrow> [d] | None \<Rightarrow> []) else []) @
        List.map_filter registry (detector_names_of c) @ (if enable_ml c then filter d_available models else []),
      o_coref = (if enable_coref c then coref else None),
      o_enhancer = (if enable_context_enhancement c then enhancer else None)\<rparr>"

definition add_detector :: "detector \<Rightarrow> orchestrator \<Rightarrow> orchestrator" where
  "add_detector d o' = o'\<lparr>o_detectors := o_detectors o' @ [d]\<rparr>"

fun remove_first :: "string \<Rightarrow> detector list \<Rightarrow> bool \<times> detector list" where
  "remove_first n [] = (False, [])"
| "remove_first n (d # ds) = (if d_name d = n then (True, ds)
     else (case remove_first n ds of (found, ds') \<Rightarrow> (found, d # ds')))"

definition remove_detector :: "string \<Rightarrow> orchestrator \<Rightarrow> bool \<times> orchestrator" where
  "remove_detector n o' = (case remove_first n (o_detectors o') of (found, ds) \<Rightarrow> (found, o'\<lparr>o_detectors := ds\<rparr>))"

record detection_result =
  dr_spans :: "span list"
  dr_entity_counts :: "(string \<times> nat) list"
  dr_detectors_used :: "string list"
  dr_text_length :: nat
  dr_policy_result :: "policy_result option"

definition no_detection :: detection_result where
  "no_detection = \<lparr>dr_spans = [], dr_entity_counts = [], dr_detectors_used = [], dr_text_length = 0, dr_policy_result = None\<rparr>"

definition handled_by_orchestrator :: "py_exn list" where
  "handled_by_orchestrator = [DetectionErr, RuntimeErr, ValueErr, OSErr]"

definition post_process :: "real \<Rightarrow> span list \<Rightarrow> value_error + span list" where
  "post_process threshold spans =
     res_bind (calibrate_spans spans) (\<lambda>calibrated. resolve_spans calibrated threshold HIGHER_CONFIDENCE)"

definition as_value_error :: "value_error + 'a \<Rightarrow> py_exn + 'a" where
  "as_value_error r = (case r of Inl _ \<Rightarrow> Inl ValueErr | Inr x \<Rightarrow> Inr x)"

definition detect_sync :: "policy_engine \<Rightarrow> orchestrator \<Rightarrow> detector list \<Rightarrow> string \<Rightarrow> py_exn + detection_result" where
  "detect_sync eng o' finished txt =
     (if str_strip txt = [] then Inr no_detection
      else res_bind (collect (\<lambda>d. run_detector handled_by_orchestrator d txt) handled_by_orchestrator finished) (\<lambda>(all_spans, used).
           res_bind (as_value_error (post_process (cfg_threshold (o_config o')) all_spans)) (\<lambda>processed.
           res_bind (optional_step (o_coref o') txt processed) (\<lambda>processed.
           res_bind (optional_step (o_enhancer o') txt processed) (\<lambda>processed.
             Inr \<lparr>dr_spans = processed, dr_entity_counts = count_entities processed, dr_detectors_used = used,
                  dr_text_length = length txt,
                  dr_policy_result = evaluate_spans eng (enable_policy (o_config o')) processed\<rparr>)))))"

section \<open>Counting\<close>

lemma map_of_count_fold:
  "map_of (foldl count_entity counts ts) t =
    (if t \<in> set ts then Some (dict_get counts t 0 + count_list ts t) else map_of counts t)"
proof (induction ts arbitrary: counts)
  case (Cons u ts)
  have "dict_get (count_entity counts u) t 0 = (if u = t then dict_get counts t 0 + 1 else dict_get counts t 0)"
    by (simp add: dict_get_def count_entity_def)
  then show ?case using Cons [of "count_entity counts u"]
    by (auto simp: count_entity_def dict_get_def)
qed simp

lemma distinct_count_fold: "distinct (map fst counts) \<Longrightarrow> distinct (map fst (foldl count_entity counts ts))"
  by (induction ts arbitrary: counts) (auto simp: count_entity_def intro: distinct_dict_set)

lemma count_entities_correct:
  "map_of (count_entities spans) t =
    (let n = length (filter (\<lambda>s. normalize_entity_type (sp_entity_type s) = t) spans) in if n = 0 then None else Some n)"
proof -
  have "count_list (map f xs) t = length (filter (\<lambda>x. f x = t) xs)" for f and xs :: "span list"
    by (induction xs) auto
  then show ?thesis by (auto simp: count_entities_def map_of_count_fold dict_get_def filter_empty_conv)
qed

section \<open>Calibration keeps the order of the tiers\<close>

lemma calibrate_between:
  assumes "0 \<le> sp_confidence s" and "sp_confidence s \<le> 1"
  shows "tier_floor (sp_tier s) \<le> calibrate_confidence s \<and> calibrate_confidence s \<le> next_ceiling (sp_tier s)"
  using assms by (cases "sp_tier s") (simp_all add: calibrate_confidence_def)

lemma ceiling_floor: "a < b \<Longrightarrow> next_ceiling a \<le> tier_floor b"
  by (cases a; cases b) (simp_all add: less_tier_def)

lemma tier_bounds: "0 \<le> tier_floor t \<and> tier_floor t < next_ceiling t \<and> next_ceiling t \<le> 1"
  by (cases t) simp_all

lemma calibrate_unit: "wf_span s \<Longrightarrow> 0 \<le> calibrate_confidence s \<and> calibrate_confidence s \<le> 1"
  using calibrate_between [of s] tier_bounds [of "sp_tier s"] by (auto simp: wf_span_def)

text \<open>
  Calibration maps confidences into the unit interval; a span of a higher tier is never ranked
  below one of a lower tier, and within a tier the order of the raw confidences is kept.
\<close>

theorem calibration_ranks_tiers:
  assumes "wf_span s" and "wf_span s'"
  shows "0 \<le> calibrate_confidence s \<and> calibrate_confidence s \<le> 1 \<and>
    (sp_tier s < sp_tier s' \<longrightarrow> calibrate_confidence s \<le> calibrate_confidence s') \<and>
    (sp_tier s = sp_tier s' \<longrightarrow> (calibrate_confidence s < calibrate_confidence s' \<longleftrightarrow> sp_confidence s < sp_confidence s'))"
proof (intro conjI impI)
  show "0 \<le> calibrate_confidence s" "calibrate_confidence s \<le> 1" using calibrate_unit [OF assms(1)] by blast+
  show "calibrate_confidence s \<le> calibrate_confidence s'" if "sp_tier s < sp_tier s'"
    using calibrate_between [of s] calibrate_between [of s'] ceiling_floor [OF that] assms by (auto simp: wf_span_def)
  show "calibrate_confidence s < calibrate_confidence s' \<longleftrightarrow> sp_confidence s < sp_confidence s'" if "sp_tier s = sp_tier s'"
    using tier_bounds [of "sp_tier s"] that by (simp add: calibrate_confidence_def)
qed

theorem calibration_ranks_tiers_witness:
  "calibrate_confidence (ex_span 0 ''a'' ''NAME'' 1 TIER_ML) \<le> calibrate_confidence (ex_span 0 ''a'' ''SSN'' 0 TIER_CHECKSUM)"
  using calibration_ranks_tiers [of "ex_span 0 ''a'' ''NAME'' 1 TIER_ML" "ex_span 0 ''a'' ''SSN'' 0 TIER_CHECKSUM"]
  by (simp add: ex_span_def wf_span_def less_tier_def)

definition recalibrated :: "span \<Rightarrow> span" where
  "recalibrated s = s\<lparr>sp_confidence := calibrate_confidence s\<rparr>"

lemma recalibrated_wf: "wf_span s \<Longrightarrow> wf_span (recalibrated s)"
  using calibrate_unit [of s] by (auto simp: recalibrated_def wf_span_def)

lemma recalibrated_anchored: "anchored txt (recalibrated s) = anchored txt s"
  by (simp add: recalibrated_def anchored_def)

lemma calibrate_spans_ok: "list_all wf_span xs \<Longrightarrow> calibrate_spans xs = Inr (map recalibrated xs)"
proof (induction xs)
  case (Cons s xs)
  then have "wf_span (recalibrated s)" by (simp add: recalibrated_wf)
  then have "span_post_init (TierEnum (sp_tier s)) (recalibrated s) = Inr (recalibrated s)"
    by (simp add: span_post_init_def wf_span_def recalibrated_def)
  with Cons show ?case by (simp add: calibrate_spans_def recalibrated_def)
qed (simp add: calibrate_spans_def)

section \<open>Collecting from the detectors\<close>

definition found :: "string \<Rightarrow> detector \<Rightarrow> span list" where
  "found txt d = (if d_available d then (case d_detect d txt of Inr spans \<Rightarrow> spans | Inl _ \<Rightarrow> []) else [])"

definition tolerable :: "py_exn list \<Rightarrow> string \<Rightarrow> detector \<Rightarrow> bool" where
  "tolerable handled txt d \<longleftrightarrow> (case d_detect d txt of Inl e \<Rightarrow> \<not> d_available d \<or> e \<in> set handled | Inr _ \<Rightarrow> True)"

lemma run_tolerable: "tolerable handled txt d \<Longrightarrow> run_detector handled d txt = Inr (found txt d)"
  by (auto simp: tolerable_def run_detector_def found_def split: sum.splits)

lemma collect_tolerable:
  "list_all (tolerable handled txt) ds \<Longrightarrow> collect (\<lambda>d. run_detector handled d txt) handled ds =
    Inr (concat (map (found txt) ds), map d_name (filter (\<lambda>d. found txt d \<noteq> []) ds))"
  by (induction ds) (auto simp: run_tolerable)

lemma collect_skip:
  assumes "run d = Inr []"
  shows "collect run handled (xs @ d # ys) = collect run handled (xs @ ys)"
proof (induction xs)
  case Nil
  then show ?case using assms by (cases "collect run handled ys") auto
next
  case (Cons x xs)
  then show ?case by (simp split: sum.split)
qed

text \<open>
  A detector that is not available or that fails in one of the expected ways is as if it were
  not there: the result is that of the remaining detectors.
\<close>

theorem failing_detector_isolated:
  assumes "\<not> d_available d \<or> (\<exists>e \<in> set handled_by_orchestrator. d_detect d txt = Inl e)"
  shows "detect_sync eng o' (xs @ d # ys) txt = detect_sync eng o' (xs @ ys) txt"
proof -
  have "run_detector handled_by_orchestrator d txt = Inr []"
    using assms by (auto simp: run_detector_def)
  then show ?thesis by (simp only: detect_sync_def collect_skip)
qed

section \<open>What the orchestrator reports\<close>

definition truthful :: "string \<Rightarrow> detector \<Rightarrow> bool" where
  "truthful txt d \<longleftrightarrow> (\<forall>spans. d_detect d txt = Inr spans \<longrightarrow> list_all wf_span spans \<and> list_all (anchored txt) spans)"

lemma truthful_found:
  assumes "list_all (truthful txt) ds"
  shows "list_all wf_span (concat (map (found txt) ds)) \<and> list_all (anchored txt) (concat (map (found txt) ds))"
proof -
  have "list_all wf_span (found txt d) \<and> list_all (anchored txt) (found txt d)" if "d \<in> set ds" for d
  proof -
    have "truthful txt d" using assms that by (simp add: list_all_iff)
    then show ?thesis by (cases "d_detect d txt") (auto simp: truthful_def found_def)
  qed
  then show ?thesis by (auto simp: list_all_iff)
qed

lemma post_process_ok:
  assumes "list_all wf_span xs" and "list_all (anchored txt) xs"
  shows "\<exists>out. post_process c xs = Inr out \<and> disjoint_ordered out \<and> list_all (anchored txt) out \<and>
    list_all (\<lambda>s. c \<le> sp_confidence s) out"
proof -
  let ?cal = "map recalibrated xs"
  let ?out = "foldl (push HIGHER_CONFIDENCE) [] (eligible c ?cal)"
  have wf: "list_all wf_span ?cal" and anch: "list_all (anchored txt) ?cal"
    using assms by (auto simp: list_all_iff recalibrated_wf recalibrated_anchored)
  have "list_all (\<lambda>s. anchored txt s \<and> c \<le> sp_confidence s) ?out"
  proof (rule resolve_spans_all [OF _ wf])
    show "anchored txt (joined HIGHER_CONFIDENCE a s) \<and> c \<le> sp_confidence (joined HIGHER_CONFIDENCE a s)"
      if *: "wf_span a" "wf_span s" "sp_start a \<le> sp_start s" "sp_start s < sp_end a"
        and P: "anchored txt a \<and> c \<le> sp_confidence a" "anchored txt s \<and> c \<le> sp_confidence s" for a s
    proof -
      have "c \<le> sp_confidence (joined HIGHER_CONFIDENCE a s)"
        by (rule joined_cases [OF *, of HIGHER_CONFIDENCE]) (use P in auto)
      with joined_anchored [OF *] P show ?thesis by blast
    qed
  qed (use anch in \<open>auto simp: list_all_iff\<close>)
  then show ?thesis
    using resolve_spans_fold [OF wf, of c HIGHER_CONFIDENCE] calibrate_spans_ok [OF assms(1)]
    by (auto simp: post_process_def list_all_iff)
qed

lemma detect_sync_sound:
  assumes "list_all (truthful txt) finished" and "list_all (tolerable handled_by_orchestrator txt) finished"
    and "o_coref o' = None" and "o_enhancer o' = None"
  shows "\<exists>r. detect_sync eng o' finished txt = Inr r \<and> disjoint_ordered (dr_spans r) \<and>
    list_all (\<lambda>s. anchored txt s \<and> cfg_threshold (o_config o') \<le> sp_confidence s) (dr_spans r) \<and>
    (\<forall>t. dict_get (dr_entity_counts r) t 0 = length (filter (\<lambda>s. normalize_entity_type (sp_entity_type s) = t) (dr_spans r))) \<and>
    dr_policy_result r = evaluate_spans eng (enable_policy (o_config o')) (dr_spans r)"
proof (cases "str_strip txt = []")
  case True
  then show ?thesis
    by (auto simp: detect_sync_def no_detection_def evaluate_spans_def dict_get_def disjoint_ordered_def)
next
  case False
  let ?all = "concat (map (found txt) finished)"
  obtain out where out: "post_process (cfg_threshold (o_config o')) ?all = Inr out" "disjoint_ordered out"
    "list_all (anchored txt) out" "list_all (\<lambda>s. cfg_threshold (o_config o') \<le> sp_confidence s) out"
    using post_process_ok truthful_found [OF assms(1)] by blast
  have "dict_get (count_entities out) t 0 = length (filter (\<lambda>s. normalize_entity_type (sp_entity_type s) = t) out)" for t
    by (simp add: dict_get_def count_entities_correct Let_def)
  moreover have "detect_sync eng o' finished txt = Inr \<lparr>dr_spans = out, dr_entity_counts = count_entities out,
      dr_detectors_used = map d_name (filter (\<lambda>d. found txt d \<noteq> []) finished), dr_text_length = length txt,
      dr_policy_result = evaluate_spans eng (enable_policy (o_config o')) out\<rparr>"
    using False out(1) assms(3,4)
    by (simp add: detect_sync_def collect_tolerable [OF assms(2)] as_value_error_def optional_step_def)
  ultimately show ?thesis using out by (auto simp: list_all_iff)
qed

text \<open>
  C40: When the detectors report well-formed spans that carry the text at their positions and fail
  only in the expected ways, detection without coreference and enhancement always answers; its
  spans are ordered, disjoint, carry the text and meet the threshold after calibration; the counts
  are the numbers of spans per normalized type, and the policies are evaluated on exactly the
  reported spans.
\<close>

theorem detection_sound:
  assumes "list_all (truthful txt) finished" and "list_all (tolerable handled_by_orchestrator txt) finished"
    and "o_coref o' = None" and "o_enhancer o' = None"
  shows "\<exists>r. detect_sync eng o' finished txt = Inr r \<and> disjoint_ordered (dr_spans r) \<and>
    list_all (\<lambda>s. anchored txt s \<and> cfg_threshold (o_config o') \<le> sp_confidence s) (dr_spans r) \<and>
    (\<forall>t. dict_get (dr_entity_counts r) t 0 = length (filter (\<lambda>s. normalize_entity_type (sp_entity_type s) = t) (dr_spans r))) \<and>
    dr_policy_result r = evaluate_spans eng (enable_policy (o_config o')) (dr_spans r)"
  using assms by (rule detect_sync_sound)

section \<open>What it never reports\<close>

text \<open>Calibration puts every model detection at one half or below: under the default threshold of
  0.70 none is ever reported.\<close>

lemma ml_never_reported:
  assumes "1 / 2 < cfg_threshold (o_config o')" and "list_all (truthful txt) finished"
    and "list_all (tolerable handled_by_orchestrator txt) finished"
    and "\<And>d s. d \<in> set finished \<Longrightarrow> s \<in> set (found txt d) \<Longrightarrow> sp_tier s = TIER_ML"
  shows "\<exists>r. detect_sync eng o' finished txt = Inr r \<and> dr_spans r = []"
proof (cases "str_strip txt = []")
  case False
  let ?all = "concat (map (found txt) finished)"
  have wf: "list_all wf_span ?all" using truthful_found [OF assms(2)] by blast
  have "\<not> cfg_threshold (o_config o') \<le> sp_confidence s" if "s \<in> set (map recalibrated ?all)" for s
  proof -
    obtain r where r: "r \<in> set ?all" "s = recalibrated r" using \<open>s \<in> set (map recalibrated ?all)\<close> by auto
    then have "sp_tier r = TIER_ML" "wf_span r" using assms(4) wf by (auto simp: list_all_iff)
    then have "calibrate_confidence r \<le> 1 / 2" using calibrate_between [of r] by (simp add: wf_span_def)
    then show ?thesis using assms(1) r(2) by (simp add: recalibrated_def)
  qed
  then have "filter (\<lambda>s. cfg_threshold (o_config o') \<le> sp_confidence s) (map recalibrated ?all) = []"
    unfolding filter_empty_conv by blast
  then have "post_process (cfg_threshold (o_config o')) ?all = Inr []"
    by (simp only: post_process_def calibrate_spans_ok [OF wf] res_bind.simps resolve_spans_def deduplicate_def)
      (simp add: res_simps)
  then show ?thesis
    using False by (simp add: detect_sync_def collect_tolerable [OF assms(3)] as_value_error_def optional_step_def split: option.split)
qed (simp add: detect_sync_def no_detection_def)

lemma pattern_needs_four_fifths:
  "sp_tier s = TIER_PATTERN \<Longrightarrow> 70 / 100 \<le> calibrate_confidence s \<longleftrightarrow> 4 / 5 \<le> sp_confidence s"
  by (auto simp: calibrate_confidence_def field_simps)

section \<open>Witnesses\<close>

definition ex_detector :: "string \<Rightarrow> (string \<Rightarrow> py_exn + span list) \<Rightarrow> detector" where
  "ex_detector n f = \<lparr>d_name = n, d_available = True, d_detect = f\<rparr>"

definition ex_orchestrator :: orchestrator where
  "ex_orchestrator = new_orchestrator (\<lambda>n. Some (ex_detector n (\<lambda>_. Inr []))) None [] None None patterns_only"

theorem failing_detector_isolated_witness:
  "detect_sync empty_engine ex_orchestrator ([] @ ex_detector ''m'' (\<lambda>_. Inl OSErr) # []) ''ann'' =
    detect_sync empty_engine ex_orchestrator ([] @ []) ''ann''"
  by (rule failing_detector_isolated) (simp add: ex_detector_def handled_by_orchestrator_def)

theorem detection_sound_witness:
  "\<exists>r. detect_sync empty_engine ex_orchestrator
      [ex_detector ''email'' (\<lambda>_. Inr ex_email), ex_detector ''m'' (\<lambda>_. Inl RuntimeErr)] ''ann@x.org'' = Inr r \<and>
    disjoint_ordered (dr_spans r) \<and>
    list_all (\<lambda>s. anchored ''ann@x.org'' s \<and> cfg_threshold (o_config ex_orchestrator) \<le> sp_confidence s) (dr_spans r) \<and>
    (\<forall>t. dict_get (dr_entity_counts r) t 0 = length (filter (\<lambda>s. normalize_entity_type (sp_entity_type s) = t) (dr_spans r))) \<and>
    dr_policy_result r = evaluate_spans empty_engine (enable_policy (o_config ex_orchestrator)) (dr_spans r)"
  by (rule detection_sound)
    (simp_all add: ex_detector_def truthful_def tolerable_def handled_by_orchestrator_def ex_email_ok ex_orchestrator_def
      new_orchestrator_def patterns_only_def)

end
