(* ===== verification/Tiered_Pipeline.thy ===== *)
theory Tiered_Pipeline
  imports Detection_Engine
begin

text \<open>
  The tiered pipeline, \<^verbatim>\<open>src/openlabels/core/pipeline/tiered.py\<close>: triage by the cheap detectors,
  escalation to the models, the deep analysis of medical texts, and what is done with the spans. A
  pipeline is a record; \<open>detect\<close> also answers the pipeline with the models it has loaded. The
  models that a load finds, the medical dictionary, the text recognition and the file system are
  arguments, as is the order in which the detectors of the first stage finish.
\<close>

section \<open>Configuration and state\<close>

datatype pipeline_stage = FAST_TRIAGE | ML_ESCALATION | DEEP_ANALYSIS

text \<open>The reason of an escalation by the data its message is made from.\<close>

datatype escalation = LowConfidenceSpans nat | MLBeneficialType string | MedicalContext | FileReadError

record pipeline_config =
  pc_escalation_threshold :: real
  pc_auto_detect_medical :: bool
  pc_dual_bert :: bool
  pc_checksum :: bool
  pc_secrets :: bool
  pc_financial :: bool
  pc_government :: bool
  pc_patterns :: bool
  pc_hyperscan :: bool
  pc_eager_load_ml :: bool
  pc_coref :: bool
  pc_context :: bool
  pc_policy :: bool
  pc_confidence_threshold :: real

definition ESCALATION_THRESHOLD :: real where "ESCALATION_THRESHOLD = 70 / 100"

definition default_pipeline :: pipeline_config where
  "default_pipeline = \<lparr>pc_escalation_threshold = ESCALATION_THRESHOLD, pc_auto_detect_medical = True, pc_dual_bert = True,
     pc_checksum = True, pc_secrets = True, pc_financial = True, pc_government = True, pc_patterns = True,
     pc_hyperscan = False, pc_eager_load_ml = False, pc_coref = False, pc_context = False, pc_policy = True,
     pc_confidence_threshold = 70 / 100\<rparr>"

definition ML_BENEFICIAL_TYPES :: "string list" where
  "ML_BENEFICIAL_TYPES = [''NAME'', ''NAME_PATIENT'', ''NAME_PROVIDER'', ''PERSON'', ''ADDRESS'', ''LOCATION_OTHER'', ''DATE'', ''AGE'']"

definition OCR_FILE_EXTENSIONS :: "string list" where
  "OCR_FILE_EXTENSIONS = [''.png'', ''.jpg'', ''.jpeg'', ''.gif'', ''.bmp'', ''.tiff'', ''.tif'', ''.webp'', ''.heic'', ''.heif'']"

type_synonym span_step = "string \<Rightarrow> span list \<Rightarrow> py_exn + span list"

record pipeline =
  pl_config :: pipeline_config
  pl_stage1 :: "detector list"
  pl_phi :: "detector option"
  pl_pii :: "detector option"
  pl_medical :: "(string \<Rightarrow> py_exn + bool) option"

definition ml_detectors :: "pipeline \<Rightarrow> detector list" where
  "ml_detectors p = (case pl_phi p of Some d \<Rightarrow> [d] | None \<Rightarrow> []) @ (case pl_pii p of Some d \<Rightarrow> [d] | None \<Rightarrow> [])"

text \<open>The models that are present and available when they are looked for.\<close>

type_synonym models = "detector option \<times> detector option"

definition init_ml_detectors :: "models \<Rightarrow> pipeline \<Rightarrow> pipeline" where
  "init_ml_detectors m p = (if ml_detectors p \<noteq> [] then p else p\<lparr>pl_phi := fst m, pl_pii := snd m\<rparr>)"

definition stage1_detectors :: "(string \<Rightarrow> detector) \<Rightarrow> detector option \<Rightarrow> pipeline_config \<Rightarrow> detector list" where
  "stage1_detectors mk hyperscan c =
     (if pc_checksum c then [mk ''checksum''] else []) @ (if pc_secrets c then [mk ''secrets''] else []) @
     (if pc_financial c then [mk ''financial''] else []) @ (if pc_government c then [mk ''government''] else []) @
     (if pc_patterns c then [mk ''pattern'', mk ''additional_patterns''] else []) @
     (if pc_hyperscan c then (case hyperscan of Some d \<Rightarrow> [d] | None \<Rightarrow> []) else [])"

definition new_pipeline ::
  "(string \<Rightarrow> detector) \<Rightarrow> detector option \<Rightarrow> (string \<Rightarrow> py_exn + bool) option \<Rightarrow> models \<Rightarrow> pipeline_config \<Rightarrow> pipeline" where
  "new_pipeline mk hyperscan dictionary m c =
     (let p = \<lparr>pl_config = c, pl_stage1 = stage1_detectors mk hyperscan c, pl_phi = None, pl_pii = None,
               pl_medical = (if pc_auto_detect_medical c then dictionary else None)\<rparr>
      in if pc_eager_load_ml c then init_ml_detectors m p else p)"

section \<open>The stages\<close>

definition handled_by_pipeline :: "py_exn list" where
  "handled_by_pipeline = [RuntimeErr, ValueErr, OSErr]"

definition run_stage1 :: "detector list \<Rightarrow> string \<Rightarrow> py_exn + (span list \<times> string list)" where
  "run_stage1 finished txt = collect (\<lambda>d. run_detector handled_by_pipeline d txt) handled_by_pipeline finished"

definition run_stage2 :: "pipeline \<Rightarrow> string \<Rightarrow> py_exn + (span list \<times> string list)" where
  "run_stage2 p txt = collect (\<lambda>d. d_detect d txt) handled_by_pipeline (case pl_pii p of Some d \<Rightarrow> [d] | None \<Rightarrow> [])"

definition run_deep_analysis :: "pipeline \<Rightarrow> string \<Rightarrow> py_exn + (span list \<times> string list)" where
  "run_deep_analysis p txt = collect (\<lambda>d. run_detector handled_by_pipeline d txt) handled_by_pipeline (ml_detectors p)"

definition should_escalate :: "pipeline_config \<Rightarrow> span list \<Rightarrow> escalation option" where
  "should_escalate c stage1_spans =
     (let low = filter (\<lambda>s. sp_confidence s < pc_escalation_threshold c) stage1_spans in
      if low \<noteq> [] then Some (LowConfidenceSpans (length low))
      else case find (\<lambda>s. normalize_entity_type (sp_entity_type s) \<in> set ML_BENEFICIAL_TYPES \<and> sp_confidence s < 90 / 100) stage1_spans of
             Some s \<Rightarrow> Some (MLBeneficialType (sp_entity_type s)) | None \<Rightarrow> None)"

definition detect_medical_context :: "pipeline \<Rightarrow> string \<Rightarrow> py_exn + bool" where
  "detect_medical_context p txt = (case pl_medical p of None \<Rightarrow> Inr False
     | Some has_medical_context \<Rightarrow> (case has_medical_context txt of
           Inl e \<Rightarrow> if e \<in> set [RuntimeErr, ValueErr] then Inr False else Inl e | Inr b \<Rightarrow> Inr b))"

section \<open>Post-processing\<close>

definition triage_key :: "span \<Rightarrow> int \<times> int \<times> real" where
  "triage_key s = (sp_start s, - tier_value (sp_tier s), - sp_confidence s)"

definition absorbed_by :: "span list \<Rightarrow> span \<Rightarrow> bool" where
  "absorbed_by result s = list_ex (\<lambda>accepted. overlaps s accepted \<and>
     ((sp_start s = sp_start accepted \<and> sp_end s = sp_end accepted) \<or> contains accepted s)) result"

fun keep_uncovered :: "span list \<Rightarrow> span list \<Rightarrow> span list" where
  "keep_uncovered result [] = result"
| "keep_uncovered result (s # ss) = keep_uncovered (if absorbed_by result s then result else result @ [s]) ss"

definition drop_duplicates :: "span list \<Rightarrow> span list" where
  "drop_duplicates spans = keep_uncovered [] (sort_key triage_key spans)"

definition finish_spans :: "pipeline_config \<Rightarrow> span_step option \<Rightarrow> span_step option \<Rightarrow> string \<Rightarrow> span list \<Rightarrow> py_exn + span list" where
  "finish_spans c coref enhancer txt spans =
     (if spans = [] then Inr []
      else let deduped = drop_duplicates (filter (\<lambda>s. sp_confidence s \<ge> pc_confidence_threshold c) spans)
           in res_bind (optional_step (if pc_coref c then coref else None) txt deduped) (\<lambda>deduped.
              res_bind (optional_step (if pc_context c then enhancer else None) txt deduped) (\<lambda>deduped.
                Inr (sort_key (\<lambda>s. (sp_start s, - sp_end s)) deduped))))"

section \<open>Detection\<close>

record pipeline_result =
  pr_spans :: "span list"
  pr_entity_counts :: "(string \<times> nat) list"
  pr_detectors :: "string list"
  pr_text_length :: nat
  pr_stages :: "pipeline_stage list"
  pr_medical :: bool
  pr_reason :: "escalation option"
  pr_ocr_used :: bool
  pr_ocr_text :: bool
  pr_policy :: "policy_result option"

definition empty_pipeline_result :: pipeline_result where
  "empty_pipeline_result = \<lparr>pr_spans = [], pr_entity_counts = [], pr_detectors = [], pr_text_length = 0, pr_stages = [],
     pr_medical = False, pr_reason = None, pr_ocr_used = False, pr_ocr_text = False, pr_policy = None\<rparr>"

record environment =
  env_engine :: policy_engine
  env_models :: models
  env_coref :: "span_step option"
  env_enhancer :: "span_step option"

text \<open>The second half of \<open>detect\<close>: the stages after triage, given whether the text is medical.\<close>

definition escalate :: "environment \<Rightarrow> pipeline \<Rightarrow> string \<Rightarrow> bool \<Rightarrow> escalation option \<Rightarrow>
    pipeline \<times> (py_exn + (span list \<times> string list \<times> pipeline_stage list))" where
  "escalate env p txt medical reason =
     (if reason = None then (p, Inr ([], [], []))
      else let p = init_ml_detectors (env_models env) p in
           if medical \<and> pc_dual_bert (pl_config p) then
             (p, res_bind (run_deep_analysis p txt) (\<lambda>(spans, ds). Inr (spans, ds, [DEEP_ANALYSIS])))
           else if ml_detectors p \<noteq> [] then
             (p, res_bind (run_stage2 p txt) (\<lambda>(spans, ds). Inr (spans, ds, [ML_ESCALATION])))
           else (p, Inr ([], [], [])))"

definition detect :: "environment \<Rightarrow> detector list \<Rightarrow> pipeline \<Rightarrow> string \<Rightarrow> pipeline \<times> (py_exn + pipeline_result)" where
  "detect env finished p txt =
     (let c = pl_config p in
      if str_strip txt = [] then (p, Inr empty_pipeline_result)
      else case run_stage1 finished txt of
        Inl e \<Rightarrow> (p, Inl e)
      | Inr (stage1_spans, stage1_names) \<Rightarrow>
          (case (if pc_auto_detect_medical c then detect_medical_context p txt else Inr False) of
             Inl e \<Rightarrow> (p, Inl e)
           | Inr medical \<Rightarrow>
               (let found_reason = should_escalate c stage1_spans;
                    reason = (if medical \<and> found_reason = None then Some MedicalContext else found_reason);
                    (p', more) = escalate env p txt medical reason
                in (p', res_bind more (\<lambda>(more_spans, more_names, more_stages).
                     res_bind (finish_spans c (env_coref env) (env_enhancer env) txt (stage1_spans @ more_spans)) (\<lambda>spans.
                       Inr \<lparr>pr_spans = spans, pr_entity_counts = count_entities spans,
                            pr_detectors = remdups (stage1_names @ more_names), pr_text_length = length txt,
                            pr_stages = FAST_TRIAGE # more_stages, pr_medical = medical, pr_reason = reason,
                            pr_ocr_used = False, pr_ocr_text = False,
                            pr_policy = evaluate_spans (env_engine env) (pc_policy c) spans\<rparr>))))))"

section \<open>Images and files\<close>

text \<open>The size of an image, \<open>None\<close> when it cannot be opened.\<close>

definition quick_text_check :: "(nat \<times> nat) option \<Rightarrow> bool" where
  "quick_text_check size_of = (case size_of of None \<Rightarrow> True
     | Some (width, height) \<Rightarrow>
         if width < 50 \<or> height < 50 then False
         else if real (max width height) / real (min width height) > 20 then False else True)"

text \<open>\<open>None\<close>: no recognition engine is installed.\<close>

definition extract_text_ocr :: "(py_exn + string) option \<Rightarrow> py_exn + string" where
  "extract_text_ocr ocr = (case ocr of None \<Rightarrow> Inr []
     | Some (Inr txt) \<Rightarrow> Inr txt
     | Some (Inl e) \<Rightarrow> if e \<in> set [OSErr, RuntimeErr, ValueErr] then Inr [] else Inl e)"

record image =
  img_size :: "(nat \<times> nat) option"
  img_ocr :: "(py_exn + string) option"

definition detect_image :: "environment \<Rightarrow> detector list \<Rightarrow> pipeline \<Rightarrow> image \<Rightarrow> bool \<Rightarrow> pipeline \<times> (py_exn + pipeline_result)" where
  "detect_image env finished p img skip_if_no_text =
     (let nothing = empty_pipeline_result\<lparr>pr_ocr_used := True\<rparr> in
      if skip_if_no_text \<and> \<not> quick_text_check (img_size img) then (p, Inr nothing)
      else case extract_text_ocr (img_ocr img) of
        Inl e \<Rightarrow> (p, Inl e)
      | Inr txt \<Rightarrow>
          if txt = [] then (p, Inr nothing)
          else (case detect env finished p txt of (p', r) \<Rightarrow>
            (p', res_bind r (\<lambda>r. Inr (r\<lparr>pr_ocr_used := True, pr_ocr_text := True\<rparr>)))))"

text \<open>\<open>Path(...).suffix\<close> of a file name.\<close>

definition path_suffix :: "string \<Rightarrow> string" where
  "path_suffix n = (case find (\<lambda>i. n ! i = CHR ''.'') (rev [0..<length n]) of
     Some i \<Rightarrow> if 0 < i \<and> i < length n - 1 then drop i n else [] | None \<Rightarrow> [])"

definition detect_file :: "environment \<Rightarrow> detector list \<Rightarrow> pipeline \<Rightarrow> string \<Rightarrow> string option \<Rightarrow> image \<Rightarrow> py_exn + string \<Rightarrow>
    pipeline \<times> (py_exn + pipeline_result)" where
  "detect_file env finished p file_name content img file_text =
     (case content of Some txt \<Rightarrow> detect env finished p txt
      | None \<Rightarrow>
          if str_lower (path_suffix file_name) \<in> set OCR_FILE_EXTENSIONS then detect_image env finished p img True
          else (case (case file_text of Inr txt \<Rightarrow> detect env finished p txt | Inl e \<Rightarrow> (p, Inl e)) of
                  (p', Inl OSErr) \<Rightarrow> (p', Inr (empty_pipeline_result\<lparr>pr_reason := Some FileReadError\<rparr>))
                | r \<Rightarrow> r))"

definition ml_available :: "models \<Rightarrow> pipeline \<Rightarrow> bool \<times> pipeline" where
  "ml_available m p = (let p = init_ml_detectors m p in (ml_detectors p \<noteq> [], p))"

section \<open>Nothing is lost by removing duplicates\<close>

lemma keep_uncovered_facts:
  "set R \<subseteq> set (keep_uncovered R ss) \<and> set (keep_uncovered R ss) \<subseteq> set R \<union> set ss \<and>
    (\<forall>s \<in> set ss. \<exists>t \<in> set (keep_uncovered R ss). contains t s)"
proof (induction R ss rule: keep_uncovered.induct)
  case (2 R s ss)
  let ?R = "if absorbed_by R s then R else R @ [s]"
  have "\<exists>t \<in> set ?R. contains t s"
    by (auto simp: absorbed_by_def list_ex_iff contains_def)
  with 2 show ?case by (auto split: if_splits)
qed simp

lemma drop_duplicates_facts:
  "set (drop_duplicates xs) \<subseteq> set xs" "s \<in> set xs \<Longrightarrow> \<exists>t \<in> set (drop_duplicates xs). contains t s"
  using keep_uncovered_facts [of "[]" "sort_key triage_key xs"] by (auto simp: drop_duplicates_def)

lemma covered_set: "i \<in> covered xs \<longleftrightarrow> (\<exists>s \<in> set xs. sp_start s \<le> i \<and> i < sp_end s)"
  by (induction xs) auto

lemma covered_drop_duplicates: "covered (drop_duplicates xs) = covered xs"
proof (rule set_eqI)
  fix i
  show "i \<in> covered (drop_duplicates xs) \<longleftrightarrow> i \<in> covered xs"
    using drop_duplicates_facts(1) [of xs] drop_duplicates_facts(2) [of _ xs]
    unfolding covered_set contains_def by (meson order_trans order_less_le_trans subsetD)
qed

section \<open>What detection reports\<close>

definition outcome :: "(detector \<Rightarrow> py_exn + span list) \<Rightarrow> detector \<Rightarrow> span set" where
  "outcome run d = (case run d of Inr spans \<Rightarrow> set spans | Inl _ \<Rightarrow> {})"

lemma collect_outcome:
  "collect run handled ds = Inr (spans, names) \<Longrightarrow> set spans = (\<Union>d \<in> set ds. outcome run d)"
proof (induction ds arbitrary: spans names)
  case (Cons d ds)
  show ?case
  proof (cases "run d")
    case (Inl e)
    then have "collect run handled ds = Inr (spans, names)" using Cons.prems by (simp split: if_splits)
    then show ?thesis using Cons.IH Inl by (simp add: outcome_def)
  next
    case (Inr xs)
    then obtain ys ns where "collect run handled ds = Inr (ys, ns)" "spans = xs @ ys"
      using Cons.prems by (auto simp: res_simps)
    then show ?thesis using Cons.IH [of ys ns] Inr by (simp add: outcome_def)
  qed
qed simp

lemma outcome_run_detector: "outcome (\<lambda>d. run_detector handled d txt) d = set (found txt d)"
  by (cases "d_available d"; cases "d_detect d txt") (auto simp: outcome_def run_detector_def found_def)

lemma escalate_outcome:
  assumes "escalate env p txt medical reason = (p', Inr (spans, names, stages))"
  shows "set spans \<subseteq> (\<Union>d \<in> set (ml_detectors p'). case d_detect d txt of Inr xs \<Rightarrow> set xs | Inl _ \<Rightarrow> {})"
proof -
  let ?raw = "\<lambda>d. case d_detect d txt of Inr xs \<Rightarrow> set xs | Inl _ \<Rightarrow> {}"
  have sub: "set (found txt d) \<subseteq> ?raw d" for d by (cases "d_available d"; cases "d_detect d txt") (auto simp: found_def)
  consider "spans = []" | ns where "run_deep_analysis p' txt = Inr (spans, ns)" | ns where "run_stage2 p' txt = Inr (spans, ns)"
    using assms by (auto simp: escalate_def Let_def res_simps split: if_splits)
  then show ?thesis
  proof cases
    case (2 ns)
    have eq: "set spans = (\<Union>d \<in> set (ml_detectors p'). set (found txt d))"
      using collect_outcome [OF 2 [unfolded run_deep_analysis_def]] by (simp add: outcome_run_detector)
    show ?thesis unfolding eq by (rule UN_mono [OF subset_refl sub])
  next
    case (3 ns)
    have "set spans = (\<Union>d \<in> set (case pl_pii p' of Some d \<Rightarrow> [d] | None \<Rightarrow> []). ?raw d)"
      using collect_outcome [OF 3 [unfolded run_stage2_def]] by (simp add: outcome_def)
    then show ?thesis by (auto simp: ml_detectors_def split: option.splits)
  qed simp
qed

text \<open>A successful detection on a text that is not blank, taken apart.\<close>

lemma detect_parts:
  assumes "detect env finished p txt = (p', Inr r)" and "str_strip txt \<noteq> []"
  obtains s1 n1 medical more nm st where "run_stage1 finished txt = Inr (s1, n1)"
    and "(if pc_auto_detect_medical (pl_config p) then detect_medical_context p txt else Inr False) = Inr medical"
    and "escalate env p txt medical (if medical \<and> should_escalate (pl_config p) s1 = None then Some MedicalContext
           else should_escalate (pl_config p) s1) = (p', Inr (more, nm, st))"
    and "finish_spans (pl_config p) (env_coref env) (env_enhancer env) txt (s1 @ more) = Inr (pr_spans r)"
    and "pr_stages r = FAST_TRIAGE # st" and "pr_medical r = medical"
    and "pr_reason r = (if medical \<and> should_escalate (pl_config p) s1 = None then Some MedicalContext
           else should_escalate (pl_config p) s1)"
  using assms by (fastforce simp: detect_def Let_def res_simps split: sum.splits prod.splits)

lemma finish_plain:
  assumes "\<not> pc_coref c" and "\<not> pc_context c" and "finish_spans c f g txt xs = Inr out"
  shows "out = sort_key (\<lambda>s. (sp_start s, - sp_end s))
    (drop_duplicates (filter (\<lambda>s. pc_confidence_threshold c \<le> sp_confidence s) xs))"
  using assms by (cases "xs = []") (auto simp: finish_spans_def optional_step_def drop_duplicates_def Let_def)

text \<open>Of two findings the one that starts first comes first, then the one of the higher tier, then the surer one.\<close>

definition goes_first :: "span \<Rightarrow> span \<Rightarrow> bool" where
  "goes_first t s \<longleftrightarrow> sp_start t < sp_start s \<or> sp_start t = sp_start s \<and>
     (tier_value (sp_tier s) < tier_value (sp_tier t) \<or>
      tier_value (sp_tier s) = tier_value (sp_tier t) \<and> sp_confidence s \<le> sp_confidence t)"

lemma goes_first_key: "goes_first t s \<longleftrightarrow> triage_key t \<le> triage_key s"
  by (auto simp: goes_first_def triage_key_def less_eq_prod_simp)

lemma keep_uncovered_first:
  "sorted (map triage_key (R @ ss)) \<Longrightarrow> sorted (map triage_key (keep_uncovered R ss)) \<and>
    (\<forall>s \<in> set ss. \<exists>t \<in> set (keep_uncovered R ss). contains t s \<and> triage_key t \<le> triage_key s)"
proof (induction R ss rule: keep_uncovered.induct)
  case (2 R s ss)
  let ?R = "if absorbed_by R s then R else R @ [s]"
  have "sorted (map triage_key (?R @ ss))" using "2.prems" by (auto simp: sorted_append)
  then have IH: "sorted (map triage_key (keep_uncovered ?R ss))"
    "\<forall>s \<in> set ss. \<exists>t \<in> set (keep_uncovered ?R ss). contains t s \<and> triage_key t \<le> triage_key s"
    using "2.IH" by auto
  have "\<exists>t \<in> set ?R. contains t s \<and> triage_key t \<le> triage_key s"
    using "2.prems" by (auto simp: absorbed_by_def list_ex_iff contains_def sorted_append)
  then have "\<exists>t \<in> set (keep_uncovered ?R ss). contains t s \<and> triage_key t \<le> triage_key s"
    using keep_uncovered_facts [of ?R ss] by blast
  with IH show ?case by auto
qed simp

lemma keep_uncovered_apart:
  "sorted_wrt (\<lambda>t u. \<not> (overlaps u t \<and> contains t u)) R \<Longrightarrow>
    sorted_wrt (\<lambda>t u. \<not> (overlaps u t \<and> contains t u)) (keep_uncovered R ss)"
proof (induction R ss rule: keep_uncovered.induct)
  case (2 R s ss)
  then show ?case by (auto simp: sorted_wrt_append absorbed_by_def list_ex_iff)
qed simp

lemma drop_duplicates_first:
  "s \<in> set xs \<Longrightarrow> \<exists>t \<in> set (drop_duplicates xs). contains t s \<and> goes_first t s"
  using keep_uncovered_first [of "[]" "sort_key triage_key xs"] by (auto simp: drop_duplicates_def goes_first_key)

lemma drop_duplicates_apart:
  assumes "t \<in> set (drop_duplicates xs)" and "u \<in> set (drop_duplicates xs)" and "\<not> goes_first u t" and "overlaps u t"
  shows "\<not> contains t u"
proof -
  let ?out = "drop_duplicates xs"
  have sorted: "sorted (map triage_key ?out)"
    using keep_uncovered_first [of "[]" "sort_key triage_key xs"] by (simp add: drop_duplicates_def)
  have apart: "sorted_wrt (\<lambda>t u. \<not> (overlaps u t \<and> contains t u)) ?out"
    using keep_uncovered_apart [of "[]"] by (simp add: drop_duplicates_def)
  obtain i k where ik: "i < length ?out" "?out ! i = t" "k < length ?out" "?out ! k = u"
    using assms(1,2) by (metis in_set_conv_nth)
  have "\<not> k \<le> i"
  proof
    assume "k \<le> i"
    then have "triage_key u \<le> triage_key t" using sorted ik by (auto simp: sorted_iff_nth_mono)
    then show False using assms(3) by (simp add: goes_first_key)
  qed
  then have "\<not> (overlaps (?out ! k) (?out ! i) \<and> contains (?out ! i) (?out ! k))"
    using sorted_wrt_nth_less [OF apart, of i k] ik by simp
  then show ?thesis using ik assms(4) by simp
qed

text \<open>
  C38: Without coreference and context enhancement a successful detection leaves no confident
  finding uncovered and invents nothing. Every span that a finished detector of the first stage
  found with the threshold confidence lies inside a reported span, the finding itself or one that
  goes first: it starts earlier, or at the same place with a higher tier, or with the same tier and
  no lower confidence. So the tier decides only between spans that start together, and a
  validated number inside an earlier span of a lower tier is not reported
  (\<open>lower_tier_hides_checksum\<close>). Of the reported spans none lies inside an overlapping one that goes
  first. Every reported span is one that a finished detector or a loaded model found, meets
  the threshold, and stands in the order of the positions.
\<close>

theorem triage_covers_findings:
  assumes "detect env finished p txt = (p', Inr r)" and "str_strip txt \<noteq> []"
    and "\<not> pc_coref (pl_config p)" and "\<not> pc_context (pl_config p)"
  shows "(\<forall>d \<in> set finished. \<forall>s \<in> set (found txt d). pc_confidence_threshold (pl_config p) \<le> sp_confidence s \<longrightarrow>
      (\<exists>t \<in> set (pr_spans r). contains t s \<and> goes_first t s)) \<and>
    (\<forall>t \<in> set (pr_spans r). \<forall>u \<in> set (pr_spans r). overlaps u t \<and> contains t u \<longrightarrow> goes_first u t) \<and>
    (\<forall>t \<in> set (pr_spans r). pc_confidence_threshold (pl_config p) \<le> sp_confidence t \<and>
      (\<exists>d \<in> set finished \<union> set (ml_detectors p'). \<exists>xs. d_detect d txt = Inr xs \<and> t \<in> set xs)) \<and>
    sorted (map (\<lambda>s. (sp_start s, - sp_end s)) (pr_spans r))"
proof -
  obtain s1 n1 medical more nm st where parts: "run_stage1 finished txt = Inr (s1, n1)"
    "escalate env p txt medical (if medical \<and> should_escalate (pl_config p) s1 = None then Some MedicalContext
       else should_escalate (pl_config p) s1) = (p', Inr (more, nm, st))"
    "finish_spans (pl_config p) (env_coref env) (env_enhancer env) txt (s1 @ more) = Inr (pr_spans r)"
    using detect_parts [OF assms(1,2)] by metis
  let ?kept = "filter (\<lambda>s. pc_confidence_threshold (pl_config p) \<le> sp_confidence s) (s1 @ more)"
  have out: "pr_spans r = sort_key (\<lambda>s. (sp_start s, - sp_end s)) (drop_duplicates ?kept)"
    by (rule finish_plain [OF assms(3,4) parts(3)])
  have s1: "set s1 = (\<Union>d \<in> set finished. set (found txt d))"
    using collect_outcome [OF parts(1) [unfolded run_stage1_def]] by (simp add: outcome_run_detector)
  have raw: "\<exists>xs. d_detect d txt = Inr xs \<and> t \<in> set xs" if "t \<in> set (found txt d)" for t d
    using that by (cases "d_available d"; cases "d_detect d txt") (auto simp: found_def)
  have source: "\<exists>d \<in> set finished \<union> set (ml_detectors p'). \<exists>xs. d_detect d txt = Inr xs \<and> t \<in> set xs"
    if "t \<in> set (s1 @ more)" for t
  proof (cases "t \<in> set s1")
    case True
    then show ?thesis using raw unfolding s1 by blast
  next
    case False
    then have "t \<in> (\<Union>d \<in> set (ml_detectors p'). case d_detect d txt of Inr xs \<Rightarrow> set xs | Inl _ \<Rightarrow> {})"
      using that escalate_outcome [OF parts(2)] by auto
    then obtain d where "d \<in> set (ml_detectors p')" "t \<in> (case d_detect d txt of Inr xs \<Rightarrow> set xs | Inl _ \<Rightarrow> {})" by blast
    then show ?thesis by (cases "d_detect d txt") auto
  qed
  have "\<exists>t \<in> set (pr_spans r). contains t s \<and> goes_first t s"
    if "d \<in> set finished" "s \<in> set (found txt d)" "pc_confidence_threshold (pl_config p) \<le> sp_confidence s" for d s
  proof -
    have "s \<in> set ?kept" using that s1 by auto
    from drop_duplicates_first [OF this] show ?thesis by (simp add: out)
  qed
  moreover have "goes_first u t"
    if "t \<in> set (pr_spans r)" "u \<in> set (pr_spans r)" "overlaps u t \<and> contains t u" for t u
    using that drop_duplicates_apart [of t ?kept u] by (auto simp: out)
  moreover have "pc_confidence_threshold (pl_config p) \<le> sp_confidence t \<and>
      (\<exists>d \<in> set finished \<union> set (ml_detectors p'). \<exists>xs. d_detect d txt = Inr xs \<and> t \<in> set xs)"
    if "t \<in> set (pr_spans r)" for t
  proof -
    have "t \<in> set ?kept" using that drop_duplicates_facts(1) [of ?kept] by (auto simp: out)
    then have "t \<in> set (s1 @ more)" "pc_confidence_threshold (pl_config p) \<le> sp_confidence t" by auto
    with source [of t] show ?thesis by blast
  qed
  moreover have "sorted (map (\<lambda>s. (sp_start s, - sp_end s)) (pr_spans r))" unfolding out by (rule sorted_sort_key)
  ultimately show ?thesis by blast
qed

section \<open>The order in which detectors finish\<close>

lemma should_escalate_None:
  "should_escalate c xs = None \<longleftrightarrow> (\<forall>s \<in> set xs. \<not> sp_confidence s < pc_escalation_threshold c \<and>
    \<not> (normalize_entity_type (sp_entity_type s) \<in> set ML_BENEFICIAL_TYPES \<and> sp_confidence s < 90 / 100))"
proof -
  have "should_escalate c xs = None \<longleftrightarrow> filter (\<lambda>s. sp_confidence s < pc_escalation_threshold c) xs = [] \<and>
      find (\<lambda>s. normalize_entity_type (sp_entity_type s) \<in> set ML_BENEFICIAL_TYPES \<and> sp_confidence s < 90 / 100) xs = None"
    by (simp add: should_escalate_def Let_def split: option.split)
  then show ?thesis unfolding find_None_iff filter_empty_conv by blast
qed

lemma escalate_any_reason:
  "reason \<noteq> None \<Longrightarrow> reason' \<noteq> None \<Longrightarrow> escalate env p txt medical reason = escalate env p txt medical reason'"
  by (cases reason; cases reason') (simp_all add: escalate_def)

text \<open>
  The order in which the detectors of the first stage finish decides neither which parts of the
  text the reported spans cover nor the stages that run nor whether the text counts as medical.
\<close>

theorem coverage_schedule_independent:
  assumes "detect env finished p txt = (p1, Inr r1)" and "detect env finished' p txt = (p2, Inr r2)"
    and "mset finished = mset finished'" and "str_strip txt \<noteq> []"
    and "\<not> pc_coref (pl_config p)" and "\<not> pc_context (pl_config p)"
  shows "covered (pr_spans r1) = covered (pr_spans r2) \<and> pr_stages r1 = pr_stages r2 \<and> pr_medical r1 = pr_medical r2"
proof -
  let ?c = "pl_config p"
  let ?reason = "\<lambda>medical xs. if medical \<and> should_escalate ?c xs = None then Some MedicalContext else should_escalate ?c xs"
  obtain a1 n1 medical more nm st where A: "run_stage1 finished txt = Inr (a1, n1)"
    "(if pc_auto_detect_medical ?c then detect_medical_context p txt else Inr False) = Inr medical"
    "escalate env p txt medical (?reason medical a1) = (p1, Inr (more, nm, st))"
    "finish_spans ?c (env_coref env) (env_enhancer env) txt (a1 @ more) = Inr (pr_spans r1)"
    "pr_stages r1 = FAST_TRIAGE # st" "pr_medical r1 = medical"
    by (rule detect_parts [OF assms(1,4)])
  obtain b1 n2 medical' more' nm' st' where B: "run_stage1 finished' txt = Inr (b1, n2)"
    "(if pc_auto_detect_medical ?c then detect_medical_context p txt else Inr False) = Inr medical'"
    "escalate env p txt medical' (?reason medical' b1) = (p2, Inr (more', nm', st'))"
    "finish_spans ?c (env_coref env) (env_enhancer env) txt (b1 @ more') = Inr (pr_spans r2)"
    "pr_stages r2 = FAST_TRIAGE # st'" "pr_medical r2 = medical'"
    by (rule detect_parts [OF assms(2,4)])
  have "set finished = set finished'" using assms(3) by (rule mset_eq_setD)
  then have same: "set a1 = set b1"
    using collect_outcome [OF A(1) [unfolded run_stage1_def]] collect_outcome [OF B(1) [unfolded run_stage1_def]] by simp
  then have none: "should_escalate ?c a1 = None \<longleftrightarrow> should_escalate ?c b1 = None" by (simp add: should_escalate_None)
  have med: "medical' = medical" using A(2) B(2) by (simp split: if_splits)
  have "?reason medical a1 = None \<longleftrightarrow> ?reason medical b1 = None" using none by auto
  then have "escalate env p txt medical (?reason medical a1) = escalate env p txt medical (?reason medical b1)"
    using escalate_any_reason [of "?reason medical a1" "?reason medical b1" env p "txt" medical]
    by (cases "?reason medical b1 = None") auto
  then have more: "more' = more" "st' = st" using A(3) B(3) unfolding med by simp_all
  have "covered (sort_key k xs) = covered xs" for k :: "span \<Rightarrow> int \<times> int" and xs by (simp add: covered_def)
  then have "covered (pr_spans r1) = covered (filter (\<lambda>s. pc_confidence_threshold ?c \<le> sp_confidence s) (a1 @ more))"
    "covered (pr_spans r2) = covered (filter (\<lambda>s. pc_confidence_threshold ?c \<le> sp_confidence s) (b1 @ more))"
    using finish_plain [OF assms(5,6) A(4)] finish_plain [OF assms(5,6) B(4)] more(1)
    by (simp_all only: covered_drop_duplicates)
  then have "covered (pr_spans r1) = covered (pr_spans r2)" using same by (simp add: covered_def)
  then show ?thesis using A(5,6) B(5,6) more(2) med by simp
qed

text \<open>The reported spans themselves do depend on it: of two spans that start together, with equal tier
  and confidence, the shorter one is dropped only when it comes second.\<close>

lemma report_depends_on_schedule:
  assumes "s = ex_span 0 ''12'' ''AGE'' (9/10) TIER_PATTERN" and "t = ex_span 0 ''12345'' ''ZIP'' (9/10) TIER_PATTERN"
  shows "drop_duplicates [s, t] = [s, t]" and "drop_duplicates [t, s] = [t]"
  using assms by (simp_all add: drop_duplicates_def triage_key_def absorbed_by_def overlaps_def contains_def ex_span_def)

section \<open>What the stages report\<close>

text \<open>
  The stages of a detection are decided by the spans of the first stage, the medical test and
  the loaded models alone: escalation happens exactly when a span is doubtful, a span of a type the
  models know better is not nearly certain, or the text is medical.
\<close>

theorem escalation_decided:
  assumes "detect env finished p txt = (p', Inr r)" and "str_strip txt \<noteq> []"
    and "run_stage1 finished txt = Inr (spans, names)"
  shows "(pr_reason r = None \<longleftrightarrow> \<not> pr_medical r \<and> (\<forall>s \<in> set spans. pc_escalation_threshold (pl_config p) \<le> sp_confidence s \<and>
      (normalize_entity_type (sp_entity_type s) \<in> set ML_BENEFICIAL_TYPES \<longrightarrow> 90 / 100 \<le> sp_confidence s))) \<and>
    pr_stages r = FAST_TRIAGE # (if pr_reason r = None then []
      else if pr_medical r \<and> pc_dual_bert (pl_config p) then [DEEP_ANALYSIS]
      else if ml_detectors p' \<noteq> [] then [ML_ESCALATION] else []) \<and>
    p' = (if pr_reason r = None then p else init_ml_detectors (env_models env) p)"
proof -
  obtain s1 n1 medical more nm st where parts: "run_stage1 finished txt = Inr (s1, n1)"
    "escalate env p txt medical (if medical \<and> should_escalate (pl_config p) s1 = None then Some MedicalContext
       else should_escalate (pl_config p) s1) = (p', Inr (more, nm, st))"
    "pr_stages r = FAST_TRIAGE # st" "pr_medical r = medical"
    "pr_reason r = (if medical \<and> should_escalate (pl_config p) s1 = None then Some MedicalContext
       else should_escalate (pl_config p) s1)"
    using detect_parts [OF assms(1,2)] by metis
  have s1: "s1 = spans" using parts(1) assms(3) by simp
  have "pl_config (init_ml_detectors m p) = pl_config p" for m by (simp add: init_ml_detectors_def)
  then have "st = (if pr_reason r = None then []
      else if medical \<and> pc_dual_bert (pl_config p) then [DEEP_ANALYSIS]
      else if ml_detectors p' \<noteq> [] then [ML_ESCALATION] else []) \<and>
    p' = (if pr_reason r = None then p else init_ml_detectors (env_models env) p)"
    using parts(2) unfolding parts(5) [symmetric]
    by (auto simp: escalate_def Let_def res_simps split: if_splits)
  moreover have "pr_reason r = None \<longleftrightarrow> \<not> medical \<and> should_escalate (pl_config p) spans = None"
    unfolding parts(5) s1 by auto
  ultimately show ?thesis unfolding parts(3,4) should_escalate_None by (auto simp: not_less)
qed

text \<open>A model that fails raises \<open>DetectionError\<close>, which the pipeline does not catch: the findings of
  the first stage are lost with it.\<close>

lemma model_failure_aborts_detection:
  assumes "str_strip txt \<noteq> []" and "run_stage1 finished txt = Inr (spans, names)"
    and "should_escalate (pl_config p) spans \<noteq> None" and "\<not> pc_auto_detect_medical (pl_config p)"
    and "pl_pii p = Some d" and "d_detect d txt = Inl DetectionErr"
  shows "snd (detect env finished p txt) = Inl DetectionErr"
proof -
  have "ml_detectors p \<noteq> []" using assms(5) by (simp add: ml_detectors_def)
  then have "escalate env p txt False (should_escalate (pl_config p) spans) = (p, Inl DetectionErr)"
    using assms(3,5,6) by (simp add: escalate_def init_ml_detectors_def run_stage2_def handled_by_pipeline_def)
  then show ?thesis using assms by (simp add: detect_def Let_def)
qed

text \<open>Medical texts are reported as deeply analysed although no model is there.\<close>

lemma deep_analysis_without_models:
  assumes "detect env finished p txt = (p', Inr r)" and "str_strip txt \<noteq> []" and "pr_medical r"
    and "pc_dual_bert (pl_config p)" and "ml_detectors p = []" and "env_models env = (None, None)"
  shows "pr_stages r = [FAST_TRIAGE, DEEP_ANALYSIS] \<and> ml_detectors p' = []"
proof -
  obtain s1 n1 medical more nm st where parts: "run_stage1 finished txt = Inr (s1, n1)"
    "escalate env p txt medical (if medical \<and> should_escalate (pl_config p) s1 = None then Some MedicalContext
       else should_escalate (pl_config p) s1) = (p', Inr (more, nm, st))"
    "pr_stages r = FAST_TRIAGE # st" "pr_medical r = medical"
    using detect_parts [OF assms(1,2)] by metis
  have "pl_config (init_ml_detectors m p) = pl_config p" for m by (simp add: init_ml_detectors_def)
  moreover have "ml_detectors (init_ml_detectors (None, None) p) = []"
    using assms(5) by (simp add: init_ml_detectors_def ml_detectors_def)
  ultimately show ?thesis
    using parts assms(3-6) by (auto simp: escalate_def Let_def res_simps split: if_splits)
qed

text \<open>Of nested spans the outer one stays whatever the tiers: a validated number inside a longer
  pattern match is dropped.\<close>

lemma lower_tier_hides_checksum:
  assumes "s = ex_span 0 ''tel 078-05-1120'' ''PHONE'' (7/10) TIER_PATTERN"
    and "t = ex_span 4 ''078-05-1120'' ''SSN'' 1 TIER_CHECKSUM"
  shows "drop_duplicates [s, t] = [s]"
  using assms by (simp add: drop_duplicates_def triage_key_def absorbed_by_def overlaps_def contains_def ex_span_def)

section \<open>Witnesses\<close>

definition ex_hit :: span where
  "ex_hit = ex_span 0 ''078-05-1120'' ''SSN'' 1 TIER_CHECKSUM"

definition ex_pipeline :: pipeline where
  "ex_pipeline = \<lparr>pl_config = default_pipeline\<lparr>pc_auto_detect_medical := False\<rparr>, pl_stage1 = [], pl_phi = None, pl_pii = None,
     pl_medical = None\<rparr>"

definition ex_environment :: environment where
  "ex_environment = \<lparr>env_engine = empty_engine, env_models = (None, None), env_coref = None, env_enhancer = None\<rparr>"

definition ex_finders :: "detector list" where
  "ex_finders = [ex_detector ''checksum'' (\<lambda>_. Inr [ex_hit]), ex_detector ''secrets'' (\<lambda>_. Inl OSErr)]"

lemma ex_detect:
  assumes "finished = ex_finders \<or> finished = rev ex_finders"
  obtains r where "detect ex_environment finished ex_pipeline ''078-05-1120'' = (ex_pipeline, Inr r)"
    and "run_stage1 finished ''078-05-1120'' = Inr ([ex_hit], [''checksum''])"
proof -
  have stage1: "run_stage1 finished ''078-05-1120'' = Inr ([ex_hit], [''checksum''])"
    using assms by (auto simp: ex_finders_def run_stage1_def run_detector_def ex_detector_def handled_by_pipeline_def)
  have "str_strip ''078-05-1120'' \<noteq> []" by code_simp
  moreover have "should_escalate (pl_config ex_pipeline) [ex_hit] = None"
    by (simp add: should_escalate_None ex_pipeline_def default_pipeline_def ESCALATION_THRESHOLD_def ex_hit_def ex_span_def)
  ultimately have "\<exists>r. detect ex_environment finished ex_pipeline ''078-05-1120'' = (ex_pipeline, Inr r)"
    by (simp add: detect_def stage1 escalate_def ex_pipeline_def default_pipeline_def finish_spans_def optional_step_def Let_def
        drop_duplicates_def)
  with stage1 show thesis using that by blast
qed

lemma ex_plain: "str_strip ''078-05-1120'' \<noteq> []" "\<not> pc_coref (pl_config ex_pipeline)" "\<not> pc_context (pl_config ex_pipeline)"
  by (code_simp, simp_all add: ex_pipeline_def default_pipeline_def)

theorem triage_covers_findings_witness:
  "\<exists>r. detect ex_environment ex_finders ex_pipeline ''078-05-1120'' = (ex_pipeline, Inr r) \<and> (\<exists>t \<in> set (pr_spans r). contains t ex_hit \<and> goes_first t ex_hit)"
proof -
  obtain r where r: "detect ex_environment ex_finders ex_pipeline ''078-05-1120'' = (ex_pipeline, Inr r)"
    using ex_detect by blast
  have "ex_detector ''checksum'' (\<lambda>_. Inr [ex_hit]) \<in> set ex_finders"
    "ex_hit \<in> set (found ''078-05-1120'' (ex_detector ''checksum'' (\<lambda>_. Inr [ex_hit])))"
    "pc_confidence_threshold (pl_config ex_pipeline) \<le> sp_confidence ex_hit"
    by (simp_all add: ex_finders_def found_def ex_detector_def ex_pipeline_def default_pipeline_def ex_hit_def ex_span_def)
  with triage_covers_findings [OF r ex_plain] r show ?thesis by blast
qed

theorem coverage_schedule_independent_witness:
  "\<exists>r r'. detect ex_environment ex_finders ex_pipeline ''078-05-1120'' = (ex_pipeline, Inr r) \<and>
    detect ex_environment (rev ex_finders) ex_pipeline ''078-05-1120'' = (ex_pipeline, Inr r') \<and>
    covered (pr_spans r) = covered (pr_spans r')"
proof -
  obtain r where r: "detect ex_environment ex_finders ex_pipeline ''078-05-1120'' = (ex_pipeline, Inr r)"
    using ex_detect by blast
  obtain r' where r': "detect ex_environment (rev ex_finders) ex_pipeline ''078-05-1120'' = (ex_pipeline, Inr r')"
    using ex_detect by blast
  have "mset ex_finders = mset (rev ex_finders)" by simp
  from coverage_schedule_independent [OF r r' this ex_plain] r r' show ?thesis by blast
qed

theorem escalation_decided_witness:
  "\<exists>r. detect ex_environment ex_finders ex_pipeline ''078-05-1120'' = (ex_pipeline, Inr r) \<and>
    pr_stages r = FAST_TRIAGE # (if pr_reason r = None then []
      else if pr_medical r \<and> pc_dual_bert (pl_config ex_pipeline) then [DEEP_ANALYSIS]
      else if ml_detectors ex_pipeline \<noteq> [] then [ML_ESCALATION] else [])"
proof -
  obtain r where r: "detect ex_environment ex_finders ex_pipeline ''078-05-1120'' = (ex_pipeline, Inr r)"
    "run_stage1 ex_finders ''078-05-1120'' = Inr ([ex_hit], [''checksum''])"
    using ex_detect by blast
  from escalation_decided [OF r(1) ex_plain(1) r(2)] r(1) show ?thesis by blast
qed

end
