(* ===== verification/Py_Glob.thy ===== *)
theory Py_Glob
  imports OL_Prelude
begin

text \<open>
  Shell patterns as \<open>fnmatch.fnmatch\<close> reads them on POSIX: \<open>*\<close>, \<open>?\<close> and character classes
  \<open>[seq]\<close>, \<open>[!seq]\<close> with ranges; a bracket that is not closed stands for itself. Letter case
  matters.
\<close>

text \<open>The class that begins a pattern after its bracket: negation, members, the rest of the pattern.\<close>

definition glob_class :: "string \<Rightarrow> (bool \<times> string \<times> string) option" where
  "glob_class p =
     (let (neg, q) = (case p of c # cs \<Rightarrow> if c = CHR ''!'' then (True, cs) else (False, p) | [] \<Rightarrow> (False, p))
      in case q of
           [] \<Rightarrow> None
         | c # cs \<Rightarrow> (let body = takeWhile (\<lambda>x. x \<noteq> CHR '']'') cs
             in if body = cs then None else Some (neg, c # body, drop (length body + 1) cs)))"

fun in_class :: "char \<Rightarrow> string \<Rightarrow> bool" where
  "in_class c (a # b # d # cs) = (if b = CHR ''-'' then (chr_code a \<le> chr_code c \<and> chr_code c \<le> chr_code d) \<or> in_class c cs
     else c = a \<or> in_class c (b # d # cs))"
| "in_class c cs = (c \<in> set cs)"

lemma glob_class_shorter: "glob_class p = Some (neg, m, r) \<Longrightarrow> length r < length p"
  by (auto simp: glob_class_def Let_def split: list.splits if_splits)

function fnmatch :: "string \<Rightarrow> string \<Rightarrow> bool" where
  "fnmatch s [] = (s = [])"
| "fnmatch s (q # p) =
     (if q = CHR ''*'' then fnmatch s p \<or> (case s of [] \<Rightarrow> False | _ # s' \<Rightarrow> fnmatch s' (q # p))
      else if s = [] then False
      else if q = CHR ''?'' then fnmatch (tl s) p
      else if q = CHR ''['' then
        (case glob_class p of
           Some (neg, m, r) \<Rightarrow> (in_class (hd s) m \<noteq> neg) \<and> fnmatch (tl s) r
         | None \<Rightarrow> hd s = q \<and> fnmatch (tl s) p)
      else hd s = q \<and> fnmatch (tl s) p)"
  by pat_completeness auto
termination
proof (relation "measure (\<lambda>(s, p). length s + length p)")
  fix s p q x y neg z m r
  assume "glob_class p = Some x" "(neg, y) = x" "(m, r) = y"
  then show "((tl s, r), s, q # p) \<in> measure (\<lambda>(s, p). length s + length p)"
    using glob_class_shorter [of p neg m r] by auto
qed auto

declare fnmatch.simps [simp del]
lemmas fnmatch_simps = fnmatch.simps

lemma fnmatch_star: "fnmatch s ''*''"
  by (induction s) (simp_all add: fnmatch_simps)

lemma fnmatch_literal:
  "list_all (\<lambda>c. c \<notin> set ''*?['') p \<Longrightarrow> fnmatch s p \<longleftrightarrow> s = p"
proof (induction p arbitrary: s)
  case (Cons c p)
  then show ?case by (cases s) (auto simp: fnmatch_simps)
qed (simp add: fnmatch_simps)

text \<open>A literal prefix followed by a star matches the texts with that prefix.\<close>

lemma fnmatch_prefix_star:
  "list_all (\<lambda>c. c \<notin> set ''*?['') p \<Longrightarrow> fnmatch s (p @ ''*'') \<longleftrightarrow> starts_with s p"
proof (induction p arbitrary: s)
  case Nil
  then show ?case by (simp add: fnmatch_star starts_with_def)
next
  case (Cons c p)
  then show ?case by (cases s) (auto simp: fnmatch_simps starts_with_def)
qed

end
