(* ===== verification/Cache_Store.thy ===== *)
theory Cache_Store
  imports Py_Collections Py_Glob "HOL-Library.List_Lexorder" "HOL-Library.Char_ord"
begin

text \<open>
  The cache, \<^verbatim>\<open>src/openlabels/server/cache.py\<close>: the bounded cache in memory with its order of use
  and times of expiry, the Redis backend over a client given as functions, the manager that chooses
  between them, and the decorator that caches the results of a function. The entries of the cache
  in memory stand in a list, least recently used first. Redis answers \<open>None\<close> for an exception.
\<close>

section \<open>The cache in memory\<close>

record 'v mem_cache =
  mc_entries :: "(string \<times> 'v \<times> real option) list"
  mc_max_size :: int
  mc_hits :: nat
  mc_misses :: nat

datatype cache_error = PopFromEmpty

definition new_cache :: "int \<Rightarrow> 'v mem_cache" where
  "new_cache max_size = \<lparr>mc_entries = [], mc_max_size = max_size, mc_hits = 0, mc_misses = 0\<rparr>"

definition has_expired :: "real \<Rightarrow> real option \<Rightarrow> bool" where
  "has_expired now expires_at = (case expires_at of Some e \<Rightarrow> e \<noteq> 0 \<and> now > e | None \<Rightarrow> False)"

definition put_last :: "string \<Rightarrow> 'x \<Rightarrow> (string \<times> 'x) list \<Rightarrow> (string \<times> 'x) list" where
  "put_last k x d = dict_del k d @ [(k, x)]"

definition mem_get :: "real \<Rightarrow> string \<Rightarrow> 'v mem_cache \<Rightarrow> 'v option \<times> 'v mem_cache" where
  "mem_get now key c =
     (case map_of (mc_entries c) key of
        None \<Rightarrow> (None, c\<lparr>mc_misses := mc_misses c + 1\<rparr>)
      | Some (v, expires_at) \<Rightarrow>
          if has_expired now expires_at then
            (None, c\<lparr>mc_entries := dict_del key (mc_entries c), mc_misses := mc_misses c + 1\<rparr>)
          else (Some v, c\<lparr>mc_entries := put_last key (v, expires_at) (mc_entries c), mc_hits := mc_hits c + 1\<rparr>))"

fun pop_oldest :: "int \<Rightarrow> 'x list \<Rightarrow> cache_error + 'x list" where
  "pop_oldest m [] = (if m \<le> 0 then Inl PopFromEmpty else Inr [])"
| "pop_oldest m (x # xs) = (if int (length (x # xs)) \<ge> m then pop_oldest m xs else Inr (x # xs))"

definition expiry :: "real \<Rightarrow> int option \<Rightarrow> real option" where
  "expiry now ttl = (case ttl of Some t \<Rightarrow> if t \<noteq> 0 then Some (now + of_int t) else None | None \<Rightarrow> None)"

definition purge :: "real \<Rightarrow> int \<Rightarrow> (string \<times> 'v \<times> real option) list \<Rightarrow> (string \<times> 'v \<times> real option) list" where
  "purge now m d = (if int (length d) \<ge> m then filter (\<lambda>(_, _, e). \<not> has_expired now e) d else d)"

definition mem_set :: "real \<Rightarrow> string \<Rightarrow> 'v \<Rightarrow> int option \<Rightarrow> 'v mem_cache \<Rightarrow> cache_error + 'v mem_cache" where
  "mem_set now key v ttl c =
     res_bind (pop_oldest (mc_max_size c) (purge now (mc_max_size c) (mc_entries c))) (\<lambda>d.
       Inr (c\<lparr>mc_entries := put_last key (v, expiry now ttl) d\<rparr>))"

definition mem_delete :: "string \<Rightarrow> 'v mem_cache \<Rightarrow> bool \<times> 'v mem_cache" where
  "mem_delete key c = (if key \<in> fst ` set (mc_entries c) then (True, c\<lparr>mc_entries := dict_del key (mc_entries c)\<rparr>) else (False, c))"

definition mem_delete_pattern :: "string \<Rightarrow> 'v mem_cache \<Rightarrow> nat \<times> 'v mem_cache" where
  "mem_delete_pattern pattern c =
     (length (filter (\<lambda>(k, _). fnmatch k pattern) (mc_entries c)),
      c\<lparr>mc_entries := filter (\<lambda>(k, _). \<not> fnmatch k pattern) (mc_entries c)\<rparr>)"

definition mem_clear :: "'v mem_cache \<Rightarrow> 'v mem_cache" where
  "mem_clear c = c\<lparr>mc_entries := []\<rparr>"

definition mem_exists :: "real \<Rightarrow> string \<Rightarrow> 'v mem_cache \<Rightarrow> bool \<times> 'v mem_cache" where
  "mem_exists now key c =
     (case map_of (mc_entries c) key of
        None \<Rightarrow> (False, c)
      | Some (_, expires_at) \<Rightarrow> if has_expired now expires_at then (False, c\<lparr>mc_entries := dict_del key (mc_entries c)\<rparr>) else (True, c))"

section \<open>Events and the ideal cache\<close>

datatype 'v cache_op =
    CGet real string
  | CSet real string 'v "int option"
  | CDelete string
  | CPattern string
  | CClear
  | CExists real string

fun cache_step :: "'v cache_op \<Rightarrow> 'v mem_cache \<Rightarrow> 'v mem_cache" where
  "cache_step (CGet now k) c = snd (mem_get now k c)"
| "cache_step (CSet now k v ttl) c = (case mem_set now k v ttl c of Inr c' \<Rightarrow> c' | Inl _ \<Rightarrow> c)"
| "cache_step (CDelete k) c = snd (mem_delete k c)"
| "cache_step (CPattern p) c = snd (mem_delete_pattern p c)"
| "cache_step CClear c = mem_clear c"
| "cache_step (CExists now k) c = snd (mem_exists now k c)"

text \<open>What an unbounded cache would hold: the last value written to a key and not deleted since.\<close>

fun ideal_step :: "'v cache_op \<Rightarrow> (string \<Rightarrow> ('v \<times> real option) option) \<Rightarrow> string \<Rightarrow> ('v \<times> real option) option" where
  "ideal_step (CSet now k v ttl) m = m(k \<mapsto> (v, expiry now ttl))"
| "ideal_step (CDelete k) m = m(k := None)"
| "ideal_step (CPattern p) m = (\<lambda>k. if fnmatch k p then None else m k)"
| "ideal_step CClear m = (\<lambda>_. None)"
| "ideal_step (CGet _ _) m = m"
| "ideal_step (CExists _ _) m = m"

section \<open>Invariant\<close>

definition cache_ok :: "'v mem_cache \<Rightarrow> bool" where
  "cache_ok c \<longleftrightarrow> 0 < mc_max_size c \<and> distinct (map fst (mc_entries c)) \<and> int (length (mc_entries c)) \<le> mc_max_size c"

lemma distinct_put_last: "distinct (map fst d) \<Longrightarrow> distinct (map fst (put_last k x d))"
  by (auto simp: put_last_def keys_dict_del)

lemma map_of_put_last: "map_of (put_last k x d) = (map_of d)(k \<mapsto> x)"
  by (auto simp: put_last_def map_of_dict_del map_add_def fun_eq_iff split: option.splits)

lemma length_dict_del: "length (dict_del k d) \<le> length d"
  by (simp add: dict_del_def)

lemma length_dict_del_present:
  assumes "k \<in> fst ` set d"
  shows "length (dict_del k d) < length d"
  unfolding dict_del_def using assms by (auto intro!: length_filter_less)

lemma pop_oldest_ok:
  assumes "0 < m"
  shows "\<exists>n. pop_oldest m d = Inr (drop n d) \<and> int (length (drop n d)) < m \<and> (int (length d) < m \<longrightarrow> n = 0) \<and>
    (int (length d) = m \<longrightarrow> n = 1)"
proof (induction d)
  case (Cons x d)
  show ?case
  proof (cases "int (length (x # d)) \<ge> m")
    case True
    obtain n where n: "pop_oldest m d = Inr (drop n d)" "int (length (drop n d)) < m" "int (length d) < m \<longrightarrow> n = 0"
      using Cons by blast
    have "pop_oldest m (x # d) = Inr (drop (Suc n) (x # d))" using True n(1) by simp
    moreover have "int (length (drop (Suc n) (x # d))) < m" using n(2) by simp
    moreover have "int (length (x # d)) = m \<longrightarrow> Suc n = 1" using n(3) by simp
    ultimately show ?thesis using True by (intro exI [of _ "Suc n"]) simp
  next
    case False
    then show ?thesis by (intro exI [of _ 0]) simp
  qed
qed (use assms in auto)

lemma distinct_purge: "distinct (map fst d) \<Longrightarrow> distinct (map fst (purge now m d))"
  by (simp add: purge_def distinct_map_filter)

lemma length_purge: "length (purge now m d) \<le> length d"
  by (simp add: purge_def)

text \<open>What writing does: some of the oldest entries go, after the expired ones when the cache is full.\<close>

lemma mem_set_ok:
  assumes "cache_ok c"
  obtains n where "mem_set now k v ttl c =
      Inr (c\<lparr>mc_entries := put_last k (v, expiry now ttl) (drop n (purge now (mc_max_size c) (mc_entries c)))\<rparr>)"
    and "int (length (drop n (purge now (mc_max_size c) (mc_entries c)))) < mc_max_size c"
    and "n = 0 \<or> (n = 1 \<and> int (length (purge now (mc_max_size c) (mc_entries c))) = mc_max_size c)"
proof -
  let ?d = "purge now (mc_max_size c) (mc_entries c)"
  obtain n where n: "pop_oldest (mc_max_size c) ?d = Inr (drop n ?d)" "int (length (drop n ?d)) < mc_max_size c"
    "int (length ?d) < mc_max_size c \<longrightarrow> n = 0" "int (length ?d) = mc_max_size c \<longrightarrow> n = 1"
    using pop_oldest_ok [of "mc_max_size c" ?d] assms by (auto simp: cache_ok_def)
  have "int (length ?d) \<le> mc_max_size c"
    using assms length_purge [of now "mc_max_size c" "mc_entries c"] by (simp add: cache_ok_def)
  then have "n = 0 \<or> (n = 1 \<and> int (length ?d) = mc_max_size c)" using n(3,4) by linarith
  with n(1,2) show thesis using that [of n] by (simp add: mem_set_def)
qed

lemma cache_ok_counts [simp]:
  "cache_ok (c\<lparr>mc_hits := n\<rparr>) = cache_ok c" "cache_ok (c\<lparr>mc_misses := n\<rparr>) = cache_ok c"
  "cache_ok (c\<lparr>mc_entries := d, mc_hits := n\<rparr>) = cache_ok (c\<lparr>mc_entries := d\<rparr>)"
  "cache_ok (c\<lparr>mc_entries := d, mc_misses := n\<rparr>) = cache_ok (c\<lparr>mc_entries := d\<rparr>)"
  by (simp_all add: cache_ok_def)

lemma cache_ok_smaller:
  "cache_ok c \<Longrightarrow> distinct (map fst d) \<Longrightarrow> length d \<le> length (mc_entries c) \<Longrightarrow> cache_ok (c\<lparr>mc_entries := d\<rparr>)"
  by (simp add: cache_ok_def)

lemma cache_ok_del: "cache_ok c \<Longrightarrow> cache_ok (c\<lparr>mc_entries := dict_del k (mc_entries c)\<rparr>)"
  by (rule cache_ok_smaller) (simp_all add: cache_ok_def distinct_dict_del length_dict_del)

lemma cache_ok_touch:
  assumes "cache_ok c" and "map_of (mc_entries c) k = Some y"
  shows "cache_ok (c\<lparr>mc_entries := put_last k x (mc_entries c)\<rparr>)"
proof (rule cache_ok_smaller [OF assms(1)])
  show "distinct (map fst (put_last k x (mc_entries c)))"
    using assms(1) by (simp add: cache_ok_def distinct_put_last)
  have "k \<in> fst ` set (mc_entries c)" using assms(2) by (metis domI dom_map_of_conv_image_fst)
  then show "length (put_last k x (mc_entries c)) \<le> length (mc_entries c)"
    using length_dict_del_present by (simp add: put_last_def Suc_le_eq)
qed

lemma cache_ok_set:
  assumes "cache_ok c" and "mem_set now k v ttl c = Inr c'"
  shows "cache_ok c' \<and> mc_max_size c' = mc_max_size c"
proof -
  let ?d = "purge now (mc_max_size c) (mc_entries c)"
  obtain n where n: "mem_set now k v ttl c = Inr (c\<lparr>mc_entries := put_last k (v, expiry now ttl) (drop n ?d)\<rparr>)"
    "int (length (drop n ?d)) < mc_max_size c"
    by (rule mem_set_ok [OF assms(1)])
  have "distinct (map fst (drop n ?d))"
    using assms(1) distinct_purge unfolding drop_map [symmetric] by (intro distinct_drop) (auto simp: cache_ok_def)
  moreover have "int (length (put_last k (v, expiry now ttl) (drop n ?d))) \<le> mc_max_size c"
    using n(2) length_dict_del [of k "drop n ?d"] by (simp add: put_last_def)
  ultimately show ?thesis
    using assms n(1) by (auto simp: cache_ok_def distinct_put_last)
qed

lemma cache_step_ok:
  assumes "cache_ok c"
  shows "cache_ok (cache_step e c)" and "mc_max_size (cache_step e c) = mc_max_size c"
proof -
  have filter: "cache_ok (c\<lparr>mc_entries := filter P (mc_entries c)\<rparr>)" for P
    by (rule cache_ok_smaller [OF assms]) (use assms in \<open>simp_all add: cache_ok_def distinct_map_filter\<close>)
  have empty: "cache_ok (c\<lparr>mc_entries := []\<rparr>)" by (rule cache_ok_smaller [OF assms]) simp_all
  show "cache_ok (cache_step e c)"
    using assms cache_ok_del [OF assms] cache_ok_touch [OF assms] cache_ok_set [OF assms] filter empty
    by (cases e) (auto simp: mem_get_def mem_delete_def mem_delete_pattern_def mem_clear_def mem_exists_def
        split: option.split sum.split)
  show "mc_max_size (cache_step e c) = mc_max_size c"
    using cache_ok_set [OF assms]
    by (cases e) (auto simp: mem_get_def mem_delete_def mem_delete_pattern_def mem_clear_def mem_exists_def
        split: option.split sum.split)
qed

interpretation memory_cache: event_machine cache_step cache_ok
  by unfold_locales (simp add: cache_step_ok)

section \<open>What is answered is what was written\<close>

lemma map_of_sub:
  "set d' \<subseteq> set d \<Longrightarrow> distinct (map fst d) \<Longrightarrow> map_of d' k = Some x \<Longrightarrow> map_of d k = Some x"
  by (auto dest: map_of_SomeD)

definition subcache :: "'v mem_cache \<Rightarrow> (string \<Rightarrow> ('v \<times> real option) option) \<Rightarrow> bool" where
  "subcache c m \<longleftrightarrow> (\<forall>k x. map_of (mc_entries c) k = Some x \<longrightarrow> m k = Some x)"

lemma subcache_smaller:
  assumes "subcache c m" and "cache_ok c" and "set d \<subseteq> set (mc_entries c)"
    and "map_of d k = Some x"
  shows "m k = Some x"
proof -
  have "map_of (mc_entries c) k = Some x"
    by (rule map_of_sub [OF assms(3) _ assms(4)]) (use assms(2) in \<open>simp add: cache_ok_def\<close>)
  then show ?thesis using assms(1) unfolding subcache_def by blast
qed

lemma set_dict_del: "set (dict_del k d) = {(k', x) \<in> set d. k' \<noteq> k}"
  by (auto simp: dict_del_def)

lemma set_purge: "set (purge now m d) \<subseteq> set d"
  by (auto simp: purge_def)

lemma subcache_set:
  assumes "subcache c m" and "cache_ok c" and "mem_set now k v ttl c = Inr c'"
  shows "subcache c' (m(k \<mapsto> (v, expiry now ttl)))"
proof -
  obtain n where n: "mem_set now k v ttl c =
      Inr (c\<lparr>mc_entries := put_last k (v, expiry now ttl) (drop n (purge now (mc_max_size c) (mc_entries c)))\<rparr>)"
    by (rule mem_set_ok [OF assms(2)])
  have sub: "set (drop n (purge now (mc_max_size c) (mc_entries c))) \<subseteq> set (mc_entries c)"
    using set_drop_subset set_purge by (rule subset_trans)
  have "c' = c\<lparr>mc_entries := put_last k (v, expiry now ttl) (drop n (purge now (mc_max_size c) (mc_entries c)))\<rparr>"
    using n assms(3) by simp
  then show ?thesis using subcache_smaller [OF assms(1,2) sub] by (simp add: subcache_def map_of_put_last)
qed

lemma subcache_step:
  assumes "subcache c m" and "cache_ok c"
  shows "subcache (cache_step e c) (ideal_step e m)"
proof -
  have same: "map_of (put_last k x (mc_entries c)) = map_of (mc_entries c)" if "map_of (mc_entries c) k = Some x" for k x
    using that by (auto simp: map_of_put_last)
  have del: "subcache (c\<lparr>mc_entries := dict_del k (mc_entries c)\<rparr>) (m(k := None))"
    "subcache (c\<lparr>mc_entries := dict_del k (mc_entries c)\<rparr>) m" for k
    using assms(1) by (auto simp: subcache_def map_of_dict_del split: if_splits)
  have ext: "subcache (c\<lparr>mc_misses := n\<rparr>) m = subcache c m" "subcache (c\<lparr>mc_entries := d, mc_misses := n\<rparr>) m = subcache (c\<lparr>mc_entries := d\<rparr>) m"
    "subcache (c\<lparr>mc_entries := d, mc_hits := n\<rparr>) m = subcache (c\<lparr>mc_entries := d\<rparr>) m" for n d m
    by (simp_all add: subcache_def)
  show ?thesis
  proof (cases e)
    case (CGet now k)
    then show ?thesis
      using assms(1) del same by (cases "map_of (mc_entries c) k") (auto simp: mem_get_def ext, simp add: subcache_def)
  next
    case (CSet now k v ttl)
    obtain c' where "mem_set now k v ttl c = Inr c'" by (rule mem_set_ok [OF assms(2)])
    then show ?thesis using subcache_set [OF assms] by (simp add: CSet)
  next
    case (CDelete k)
    show ?thesis
    proof (cases "k \<in> fst ` set (mc_entries c)")
      case False
      then have "map_of (mc_entries c) k = None" by (simp add: map_of_eq_None_iff)
      then have "subcache c (m(k := None))" using assms(1) by (auto simp: subcache_def)
      with False show ?thesis by (simp add: CDelete mem_delete_def)
    qed (simp add: CDelete mem_delete_def del(1))
  next
    case (CPattern p)
    have "set (filter (\<lambda>(k, _). \<not> fnmatch k p) (mc_entries c)) \<subseteq> set (mc_entries c)" by auto
    from subcache_smaller [OF assms this] show ?thesis
      by (auto simp: CPattern mem_delete_pattern_def subcache_def dest!: map_of_SomeD)
  next
    case (CExists now k)
    then show ?thesis using assms(1) del by (cases "map_of (mc_entries c) k") (auto simp: mem_exists_def)
  qed (use assms(1) in \<open>simp add: mem_clear_def subcache_def\<close>)
qed

lemma subcache_fold:
  "subcache c m \<Longrightarrow> cache_ok c \<Longrightarrow> subcache (fold cache_step es c) (fold ideal_step es m)"
  by (induction es arbitrary: c m) (simp_all add: subcache_step cache_step_ok)

lemma max_size_fold: "cache_ok c \<Longrightarrow> mc_max_size (fold cache_step es c) = mc_max_size c"
  by (induction es arbitrary: c) (simp_all add: cache_step_ok)

text \<open>
  After any sequence of operations the cache holds at most its maximal number of entries, and
  what it answers for a key is the value last written to that key, neither deleted since nor
  expired.
\<close>

theorem cache_coherent:
  assumes "0 < m" and "mem_get now k (fold cache_step es (new_cache m)) = (Some v, c)"
  shows "int (length (mc_entries (fold cache_step es (new_cache m)))) \<le> m \<and>
    (\<exists>e. fold ideal_step es (\<lambda>_. None) k = Some (v, e) \<and> \<not> has_expired now e)"
proof -
  let ?c = "fold cache_step es (new_cache m)"
  have start: "cache_ok (new_cache m :: 'a mem_cache)" "subcache (new_cache m :: 'a mem_cache) (\<lambda>_. None)"
    using assms(1) by (simp_all add: cache_ok_def subcache_def new_cache_def)
  have "int (length (mc_entries ?c)) \<le> mc_max_size ?c"
    using memory_cache.fold_inv [OF start(1), of es] by (simp add: cache_ok_def)
  then have size: "int (length (mc_entries ?c)) \<le> m"
    using max_size_fold [OF start(1), of es] by (simp add: new_cache_def)
  obtain e where e: "map_of (mc_entries ?c) k = Some (v, e)" "\<not> has_expired now e"
    using assms(2) by (auto simp: mem_get_def split: option.splits if_splits)
  have "fold ideal_step es (\<lambda>_. None) k = Some (v, e)"
    using subcache_fold [OF start(2,1), of es] e(1) by (simp add: subcache_def)
  with size e(2) show ?thesis by blast
qed

section \<open>How long an entry stays\<close>

fun touched :: "'v cache_op \<Rightarrow> string set" where
  "touched (CGet _ k) = {k}"
| "touched (CSet _ k _ _) = {k}"
| "touched _ = {}"

text \<open>What does not remove or overwrite the entry of a key that expires at the given time.\<close>

fun spares :: "string \<Rightarrow> real option \<Rightarrow> 'v cache_op \<Rightarrow> bool" where
  "spares k e (CGet now _) = (\<not> has_expired now e)"
| "spares k e (CSet now k' _ _) = (k' \<noteq> k \<and> \<not> has_expired now e)"
| "spares k e (CDelete k') = (k' \<noteq> k)"
| "spares k e (CPattern p) = (\<not> fnmatch k p)"
| "spares k e CClear = False"
| "spares k e (CExists now _) = (\<not> has_expired now e)"

text \<open>The entry is there, and only keys of the given set were used after it.\<close>

definition used_recently :: "string \<Rightarrow> 'v \<times> real option \<Rightarrow> string set \<Rightarrow> 'v mem_cache \<Rightarrow> bool" where
  "used_recently k x U c \<longleftrightarrow> (\<exists>A B. mc_entries c = A @ (k, x) # B \<and> fst ` set B \<subseteq> U)"

lemma used_recentlyI: "mc_entries c = A @ (k, x) # B \<Longrightarrow> fst ` set B \<subseteq> U \<Longrightarrow> used_recently k x U c"
  by (auto simp: used_recently_def)

lemma dict_del_append: "dict_del k (xs @ ys) = dict_del k xs @ dict_del k ys"
  by (simp add: dict_del_def)

lemma used_recently_lookup:
  assumes "used_recently k x U c" and "cache_ok c"
  shows "map_of (mc_entries c) k = Some x"
  using assms by (auto simp: used_recently_def cache_ok_def)

lemma used_recently_filter:
  assumes "mc_entries c = A @ (k, x) # B" and "fst ` set B \<subseteq> U" and "P (k, x)"
  shows "used_recently k x U (c'\<lparr>mc_entries := filter P (mc_entries c)\<rparr>)"
  by (rule used_recentlyI [where A = "filter P A" and B = "filter P B"]) (use assms in auto)

lemma used_recently_set:
  assumes "mc_entries c = A @ (k, x) # B" and "fst ` set B \<subseteq> U" and "cache_ok c" and "k' \<noteq> k"
    and "\<not> has_expired now (snd x)" and "finite U" and "int (card U) + 1 < mc_max_size c"
    and "mem_set now k' v ttl c = Inr c'"
  shows "used_recently k x (insert k' U) c'"
proof -
  let ?d = "purge now (mc_max_size c) (mc_entries c)"
  obtain n where n: "mem_set now k' v ttl c = Inr (c\<lparr>mc_entries := put_last k' (v, expiry now ttl) (drop n ?d)\<rparr>)"
    "n = 0 \<or> (n = 1 \<and> int (length ?d) = mc_max_size c)"
    by (rule mem_set_ok [OF assms(3)])
  obtain A1 B1 where d: "?d = A1 @ (k, x) # B1" and B1: "set B1 \<subseteq> set B"
  proof (cases "int (length (mc_entries c)) \<ge> mc_max_size c")
    case True
    have "?d = filter (\<lambda>(_, _, e). \<not> has_expired now e) A @ (k, x) # filter (\<lambda>(_, _, e). \<not> has_expired now e) B"
      using True assms(1,5) by (cases x) (simp add: purge_def)
    then show thesis by (rule that) auto
  next
    case False
    then show thesis using assms(1) that [of A B] by (simp add: purge_def)
  qed
  have "distinct (map fst ?d)" using assms(3) by (simp add: distinct_purge cache_ok_def)
  then have "distinct (map fst B1)" by (simp add: d)
  then have "length B1 = card (fst ` set B1)" using distinct_card by fastforce
  also have "\<dots> \<le> card U" using assms(2,6) B1 by (intro card_mono) auto
  finally have "length B1 \<le> card U" .
  then have front: "A1 \<noteq> []" if "n = 1" using that n(2) assms(7) by (auto simp: d)
  have "drop n ?d = drop n A1 @ (k, x) # B1" using n(2) front by (cases A1) (auto simp: d)
  then have "mc_entries c' = dict_del k' (drop n A1) @ (k, x) # (dict_del k' B1 @ [(k', (v, expiry now ttl))])"
    using n(1) assms(4,8) by (auto simp: put_last_def dict_del_append) (simp add: dict_del_def)
  then show ?thesis by (rule used_recentlyI) (use assms(2) B1 in \<open>auto simp: set_dict_del\<close>)
qed

lemma used_recently_step:
  assumes "used_recently k x U c" and "cache_ok c" and "spares k (snd x) e"
    and "finite U" and "int (card (U \<union> (touched e - {k}))) + 1 < mc_max_size c"
  shows "used_recently k x (U \<union> (touched e - {k})) (cache_step e c)"
proof -
  obtain A B where AB: "mc_entries c = A @ (k, x) # B" "fst ` set B \<subseteq> U"
    using assms(1) by (auto simp: used_recently_def)
  have look: "map_of (mc_entries c) k = Some x" by (rule used_recently_lookup [OF assms(1,2)])
  have del: "used_recently k x U' (c'\<lparr>mc_entries := dict_del k' (mc_entries c)\<rparr>)" if "k' \<noteq> k" "U \<subseteq> U'" for k' U' and c' :: "'a mem_cache"
    unfolding dict_del_def by (rule used_recently_filter [OF AB(1)]) (use AB(2) that in auto)
  have stay: "used_recently k x U' c" if "U \<subseteq> U'" for U'
    by (rule used_recentlyI [OF AB(1)]) (use AB(2) that in auto)
  show ?thesis
  proof (cases e)
    case (CGet now k')
    show ?thesis
    proof (cases "k' = k")
      case True
      have "\<not> has_expired now (snd x)" using assms(3) by (simp add: CGet)
      then have "mc_entries (cache_step e c) = dict_del k (mc_entries c) @ (k, x) # []"
        using look by (cases x) (simp add: CGet True mem_get_def put_last_def)
      then show ?thesis by (rule used_recentlyI) simp
    next
      case False
      show ?thesis
      proof (cases "map_of (mc_entries c) k'")
        case None
        have "used_recently k x (U \<union> {k'}) c" by (rule stay) blast
        then show ?thesis using False by (simp add: CGet mem_get_def None used_recently_def)
      next
        case (Some y)
        obtain w ex where y: "y = (w, ex)" by force
        have after: "mc_entries (snd (mem_get now k' c)) = (if has_expired now ex then dict_del k' A @ (k, x) # dict_del k' B
            else dict_del k' A @ (k, x) # (dict_del k' B @ [(k', y)]))"
        proof -
          have "dict_del k' (mc_entries c) = dict_del k' A @ (k, x) # dict_del k' B"
            using False by (simp add: AB(1) dict_del_def)
          then show ?thesis by (simp add: mem_get_def Some y put_last_def)
        qed
        have sub: "fst ` set (dict_del k' B) \<subseteq> U \<union> {k'}" "fst ` set (dict_del k' B @ [(k', y)]) \<subseteq> U \<union> {k'}"
          using AB(2) by (auto simp: set_dict_del)
        have "used_recently k x (U \<union> {k'}) (snd (mem_get now k' c))"
        proof (cases "has_expired now ex")
          case True
          then show ?thesis using after by (intro used_recentlyI [OF _ sub(1)]) simp
        next
          case False
          then show ?thesis using after by (intro used_recentlyI [OF _ sub(2)]) simp
        qed
        then show ?thesis using False by (simp add: CGet)
      qed
    qed
  next
    case (CSet now k' v ttl)
    have k': "k' \<noteq> k" "\<not> has_expired now (snd x)" using assms(3) by (simp_all add: CSet)
    obtain c' where c': "mem_set now k' v ttl c = Inr c'" by (rule mem_set_ok [OF assms(2)])
    have "card U \<le> card (U \<union> (touched e - {k}))" using assms(4) by (intro card_mono) (auto simp: CSet)
    then have "int (card U) + 1 < mc_max_size c" using assms(5) by linarith
    from used_recently_set [OF AB assms(2) k' assms(4) this c'] show ?thesis
      using k'(1) by (simp add: CSet c')
  next
    case (CDelete k')
    then have "k' \<noteq> k" using assms(3) by simp
    then show ?thesis using del [of k' U c] stay [of U] by (simp add: CDelete mem_delete_def)
  next
    case (CPattern p)
    then have "\<not> fnmatch k p" using assms(3) by simp
    then show ?thesis
      using used_recently_filter [OF AB, where P = "\<lambda>(k, _). \<not> fnmatch k p"] by (simp add: CPattern mem_delete_pattern_def)
  next
    case (CExists now k')
    show ?thesis
    proof (cases "k' = k")
      case True
      then have "\<not> has_expired now (snd x)" using assms(3) by (simp add: CExists)
      then show ?thesis using look stay [of U] by (cases x) (simp add: CExists True mem_exists_def)
    next
      case False
      then show ?thesis
        using del [of k' U c] stay [of U] by (simp add: CExists mem_exists_def split: option.split)
    qed
  qed (use assms(3) in simp)
qed

definition others :: "string \<Rightarrow> 'v cache_op list \<Rightarrow> string set" where
  "others k es = (\<Union>e \<in> set es. touched e) - {k}"

lemma used_recently_fold:
  assumes "used_recently k x U c" and "cache_ok c" and "\<forall>e \<in> set es. spares k (snd x) e"
    and "finite U" and "int (card (U \<union> others k es)) + 1 < mc_max_size c"
  shows "used_recently k x (U \<union> others k es) (fold cache_step es c)"
  using assms
proof (induction es arbitrary: U c)
  case (Cons e es)
  let ?U = "U \<union> (touched e - {k})"
  have fin: "finite (touched e)" for e :: "'a cache_op" by (cases e) simp_all
  then have "finite (U \<union> others k (e # es))" using Cons.prems(4) by (simp add: others_def)
  then have "card ?U \<le> card (U \<union> others k (e # es))" by (rule card_mono) (auto simp: others_def)
  then have "int (card ?U) + 1 < mc_max_size c" using Cons.prems(5) by linarith
  then have "used_recently k x ?U (cache_step e c)"
    using Cons.prems by (intro used_recently_step) simp_all
  moreover have "?U \<union> others k es = U \<union> others k (e # es)" by (auto simp: others_def)
  ultimately show ?case
    using Cons.IH [of ?U "cache_step e c"] Cons.prems cache_step_ok [OF Cons.prems(2), of e] fin by simp
qed (simp add: others_def)

text \<open>
  A value that was written is still answered as long as it has not expired, nothing deletes or
  overwrites it, and the other keys used since number at least two less than the cache can hold.
\<close>

theorem recent_entry_kept:
  assumes "cache_ok c" and "mem_set start k v ttl c = Inr c'" and "\<forall>e \<in> set es. spares k (expiry start ttl) e"
    and "int (card (others k es)) + 1 < mc_max_size c" and "\<not> has_expired now (expiry start ttl)"
  shows "fst (mem_get now k (fold cache_step es c')) = Some v"
proof -
  let ?x = "(v, expiry start ttl)"
  obtain n where "mem_set start k v ttl c =
      Inr (c\<lparr>mc_entries := put_last k ?x (drop n (purge start (mc_max_size c) (mc_entries c)))\<rparr>)"
    by (rule mem_set_ok [OF assms(1)])
  then have "mc_entries c' = dict_del k (drop n (purge start (mc_max_size c) (mc_entries c))) @ (k, ?x) # []"
    using assms(2) by (auto simp: put_last_def)
  then have fresh: "used_recently k ?x {} c'" by (rule used_recentlyI) simp
  have ok: "cache_ok c'" "mc_max_size c' = mc_max_size c" using cache_ok_set [OF assms(1,2)] by auto
  have "used_recently k ?x ({} \<union> others k es) (fold cache_step es c')"
    by (rule used_recently_fold [OF fresh ok(1)]) (use assms(3,4) ok(2) in simp_all)
  then have "map_of (mc_entries (fold cache_step es c')) k = Some ?x"
    by (rule used_recently_lookup) (rule memory_cache.fold_inv [OF ok(1)])
  then show ?thesis using assms(5) by (simp add: mem_get_def)
qed

text \<open>Writing a key again when the cache is full throws out the oldest entry although no room is
  needed: with room for two, one other key suffices to lose an entry.\<close>

lemma overwrite_evicts:
  "\<exists>c. fold cache_step [CSet 0 ''a'' True None, CSet 1 ''b'' True None, CSet 2 ''b'' True None] (new_cache 2) = c \<and>
    map fst (mc_entries c) = [''b'']"
  by (simp add: new_cache_def mem_set_def purge_def put_last_def dict_del_def expiry_def has_expired_def)

text \<open>A cache without room raises on every write.\<close>

lemma no_room_raises: "m \<le> 0 \<Longrightarrow> mem_set now k v ttl (new_cache m) = Inl PopFromEmpty"
  by (simp add: mem_set_def new_cache_def purge_def)

section \<open>Redis\<close>

text \<open>
  The client: each call answers \<open>None\<close> when it raises one of the caught exceptions. \<open>cl_set\<close> stands
  for \<open>set\<close> and, with a time to live, \<open>setex\<close>.
\<close>

record 's client =
  cl_ping :: "'s \<Rightarrow> bool"
  cl_get :: "string \<Rightarrow> 's \<Rightarrow> string option option"
  cl_set :: "string \<Rightarrow> string \<Rightarrow> int option \<Rightarrow> 's \<Rightarrow> 's option"
  cl_delete :: "string list \<Rightarrow> 's \<Rightarrow> (nat \<times> 's) option"
  cl_exists :: "string \<Rightarrow> 's \<Rightarrow> nat option"
  cl_scan :: "int \<Rightarrow> string \<Rightarrow> 's \<Rightarrow> (int \<times> string list) option"
  cl_dumps :: "json \<Rightarrow> string"
  cl_loads :: "string \<Rightarrow> json option"

record 's redis_cache =
  rc_prefix :: string
  rc_connected :: bool
  rc_hits :: nat
  rc_misses :: nat
  rc_server :: 's

definition make_key :: "'s redis_cache \<Rightarrow> string \<Rightarrow> string" where
  "make_key r key = rc_prefix r @ key"

definition redis_connect :: "'s client \<Rightarrow> 's redis_cache \<Rightarrow> bool \<times> 's redis_cache" where
  "redis_connect cl r = (if cl_ping cl (rc_server r) then (True, r\<lparr>rc_connected := True\<rparr>) else (False, r))"

definition redis_get :: "'s client \<Rightarrow> string \<Rightarrow> 's redis_cache \<Rightarrow> json \<times> 's redis_cache" where
  "redis_get cl key r =
     (if \<not> rc_connected r then (JNull, r)
      else case cl_get cl (make_key r key) (rc_server r) of
        Some (Some s) \<Rightarrow> (case cl_loads cl s of Some j \<Rightarrow> j | None \<Rightarrow> JStr s, r\<lparr>rc_hits := rc_hits r + 1\<rparr>)
      | _ \<Rightarrow> (JNull, r\<lparr>rc_misses := rc_misses r + 1\<rparr>))"

definition redis_set :: "'s client \<Rightarrow> string \<Rightarrow> json \<Rightarrow> int option \<Rightarrow> 's redis_cache \<Rightarrow> bool \<times> 's redis_cache" where
  "redis_set cl key value ttl r =
     (if \<not> rc_connected r then (False, r)
      else case cl_set cl (make_key r key) (case value of JStr s \<Rightarrow> s | _ \<Rightarrow> cl_dumps cl value)
             (if ttl = Some 0 then None else ttl) (rc_server r) of
        Some s \<Rightarrow> (True, r\<lparr>rc_server := s\<rparr>)
      | None \<Rightarrow> (False, r))"

definition redis_delete :: "'s client \<Rightarrow> string \<Rightarrow> 's redis_cache \<Rightarrow> bool \<times> 's redis_cache" where
  "redis_delete cl key r =
     (if \<not> rc_connected r then (False, r)
      else case cl_delete cl [make_key r key] (rc_server r) of
        Some (n, s) \<Rightarrow> (n > 0, r\<lparr>rc_server := s\<rparr>)
      | None \<Rightarrow> (False, r))"

definition redis_exists :: "'s client \<Rightarrow> string \<Rightarrow> 's redis_cache \<Rightarrow> bool" where
  "redis_exists cl key r =
     (rc_connected r \<and> (case cl_exists cl (make_key r key) (rc_server r) of Some n \<Rightarrow> n > 0 | None \<Rightarrow> False))"

text \<open>The scan ends when the server answers cursor 0; a failing call ends it with what is deleted so far lost.\<close>

partial_function (option) scan_loop :: "'s client \<Rightarrow> string \<Rightarrow> int \<Rightarrow> nat \<Rightarrow> 's \<Rightarrow> (nat \<times> 's) option" where
  "scan_loop cl pattern cursor deleted s =
     (case cl_scan cl cursor pattern s of
        None \<Rightarrow> Some (0, s)
      | Some (next_cursor, keys) \<Rightarrow>
          (case (if keys = [] then Some (0, s) else cl_delete cl keys s) of
             None \<Rightarrow> Some (0, s)
           | Some (n, s') \<Rightarrow>
               if next_cursor = 0 then Some (deleted + n, s') else scan_loop cl pattern next_cursor (deleted + n) s'))"

definition redis_delete_pattern :: "'s client \<Rightarrow> string \<Rightarrow> 's redis_cache \<Rightarrow> (nat \<times> 's redis_cache) option" where
  "redis_delete_pattern cl pattern r =
     (if \<not> rc_connected r then Some (0, r)
      else case scan_loop cl (make_key r pattern) 0 0 (rc_server r) of
        Some (n, s) \<Rightarrow> Some (n, r\<lparr>rc_server := s\<rparr>)
      | None \<Rightarrow> None)"

definition redis_clear :: "'s client \<Rightarrow> 's redis_cache \<Rightarrow> 's redis_cache option" where
  "redis_clear cl r = map_option snd (redis_delete_pattern cl ''*'' r)"

definition redis_close :: "'s redis_cache \<Rightarrow> 's redis_cache" where
  "redis_close r = r\<lparr>rc_connected := False\<rparr>"

section \<open>The manager\<close>

record 's cache_manager =
  cm_enabled :: bool
  cm_default_ttl :: int
  cm_redis :: "'s redis_cache option"
  cm_memory :: "json mem_cache"
  cm_locks :: "string set"

definition new_manager :: "string option \<Rightarrow> string \<Rightarrow> int \<Rightarrow> int \<Rightarrow> bool \<Rightarrow> 's \<Rightarrow> 's cache_manager" where
  "new_manager url prefix default_ttl max_size on server =
     \<lparr>cm_enabled = on, cm_default_ttl = default_ttl,
      cm_redis = (if url \<noteq> None \<and> url \<noteq> Some [] \<and> on
        then Some \<lparr>rc_prefix = prefix, rc_connected = False, rc_hits = 0, rc_misses = 0, rc_server = server\<rparr> else None),
      cm_memory = new_cache max_size, cm_locks = {}\<rparr>"

definition manager_initialize :: "'s client \<Rightarrow> 's cache_manager \<Rightarrow> 's cache_manager" where
  "manager_initialize cl m =
     (if \<not> cm_enabled m then m else m\<lparr>cm_redis := map_option (\<lambda>r. snd (redis_connect cl r)) (cm_redis m)\<rparr>)"

text \<open>The backend in use: Redis when the connection was made, the memory otherwise.\<close>

definition active_redis :: "'s cache_manager \<Rightarrow> 's redis_cache option" where
  "active_redis m = (case cm_redis m of Some r \<Rightarrow> if rc_connected r then Some r else None | None \<Rightarrow> None)"

definition manager_get :: "'s client \<Rightarrow> real \<Rightarrow> string \<Rightarrow> 's cache_manager \<Rightarrow> json \<times> 's cache_manager" where
  "manager_get cl now key m =
     (if \<not> cm_enabled m then (JNull, m)
      else case active_redis m of
        Some r \<Rightarrow> (let (v, r') = redis_get cl key r in (v, m\<lparr>cm_redis := Some r'\<rparr>))
      | None \<Rightarrow> (let (v, c) = mem_get now key (cm_memory m)
           in (case v of Some j \<Rightarrow> j | None \<Rightarrow> JNull, m\<lparr>cm_memory := c\<rparr>)))"

definition ttl_or_default :: "int option \<Rightarrow> 's cache_manager \<Rightarrow> int option" where
  "ttl_or_default ttl m = (case ttl of Some t \<Rightarrow> if t \<noteq> 0 then Some t else Some (cm_default_ttl m) | None \<Rightarrow> Some (cm_default_ttl m))"

definition manager_set ::
    "'s client \<Rightarrow> real \<Rightarrow> string \<Rightarrow> json \<Rightarrow> int option \<Rightarrow> 's cache_manager \<Rightarrow> cache_error + bool \<times> 's cache_manager" where
  "manager_set cl now key value ttl m =
     (if \<not> cm_enabled m then Inr (False, m)
      else case active_redis m of
        Some r \<Rightarrow> (let (ok, r') = redis_set cl key value (ttl_or_default ttl m) r in Inr (ok, m\<lparr>cm_redis := Some r'\<rparr>))
      | None \<Rightarrow> res_bind (mem_set now key value (ttl_or_default ttl m) (cm_memory m)) (\<lambda>c. Inr (True, m\<lparr>cm_memory := c\<rparr>)))"

definition manager_delete :: "'s client \<Rightarrow> string \<Rightarrow> 's cache_manager \<Rightarrow> bool \<times> 's cache_manager" where
  "manager_delete cl key m =
     (if \<not> cm_enabled m then (False, m)
      else case active_redis m of
        Some r \<Rightarrow> (let (ok, r') = redis_delete cl key r in (ok, m\<lparr>cm_redis := Some r'\<rparr>))
      | None \<Rightarrow> (let (ok, c) = mem_delete key (cm_memory m) in (ok, m\<lparr>cm_memory := c\<rparr>)))"

definition manager_delete_pattern :: "'s client \<Rightarrow> string \<Rightarrow> 's cache_manager \<Rightarrow> (nat \<times> 's cache_manager) option" where
  "manager_delete_pattern cl pattern m =
     (if \<not> cm_enabled m then Some (0, m)
      else case active_redis m of
        Some r \<Rightarrow> map_option (\<lambda>(n, r'). (n, m\<lparr>cm_redis := Some r'\<rparr>)) (redis_delete_pattern cl pattern r)
      | None \<Rightarrow> (let (n, c) = mem_delete_pattern pattern (cm_memory m) in Some (n, m\<lparr>cm_memory := c\<rparr>)))"

definition manager_exists :: "'s client \<Rightarrow> real \<Rightarrow> string \<Rightarrow> 's cache_manager \<Rightarrow> bool \<times> 's cache_manager" where
  "manager_exists cl now key m =
     (if \<not> cm_enabled m then (False, m)
      else case active_redis m of
        Some r \<Rightarrow> (redis_exists cl key r, m)
      | None \<Rightarrow> (let (ok, c) = mem_exists now key (cm_memory m) in (ok, m\<lparr>cm_memory := c\<rparr>)))"

definition manager_clear :: "'s client \<Rightarrow> 's cache_manager \<Rightarrow> 's cache_manager option" where
  "manager_clear cl m =
     (if \<not> cm_enabled m then Some m
      else case active_redis m of
        Some r \<Rightarrow> map_option (\<lambda>r'. m\<lparr>cm_redis := Some r'\<rparr>) (redis_clear cl r)
      | None \<Rightarrow> Some (m\<lparr>cm_memory := mem_clear (cm_memory m)\<rparr>))"

definition manager_close :: "'s cache_manager \<Rightarrow> 's cache_manager" where
  "manager_close m = m\<lparr>cm_redis := map_option redis_close (cm_redis m)\<rparr>"

text \<open>
  A call of the factory may raise; the lock of the key is dropped only on the way out without an
  exception. One caller at a time: the lock is free.
\<close>

datatype 'e call_error = FactoryRaised 'e | CacheRaised cache_error

definition get_or_set ::
    "'s client \<Rightarrow> real \<Rightarrow> string \<Rightarrow> ('e + json) \<Rightarrow> int option \<Rightarrow> 's cache_manager \<Rightarrow> ('e call_error + json) \<times> 's cache_manager" where
  "get_or_set cl now key factory ttl m =
     (let computed = (case factory of Inl e \<Rightarrow> Inl (FactoryRaised e) | Inr v \<Rightarrow> Inr v) in
      if \<not> cm_enabled m then (computed, m)
      else let (v, m1) = manager_get cl now key m in
        if v \<noteq> JNull then (Inr v, m1)
        else let m2 = m1\<lparr>cm_locks := insert key (cm_locks m1)\<rparr>; (w, m3) = manager_get cl now key m2 in
          if w \<noteq> JNull then (Inr w, m3)
          else case factory of
            Inl e \<Rightarrow> (computed, m3)
          | Inr u \<Rightarrow> (case manager_set cl now key u ttl m3 of
              Inl e \<Rightarrow> (Inl (CacheRaised e), m3)
            | Inr (_, m4) \<Rightarrow> (Inr u, m4\<lparr>cm_locks := cm_locks m4 - {key}\<rparr>)))"

section \<open>The decorator\<close>

text \<open>An argument: its text, and whether it is an object, whose text is hashed.\<close>

type_synonym key_arg = "bool \<times> string"

definition key_part :: "(string \<Rightarrow> string) \<Rightarrow> key_arg \<Rightarrow> string" where
  "key_part md5 a = (if fst a then take 8 (md5 (snd a)) else snd a)"

fun colon_join :: "string list \<Rightarrow> string" where
  "colon_join [] = []"
| "colon_join [s] = s"
| "colon_join (s # ss) = s @ '':'' @ colon_join ss"

definition make_cache_key ::
    "(string \<Rightarrow> string) \<Rightarrow> string \<Rightarrow> string \<Rightarrow> key_arg list \<Rightarrow> (string \<times> key_arg) list \<Rightarrow>
     (key_arg list \<Rightarrow> (string \<times> key_arg) list \<Rightarrow> string) option \<Rightarrow> string" where
  "make_cache_key md5 prefix func args kwargs key_builder =
     (case key_builder of
        Some b \<Rightarrow> prefix @ '':'' @ b args kwargs
      | None \<Rightarrow> colon_join ([prefix, func] @ map (key_part md5) args @
          map (\<lambda>(k, v). k @ ''='' @ key_part md5 v) (sort_key fst kwargs)))"

definition cached_call ::
    "'s client \<Rightarrow> real \<Rightarrow> bool \<Rightarrow> string \<Rightarrow> ('e + json) \<Rightarrow> int option \<Rightarrow> 's cache_manager option \<Rightarrow>
     ('e call_error + json) \<times> 's cache_manager option" where
  "cached_call cl now skip key func ttl manager =
     (let result = (case func of Inl e \<Rightarrow> Inl (FactoryRaised e) | Inr v \<Rightarrow> Inr v) in
      if skip then (result, manager)
      else case manager of
        None \<Rightarrow> (result, None)
      | Some m \<Rightarrow> (let (v, m1) = manager_get cl now key m in
          if v \<noteq> JNull then (Inr v, Some m1)
          else case func of
            Inl e \<Rightarrow> (result, Some m1)
          | Inr JNull \<Rightarrow> (result, Some m1)
          | Inr u \<Rightarrow> (case manager_set cl now key u ttl m1 of
              Inl e \<Rightarrow> (Inl (CacheRaised e), Some m1)
            | Inr (_, m2) \<Rightarrow> (result, Some m2))))"

section \<open>Caching does not change results\<close>

lemma mem_get_miss_entries:
  assumes "fst (mem_get now k c) = None"
  shows "map_of (mc_entries (snd (mem_get now k c))) k = None \<and> mc_max_size (snd (mem_get now k c)) = mc_max_size c"
  using assms by (auto simp: mem_get_def map_of_dict_del split: option.splits if_splits)

lemma cache_ok_get: "cache_ok c \<Longrightarrow> cache_ok (snd (mem_get now k c)) \<and> mc_max_size (snd (mem_get now k c)) = mc_max_size c"
  using cache_step_ok [of c "CGet now k"] by simp

lemma mem_get_after_set:
  assumes "cache_ok c" and "mem_set now k v ttl c = Inr c'" and "\<not> has_expired now' (expiry now ttl)"
  shows "fst (mem_get now' k c') = Some v"
proof -
  obtain n where "mem_set now k v ttl c =
      Inr (c\<lparr>mc_entries := put_last k (v, expiry now ttl) (drop n (purge now (mc_max_size c) (mc_entries c)))\<rparr>)"
    by (rule mem_set_ok [OF assms(1)])
  then show ?thesis using assms(2,3) by (auto simp: mem_get_def map_of_put_last)
qed

lemma manager_memory [simp]:
  "ttl_or_default ttl (m\<lparr>cm_memory := c\<rparr>) = ttl_or_default ttl m" "active_redis (m\<lparr>cm_memory := c\<rparr>) = active_redis m"
  by (simp_all add: ttl_or_default_def active_redis_def split: option.split)

text \<open>
  With the cache in memory, the first call of a cached function answers what the function
  answers and stores it; a second call under the same key within the time to live answers the
  stored value without asking the function again.
\<close>

theorem cached_call_stable:
  assumes "cm_enabled m" and "active_redis m = None" and "cache_ok (cm_memory m)"
    and "fst (mem_get now key (cm_memory m)) = None" and "u \<noteq> JNull"
    and "\<not> has_expired now' (expiry now (ttl_or_default ttl m))"
    and "cached_call cl now False key (Inr u) ttl (Some m) = (r, m')"
  shows "r = Inr u \<and> fst (cached_call cl now' False key other ttl m') = Inr u"
proof -
  define c where "c = snd (mem_get now key (cm_memory m))"
  have get: "mem_get now key (cm_memory m) = (None, c)" using assms(4) by (simp add: c_def prod_eq_iff)
  have ok: "cache_ok c" using cache_ok_get [OF assms(3)] by (simp add: c_def)
  obtain c' where c': "mem_set now key u (ttl_or_default ttl m) c = Inr c'" by (rule mem_set_ok [OF ok])
  have first: "manager_get cl now key m = (JNull, m\<lparr>cm_memory := c\<rparr>)"
    using assms(1,2) by (simp add: manager_get_def get)
  have store: "manager_set cl now key u ttl (m\<lparr>cm_memory := c\<rparr>) = Inr (True, m\<lparr>cm_memory := c'\<rparr>)"
    using assms(1,2) c' by (simp add: manager_set_def)
  have r: "r = Inr u" "m' = Some (m\<lparr>cm_memory := c'\<rparr>)"
    using assms(5,7) first store by (cases u; simp add: cached_call_def)+
  obtain c'' where second: "mem_get now' key c' = (Some u, c'')"
    using mem_get_after_set [OF ok c' assms(6)] by (cases "mem_get now' key c'") simp
  have "manager_get cl now' key (m\<lparr>cm_memory := c'\<rparr>) = (u, m\<lparr>cm_memory := c''\<rparr>)"
    using assms(1,2) second by (simp add: manager_get_def)
  then show ?thesis using r assms(5) by (simp add: cached_call_def)
qed

section \<open>Where the code deviates from its documentation\<close>

text \<open>Colons in arguments are not escaped: two calls with different arguments share a key.\<close>

lemma cache_keys_collide:
  "make_cache_key md5 p f [(False, ''a:b''), (False, ''c'')] [] None =
   make_cache_key md5 p f [(False, ''a''), (False, ''b:c'')] [] None"
  by (simp add: make_cache_key_def key_part_def)

text \<open>
  A text that reads as a JSON value comes back as that value from Redis (the text 123 as a number),
  though the memory answers what was written.
\<close>

lemma redis_text_changes_type:
  assumes "rc_connected r" and "cl_get cl (make_key r k) s = Some (Some ''123'')" and "cl_loads cl ''123'' = Some (JInt 123)"
    and "redis_set cl k (JStr ''123'') ttl r = (True, r')" and "rc_server r' = s"
  shows "fst (redis_get cl k r') = JInt 123"
  using assms by (auto simp: redis_set_def redis_get_def make_key_def split: option.splits)

text \<open>
  A connection that was made once counts as connected for good: when every call fails, nothing is
  answered or stored, and the cache in memory is never used.
\<close>

lemma lost_connection_no_fallback:
  assumes "cm_enabled m" and "active_redis m = Some r" and "\<forall>k s. cl_get cl k s = None" and "\<forall>k v t s. cl_set cl k v t s = None"
  shows "fst (manager_get cl now k m) = JNull \<and> (\<exists>m'. manager_set cl now k v ttl m = Inr (False, m') \<and> cm_memory m' = cm_memory m)"
proof -
  have "rc_connected r" using assms(2) by (auto simp: active_redis_def split: option.splits if_splits)
  then show ?thesis
    using assms by (simp add: manager_get_def manager_set_def redis_get_def redis_set_def Let_def)
qed

text \<open>A factory that raises leaves the lock of its key behind.\<close>

lemma raising_factory_leaves_lock:
  assumes "cm_enabled m" and "fst (manager_get cl now k m) = JNull"
    and "fst (manager_get cl now k ((snd (manager_get cl now k m))\<lparr>cm_locks := insert k (cm_locks (snd (manager_get cl now k m)))\<rparr>)) = JNull"
  shows "k \<in> cm_locks (snd (get_or_set cl now k (Inl e) ttl m))"
proof -
  have locks: "cm_locks (snd (manager_get cl now k m)) = cm_locks m" for m
    by (auto simp: manager_get_def Let_def split: option.split prod.split)
  show ?thesis
    using assms locks [of "(snd (manager_get cl now k m))\<lparr>cm_locks := insert k (cm_locks (snd (manager_get cl now k m)))\<rparr>"]
    by (simp add: get_or_set_def Let_def split_beta)
qed

section \<open>Witnesses of the cache in memory\<close>

theorem cache_coherent_witness:
  "int (length (mc_entries (fold cache_step [CSet 0 ''a'' (7 :: nat) (Some 60), CGet 5 ''b''] (new_cache 3)))) \<le> 3 \<and>
    (\<exists>e. fold ideal_step [CSet 0 ''a'' (7 :: nat) (Some 60), CGet 5 ''b''] (\<lambda>_. None) ''a'' = Some (7, e) \<and> \<not> has_expired 30 e)"
  by (rule cache_coherent [where c = "\<lparr>mc_entries = [(''a'', 7, Some 60)], mc_max_size = 3, mc_hits = 1, mc_misses = 1\<rparr>"])
    (simp_all add: new_cache_def mem_set_def purge_def put_last_def dict_del_def expiry_def mem_get_def has_expired_def)

theorem recent_entry_kept_witness:
  "fst (mem_get 9 ''a'' (fold cache_step [CSet 1 ''b'' False None, CGet 2 ''b'']
    \<lparr>mc_entries = [(''a'', True, None)], mc_max_size = 3, mc_hits = 0, mc_misses = 0\<rparr>)) = Some True"
  by (rule recent_entry_kept [where c = "new_cache 3" and start = 0 and ttl = None])
    (simp_all add: cache_ok_def new_cache_def mem_set_def purge_def put_last_def dict_del_def expiry_def has_expired_def others_def)

theorem cached_call_stable_witness:
  "fst (cached_call undefined 9 False ''f:x'' (Inr (JInt 4) :: unit + json) None
    (snd (cached_call undefined 0 False ''f:x'' (Inr (JInt 3) :: unit + json) None
      (Some (new_manager None ''openlabels:'' 300 10 True ())))) ) = Inr (JInt 3)"
proof -
  let ?m = "new_manager None ''openlabels:'' 300 10 True ()"
  obtain r m' where call: "cached_call undefined 0 False ''f:x'' (Inr (JInt 3) :: unit + json) None (Some ?m) = (r, m')" by force
  have "r = Inr (JInt 3) \<and> fst (cached_call undefined 9 False ''f:x'' (Inr (JInt 4) :: unit + json) None m') = Inr (JInt 3)"
    by (rule cached_call_stable [OF _ _ _ _ _ _ call])
      (simp_all add: new_manager_def active_redis_def cache_ok_def new_cache_def mem_get_def has_expired_def expiry_def ttl_or_default_def)
  then show ?thesis by (simp add: call)
qed

end
