(* ===== verification/Py_Regex.thy ===== *)
theory Py_Regex
  imports OL_Prelude
begin

text \<open>
  The part of Python's \<^verbatim>\<open>re\<close> module that the detectors use, on ASCII text: classes, anchors, word
  boundaries, alternation, greedy and lazy repetition, capturing groups, look-ahead and look-behind,
  the flag for ignoring case. \<open>run\<close> is the backtracking search with the priorities of the module; it
  passes on what is still to be matched as a function of position and groups. \<open>ends\<close> says which
  pieces of a text an expression stands for, and the two are shown to agree.
\<close>

section \<open>Expressions\<close>

datatype class_item =
    Ch char | Rng char char | Digit | Not_Digit | Space | Not_Space | Word | Not_Word

text \<open>\<open>Rep\<close> carries whether it is greedy, the least and the greatest number; \<open>Look\<close> whether it looks
  back and whether it asks for a match.\<close>

datatype rx =
    Eps
  | Cls bool "class_item list"
  | Dot
  | Bol
  | Eol
  | Boundary
  | Seq rx rx
  | Alt rx rx
  | Rep bool nat "nat option" rx
  | Grp nat rx
  | No_Case rx
  | Look bool bool rx

definition word_char :: "char \<Rightarrow> bool" where
  "word_char c \<longleftrightarrow> is_alnum c \<or> c = CHR ''_''"

definition in_range :: "char \<Rightarrow> char \<Rightarrow> char \<Rightarrow> bool" where
  "in_range a b c \<longleftrightarrow> chr_code a \<le> chr_code c \<and> chr_code c \<le> chr_code b"

primrec item_matches :: "bool \<Rightarrow> char \<Rightarrow> class_item \<Rightarrow> bool" where
  "item_matches ic c (Ch d) = (c = d \<or> ic \<and> lower_char c = lower_char d)"
| "item_matches ic c (Rng a b) = (in_range a b c \<or> ic \<and> (in_range a b (lower_char c) \<or> in_range a b (upper_char c)))"
| "item_matches ic c Digit = is_digit c"
| "item_matches ic c Not_Digit = (\<not> is_digit c)"
| "item_matches ic c Space = is_space c"
| "item_matches ic c Not_Space = (\<not> is_space c)"
| "item_matches ic c Word = word_char c"
| "item_matches ic c Not_Word = (\<not> word_char c)"

definition class_matches :: "bool \<Rightarrow> bool \<Rightarrow> class_item list \<Rightarrow> char \<Rightarrow> bool" where
  "class_matches ic neg items c \<longleftrightarrow> list_ex (item_matches ic c) items \<noteq> neg"

definition word_at :: "string \<Rightarrow> nat \<Rightarrow> bool" where
  "word_at s i \<longleftrightarrow> i < length s \<and> word_char (s ! i)"

definition at_boundary :: "string \<Rightarrow> nat \<Rightarrow> bool" where
  "at_boundary s i \<longleftrightarrow> (0 < i \<and> word_at s (i - 1)) \<noteq> word_at s i"

definition at_end :: "string \<Rightarrow> nat \<Rightarrow> bool" where
  "at_end s i \<longleftrightarrow> i = length s \<or> (i + 1 = length s \<and> s ! i = CHR 0x0A)"

text \<open>The number of characters an expression of fixed width takes; look-behind allows no other.\<close>

primrec width :: "rx \<Rightarrow> nat" where
  "width Eps = 0"
| "width (Cls neg items) = 1"
| "width Dot = 1"
| "width Bol = 0"
| "width Eol = 0"
| "width Boundary = 0"
| "width (Seq r q) = width r + width q"
| "width (Alt r q) = width r"
| "width (Rep g lo hi r) = lo * width r"
| "width (Grp n r) = width r"
| "width (No_Case r) = width r"
| "width (Look b p r) = 0"

section \<open>The search\<close>

text \<open>The groups matched so far with their ends, the last one to close first.\<close>

type_synonym caps = "(nat \<times> nat \<times> nat) list"
type_synonym rest = "nat \<Rightarrow> caps \<Rightarrow> (nat \<times> caps) option"
type_synonym body = "nat \<Rightarrow> caps \<Rightarrow> rest \<Rightarrow> (nat \<times> caps) option"

definition or_else :: "'a option \<Rightarrow> 'a option \<Rightarrow> 'a option" where
  "or_else x y = (case x of Some v \<Rightarrow> Some v | None \<Rightarrow> y)"

primrec exactly :: "nat \<Rightarrow> body \<Rightarrow> body" where
  "exactly 0 f i c k = k i c"
| "exactly (Suc n) f i c k = f i c (\<lambda>j d. exactly n f j d k)"

text \<open>Further rounds beyond the least number. A round that takes no character is the last one.\<close>

primrec more :: "nat \<Rightarrow> bool \<Rightarrow> nat option \<Rightarrow> body \<Rightarrow> body" where
  "more 0 greedy hi f i c k = k i c"
| "more (Suc n) greedy hi f i c k =
     (if hi = Some 0 then k i c
      else if greedy then
        or_else (f i c (\<lambda>j d. if j = i then k j d else more n greedy (map_option (\<lambda>h. h - 1) hi) f j d k)) (k i c)
      else
        or_else (k i c) (f i c (\<lambda>j d. if j = i then k j d else more n greedy (map_option (\<lambda>h. h - 1) hi) f j d k)))"

primrec run :: "rx \<Rightarrow> string \<Rightarrow> bool \<Rightarrow> body" where
  "run Eps s ic i c k = k i c"
| "run (Cls neg items) s ic i c k = (if i < length s \<and> class_matches ic neg items (s ! i) then k (i + 1) c else None)"
| "run Dot s ic i c k = (if i < length s \<and> s ! i \<noteq> CHR 0x0A then k (i + 1) c else None)"
| "run Bol s ic i c k = (if i = 0 then k i c else None)"
| "run Eol s ic i c k = (if at_end s i then k i c else None)"
| "run Boundary s ic i c k = (if at_boundary s i then k i c else None)"
| "run (Seq r q) s ic i c k = run r s ic i c (\<lambda>j d. run q s ic j d k)"
| "run (Alt r q) s ic i c k = or_else (run r s ic i c k) (run q s ic i c k)"
| "run (Rep greedy lo hi r) s ic i c k =
     exactly lo (run r s ic) i c
       (\<lambda>j d. more (Suc (length s)) greedy (map_option (\<lambda>h. h - lo) hi) (run r s ic) j d k)"
| "run (Grp n r) s ic i c k = run r s ic i c (\<lambda>j d. k j ((n, i, j) # filter (\<lambda>(m, _). m \<noteq> n) d))"
| "run (No_Case r) s ic i c k = run r s True i c k"
| "run (Look behind positive r) s ic i c k =
     (case (if behind \<and> i < width r then None
            else run r s ic (if behind then i - width r else i) c (\<lambda>j d. Some (j, d))) of
        Some (_, d) \<Rightarrow> if positive then k i d else None
      | None \<Rightarrow> if positive then None else k i c)"

text \<open>A match: where it begins and ends, and its groups.\<close>

type_synonym rx_match = "nat \<times> nat \<times> caps"

definition match_at :: "rx \<Rightarrow> string \<Rightarrow> bool \<Rightarrow> nat \<Rightarrow> nat \<Rightarrow> rx_match option" where
  "match_at r s must_advance p i =
     map_option (\<lambda>(j, c). (i, j, c)) (run r s False i [] (\<lambda>j c. if must_advance \<and> j = p then None else Some (j, c)))"

fun first_match :: "rx \<Rightarrow> string \<Rightarrow> bool \<Rightarrow> nat \<Rightarrow> nat list \<Rightarrow> rx_match option" where
  "first_match r s adv p [] = None"
| "first_match r s adv p (i # is) = or_else (match_at r s adv p i) (first_match r s adv p is)"

definition search_from :: "rx \<Rightarrow> string \<Rightarrow> bool \<Rightarrow> nat \<Rightarrow> rx_match option" where
  "search_from r s adv p = first_match r s adv p [p..<Suc (length s)]"

definition re_search :: "rx \<Rightarrow> string \<Rightarrow> rx_match option" where
  "re_search r s = search_from r s False 0"

definition re_match :: "rx \<Rightarrow> string \<Rightarrow> rx_match option" where
  "re_match r s = match_at r s False 0 0"

section \<open>What an expression stands for\<close>

definition repeats_ok :: "nat \<Rightarrow> nat option \<Rightarrow> nat \<Rightarrow> bool" where
  "repeats_ok lo hi n \<longleftrightarrow> lo \<le> n \<and> (case hi of None \<Rightarrow> True | Some h \<Rightarrow> n \<le> max lo h)"

primrec ends :: "rx \<Rightarrow> string \<Rightarrow> bool \<Rightarrow> nat \<Rightarrow> nat \<Rightarrow> bool" where
  "ends Eps s ic = (\<lambda>i j. j = i)"
| "ends (Cls neg items) s ic = (\<lambda>i j. j = i + 1 \<and> i < length s \<and> class_matches ic neg items (s ! i))"
| "ends Dot s ic = (\<lambda>i j. j = i + 1 \<and> i < length s \<and> s ! i \<noteq> CHR 0x0A)"
| "ends Bol s ic = (\<lambda>i j. j = i \<and> i = 0)"
| "ends Eol s ic = (\<lambda>i j. j = i \<and> at_end s i)"
| "ends Boundary s ic = (\<lambda>i j. j = i \<and> at_boundary s i)"
| "ends (Seq r q) s ic = ends r s ic OO ends q s ic"
| "ends (Alt r q) s ic = (\<lambda>i j. ends r s ic i j \<or> ends q s ic i j)"
| "ends (Rep greedy lo hi r) s ic = (\<lambda>i j. \<exists>n. repeats_ok lo hi n \<and> (ends r s ic ^^ n) i j)"
| "ends (Grp n r) s ic = ends r s ic"
| "ends (No_Case r) s ic = ends r s True"
| "ends (Look behind positive r) s ic =
     (\<lambda>i j. j = i \<and> positive = (\<not> (behind \<and> i < width r) \<and> (\<exists>e. ends r s ic (if behind then i - width r else i) e)))"

text \<open>Relations that go forward and move within the text only.\<close>

definition steps_in :: "nat \<Rightarrow> (nat \<Rightarrow> nat \<Rightarrow> bool) \<Rightarrow> bool" where
  "steps_in l R \<longleftrightarrow> (\<forall>i j. R i j \<longrightarrow> j = i \<or> (i < j \<and> j \<le> l))"

lemma steps_inD: "steps_in l R \<Longrightarrow> R i j \<Longrightarrow> j = i \<or> (i < j \<and> j \<le> l)"
  unfolding steps_in_def by blast

lemma steps_in_comp:
  assumes "steps_in l R" and "steps_in l Q"
  shows "steps_in l (R OO Q)"
  unfolding steps_in_def
proof (intro allI impI)
  fix i j assume "(R OO Q) i j"
  then obtain m where "R i m" "Q m j" by blast
  then show "j = i \<or> (i < j \<and> j \<le> l)"
    using steps_inD [OF assms(1)] steps_inD [OF assms(2)] by fastforce
qed

lemma steps_in_pow: "steps_in l R \<Longrightarrow> steps_in l (R ^^ n)"
  by (induction n) (simp add: steps_in_def, simp add: steps_in_comp)

lemma steps_in_ends: "steps_in (length s) (ends r s ic)"
proof (induction r arbitrary: ic)
  case (Rep g lo hi r)
  then show ?case using steps_in_pow [OF Rep] by (fastforce simp: steps_in_def)
next
  case (Seq r q)
  then show ?case by (simp add: steps_in_comp)
next
  case (Alt r q)
  then show ?case unfolding steps_in_def ends.simps by blast
qed (simp_all add: steps_in_def at_end_def)

lemma ends_forward: "ends r s ic i j \<Longrightarrow> i \<le> j"
  using steps_inD [OF steps_in_ends] by fastforce

lemma ends_bounded: "ends r s ic i j \<Longrightarrow> i \<le> length s \<Longrightarrow> j \<le> length s"
  using steps_inD [OF steps_in_ends] by fastforce

section \<open>The search finds what the expression stands for\<close>

text \<open>
  A body decides a relation if it succeeds exactly when some end of the relation is accepted by what
  follows, where the success of what follows depends on the position only.
\<close>

definition accepts :: "(nat \<Rightarrow> bool) \<Rightarrow> rest \<Rightarrow> (nat \<Rightarrow> bool) \<Rightarrow> bool" where
  "accepts A k g \<longleftrightarrow> (\<forall>j d. A j \<longrightarrow> (k j d \<noteq> None) = g j)"

definition decides :: "body \<Rightarrow> (nat \<Rightarrow> nat \<Rightarrow> bool) \<Rightarrow> bool" where
  "decides f R \<longleftrightarrow> (\<forall>i c k g. accepts (R i) k g \<longrightarrow> (f i c k \<noteq> None) = (\<exists>j. R i j \<and> g j))"

lemma decidesI: "(\<And>i c k g. accepts (R i) k g \<Longrightarrow> (f i c k \<noteq> None) = (\<exists>j. R i j \<and> g j)) \<Longrightarrow> decides f R"
  by (simp add: decides_def)

lemma decidesD: "decides f R \<Longrightarrow> accepts (R i) k g \<Longrightarrow> (f i c k \<noteq> None) = (\<exists>j. R i j \<and> g j)"
  unfolding decides_def by blast

lemma acceptsI: "(\<And>j d. A j \<Longrightarrow> (k j d \<noteq> None) = g j) \<Longrightarrow> accepts A k g"
  unfolding accepts_def by blast

lemma acceptsD: "accepts A k g \<Longrightarrow> A j \<Longrightarrow> (k j d \<noteq> None) = g j"
  unfolding accepts_def by blast

lemma accepts_sub: "accepts A k g \<Longrightarrow> (\<And>j. B j \<Longrightarrow> A j) \<Longrightarrow> accepts B k g"
  unfolding accepts_def by blast

lemma or_else_found: "(or_else x y \<noteq> None) = (x \<noteq> None \<or> y \<noteq> None)"
  by (auto simp: or_else_def split: option.split)

lemma decides_seq:
  assumes "decides f R" and "decides h Q"
  shows "decides (\<lambda>i c k. f i c (\<lambda>j d. h j d k)) (R OO Q)"
proof (rule decidesI)
  fix i c k g assume k: "accepts ((R OO Q) i) k g"
  have "accepts (R i) (\<lambda>j d. h j d k) (\<lambda>j. \<exists>m. Q j m \<and> g m)"
  proof (rule acceptsI)
    fix j d assume "R i j"
    then have "accepts (Q j) k g" by (intro accepts_sub [OF k]) blast
    then show "(h j d k \<noteq> None) = (\<exists>m. Q j m \<and> g m)" by (rule decidesD [OF assms(2)])
  qed
  from decidesD [OF assms(1) this]
  show "(f i c (\<lambda>j d. h j d k) \<noteq> None) = (\<exists>j. (R OO Q) i j \<and> g j)" by blast
qed

lemma relpowp_Suc_left: "R ^^ Suc n = R OO R ^^ n"
  by (simp only: relpowp.simps relpowp_commute)

lemma decides_stay: "decides (\<lambda>i c k. if P i then k i c else None) (\<lambda>i j. j = i \<and> P i)"
proof (rule decidesI)
  fix i c k g assume k: "accepts (\<lambda>j. j = i \<and> P i) k g"
  show "((if P i then k i c else None) \<noteq> None) = (\<exists>j. (j = i \<and> P i) \<and> g j)"
    using acceptsD [OF k, of i c] by (cases "P i") simp_all
qed

lemma decides_step: "decides (\<lambda>i c k. if P i then k (i + 1) c else None) (\<lambda>i j. j = i + 1 \<and> P i)"
proof (rule decidesI)
  fix i c k g assume k: "accepts (\<lambda>j. j = i + 1 \<and> P i) k g"
  show "((if P i then k (i + 1) c else None) \<noteq> None) = (\<exists>j. (j = i + 1 \<and> P i) \<and> g j)"
    using acceptsD [OF k, of "i + 1" c] by (cases "P i") simp_all
qed

lemma decides_exactly:
  assumes "decides f R"
  shows "decides (exactly n f) (R ^^ n)"
proof (induction n)
  case 0
  show ?case
  proof (rule decidesI)
    fix i c k g assume "accepts ((R ^^ 0) i) k g"
    then have "(k i c \<noteq> None) = g i" by (rule acceptsD) simp
    then show "(exactly 0 f i c k \<noteq> None) = (\<exists>j. (R ^^ 0) i j \<and> g j)" by simp
  qed
next
  case (Suc n)
  have "exactly (Suc n) f = (\<lambda>i c k. f i c (\<lambda>j d. exactly n f j d k))" by (simp add: fun_eq_iff)
  then show ?case using decides_seq [OF assms Suc] by (simp only: relpowp_Suc_left)
qed

text \<open>A path either stays or has a first step that moves.\<close>

lemma relpowp_first_move:
  "(R ^^ n) i j \<Longrightarrow> j = i \<or> (\<exists>m a. m < n \<and> a \<noteq> i \<and> R i a \<and> (R ^^ m) a j)"
proof (induction n)
  case (Suc n)
  then obtain a where a: "R i a" "(R ^^ n) a j" unfolding relpowp_Suc_left by blast
  show ?case
  proof (cases "a = i")
    case True
    then have "j = i \<or> (\<exists>m a. m < n \<and> a \<noteq> i \<and> R i a \<and> (R ^^ m) a j)" using Suc.IH a(2) by blast
    then show ?thesis using less_SucI by blast
  next
    case False
    then show ?thesis using a by blast
  qed
qed simp

definition at_most :: "nat option \<Rightarrow> nat \<Rightarrow> bool" where
  "at_most hi n \<longleftrightarrow> (case hi of None \<Rightarrow> True | Some h \<Rightarrow> n \<le> h)"

lemma at_most_step: "hi \<noteq> Some 0 \<Longrightarrow> at_most (map_option (\<lambda>h. h - 1) hi) n = at_most hi (Suc n)"
  by (cases hi) (auto simp: at_most_def)

lemma at_most_down: "at_most hi n \<Longrightarrow> m \<le> n \<Longrightarrow> at_most hi m"
  by (cases hi) (auto simp: at_most_def)

definition path :: "nat option \<Rightarrow> (nat \<Rightarrow> nat \<Rightarrow> bool) \<Rightarrow> nat \<Rightarrow> nat \<Rightarrow> bool" where
  "path hi R i j \<longleftrightarrow> (\<exists>m. at_most hi m \<and> (R ^^ m) i j)"

lemma path_refl: "path hi R i i"
  unfolding path_def by (rule exI [of _ 0]) (simp add: at_most_def split: option.split)

lemma path_zero: "path (Some 0) R i j = (j = i)"
  by (auto simp: path_def at_most_def)

lemma path_unfold:
  assumes "hi \<noteq> Some 0"
  shows "path hi R i j \<longleftrightarrow> j = i \<or> (\<exists>a. a \<noteq> i \<and> R i a \<and> path (map_option (\<lambda>h. h - 1) hi) R a j)"
proof
  assume "path hi R i j"
  then obtain m where m: "at_most hi m" "(R ^^ m) i j" unfolding path_def by blast
  show "j = i \<or> (\<exists>a. a \<noteq> i \<and> R i a \<and> path (map_option (\<lambda>h. h - 1) hi) R a j)"
  proof (cases "j = i")
    case False
    then obtain m' a where "m' < m" "a \<noteq> i" "R i a" "(R ^^ m') a j" using relpowp_first_move [OF m(2)] by blast
    moreover have "at_most hi (Suc m')" using at_most_down [OF m(1)] \<open>m' < m\<close> by simp
    ultimately show ?thesis using at_most_step [OF assms] unfolding path_def by blast
  qed simp
next
  assume "j = i \<or> (\<exists>a. a \<noteq> i \<and> R i a \<and> path (map_option (\<lambda>h. h - 1) hi) R a j)"
  then show "path hi R i j"
  proof
    assume "\<exists>a. a \<noteq> i \<and> R i a \<and> path (map_option (\<lambda>h. h - 1) hi) R a j"
    then obtain a m where "R i a" "at_most hi (Suc m)" "(R ^^ m) a j"
      using at_most_step [OF assms] unfolding path_def by blast
    moreover from this have "(R ^^ Suc m) i j" unfolding relpowp_Suc_left by blast
    ultimately show ?thesis unfolding path_def by blast
  qed (simp add: path_refl)
qed

lemma more_found:
  assumes "decides f R" and "steps_in l R"
  shows "l - i < n \<Longrightarrow> accepts (path hi R i) k g \<Longrightarrow> (more n b hi f i c k \<noteq> None) = (\<exists>j. path hi R i j \<and> g j)"
proof (induction n arbitrary: hi i c)
  case (Suc n)
  note found = acceptsD [OF Suc.prems(2)]
  show ?case
  proof (cases "hi = Some 0")
    case True
    then show ?thesis using found by (simp add: path_zero)
  next
    case False
    let ?hi = "map_option (\<lambda>h. h - 1) hi"
    let ?k = "\<lambda>j d. if j = i then k j d else more n b ?hi f j d k"
    let ?P = "\<lambda>j. if j = i then g j else \<exists>a. path ?hi R j a \<and> g a"
    have "accepts (R i) ?k ?P"
    proof (rule acceptsI)
      fix j d assume step: "R i j"
      show "(?k j d \<noteq> None) = ?P j"
      proof (cases "j = i")
        case True
        then show ?thesis using found [OF path_refl] by simp
      next
        case moved: False
        then have "l - j < n" using steps_inD [OF assms(2) step] Suc.prems(1) by linarith
        moreover have "accepts (path ?hi R j) k g"
          by (rule accepts_sub [OF Suc.prems(2)]) (use path_unfold [OF False] step moved in blast)
        ultimately show ?thesis using Suc.IH moved by simp
      qed
    qed
    then have "(f i c ?k \<noteq> None) = (\<exists>j. R i j \<and> ?P j)" by (rule decidesD [OF assms(1)])
    then have "(more (Suc n) b hi f i c k \<noteq> None) = ((\<exists>j. R i j \<and> ?P j) \<or> g i)"
      using False found [OF path_refl] by (auto simp: or_else_found simp del: not_None_eq)
    also have "\<dots> = (\<exists>j. path hi R i j \<and> g j)"
      unfolding path_unfold [OF False] by auto
    finally show ?thesis .
  qed
qed simp

lemma repeats_path:
  "(\<exists>n. repeats_ok lo hi n \<and> (R ^^ n) i j) \<longleftrightarrow> ((R ^^ lo) OO path (map_option (\<lambda>h. h - lo) hi) R) i j"
proof
  assume "\<exists>n. repeats_ok lo hi n \<and> (R ^^ n) i j"
  then obtain m where "repeats_ok lo hi (lo + m)" "(R ^^ (lo + m)) i j"
    by (metis le_add_diff_inverse repeats_ok_def)
  moreover from this have "at_most (map_option (\<lambda>h. h - lo) hi) m"
    by (auto simp: repeats_ok_def at_most_def split: option.splits)
  ultimately show "((R ^^ lo) OO path (map_option (\<lambda>h. h - lo) hi) R) i j"
    unfolding relpowp_add path_def by blast
next
  assume "((R ^^ lo) OO path (map_option (\<lambda>h. h - lo) hi) R) i j"
  then obtain m where "at_most (map_option (\<lambda>h. h - lo) hi) m" "(R ^^ (lo + m)) i j"
    unfolding relpowp_add path_def by blast
  moreover from this(1) have "repeats_ok lo hi (lo + m)"
    by (auto simp: repeats_ok_def at_most_def split: option.splits)
  ultimately show "\<exists>n. repeats_ok lo hi n \<and> (R ^^ n) i j" by blast
qed

lemma decides_alt:
  assumes "decides f R" and "decides h Q"
  shows "decides (\<lambda>i c k. or_else (f i c k) (h i c k)) (\<lambda>i j. R i j \<or> Q i j)"
proof (rule decidesI)
  fix i c k g assume k: "accepts (\<lambda>j. R i j \<or> Q i j) k g"
  have "(f i c k \<noteq> None) = (\<exists>j. R i j \<and> g j)" by (rule decidesD [OF assms(1)]) (rule accepts_sub [OF k], simp)
  moreover have "(h i c k \<noteq> None) = (\<exists>j. Q i j \<and> g j)" by (rule decidesD [OF assms(2)]) (rule accepts_sub [OF k], simp)
  ultimately show "(or_else (f i c k) (h i c k) \<noteq> None) = (\<exists>j. (R i j \<or> Q i j) \<and> g j)"
    unfolding or_else_found by blast
qed

lemma decides_more:
  assumes "decides f R" and "steps_in l R"
  shows "decides (\<lambda>i c k. more (Suc l) b hi f i c k) (path hi R)"
  by (rule decidesI) (rule more_found [OF assms], simp_all)

lemma decides_group:
  assumes "decides f R"
  shows "decides (\<lambda>i c k. f i c (\<lambda>j d. k j (e i j d))) R"
proof (rule decidesI)
  fix i c k g assume k: "accepts (R i) k g"
  have "accepts (R i) (\<lambda>j d. k j (e i j d)) g" by (rule acceptsI) (rule acceptsD [OF k])
  from decidesD [OF assms this] show "(f i c (\<lambda>j d. k j (e i j d)) \<noteq> None) = (\<exists>j. R i j \<and> g j)" .
qed

lemma decides_look:
  assumes "decides f R"
  shows "decides (\<lambda>i c k. case (if P i then None else f (h i) c (\<lambda>j d. Some (j, d))) of
      Some (_, d) \<Rightarrow> if positive then k i d else None | None \<Rightarrow> if positive then None else k i c)
    (\<lambda>i j. j = i \<and> positive = (\<not> P i \<and> (\<exists>e. R (h i) e)))"
proof (rule decidesI)
  fix i c k g
  let ?x = "if P i then None else f (h i) c (\<lambda>j d. Some (j, d))"
  let ?A = "\<lambda>j. j = i \<and> positive = (\<not> P i \<and> (\<exists>e. R (h i) e))"
  assume k: "accepts ?A k g"
  have "accepts (R (h i)) (\<lambda>j d. Some (j, d)) (\<lambda>_. True)" by (rule acceptsI) simp
  then have look: "(?x \<noteq> None) = (\<not> P i \<and> (\<exists>e. R (h i) e))" using decidesD [OF assms] by simp
  show "((case ?x of Some (_, d) \<Rightarrow> if positive then k i d else None | None \<Rightarrow> if positive then None else k i c) \<noteq> None) =
      (\<exists>j. ?A j \<and> g j)"
  proof (cases ?x)
    case None
    with look acceptsD [OF k, of i c] show ?thesis by (cases positive) auto
  next
    case (Some y)
    with look acceptsD [OF k, of i "snd y"] show ?thesis by (cases y; cases positive) auto
  qed
qed

text \<open>The backtracking search succeeds exactly when the expression stands for a fitting piece.\<close>

lemma run_decides: "decides (run r s ic) (ends r s ic)"
proof (induction r arbitrary: ic)
  case Eps
  show ?case using decides_stay [of "\<lambda>_. True"] by (simp cong: if_cong)
next
  case (Cls neg items)
  show ?case using decides_step [of "\<lambda>i. i < length s \<and> class_matches ic neg items (s ! i)"] by simp
next
  case Dot
  show ?case using decides_step [of "\<lambda>i. i < length s \<and> s ! i \<noteq> CHR 0x0A"] by simp
next
  case Bol
  show ?case using decides_stay [of "\<lambda>i. i = 0"] by simp
next
  case Eol
  show ?case using decides_stay [of "at_end s"] by simp
next
  case Boundary
  show ?case using decides_stay [of "at_boundary s"] by simp
next
  case (Seq r q)
  show ?case using decides_seq [OF Seq.IH] by simp
next
  case (Alt r q)
  show ?case using decides_alt [OF Alt.IH] by simp
next
  case (Rep b lo hi r)
  have "decides (\<lambda>i c k. exactly lo (run r s ic) i c
      (\<lambda>j d. more (Suc (length s)) b (map_option (\<lambda>h. h - lo) hi) (run r s ic) j d k))
    ((ends r s ic ^^ lo) OO path (map_option (\<lambda>h. h - lo) hi) (ends r s ic))"
    by (rule decides_seq [OF decides_exactly [OF Rep] decides_more [OF Rep steps_in_ends]])
  moreover have "(ends r s ic ^^ lo) OO path (map_option (\<lambda>h. h - lo) hi) (ends r s ic) = ends (Rep b lo hi r) s ic"
    by (intro ext) (simp add: repeats_path)
  moreover have "run (Rep b lo hi r) s ic = (\<lambda>i c k. exactly lo (run r s ic) i c
      (\<lambda>j d. more (Suc (length s)) b (map_option (\<lambda>h. h - lo) hi) (run r s ic) j d k))"
    by (simp add: fun_eq_iff)
  ultimately show ?case by simp
next
  case (Grp n r)
  show ?case using decides_group [OF Grp] by simp
next
  case (No_Case r)
  show ?case using No_Case by simp
next
  case (Look behind positive r)
  show ?case
    using decides_look [OF Look, where P = "\<lambda>i. behind \<and> i < width r" and h = "\<lambda>i. if behind then i - width r else i"]
    by simp
qed

section \<open>What is handed on\<close>

text \<open>The groups of an expression, and those that take part in every match.\<close>

primrec groups :: "rx \<Rightarrow> nat set" where
  "groups Eps = {}"
| "groups (Cls neg items) = {}"
| "groups Dot = {}"
| "groups Bol = {}"
| "groups Eol = {}"
| "groups Boundary = {}"
| "groups (Seq r q) = groups r \<union> groups q"
| "groups (Alt r q) = groups r \<union> groups q"
| "groups (Rep g lo hi r) = groups r"
| "groups (Grp n r) = insert n (groups r)"
| "groups (No_Case r) = groups r"
| "groups (Look b p r) = groups r"

primrec always :: "rx \<Rightarrow> nat set" where
  "always Eps = {}"
| "always (Cls neg items) = {}"
| "always Dot = {}"
| "always Bol = {}"
| "always Eol = {}"
| "always Boundary = {}"
| "always (Seq r q) = always r \<union> always q"
| "always (Alt r q) = always r \<inter> always q"
| "always (Rep g lo hi r) = (if lo = 0 then {} else always r)"
| "always (Grp n r) = insert n (always r)"
| "always (No_Case r) = always r"
| "always (Look b p r) = {}"

text \<open>Groups are of the given numbers and lie in the text.\<close>

definition caps_ok :: "nat set \<Rightarrow> nat \<Rightarrow> caps \<Rightarrow> bool" where
  "caps_ok G l c \<longleftrightarrow> (\<forall>(n, a, b) \<in> set c. n \<in> G \<and> a \<le> b \<and> b \<le> l)"

text \<open>
  Whatever a search returns was handed on at one of the ends, with groups in the text, with all
  earlier groups and those that always take part.
\<close>

definition hands_on :: "nat set \<Rightarrow> nat \<Rightarrow> nat set \<Rightarrow> (nat \<Rightarrow> bool) \<Rightarrow> caps \<Rightarrow> rest \<Rightarrow> nat \<times> caps \<Rightarrow> bool" where
  "hands_on G l M E c k x \<longleftrightarrow> (\<exists>j d. E j \<and> caps_ok G l d \<and> fst ` set c \<union> M \<subseteq> fst ` set d \<and> k j d = Some x)"

definition delivers :: "nat set \<Rightarrow> nat \<Rightarrow> nat set \<Rightarrow> body \<Rightarrow> (nat \<Rightarrow> nat \<Rightarrow> bool) \<Rightarrow> bool" where
  "delivers G l M f R \<longleftrightarrow> (\<forall>i c k x. i \<le> l \<longrightarrow> caps_ok G l c \<longrightarrow> f i c k = Some x \<longrightarrow> hands_on G l M (R i) c k x)"

lemma deliversI:
  "(\<And>i c k x. i \<le> l \<Longrightarrow> caps_ok G l c \<Longrightarrow> f i c k = Some x \<Longrightarrow> hands_on G l M (R i) c k x) \<Longrightarrow> delivers G l M f R"
  by (simp add: delivers_def)

lemma hands_onI:
  "E j \<Longrightarrow> caps_ok G l d \<Longrightarrow> fst ` set c \<union> M \<subseteq> fst ` set d \<Longrightarrow> k j d = Some x \<Longrightarrow> hands_on G l M E c k x"
  unfolding hands_on_def by blast

lemma hands_onE:
  assumes "hands_on G l M E c k x"
  obtains j d where "E j" and "caps_ok G l d" and "fst ` set c \<union> M \<subseteq> fst ` set d" and "k j d = Some x"
  using assms unfolding hands_on_def by blast

lemma hands_on_mono:
  assumes "hands_on G l M E c k x" and "\<And>j. E j \<Longrightarrow> E' j" and "M' \<subseteq> M"
  shows "hands_on G l M' E' c k x"
proof -
  obtain j d where j: "E j" "caps_ok G l d" "fst ` set c \<union> M \<subseteq> fst ` set d" "k j d = Some x"
    by (rule hands_onE [OF assms(1)])
  have "fst ` set c \<union> M' \<subseteq> fst ` set d" using j(3) assms(3) by blast
  then show ?thesis using j assms(2) by (intro hands_onI)
qed

lemma deliversD:
  assumes "delivers G l M f R" and "i \<le> l" and "caps_ok G l c" and "f i c k = Some x"
  shows "hands_on G l M (R i) c k x"
  using assms unfolding delivers_def by blast

lemma delivers_less: "delivers G l M f R \<Longrightarrow> M' \<subseteq> M \<Longrightarrow> delivers G l M' f R"
  unfolding delivers_def using hands_on_mono by blast

lemma steps_in_le: "steps_in l R \<Longrightarrow> R i j \<Longrightarrow> i \<le> l \<Longrightarrow> j \<le> l"
  using steps_inD by fastforce

lemma delivers_stay: "(\<And>i c k. f i c k = (if P i then k i c else None)) \<Longrightarrow> delivers G l {} f (\<lambda>i j. j = i \<and> P i)"
  by (rule deliversI) (auto simp: hands_on_def split: if_splits)

lemma delivers_step: "(\<And>i c k. f i c k = (if P i then k (i + 1) c else None)) \<Longrightarrow> delivers G l {} f (\<lambda>i j. j = i + 1 \<and> P i)"
  by (rule deliversI) (auto simp: hands_on_def split: if_splits)

lemma delivers_seq:
  assumes "delivers G l M f R" and "delivers G l M' h Q" and "steps_in l R"
  shows "delivers G l (M \<union> M') (\<lambda>i c k. f i c (\<lambda>j d. h j d k)) (R OO Q)"
proof (rule deliversI)
  fix i c k x assume i: "i \<le> l" "caps_ok G l c" and x: "f i c (\<lambda>j d. h j d k) = Some x"
  obtain j d where j: "R i j" "caps_ok G l d" "fst ` set c \<union> M \<subseteq> fst ` set d" "h j d k = Some x"
    by (rule hands_onE [OF deliversD [OF assms(1) i x]])
  obtain m e where m: "Q j m" "caps_ok G l e" "fst ` set d \<union> M' \<subseteq> fst ` set e" "k m e = Some x"
    by (rule hands_onE [OF deliversD [OF assms(2) steps_in_le [OF assms(3) j(1) i(1)] j(2,4)]])
  have "(R OO Q) i m" using j(1) m(1) by blast
  moreover have "fst ` set c \<union> (M \<union> M') \<subseteq> fst ` set e" using j(3) m(3) by blast
  ultimately show "hands_on G l (M \<union> M') ((R OO Q) i) c k x" using m(2,4) by (intro hands_onI)
qed

lemma delivers_exactly:
  assumes "delivers G l M f R" and "steps_in l R"
  shows "delivers G l (if n = 0 then {} else M) (exactly n f) (R ^^ n)"
proof (induction n)
  case 0
  show ?case by (rule deliversI) (auto simp: hands_on_def)
next
  case (Suc n)
  have "exactly (Suc n) f = (\<lambda>i c k. f i c (\<lambda>j d. exactly n f j d k))" by (simp add: fun_eq_iff)
  then have "delivers G l (M \<union> (if n = 0 then {} else M)) (exactly (Suc n) f) (R ^^ Suc n)"
    using delivers_seq [OF assms(1) Suc assms(2)] by (simp only: relpowp_Suc_left)
  then show ?case by (rule delivers_less) auto
qed

lemma or_else_SomeE:
  assumes "or_else x y = Some v"
  obtains "x = Some v" | "y = Some v"
  using assms by (auto simp: or_else_def split: option.splits)

lemma more_delivers:
  assumes "delivers G l M f R" and "steps_in l R"
  shows "i \<le> l \<Longrightarrow> caps_ok G l c \<Longrightarrow> more n b hi f i c k = Some x \<Longrightarrow> hands_on G l {} (path hi R i) c k x"
proof (induction n arbitrary: hi i c)
  case 0
  show ?case by (rule hands_onI [of _ i _ _ c]) (use 0 path_refl in simp_all)
next
  case (Suc n)
  let ?hi = "map_option (\<lambda>h. h - 1) hi"
  let ?k = "\<lambda>j d. if j = i then k j d else more n b ?hi f j d k"
  show ?case
  proof (cases "k i c = Some x")
    case True
    show ?thesis by (rule hands_onI [of _ i _ _ c]) (use True Suc.prems(2) path_refl in simp_all)
  next
    case False
    then have hi: "hi \<noteq> Some 0" and f: "f i c ?k = Some x"
      using Suc.prems(3) by (auto split: if_splits elim: or_else_SomeE)
    obtain j d where j: "R i j" "caps_ok G l d" "fst ` set c \<union> M \<subseteq> fst ` set d" "?k j d = Some x"
      by (rule hands_onE [OF deliversD [OF assms(1) Suc.prems(1,2) f]])
    show ?thesis
    proof (cases "j = i")
      case True
      show ?thesis by (rule hands_onI [of _ i _ _ d]) (use True j(2-4) path_refl in simp_all)
    next
      case False
      then have "hands_on G l {} (path ?hi R j) d k x"
        using Suc.IH [OF steps_in_le [OF assms(2) j(1) Suc.prems(1)] j(2), of ?hi] j(4) by simp
      then obtain m e where m: "path ?hi R j m" "caps_ok G l e" "fst ` set d \<union> {} \<subseteq> fst ` set e" "k m e = Some x"
        by (rule hands_onE)
      have "path hi R i m" using path_unfold [OF hi] j(1) False m(1) by blast
      moreover have "fst ` set c \<union> {} \<subseteq> fst ` set e" using j(3) m(3) by blast
      ultimately show ?thesis using m(2,4) by (intro hands_onI)
    qed
  qed
qed

lemma delivers_repeat:
  assumes "delivers G l M f R" and "steps_in l R"
  shows "delivers G l (if lo = 0 then {} else M) (\<lambda>i c k. exactly lo f i c (\<lambda>j d. more n b hi f j d k)) (R ^^ lo OO path hi R)"
proof -
  have "delivers G l {} (\<lambda>j d k. more n b hi f j d k) (path hi R)"
    by (rule deliversI) (rule more_delivers [OF assms])
  from delivers_seq [OF delivers_exactly [OF assms] this steps_in_pow [OF assms(2)]]
  show ?thesis by (rule delivers_less) simp
qed

lemma fst_filter_other: "fst ` set (filter (\<lambda>(m, _). m \<noteq> n) d) = fst ` set d - {n}"
  by (induction d) auto

lemma delivers_look:
  assumes f: "delivers G l M f R" "decides f R" and h: "\<And>i. h i \<le> i"
  shows "delivers G l {} (\<lambda>i c k. case (if P i then None else f (h i) c (\<lambda>j d. Some (j, d))) of
      Some (_, d) \<Rightarrow> if positive then k i d else None | None \<Rightarrow> if positive then None else k i c)
    (\<lambda>i j. j = i \<and> positive = (\<not> P i \<and> (\<exists>e. R (h i) e)))"
proof (rule deliversI)
  fix i :: nat and c :: caps and k :: rest and x
  let ?y = "if P i then None else f (h i) c (\<lambda>j d. Some (j, d))"
  let ?E = "\<lambda>j. j = i \<and> positive = (\<not> P i \<and> (\<exists>e. R (h i) e))"
  assume i: "i \<le> l" "caps_ok G l c"
    and x: "(case ?y of Some (_, d) \<Rightarrow> if positive then k i d else None | None \<Rightarrow> if positive then None else k i c) = Some x"
  have "accepts (R (h i)) (\<lambda>j d. Some (j, d)) (\<lambda>_. True)" by (rule acceptsI) simp
  then have look: "(?y \<noteq> None) = (\<not> P i \<and> (\<exists>e. R (h i) e))" using decidesD [OF f(2)] by simp
  show "hands_on G l {} ?E c k x"
  proof (cases ?y)
    case None
    then have "\<not> positive" "k i c = Some x" using x by (cases positive; simp)+
    then show ?thesis by (intro hands_onI [of ?E i G l c]) (use look None i in simp_all)
  next
    case (Some y)
    then have "f (h i) c (\<lambda>j d. Some (j, d)) = Some y" by (cases "P i") simp_all
    from deliversD [OF f(1) le_trans [OF h i(1)] i(2) this] obtain j d where
      d: "caps_ok G l d" "fst ` set c \<subseteq> fst ` set d" "y = (j, d)"
      by (rule hands_onE) auto
    have "positive" "k i d = Some x" using x unfolding Some d(3) by (cases positive; simp)+
    then show ?thesis by (intro hands_onI [of ?E i G l d]) (use look Some d in simp_all)
  qed
qed

lemma run_delivers: "groups r \<subseteq> G \<Longrightarrow> delivers G (length s) (always r) (run r s ic) (ends r s ic)"
proof (induction r arbitrary: ic)
  case Eps
  have "delivers G (length s) {} (run Eps s ic) (\<lambda>i j. j = i \<and> True)" by (rule delivers_stay) simp
  then show ?case by (simp only: ends.simps always.simps simp_thms)
next
  case (Cls neg items)
  show ?case unfolding ends.simps always.simps by (rule delivers_step) simp
next
  case Dot
  show ?case unfolding ends.simps always.simps by (rule delivers_step) simp
next
  case Bol
  show ?case unfolding ends.simps always.simps by (rule delivers_stay) simp
next
  case Eol
  show ?case unfolding ends.simps always.simps by (rule delivers_stay) simp
next
  case Boundary
  show ?case unfolding ends.simps always.simps by (rule delivers_stay) simp
next
  case (Seq r q)
  have "groups r \<subseteq> G" "groups q \<subseteq> G" using Seq.prems by auto
  then show ?case using delivers_seq [OF Seq.IH steps_in_ends] by simp
next
  case (Alt r q)
  have G: "groups r \<subseteq> G" "groups q \<subseteq> G" using Alt.prems by auto
  show ?case
  proof (rule deliversI)
    fix i c k x assume i: "i \<le> length s" "caps_ok G (length s) c" and "run (Alt r q) s ic i c k = Some x"
    then have "or_else (run r s ic i c k) (run q s ic i c k) = Some x" by simp
    then show "hands_on G (length s) (always (Alt r q)) (ends (Alt r q) s ic i) c k x"
    proof (cases rule: or_else_SomeE)
      case 1
      show ?thesis by (rule hands_on_mono [OF deliversD [OF Alt.IH(1) [OF G(1)] i 1]]) auto
    next
      case 2
      show ?thesis by (rule hands_on_mono [OF deliversD [OF Alt.IH(2) [OF G(2)] i 2]]) auto
    qed
  qed
next
  case (Rep b lo hi r)
  have IH: "delivers G (length s) (always r) (run r s ic) (ends r s ic)" using Rep by simp
  have "run (Rep b lo hi r) s ic = (\<lambda>i c k. exactly lo (run r s ic) i c
      (\<lambda>j d. more (Suc (length s)) b (map_option (\<lambda>h. h - lo) hi) (run r s ic) j d k))"
    by (simp add: fun_eq_iff)
  moreover have "(ends r s ic ^^ lo) OO path (map_option (\<lambda>h. h - lo) hi) (ends r s ic) = ends (Rep b lo hi r) s ic"
    by (intro ext) (simp add: repeats_path)
  ultimately show ?case
    using delivers_repeat [OF IH steps_in_ends, of lo "Suc (length s)" b "map_option (\<lambda>h. h - lo) hi"] by simp
next
  case (Grp n r)
  have G: "groups r \<subseteq> G" "n \<in> G" using Grp.prems by auto
  show ?case
  proof (rule deliversI)
    fix i c k x assume i: "i \<le> length s" "caps_ok G (length s) c" and "run (Grp n r) s ic i c k = Some x"
    then have run: "run r s ic i c (\<lambda>j d. k j ((n, i, j) # filter (\<lambda>(m, _). m \<noteq> n) d)) = Some x" by simp
    obtain j d where j: "ends r s ic i j" "caps_ok G (length s) d" "fst ` set c \<union> always r \<subseteq> fst ` set d"
        "k j ((n, i, j) # filter (\<lambda>(m, _). m \<noteq> n) d) = Some x"
      by (rule hands_onE [OF deliversD [OF Grp.IH [OF G(1)] i run]])
    show "hands_on G (length s) (always (Grp n r)) (ends (Grp n r) s ic i) c k x"
    proof (rule hands_onI [of _ j _ _ "(n, i, j) # filter (\<lambda>(m, _). m \<noteq> n) d"])
      show "caps_ok G (length s) ((n, i, j) # filter (\<lambda>(m, _). m \<noteq> n) d)"
        using j(2) G(2) ends_forward [OF j(1)] ends_bounded [OF j(1) i(1)] by (auto simp: caps_ok_def)
      show "fst ` set c \<union> always (Grp n r) \<subseteq> fst ` set ((n, i, j) # filter (\<lambda>(m, _). m \<noteq> n) d)"
        using j(3) by (simp only: list.set image_insert fst_conv fst_filter_other always.simps) blast
    qed (use j(1,4) in simp_all)
  qed
next
  case (No_Case r)
  then show ?case by simp
next
  case (Look behind positive r)
  have "delivers G (length s) (always r) (run r s ic) (ends r s ic)" using Look by simp
  from delivers_look [OF this run_decides, where h = "\<lambda>i. if behind then i - width r else i"
    and P = "\<lambda>i. behind \<and> i < width r" and positive = positive]
  show ?case by simp
qed

section \<open>Matches\<close>

definition match_ok :: "rx \<Rightarrow> string \<Rightarrow> rx_match \<Rightarrow> bool" where
  "match_ok r s m \<longleftrightarrow> (case m of (i, j, c) \<Rightarrow> ends r s False i j \<and> i \<le> j \<and> j \<le> length s \<and> caps_ok (groups r) (length s) c \<and> always r \<subseteq> fst ` set c)"

definition fits :: "rx \<Rightarrow> string \<Rightarrow> bool \<Rightarrow> nat \<Rightarrow> nat \<Rightarrow> bool" where
  "fits r s adv p i \<longleftrightarrow> (\<exists>j. ends r s False i j \<and> \<not> (adv \<and> j = p))"

lemma match_at_found: "(match_at r s adv p i \<noteq> None) = fits r s adv p i"
proof -
  have "accepts (ends r s False i) (\<lambda>j c. if adv \<and> j = p then None else Some (j, c)) (\<lambda>j. \<not> (adv \<and> j = p))"
    by (rule acceptsI) simp
  from decidesD [OF run_decides this, of "[]"] show ?thesis
    unfolding match_at_def fits_def by simp
qed

lemma match_at_ok:
  assumes "match_at r s adv p i = Some m" and "i \<le> length s"
  shows "fst m = i" and "match_ok r s m" and "adv \<longrightarrow> fst (snd m) \<noteq> p"
proof -
  obtain y where y: "run r s False i [] (\<lambda>j c. if adv \<and> j = p then None else Some (j, c)) = Some y" and m: "m = (i, y)"
    using assms(1) by (auto simp: match_at_def)
  have "hands_on (groups r) (length s) (always r) (ends r s False i) [] (\<lambda>j c. if adv \<and> j = p then None else Some (j, c)) y"
    by (rule deliversD [OF run_delivers [OF subset_refl] assms(2) _ y]) (simp add: caps_ok_def)
  then obtain j d where j: "ends r s False i j" "caps_ok (groups r) (length s) d" "always r \<subseteq> fst ` set d"
      "(if adv \<and> j = p then None else Some (j, d)) = Some y"
    by (rule hands_onE) auto
  then have "y = (j, d)" "\<not> (adv \<and> j = p)" by (auto split: if_splits)
  with j m show "fst m = i" "match_ok r s m" "adv \<longrightarrow> fst (snd m) \<noteq> p"
    using ends_forward ends_bounded assms(2) by (auto simp: match_ok_def)
qed

lemma first_match_None: "(first_match r s adv p is = None) = (\<forall>i \<in> set is. \<not> fits r s adv p i)"
proof (induction "is")
  case (Cons i "is")
  then show ?case
    using match_at_found [of r s adv p i] or_else_found [of "match_at r s adv p i" "first_match r s adv p is"] by auto
qed simp

lemma first_match_Some:
  assumes "first_match r s adv p is = Some m" and "sorted is" and "\<forall>i \<in> set is. i \<le> length s"
  shows "fst m \<in> set is \<and> match_ok r s m \<and> (adv \<longrightarrow> fst (snd m) \<noteq> p) \<and> (\<forall>i \<in> set is. i < fst m \<longrightarrow> \<not> fits r s adv p i)"
  using assms
proof (induction "is")
  case (Cons i "is")
  show ?case
  proof (cases "match_at r s adv p i")
    case None
    then have no: "\<not> fits r s adv p i" using match_at_found by blast
    have "first_match r s adv p is = Some m" using Cons.prems(1) None by (simp add: or_else_def)
    with Cons have "fst m \<in> set is \<and> match_ok r s m \<and> (adv \<longrightarrow> fst (snd m) \<noteq> p) \<and> (\<forall>i \<in> set is. i < fst m \<longrightarrow> \<not> fits r s adv p i)"
      by simp
    with no show ?thesis by simp
  next
    case (Some m')
    then have m: "match_at r s adv p i = Some m" using Cons.prems(1) by (simp add: or_else_def)
    have "i \<le> length s" using Cons.prems(3) by simp
    from match_at_ok [OF m this] have "fst m = i" "match_ok r s m" "adv \<longrightarrow> fst (snd m) \<noteq> p" .
    moreover have "\<forall>a \<in> set (i # is). i \<le> a" using Cons.prems(2) by simp
    ultimately show ?thesis by (simp add: leD)
  qed
qed simp

lemma search_from_None: "search_from r s adv p = None \<longleftrightarrow> (\<forall>i. p \<le> i \<and> i \<le> length s \<longrightarrow> \<not> fits r s adv p i)"
  unfolding search_from_def first_match_None by (auto simp: less_Suc_eq_le simp del: upt_Suc)

lemma search_from_Some:
  assumes "search_from r s adv p = Some (i, j, c)"
  shows "p \<le> i" and "match_ok r s (i, j, c)" and "adv \<longrightarrow> j \<noteq> p" and "\<forall>a. p \<le> a \<and> a < i \<longrightarrow> \<not> fits r s adv p a"
proof -
  have "i \<in> set [p..<Suc (length s)] \<and> match_ok r s (i, j, c) \<and> (adv \<longrightarrow> j \<noteq> p) \<and>
      (\<forall>a \<in> set [p..<Suc (length s)]. a < i \<longrightarrow> \<not> fits r s adv p a)"
    using first_match_Some [OF assms [unfolded search_from_def]] by (simp add: less_Suc_eq_le del: upt_Suc)
  then show "p \<le> i" "match_ok r s (i, j, c)" "adv \<longrightarrow> j \<noteq> p" "\<forall>a. p \<le> a \<and> a < i \<longrightarrow> \<not> fits r s adv p a"
    by (auto simp: less_Suc_eq_le simp del: upt_Suc)
qed

text \<open>All matches from left to right; after an empty match the next one has to end further on.\<close>

function find_from :: "rx \<Rightarrow> string \<Rightarrow> bool \<Rightarrow> nat \<Rightarrow> rx_match list" where
  "find_from r s adv p =
     (case search_from r s adv p of
        None \<Rightarrow> []
      | Some (i, j, c) \<Rightarrow> (i, j, c) # find_from r s (i = j) j)"
  by pat_completeness auto
termination
proof (relation "measure (\<lambda>(r, s, adv, p). 2 * (Suc (length s) - p) + (if adv then 0 else 1))", simp)
  fix r s adv p m i y j c
  assume m: "search_from r s adv p = Some m" "(i, y) = m" "(j, c) = y"
  then have f: "search_from r s adv p = Some (i, j, c)" by simp
  have "p \<le> i" "i \<le> j" "j \<le> length s" "adv \<longrightarrow> j \<noteq> p"
    using search_from_Some [OF f] by (auto simp: match_ok_def)
  then show "((r, s, i = j, j), r, s, adv, p) \<in> measure (\<lambda>(r, s, adv, p). 2 * (Suc (length s) - p) + (if adv then 0 else 1))"
    by (cases "j = p") auto
qed

declare find_from.simps [simp del]

definition finditer :: "rx \<Rightarrow> string \<Rightarrow> rx_match list" where
  "finditer r s = find_from r s False 0"

lemma re_search_None: "re_search r s = None \<longleftrightarrow> \<not> (\<exists>i j. i \<le> length s \<and> ends r s False i j)"
  unfolding re_search_def search_from_None by (auto simp: fits_def)

lemma re_match_None: "re_match r s = None \<longleftrightarrow> \<not> (\<exists>j. ends r s False 0 j)"
  using match_at_found [of r s False 0 0] by (auto simp: re_match_def fits_def)

lemma find_from_parts:
  "m \<in> set (find_from r s adv p) \<Longrightarrow> match_ok r s m \<and> p \<le> fst m"
proof (induction r s adv p rule: find_from.induct)
  case (1 r s adv p)
  show ?case
  proof (cases "search_from r s adv p")
    case None
    then show ?thesis using "1.prems" by (simp add: find_from.simps [of r s adv p])
  next
    case (Some x)
    obtain i j c where x: "x = (i, j, c)" by (cases x)
    have f: "search_from r s adv p = Some (i, j, c)" using Some x by simp
    note now = search_from_Some [OF f]
    have "m = (i, j, c) \<or> m \<in> set (find_from r s (i = j) j)"
      using "1.prems" f by (simp add: find_from.simps [of r s adv p])
    then show ?thesis
    proof
      assume "m \<in> set (find_from r s (i = j) j)"
      then have "match_ok r s m \<and> j \<le> fst m" using "1.IH" [OF Some x [symmetric] refl] by simp
      with now show ?thesis by (auto simp: match_ok_def)
    qed (use now in simp)
  qed
qed

lemma find_from_disjoint:
  "sorted_wrt (\<lambda>m m'. fst (snd m) \<le> fst m') (find_from r s adv p)"
proof (induction r s adv p rule: find_from.induct)
  case (1 r s adv p)
  show ?case
  proof (cases "search_from r s adv p")
    case None
    then show ?thesis by (simp add: find_from.simps [of r s adv p])
  next
    case (Some x)
    obtain i j c where x: "x = (i, j, c)" by (cases x)
    have "find_from r s adv p = (i, j, c) # find_from r s (i = j) j"
      using Some x by (simp add: find_from.simps [of r s adv p])
    moreover have "\<forall>m \<in> set (find_from r s (i = j) j). j \<le> fst m" using find_from_parts by blast
    ultimately show ?thesis using "1.IH" [OF Some x [symmetric] refl] by simp
  qed
qed

lemma find_from_covers:
  "ends r s False i j \<Longrightarrow> i < j \<Longrightarrow> p \<le> i \<Longrightarrow> i \<le> length s \<Longrightarrow>
    \<exists>m \<in> set (find_from r s adv p). fst m \<le> i \<and> (i < fst (snd m) \<or> fst m = i)"
proof (induction r s adv p rule: find_from.induct)
  case (1 r s adv p)
  have fits: "fits r s adv p i" using "1.prems" by (auto simp: fits_def)
  then obtain x where Some: "search_from r s adv p = Some x"
    using search_from_None [of r s adv p] "1.prems"(3,4) by (cases "search_from r s adv p") auto
  obtain a b c where x: "x = (a, b, c)" by (cases x)
  have f: "search_from r s adv p = Some (a, b, c)" using Some x by simp
  have unfold: "find_from r s adv p = (a, b, c) # find_from r s (a = b) b"
    using f by (simp add: find_from.simps [of r s adv p])
  have "a \<le> i" using search_from_Some(4) [OF f] fits "1.prems"(3) by (meson not_le)
  show ?case
  proof (cases "i < b \<or> a = i")
    case True
    then show ?thesis using \<open>a \<le> i\<close> by (simp add: unfold)
  next
    case False
    then have "\<exists>m \<in> set (find_from r s (a = b) b). fst m \<le> i \<and> (i < fst (snd m) \<or> fst m = i)"
      using "1.IH" [OF Some x [symmetric] refl] "1.prems" by simp
    then show ?thesis by (simp add: unfold)
  qed
qed

lemma finditer_ok: "m \<in> set (finditer r s) \<Longrightarrow> match_ok r s m"
  unfolding finditer_def using find_from_parts by blast

section \<open>Groups of a match\<close>

text \<open>\<open>lastindex\<close> is the group that closed last; a group that took part has a position.\<close>

definition last_index :: "rx_match \<Rightarrow> nat option" where
  "last_index m = (case snd (snd m) of [] \<Rightarrow> None | (n, _, _) # _ \<Rightarrow> Some n)"

definition group_span :: "nat \<Rightarrow> rx_match \<Rightarrow> (nat \<times> nat) option" where
  "group_span n m = (if n = 0 then Some (fst m, fst (snd m)) else map_of (snd (snd m)) n)"

definition group_text :: "string \<Rightarrow> nat \<Rightarrow> rx_match \<Rightarrow> string option" where
  "group_text s n m = map_option (\<lambda>(a, b). take (b - a) (drop a s)) (group_span n m)"

lemma group_always:
  assumes "match_ok r s m" and "n \<in> always r"
  shows "\<exists>a b. group_span n m = Some (a, b)"
proof (cases "n = 0")
  case False
  have "n \<in> fst ` set (snd (snd m))" using assms by (cases m) (auto simp: match_ok_def)
  then have "map_of (snd (snd m)) n \<noteq> None" by (simp add: map_of_eq_None_iff)
  then show ?thesis using False by (auto simp: group_span_def)
qed (simp add: group_span_def)

lemma last_index_group: "match_ok r s m \<Longrightarrow> last_index m = Some n \<Longrightarrow> n \<in> groups r"
  by (cases m) (auto simp: last_index_def match_ok_def caps_ok_def split: list.splits)

lemma group_span_ok:
  assumes "match_ok r s m" and "group_span n m = Some (a, b)"
  shows "a \<le> b \<and> b \<le> length s"
  using assms by (cases m) (auto simp: group_span_def match_ok_def caps_ok_def split: if_splits dest!: map_of_SomeD)

end
