(* ===== verification/Regex_Syntax.thy ===== *)
theory Regex_Syntax
  imports Py_Regex "HOL-Library.Sublist"
begin

text \<open>
  How a pattern text is read into an expression, as \<^verbatim>\<open>re.compile\<close> does for the syntax the detectors use:
  a recursive descent with fuel, of which three units per character are enough, since each call
  either consumes a character or goes down one of three levels.
\<close>

section \<open>Reading an expression\<close>

text \<open>
  Patterns are texts; in this development the backslash of a pattern is written as a backquote,
  and characters from 128 on as their escapes.
\<close>

definition pat :: "string \<Rightarrow> string" where
  "pat p = map (\<lambda>c. if c = CHR 0x60 then CHR 0x5C else c) p"

fun escape_item :: "char \<Rightarrow> class_item" where
  "escape_item c =
     (if c = CHR ''d'' then Digit else if c = CHR ''D'' then Not_Digit
      else if c = CHR ''s'' then Space else if c = CHR ''S'' then Not_Space
      else if c = CHR ''w'' then Word else if c = CHR ''W'' then Not_Word
      else if c = CHR ''n'' then Ch (CHR 0x0A) else if c = CHR ''t'' then Ch (CHR 0x09)
      else if c = CHR ''r'' then Ch (CHR 0x0D) else Ch c)"

definition hex_val :: "char \<Rightarrow> nat" where
  "hex_val c = (if is_digit c then digit_val c else chr_code (lower_char c) - 87)"

text \<open>One member of a class, or one character outside: after a backslash an escape.\<close>

fun read_item :: "string \<Rightarrow> (class_item \<times> string) option" where
  "read_item [] = None"
| "read_item (c # cs) =
     (if c = CHR 0x5C then
        (case cs of
           [] \<Rightarrow> None
         | e # ds \<Rightarrow>
             if e = CHR ''x'' then
               (case ds of a # b # es \<Rightarrow> if is_hex a \<and> is_hex b then Some (Ch (char_of (16 * hex_val a + hex_val b)), es) else None
                | _ \<Rightarrow> None)
             else Some (escape_item e, ds))
      else Some (Ch c, cs))"

lemma read_item_shorter: "read_item s = Some (i, t) \<Longrightarrow> length t < length s"
  by (cases s) (auto split: if_splits list.splits)

text \<open>A member that a hyphen and another one follow is a range.\<close>

definition read_range :: "class_item \<Rightarrow> string \<Rightarrow> (class_item \<times> string) option" where
  "read_range a t =
     (case a of
        Ch x \<Rightarrow>
          if 2 \<le> length t \<and> hd t = CHR ''-'' \<and> hd (tl t) \<noteq> CHR '']'' then
            (case read_item (tl t) of
               None \<Rightarrow> None
             | Some (b, v) \<Rightarrow> (case b of Ch y \<Rightarrow> Some (Rng x y, v) | _ \<Rightarrow> None))
          else Some (a, t)
      | _ \<Rightarrow> Some (a, t))"

text \<open>The members of a class up to the closing bracket, which may stand in first place for itself.\<close>

function read_class :: "bool \<Rightarrow> string \<Rightarrow> (class_item list \<times> string) option" where
  "read_class first s =
     (if \<not> first \<and> s \<noteq> [] \<and> hd s = CHR '']'' then Some ([], tl s)
      else case read_item s of
        None \<Rightarrow> None
      | Some (a, t) \<Rightarrow>
          (case read_range a t of
             None \<Rightarrow> None
           | Some (item, u) \<Rightarrow>
               if length u < length s then map_option (\<lambda>(items, v). (item # items, v)) (read_class False u) else None))"
  by pat_completeness auto
termination
  by (relation "measure (\<lambda>(first, s). length s)") auto

declare read_class.simps [simp del]

definition read_number :: "string \<Rightarrow> nat option \<times> string" where
  "read_number s = (let d = takeWhile is_digit s in (if d = [] then None else Some (digits_nat d), dropWhile is_digit s))"

text \<open>A quantifier: least and greatest number. A brace that begins none stands for itself.\<close>

definition read_braces :: "string \<Rightarrow> (nat \<times> nat option \<times> string) option" where
  "read_braces s =
     (let (lo, t) = read_number s in
      case t of
        [] \<Rightarrow> None
      | c # cs \<Rightarrow>
          if c = CHR ''}'' then map_option (\<lambda>n. (n, Some n, cs)) lo
          else if c = CHR '','' then
            (let (hi, u) = read_number cs in
             case u of
               d # ds \<Rightarrow> if d = CHR ''}'' then Some (case lo of Some n \<Rightarrow> n | None \<Rightarrow> 0, hi, ds) else None
             | [] \<Rightarrow> None)
          else None)"

definition read_quantifier :: "string \<Rightarrow> (nat \<times> nat option \<times> string) option" where
  "read_quantifier s =
     (case s of
        [] \<Rightarrow> None
      | c # cs \<Rightarrow>
          if c = CHR ''*'' then Some (0, None, cs)
          else if c = CHR ''+'' then Some (1, None, cs)
          else if c = CHR ''?'' then Some (0, Some 1, cs)
          else if c = CHR ''{'' then read_braces cs
          else None)"

definition quantified :: "rx \<Rightarrow> string \<Rightarrow> rx \<times> string" where
  "quantified r s =
     (case read_quantifier s of
        None \<Rightarrow> (r, s)
      | Some (lo, hi, t) \<Rightarrow>
          (case t of
             c # cs \<Rightarrow> if c = CHR ''?'' then (Rep False lo hi r, cs) else (Rep True lo hi r, t)
           | [] \<Rightarrow> (Rep True lo hi r, t)))"

text \<open>What may open a group: the constructor for its contents and the number of the next group.\<close>

definition read_group :: "nat \<Rightarrow> string \<Rightarrow> (rx \<Rightarrow> rx) \<times> string \<times> nat" where
  "read_group n s =
     (if starts_with s ''?:'' then (\<lambda>r. r, drop 2 s, n)
      else if starts_with s ''?i:'' then (No_Case, drop 3 s, n)
      else if starts_with s ''?='' then (Look False True, drop 2 s, n)
      else if starts_with s ''?!'' then (Look False False, drop 2 s, n)
      else if starts_with s ''?<='' then (Look True True, drop 3 s, n)
      else if starts_with s ''?<!'' then (Look True False, drop 3 s, n)
      else (Grp n, s, n + 1))"

fun read_alt :: "nat \<Rightarrow> nat \<Rightarrow> string \<Rightarrow> (rx \<times> string \<times> nat) option"
  and read_seq :: "nat \<Rightarrow> nat \<Rightarrow> string \<Rightarrow> (rx \<times> string \<times> nat) option"
  and read_atom :: "nat \<Rightarrow> nat \<Rightarrow> string \<Rightarrow> (rx \<times> string \<times> nat) option" where
  "read_alt 0 n s = None"
| "read_alt (Suc k) n s =
     (case read_seq k n s of
        None \<Rightarrow> None
      | Some (r, t, n') \<Rightarrow>
          if t \<noteq> [] \<and> hd t = CHR ''|'' then
            (case read_alt k n' (tl t) of None \<Rightarrow> None | Some (q, u, n'') \<Rightarrow> Some (Alt r q, u, n''))
          else Some (r, t, n'))"
| "read_seq 0 n s = None"
| "read_seq (Suc k) n s =
     (if s = [] \<or> hd s = CHR ''|'' \<or> hd s = CHR '')'' then Some (Eps, s, n)
      else case read_atom k n s of
        None \<Rightarrow> None
      | Some (r, t, n') \<Rightarrow>
          (case quantified r t of
             (r', u) \<Rightarrow>
               if u = [] \<or> hd u = CHR ''|'' \<or> hd u = CHR '')'' then Some (r', u, n')
               else (case read_seq k n' u of None \<Rightarrow> None | Some (q, v, n'') \<Rightarrow> Some (Seq r' q, v, n''))))"
| "read_atom 0 n s = None"
| "read_atom (Suc k) n s =
     (case s of
        [] \<Rightarrow> None
      | c # cs \<Rightarrow>
          if c = CHR ''('' then
            (case read_group n cs of
               (f, t, n') \<Rightarrow>
                 (case read_alt k n' t of
                    None \<Rightarrow> None
                  | Some (r, u, n'') \<Rightarrow> if u \<noteq> [] \<and> hd u = CHR '')'' then Some (f r, tl u, n'') else None))
          else if c = CHR ''['' then
            (let neg = (cs \<noteq> [] \<and> hd cs = CHR 0x5E) in
             case read_class True (if neg then tl cs else cs) of
               None \<Rightarrow> None
             | Some (items, t) \<Rightarrow> Some (Cls neg items, t, n))
          else if c = CHR ''.'' then Some (Dot, cs, n)
          else if c = CHR 0x5E then Some (Bol, cs, n)
          else if c = CHR ''$'' then Some (Eol, cs, n)
          else if c \<in> {CHR ''*'', CHR ''+'', CHR ''?''} then None
          else if c = CHR 0x5C \<and> cs \<noteq> [] \<and> hd cs = CHR ''b'' then Some (Boundary, tl cs, n)
          else map_option (\<lambda>(item, t). (Cls False [item], t, n)) (read_item s))"

text \<open>\<open>re.compile\<close>; \<open>None\<close> for the error it raises on a text that is no expression.\<close>

definition re_groups :: "string \<Rightarrow> nat" where
  "re_groups p = (case read_alt (3 * length p + 3) 1 p of Some (_, _, n) \<Rightarrow> n - 1 | None \<Rightarrow> 0)"

definition re_compile :: "bool \<Rightarrow> string \<Rightarrow> rx option" where
  "re_compile ic p =
     (case read_alt (3 * length p + 3) 1 p of
        Some (r, [], _) \<Rightarrow> Some (if ic then No_Case r else r)
      | _ \<Rightarrow> None)"

section \<open>How many groups an expression has\<close>

text \<open>Opening brackets that are not followed by a question mark.\<close>

fun opens :: "string \<Rightarrow> nat" where
  "opens [] = 0"
| "opens (c # cs) = (if c = CHR ''('' \<and> \<not> (cs \<noteq> [] \<and> hd cs = CHR ''?'') then Suc (opens cs) else opens cs)"

lemma opens_suffix: "suffix t s \<Longrightarrow> opens t \<le> opens s"
  by (induction s) (auto simp: suffix_Cons)

lemma suffix_tl: "suffix (tl s) s"
  by (cases s) (auto simp: suffix_Cons)

lemma read_item_suffix: "read_item s = Some (a, t) \<Longrightarrow> suffix t s"
  by (cases s) (auto simp: suffix_Cons split: if_splits list.splits)

lemma read_class_suffix: "read_class first s = Some (items, t) \<Longrightarrow> suffix t s"
proof (induction first s arbitrary: items rule: read_class.induct)
  case (1 first s)
  show ?case
  proof (cases "\<not> first \<and> s \<noteq> [] \<and> hd s = CHR '']''")
    case True
    then show ?thesis using "1.prems" suffix_tl [of s] by (auto simp: read_class.simps [of False s])
  next
    case False
    then obtain a u where a: "read_item s = Some (a, u)"
      using "1.prems" by (subst (asm) read_class.simps) (auto split: option.splits)
    obtain item v where x: "read_range a u = Some (item, v)"
      using "1.prems" False a by (subst (asm) read_class.simps) (auto split: option.splits)
    have "suffix u s" by (rule read_item_suffix [OF a])
    have "v = u \<or> (\<exists>b. read_item (tl u) = Some (b, v))"
      using x by (cases a) (auto simp: read_range_def split: if_splits option.splits class_item.splits)
    then have "suffix v u" using read_item_suffix suffix_tl suffix_order.trans by blast
    then have vs: "suffix v s" using \<open>suffix u s\<close> suffix_order.trans by blast
    have "length v < length s \<and> (\<exists>items'. read_class False v = Some (items', t))"
      using "1.prems" False a x by (subst (asm) read_class.simps) (auto split: if_splits)
    then obtain items' where "length v < length s" "read_class False v = Some (items', t)" by blast
    from "1.IH" [OF False a refl x refl this] vs show ?thesis using suffix_order.trans by blast
  qed
qed

lemma dropWhile_suffix: "dropWhile P s = c # t \<Longrightarrow> suffix t s"
  by (metis suffix_ConsD suffix_dropWhile)

lemma read_braces_suffix: "read_braces s = Some (lo, hi, t) \<Longrightarrow> suffix t s"
  by (auto simp: read_braces_def read_number_def Let_def split: list.splits if_splits option.splits
      dest!: dropWhile_suffix intro: suffix_order.trans)

lemma read_quantifier_suffix: "read_quantifier s = Some (lo, hi, t) \<Longrightarrow> suffix t s"
  by (auto simp: read_quantifier_def suffix_Cons split: list.splits if_splits dest!: read_braces_suffix)

lemma quantified_ok:
  assumes "quantified r s = (r', t)"
  shows "suffix t s \<and> groups r' = groups r"
proof (cases "read_quantifier s")
  case None
  then show ?thesis using assms by (simp add: quantified_def)
next
  case (Some q)
  obtain lo hi u where q: "q = (lo, hi, u)" by (cases q)
  have "suffix u s" using Some q read_quantifier_suffix by blast
  moreover have "suffix t u \<and> groups r' = groups r"
    using assms Some q by (auto simp: quantified_def suffix_Cons split: list.splits if_splits)
  ultimately show ?thesis using suffix_order.trans by blast
qed

definition numbered :: "nat \<Rightarrow> string \<Rightarrow> rx \<times> string \<times> nat \<Rightarrow> bool" where
  "numbered n s x \<longleftrightarrow> (case x of (r, t, n') \<Rightarrow> suffix t s \<and> n \<le> n' \<and> groups r \<subseteq> {n..<n'} \<and> n' + opens t \<le> n + opens s)"

lemma numbered_same: "suffix t s \<Longrightarrow> groups r = {} \<Longrightarrow> numbered n s (r, t, n)"
  by (simp add: numbered_def opens_suffix)

lemma read_alt_question: "read_alt k n (CHR ''?'' # s) = None"
proof (cases k)
  case (Suc k')
  have "read_atom k'' n (CHR ''?'' # s) = None" for k'' by (cases k'') simp_all
  then have "read_seq k' n (CHR ''?'' # s) = None" by (cases k') simp_all
  then show ?thesis by (simp add: Suc)
qed simp

lemma numbered_trans:
  assumes "numbered n s (r, t, m)" and "numbered m t (q, u, m')" and "groups p = groups r \<union> groups q"
  shows "numbered n s (p, u, m')"
proof -
  have "suffix u s" using assms(1,2) suffix_order.trans by (auto simp: numbered_def)
  moreover have "groups p \<subseteq> {n..<m'}"
    using assms by (auto simp: numbered_def)
  ultimately show ?thesis using assms(1,2) by (auto simp: numbered_def)
qed

lemma numbered_shift:
  assumes "numbered n t (r, u, m)" and "suffix t s" and "suffix v u" and "groups p = groups r"
  shows "numbered n s (p, v, m)"
proof -
  have "suffix v s" using assms suffix_order.trans by (auto simp: numbered_def)
  moreover have "opens t \<le> opens s" "opens v \<le> opens u" using assms(2,3) opens_suffix by auto
  ultimately show ?thesis using assms(1,4) by (auto simp: numbered_def)
qed

lemma read_numbered:
  "read_alt k n s = Some x \<Longrightarrow> numbered n s x"
  "read_seq k n s = Some x \<Longrightarrow> numbered n s x"
  "read_atom k n s = Some x \<Longrightarrow> numbered n s x"
proof (induction k n s and k n s and k n s arbitrary: x and x and x rule: read_alt_read_seq_read_atom.induct)
  case (2 k n s)
  obtain r t n' where r: "read_seq k n s = Some (r, t, n')" using "2.prems" by (auto split: option.splits)
  have seq: "numbered n s (r, t, n')" by (rule "2.IH"(1) [OF r])
  show ?case
  proof (cases "t \<noteq> [] \<and> hd t = CHR ''|''")
    case True
    then obtain q u m where q: "read_alt k n' (tl t) = Some (q, u, m)" and x: "x = (Alt r q, u, m)"
      using "2.prems" r by (auto split: option.splits)
    have "numbered n' (tl t) (q, u, m)" by (rule "2.IH"(2) [OF r refl refl True q])
    then have "numbered n' t (q, u, m)" by (rule numbered_shift) (simp_all add: suffix_tl)
    then show ?thesis unfolding x by (rule numbered_trans [OF seq]) simp
  next
    case False
    then show ?thesis using "2.prems" r seq by auto
  qed
next
  case (4 k n s)
  show ?case
  proof (cases "s = [] \<or> hd s = CHR ''|'' \<or> hd s = CHR '')''")
    case True
    then show ?thesis using "4.prems" by (auto intro: numbered_same)
  next
    case False
    obtain r t n' where r: "read_atom k n s = Some (r, t, n')" using "4.prems" False by (auto split: option.splits)
    obtain r' u where q: "quantified r t = (r', u)" by force
    have "numbered n s (r', u, n')"
      by (rule numbered_shift [OF "4.IH"(1) [OF False r] suffix_order.refl]) (use quantified_ok [OF q] in auto)
    note one = this
    show ?thesis
    proof (cases "u = [] \<or> hd u = CHR ''|'' \<or> hd u = CHR '')''")
      case True
      then show ?thesis using "4.prems" False r q one by simp
    next
      case more: False
      then obtain p v m where p: "read_seq k n' u = Some (p, v, m)" and x: "x = (Seq r' p, v, m)"
        using "4.prems" False r q by (auto split: option.splits)
      have "numbered n' u (p, v, m)" by (rule "4.IH"(2) [OF False r refl refl q [symmetric] more p])
      then show ?thesis unfolding x by (rule numbered_trans [OF one]) simp
    qed
  qed
next
  case (6 k n s)
  then obtain c cs where s: "s = c # cs" by (cases s) simp_all
  have cs: "suffix cs s" by (simp add: s suffix_Cons)
  show ?case
  proof (cases "c = CHR ''(''")
    case True
    obtain f t n' where g: "read_group n cs = (f, t, n')" by (cases "read_group n cs")
    obtain r u m where r: "read_alt k n' t = Some (r, u, m)" and u: "u \<noteq> [] \<and> hd u = CHR '')''" and x: "x = (f r, tl u, m)"
      using "6.prems" True s g by (auto split: option.splits if_splits)
    have IH: "numbered n' t (r, u, m)" using "6.IH" [OF s True g [symmetric] refl r] .
    have later: "numbered n' t (r, tl u, m)" by (rule numbered_shift [OF IH]) (simp_all add: suffix_tl)
    show ?thesis
    proof (cases "f = Grp n")
      case Grp: True
      then have n': "n' = n + 1" "t = cs" using g by (auto simp: read_group_def split: if_splits dest: fun_cong)
      have "\<not> (cs \<noteq> [] \<and> hd cs = CHR ''?'')"
        using r read_alt_question [of k n' "tl cs"] n'(2) by (metis list.collapse option.distinct(1))
      then have "opens s = Suc (opens cs)" by (simp add: s True)
      moreover have "suffix (tl u) s" using later cs n'(2) suffix_order.trans by (auto simp: numbered_def)
      ultimately show ?thesis using later n' unfolding x Grp by (auto simp: numbered_def)
    next
      case False
      then have "n' = n" "groups (f r) = groups r" "suffix t cs"
        using g by (auto simp: read_group_def suffix_drop split: if_splits)
      then show ?thesis using numbered_shift [OF later _ suffix_order.refl] cs suffix_order.trans unfolding x by blast
    qed
  next
    case False
    then show ?thesis
      using "6.prems" cs suffix_order.trans [OF suffix_tl cs]
      by (auto simp: s Let_def simp del: read_item.simps split: if_splits option.splits intro!: numbered_same
          dest!: read_class_suffix read_item_suffix intro: suffix_order.trans)
  qed
qed auto

text \<open>The groups of a compiled pattern are numbered from one and are at most as many as its plain brackets.\<close>

lemma re_compile_groups:
  assumes "re_compile ic p = Some r"
  shows "groups r \<subseteq> {1..opens p}"
proof -
  obtain q n where q: "read_alt (3 * length p + 3) 1 p = Some (q, [], n)" and r: "r = (if ic then No_Case q else q)"
    using assms by (auto simp: re_compile_def split: option.splits list.splits)
  have "groups q \<subseteq> {1..<n}" "n \<le> 1 + opens p" using read_numbered(1) [OF q] by (auto simp: numbered_def)
  then show ?thesis using r by (auto simp: subset_iff)
qed

end
