(* ===== verification/Pattern_Tables.thy ===== *)
theory Pattern_Tables
  imports Regex_Syntax
begin

text \<open>
  The patterns of the pattern detector, \<^verbatim>\<open>core/detectors/patterns.py\<close> and \<^verbatim>\<open>pattern_registry.py\<close>.
  Of the characters a pattern names, those that no text over codes below 256 contains (dashes,
  primes and currency signs inside classes) are left out. A rule carries the text of its pattern,
  which is compiled when it is used.
\<close>

section \<open>Pattern definitions\<close>

record pattern_def =
  pd_regex :: string
  pd_nocase :: bool
  pd_type :: string
  pd_confidence :: real
  pd_group :: nat
  pd_validator :: "(string \<Rightarrow> bool) option"

text \<open>\<open>_p\<close> without and with \<^verbatim>\<open>re.I\<close>, and with a validator.\<close>

definition rule :: "string \<Rightarrow> string \<Rightarrow> real \<Rightarrow> nat \<Rightarrow> pattern_def" where
  "rule regex ty conf grp =
     \<lparr>pd_regex = pat regex, pd_nocase = False, pd_type = ty, pd_confidence = conf, pd_group = grp, pd_validator = None\<rparr>"

definition rule_i :: "string \<Rightarrow> string \<Rightarrow> real \<Rightarrow> nat \<Rightarrow> pattern_def" where
  "rule_i regex ty conf grp = (rule regex ty conf grp)\<lparr>pd_nocase := True\<rparr>"

definition checked :: "(string \<Rightarrow> bool) \<Rightarrow> pattern_def \<Rightarrow> pattern_def" where
  "checked f d = d\<lparr>pd_validator := Some f\<rparr>"

section \<open>Fragments\<close>

definition rx_NAME :: string where
  "rx_NAME = ''[A-Z`xc0-`xd6`xd8-`xde][a-z`xe0-`xf6`xf8-`xff`x27`x27-]*(?:[`x27`x27-][A-Z`xc0-`xd6`xd8-`xdea-z`xe0-`xf6`xf8-`xff][a-z`xe0-`xf6`xf8-`xff]*)?''"

definition rx_NAME_PART :: string where
  "rx_NAME_PART = ''(?:[A-Z`xc0-`xd6`xd8-`xde][a-z`xe0-`xf6`xf8-`xff`x27`x27-]*(?:[`x27`x27-][A-Z`xc0-`xd6`xd8-`xdea-z`xe0-`xf6`xf8-`xff][a-z`xe0-`xf6`xf8-`xff]*)?)''"

definition rx_INITIAL :: string where
  "rx_INITIAL = ''[A-Z]`.?''"

definition rx_DOUBLE_INITIAL :: string where
  "rx_DOUBLE_INITIAL = ''[A-Z]`.?`s*[A-Z]`.?''"

definition rx_CREDENTIALS :: string where
  "rx_CREDENTIALS = ''(?:MD|DO|MBBS|RN|BSN|MSN|LPN|LVN|CNA|NP|FNP|ANP|PNP|ACNP|AGNP|WHNP|DNP|APRN|CNM|CNS|CRNA|PA|'' @
        ''PA-C|PhD|PharmD|RPh|DPM|DPT|OT|OTR|PT|DDS|DMD|RDH|OD|DC|LCSW|LMFT|LPC|LMHC|PsyD|MSW|LMSW|LSW|'' @
        ''LISW|DSW|CSW|RT|RRT|CRT|EMT|EMT-P|Paramedic|MA|CMA|RMA|CCMA)''"

definition rx_MIDDLE_INITIAL :: string where
  "rx_MIDDLE_INITIAL = ''[A-Z]`.''"

definition rx_CLINICAL_VERBS_PAST :: string where
  "rx_CLINICAL_VERBS_PAST = ''(?i:saw|examined|evaluated|assessed|treated|diagnosed|admitted|discharged|transferred|referred|'' @
        ''counseled|advised|informed|educated|instructed|observed|monitored|interviewed|consulted|cleared|'' @
        ''stabilized|sedated|intubated)''"

definition rx_CLINICAL_NOUNS :: string where
  "rx_CLINICAL_NOUNS = ''(?i:condition|symptoms?|diagnosis|prognosis|labs?|results?|medication|medications|treatment|'' @
        ''therapy|care|recovery|vitals?|imaging|x-?rays?|scans?|tests?|bloodwork|chart|records?|history|'' @
        ''case|progress|status|appointment|visit|admission|discharge|surgery|procedure|prescription|'' @
        ''dosage|regimen|pain|complaints?|family|wife|husband|mother|father|son|daughter|doctor|physician|'' @
        ''nurse|provider|specialist)''"

definition rx_MBI_LETTER :: string where
  "rx_MBI_LETTER = ''[ACDEFGHJKMNPQRTUVWXY]''"

definition rx_MBI_ALNUM :: string where
  "rx_MBI_ALNUM = ''[ACDEFGHJKMNPQRTUVWXY0-9]''"

definition rx_MBI_PATTERN :: string where
  "rx_MBI_PATTERN = ''[1-9]'' @ rx_MBI_LETTER @ rx_MBI_ALNUM @ ''`d-?'' @ rx_MBI_LETTER @ rx_MBI_ALNUM @ ''`d-?'' @ rx_MBI_LETTER @ rx_MBI_ALNUM @ ''`d'' @ rx_MBI_ALNUM"

definition rx_PAYER_PREFIXES :: string where
  "rx_PAYER_PREFIXES = ''BCBS|BlueCross|BlueShield|UHC|UnitedHealth(?:care)?|Aetna|Cigna|Humana|Kaiser|Anthem|Centene|'' @
        ''Molina|HCSC|Tricare|TRICARE|Medicaid|Medicare|Ambetter|Amerigroup|WellCare|Oscar|Clover|Devoted|'' @
        ''Caremark|OptumRx|Express`s*Scripts''"

definition rx_STREET_SUFFIXES :: string where
  "rx_STREET_SUFFIXES = ''Street|St|Avenue|Ave|Road|Rd|Boulevard|Blvd|Lane|Ln|Drive|Dr|Court|Ct|Way|Place|Pl|Terrace|Ter|'' @
        ''Terr|Circle|Cir|Trail|Trl|Parkway|Pkwy|Pky|Highway|Hwy|Square|Sq|Loop|Path|Alley|Aly|Crossing|'' @
        ''Xing|Point|Pt|Pike|Run|Pass|Cove|Glen|Ridge|View|Hill|Heights|Hts|Park|Plaza|Walk|Commons|'' @
        ''Expressway|Expy|Freeway|Fwy|Turnpike|Tpke|Row|Mews|Close|Gardens|Gdn|Estate|Estates''"

definition rx_STATE_ABBREV :: string where
  "rx_STATE_ABBREV = ''(?:AL|AK|AZ|AR|CA|CO|CT|DE|FL|GA|HI|ID|IL|IN|IA|KS|KY|LA|ME|MA|MI|MN|MS|MO|MT|NE|NV|NH|NJ|NM|NY|'' @
        ''NC|ND|OH|OK|OR|RI|SC|SD|TN|TX|UT|VT|VA|WA|WV|WI|WY|DC)''"

definition rx_STATE_FULL :: string where
  "rx_STATE_FULL = ''(?:Alabama|Alaska|Arizona|Arkansas|California|Colorado|Connecticut|Delaware|Florida|Georgia|'' @
        ''Hawaii|Idaho|Illinois|Indiana|Iowa|Kansas|Kentucky|Louisiana|Maine|Maryland|Massachusetts|'' @
        ''Michigan|Minnesota|Mississippi|Missouri|Montana|Nebraska|Nevada|New`s+Hampshire|New`s+Jersey|'' @
        ''New`s+Mexico|New`s+York|North`s+Carolina|North`s+Dakota|Ohio|Oklahoma|Oregon|Pennsylvania|'' @
        ''Rhode`s+Island|South`s+Carolina|South`s+Dakota|Tennessee|Texas|Utah|Vermont|Virginia|Washington|'' @
        ''West`s+Virginia|Wisconsin|Wyoming)''"

definition rx_CITY_NAME :: string where
  "rx_CITY_NAME = ''[A-Z][a-z]+(?:`s+[A-Z][a-z]+)*''"

definition rx_DIRECTIONAL :: string where
  "rx_DIRECTIONAL = ''(?:N|S|E|W|NE|NW|SE|SW|North|South|East|West|Northeast|Northwest|Southeast|Southwest)`.?''"

definition rx_FACILITY_PREFIX :: string where
  "rx_FACILITY_PREFIX = ''[A-Z][a-z]+(?:`s+[A-Z][a-z]+){0,3}''"

definition rx_MEDICAL_SPECIALTY :: string where
  "rx_MEDICAL_SPECIALTY = ''Pulmonary|Cardiology|Cardio|Cardiac|Dermatology|Derma|Gastro(?:enterology)?|Neurology|Neuro|'' @
        ''Oncology|Orthopedic|Ortho|Pediatric|Psych(?:iatry|ology)?|Radiology|Rheumatology|Urology|ENT|'' @
        ''Ophthalmology|Optometry|Allergy|Immunology|Endocrin(?:e|ology)?|Nephrology|Hematology|OB-?GYN|'' @
        ''Obstetrics|Gynecology|Family`s+Medicine|Internal`s+Medicine|Primary`s+Care|Urgent`s+Care|Sleep|'' @
        ''Pain|Spine|Vascular|Wound|Physical`s+Therapy|Occupational`s+Therapy|Speech`s+Therapy|'' @
        ''Rehabilitation|Rehab''"

definition rx_PHARMACY_CHAINS :: string where
  "rx_PHARMACY_CHAINS = ''Walgreens|CVS(?:`s+Pharmacy|`s+Health)?|Rite`s*Aid|Walmart`s+Pharmacy|Costco`s+Pharmacy|'' @
        ''Kroger`s+Pharmacy|Publix`s+Pharmacy|Safeway`s+Pharmacy|Albertsons`s+Pharmacy|Target`s+Pharmacy|'' @
        ''Sam`x27s`s+Club`s+Pharmacy|Walgreen(?:`x27s)?|Wal-?greens|Caremark|Express`s+Scripts|OptumRx|'' @
        ''Cigna`s+Pharmacy|Humana`s+Pharmacy|Kaiser`s+Pharmacy|Good`s+Neighbor`s+Pharmacy|Health`s*Mart''"

section \<open>Patterns\<close>

definition contact_patterns :: "pattern_def list" where
  "contact_patterns =
    [rule (''`((`d{3})`)`s*(`d{3})[-.]?(`d{4})'') ''PHONE'' (90 / 100) 0,
     rule (''`b(`d{3})[-.](`d{3})[-.](`d{4})`b'') ''PHONE'' (85 / 100) 0,
     rule (''(?:^|(?<=`s))`+1[-.`s]?(`d{3})[-.`s]?(`d{3})[-.`s]?(`d{4})`b'') ''PHONE'' (90 / 100) 0,
     rule (''(?:^|(?<=`s))`+`d{1,3}[-.`s]?`d{1,4}[-.`s]?`d{1,4}[-.`s]?`d{1,9}`b'') ''PHONE'' (85 / 100) 0,
     rule_i (''(?:phone|tel|fax|call|contact)[:`s]+([()`d`s+.-]{10,20})'') ''PHONE'' (92 / 100) 1,
     rule_i (''(?:phone|tel|call|contact)[:`s]+`(([S5]`d{2})`)`s*(`d{3})[-.]?(`d{4})'') ''PHONE'' (88 / 100) 0,
     rule_i (''(?:phone|tel|call|contact)[:`s]+`((`d[S5]`d)`)`s*(`d{3})[-.]?(`d{4})'') ''PHONE'' (88 / 100) 0,
     rule_i (''(?:phone|tel|call|contact)[:`s]+`((`d{2}[S5])`)`s*(`d{3})[-.]?(`d{4})'') ''PHONE'' (88 / 100) 0,
     rule_i (''(?:phone|tel|call|contact)[:`s]+`((`d{3})`)`s*([lI1]`d{2})[-.]?(`d{4})'') ''PHONE'' (88 / 100) 0,
     rule_i (''(?:phone|tel|call|contact)[:`s]+`((`d{3})`)`s*(`d{3})[-.]?(`d{3}[B8])'') ''PHONE'' (88 / 100) 0,
     rule (''`b[A-Za-z0-9._%+-]+@[A-Za-z0-9.-]+`.[A-Za-z]{2,}`b'') ''EMAIL'' (95 / 100) 0,
     rule_i (''(?:email|e-mail)[:`s]+([A-Za-z0-9._%+-]+@[A-Za-z0-9.-]+`.[A-Za-z]{2,})'') ''EMAIL'' (96 / 100) 1]"

definition date_patterns :: "pattern_def list" where
  "date_patterns =
    [rule (''`b(`d{1,2})/(`d{1,2})/(`d{4})`b'') ''DATE'' (70 / 100) 0,
     rule (''`b(`d{1,2})-(`d{1,2})-(`d{4})`b'') ''DATE'' (70 / 100) 0,
     rule (''`b(`d{4})-(`d{1,2})-(`d{1,2})`b'') ''DATE'' (70 / 100) 0,
     rule (''`b(`d{1,2}/`d{1,2}/`d{2})`b'') ''DATE'' (65 / 100) 0,
     rule (''`b(`d{1,2}-`d{1,2}-`d{2})`b'') ''DATE'' (65 / 100) 0,
     rule_i (''(?:DOB|Date)[:`s]+(`d{1,2}`.`d{1,2}`.`d{4})'') ''DATE'' (85 / 100) 1,
     rule_i (''`b(January|February|March|April|May|June|July|August|September|October|November|'' @
        ''December)`s+`d{1,2},?`s+`d{4}`b'') ''DATE'' (75 / 100) 0,
     rule_i (''`b`d{1,2}`s+(January|February|March|April|May|June|July|August|September|October|November|'' @
        ''December)`s+`d{4}`b'') ''DATE'' (75 / 100) 0,
     rule_i (''`b(January|February|March|April|May|June|July|August|September|October|November|'' @
        ''December)`s+`d{1,2}`.,`s*`d{4}`b'') ''DATE'' (78 / 100) 0,
     rule_i (''`b(Jan|Feb|Mar|Apr|May|Jun|Jul|Aug|Sep|Sept|Oct|Nov|Dec)`.?`s+`d{1,2}(?:st|nd|rd|'' @
        ''th)?,?`s+`d{4}`b'') ''DATE'' (75 / 100) 0,
     rule_i (''`b`d{1,2}`s+(Jan|Feb|Mar|Apr|May|Jun|Jul|Aug|Sep|Sept|Oct|Nov|Dec)`.?`s+`d{4}`b'') ''DATE'' (75 / 100) 0,
     rule_i (''(?:DOB|Date`s+of`s+Birth|Birth`s*date)[:`s]+((?:Jan|Feb|Mar|Apr|May|Jun|Jul|Aug|Sep|Sept|Oct|'' @
        ''Nov|Dec)`.?`s+`d{1,2},?`s+`d{4})'') ''DATE_DOB'' (95 / 100) 1,
     rule_i (''(?:DOB|Date`s+of`s+Birth|Birth`s*date)[:`s]+(`d{1,2}[/`-]`d{1,2}[/`-]`d{2,4})'') ''DATE_DOB'' (95 / 100) 1,
     rule_i (''(?:admission|admit|discharge)[:`s]+(`d{1,2}[/`-]`d{1,2}[/`-]`d{2,4})'') ''DATE'' (90 / 100) 1,
     rule_i (''`b(`d{1,2}(?:st|nd|rd|th)`s+of`s+(?:January|February|March|April|May|June|July|August|September|'' @
        ''October|November|December)(?:`s*,?`s*`d{4})?)`b'') ''DATE'' (80 / 100) 0,
     rule_i (''`b(`d{1,2}(?:st|nd|rd|th)`s+of`s+(?:January|February|March|April|May|June|July|August|September|'' @
        ''October|November|December))`b'') ''DATE'' (75 / 100) 0,
     rule_i (''`b(`d{1,2}(?:st|nd|rd|th)`s+(?:January|February|March|April|May|June|July|August|September|'' @
        ''October|November|December)(?:`s*,?`s*`d{4})?)`b'') ''DATE'' (78 / 100) 0,
     rule_i (''`b(the`s+`d{1,2}(?:st|nd|rd|th)`s+of`s+(?:January|February|March|April|May|June|July|August|'' @
        ''September|October|November|December))`b'') ''DATE'' (80 / 100) 0,
     rule_i (''`b((?:Mon|Tue|Wed|Thu|Fri|Sat|Sun|Monday|Tuesday|Wednesday|Thursday|Friday|Saturday|'' @
        ''Sunday)`s*,?`s+(?:Jan|Feb|Mar|Apr|May|Jun|Jul|Aug|Sep|Sept|Oct|Nov|Dec|January|February|March|'' @
        ''April|May|June|July|August|September|October|November|December)`.?`s+`d{1,2}`s*,?`s*`d{4})`b'') ''DATE'' (82 / 100) 0,
     rule_i (''`b((?:between|from)`s+(?:January|February|March|April|May|June|July|August|September|October|'' @
        ''November|December)`s+`d{1,2})`b'') ''DATE'' (75 / 100) 0,
     rule_i (''`b((?:and|to|through)`s+(?:January|February|March|April|May|June|July|August|September|October|'' @
        ''November|December)`s+`d{1,2})`b'') ''DATE'' (75 / 100) 0,
     rule_i (''`b((?:January|February|March|April|May|June|July|August|September|October|November|'' @
        ''December)`s+`d{1,2}`s*[-]`s*`d{1,2}`s*,?`s*`d{4})`b'') ''DATE'' (78 / 100) 0]"

definition time_age_patterns :: "pattern_def list" where
  "time_age_patterns =
    [rule_i (''`b(`d{1,2}:`d{2}`s*(?:AM|PM|am|pm|a`.m`.|p`.m`.))`b'') ''TIME'' (88 / 100) 0,
     rule_i (''`b(`d{1,2}:`d{2}:`d{2}`s*(?:AM|PM|am|pm|a`.m`.|p`.m`.))`b'') ''TIME'' (88 / 100) 0,
     rule_i (''(?:at|@)`s*(`d{1,2}:`d{2}`s*(?:AM|PM|am|pm)?)`b'') ''TIME'' (85 / 100) 1,
     rule_i (''(?:time|recorded|documented|signed)[:`s]+(`d{1,2}:`d{2}(?::`d{2})?`s*(?:AM|PM|am|pm)?)'') ''TIME'' (90 / 100) 1,
     rule (''`b(`d{2}:`d{2}:`d{2})`b'') ''TIME'' (82 / 100) 1,
     rule (''`b(`d{4}-`d{2}-`d{2}T`d{2}:`d{2}:`d{2}(?:`.`d+)?(?:Z|[+-]`d{2}:?`d{2})?)`b'') ''DATETIME'' (92 / 100) 1,
     rule (''`b(`d{4}-`d{2}-`d{2}`s+`d{2}:`d{2}:`d{2})`b'') ''DATETIME'' (88 / 100) 1,
     rule (''`b(`d{2}:`d{2}:`d{2}[+-]`d{2}:?`d{2})`b'') ''TIME'' (85 / 100) 1,
     rule (''`b(`d{2}:`d{2}:`d{2}Z)`b'') ''TIME'' (88 / 100) 1,
     rule_i (''(?:began|started|ended|completed|performed)`s+(?:at`s+)?(`d{2}:`d{2})`b'') ''TIME'' (85 / 100) 1,
     rule_i (''`b(`d{1,3})`s*(?:year|yr)s?`s*old`b'') ''AGE'' (90 / 100) 1,
     rule_i (''`b(`d{1,3})[-]`s*(?:year|yr)s?[-]`s*old`b'') ''AGE'' (90 / 100) 1,
     rule_i (''`b(`d{1,3})`s*y/?o`b'') ''AGE'' (88 / 100) 1,
     rule_i (''`b(?:age|aged)[:`s]+(`d{1,3})`b'') ''AGE'' (92 / 100) 1,
     rule_i (''(?:Room|Rm)[:`s#]+(`d{1,4}[A-Z]?)'') ''ROOM'' (88 / 100) 1,
     rule_i (''(?:Bed)[:`s#]+(`d{1,2}[A-Z]?)'') ''ROOM'' (85 / 100) 1,
     rule_i (''(?:Room|Rm)[:`s#]+(`d{1,4}[A-Z]?)`s*,?`s*(?:Bed)[:`s#]*(`d{1,2}[A-Z]?)'') ''ROOM'' (90 / 100) 0]"

definition provider_name_patterns :: "pattern_def list" where
  "provider_name_patterns =
    [rule (''((?:[Dd][Rr]`.?|[Dd]octor)[ `t]+'' @ rx_NAME @ '')`b'') ''NAME_PROVIDER'' (88 / 100) 1,
     rule (''((?:[Dd][Rr]`.?|[Dd]octor)[ `t]+'' @ rx_NAME @ ''(?:[ `t]+'' @ rx_NAME @ ''){1,2})`b'') ''NAME_PROVIDER'' (94 / 100) 1,
     rule_i (''((?:Dr`.?|Doctor)[ `t]+'' @ rx_INITIAL @ ''[ `t]+'' @ rx_NAME @ '')'') ''NAME_PROVIDER'' (90 / 100) 1,
     rule_i (''((?:Dr`.?|Doctor)[ `t]+'' @ rx_DOUBLE_INITIAL @ ''[ `t]+'' @ rx_NAME @ '')'') ''NAME_PROVIDER'' (90 / 100) 1,
     rule (''`b('' @ rx_NAME @ ''(?:[ `t]+'' @ rx_NAME @ ''){0,2},?`s*'' @ rx_CREDENTIALS @ '')`b'') ''NAME_PROVIDER'' (92 / 100) 1,
     rule (''`b('' @ rx_INITIAL @ ''[ `t]+'' @ rx_NAME @ '',?`s*'' @ rx_CREDENTIALS @ '')`b'') ''NAME_PROVIDER'' (90 / 100) 1,
     rule (''`b('' @ rx_DOUBLE_INITIAL @ ''[ `t]+'' @ rx_NAME @ '',?`s*'' @ rx_CREDENTIALS @ '')`b'') ''NAME_PROVIDER'' (90 / 100) 1,
     rule (''((?:Dr`.?|Doctor)[ `t]+'' @ rx_NAME @ ''(?:[ `t]+'' @ rx_NAME @ ''){0,2},?`s*'' @ rx_CREDENTIALS @ '')`b'') ''NAME_PROVIDER'' (95 / 100) 1,
     rule_i (''(?:Electronically`s+signed|E-signed|Authenticated|Verified|Approved)`s+(?:by)[:`s]+('' @ rx_NAME @ ''(?:[ `t]+'' @ rx_NAME @ ''){0,2},?`s*'' @ rx_CREDENTIALS @ '')'') ''NAME_PROVIDER'' (96 / 100) 1,
     rule_i (''(?:Electronically`s+signed|E-signed|Authenticated|Verified|Approved)`s+(?:by)[:`s]+((?:Dr`.?|'' @
        ''Doctor)[ `t]+'' @ rx_NAME @ ''(?:[ `t]+'' @ rx_NAME @ ''){0,2})'') ''NAME_PROVIDER'' (96 / 100) 1,
     rule_i (''(?:drawn|reviewed|verified|reported|signed|approved|dictated|transcribed|entered|'' @
        ''ordered)`s+(?:by|per)[:`s]+('' @ rx_NAME @ ''(?:[ `t]+'' @ rx_NAME @ ''){0,2},?`s*'' @ rx_CREDENTIALS @ '')'') ''NAME_PROVIDER'' (88 / 100) 1,
     rule (''(?:drawn|reviewed|verified|reported|signed|approved|dictated|transcribed|entered|'' @
        ''ordered)`s+(?:by|per)[:`s]+('' @ rx_INITIAL @ ''[ `t]+'' @ rx_NAME @ '')'') ''NAME_PROVIDER'' (72 / 100) 1,
     rule (''(?:drawn|reviewed|verified|reported|signed|approved|dictated|transcribed|entered|'' @
        ''ordered)`s+(?:by|per)[:`s]+('' @ rx_DOUBLE_INITIAL @ ''[ `t]+'' @ rx_NAME @ '')'') ''NAME_PROVIDER'' (72 / 100) 1,
     rule_i (''(?:cc|CC)[:`s]+((?:Dr`.?|Doctor)[ `t]+'' @ rx_NAME @ ''(?:[ `t]+'' @ rx_NAME @ ''){0,2})'') ''NAME_PROVIDER'' (85 / 100) 1,
     rule_i (''(?:cc|CC)[:`s]+('' @ rx_NAME @ ''(?:[ `t]+'' @ rx_NAME @ ''){0,2},?`s*'' @ rx_CREDENTIALS @ '')'') ''NAME_PROVIDER'' (85 / 100) 1,
     rule_i (''`b(?:Nurse|NP|PA|RN):`s*('' @ rx_NAME @ ''(?:[ `t]+'' @ rx_NAME @ ''){0,2})'') ''NAME_PROVIDER'' (85 / 100) 1,
     rule_i (''(?:Provider|Attending|Referring|Ordering|Treating|Primary`s+Care|Consultant)[:`s]+('' @ rx_NAME @ ''(?:[ `t]+'' @ rx_NAME @ ''){1,2})'') ''NAME_PROVIDER'' (94 / 100) 1,
     rule_i (''(?:Provider|Attending|Referring|Ordering|Treating|Primary`s+Care|Consultant)[:`s]+((?:Dr`.?|'' @
        ''Doctor)[ `t]+'' @ rx_NAME @ ''(?:[ `t]+'' @ rx_NAME @ ''){0,2})'') ''NAME_PROVIDER'' (95 / 100) 1,
     rule (''(?:Provider|Attending|Referring|Ordering|Treating|Primary`s+Care)[:`s]+('' @ rx_NAME @ ''[ `t]+'' @ rx_MIDDLE_INITIAL @ ''[ `t]+'' @ rx_NAME @ '')'') ''NAME_PROVIDER'' (94 / 100) 1,
     rule_i (''(?:Provider`s+Signature)[:`s]*('' @ rx_NAME @ ''(?:[ `t]+'' @ rx_NAME @ ''){1,2})'') ''NAME_PROVIDER'' (94 / 100) 1,
     rule (''(?:Provider`s+Signature)[:`s]*('' @ rx_NAME @ ''[ `t]+'' @ rx_MIDDLE_INITIAL @ ''[ `t]+'' @ rx_NAME @ '')'') ''NAME_PROVIDER'' (94 / 100) 1,
     rule_i (''(?:School`s+)?(?:Counselor|Social`s*Worker|Psychologist|Principal|Teacher)[:`s]+('' @ rx_NAME @ ''(?:[ `t]+'' @ rx_NAME @ ''){1,2},?`s*'' @ rx_CREDENTIALS @ '')'') ''NAME'' (94 / 100) 1,
     rule_i (''(?:School`s+)?(?:Counselor|Social`s*Worker|Psychologist|Principal|Teacher)[:`s]+('' @ rx_NAME @ ''[ `t]+'' @ rx_MIDDLE_INITIAL @ ''[ `t]+'' @ rx_NAME @ '')'') ''NAME'' (92 / 100) 1,
     rule_i (''(?:School`s+)?(?:Counselor|Social`s*Worker|Psychologist|Principal|Teacher)[:`s]+('' @ rx_NAME @ ''[ `t]+'' @ rx_MIDDLE_INITIAL @ ''[ `t]+'' @ rx_NAME @ '',?`s*'' @ rx_CREDENTIALS @ '')'') ''NAME'' (94 / 100) 1,
     rule (''`b([A-Z][a-z]+`s+[A-Z][a-z]+)`s*$'') ''NAME'' (75 / 100) 1,
     rule_i (''(?:RESTR|RESTRICTION)[:`s]*(?:NONE|[A-Z])`s+([A-Z][a-z]+`s+[A-Z][a-z]+)(?=`s+`d|`s*$)'') ''NAME'' (85 / 100) 1,
     rule_i (''(?:DOB)[:`s]+`d{1,2}[/-]`d{1,2}[/-]`d{2,4}`s+([A-Z]{2,20})(?=`s+`d|`s*$)'') ''NAME'' (82 / 100) 1,
     rule (''`b2`s+([A-Z]{2,15}(?:`s+[A-Z]{2,15})?)`s+(?=`d{1,5}`s+[A-Z])'') ''NAME'' (80 / 100) 1,
     rule_i (''(?:Nom|Pr`xe9nom|Nom`s+de`s+famille)[:`s]+('' @ rx_NAME @ ''(?:[ `t]+'' @ rx_NAME @ ''){0,2})'') ''NAME'' (88 / 100) 1,
     rule_i (''(?:Vorname|Nachname|Familienname)[:`s]+('' @ rx_NAME @ ''(?:[ `t]+'' @ rx_NAME @ ''){0,2})'') ''NAME'' (88 / 100) 1,
     rule_i (''(?:Nombre|Apellido|Apellidos)[:`s]+('' @ rx_NAME @ ''(?:[ `t]+'' @ rx_NAME @ ''){0,2})'') ''NAME'' (88 / 100) 1,
     rule_i (''(?:Nome|Cognome)[:`s]+('' @ rx_NAME @ ''(?:[ `t]+'' @ rx_NAME @ ''){0,2})'') ''NAME'' (88 / 100) 1,
     rule_i (''(?:Naam|Voornaam|Achternaam)[:`s]+('' @ rx_NAME @ ''(?:[ `t]+'' @ rx_NAME @ ''){0,2})'') ''NAME'' (88 / 100) 1,
     rule_i (''(?:Sobrenome)[:`s]+('' @ rx_NAME @ ''(?:[ `t]+'' @ rx_NAME @ ''){0,2})'') ''NAME'' (88 / 100) 1,
     rule_i (''(?:Full`s+Name|Complete`s+Name|Legal`s+Name|Vollst`xe4ndiger`s+Name|Nom`s+complet|'' @
        ''Nombre`s+completo)[:`s]+('' @ rx_NAME @ ''(?:[ `t]+'' @ rx_NAME @ ''){1,3})'') ''NAME'' (90 / 100) 1]"

definition patient_name_patterns :: "pattern_def list" where
  "patient_name_patterns =
    [rule_i (''(?:Patient(?:`s+Name)?|Pt):`s*('' @ rx_NAME @ ''(?:[ `t]+'' @ rx_NAME @ ''){1,3})'') ''NAME_PATIENT'' (92 / 100) 1,
     rule (''`b(?i:Patient)[ `t]+('' @ rx_NAME @ ''[ `t]+'' @ rx_NAME @ ''(?:[ `t]+'' @ rx_NAME @ '')?)`b'') ''NAME_PATIENT'' (87 / 100) 1,
     rule_i (''(?:Name):`s*('' @ rx_NAME @ ''(?:[ `t]+'' @ rx_NAME @ ''){1,3})'') ''NAME_PATIENT'' (88 / 100) 1,
     rule_i (''(?:RE|Re|Regarding):`s*('' @ rx_NAME @ ''(?:[ `t]+'' @ rx_NAME @ ''){1,3})`s*`('') ''NAME_PATIENT'' (90 / 100) 1,
     rule_i (''(?:RE|Re|Regarding):`s*('' @ rx_NAME @ '',`s*'' @ rx_NAME @ ''(?:[ `t]+'' @ rx_NAME @ ''){0,1})'') ''NAME_PATIENT'' (90 / 100) 1,
     rule_i (''(?:Patient):`s*('' @ rx_NAME @ '')`b'') ''NAME_PATIENT'' (75 / 100) 1,
     rule_i (''(?:Patient(?:`s+Name)?|Pt):`s*('' @ rx_INITIAL @ ''[ `t]+'' @ rx_NAME @ '')'') ''NAME_PATIENT'' (90 / 100) 1,
     rule_i (''(?:Patient(?:`s+Name)?|Pt):`s*('' @ rx_DOUBLE_INITIAL @ ''[ `t]+'' @ rx_NAME @ '')'') ''NAME_PATIENT'' (90 / 100) 1,
     rule_i (''(?:Patient(?:`s+Name)?|Pt):`s*('' @ rx_NAME @ ''[ `t]+'' @ rx_INITIAL @ ''[ `t]+'' @ rx_NAME @ '')'') ''NAME_PATIENT'' (92 / 100) 1,
     rule (''('' @ rx_NAME @ ''),`s+('' @ rx_NAME @ '')(?=`s*(?:`(|DOB|MRN|SSN|`d{1,2}/|`n))'') ''NAME_PATIENT'' (72 / 100) 0,
     rule_i (''(?:prescribed|ordered|given|administered|dispensed)`s+(?:to|for)`s+('' @ rx_NAME @ '',`s+'' @ rx_NAME @ '')'') ''NAME_PATIENT'' (75 / 100) 1,
     rule_i (''(?:(?:the)`s+)?(?:patient),`s+('' @ rx_NAME @ ''(?:[ `t]+'' @ rx_NAME @ ''){1,2}),'') ''NAME_PATIENT'' (78 / 100) 1,
     rule_i (''`b(?:Mr`.?|Mrs`.?|Ms`.?|Miss)[ `t]+('' @ rx_NAME @ ''(?:[ `t]+'' @ rx_NAME @ ''){0,2})'') ''NAME_PATIENT'' (90 / 100) 1,
     rule (''`b(?:Herr|Frau|Fr`xe4ulein|Hr`.|Fr`.)[ `t]+('' @ rx_NAME @ ''(?:[ `t]+'' @ rx_NAME @ ''){0,2})'') ''NAME'' (88 / 100) 1,
     rule (''`b(?:Monsieur|Madame|Mademoiselle|M`.|Mme`.?|Mlle`.?|Docteur|Docteure|Dr`.)[ `t]+('' @ rx_NAME @ ''(?:[ `t]+'' @ rx_NAME @ ''){0,2})'') ''NAME'' (88 / 100) 1,
     rule (''`b(?:Se`xf1or|Se`xf1ora|Se`xf1orita|Sr`.|Sra`.|Srta`.|Don|Do`xf1a)[ `t]+('' @ rx_NAME @ ''(?:[ `t]+'' @ rx_NAME @ ''){0,2})'') ''NAME'' (88 / 100) 1,
     rule (''`b(?:Signor|Signora|Signorina|Sig`.|Sig`.ra|Sig`.na)[ `t]+('' @ rx_NAME @ ''(?:[ `t]+'' @ rx_NAME @ ''){0,2})'') ''NAME'' (88 / 100) 1,
     rule (''`b(?:Meneer|Mevrouw|Mevr`.|Dhr`.|de[ `t]+heer)[ `t]+('' @ rx_NAME @ ''(?:[ `t]+'' @ rx_NAME @ ''){0,2})'') ''NAME'' (88 / 100) 1,
     rule (''`b(?:Senhor|Senhora|Sr`.|Sra`.)[ `t]+('' @ rx_NAME @ ''(?:[ `t]+'' @ rx_NAME @ ''){0,2})'') ''NAME'' (88 / 100) 1,
     rule_i (''`b(?:Mr`.?|Mrs`.?|Ms`.?|Miss)[ `t]+('' @ rx_INITIAL @ ''[ `t]+'' @ rx_NAME @ '')'') ''NAME_PATIENT'' (90 / 100) 1,
     rule_i (''`b(?:Mr`.?|Mrs`.?|Ms`.?|Miss)[ `t]+('' @ rx_DOUBLE_INITIAL @ ''[ `t]+'' @ rx_NAME @ '')'') ''NAME_PATIENT'' (90 / 100) 1,
     rule_i (''`b(?:Mr`.?|Mrs`.?|Ms`.?|Miss)[ `t]+('' @ rx_NAME @ ''[ `t]+'' @ rx_INITIAL @ ''[ `t]+'' @ rx_NAME @ '')'') ''NAME_PATIENT'' (92 / 100) 1,
     rule_i (''(?:Emergency`s+Contact|Next`s+of`s+Kin|NOK)[:`s]+('' @ rx_NAME @ ''(?:[ `t]+'' @ rx_NAME @ ''){0,3})'') ''NAME_RELATIVE'' (88 / 100) 1,
     rule_i (''(?:Spouse|Partner|Guardian|Caregiver)[:`s]+('' @ rx_NAME @ ''(?:[ `t]+'' @ rx_NAME @ ''){0,2})'') ''NAME_RELATIVE'' (88 / 100) 1,
     rule_i (''`b(?:husband|wife|spouse|partner|son|daughter|mother|father|brother|sister|parent|child|'' @
        ''guardian)[ `t]+('' @ rx_NAME @ ''(?:[ `t]+'' @ rx_NAME @ ''){0,2})'') ''NAME_RELATIVE'' (82 / 100) 1,
     rule_i (''`b(?:patient`x27?s?|his|her|their)[ `t]+(?:husband|wife|spouse|partner|son|daughter|mother|'' @
        ''father|brother|sister|parent|child)[ `t]+('' @ rx_NAME @ ''(?:[ `t]+'' @ rx_NAME @ ''){0,2})'') ''NAME_RELATIVE'' (85 / 100) 1,
     rule_i (''`b(?:mother|father|spouse|partner|guardian)(?:`x27s[ `t]+name)?[ `t]+(?:is|was)[ `t]+('' @ rx_NAME @ ''(?:[ `t]+'' @ rx_NAME @ ''){0,2})'') ''NAME_RELATIVE'' (80 / 100) 1,
     rule_i (''`b(?:my`s+name`s+is|I`s+am|I`x27m)[ `t]+('' @ rx_NAME @ ''(?:[ `t]+'' @ rx_NAME @ ''){0,2})'') ''NAME_PATIENT'' (90 / 100) 1,
     rule_i (''`bthis`s+is[ `t]+('' @ rx_NAME @ ''(?:[ `t]+'' @ rx_NAME @ ''){0,2})(?:`s+speaking|`s+calling)?'') ''NAME_PATIENT'' (85 / 100) 1,
     rule (''`b'' @ rx_CLINICAL_VERBS_PAST @ ''[ `t]+('' @ rx_NAME @ '')`b'') ''NAME_PATIENT'' (82 / 100) 1,
     rule (''`b(?i:spoke|met|talked|visited|checked|followed`s+up)[ `t]+(?i:with|to)[ `t]+('' @ rx_NAME @ '')`b'') ''NAME_PATIENT'' (80 / 100) 1,
     rule (''`b('' @ rx_NAME @ '')`x27s[ `t]+'' @ rx_CLINICAL_NOUNS @ ''`b'') ''NAME_PATIENT'' (82 / 100) 1]"

definition medical_id_patterns :: "pattern_def list" where
  "medical_id_patterns =
    [rule_i (''(?:MRN|Medical`s+Record(?:`s+Number)?)[:`s#]+([A-Z]*-?`d{6,12}[A-Z]*)'') ''MRN'' (95 / 100) 1,
     rule_i (''`b(MRN-`d{6,12})`b'') ''MRN'' (92 / 100) 1,
     rule_i (''(?:patient`s+ID|patient`s*#|pt`s+ID)[:`s#]+([A-Z]*-?`d{6,12}[A-Z]*)'') ''MRN'' (88 / 100) 1,
     rule_i (''(?:Encounter|Visit)[:`s#]+([A-Z]*`d{6,12}[A-Z]*)'') ''ENCOUNTER_ID'' (90 / 100) 1,
     rule_i (''(?:Accession|Lab)[:`s#]+([A-Z]*`d{6,12}[A-Z]*)'') ''ACCESSION_ID'' (90 / 100) 1,
     rule_i (''(?:NPI)[:`s#]+(`d{10})`b'') ''NPI'' (95 / 100) 1,
     rule_i (''(?:provider|physician|prescriber|ordering)`s+NPI[:`s#]*(`d{10})`b'') ''NPI'' (92 / 100) 1,
     rule_i (''(?:DEA)[:`s#]+([A-Z]{2}`d{7})`b'') ''DEA'' (95 / 100) 1,
     rule_i (''(?:Member`s*ID|Subscriber)[:`s#]+([A-Z0-9]{6,15})'') ''MEMBER_ID'' (88 / 100) 1,
     rule_i (''(?:Medicaid)[:`s#]+([A-Z0-9]{8,12})'') ''HEALTH_PLAN_ID'' (88 / 100) 1,
     rule_i (''(?:Medicare`s*(?:Beneficiary`s*)?(?:ID|#|Number)?|MBI)[:`s#()]*('' @ rx_MBI_PATTERN @ '')'') ''MEDICARE_ID'' (97 / 100) 1,
     rule_i (''(?:Beneficiary`s*ID)[:`s#]*('' @ rx_MBI_PATTERN @ '')'') ''MEDICARE_ID'' (95 / 100) 1,
     rule_i (''(?:ID`s*`(MBI`))[:`s#]*('' @ rx_MBI_PATTERN @ '')'') ''MEDICARE_ID'' (96 / 100) 1,
     rule (''`b('' @ rx_MBI_PATTERN @ '')`b'') ''MEDICARE_ID'' (82 / 100) 1,
     rule_i (''(?:RXBIN|RX`s*BIN)[:`s]+(`d{6})'') ''PHARMACY_ID'' (90 / 100) 1,
     rule_i (''(?:RXPCN|RX`s*PCN)[:`s]+([A-Z0-9]{4,10})'') ''PHARMACY_ID'' (88 / 100) 1,
     rule_i (''(?:Group(?:`s*(?:Number|No|#))?)[:`s#]+([A-Z0-9-]{4,15})'') ''HEALTH_PLAN_ID'' (75 / 100) 1,
     rule_i (''(?:Member`s*ID)[:`s#]+([A-Z]{2,4}-`d{5,12})'') ''MEMBER_ID'' (92 / 100) 1,
     rule (''`b([A-Z]{2,4}-`d{5,12})`b'') ''HEALTH_PLAN_ID'' (70 / 100) 1,
     rule_i (''(?:'' @ rx_PAYER_PREFIXES @ '')[- ]?([A-Z]*`d[A-Z0-9]{5,14})'') ''HEALTH_PLAN_ID'' (90 / 100) 1,
     rule_i (''((?:'' @ rx_PAYER_PREFIXES @ '')[- ]?[A-Z]*`d[A-Z0-9]{5,14})'') ''HEALTH_PLAN_ID'' (88 / 100) 0]"

definition address_patterns :: "pattern_def list" where
  "address_patterns =
    [rule_i (''ADDRESS:`s*(`d+[A-Za-z]?`s+[A-Za-z]+(?:`s+[A-Za-z]+)*`s+(?:'' @ rx_STREET_SUFFIXES @ '')`.?`s*[`n`r]+`s*'' @ rx_CITY_NAME @ ''`s*,`s*'' @ rx_STATE_ABBREV @ ''`s+`d{5}(?:-`d{4})?)'') ''ADDRESS'' (96 / 100) 1,
     rule_i (''(`d+[A-Za-z]?`s+[A-Za-z]+(?:`s+[A-Za-z]+)*`s+(?:'' @ rx_STREET_SUFFIXES @ '')`.?`s*[`n`r]+`s*'' @ rx_CITY_NAME @ ''`s*,`s*'' @ rx_STATE_ABBREV @ ''`s+`d{5}(?:-`d{4})?)'') ''ADDRESS'' (94 / 100) 1,
     rule_i (''(`d+[A-Za-z]?`s+[A-Za-z]+(?:`s+[A-Za-z]+)*`s+(?:'' @ rx_STREET_SUFFIXES @ '')`.?(?:`s*,?`s*(?:Apt|Suite|Ste|Unit|#|Bldg|Building|Floor|Fl)`.?`s*#?`s*[A-Za-z0-9]+)?`s*,`s*'' @ rx_CITY_NAME @ ''`s*,`s*'' @ rx_STATE_ABBREV @ ''`s+`d{5}(?:-`d{4})?)'') ''ADDRESS'' (95 / 100) 1,
     rule_i (''(`d+[A-Za-z]?`s+[A-Za-z]+(?:`s+[A-Za-z]+)*`s+(?:'' @ rx_STREET_SUFFIXES @ '')`.?`s*,`s*'' @ rx_CITY_NAME @ ''`s*,`s*'' @ rx_STATE_ABBREV @ ''`s+`d{5}(?:-`d{4})?)'') ''ADDRESS'' (94 / 100) 1,
     rule_i (''(`d+[A-Za-z]?`s+[A-Za-z]+(?:`s+[A-Za-z]+)*`s+(?:'' @ rx_STREET_SUFFIXES @ '')`.?`s*,`s*'' @ rx_CITY_NAME @ ''`s+'' @ rx_STATE_ABBREV @ ''`s+`d{5}(?:-`d{4})?)'') ''ADDRESS'' (93 / 100) 1,
     rule_i (''(`d+[A-Za-z]?`s+[A-Za-z]+(?:`s+[A-Za-z]+)*`s+(?:'' @ rx_STREET_SUFFIXES @ '')`.?(?:`s*,?`s*(?:Apt|Suite|Ste|Unit|#|Bldg|Building|Floor|Fl)`.?`s*#?`s*[A-Za-z0-9]+)?`s*,`s*'' @ rx_CITY_NAME @ ''`s*,`s*'' @ rx_STATE_ABBREV @ '')`b'') ''ADDRESS'' (92 / 100) 1,
     rule (''('' @ rx_CITY_NAME @ ''`s*,`s*'' @ rx_STATE_ABBREV @ ''`s+`d{5}(?:-`d{4})?)'') ''ADDRESS'' (90 / 100) 1,
     rule (''('' @ rx_CITY_NAME @ ''`s*,`s*'' @ rx_STATE_ABBREV @ '')`b(?!`s*`d)'') ''ADDRESS'' (85 / 100) 1,
     rule_i (''`d+[A-Za-z]?`s+[A-Za-z]+(?:`s+[A-Za-z]+)*`s+(?:'' @ rx_STREET_SUFFIXES @ '')`.?`b(?:`s*,?`s*(?:Apt|Suite|Ste|Unit|#|Bldg|Building|Floor|Fl)`.?`s*#?`s*[A-Za-z0-9]+)?'') ''ADDRESS'' (82 / 100) 0,
     rule (''`b(`d+[A-Za-z]?`s+'' @ rx_DIRECTIONAL @ ''`s+[A-Z][a-z]+(?:`s+[A-Z][a-z]+)?)`b'') ''ADDRESS'' (88 / 100) 1,
     rule_i (''`b`d`s+(`d+[A-Za-z]?`s+[A-Za-z]+(?:`s+[A-Za-z]+)*`s+(?:'' @ rx_STREET_SUFFIXES @ ''))`.?`b'') ''ADDRESS'' (90 / 100) 1,
     rule (''`b(`d+[A-Z]?`s+[A-Z]+(?:`s+[A-Z]+)*`s+(?:STREET|ST|AVENUE|AVE|ROAD|RD|BOULEVARD|BLVD|LANE|LN|'' @
        ''DRIVE|DR|COURT|CT|WAY|PLACE|PL|TERRACE|TER|CIRCLE|CIR|TRAIL|TRL|PARKWAY|PKWY|HIGHWAY|HWY))`b'') ''ADDRESS'' (88 / 100) 1,
     rule_i (''P`.?O`.?`s*Box`s+`d+'') ''ADDRESS'' (88 / 100) 0,
     rule (''(?:[Ll]ives?`s+in|[Ff]rom|[Rr]esident`s+of|[Ll]ocated`s+in|[Bb]ased`s+in|[Bb]orn`s+in)`s+('' @ rx_CITY_NAME @ '')'') ''ADDRESS'' (80 / 100) 1,
     rule_i (''(?:ZIP|Postal|Zip`s*Code)[:`s]+(`d{5}(?:-`d{4})?)'') ''ZIP'' (95 / 100) 1]"

definition facility_patterns :: "pattern_def list" where
  "facility_patterns =
    [rule (''`b(036`d{2}(?:-`d{4})?)`b'') ''ZIP'' (88 / 100) 1,
     rule (''`b(059`d{2}(?:-`d{4})?)`b'') ''ZIP'' (88 / 100) 1,
     rule (''`b(063`d{2}(?:-`d{4})?)`b'') ''ZIP'' (88 / 100) 1,
     rule (''`b(102`d{2}(?:-`d{4})?)`b'') ''ZIP'' (88 / 100) 1,
     rule (''`b(203`d{2}(?:-`d{4})?)`b'') ''ZIP'' (85 / 100) 1,
     rule (''`b(556`d{2}(?:-`d{4})?)`b'') ''ZIP'' (88 / 100) 1,
     rule (''`b(692`d{2}(?:-`d{4})?)`b'') ''ZIP'' (88 / 100) 1,
     rule (''`b(790`d{2}(?:-`d{4})?)`b'') ''ZIP'' (88 / 100) 1,
     rule (''`b(821`d{2}(?:-`d{4})?)`b'') ''ZIP'' (88 / 100) 1,
     rule (''`b(823`d{2}(?:-`d{4})?)`b'') ''ZIP'' (88 / 100) 1,
     rule (''`b(830`d{2}(?:-`d{4})?)`b'') ''ZIP'' (88 / 100) 1,
     rule (''`b(831`d{2}(?:-`d{4})?)`b'') ''ZIP'' (88 / 100) 1,
     rule (''`b(878`d{2}(?:-`d{4})?)`b'') ''ZIP'' (88 / 100) 1,
     rule (''`b(879`d{2}(?:-`d{4})?)`b'') ''ZIP'' (88 / 100) 1,
     rule (''`b(884`d{2}(?:-`d{4})?)`b'') ''ZIP'' (88 / 100) 1,
     rule (''`b(890`d{2}(?:-`d{4})?)`b'') ''ZIP'' (88 / 100) 1,
     rule (''`b(893`d{2}(?:-`d{4})?)`b'') ''ZIP'' (88 / 100) 1,
     rule (''('' @ rx_FACILITY_PREFIX @ ''`s+(?:Hospital|Medical`s+Center|Health`s+Center|Clinic|Health`s+System|Healthcare|'' @
        ''Specialty`s+Clinic|Regional`s+Medical))`b'') ''FACILITY'' (85 / 100) 1,
     rule (''('' @ rx_FACILITY_PREFIX @ ''`s+(?:Memorial|General|Community|University|Regional|Veterans|Children`x27s)`s+Hospital)`b'') ''FACILITY'' (88 / 100) 1,
     rule (''('' @ rx_FACILITY_PREFIX @ ''`s+(?:Group|LLC|Ltd|Inc|Associates|Partners)`s+Hospital)`b'') ''FACILITY'' (85 / 100) 1,
     rule (''(St`.?`s+[A-Z][a-z]+(?:`x27s)?`s+(?:Hospital|Medical`s+Center|Health`s+Center|Clinic|'' @
        ''Health`s+System|Heart`s+Institute|Cancer`s+Center|Children`x27s`s+Hospital))'') ''FACILITY'' (92 / 100) 1,
     rule (''(Saint`s+[A-Z][a-z]+(?:`x27s)?`s+(?:Hospital|Medical`s+Center|Health`s+Center|Clinic|'' @
        ''Health`s+System|Heart`s+Institute|Cancer`s+Center|Children`x27s`s+Hospital))'') ''FACILITY'' (92 / 100) 1,
     rule (''(St`.?`s+[A-Z][a-z]+(?:`x27s)?(?:`s+[A-Z][a-z]+){1,3})`s+(?:Hospital|Center|Clinic|Institute|'' @
        ''Foundation)'') ''FACILITY'' (88 / 100) 0,
     rule (''(Saint`s+[A-Z][a-z]+(?:`x27s)?(?:`s+[A-Z][a-z]+){1,3})`s+(?:Hospital|Center|Clinic|Institute|'' @
        ''Foundation)'') ''FACILITY'' (88 / 100) 0,
     rule_i (''('' @ rx_FACILITY_PREFIX @ ''`s+(?:'' @ rx_MEDICAL_SPECIALTY @ '')`s+(?:Clinic|Center|Associates|Practice|Group|Specialists))`b'') ''FACILITY'' (90 / 100) 1,
     rule_i (''((?:'' @ rx_MEDICAL_SPECIALTY @ '')`s+(?:&|and)`s+(?:'' @ rx_MEDICAL_SPECIALTY @ '')`s+(?:Center|Clinic|Associates|Institute|Specialists))`b'') ''FACILITY'' (92 / 100) 1,
     rule_i (''('' @ rx_FACILITY_PREFIX @ ''`s+(?:'' @ rx_MEDICAL_SPECIALTY @ '')`s+(?:&|and)`s+(?:'' @ rx_MEDICAL_SPECIALTY @ '')`s+(?:Center|Clinic|Associates))`b'') ''FACILITY'' (92 / 100) 1,
     rule_i (''(?:Clinic|Hospital|Center|Practice)[:`s]+('' @ rx_FACILITY_PREFIX @ ''(?:`s+(?:'' @ rx_MEDICAL_SPECIALTY @ ''))?(?:`s+(?:&|and)`s+[A-Z][a-z]+)*(?:`s+(?:Center|Clinic|Associates|Practice))?)'') ''FACILITY'' (90 / 100) 1,
     rule_i (''`b((?:'' @ rx_MEDICAL_SPECIALTY @ '')`s+(?:Associates|Specialists|Center|Clinic|Practice|Group|Partners))`b'') ''FACILITY'' (85 / 100) 1,
     rule_i (''((?:'' @ rx_PHARMACY_CHAINS @ '')(?:`s+Pharmacy)?(?:`s*#?`d{3,6})?)'') ''FACILITY'' (92 / 100) 1,
     rule_i (''(?:Preferred`s+)?Pharmacy[:`s]+((?:'' @ rx_PHARMACY_CHAINS @ '')(?:`s+Pharmacy)?(?:`s*#?`d{3,6})?)'') ''FACILITY'' (94 / 100) 1,
     rule_i (''`b((?:'' @ rx_PHARMACY_CHAINS @ '')`s+Pharmacy(?:`s*#`d{3,6})?)(?:`s|,|$)'') ''FACILITY'' (90 / 100) 1]"

definition network_patterns :: "pattern_def list" where
  "network_patterns =
    [rule (''`b(`d{1,3}`.`d{1,3}`.`d{1,3}`.`d{1,3})`b'') ''IP_ADDRESS'' (85 / 100) 0,
     rule (''`b([0-9a-fA-F]{1,4}(?::[0-9a-fA-F]{1,4}){7})`b'') ''IP_ADDRESS'' (85 / 100) 0,
     rule (''`b([0-9a-fA-F]{1,4}(?::[0-9a-fA-F]{1,4}){2,7})`b'') ''IP_ADDRESS'' (80 / 100) 0,
     rule (''`b([0-9A-Fa-f]{2}[:-]){5}[0-9A-Fa-f]{2}`b'') ''MAC_ADDRESS'' (90 / 100) 0,
     rule_i (''(?:IMEI)[:`s]+(`d{15})'') ''IMEI'' (95 / 100) 1,
     rule_i (''(?:Serial(?:`s*(?:Number|No|#))?|S/N|SN)[:`s]+([A-Z0-9]{6,20})'') ''DEVICE_ID'' (90 / 100) 1,
     rule_i (''(?:Device`s*(?:ID|Identifier|Serial))[:`s]+([A-Z0-9]{6,20})'') ''DEVICE_ID'' (92 / 100) 1,
     rule_i (''(?:Pacemaker|ICD|Defibrillator|Pump|Implant)`s+(?:ID|Serial|S/N)[:`s]+([A-Z0-9]{6,20})'') ''DEVICE_ID'' (94 / 100) 1,
     rule (''https?://[^`s<>`x22{}|``^`x60`[`]]+'') ''URL'' (90 / 100) 0,
     rule_i (''(?:Fingerprint|Biometric|Retinal?|Iris|Voice(?:print)?|DNA)`s+(?:ID|Sample|Scan|Record|'' @
        ''Data)[:`s#]+([A-Z0-9]{6,30})'') ''BIOMETRIC_ID'' (90 / 100) 1,
     rule_i (''(?:Genetic|Genomic|DNA)`s+(?:Test|Sample|Analysis)`s+(?:ID|#|Number)[:`s]+([A-Z0-9]{6,20})'') ''BIOMETRIC_ID'' (88 / 100) 1,
     rule_i (''(?:Photo|Image|Picture|Photograph)`s+(?:ID|File|#)[:`s]+([A-Z0-9_-]{6,30})'') ''IMAGE_ID'' (85 / 100) 1,
     rule_i (''(?:DICOM|Study|Series|Image)`s+(?:UID|ID)[:`s]+([0-9.]{10,64})'') ''IMAGE_ID'' (92 / 100) 1,
     rule_i (''(?:username|user|login|userid)[:`s]+([A-Za-z0-9_.-]{3,30})'') ''USERNAME'' (85 / 100) 1,
     rule_i (''(?:nom d`x27utilisateur|benutzername|usuario|gebruikersnaam|nome utente|usu`xe1rio|'' @
        ''utilisateur)[:`s]+([`w._-]{3,30})'') ''USERNAME'' (85 / 100) 1,
     rule_i (''(?:logged`s+in`s+as|signed`s+in`s+as|profile)[:`s]+([A-Za-z0-9_.-]{3,30})'') ''USERNAME'' (82 / 100) 1,
     rule_i (''(?:password|passwd|pwd|passcode|pin)`s*[=:]`s*([^`s]{4,50})'') ''PASSWORD'' (90 / 100) 1,
     rule_i (''(?:kennwort|passwort|mot`s+de`s+passe|contrase`xf1a|wachtwoord|senha|'' @
        ''parola`s+d`x27ordine)[:`s]+([^`s]{4,50})'') ''PASSWORD'' (90 / 100) 1,
     rule_i (''(?:credential|secret|auth`s+key|api`s+key|access`s+key|secret`s+key)[:`s]+([^`s]{8,100})'') ''PASSWORD'' (88 / 100) 1,
     rule_i (''(?:temporary|temp|initial|default)`s+(?:password|pwd|passcode)[:`s]+([^`s]{4,50})'') ''PASSWORD'' (92 / 100) 1]"

definition license_patterns :: "pattern_def list" where
  "license_patterns =
    [rule_i (''(?:Driver`x27?s?`s*License|DL|DLN)[:`s#]+([A-Z0-9]{5,15})'') ''DRIVER_LICENSE'' (88 / 100) 1,
     rule (''`b([A-Z]`d{3}-`d{3}-`d{2}-`d{3}-`d)`b'') ''DRIVER_LICENSE'' (95 / 100) 1,
     rule (''`b([A-Z]`d{12}0)`b'') ''DRIVER_LICENSE'' (85 / 100) 1,
     rule (''`b([A-Z]`d{7})`b'') ''DRIVER_LICENSE'' (72 / 100) 1,
     rule_i (''(?:DL|License)[:`s]+(`d{9})`b'') ''DRIVER_LICENSE'' (85 / 100) 1,
     rule_i (''`b(`d{8})`b(?=.*(?:PA|Pennsylvania|DL|License))'') ''DRIVER_LICENSE'' (75 / 100) 1,
     rule (''`b([A-Z]`d{11,12})`b'') ''DRIVER_LICENSE'' (82 / 100) 1,
     rule (''`b([A-Z]{2}`d{6})`b'') ''DRIVER_LICENSE'' (78 / 100) 1,
     rule (''`b([A-Z]`d{10,12})`b'') ''DRIVER_LICENSE'' (80 / 100) 1,
     rule (''`b([A-Z]`d{14})`b'') ''DRIVER_LICENSE'' (85 / 100) 1,
     rule (''`b([A-Z]`d{8,9})`b'') ''DRIVER_LICENSE'' (75 / 100) 1,
     rule (''`b([A-Z]`d{13})`b'') ''DRIVER_LICENSE'' (82 / 100) 1,
     rule (''`b(WDL[A-Z0-9*]{9})`b'') ''DRIVER_LICENSE'' (92 / 100) 1,
     rule (''`b(H`d{8})`b'') ''DRIVER_LICENSE'' (85 / 100) 1,
     rule (''`b([A-Z]{2}`d{3,6})`b'') ''DRIVER_LICENSE'' (72 / 100) 1,
     rule_i (''(?:CO|Colorado|DL)[:`s]+(`d{9})`b'') ''DRIVER_LICENSE'' (80 / 100) 1,
     rule (''`b(X`d{8,11})`b'') ''DRIVER_LICENSE'' (85 / 100) 1,
     rule_i (''(?:NV|Nevada|DL)[:`s]+(`d{9,12})`b'') ''DRIVER_LICENSE'' (78 / 100) 1,
     rule (''`b(`d{2}[A-Z]{3}`d{5})`b'') ''DRIVER_LICENSE'' (88 / 100) 1,
     rule (''`b([A-Z]{3}`d{6})`b'') ''DRIVER_LICENSE'' (82 / 100) 1,
     rule (''`b(`d{3}[A-Z]{2}`d{4})`b'') ''DRIVER_LICENSE'' (88 / 100) 1,
     rule (''`b(K`d{8})`b'') ''DRIVER_LICENSE'' (85 / 100) 1,
     rule (''`b(S`d{8})`b'') ''DRIVER_LICENSE'' (85 / 100) 1,
     rule_i (''(?:AZ|Arizona|DL)[:`s]+([A-Z]?`d{8,9})`b'') ''DRIVER_LICENSE'' (80 / 100) 1,
     rule (''`b(00`d{6})`b'') ''DRIVER_LICENSE'' (80 / 100) 1,
     rule (''`b(`d{4}[A-Z]{2}`d{4})`b'') ''DRIVER_LICENSE'' (88 / 100) 1,
     rule_i (''(?:IN|Indiana|DL)[:`s]+(`d{10})`b'') ''DRIVER_LICENSE'' (78 / 100) 1,
     rule (''`b([A-Z]`d{6})`b'') ''DRIVER_LICENSE'' (72 / 100) 1,
     rule_i (''(?:CT|Connecticut|DL)[:`s]+(`d{9})`b'') ''DRIVER_LICENSE'' (78 / 100) 1,
     rule_i (''(?:TX|Texas|DL)[:`s]+(`d{8})`b'') ''DRIVER_LICENSE'' (78 / 100) 1,
     rule_i (''(?:GA|Georgia|DL)[:`s]+(`d{7,9})`b'') ''DRIVER_LICENSE'' (78 / 100) 1,
     rule_i (''(?:AL|Alabama|DL)[:`s]+(`d{7})`b'') ''DRIVER_LICENSE'' (78 / 100) 1,
     rule_i (''(?:MO|Missouri|DL)[:`s]+([A-Z]?`d{5,10})`b'') ''DRIVER_LICENSE'' (78 / 100) 1,
     rule_i (''(?:TN|Tennessee|DL)[:`s]+(`d{7,9})`b'') ''DRIVER_LICENSE'' (78 / 100) 1,
     rule_i (''(?:SC|South`s+Carolina|DL)[:`s]+(`d{5,11})`b'') ''DRIVER_LICENSE'' (78 / 100) 1,
     rule (''`b([A-Z]{1,2}`d{5,14})`b'') ''DRIVER_LICENSE'' (68 / 100) 1,
     rule_i (''(?:DL|DLN)[:`s#]+(`d{2}`s+`d{6})'') ''DRIVER_LICENSE'' (90 / 100) 1,
     rule_i (''(?:DL|DLN)[:`s#]+([A-Z]?`d{2,4}[-`s]`d{2,4}[-`s]`d{2,4}[-`s]?`d{0,4})'') ''DRIVER_LICENSE'' (92 / 100) 1,
     rule_i (''(?:State`s*ID|ID`s*Card)[:`s#]+([A-Z0-9]{5,15})'') ''STATE_ID'' (88 / 100) 1,
     rule_i (''(?:ORGAN`s*DONOR|VETERAN)`s+(`d{10,15})`s*$'') ''UNIQUE_ID'' (85 / 100) 1,
     rule (''(?:DD[:`s]+`d{10,15}`s+)(`d{10,15})`s*$'') ''UNIQUE_ID'' (80 / 100) 1]"

definition travel_patterns :: "pattern_def list" where
  "travel_patterns =
    [rule_i (''(?:Passport)[:`s#]+([A-Z0-9]{6,12})'') ''PASSPORT'' (88 / 100) 1,
     rule (''`b([A-Z]?`d{8,9})`b(?=.*[Pp]assport)'') ''PASSPORT'' (75 / 100) 1,
     rule_i (''(?:Medical`s+License|License`s+#)[:`s]+([A-Z0-9]{5,15})'') ''MEDICAL_LICENSE'' (88 / 100) 1,
     rule_i (''(?:EDIPI|DoD`s*ID|Military`s*ID)[:`s#]+(`d{10})`b'') ''MILITARY_ID'' (92 / 100) 1,
     rule_i (''(?:fax|facsimile)[:`s]+([()`d`s+.-]{10,20})'') ''FAX'' (92 / 100) 1,
     rule (''(?:f|fax)[:`s]*`((`d{3})`)`s*(`d{3})[-.]?(`d{4})'') ''FAX'' (90 / 100) 0,
     rule (''(?:f|fax)[:`s]*(`d{3})[-.](`d{3})[-.](`d{4})'') ''FAX'' (88 / 100) 0,
     rule_i (''(?:Rx|Rx`s*#|Prescription|Script)[:`s#]+(`d{6,12})'') ''RX_NUMBER'' (88 / 100) 1,
     rule_i (''(?:Rx|Prescription)`s+(?:Number|No|#)[:`s]+([A-Z0-9]{6,15})'') ''RX_NUMBER'' (90 / 100) 1,
     rule_i (''(?:Refill|Fill)`s+#[:`s]*(`d{1,3})`s+of`s+(`d{1,3})'') ''RX_NUMBER'' (75 / 100) 0]"

definition financial_id_patterns :: "pattern_def list" where
  "financial_id_patterns =
    [rule_i (''(?:SSN|Social`s*Security(?:`s*(?:Number|No|#))?)[:`s#]+(`d{3}[-`s]?`d{2}[-`s]?`d{4})'') ''SSN'' (96 / 100) 1,
     rule_i (''(?:last`s*4|last`s*four)[:`s]+(`d{4})`b'') ''SSN_PARTIAL'' (80 / 100) 1,
     rule (''`b((?!000|666|9`d`d)`d{9})`b'') ''SSN'' (70 / 100) 0,
     rule_i (''(?:SSN|Social`s*Security)[:`s#]+(`d{3}[.`xb7]`d{2}[.`xb7]`d{4})'') ''SSN'' (85 / 100) 1,
     rule_i (''(?:SSN|Social`s*Security)[:`s#]+(`d{3}`s*-`s*`d{2}`s*-`s*`d{4})'') ''SSN'' (88 / 100) 1,
     rule_i (''(?:Routing|ABA|RTN)[:`s#]+(`d{9})`b'') ''ABA_ROUTING'' (95 / 100) 1,
     rule_i (''(?:Account)`s*(?:Number|No|#)?[:`s#]+(`d{8,17})`b'') ''ACCOUNT_NUMBER'' (88 / 100) 1,
     rule_i (''(?:Account)`s*(?:Number|No|#)?[:`s#]+([A-Z0-9][-A-Z0-9]{5,19})'') ''ACCOUNT_NUMBER'' (85 / 100) 1,
     rule_i (''(?:Certificate|Certification)`s+(?:Number|No|#)[:`s]+([A-Z0-9-]{5,20})'') ''CERTIFICATE_NUMBER'' (85 / 100) 1,
     rule_i (''(?:Board`s+Certified?|Certified)`s+#?[:`s]*([A-Z]*`d[A-Z0-9]{4,14})'') ''CERTIFICATE_NUMBER'' (80 / 100) 1,
     rule_i (''(?:Patient`s+)?(?:Acct)`s*(?:Number|No|#)?[:`s#]+([A-Z0-9-]{6,20})'') ''ACCOUNT_NUMBER'' (85 / 100) 1,
     rule_i (''(?:Invoice|Billing|Statement)`s*(?:Number|No|#)?`s*[:#]`s*([A-Z0-9-]{6,20})'') ''ACCOUNT_NUMBER'' (80 / 100) 1,
     rule_i (''(?:Claim)`s*(?:Number|No|#)?`s*[:#]`s*([A-Z0-9-]{8,20})'') ''CLAIM_NUMBER'' (88 / 100) 1,
     rule_i (''(?:Case|File|Record)`s*(?:Number|No|#)?`s*[:#]`s*([A-Z0-9-]{5,20})'') ''UNIQUE_ID'' (75 / 100) 1,
     rule_i (''(?:Card|Credit`s*Card|CC|Payment)[:`s#]+(`d{4}[`s-]?`d{4}[`s-]?`d{4}[`s-]?`d{1,7})'') ''CREDIT_CARD'' (94 / 100) 1,
     rule (''`b(`d{4}[`s-]`d{4}[`s-]`d{4}[`s-]`d{4})`b'') ''CREDIT_CARD'' (88 / 100) 1,
     rule (''`b(`d{4}[`s-]`d{6}[`s-]`d{5})`b'') ''CREDIT_CARD'' (88 / 100) 1,
     rule_i (''(?:ending`s+in|last`s+4|xxxx)[:`s]*(`d{4})`b'') ''CREDIT_CARD_PARTIAL'' (82 / 100) 1,
     rule_i (''(?:VIN|Vehicle`s*(?:ID|Identification)(?:`s*Number)?)[:`s#]+([A-HJ-NPR-Z0-9]{17})`b'') ''VIN'' (96 / 100) 1,
     rule (''`b([A-HJ-NPR-Z0-9]{17})`b'') ''VIN'' (75 / 100) 1,
     rule_i (''(?:License`s*Plate|Plate`s*(?:Number|No|#)|Tag)[:`s#]+([A-Z0-9]{2,8})'') ''LICENSE_PLATE'' (88 / 100) 1,
     rule (''`b(`d[A-Z]{3}`d{3})`b'') ''LICENSE_PLATE'' (82 / 100) 1,
     rule (''`b([A-Z]{3}-`d{4})`b'') ''LICENSE_PLATE'' (85 / 100) 1,
     rule (''`b([A-Z]{3}[-`s]`d{4})`b'') ''LICENSE_PLATE'' (82 / 100) 1,
     rule (''`b([A-Z]{3,4}`s?[A-Z]?`d{2})`b'') ''LICENSE_PLATE'' (75 / 100) 1]"

definition healthcare_patterns :: "pattern_def list" where
  "healthcare_patterns =
    [rule (''`b(`d{5}-`d{4}-`d{2})`b'') ''NDC'' (92 / 100) 1,
     rule_i (''(?:NDC|National`s+Drug`s+Code)[:`s#]+(`d{5}-?`d{4}-?`d{2})'') ''NDC'' (95 / 100) 1,
     rule_i (''(?:NDC)[:`s#]+(`d{10,11})`b'') ''NDC'' (88 / 100) 1,
     rule_i (''(?:Room|Rm`.?|Unit)[:`s#]+(`d{1,4}[A-Z]?)`b'') ''ROOM_NUMBER'' (88 / 100) 1,
     rule_i (''(?:Bed|Bay)[:`s#]+(`d{1,2}[A-Z]?)`b'') ''BED_NUMBER'' (88 / 100) 1,
     rule_i (''(?:Room|Rm`.?)`s*(`d{1,4}[-]?[A-Z]?),?`s*(?:Bed|Bay)`s*(`d{1,2}[A-Z]?)'') ''ROOM_NUMBER'' (90 / 100) 0,
     rule_i (''(?:Floor|Fl`.?)`s*(`d{1,2})`s*[,`s]+(?:Room|Rm`.?)`s*(`d{1,4})'') ''ROOM_NUMBER'' (85 / 100) 0,
     rule_i (''(?:Pager|Beeper|Pgr`.?)[:`s#]+(`d{3}[-.`s]?`d{3}[-.`s]?`d{4})'') ''PAGER'' (90 / 100) 1,
     rule_i (''(?:Pager|Pgr`.?)[:`s#]+(`d{4,7})`b'') ''PAGER'' (85 / 100) 1,
     rule_i (''(?:ext`.?|extension|x)[:`s#]*(`d{3,6})`b'') ''PHONE_EXT'' (85 / 100) 1,
     rule_i (''(`d{3}[-.`s]?`d{3}[-.`s]?`d{4})`s*(?:ext`.?|x)`s*(`d{3,6})'') ''PHONE'' (90 / 100) 0,
     rule_i (''(?:Prior`s*Auth(?:orization)?|PA)[:`s#]+([A-Z0-9]{6,20})'') ''AUTH_NUMBER'' (90 / 100) 1,
     rule_i (''(?:Auth(?:orization)?`s*(?:Number|No|#|Code))[:`s#]+([A-Z0-9]{6,20})'') ''AUTH_NUMBER'' (88 / 100) 1,
     rule_i (''(?:Pre-?cert(?:ification)?)[:`s#]+([A-Z0-9]{6,20})'') ''AUTH_NUMBER'' (88 / 100) 1,
     rule_i (''(?:Workers?`s*Comp|WC)`s*(?:Claim)?[:`s#]+([A-Z0-9]{6,20})'') ''CLAIM_NUMBER'' (88 / 100) 1,
     rule_i (''(?:Blood`s*Type|Blood`s*Group|ABO)[:`s]+([ABO]{1,2}[+-])'') ''BLOOD_TYPE'' (92 / 100) 1,
     rule_i (''(?:Type)[:`s]+([ABO]{1,2}[+-])(?:`s+blood|`s+Rh)'') ''BLOOD_TYPE'' (88 / 100) 1,
     rule_i (''(?:Height|Ht`.?)[:`s]+(`d{1,2}[`x27]`s*`d{1,2}[`x22]?)'') ''HEIGHT'' (90 / 100) 1,
     rule_i (''(?:Height|Ht`.?)[:`s]+(`d{2,3})`s*(?:cm|in(?:ches)?)'') ''HEIGHT'' (88 / 100) 1,
     rule_i (''(?:Height|Ht`.?)[:`s]+(`d`s*ft`.?`s*`d{1,2}`s*in`.?)'') ''HEIGHT'' (88 / 100) 1,
     rule_i (''(?:Weight|Wt`.?)[:`s]+(`d{2,3})`s*(?:lbs?|pounds?|kg|kilograms?)'') ''WEIGHT'' (88 / 100) 1,
     rule_i (''(?:Weight|Wt`.?)[:`s]+(`d{2,3}(?:`.`d)?)`s*(?:lbs?|kg)'') ''WEIGHT'' (88 / 100) 1,
     rule_i (''(?:BMI|Body`s*Mass`s*Index)[:`s]+(`d{2}(?:`.`d{1,2})?)'') ''BMI'' (90 / 100) 1]"

definition geographic_patterns :: "pattern_def list" where
  "geographic_patterns =
    [rule (''(-?`d{1,3}`.`d{4,8})[,`s]+(-?`d{1,3}`.`d{4,8})'') ''GPS_COORDINATES'' (88 / 100) 0,
     rule_i (''(`d{1,3}`.`d{4,8})`xb0?`s*[NS][,`s]+(`d{1,3}`.`d{4,8})`xb0?`s*[EW]'') ''GPS_COORDINATES'' (92 / 100) 0,
     rule (''(`d{1,3}`xb0`d{1,2}[`x27]`d{1,2}[`x22]?[NS])`s*(`d{1,3}`xb0`d{1,2}[`x27]`d{1,2}[`x22]?[EW])'') ''GPS_COORDINATES'' (90 / 100) 0,
     rule_i (''(?:GPS|Coordinates?|Location|Lat(?:itude)?[/,]`s*Lon(?:gitude)?)[:`s]+(.{10,40})'') ''GPS_COORDINATES'' (85 / 100) 1,
     rule_i (''(?:NHS|National`s+Health)[:`s#]+(`d{3}`s?`d{3}`s?`d{4})'') ''NHS_NUMBER'' (92 / 100) 1,
     rule_i (''(?:NHS)[:`s#]+(`d{10})`b'') ''NHS_NUMBER'' (90 / 100) 1,
     rule_i (''(?:SIN|Social`s+Insurance)[:`s#]+(`d{3}[-`s]?`d{3}[-`s]?`d{3})'') ''SIN'' (92 / 100) 1,
     rule_i (''(?:Canada|Canadian|CA)[^.]{0,30}(`d{3}[-`s]?`d{3}[-`s]?`d{3})'') ''SIN'' (80 / 100) 1,
     rule_i (''(?:TFN|Tax`s+File)[:`s#]+(`d{3}`s?`d{3}`s?`d{2,3})'') ''TFN'' (92 / 100) 1,
     rule_i (''(?:Aadhaar|UIDAI|Aadhar)[:`s#]+(`d{4}`s?`d{4}`s?`d{4})'') ''AADHAAR'' (92 / 100) 1,
     rule_i (''(?:Aadhaar|UIDAI)[:`s#]+(`d{12})`b'') ''AADHAAR'' (90 / 100) 1,
     rule_i (''(?:CURP)[:`s#]+([A-Z]{4}`d{6}[HM][A-Z]{5}[A-Z0-9]`d)'') ''CURP'' (95 / 100) 1,
     rule_i (''(?:Sozialversicherungsnummer|SVNR|SV-Nummer)[:`s#]+(`d{2}`s?`d{6}`s?[A-Z]`s?`d{3})'') ''SVNR'' (92 / 100) 1]"

definition PATTERNS :: "pattern_def list" where
  "PATTERNS = contact_patterns @ date_patterns @ time_age_patterns @ provider_name_patterns @
     patient_name_patterns @ medical_id_patterns @ address_patterns @ facility_patterns @
     network_patterns @ license_patterns @ travel_patterns @ financial_id_patterns @
     healthcare_patterns @ geographic_patterns"

end
