(* ===== verification/Pattern_Filters.thy ===== *)
theory Pattern_Filters
  imports Pattern_Tables Checksum_Validators
begin

text \<open>
  What the pattern detector checks of a match beyond its pattern, \<^verbatim>\<open>core/detectors/patterns.py\<close>: the
  filter of false names and the validators of addresses, telephone numbers, dates, ages, numbers
  of social security, cards and vehicles.
\<close>

section \<open>False names\<close>

definition FALSE_POSITIVE_NAMES :: "string list" where
  "FALSE_POSITIVE_NAMES =
     [''LABORATORY'', ''REPORT'', ''LICENSE'', ''CERTIFICATE'', ''DOCUMENT'', ''INSURANCE'', ''CARD'',
      ''STATEMENT'', ''RECORD'', ''FORM'', ''APPLICATION'', ''DISCHARGE'', ''SUMMARY'', ''ASSESSMENT'',
      ''EVALUATION'', ''CONSULTATION'', ''HISTORY'', ''PHYSICAL'', ''PROGRESS'', ''NOTE'', ''NOTES'', ''CHART'',
      ''MRN'', ''DOB'', ''SSN'', ''DOD'', ''DOS'', ''NPI'', ''DEA'', ''EXP'', ''ISS'', ''PATIENT'', ''PROVIDER'',
      ''MEMBER'', ''SUBSCRIBER'', ''INSURED'', ''FACILITY'', ''HOSPITAL'', ''CLINIC'', ''PHARMACY'',
      ''LABORATORY'', ''PA'', ''MD'', ''MA'', ''ME'', ''NH'', ''NJ'', ''NM'', ''NY'', ''NC'', ''ND'', ''OH'',
      ''OK'', ''OR'', ''RI'', ''SC'', ''SD'', ''TN'', ''TX'', ''UT'', ''VT'', ''VA'', ''WA'', ''WV'', ''WI'',
      ''WY'', ''DC'', ''PR'', ''USA'', ''APT'', ''STE'', ''SUITE'', ''UNIT'', ''BLDG'', ''FLOOR'', ''DIAGNOSIS'',
      ''PROCEDURE'', ''MEDICATION'', ''PRESCRIPTION'', ''TREATMENT'', ''SPECIMEN'', ''COLLECTION'', ''RESULT'',
      ''RESULTS'', ''TEST'', ''TESTS'', ''BLUECROSS'', ''BLUESHIELD'', ''AETNA'', ''CIGNA'', ''UNITED'',
      ''HEALTHCARE'', ''ANTHEM'', ''HUMANA'', ''KAISER'', ''MEDICARE'', ''MEDICAID'', ''HERR'', ''FRAU'',
      (''FR'' @ [CHR 0xC4] @ ''ULEIN''), ''MONSIEUR'', ''MADAME'', ''MADEMOISELLE'',
      (''SE'' @ [CHR 0xD1] @ ''OR''), (''SE'' @ [CHR 0xD1] @ ''ORA''), (''SE'' @ [CHR 0xD1] @ ''ORITA''), ''DON'',
      (''DO'' @ [CHR 0xD1] @ ''A''), ''SIGNOR'', ''SIGNORA'', ''SIGNORINA'', ''MENEER'', ''MEVROUW'', ''VROUW'',
      ''SENHOR'', ''SENHORA'', ''DOCTOR'', ''DOCTEUR'', ''DOCTEURE'', ''GENDER'', ''MALE'', ''FEMALE'', ''OTHER'',
      ''UNKNOWN'', ''CITY'', ''STREET'', ''ADDRESS'', ''COUNTRY'', ''STATE'', ''REGION'', ''DATE'', ''TIME'',
      ''YEAR'', ''MONTH'', ''DAY'', ''WEEK'', ''NAME'', ''FIRST'', ''LAST'', ''MIDDLE'', ''FULL'', ''SURNAME'',
      ''EMAIL'', ''PHONE'', ''MOBILE'', ''FAX'', ''CONTACT'', ''ACCOUNT'', ''NUMBER'', ''CODE'', ''TYPE'',
      ''STATUS'', ''CHECK'', ''VERIFY'', ''CONFIRM'', ''UPDATE'', ''SUBMIT'', ''PLAN'', ''DAILY'', ''WEEKLY'',
      ''MONTHLY'', ''ANNUAL'', ''TRAINING'', ''SESSION'', ''MEETING'', ''APPOINTMENT'', ''INCLUDE'', ''EXCLUDE'',
      ''ENSURE'', ''REQUIRE'', ''COMPLETE'', ''SIGNATURE'', ''SIGNED'', ''REPORTS'', ''REQUESTS'', ''VERBALIZED'',
      ''CONFIRMED'', ''REVIEWED'', ''DISCUSSED'', ''UNDERSTANDS'', ''AGREES'', ''GENTILE'', ''CHER'', ''CHERS'',
      ''LIEBER'', ''LIEBE'', ''HELLO'', ''DEAR'', ''REGARDS'', ''SINCERELY'', ''THANKS'', ''HALLO'', ''BONJOUR'',
      ''HOLA'', ''CIAO'', ''GUTEN'']"

definition document_starts :: "string list" where
  "document_starts =
     [''LABORATORY'', ''REPORT'', ''LICENSE'', ''CERTIFICATE'', ''DOCUMENT'', ''INSURANCE'', ''DISCHARGE'',
      ''SUMMARY'', ''ASSESSMENT'', ''CONSULTATION'']"

definition document_ends :: "string list" where
  "document_ends =
     [''REPORT'', ''REPORTS'', ''FORM'', ''DOCUMENT'', ''CERTIFICATE'', ''LICENSE'', ''SUMMARY'', ''RESULTS'',
      ''HISTORY'', ''NOTES'', ''CHART'']"

definition VALID_CREDENTIALS :: "string list" where
  "VALID_CREDENTIALS =
     [''MD'', ''DO'', ''PA'', ''NP'', ''RN'', ''PHD'', ''DNP'', ''APRN'', ''PAC'']"

definition US_STATE_ABBREVS :: "string list" where
  "US_STATE_ABBREVS =
     [''AL'', ''AK'', ''AZ'', ''AR'', ''CA'', ''CO'', ''CT'', ''DE'', ''FL'', ''GA'', ''HI'', ''ID'', ''IL'',
      ''IN'', ''IA'', ''KS'', ''KY'', ''LA'', ''ME'', ''MD'', ''MA'', ''MI'', ''MN'', ''MS'', ''MO'', ''MT'',
      ''NE'', ''NV'', ''NH'', ''NJ'', ''NM'', ''NY'', ''NC'', ''ND'', ''OH'', ''OK'', ''OR'', ''PA'', ''RI'',
      ''SC'', ''SD'', ''TN'', ''TX'', ''UT'', ''VT'', ''VA'', ''WA'', ''WV'', ''WI'', ''WY'', ''DC'']"

definition city_words :: "string list" where
  "city_words =
     [''city'', ''york'', ''orleans'', ''angeles'', ''francisco'', ''diego'', ''antonio'', ''vegas'', ''beach'',
      ''springs'', ''falls'', ''rapids'', ''creek'', ''river'', ''lake'', ''park'', ''heights'', ''hills'',
      ''valley'', ''grove'', ''point'']"

text \<open>The part before the last comma, \<open>value.rsplit(",", 1)[0]\<close>.\<close>

definition before_comma :: "string \<Rightarrow> string" where
  "before_comma s =
     (if CHR '','' \<in> set s then rev (tl (dropWhile (\<lambda>c. c \<noteq> CHR '','') (rev s))) else s)"

definition city_and_state :: "string \<Rightarrow> bool" where
  "city_and_state s =
     (let ws = str_words (str_strip (before_comma s)) in
      length ws = 1 \<or> (length ws = 2 \<and> str_lower (ws ! 1) \<in> set city_words))"

definition is_false_positive_name :: "string \<Rightarrow> bool" where
  "is_false_positive_name s =
     (let ws = str_words s; fp = (\<lambda>w. str_upper w \<in> set FALSE_POSITIVE_NAMES) in
      if length ws = 1 \<and> length (hd ws) = 1 then True
      else if length (filter (\<lambda>c. c \<noteq> CHR '' '') s) < 3 then True
      else if list_all fp ws then True
      else if ws \<noteq> [] \<and> str_upper (hd ws) \<in> set document_starts then True
      else if ws \<noteq> [] \<and> str_upper (last ws) \<in> set document_ends then True
      else if 2 \<le> length ws \<and> length (hd ws) \<le> 2 \<and> fp (last ws) \<and>
          \<not> (CHR '','' \<in> set s \<and> filter (\<lambda>c. c \<noteq> CHR ''-'') (str_upper (last ws)) \<in> set VALID_CREDENTIALS) then True
      else if 2 \<le> length ws \<and> str_upper (last ws) \<in> set US_STATE_ABBREVS \<and>
          (CHR '','' \<in> set s \<longrightarrow> city_and_state s) then True
      else list_ex (ends_with s) [''visitPA'', ''visitMA'', ''visitNY''])"

section \<open>Validators\<close>

definition validate_ip :: "string \<Rightarrow> bool" where
  "validate_ip ip =
     (let parts = str_split (CHR ''.'') ip in
      if length parts \<noteq> 4 then False
      else list_all (\<lambda>p. case py_int p of Some n \<Rightarrow> 0 \<le> n \<and> n \<le> 255 | None \<Rightarrow> False) parts)"

definition INVALID_AREA_CODES :: "string list" where
  "INVALID_AREA_CODES = [''000'', ''555'', ''911'', ''411'', ''611'', ''711'', ''811'', ''311'', ''211'', ''511'']"

definition validate_phone :: "string \<Rightarrow> bool" where
  "validate_phone phone =
     (let digits = filter is_digit phone in
      if length digits < 10 then True
      else if take 3 digits \<in> set INVALID_AREA_CODES then False
      else if take 10 digits = ''0000000000'' then False
      else if take 10 digits = ''1234567890'' then False
      else length (remdups (take 10 digits)) \<noteq> 1)"

definition validate_date :: "int \<Rightarrow> int \<Rightarrow> int \<Rightarrow> bool" where
  "validate_date month day year =
     (if \<not> (1900 \<le> year \<and> year \<le> 2100) then False
      else if \<not> (1 \<le> month \<and> month \<le> 12) then False
      else
        let days_in_month = [0, 31, 28, 31, 30, 31, 30, 31, 31, 30, 31, 30, 31];
          is_leap = (year mod 4 = 0 \<and> year mod 100 \<noteq> 0) \<or> year mod 400 = 0;
          max_day = (if is_leap \<and> month = 2 then 29 else days_in_month ! nat month)
        in 1 \<le> day \<and> day \<le> max_day)"

definition validate_age :: "string \<Rightarrow> bool" where
  "validate_age s = (case py_int s of Some age \<Rightarrow> 0 \<le> age \<and> age \<le> 125 | None \<Rightarrow> False)"

definition validate_card_number :: "string \<Rightarrow> bool" where
  "validate_card_number number =
     (let digits = digit_list number in
      if digits = [] then False else luhn_loop 0 False (rev digits) mod 10 = 0)"

definition validate_vehicle :: "string \<Rightarrow> bool" where
  "validate_vehicle vin =
     (if length vin \<noteq> 17 then False
      else case coded_total vin_trans vin_weights 0 (str_upper vin) of
        None \<Rightarrow> False
      | Some tot \<Rightarrow>
          (let check = tot mod 11 in str_upper [vin ! 8] = (if check = 10 then ''X'' else show_nat check)))"

definition SSN_FALSE_POSITIVE_PREFIXES :: "string list" where
  "SSN_FALSE_POSITIVE_PREFIXES =
     [''page'', ''pg'', ''room'', ''rm'', ''order'', ''ref'', ''reference'', ''invoice'', ''confirmation'',
      ''tracking'', ''case'', ''ticket'', ''claim'', ''check'', ''acct'', ''record'', ''file'', ''document'',
      ''doc'', ''no'', ''num'', ''#'', ''code'', ''pin'', ''serial'', ''model'', ''part'', ''item'', ''sku'',
      ''upc'', ''isbn'', ''version'', ''ver'', ''batch'', ''lot'', ''catalog'', ''product'', ''unit'', ''id'',
      ''make'', ''type'', ''series'']"

text \<open>The order of the alternatives is that of a set; only whether there is a match is asked.\<close>

fun bar_join :: "string list \<Rightarrow> string" where
  "bar_join [] = []"
| "bar_join [w] = w"
| "bar_join (w # ws) = w @ ''|'' @ bar_join ws"

definition re_escape :: "string \<Rightarrow> string" where
  "re_escape w = concat (map (\<lambda>c. if is_alnum c \<or> c = CHR ''_'' then [c] else [CHR 0x5C, c]) w)"

definition SSN_FP_PATTERN :: string where
  "SSN_FP_PATTERN = pat ''`b('' @ bar_join (map re_escape SSN_FALSE_POSITIVE_PREFIXES) @ pat '')`b''"

definition found_in :: "bool \<Rightarrow> string \<Rightarrow> string \<Rightarrow> bool" where
  "found_in ic p txt = (case re_compile ic p of Some r \<Rightarrow> re_search r txt \<noteq> None | None \<Rightarrow> False)"

definition validate_ssn_context :: "string \<Rightarrow> nat \<Rightarrow> real \<Rightarrow> bool" where
  "validate_ssn_context txt start conf =
     (if conf > 75 / 100 then True
      else
        let prefix = str_lower (take (start - (start - 30)) (drop (start - 30) txt));
          immediate = str_strip (if 5 \<le> length prefix then drop (length prefix - 5) prefix else prefix);
          before_sep = str_strip (take (length prefix - 1) prefix)
        in if found_in True SSN_FP_PATTERN prefix then False
           else \<not> (immediate \<noteq> [] \<and> last immediate \<in> set ''#:.-'' \<and>
             list_ex (ends_with before_sep) SSN_FALSE_POSITIVE_PREFIXES))"

end
