(* ===== verification/Pattern_Detectors.thy ===== *)
theory Pattern_Detectors
  imports Pattern_Filters Detector_Tables Detection_Engine
begin

text \<open>
  The detectors that look for patterns: \<^verbatim>\<open>core/detectors/patterns.py\<close>, \<^verbatim>\<open>government.py\<close>,
  \<^verbatim>\<open>secrets.py\<close>, \<^verbatim>\<open>additional_patterns.py\<close>, \<^verbatim>\<open>financial.py\<close>, \<^verbatim>\<open>checksum.py\<close>. Each goes over
  the matches of its rules in order and keeps the spans found so far with the places it has seen;
  a step may raise. The locale \<open>span_scanner\<close> states what the six loops share.
\<close>

section \<open>Matches of rules\<close>

definition matches_of :: "pattern_def \<Rightarrow> string \<Rightarrow> rx_match list" where
  "matches_of d input = (case re_compile (pd_nocase d) (pd_regex d) of Some r \<Rightarrow> finditer r input | None \<Rightarrow> [])"

type_synonym candidate = "pattern_def \<times> rx_match"

definition candidates :: "pattern_def list \<Rightarrow> string \<Rightarrow> candidate list" where
  "candidates rules input = concat (map (\<lambda>d. map (Pair d) (matches_of d input)) rules)"

text \<open>The group of the rule if the last group that closed has its number or a later one, the whole match otherwise.\<close>

definition chosen :: "pattern_def \<Rightarrow> rx_match \<Rightarrow> (nat \<times> nat) option" where
  "chosen d m =
     group_span (if 0 < pd_group d \<and> (case last_index m of Some n \<Rightarrow> pd_group d \<le> n | None \<Rightarrow> False) then pd_group d else 0) m"

definition piece :: "string \<Rightarrow> nat \<Rightarrow> nat \<Rightarrow> string" where
  "piece input a b = take (b - a) (drop a input)"

text \<open>Where the value stands, unless there is none or it is blank.\<close>

definition hit :: "string \<Rightarrow> pattern_def \<Rightarrow> rx_match \<Rightarrow> (nat \<times> nat) option" where
  "hit input d m =
     (case chosen d m of
        Some (a, b) \<Rightarrow> if str_strip (piece input a b) = [] then None else Some (a, b)
      | None \<Rightarrow> None)"

definition new_span :: "string \<Rightarrow> tier \<Rightarrow> string \<Rightarrow> string \<Rightarrow> real \<Rightarrow> nat \<Rightarrow> nat \<Rightarrow> py_exn + span" where
  "new_span who tr input ty conf a b = as_value_error (mk_span (int a) (int b) (piece input a b) ty conf who tr)"

text \<open>A loop over candidates whose body changes a state and may raise.\<close>

fun scan :: "('c \<Rightarrow> 's \<Rightarrow> py_exn + 's) \<Rightarrow> 'c list \<Rightarrow> 's \<Rightarrow> py_exn + 's" where
  "scan body [] st = Inr st"
| "scan body (c # cs) st = res_bind (body c st) (scan body cs)"

section \<open>The pattern detector\<close>

definition PHONE_TYPES :: "string list" where
  "PHONE_TYPES = [''PHONE'', ''PHONE_MOBILE'', ''PHONE_HOME'', ''PHONE_WORK'', ''FAX'']"

definition NAME_TYPES :: "string list" where
  "NAME_TYPES = [''NAME'', ''NAME_PROVIDER'', ''NAME_PATIENT'', ''NAME_RELATIVE'']"

text \<open>Three groups of digits are a date; a group that took no part raises an \<open>AttributeError\<close>.\<close>

definition numbers_ok :: "string \<Rightarrow> string \<Rightarrow> string \<Rightarrow> bool" where
  "numbers_ok g1 g2 g3 =
     (let x = int (digits_nat g1); y = int (digits_nat g2); z = int (digits_nat g3) in
      if length g1 = 4 then validate_date y z x else validate_date x y z)"

definition date_ok :: "string \<Rightarrow> rx_match \<Rightarrow> py_exn + bool" where
  "date_ok input m =
     (case group_text input 1 m of
        None \<Rightarrow> Inl OtherErr
      | Some g1 \<Rightarrow> if \<not> str_isdigit g1 then Inr True else
          (case group_text input 2 m of
             None \<Rightarrow> Inl OtherErr
           | Some g2 \<Rightarrow> if \<not> str_isdigit g2 then Inr True else
               (case group_text input 3 m of
                  None \<Rightarrow> Inl OtherErr
                | Some g3 \<Rightarrow> if \<not> str_isdigit g3 then Inr True else Inr (numbers_ok g1 g2 g3))))"

definition three_groups :: "rx_match \<Rightarrow> bool" where
  "three_groups m = (case last_index m of Some n \<Rightarrow> 3 \<le> n | None \<Rightarrow> False)"

text \<open>The validations that need only the value, its start and the rule.\<close>

definition value_ok :: "string \<Rightarrow> pattern_def \<Rightarrow> nat \<Rightarrow> string \<Rightarrow> bool" where
  "value_ok input d start v =
     (let ty = pd_type d in
      (ty = ''AGE'' \<longrightarrow> validate_age v) \<and>
      (ty = ''SSN'' \<longrightarrow> validate_ssn_context input start (pd_confidence d)) \<and>
      (ty = ''CREDIT_CARD'' \<longrightarrow> validate_card_number v) \<and>
      (ty = ''VIN'' \<and> pd_confidence d < 90 / 100 \<longrightarrow> validate_vehicle v) \<and>
      (ty \<in> set NAME_TYPES \<longrightarrow> \<not> is_false_positive_name v))"

definition accepted :: "string \<Rightarrow> candidate \<Rightarrow> py_exn + (nat \<times> nat) option" where
  "accepted input c =
     (case c of (d, m) \<Rightarrow>
        (case hit input d m of
           None \<Rightarrow> Inr None
         | Some (a, b) \<Rightarrow>
             let v = piece input a b in
             if pd_type d = ''IP_ADDRESS'' \<and> \<not> validate_ip v then Inr None
             else if pd_type d \<in> set PHONE_TYPES \<and> \<not> validate_phone v then Inr None
             else res_bind (if pd_type d \<in> {''DATE'', ''DATE_DOB''} \<and> three_groups m then date_ok input m else Inr True)
               (\<lambda>ok. Inr (if ok \<and> value_ok input d a v then Some (a, b) else None))))"

type_synonym place = "nat \<times> nat \<times> string"

definition pattern_step :: "string \<Rightarrow> candidate \<Rightarrow> span list \<times> (place \<times> nat) list \<Rightarrow> py_exn + span list \<times> (place \<times> nat) list" where
  "pattern_step input c st =
     (case st of (spans, seen) \<Rightarrow>
        res_bind (accepted input c) (\<lambda>h. case h of
          None \<Rightarrow> Inr st
        | Some (a, b) \<Rightarrow>
            let d = fst c; key = (a, b, pd_type d) in
            (case map_of seen key of
               Some i \<Rightarrow>
                 if pd_confidence d \<le> sp_confidence (spans ! i) then Inr st
                 else res_bind (new_span ''pattern'' TIER_PATTERN input (pd_type d) (pd_confidence d) a b)
                   (\<lambda>s. Inr (spans[i := s], seen))
             | None \<Rightarrow> res_bind (new_span ''pattern'' TIER_PATTERN input (pd_type d) (pd_confidence d) a b)
                 (\<lambda>s. Inr (spans @ [s], (key, length spans) # seen)))))"

definition pattern_detect :: "pattern_def list \<Rightarrow> string \<Rightarrow> py_exn + span list" where
  "pattern_detect rules input = map_sum id fst (scan (pattern_step input) (candidates rules input) ([], []))"

section \<open>The government detector\<close>

definition classification_context :: "string list" where
  "classification_context =
     [''//'', ''classified'', ''clearance'', ''noforn'', ''sci'', ''fouo'', ''dissem'', ''caveat'', ''portion'',
      ''marking'', ''unclassified'', ''secret//'', ''//secret'']"

definition is_false_positive_classification :: "string \<Rightarrow> string \<Rightarrow> nat \<Rightarrow> bool" where
  "is_false_positive_classification v input start =
     (let w = str_lower v in
      if str_contains ''secret'' w \<and> \<not> str_contains ''top'' w then
        (let context = str_lower (piece input (start - 50) (min (length input) (start + length v + 50)))
         in \<not> list_ex (\<lambda>ctx. str_contains ctx context) classification_context)
      else False)"

definition government_step :: "string \<Rightarrow> candidate \<Rightarrow> span list \<times> (nat \<times> nat) list \<Rightarrow> py_exn + span list \<times> (nat \<times> nat) list" where
  "government_step input c st =
     (case (c, st) of ((d, m), (spans, seen)) \<Rightarrow>
        (case hit input d m of
           None \<Rightarrow> Inr st
         | Some (a, b) \<Rightarrow>
             if (a, b) \<in> set seen then Inr st
             else if pd_type d = ''CLASSIFICATION_LEVEL'' \<and> is_false_positive_classification (piece input a b) input a then
               Inr (spans, (a, b) # seen)
             else res_bind (new_span ''government'' TIER_PATTERN input (pd_type d) (pd_confidence d) a b)
               (\<lambda>s. Inr (spans @ [s], (a, b) # seen))))"

definition government_detect :: "string \<Rightarrow> py_exn + span list" where
  "government_detect input = map_sum id fst (scan (government_step input) (candidates GOVERNMENT_PATTERNS input) ([], []))"

section \<open>The secrets detector\<close>

text \<open>
  \<open>base64.b64decode\<close> skips characters outside the alphabet and raises when the padding does not
  complete the last group of four.
\<close>

definition base64_char :: "char \<Rightarrow> bool" where
  "base64_char c \<longleftrightarrow> is_alnum c \<or> c = CHR ''+'' \<or> c = CHR ''/''"

fun b64_scan :: "nat \<Rightarrow> nat \<Rightarrow> string \<Rightarrow> bool" where
  "b64_scan quad pads [] = (quad = 0)"
| "b64_scan quad pads (c # cs) =
     (if c = CHR ''='' then
        (if 2 \<le> quad then (if 4 \<le> quad + pads + 1 then True else b64_scan quad (pads + 1) cs) else b64_scan quad pads cs)
      else if base64_char c then b64_scan ((quad + 1) mod 4) 0 cs
      else b64_scan quad pads cs)"

definition jwt_part_ok :: "string \<Rightarrow> bool" where
  "jwt_part_ok part =
     b64_scan 0 0 (map (\<lambda>c. if c = CHR ''-'' then CHR ''+'' else if c = CHR ''_'' then CHR ''/'' else c)
       (part @ replicate (4 - length part mod 4) (CHR ''='')))"

definition validate_jwt :: "string \<Rightarrow> bool" where
  "validate_jwt token =
     (let parts = str_split (CHR ''.'') token in
      if length parts \<noteq> 3 then False else list_all jwt_part_ok (take 2 parts))"

definition secrets_step :: "string \<Rightarrow> candidate \<Rightarrow> span list \<times> place list \<Rightarrow> py_exn + span list \<times> place list" where
  "secrets_step input c st =
     (case (c, st) of ((d, m), (spans, seen)) \<Rightarrow>
        (case hit input d m of
           None \<Rightarrow> Inr st
         | Some (a, b) \<Rightarrow>
             let v = piece input a b in
             if (a, b, v) \<in> set seen then Inr st
             else if pd_type d = ''JWT'' \<and> \<not> validate_jwt v then Inr (spans, (a, b, v) # seen)
             else res_bind (new_span ''secrets'' TIER_PATTERN input (pd_type d) (pd_confidence d) a b)
               (\<lambda>s. Inr (spans @ [s], (a, b, v) # seen))))"

definition secrets_detect :: "string \<Rightarrow> py_exn + span list" where
  "secrets_detect input = map_sum id fst (scan (secrets_step input) (candidates SECRETS_PATTERNS input) ([], []))"

section \<open>The detector of additional patterns\<close>

text \<open>The group of the rule if the pattern has that many groups.\<close>

definition additional_hit :: "string \<Rightarrow> pattern_def \<Rightarrow> rx_match \<Rightarrow> (nat \<times> nat) option" where
  "additional_hit input d m =
     (case group_span (if 0 < pd_group d \<and> pd_group d \<le> re_groups (pd_regex d) then pd_group d else 0) m of
        None \<Rightarrow> None
      | Some (a, b) \<Rightarrow> if length (str_strip (piece input a b)) < 2 then None else Some (a, b))"

definition first_number :: "string \<Rightarrow> nat option" where
  "first_number v = (let d = takeWhile is_digit (dropWhile (\<lambda>c. \<not> is_digit c) v) in if d = [] then None else Some (digits_nat d))"

definition additional_step :: "string \<Rightarrow> candidate \<Rightarrow> span list \<times> unit \<Rightarrow> py_exn + span list \<times> unit" where
  "additional_step input c st =
     (case (c, st) of ((d, m), (spans, u)) \<Rightarrow>
        (case additional_hit input d m of
           None \<Rightarrow> Inr st
         | Some (a, b) \<Rightarrow>
             if pd_type d = ''AGE'' \<and> (case first_number (piece input a b) of Some age \<Rightarrow> 120 < age | None \<Rightarrow> False) then Inr st
             else (case new_span ''additional_patterns'' TIER_PATTERN input (pd_type d) (pd_confidence d) a b of
                Inl ValueErr \<Rightarrow> Inr st
              | Inl e \<Rightarrow> Inl e
              | Inr s \<Rightarrow> Inr (spans @ [s], u))))"

definition additional_detect :: "string \<Rightarrow> py_exn + span list" where
  "additional_detect input = map_sum id fst (scan (additional_step input) (candidates ADDITIONAL_PATTERNS input) ([], ()))"

section \<open>The financial detector\<close>

definition final_confidence :: "pattern_def \<Rightarrow> real" where
  "final_confidence d = (if pd_validator d = None then pd_confidence d else min (99 / 100) (pd_confidence d + 2 / 100))"

definition financial_step :: "string \<Rightarrow> candidate \<Rightarrow> span list \<times> (nat \<times> nat) list \<Rightarrow> py_exn + span list \<times> (nat \<times> nat) list" where
  "financial_step input c st =
     (case (c, st) of ((d, m), (spans, seen)) \<Rightarrow>
        (case hit input d m of
           None \<Rightarrow> Inr st
         | Some (a, b) \<Rightarrow>
             if (a, b) \<in> set seen then Inr st
             else if (case pd_validator d of Some f \<Rightarrow> \<not> f (piece input a b) | None \<Rightarrow> False) then Inr st
             else res_bind (new_span ''financial'' TIER_CHECKSUM input (pd_type d) (final_confidence d) a b)
               (\<lambda>s. Inr (spans @ [s], (a, b) # seen))))"

definition financial_detect :: "(nat list \<Rightarrow> nat list) \<Rightarrow> string \<Rightarrow> py_exn + span list" where
  "financial_detect sha256 input =
     map_sum id fst (scan (financial_step input) (candidates (FINANCIAL_PATTERNS sha256) input) ([], []))"

section \<open>The checksum detector\<close>

text \<open>A first group that took no part would reach the validator as \<open>None\<close>.\<close>

definition checksum_step ::
    "string \<Rightarrow> (pattern_def \<times> (string \<Rightarrow> bool \<times> real)) \<times> rx_match \<Rightarrow> span list \<times> place list \<Rightarrow> py_exn + span list \<times> place list" where
  "checksum_step input c st =
     (case (c, st) of (((d, validator), m), (spans, seen)) \<Rightarrow>
        (case group_span 1 m of
           None \<Rightarrow> Inl OtherErr
         | Some (a, b) \<Rightarrow>
             let v = piece input a b in
             (case validator v of (valid, conf) \<Rightarrow>
                if \<not> valid then Inr st
                else if (a, b, v) \<in> set seen then Inr st
                else res_bind (new_span ''checksum'' TIER_CHECKSUM input (pd_type d) conf a b)
                  (\<lambda>s. Inr (spans @ [s], (a, b, v) # seen)))))"

definition checksum_candidates :: "string \<Rightarrow> ((pattern_def \<times> (string \<Rightarrow> bool \<times> real)) \<times> rx_match) list" where
  "checksum_candidates input = concat (map (\<lambda>(d, f). map (Pair (d, f)) (matches_of d input)) CHECKSUM_PATTERNS)"

definition checksum_detect :: "string \<Rightarrow> py_exn + span list" where
  "checksum_detect input = map_sum id fst (scan (checksum_step input) (checksum_candidates input) ([], []))"

section \<open>What a scan reports\<close>

definition honest :: "string \<Rightarrow> span \<Rightarrow> bool" where
  "honest input s \<longleftrightarrow> wf_span s \<and> anchored input s"

definition unit_interval :: "real \<Rightarrow> bool" where
  "unit_interval x \<longleftrightarrow> 0 \<le> x \<and> x \<le> 1"

lemma piece_slice: "a \<le> b \<Longrightarrow> b \<le> length input \<Longrightarrow> piece input a b = py_slice input (int a) (int b)"
  by (simp add: piece_def py_slice_def py_index_def Let_def nat_diff_distrib)

lemma length_piece: "b \<le> length input \<Longrightarrow> length (piece input a b) = b - a"
  by (simp add: piece_def)

lemma new_span_ok:
  assumes "a < b" and "b \<le> length input" and "unit_interval conf"
  obtains s where "new_span who tr input ty conf a b = Inr s" and "honest input s" and "sp_start s = int a" and "sp_end s = int b"
    and "sp_entity_type s = ty" and "sp_confidence s = conf" and "sp_tier s = tr" and "sp_detector s = who"
proof -
  have "int (length (piece input a b)) = int b - int a" using assms(1,2) by (simp add: length_piece)
  then obtain s where s: "mk_span (int a) (int b) (piece input a b) ty conf who tr = Inr s"
    using mk_span_ok [of "int a" "int b" conf "piece input a b" ty who tr] assms(1,3) by (auto simp: unit_interval_def)
  note f = mk_span_Inr [OF s]
  have "honest input s" using f assms(1,2) piece_slice [of a b input] by (simp add: honest_def anchored_def)
  with s f that [of s] show thesis by (simp add: new_span_def as_value_error_def)
qed

definition fits_text :: "string \<Rightarrow> candidate \<Rightarrow> bool" where
  "fits_text input c \<longleftrightarrow> (\<exists>r. re_compile (pd_nocase (fst c)) (pd_regex (fst c)) = Some r \<and> match_ok r input (snd c))"

lemma candidates_fit:
  assumes "c \<in> set (candidates rules input)"
  shows "fst c \<in> set rules \<and> fits_text input c"
proof -
  obtain d where d: "d \<in> set rules" "c \<in> Pair d ` set (matches_of d input)" using assms by (auto simp: candidates_def)
  then obtain m where m: "m \<in> set (matches_of d input)" "c = (d, m)" by blast
  show ?thesis
  proof (cases "re_compile (pd_nocase d) (pd_regex d)")
    case (Some r)
    then have "m \<in> set (finditer r input)" using m(1) by (simp add: matches_of_def)
    then show ?thesis using d(1) m(2) Some finditer_ok [of m r input] by (simp add: fits_text_def)
  qed (use m(1) in \<open>simp add: matches_of_def\<close>)
qed

lemma strip_nonempty: "str_strip v \<noteq> [] \<Longrightarrow> v \<noteq> []"
  by (auto simp: str_strip_def)

lemma span_in_text:
  assumes "fits_text input (d, m)" and "group_span n m = Some (a, b)" and "piece input a b \<noteq> []"
  shows "a < b \<and> b \<le> length input"
  using assms group_span_ok [of _ input m n a b] by (auto simp: fits_text_def piece_def)

lemma hit_in_text: "fits_text input (d, m) \<Longrightarrow> hit input d m = Some (a, b) \<Longrightarrow> a < b \<and> b \<le> length input"
  using span_in_text [of input d m _ a b] strip_nonempty
  by (auto simp: hit_def chosen_def split: option.splits if_splits)

lemma additional_hit_in_text:
  "fits_text input (d, m) \<Longrightarrow> additional_hit input d m = Some (a, b) \<Longrightarrow> a < b \<and> b \<le> length input"
  using span_in_text [of input d m _ a b] strip_nonempty [of "piece input a b"]
  by (fastforce simp: additional_hit_def split: option.splits if_splits)

text \<open>On a good candidate a scanner never raises, and it keeps the spans found so far honest.\<close>

locale span_scanner =
  fixes body :: "string \<Rightarrow> 'c \<Rightarrow> span list \<times> 'k \<Rightarrow> py_exn + span list \<times> 'k"
    and good :: "string \<Rightarrow> 'c \<Rightarrow> bool"
  assumes body_ok: "good input c \<Longrightarrow>
    \<exists>st'. body input c st = Inr st' \<and> (list_all (honest input) (fst st) \<longrightarrow> list_all (honest input) (fst st'))"
begin

lemma scan_ok:
  "list_all (good input) cs \<Longrightarrow> list_all (honest input) (fst st) \<Longrightarrow>
    \<exists>st'. scan (body input) cs st = Inr st' \<and> list_all (honest input) (fst st')"
proof (induction cs arbitrary: st)
  case (Cons c cs)
  then obtain mid where "body input c st = Inr mid" "list_all (honest input) (fst mid)"
    using body_ok [of input c st] by auto
  with Cons.IH [of mid] Cons.prems(1) show ?case by simp
qed simp

lemma reports_honest:
  assumes "list_all (good input) cs"
  shows "\<exists>spans. map_sum id fst (scan (body input) cs ([], k)) = Inr spans \<and> list_all (honest input) spans"
  using scan_ok [OF assms, of "([], k)"] by auto

end

definition sound_candidate :: "(pattern_def \<Rightarrow> real) \<Rightarrow> string \<Rightarrow> candidate \<Rightarrow> bool" where
  "sound_candidate conf input c \<longleftrightarrow> fits_text input c \<and> unit_interval (conf (fst c))"

lemma reported:
  assumes "sound_candidate conf input (d, m)" and "hit input d m = Some (a, b) \<or> additional_hit input d m = Some (a, b)"
  obtains s where "new_span who tr input ty (conf d) a b = Inr s" and "honest input s"
proof -
  have "a < b" "b \<le> length input" "unit_interval (conf d)"
    using assms hit_in_text [of input d m a b] additional_hit_in_text [of input d m a b] by (auto simp: sound_candidate_def)
  then show thesis by (rule new_span_ok) (rule that)
qed

interpretation government: span_scanner government_step "sound_candidate pd_confidence"
proof
  fix input c and st :: "span list \<times> (nat \<times> nat) list"
  assume c: "sound_candidate pd_confidence input c"
  obtain d m spans seen where [simp]: "c = (d, m)" "st = (spans, seen)" by (cases c; cases st)
  show "\<exists>st'. government_step input c st = Inr st' \<and> (list_all (honest input) (fst st) \<longrightarrow> list_all (honest input) (fst st'))"
  proof (cases "hit input d m")
    case (Some ab)
    moreover obtain a b where "ab = (a, b)" by (cases ab)
    moreover obtain s where "new_span ''government'' TIER_PATTERN input (pd_type d) (pd_confidence d) a b = Inr s" "honest input s"
      using reported c calculation by (metis \<open>c = (d, m)\<close>)
    ultimately show ?thesis by (simp add: government_step_def)
  qed (simp add: government_step_def)
qed

interpretation secrets: span_scanner secrets_step "sound_candidate pd_confidence"
proof
  fix input c and st :: "span list \<times> place list"
  assume c: "sound_candidate pd_confidence input c"
  obtain d m spans seen where [simp]: "c = (d, m)" "st = (spans, seen)" by (cases c; cases st)
  show "\<exists>st'. secrets_step input c st = Inr st' \<and> (list_all (honest input) (fst st) \<longrightarrow> list_all (honest input) (fst st'))"
  proof (cases "hit input d m")
    case (Some ab)
    moreover obtain a b where "ab = (a, b)" by (cases ab)
    moreover obtain s where "new_span ''secrets'' TIER_PATTERN input (pd_type d) (pd_confidence d) a b = Inr s" "honest input s"
      using reported c calculation by (metis \<open>c = (d, m)\<close>)
    ultimately show ?thesis by (simp add: secrets_step_def Let_def)
  qed (simp add: secrets_step_def)
qed

interpretation additional: span_scanner additional_step "sound_candidate pd_confidence"
proof
  fix input c and st :: "span list \<times> unit"
  assume c: "sound_candidate pd_confidence input c"
  obtain d m spans seen where [simp]: "c = (d, m)" "st = (spans, seen)" by (cases c; cases st)
  show "\<exists>st'. additional_step input c st = Inr st' \<and> (list_all (honest input) (fst st) \<longrightarrow> list_all (honest input) (fst st'))"
  proof (cases "additional_hit input d m")
    case (Some ab)
    moreover obtain a b where "ab = (a, b)" by (cases ab)
    moreover obtain s where "new_span ''additional_patterns'' TIER_PATTERN input (pd_type d) (pd_confidence d) a b = Inr s" "honest input s"
      using reported c calculation by (metis \<open>c = (d, m)\<close>)
    ultimately show ?thesis by (simp add: additional_step_def)
  qed (simp add: additional_step_def)
qed

interpretation financial: span_scanner financial_step "sound_candidate final_confidence"
proof
  fix input c and st :: "span list \<times> (nat \<times> nat) list"
  assume c: "sound_candidate final_confidence input c"
  obtain d m spans seen where [simp]: "c = (d, m)" "st = (spans, seen)" by (cases c; cases st)
  show "\<exists>st'. financial_step input c st = Inr st' \<and> (list_all (honest input) (fst st) \<longrightarrow> list_all (honest input) (fst st'))"
  proof (cases "hit input d m")
    case (Some ab)
    moreover obtain a b where "ab = (a, b)" by (cases ab)
    moreover obtain s where "new_span ''financial'' TIER_CHECKSUM input (pd_type d) (final_confidence d) a b = Inr s" "honest input s"
      using reported c calculation by (metis \<open>c = (d, m)\<close>)
    ultimately show ?thesis by (simp add: financial_step_def)
  qed (simp add: financial_step_def)
qed

text \<open>The checksum detector needs a first group, and from its validators that accept a sane confidence.\<close>

definition sound_checksum :: "string \<Rightarrow> (pattern_def \<times> (string \<Rightarrow> bool \<times> real)) \<times> rx_match \<Rightarrow> bool" where
  "sound_checksum input c \<longleftrightarrow>
     (case c of ((d, f), m) \<Rightarrow> fits_text input (d, m) \<and> (\<forall>v. fst (f v) \<longrightarrow> v \<noteq> [] \<and> unit_interval (snd (f v))) \<and>
        group_span 1 m \<noteq> None)"

interpretation checksum: span_scanner checksum_step sound_checksum
proof
  fix input c and st :: "span list \<times> place list"
  assume c: "sound_checksum input c"
  obtain d f m spans seen where [simp]: "c = ((d, f), m)" "st = (spans, seen)" by (cases c; cases "fst c"; cases st) auto
  obtain a b where ab: "group_span 1 m = Some (a, b)" using c by (auto simp: sound_checksum_def)
  obtain valid conf where f: "f (piece input a b) = (valid, conf)" by (cases "f (piece input a b)")
  show "\<exists>st'. checksum_step input c st = Inr st' \<and> (list_all (honest input) (fst st) \<longrightarrow> list_all (honest input) (fst st'))"
  proof (cases valid)
    case True
    have v: "piece input a b \<noteq> []" "unit_interval conf"
      using c f True by (auto simp: sound_checksum_def dest!: spec [of _ "piece input a b"])
    moreover have "a < b" "b \<le> length input"
      using span_in_text [of input d m 1 a b] c ab v(1) by (auto simp: sound_checksum_def)
    ultimately obtain s where "new_span ''checksum'' TIER_CHECKSUM input (pd_type d) conf a b = Inr s" "honest input s"
      using new_span_ok [of a b input conf] by metis
    then show ?thesis using ab f by (simp add: checksum_step_def Let_def)
  qed (use ab f in \<open>simp add: checksum_step_def Let_def\<close>)
qed

text \<open>
  A rule for dates is safe when it has fewer than three groups or its first three always take part:
  then the validation of the date never meets a missing group.
\<close>

definition date_safe :: "pattern_def \<Rightarrow> bool" where
  "date_safe d \<longleftrightarrow> pd_type d \<in> {''DATE'', ''DATE_DOB''} \<longrightarrow>
     opens (pd_regex d) < 3 \<or>
     (case re_compile (pd_nocase d) (pd_regex d) of Some r \<Rightarrow> {1, 2, 3} \<subseteq> always r | None \<Rightarrow> False)"

lemma date_ok_safe:
  assumes "fits_text input (d, m)" and "date_safe d" and "pd_type d \<in> {''DATE'', ''DATE_DOB''}" and "three_groups m"
  shows "\<exists>ok. date_ok input m = Inr ok"
proof -
  obtain r where r: "re_compile (pd_nocase d) (pd_regex d) = Some r" "match_ok r input m"
    using assms(1) by (auto simp: fits_text_def)
  obtain n where n: "last_index m = Some n" "3 \<le> n" using assms(4) by (auto simp: three_groups_def split: option.splits)
  have "n \<le> opens (pd_regex d)" using last_index_group [OF r(2) n(1)] re_compile_groups [OF r(1)] by auto
  then have "{1, 2, 3} \<subseteq> always r" using assms(2,3) n(2) r(1) by (auto simp: date_safe_def)
  then have "\<exists>g. group_text input 1 m = Some g" "\<exists>g. group_text input 2 m = Some g" "\<exists>g. group_text input 3 m = Some g"
    using group_always [OF r(2)] by (force simp: group_text_def)+
  then obtain g1 g2 g3 where "group_text input 1 m = Some g1" "group_text input 2 m = Some g2" "group_text input 3 m = Some g3"
    by (elim exE)
  then show ?thesis by (cases "str_isdigit g1"; cases "str_isdigit g2"; cases "str_isdigit g3") (auto simp: date_ok_def)
qed

definition sound_pattern :: "string \<Rightarrow> candidate \<Rightarrow> bool" where
  "sound_pattern input c \<longleftrightarrow> sound_candidate pd_confidence input c \<and> date_safe (fst c)"

lemma accepted_safe: "sound_pattern input c \<Longrightarrow> \<exists>h. accepted input c = Inr h"
  using date_ok_safe [of input "fst c" "snd c"]
  by (cases c) (auto simp: sound_pattern_def sound_candidate_def accepted_def Let_def split: option.splits)

lemma accepted_hit: "accepted input (d, m) = Inr (Some ab) \<Longrightarrow> hit input d m = Some ab"
  by (auto simp: accepted_def Let_def res_simps split: option.splits if_splits)

interpretation pattern: span_scanner pattern_step sound_pattern
proof
  fix input c and st :: "span list \<times> (place \<times> nat) list"
  assume c: "sound_pattern input c"
  obtain d m spans seen where [simp]: "c = (d, m)" "st = (spans, seen)" by (cases c; cases st)
  obtain h where h: "accepted input (d, m) = Inr h" using accepted_safe [OF c] by auto
  show "\<exists>st'. pattern_step input c st = Inr st' \<and> (list_all (honest input) (fst st) \<longrightarrow> list_all (honest input) (fst st'))"
  proof (cases h)
    case (Some ab)
    obtain a b where ab: "ab = (a, b)" by (cases ab)
    obtain s where "new_span ''pattern'' TIER_PATTERN input (pd_type d) (pd_confidence d) a b = Inr s" "honest input s"
      using reported c accepted_hit h Some ab by (metis \<open>c = (d, m)\<close> sound_pattern_def)
    then show ?thesis using h Some ab
      by (auto simp: pattern_step_def Let_def list_all_iff split: option.splits dest!: subsetD [OF set_update_subset_insert])
  qed (use h in \<open>simp add: pattern_step_def\<close>)
qed


section \<open>The tables\<close>

lemmas pattern_tables = contact_patterns_def date_patterns_def time_age_patterns_def provider_name_patterns_def
  patient_name_patterns_def medical_id_patterns_def address_patterns_def facility_patterns_def
  network_patterns_def license_patterns_def travel_patterns_def financial_id_patterns_def
  healthcare_patterns_def geographic_patterns_def

definition sane :: "pattern_def \<Rightarrow> bool" where
  "sane d \<longleftrightarrow> unit_interval (pd_confidence d)"

lemma sane_rules [simp]:
  "sane (rule p ty conf n) = unit_interval conf"
  "sane (rule_i p ty conf n) = unit_interval conf"
  "sane (checked f d) = sane d"
  by (simp_all add: sane_def rule_def rule_i_def checked_def)

lemma government_sane: "list_all sane GOVERNMENT_PATTERNS"
  by (simp add: GOVERNMENT_PATTERNS_def unit_interval_def)

lemma secrets_sane: "list_all sane SECRETS_PATTERNS"
  by (simp add: SECRETS_PATTERNS_def unit_interval_def)

lemma additional_sane: "list_all sane ADDITIONAL_PATTERNS"
  by (simp add: ADDITIONAL_PATTERNS_def unit_interval_def)

lemma financial_sane: "list_all sane (FINANCIAL_PATTERNS sha256)"
  by (simp add: FINANCIAL_PATTERNS_def unit_interval_def)


lemma patterns_sane: "list_all sane PATTERNS"
  unfolding PATTERNS_def list_all_append by (intro conjI; simp add: pattern_tables unit_interval_def)

definition dated :: "string \<Rightarrow> bool" where
  "dated ty \<longleftrightarrow> ty \<in> {''DATE'', ''DATE_DOB''}"

definition date_regex :: "bool \<Rightarrow> string \<Rightarrow> bool" where
  "date_regex ic p \<longleftrightarrow> opens p < 3 \<or> (case re_compile ic p of Some r \<Rightarrow> {1, 2, 3} \<subseteq> always r | None \<Rightarrow> False)"

lemma date_safe_rules:
  "date_safe (rule p ty conf n) = (dated ty \<longrightarrow> date_regex False (pat p))"
  "date_safe (rule_i p ty conf n) = (dated ty \<longrightarrow> date_regex True (pat p))"
  "date_safe (checked f d) = date_safe d"
  by (simp_all add: date_safe_def date_regex_def dated_def rule_def rule_i_def checked_def)

lemma undated_safe: "\<not> dated (pd_type d) \<Longrightarrow> date_safe d"
  by (simp add: date_safe_def dated_def)

definition date_rules :: "pattern_def list \<Rightarrow> pattern_def list" where
  "date_rules ds = filter (\<lambda>d. dated (pd_type d)) ds"

lemma date_rules_safe: "list_all date_safe (date_rules ds) \<Longrightarrow> list_all date_safe ds"
  using undated_safe by (auto simp: date_rules_def list_all_iff)

lemma date_patterns_safe: "list_all date_safe date_patterns"
  by code_simp

lemma other_tables_undated:
  "list_all (\<lambda>d. \<not> dated (pd_type d)) (contact_patterns @ time_age_patterns @ provider_name_patterns @
     patient_name_patterns @ medical_id_patterns @ address_patterns @ facility_patterns @ network_patterns @
     license_patterns @ travel_patterns @ financial_id_patterns @ healthcare_patterns @ geographic_patterns)"
  unfolding list_all_append by (intro conjI; simp add: pattern_tables dated_def rule_def rule_i_def checked_def)

lemma patterns_date_safe: "list_all date_safe PATTERNS"
  using date_patterns_safe other_tables_undated undated_safe unfolding PATTERNS_def list_all_append
  by (auto simp: list_all_iff)

definition sensible :: "(string \<Rightarrow> bool \<times> real) \<Rightarrow> bool" where
  "sensible f \<longleftrightarrow> \<not> fst (f []) \<and> (\<forall>v. unit_interval (snd (f v)))"

lemma sensible_ssn: "sensible validate_ssn"
  by (auto simp: sensible_def validate_ssn_def unit_interval_def str_strip_def Let_def)

lemma sensible_card: "sensible validate_credit_card"
  by (auto simp: sensible_def validate_credit_card_def unit_interval_def Let_def)

lemma sensible_npi: "sensible validate_npi"
  by (auto simp: sensible_def validate_npi_def unit_interval_def Let_def)

lemma sensible_dea: "sensible validate_dea"
  by (auto simp: sensible_def validate_dea_def unit_interval_def strip_blanks_def str_upper_def Let_def)

lemma sensible_iban: "sensible validate_iban"
  by (auto simp: sensible_def validate_iban_def unit_interval_def strip_blanks_def str_upper_def Let_def split: option.splits)

lemma sensible_vin: "sensible validate_vin"
  by (auto simp: sensible_def validate_vin_def unit_interval_def strip_blanks_def str_upper_def Let_def split: option.splits)

lemma sensible_cusip: "sensible validate_cusip"
  by (auto simp: sensible_def validate_cusip_def unit_interval_def canon_cusip_def canon_clean_def Let_def str_upper_def str_strip_def)

lemma sensible_isin: "sensible validate_isin"
  by (auto simp: sensible_def validate_isin_def unit_interval_def canon_isin_def canon_clean_def Let_def str_upper_def str_strip_def)

lemma unit_verdict:
  "unit_interval (snd rejected)" "unit_interval (snd validated)"
  "unit_interval (snd x) \<Longrightarrow> unit_interval (snd y) \<Longrightarrow> unit_interval (snd (if P then x else y))"
  "unit_interval (snd x) \<Longrightarrow> (\<And>z. unit_interval (snd (g z))) \<Longrightarrow> unit_interval (snd (case r of None \<Rightarrow> x | Some z \<Rightarrow> g z))"
  by (simp_all add: unit_interval_def split: option.split)

lemma sensible_ups: "sensible validate_ups_tracking"
  unfolding sensible_def
proof
  show "\<not> fst (validate_ups_tracking [])" by code_simp
  show "\<forall>v. unit_interval (snd (validate_ups_tracking v))"
    unfolding validate_ups_tracking_def Let_def by (intro allI unit_verdict)
qed

lemma sensible_fedex: "sensible validate_fedex_tracking"
  unfolding sensible_def
proof
  show "\<not> fst (validate_fedex_tracking [])" by code_simp
  show "\<forall>v. unit_interval (snd (validate_fedex_tracking v))"
    unfolding validate_fedex_tracking_def Let_def by (intro allI unit_verdict)
qed

lemma sensible_usps: "sensible validate_usps_tracking"
  unfolding sensible_def
proof
  show "\<not> fst (validate_usps_tracking [])" by code_simp
  show "\<forall>v. unit_interval (snd (validate_usps_tracking v))"
    unfolding validate_usps_tracking_def Let_def by (intro allI unit_verdict)
qed

definition first_always :: "pattern_def \<Rightarrow> bool" where
  "first_always d \<longleftrightarrow> (case re_compile (pd_nocase d) (pd_regex d) of Some r \<Rightarrow> 1 \<in> always r | None \<Rightarrow> False)"

lemma checksum_groups: "list_all first_always (map fst CHECKSUM_PATTERNS)"
  by code_simp

lemma checksum_sensible: "list_all (\<lambda>c. sensible (snd c)) CHECKSUM_PATTERNS"
  by (simp add: CHECKSUM_PATTERNS_def sensible_ssn sensible_card sensible_npi sensible_dea sensible_iban sensible_vin
    sensible_cusip sensible_isin sensible_ups sensible_fedex sensible_usps)

lemma checksum_candidates_sound: "list_all (sound_checksum input) (checksum_candidates input)"
  unfolding list_all_iff
proof
  fix c assume "c \<in> set (checksum_candidates input)"
  then obtain d f m where c: "c = ((d, f), m)" "(d, f) \<in> set CHECKSUM_PATTERNS" "m \<in> set (matches_of d input)"
    by (auto simp: checksum_candidates_def)
  have fits: "fits_text input (d, m)"
    using candidates_fit [of "(d, m)" "[d]" input] c(3) by (simp add: candidates_def)
  have "first_always d" using checksum_groups c(2) by (force simp: list_all_iff)
  then have "group_span 1 m \<noteq> None"
    using fits group_always [of _ input m 1] by (auto simp: fits_text_def first_always_def)
  moreover have "sensible f" using checksum_sensible c(2) by (force simp: list_all_iff)
  ultimately show "sound_checksum input c"
    using fits by (auto simp: c(1) sound_checksum_def sensible_def)
qed

lemma candidates_sound:
  assumes "list_all (\<lambda>d. unit_interval (conf d)) rules"
  shows "list_all (sound_candidate conf input) (candidates rules input)"
  using assms candidates_fit [of _ rules input] by (auto simp: list_all_iff sound_candidate_def)


section \<open>What the detectors report\<close>

definition detector_of :: "string \<Rightarrow> (string \<Rightarrow> py_exn + span list) \<Rightarrow> detector" where
  "detector_of n f = \<lparr>d_name = n, d_available = True, d_detect = f\<rparr>"

definition answers_honestly :: "(string \<Rightarrow> py_exn + span list) \<Rightarrow> bool" where
  "answers_honestly f \<longleftrightarrow> (\<forall>input. \<exists>spans. f input = Inr spans \<and> list_all (honest input) spans)"

lemma table_sound: "list_all sane rules \<Longrightarrow> list_all (sound_candidate pd_confidence input) (candidates rules input)"
  by (rule candidates_sound) (auto simp: sane_def list_all_iff)

lemma government_answers: "answers_honestly government_detect"
  using government.reports_honest [OF table_sound [OF government_sane]] by (simp add: answers_honestly_def government_detect_def)

lemma secrets_answers: "answers_honestly secrets_detect"
  using secrets.reports_honest [OF table_sound [OF secrets_sane]] by (simp add: answers_honestly_def secrets_detect_def)

lemma additional_answers: "answers_honestly additional_detect"
  using additional.reports_honest [OF table_sound [OF additional_sane]] by (simp add: answers_honestly_def additional_detect_def)

lemma final_confidence_sane: "sane d \<Longrightarrow> unit_interval (final_confidence d)"
  by (auto simp: sane_def unit_interval_def final_confidence_def)

lemma financial_answers: "answers_honestly (financial_detect sha256)"
proof -
  have "list_all (\<lambda>d. unit_interval (final_confidence d)) (FINANCIAL_PATTERNS sha256)"
    using financial_sane [of sha256] final_confidence_sane by (auto simp: list_all_iff)
  from financial.reports_honest [OF candidates_sound [OF this]] show ?thesis
    by (simp add: answers_honestly_def financial_detect_def)
qed

lemma checksum_answers: "answers_honestly checksum_detect"
  using checksum.reports_honest [OF checksum_candidates_sound]
  by (simp add: answers_honestly_def checksum_detect_def)

lemma pattern_rules_sound:
  assumes "list_all sane rules" and "list_all date_safe rules"
  shows "list_all (sound_pattern input) (candidates rules input)"
  using assms(2) table_sound [OF assms(1), of input] candidates_fit [of _ rules input]
  by (auto simp: list_all_iff sound_pattern_def)

lemma pattern_answers: "answers_honestly (pattern_detect PATTERNS)"
  using pattern.reports_honest [OF pattern_rules_sound [OF patterns_sane patterns_date_safe]]
  by (simp add: answers_honestly_def pattern_detect_def)


section \<open>The pattern detector reports exactly the accepted matches\<close>

definition place_of :: "span \<Rightarrow> int \<times> int \<times> string" where
  "place_of s = (sp_start s, sp_end s, sp_entity_type s)"

definition key_place :: "place \<Rightarrow> int \<times> int \<times> string" where
  "key_place k = (case k of (a, b, ty) \<Rightarrow> (int a, int b, ty))"

lemma key_place_inject [simp]: "key_place k = key_place l \<longleftrightarrow> k = l"
  by (cases k; cases l) (simp add: key_place_def)

definition reports :: "string \<Rightarrow> candidate \<Rightarrow> span \<Rightarrow> bool" where
  "reports input c s \<longleftrightarrow>
     (case accepted input c of
        Inr (Some (a, b)) \<Rightarrow> place_of s = (int a, int b, pd_type (fst c)) \<and> sp_text s = piece input a b \<and>
          sp_confidence s = pd_confidence (fst c) \<and> sp_tier s = TIER_PATTERN \<and> sp_detector s = ''pattern''
      | _ \<Rightarrow> False)"

definition covered :: "string \<Rightarrow> span list \<Rightarrow> candidate \<Rightarrow> bool" where
  "covered input spans c \<longleftrightarrow>
     (case accepted input c of
        Inr (Some (a, b)) \<Rightarrow>
          list_ex (\<lambda>s. place_of s = (int a, int b, pd_type (fst c)) \<and> pd_confidence (fst c) \<le> sp_confidence s) spans
      | Inr None \<Rightarrow> True
      | Inl e \<Rightarrow> False)"

definition indexed :: "span list \<Rightarrow> (place \<times> nat) list \<Rightarrow> bool" where
  "indexed spans seen \<longleftrightarrow> distinct (map place_of spans) \<and>
     (\<forall>k i. map_of seen k = Some i \<longleftrightarrow> i < length spans \<and> place_of (spans ! i) = key_place k)"

definition faithful :: "string \<Rightarrow> candidate set \<Rightarrow> span list \<times> (place \<times> nat) list \<Rightarrow> bool" where
  "faithful input past st \<longleftrightarrow> indexed (fst st) (snd st) \<and>
     (\<forall>s \<in> set (fst st). \<exists>c \<in> past. reports input c s) \<and> (\<forall>c \<in> past. covered input (fst st) c)"

lemma indexed_replace:
  assumes "indexed spans seen" and "i < length spans" and "place_of s = place_of (spans ! i)"
  shows "indexed (spans[i := s]) seen"
proof -
  have "map place_of (spans[i := s]) = map place_of spans" using assms(2,3) by (simp add: map_update list_update_same_conv)
  moreover have "place_of (spans[i := s] ! j) = place_of (spans ! j)" if "j < length spans" for j
    using assms(3) that by (cases "i = j") simp_all
  ultimately show ?thesis using assms(1) by (auto simp: indexed_def)
qed

lemma indexed_append:
  assumes "indexed spans seen" and "map_of seen k = None" and "place_of s = key_place k"
  shows "indexed (spans @ [s]) ((k, length spans) # seen)"
proof -
  have ix: "map_of seen l = Some i \<longleftrightarrow> i < length spans \<and> place_of (spans ! i) = key_place l" for l i
    using assms(1) unfolding indexed_def by blast
  have new: "place_of (spans ! i) \<noteq> key_place k" if "i < length spans" for i
    using assms(1,2) that unfolding indexed_def by (metis option.distinct(1))
  then have "place_of s \<notin> set (map place_of spans)" using assms(3) by (fastforce simp: in_set_conv_nth)
  moreover have "map_of ((k, length spans) # seen) l = Some i \<longleftrightarrow> i < length (spans @ [s]) \<and> place_of ((spans @ [s]) ! i) = key_place l" for l i
    using assms(3) new [of i] new by (cases "l = k"; cases "i < length spans"; cases "i = length spans") (auto simp: ix nth_append)
  ultimately show ?thesis using assms(1) by (simp add: indexed_def)
qed

lemma covered_replace:
  assumes "covered input spans c" and "i < length spans" and "place_of s = place_of (spans ! i)"
    and "sp_confidence (spans ! i) \<le> sp_confidence s"
  shows "covered input (spans[i := s]) c"
proof (cases "accepted input c")
  case (Inr h)
  show ?thesis
  proof (cases h)
    case (Some ab)
    obtain a b where ab: "ab = (a, b)" by (cases ab)
    then obtain j where j: "j < length spans" "place_of (spans ! j) = (int a, int b, pd_type (fst c))"
      "pd_confidence (fst c) \<le> sp_confidence (spans ! j)"
      using assms(1) Inr Some by (auto simp: covered_def list_ex_iff in_set_conv_nth)
    then have "place_of (spans[i := s] ! j) = (int a, int b, pd_type (fst c)) \<and> pd_confidence (fst c) \<le> sp_confidence (spans[i := s] ! j)"
      using assms(2-4) by (cases "i = j") auto
    moreover have "spans[i := s] ! j \<in> set (spans[i := s])" using j(1) by (simp only: nth_mem length_list_update)
    ultimately show ?thesis using Inr Some ab by (auto simp: covered_def list_ex_iff)
  qed (simp add: covered_def Inr)
qed (use assms(1) in \<open>simp add: covered_def\<close>)

lemma covered_append: "covered input spans c \<Longrightarrow> covered input (spans @ xs) c"
  by (auto simp: covered_def split: sum.splits option.splits)

lemma pattern_step_faithful:
  assumes c: "sound_pattern input c" and st: "faithful input past st"
  shows "\<exists>st'. pattern_step input c st = Inr st' \<and> faithful input (insert c past) st'"
proof -
  obtain d m spans seen where [simp]: "c = (d, m)" "st = (spans, seen)" by (cases c; cases st)
  obtain h where h: "accepted input (d, m) = Inr h" using accepted_safe [OF c] by auto
  have old: "indexed spans seen" "\<forall>s \<in> set spans. \<exists>c \<in> past. reports input c s" "\<forall>c \<in> past. covered input spans c"
    using st by (simp_all add: faithful_def)
  show ?thesis
  proof (cases h)
    case None
    then have "covered input spans (d, m)" by (simp add: covered_def h)
    then show ?thesis using h None old by (auto simp: pattern_step_def faithful_def)
  next
    case (Some ab)
    obtain a b where ab: "ab = (a, b)" by (cases ab)
    have place: "a < b" "b \<le> length input" "unit_interval (pd_confidence d)"
      using c hit_in_text [of input d m a b] accepted_hit h Some ab by (auto simp: sound_pattern_def sound_candidate_def)
    then obtain s where s: "new_span ''pattern'' TIER_PATTERN input (pd_type d) (pd_confidence d) a b = Inr s"
      and f: "honest input s" "sp_start s = int a" "sp_end s = int b" "sp_entity_type s = pd_type d"
        "sp_confidence s = pd_confidence d" "sp_tier s = TIER_PATTERN" "sp_detector s = ''pattern''"
      using new_span_ok [of a b input "pd_confidence d" "''pattern''" TIER_PATTERN "pd_type d"] by metis
    have "sp_text s = piece input a b"
      using f(1-3) place(1,2) piece_slice [of a b input] by (simp add: honest_def anchored_def)
    then have new: "reports input c s" using f h Some ab by (simp add: reports_def place_of_def)
    have key: "place_of s = key_place (a, b, pd_type d)" using f by (simp add: place_of_def key_place_def)
    show ?thesis
    proof (cases "map_of seen (a, b, pd_type d)")
      case None
      have "covered input (spans @ [s]) c" using f h Some ab by (simp add: covered_def place_of_def)
      then have "faithful input (insert c past) (spans @ [s], ((a, b, pd_type d), length spans) # seen)"
        using old new indexed_append [OF old(1) None key] by (auto simp: faithful_def covered_append)
      then show ?thesis using h Some ab None s by (simp add: pattern_step_def Let_def)
    next
      case (Some i)
      then have i: "i < length spans" "place_of (spans ! i) = key_place (a, b, pd_type d)" using old(1) by (auto simp: indexed_def)
      show ?thesis
      proof (cases "pd_confidence d \<le> sp_confidence (spans ! i)")
        case True
        then have "covered input spans c" using h \<open>h = Some ab\<close> ab i
          by (auto simp: covered_def list_ex_iff key_place_def intro!: bexI [of _ "spans ! i"])
        then show ?thesis using h \<open>h = Some ab\<close> ab Some True old by (auto simp: pattern_step_def faithful_def Let_def)
      next
        case False
        have "s \<in> set (spans[i := s])" using i(1) by (rule set_update_memI)
        then have "covered input (spans[i := s]) c" using f h \<open>h = Some ab\<close> ab
          by (auto simp: covered_def list_ex_iff place_of_def intro!: bexI [of _ s])
        moreover have "covered input (spans[i := s]) c'" if "c' \<in> past" for c'
          using covered_replace [of input spans c' i s] old(3) that i key f False by simp
        moreover have "\<exists>c' \<in> insert c past. reports input c' s'" if "s' \<in> set (spans[i := s])" for s'
          using subsetD [OF set_update_subset_insert that] old(2) new by auto
        ultimately have "faithful input (insert c past) (spans[i := s], seen)"
          using indexed_replace [OF old(1) i(1)] i(2) key by (simp add: faithful_def)
        then show ?thesis using h \<open>h = Some ab\<close> ab Some False s by (simp add: pattern_step_def Let_def)
      qed
    qed
  qed
qed

lemma pattern_scan_faithful:
  "list_all (sound_pattern input) cs \<Longrightarrow> faithful input past st \<Longrightarrow>
    \<exists>st'. scan (pattern_step input) cs st = Inr st' \<and> faithful input (past \<union> set cs) st'"
proof (induction cs arbitrary: past st)
  case (Cons c cs)
  then obtain mid where "pattern_step input c st = Inr mid" "faithful input (insert c past) mid"
    using pattern_step_faithful [of input c past st] by auto
  with Cons.IH [of "insert c past" mid] Cons.prems(1) show ?case by auto
qed simp

text \<open>
  C5: The pattern detector answers on every text. No place carries a type twice, every span is an
  accepted match of a rule, and every accepted match of a rule is reported with at least its
  confidence: so each place and type has the highest confidence of the rules that accept it.
\<close>

theorem pattern_detector_exact:
  assumes "list_all sane rules" and "list_all date_safe rules"
  shows "\<exists>spans. pattern_detect rules input = Inr spans \<and> distinct (map place_of spans) \<and>
    list_all (\<lambda>s. list_ex (\<lambda>c. reports input c s) (candidates rules input)) spans \<and>
    list_all (covered input spans) (candidates rules input)"
proof -
  have "faithful input {} ([], [])" by (simp add: faithful_def indexed_def)
  with pattern_scan_faithful [OF pattern_rules_sound [OF assms]]
  obtain st where "scan (pattern_step input) (candidates rules input) ([], []) = Inr st"
    "faithful input ({} \<union> set (candidates rules input)) st" by blast
  then show ?thesis by (auto simp: pattern_detect_def faithful_def indexed_def list_all_iff list_ex_iff)
qed


text \<open>Two rules that accept the same place, the second with more confidence.\<close>

definition ex_rules :: "pattern_def list" where
  "ex_rules = [rule (''ab'') ''X'' (1 / 2) 0, rule (''a(b|c)'') ''X'' (3 / 4) 0]"

lemma ex_rules_ok: "list_all sane ex_rules" "list_all date_safe ex_rules"
proof -
  show "list_all sane ex_rules" by (simp add: ex_rules_def unit_interval_def)
  show "list_all date_safe ex_rules"
    by (simp add: ex_rules_def date_safe_rules dated_def)
qed

theorem pattern_detector_exact_witness:
  "\<exists>spans. pattern_detect ex_rules ''ab'' = Inr spans \<and> distinct (map place_of spans) \<and>
    list_all (\<lambda>s. list_ex (\<lambda>c. reports ''ab'' c s) (candidates ex_rules ''ab'')) spans \<and>
    list_all (covered ''ab'' spans) (candidates ex_rules ''ab'')"
  by (rule pattern_detector_exact [OF ex_rules_ok])

end
