(* ===== verification/Detector_Registry.thy ===== *)
theory Detector_Registry
  imports Pattern_Detectors
begin

text \<open>
  The registry of detectors, \<^verbatim>\<open>core/detectors/registry.py\<close>, and what a scan with the
  detectors of the repository gives. A registered class is its constructor, which may raise.
\<close>

type_synonym detector_class = "py_exn + detector"

type_synonym registry = "(string \<times> detector_class) list"

text \<open>A class without a name of its own, or with one that is taken, is a \<open>ValueError\<close>.\<close>

definition register_detector :: "string option \<Rightarrow> detector_class \<Rightarrow> registry \<Rightarrow> py_exn + registry" where
  "register_detector nm cls reg =
     (case nm of
        None \<Rightarrow> Inl ValueErr
      | Some n \<Rightarrow>
          if n = [] \<or> n = ''base'' then Inl ValueErr
          else if n \<in> set (map fst reg) then Inl ValueErr
          else Inr (reg @ [(n, cls)]))"

definition get_detector_names :: "registry \<Rightarrow> string list" where
  "get_detector_names reg = map fst reg"

definition create_detector :: "registry \<Rightarrow> string \<Rightarrow> py_exn + detector" where
  "create_detector reg n = (case map_of reg n of None \<Rightarrow> Inl KeyErr | Some cls \<Rightarrow> cls)"

definition create_all_detectors :: "registry \<Rightarrow> detector list" where
  "create_all_detectors reg =
     concat (map (\<lambda>(n, cls). case cls of Inr d \<Rightarrow> if d_available d then [d] else [] | Inl _ \<Rightarrow> []) reg)"

text \<open>Importing the package registers the classes of the modules in this order.\<close>

fun register_all :: "(string \<times> detector_class) list \<Rightarrow> registry \<Rightarrow> py_exn + registry" where
  "register_all [] reg = Inr reg"
| "register_all ((n, cls) # rest) reg = res_bind (register_detector (Some n) cls reg) (register_all rest)"

definition built_in_classes :: "(nat list \<Rightarrow> nat list) \<Rightarrow> (string \<times> detector_class) list" where
  "built_in_classes sha256 =
     map (\<lambda>(n, f). (n, Inr (detector_of n f)))
       [(''additional_patterns'', additional_detect),
        (''checksum'', checksum_detect),
        (''financial'', financial_detect sha256),
        (''government'', government_detect),
        (''pattern'', pattern_detect PATTERNS),
        (''secrets'', secrets_detect)]"

section \<open>Registering\<close>

lemma register_detector_Inr:
  "register_detector nm cls reg = Inr reg' \<Longrightarrow>
    \<exists>n. nm = Some n \<and> n \<notin> {[], ''base''} \<and> n \<notin> set (map fst reg) \<and> reg' = reg @ [(n, cls)]"
  by (auto simp: register_detector_def split: option.splits if_splits)

lemma register_keeps_distinct:
  "register_detector nm cls reg = Inr reg' \<Longrightarrow> distinct (get_detector_names reg) \<Longrightarrow> distinct (get_detector_names reg')"
  by (auto simp: get_detector_names_def dest!: register_detector_Inr)

lemma register_all_ok:
  "distinct (map fst (reg @ cs)) \<Longrightarrow> list_all (\<lambda>c. fst c \<notin> {[], ''base''}) cs \<Longrightarrow> register_all cs reg = Inr (reg @ cs)"
  by (induction cs arbitrary: reg) (auto simp: register_detector_def)

text \<open>
  A registered class is what its name creates; a name that is missing, \<^verbatim>\<open>base\<close> or taken is a
  \<open>ValueError\<close>, a name that was never registered a \<open>KeyError\<close>, and the other names keep their classes.
\<close>

theorem registry_lookup:
  "case register_detector nm cls reg of
     Inr reg' \<Rightarrow> create_detector reg' (the nm) = cls \<and>
       (n \<noteq> the nm \<longrightarrow> create_detector reg' n = create_detector reg n) \<and>
       get_detector_names reg' = get_detector_names reg @ [the nm]
   | Inl e \<Rightarrow> e = ValueErr \<and> (nm = None \<or> nm = Some [] \<or> nm = Some ''base'' \<or> create_detector reg (the nm) \<noteq> Inl KeyErr \<or>
       map_of reg (the nm) = Some (Inl KeyErr))"
proof (cases "register_detector nm cls reg")
  case (Inl e)
  then have "e = ValueErr" "nm = None \<or> nm = Some [] \<or> nm = Some ''base'' \<or> (\<exists>c. map_of reg (the nm) = Some c)"
    by (auto simp: register_detector_def map_of_eq_None_iff split: option.splits if_splits) (metis imageI fst_conv map_of_eq_None_iff not_Some_eq)
  then show ?thesis using Inl by (auto simp: create_detector_def)
next
  case (Inr reg')
  from register_detector_Inr [OF this] obtain k where k: "nm = Some k" "k \<notin> set (map fst reg)" "reg' = reg @ [(k, cls)]" by blast
  then have "map_of reg k = None" by (simp add: map_of_eq_None_iff)
  then show ?thesis using Inr k by (simp add: create_detector_def get_detector_names_def map_add_def split: option.split)
qed

section \<open>The detectors of the repository\<close>

lemma built_in_registered: "register_all (built_in_classes sha256) [] = Inr (built_in_classes sha256)"
  by (rule trans, rule register_all_ok) (simp_all add: built_in_classes_def)

lemma built_in_honest: "list_all (\<lambda>(n, cls). \<exists>f. cls = Inr (detector_of n f) \<and> answers_honestly f) (built_in_classes sha256)"
  by (auto simp: built_in_classes_def additional_answers checksum_answers financial_answers government_answers
    pattern_answers secrets_answers)

lemma honest_detector:
  "answers_honestly f \<Longrightarrow> truthful input (detector_of n f) \<and> tolerable handled input (detector_of n f)"
  by (auto simp: answers_honestly_def truthful_def tolerable_def detector_of_def honest_def list_all_iff dest!: spec [of _ input])

text \<open>What \<open>create_detector\<close> answers to the orchestrator, which skips unknown names.\<close>

definition created :: "registry \<Rightarrow> string \<Rightarrow> detector option" where
  "created reg n = (case create_detector reg n of Inr d \<Rightarrow> Some d | Inl _ \<Rightarrow> None)"

text \<open>
  The orchestrator over the registered detectors. The accelerated detector, the models, the
  coreference and the enhancer are whatever their modules provide: they count if the
  configuration asks for them.
\<close>

definition pattern_orchestrator ::
    "(nat list \<Rightarrow> nat list) \<Rightarrow> detector option \<Rightarrow> detector list \<Rightarrow>
      (string \<Rightarrow> span list \<Rightarrow> py_exn + span list) option \<Rightarrow> (string \<Rightarrow> span list \<Rightarrow> py_exn + span list) option \<Rightarrow>
      detection_config \<Rightarrow> orchestrator" where
  "pattern_orchestrator sha256 hyperscan models coref enhancer c =
     new_orchestrator (created (built_in_classes sha256)) hyperscan models coref enhancer c"

definition local_only :: "detection_config \<Rightarrow> bool" where
  "local_only c \<longleftrightarrow> \<not> enable_hyperscan c \<and> \<not> enable_ml c \<and> \<not> enable_coref c"

lemma pattern_orchestrator_detectors:
  assumes "d \<in> set (o_detectors (pattern_orchestrator sha256 hs ms cr en c))" and "local_only c"
  shows "\<exists>n f. d = detector_of n f \<and> answers_honestly f"
proof -
  have "d \<in> set (List.map_filter (created (built_in_classes sha256)) (detector_names_of c))"
    using assms unfolding pattern_orchestrator_def new_orchestrator_def orchestrator.simps local_only_def by simp
  then obtain n where "created (built_in_classes sha256) n = Some d" by (auto simp: List.map_filter_def)
  then have "(n, Inr d) \<in> set (built_in_classes sha256)"
    by (auto simp: created_def create_detector_def split: option.splits sum.splits dest: map_of_SomeD)
  then show ?thesis using built_in_honest [of sha256] by (fastforce simp: list_all_iff)
qed

lemma repository_scan:
  assumes "local_only c" and "o_enhancer (pattern_orchestrator sha256 hs ms cr en c) = None"
    and "set finished \<subseteq> set (o_detectors (pattern_orchestrator sha256 hs ms cr en c))"
  shows "\<exists>r. detect_sync eng (pattern_orchestrator sha256 hs ms cr en c) finished input = Inr r \<and> disjoint_ordered (dr_spans r) \<and>
    list_all (\<lambda>s. anchored input s \<and> cfg_threshold c \<le> sp_confidence s) (dr_spans r)"
proof -
  have "truthful input d \<and> tolerable handled_by_orchestrator input d" if "d \<in> set finished" for d
    using pattern_orchestrator_detectors [of d sha256 hs ms cr en c] honest_detector assms(1,3) that by blast
  then have "list_all (truthful input) finished" "list_all (tolerable handled_by_orchestrator input) finished"
    by (simp_all add: list_all_iff)
  moreover have "o_coref (pattern_orchestrator sha256 hs ms cr en c) = None" "o_config (pattern_orchestrator sha256 hs ms cr en c) = c"
    using assms(1) by (simp_all add: pattern_orchestrator_def new_orchestrator_def local_only_def)
  ultimately show ?thesis
    using detect_sync_sound [of input finished "pattern_orchestrator sha256 hs ms cr en c" eng] assms(2) by auto
qed

text \<open>
  C4: A scan with the pattern detectors of the repository, any of them switched on or off,
  under a configuration that leaves out the accelerated detector, the models, the coreference and
  the context enhancement (the default configuration does), and whichever of the detectors finish
  in time, always answers: the spans do not overlap, each carries the text at its
  position, and each meets the threshold. No assumption on these detectors is left, and what the
  modules left out would provide does not matter.
\<close>

theorem repository_scan_sound:
  assumes "\<not> enable_hyperscan c" and "\<not> enable_ml c" and "\<not> enable_coref c" and "\<not> enable_context_enhancement c"
    and "set finished \<subseteq> set (o_detectors (pattern_orchestrator sha256 hyperscan models coref enhancer c))"
  shows "\<exists>r. detect_sync eng (pattern_orchestrator sha256 hyperscan models coref enhancer c) finished input = Inr r \<and>
    disjoint_ordered (dr_spans r) \<and>
    list_all (\<lambda>s. anchored input s \<and> cfg_threshold c \<le> sp_confidence s) (dr_spans r)"
proof (rule repository_scan)
  show "local_only c" using assms by (simp add: local_only_def)
  show "o_enhancer (pattern_orchestrator sha256 hyperscan models coref enhancer c) = None"
    using assms(4) by (simp add: pattern_orchestrator_def new_orchestrator_def)
qed (rule assms(5))

lemma all_detectors_created:
  "map d_name (o_detectors (pattern_orchestrator sha256 hs ms cr en patterns_only)) =
    [''checksum'', ''secrets'', ''financial'', ''government'', ''pattern'', ''additional_patterns'']"
  by (simp add: pattern_orchestrator_def new_orchestrator_def detector_names_of_def patterns_only_def List.map_filter_simps
    created_def create_detector_def built_in_classes_def detector_of_def)

theorem repository_scan_sound_witness:
  "\<exists>r. detect_sync empty_engine (pattern_orchestrator id None [] None None patterns_only)
      (o_detectors (pattern_orchestrator id None [] None None patterns_only)) ''ssn 123-45-6789'' = Inr r \<and>
    disjoint_ordered (dr_spans r) \<and>
    list_all (\<lambda>s. anchored ''ssn 123-45-6789'' s \<and> cfg_threshold patterns_only \<le> sp_confidence s) (dr_spans r)"
  by (rule repository_scan_sound) (simp_all add: patterns_only_def)

end
