(* ===== verification/Context_Enhancer.thy ===== *)
theory Context_Enhancer
  imports Detector_Registry
begin

text \<open>
  The context enhancement of detections, \<^verbatim>\<open>src/openlabels/core/pipeline/context_enhancer.py\<close>: deny
  lists, exclusion patterns, hot words and the routing by confidence; then the orchestrator with the
  enhancer. Log messages and statistics are left out. Characters above 255 in the currency classes
  cannot occur in a text of the model and are left out of the classes.
\<close>

section \<open>Lists and patterns\<close>

definition NAME_DENY_LIST :: "string list" where
  "NAME_DENY_LIST =
     [''will'', ''may'', ''can'', ''ensure'', ''include'', ''require'', ''provide'', ''support'', ''involve'',
      ''advanced'', ''covered'', ''strong'', ''balance'', ''stress'', ''health'', ''involved'', ''details'',
      ''reference'', ''number'', ''identity'', ''reviewed'', ''signature'', ''signed'', ''reports'',
      ''requests'', ''verbalized'', ''confirmed'', ''understands'', ''agrees'', ''discussed'', ''prior'',
      ''reports prior'', ''requests bilingual'', ''admin'', ''user'', ''customer'', ''client'', ''patient'',
      ''member'', ''manager'', ''director'', ''agent'', ''officer'', ''employee'', ''staff'', ''null'',
      ''undefined'', ''none'', ''true'', ''false'', ''default'', ''input'', ''label'', ''form'', ''div'',
      ''span'', ''body'', ''e'', ''in'', ''of'', ''or'', ''an'', ''to'', ''dear'', ''account'', ''male'',
      ''female'', ''loan'', ''personal loan'', ''bitcoin'', ''bic'', ''iban'', ''presto'', ''apt'', ''sons'',
      ''global'', ''psychology'', ''human'', ''assurance'', ''done'', ''writing'', ''reaching out'', ''mr'',
      ''mrs'', ''ms'', ''miss'', ''dr'', ''prof'', ''dollar'', ''pound'', ''euro'', ''peso'', ''yen'', ''won'',
      ''rupee'', ''franc'', ''krona'', ''krone'', ''dinar'', ''dirham'', ''riyal'', ''ringgit'', ''baht'',
      ''pangender'', ''agender'', ''bigender'', ''genderfluid'', ''genderqueer'']"

definition USERNAME_DENY_LIST :: "string list" where
  "USERNAME_DENY_LIST =
     [''has'', ''number'', ''agent'', ''details'', ''reference'', ''and'', ''the'', ''for'', ''with'', ''from'',
      ''that'', ''this'', ''are'', ''was'', ''attempts'', ''using'', ''name'', ''ending'', ''credentials'',
      ''linked'', ''which'', ''auto'', ''update'', ''needed'', ''login'', ''password'', ''admin'', ''user'',
      ''system'', ''root'', ''guest'', ''test'']"

definition ADDRESS_DENY_LIST :: "string list" where
  "ADDRESS_DENY_LIST =
     [''maisonette'', ''apartment'', ''flat'', ''condo'', ''house'', ''building'', ''cottage'', ''bungalow'',
      ''villa'', ''penthouse'', ''studio'', ''loft'', ''operations'', ''department'', ''division'', ''unit'',
      ''section'', ''branch'', ''headquarters'', ''office'', ''floor'', ''room'', ''suite'', ''location'',
      ''site'', ''area'', ''zone'', ''region'', ''district'']"

definition MEDICATION_DENY_LIST :: "string list" where
  "MEDICATION_DENY_LIST =
     [''health'', ''healthy'', ''stress'', ''focus'', ''burn'', ''aged'', ''major'', ''assist'', ''care'',
      ''treatment'', ''therapy'', ''recovery'', ''wellness'', ''prevention'', ''diagnosis'', ''symptom'',
      ''condition'', ''disease'', ''disorder'', ''syndrome'', ''standardized'', ''clinical'', ''medical'',
      ''patient'', ''doctor'', ''nurse'']"

definition COMPANY_SUFFIXES :: "string list" where
  "COMPANY_SUFFIXES =
     [''inc'', ''inc.'', ''llc'', ''llc.'', ''ltd'', ''ltd.'', ''corp'', ''corp.'', ''corporation'', ''company'',
      ''co'', ''co.'', ''group'', ''holdings'', ''partners'', ''associates'', ''services'', ''solutions'',
      ''systems'', ''technologies'', ''tech'', ''labs'', ''studio'', ''studios'']"

type_synonym compiled = "bool \<times> string"

definition searches :: "compiled \<Rightarrow> string \<Rightarrow> bool" where
  "searches p s = found_in (fst p) (snd p) s"

definition match_end :: "compiled \<Rightarrow> string \<Rightarrow> nat option" where
  "match_end p s = (case re_compile (fst p) (snd p) of Some r \<Rightarrow> map_option (fst \<circ> snd) (re_match r s) | None \<Rightarrow> None)"

definition matches :: "compiled \<Rightarrow> string \<Rightarrow> bool" where
  "matches p s \<longleftrightarrow> match_end p s \<noteq> None"

definition MRN_EXCLUDE_PATTERNS :: "compiled list" where
  "MRN_EXCLUDE_PATTERNS =
     [(False, pat ''^`d+`.`d{2}$''),
      (False, pat ''^[$`xa3`xa5]`d''),
      (False, pat ''^[A-Z]{1,3}[$`xa3`xa5]`d''),
      (True, pat ''(Chrome|Safari|Firefox|AppleWebKit|Gecko|Mozilla|MSIE|Trident)[/`d`.]''),
      (False, pat ''^[a-zA-Z0-9]{30,}$'')]"

record hotword_rule =
  hw_pattern :: compiled
  hw_delta :: real
  hw_before :: int
  hw_after :: int
  hw_description :: string

definition hotword :: "string \<Rightarrow> real \<Rightarrow> int \<Rightarrow> int \<Rightarrow> string \<Rightarrow> hotword_rule" where
  "hotword regex delta before behind descr =
     \<lparr>hw_pattern = (True, pat regex), hw_delta = delta, hw_before = before, hw_after = behind, hw_description = descr\<rparr>"

definition NAME_POSITIVE_HOTWORDS :: "hotword_rule list" where
  "NAME_POSITIVE_HOTWORDS =
     [hotword (''`b(mr`.?|mrs`.?|ms`.?|miss|dr`.?|prof`.?)`s*$'') (25 / 100) 20 0 ''Title before name'',
      hotword (''`b(dear|attn:?|attention:?|to:?|from:?)`s*$'') (15 / 100) 30 0 ''Letter salutation'',
      hotword (''`b(patient|employee|customer|client|user):?`s*$'') (20 / 100) 30 0 ''Role label before name'',
      hotword (''`bname:?`s*$'') (30 / 100) 20 0 ''Explicit name label'',
      hotword (''`b(signed|sincerely|regards|best)`s*,?`s*$'') (20 / 100) 30 0 ''Letter closing'']"

definition NAME_NEGATIVE_HOTWORDS :: "hotword_rule list" where
  "NAME_NEGATIVE_HOTWORDS =
     [hotword (''^`s*(inc`.?|llc`.?|ltd`.?|corp`.?|co`.?|group|holdings)`b'') (- (35 / 100)) 0 30 ''Company suffix after'',
      hotword (''^`s*(street|st`.?|avenue|ave`.?|road|rd`.?|drive|dr`.?|lane|ln`.?|blvd`.?)`b'') (- (35 / 100)) 0 30
        ''Street suffix after'',
      hotword (''`b(from|purchased|ordered|shipped|via)`s+$'') (- (20 / 100)) 30 0 ''Transaction context'',
      hotword (''`b(at|in|to|from|through)`s+$'') (- (15 / 100)) 15 0 ''Location preposition'',
      hotword (''^`s*`x27s`s+(site|website|page|app|service|product|store)`b'') (- (30 / 100)) 0 40 ''Possessive + product'']"

definition COMPANY_PATTERN :: compiled where
  "COMPANY_PATTERN = (False, pat (''^[A-Z][a-z]+(?:[-`s][A-Z][a-z]+)*'' @ ''(?:,`s*[A-Z][a-z]+(?:[-`s][A-Z][a-z]+)*)*'' @
     ''`s+and`s+'' @ ''[A-Z][a-z]+(?:[-`s][A-Z][a-z]+)*'' @ ''`.?$''))"

definition GREETING_PATTERN :: compiled where
  "GREETING_PATTERN = (True, pat ''^(hi|hello|hey|dear|greetings)`s+'')"

definition HTML_PATTERN :: compiled where
  "HTML_PATTERN = (True, pat ''<[^>]+>|&[a-z]+;|</?`w+'')"

definition REFERENCE_CODE_PATTERN :: compiled where
  "REFERENCE_CODE_PATTERN = (True, pat ''^(REF|INV|DOC|ID|M|SVE)[-`s]?`d'')"

definition HAS_DIGITS_PATTERN :: compiled where
  "HAS_DIGITS_PATTERN = (False, pat ''`d'')"

definition ALL_CAPS_PATTERN :: compiled where
  "ALL_CAPS_PATTERN = (False, pat ''^[A-Z]{2,}$'')"

definition TRAILING_HTML_PATTERN :: compiled where
  "TRAILING_HTML_PATTERN = (False, pat ''<[^>]*>?`s*$|^`s*<[^>]*'')"

definition POSSESSIVE_PRODUCT_PATTERN :: compiled where
  "POSSESSIVE_PRODUCT_PATTERN = (True, pat ''`x27s`s+(site|website|page|app|service|product|store|account|system|platform)'')"

definition HYPHENATED_NAME_PATTERN :: compiled where
  "HYPHENATED_NAME_PATTERN = (False, pat ''^[A-Z][a-z]+(?:-[A-Z][a-z]+)+$'')"

definition BUSINESS_CONTEXT_WORDS :: compiled where
  "BUSINESS_CONTEXT_WORDS = (True, pat (''`b(inc`.?|llc`.?|ltd`.?|corp`.?|co`.?|company|corporation|'' @
     ''firm|group|partners|associates|holdings|'' @ ''agreement|contract|employed|employer|employment|'' @
     ''work(?:s|ed|ing)?`s+(?:at|for|with)|'' @ ''hired|hire|hiring|'' @ ''client|vendor|supplier|contractor|'' @
     ''invoice|payment|bill|account|'' @ ''business|enterprise|organization)`b''))"

definition NUMERAL_SUFFIX :: compiled where
  "NUMERAL_SUFFIX = (True, pat ''`s+(II|III|IV|V|VI|Jr`.?|Sr`.?)$'')"

section \<open>The enhancer\<close>

datatype verdict = Keep | Reject | Verify

record enhancement =
  en_action :: verdict
  en_confidence :: real
  en_reasons :: "string list"
  en_span :: "span option"

record enhancer =
  high_threshold :: real
  low_threshold :: real
  enable_deny_list :: bool
  enable_hotwords :: bool
  enable_exclusions :: bool
  enhanced_types :: "string list"

definition default_enhancer :: enhancer where
  "default_enhancer = \<lparr>high_threshold = 85 / 100, low_threshold = 35 / 100, enable_deny_list = True, enable_hotwords = True,
     enable_exclusions = True, enhanced_types = [''MRN'']\<rparr>"

definition context_window :: "string \<Rightarrow> span \<Rightarrow> int \<Rightarrow> int \<Rightarrow> string \<times> string" where
  "context_window doc s before behind =
     (py_slice doc (max 0 (sp_start s - before)) (sp_start s),
      py_slice doc (sp_end s) (min (int (length doc)) (sp_end s + behind)))"

definition rstrip_of :: "string \<Rightarrow> string \<Rightarrow> string" where
  "rstrip_of cs s = rev (dropWhile (\<lambda>c. c \<in> set cs) (rev s))"

definition person_types :: "string list" where
  "person_types = [''NAME'', ''PERSON'', ''PER'']"

text \<open>The suffixes are tried in the order of a set, which decides only which one the reason names.\<close>

definition check_deny_list :: "span \<Rightarrow> string option" where
  "check_deny_list s =
     (let text_lower = str_strip (str_lower (sp_text s)); span_text = str_strip (sp_text s); ty = str_upper (sp_entity_type s);
          normalized = rstrip_of ''.,;:!?'' text_lower
      in if ty = ''MRN'' then
           (if list_ex (\<lambda>p. searches p span_text) MRN_EXCLUDE_PATTERNS then Some (''mrn_exclude_pattern:'' @ take 30 span_text) else None)
         else
           let deny_list = (if ty \<in> set person_types then NAME_DENY_LIST else if ty = ''USERNAME'' then USERNAME_DENY_LIST
             else if ty = ''ADDRESS'' then ADDRESS_DENY_LIST else if ty = ''MEDICATION'' then MEDICATION_DENY_LIST else NAME_DENY_LIST)
           in if text_lower \<in> set deny_list then Some (''deny_list:'' @ text_lower)
              else if normalized \<in> set deny_list then Some (''deny_list:'' @ normalized)
              else if ty \<in> set person_types then
                map_option (\<lambda>x. ''company_suffix:'' @ x)
                  (List.find (\<lambda>x. ends_with text_lower x \<or> ends_with text_lower ('' '' @ x)) COMPANY_SUFFIXES)
              else None)"

definition normalize_span_text :: "string \<Rightarrow> string" where
  "normalize_span_text v = str_strip (rstrip_of ''.,;:!?'' v)"

text \<open>A reason to reject, a cleaned text and by how much its start moves.\<close>

definition check_exclusions :: "string \<Rightarrow> span \<Rightarrow> string option \<times> string option \<times> nat" where
  "check_exclusions doc s =
     (let v = normalize_span_text (sp_text s) in
      if searches HTML_PATTERN v then (Some (''html_content:'' @ take 30 v), None, 0)
      else if searches TRAILING_HTML_PATTERN v then (Some (''html_fragment:'' @ take 30 v), None, 0)
      else if matches REFERENCE_CODE_PATTERN v then (Some (''reference_code:'' @ v), None, 0)
      else if matches ALL_CAPS_PATTERN v \<and> 2 < length v then (Some (''all_caps:'' @ v), None, 0)
      else if matches COMPANY_PATTERN v then (Some (''company_pattern:'' @ v), None, 0)
      else if searches HAS_DIGITS_PATTERN v \<and> \<not> searches NUMERAL_SUFFIX v then (Some (''contains_digits:'' @ v), None, 0)
      else if searches POSSESSIVE_PRODUCT_PATTERN (py_slice doc (max 0 (sp_start s)) (min (int (length doc)) (sp_end s + 50))) then
        (Some (''possessive_product:'' @ v), None, 0)
      else if matches HYPHENATED_NAME_PATTERN v \<and>
          searches BUSINESS_CONTEXT_WORDS (py_slice doc (max 0 (sp_start s - 100)) (min (int (length doc)) (sp_end s + 100))) then
        (Some (''hyphenated_company:'' @ v), None, 0)
      else case match_end GREETING_PATTERN v of
        Some j \<Rightarrow>
          let cleaned = rstrip_of ''.,;:'' (str_strip (drop j v)) in
          if 2 \<le> length cleaned then (None, Some cleaned, j) else (Some (''greeting_only:'' @ v), None, 0)
      | None \<Rightarrow> if v \<noteq> sp_text s \<and> 2 \<le> length v then (None, Some v, 0) else (None, None, 0))"

text \<open>One rule of a list, raising up to one or lowering down to zero.\<close>

definition hotword_applies :: "string \<Rightarrow> span \<Rightarrow> hotword_rule \<Rightarrow> bool" where
  "hotword_applies doc s r =
     (case context_window doc s (hw_before r) (hw_after r) of (before, behind) \<Rightarrow>
        (0 < hw_before r \<and> searches (hw_pattern r) before) \<or> (0 < hw_after r \<and> searches (hw_pattern r) behind))"

definition hotword_step :: "(real \<Rightarrow> real) \<Rightarrow> string \<Rightarrow> string \<Rightarrow> span \<Rightarrow> real \<times> string list \<Rightarrow> hotword_rule \<Rightarrow> real \<times> string list" where
  "hotword_step clip sign doc s st r =
     (if hotword_applies doc s r then (clip (fst st + hw_delta r), snd st @ [sign @ ''hotword:'' @ hw_description r]) else st)"

definition apply_hotwords :: "string \<Rightarrow> span \<Rightarrow> real \<Rightarrow> real \<times> string list" where
  "apply_hotwords doc s conf =
     (if str_upper (sp_entity_type s) \<notin> set person_types then (conf, [])
      else foldl (hotword_step (max 0) ''-'' doc s)
        (foldl (hotword_step (min 1) ''+'' doc s) (conf, []) NAME_POSITIVE_HOTWORDS) NAME_NEGATIVE_HOTWORDS)"

definition rejected_for :: "string \<Rightarrow> enhancement" where
  "rejected_for reason = \<lparr>en_action = Reject, en_confidence = 0, en_reasons = [reason], en_span = None\<rparr>"

definition kept_as :: "real \<Rightarrow> string \<Rightarrow> enhancement" where
  "kept_as conf reason = \<lparr>en_action = Keep, en_confidence = conf, en_reasons = [reason], en_span = None\<rparr>"

definition routed :: "enhancer \<Rightarrow> string \<Rightarrow> span \<Rightarrow> real \<Rightarrow> string list \<Rightarrow> enhancement" where
  "routed e doc s conf0 reasons =
     (let (conf, hot) = (if enable_hotwords e then apply_hotwords doc s conf0 else (conf0, [])) in
      if high_threshold e \<le> conf then
        \<lparr>en_action = Keep, en_confidence = conf, en_reasons = reasons @ hot @ [''high_confidence''], en_span = Some s\<rparr>
      else if conf \<le> low_threshold e then
        \<lparr>en_action = Reject, en_confidence = conf, en_reasons = reasons @ hot @ [''low_confidence''], en_span = Some s\<rparr>
      else \<lparr>en_action = Verify, en_confidence = conf, en_reasons = reasons @ hot @ [''needs_llm''], en_span = Some s\<rparr>)"

definition moved :: "span \<Rightarrow> nat \<Rightarrow> string \<Rightarrow> value_error + span" where
  "moved s offset v = span_post_init (TierEnum (sp_tier s))
     (s\<lparr>sp_start := sp_start s + int offset, sp_text := v, sp_end := sp_start s + int offset + int (length v)\<rparr>)"

definition enhance_span :: "enhancer \<Rightarrow> string \<Rightarrow> span \<Rightarrow> value_error + enhancement" where
  "enhance_span e doc s =
     (if str_upper (sp_entity_type s) \<notin> set (enhanced_types e) then Inr (kept_as (sp_confidence s) ''non_enhanced_type'')
      else (case (if enable_deny_list e then check_deny_list s else None) of
        Some reason \<Rightarrow> Inr (rejected_for reason)
      | None \<Rightarrow>
          if TIER_STRUCTURED \<le> sp_tier s then Inr (kept_as (sp_confidence s) ''high_tier'')
          else if \<not> enable_exclusions e then Inr (routed e doc s (sp_confidence s) [])
          else (case check_exclusions doc s of
              (Some reason, _, _) \<Rightarrow> Inr (rejected_for reason)
            | (None, None, _) \<Rightarrow> Inr (routed e doc s (sp_confidence s) [])
            | (None, Some cleaned, offset) \<Rightarrow>
                res_bind (moved s offset cleaned)
                  (\<lambda>s'. Inr (routed e doc s' (sp_confidence s) [''greeting_stripped:'' @ cleaned])))))"

definition revised :: "span \<Rightarrow> enhancement \<Rightarrow> value_error + span option" where
  "revised s r =
     (let s' = (case en_span r of Some x \<Rightarrow> x | None \<Rightarrow> s) in
      case en_action r of
        Keep \<Rightarrow> map_sum id Some (span_post_init (TierEnum (sp_tier s')) (s'\<lparr>sp_confidence := en_confidence r\<rparr>))
      | Reject \<Rightarrow> Inr None
      | Verify \<Rightarrow> map_sum id Some (span_post_init (TierEnum (sp_tier s'))
          (s'\<lparr>sp_confidence := en_confidence r, sp_needs_review := True, sp_review_reason := Some ''llm_verification''\<rparr>)))"

fun enhance :: "enhancer \<Rightarrow> string \<Rightarrow> span list \<Rightarrow> value_error + span list" where
  "enhance e doc [] = Inr []"
| "enhance e doc (s # ss) =
     res_bind (enhance_span e doc s) (\<lambda>r.
     res_bind (revised s r) (\<lambda>x.
     res_bind (enhance e doc ss) (\<lambda>rest. Inr (case x of Some s' \<Rightarrow> s' # rest | None \<Rightarrow> rest))))"


section \<open>What enhancement keeps\<close>

text \<open>A revised span lies in the one it comes from.\<close>

definition inside :: "span \<Rightarrow> span \<Rightarrow> bool" where
  "inside s s' \<longleftrightarrow> sp_start s \<le> sp_start s' \<and> sp_end s' \<le> sp_end s \<and> sp_entity_type s' = sp_entity_type s \<and>
     sp_tier s' = sp_tier s \<and> wf_span s'"

lemma inside_self: "wf_span s \<Longrightarrow> inside s s"
  by (simp add: inside_def)

lemma length_dropWhile_le': "length (dropWhile P xs) \<le> length xs"
  by (induction xs) auto

lemma length_strip: "length (str_strip v) \<le> length v"
  using length_dropWhile_le' [of is_space "rev (dropWhile is_space v)"] length_dropWhile_le' [of is_space v]
  by (simp add: str_strip_def)

lemma length_rstrip: "length (rstrip_of cs v) \<le> length v"
  using length_dropWhile_le' [of "\<lambda>c. c \<in> set cs" "rev v"] by (simp add: rstrip_of_def)

lemma length_normalized: "length (normalize_span_text v) \<le> length v"
  using length_strip [of "rstrip_of ''.,;:!?'' v"] length_rstrip [of "''.,;:!?''" v] by (simp add: normalize_span_text_def)

lemma match_end_le: "match_end p v = Some j \<Longrightarrow> j \<le> length v"
  using match_at_ok by (fastforce simp: match_end_def re_match_def match_ok_def split: option.splits)

lemma cleaned_shorter:
  assumes "check_exclusions doc s = (None, Some v, k)"
  shows "2 \<le> length v \<and> k + length v \<le> length (sp_text s)"
proof -
  let ?n = "normalize_span_text (sp_text s)"
  have "k = 0 \<and> v = ?n \<and> 2 \<le> length v \<or>
    match_end GREETING_PATTERN ?n = Some k \<and> v = rstrip_of ''.,;:'' (str_strip (drop k ?n)) \<and> 2 \<le> length v"
    using assms by (auto simp: check_exclusions_def Let_def split: if_splits option.splits)
  moreover have "length (rstrip_of ''.,;:'' (str_strip (drop k ?n))) \<le> length (drop k ?n)"
    using length_rstrip [of "''.,;:''"] length_strip [of "drop k ?n"] le_trans by blast
  ultimately show ?thesis
    using match_end_le [of GREETING_PATTERN ?n k] length_normalized [of "sp_text s"] by auto
qed

lemma foldl_keeps: "(\<And>st r. r \<in> set rs \<Longrightarrow> P st \<Longrightarrow> P (f st r)) \<Longrightarrow> P st \<Longrightarrow> P (foldl f st rs)"
  by (induction rs arbitrary: st) auto

lemma apply_hotwords_unit: "unit_interval c \<Longrightarrow> unit_interval (fst (apply_hotwords doc s c))"
proof -
  assume c: "unit_interval c"
  have "unit_interval (fst (foldl (hotword_step (min 1) ''+'' doc s) (c, []) NAME_POSITIVE_HOTWORDS))"
    by (rule foldl_keeps [of _ "\<lambda>st. unit_interval (fst st)"])
      (use c in \<open>auto simp: NAME_POSITIVE_HOTWORDS_def hotword_def hotword_step_def unit_interval_def\<close>)
  then have "unit_interval (fst (foldl (hotword_step (max 0) ''-'' doc s)
      (foldl (hotword_step (min 1) ''+'' doc s) (c, []) NAME_POSITIVE_HOTWORDS) NAME_NEGATIVE_HOTWORDS))"
    by (rule foldl_keeps [of _ "\<lambda>st. unit_interval (fst st)", rotated])
      (auto simp: NAME_NEGATIVE_HOTWORDS_def hotword_def hotword_step_def unit_interval_def)
  then show ?thesis using c by (simp add: apply_hotwords_def)
qed

definition sound_answer :: "span \<Rightarrow> enhancement \<Rightarrow> bool" where
  "sound_answer s r \<longleftrightarrow> unit_interval (en_confidence r) \<and> (case en_span r of Some s' \<Rightarrow> inside s s' | None \<Rightarrow> True)"

lemma routed_sound: "inside s s' \<Longrightarrow> unit_interval c \<Longrightarrow> sound_answer s (routed e doc s' c rs)"
  using apply_hotwords_unit [of c doc s'] by (auto simp: routed_def sound_answer_def Let_def split: prod.split)

lemma span_post_init_ok: "wf_span s \<Longrightarrow> span_post_init (TierEnum (sp_tier s)) s = Inr s"
  by (simp add: span_post_init_characterised)

lemma moved_inside:
  assumes "wf_span s" and "2 \<le> length v" and "k + length v \<le> length (sp_text s)"
  shows "\<exists>s'. moved s k v = Inr s' \<and> inside s s'"
proof -
  let ?s = "s\<lparr>sp_start := sp_start s + int k, sp_text := v, sp_end := sp_start s + int k + int (length v)\<rparr>"
  have "wf_span ?s" using assms by (auto simp: wf_span_def)
  then show ?thesis using span_post_init_ok [of ?s] assms by (auto simp: moved_def inside_def wf_span_def)
qed

lemma wf_unit: "wf_span s \<Longrightarrow> unit_interval (sp_confidence s)"
  by (simp add: wf_span_def unit_interval_def)

lemma enhance_span_sound:
  assumes "wf_span s"
  shows "\<exists>r. enhance_span e doc s = Inr r \<and> sound_answer s r"
proof -
  have simple: "sound_answer s (kept_as (sp_confidence s) w)" "sound_answer s (rejected_for w)"
    "sound_answer s (routed e doc s (sp_confidence s) [])" for w
    using assms wf_unit [OF assms] routed_sound [OF inside_self [OF assms]]
    by (simp_all add: sound_answer_def kept_as_def rejected_for_def unit_interval_def)
  obtain why cleaned k where x: "check_exclusions doc s = (why, cleaned, k)" by (cases "check_exclusions doc s")
  show ?thesis
  proof (cases "why = None \<and> cleaned \<noteq> None")
    case True
    then obtain v where v: "cleaned = Some v" by auto
    obtain s' where s': "moved s k v = Inr s'" "inside s s'"
      using moved_inside [OF assms] cleaned_shorter x True v by blast
    then have "sound_answer s (routed e doc s' (sp_confidence s) [''greeting_stripped:'' @ v])"
      using routed_sound wf_unit [OF assms] by blast
    then show ?thesis using simple x True v s'(1) by (auto simp: enhance_span_def split: option.split)
  next
    case False
    then show ?thesis using simple x by (auto simp: enhance_span_def split: option.split)
  qed
qed

lemma revised_sound:
  assumes "wf_span s" and "sound_answer s r"
  shows "\<exists>x. revised s r = Inr x \<and> (\<forall>s'. x = Some s' \<longrightarrow> inside s s')"
proof -
  define s' where "s' = (case en_span r of Some x \<Rightarrow> x | None \<Rightarrow> s)"
  have s': "inside s s'" using assms inside_self by (auto simp: s'_def sound_answer_def split: option.split_asm option.split)
  have kept: "wf_span (s'\<lparr>sp_confidence := en_confidence r\<rparr>)"
    "wf_span (s'\<lparr>sp_confidence := en_confidence r, sp_needs_review := True, sp_review_reason := Some w\<rparr>)" for w
    using s' assms(2) by (auto simp: inside_def wf_span_def sound_answer_def unit_interval_def)
  show ?thesis
  proof (cases "en_action r")
    case Keep
    then show ?thesis using s' span_post_init_ok [OF kept(1)] kept(1)
      by (simp add: revised_def s'_def [symmetric] inside_def)
  next
    case Verify
    then show ?thesis using s' span_post_init_ok [OF kept(2)] kept(2)
      by (simp add: revised_def s'_def [symmetric] inside_def)
  qed (simp add: revised_def)
qed

definition enhanced :: "enhancer \<Rightarrow> string \<Rightarrow> span \<Rightarrow> span option" where
  "enhanced e doc s =
     (case enhance_span e doc s of
        Inr r \<Rightarrow> (case revised s r of Inr x \<Rightarrow> x | Inl _ \<Rightarrow> None)
      | Inl _ \<Rightarrow> None)"

lemma enhanced_inside: "wf_span s \<Longrightarrow> enhanced e doc s = Some s' \<Longrightarrow> inside s s'"
  using enhance_span_sound [of s e doc] revised_sound [of s] by (fastforce simp: enhanced_def)

lemma enhance_maps:
  "list_all wf_span ss \<Longrightarrow> enhance e doc ss = Inr (List.map_filter (enhanced e doc) ss)"
proof (induction ss)
  case (Cons s ss)
  then obtain r where r: "enhance_span e doc s = Inr r" "sound_answer s r" using enhance_span_sound [of s e doc] by auto
  then obtain x where "revised s r = Inr x" using revised_sound [of s r] Cons.prems by auto
  then show ?case using r(1) Cons by (simp add: enhanced_def split: option.split)
qed simp

lemma map_filter_member: "x \<in> set (List.map_filter f xs) \<longleftrightarrow> (\<exists>y \<in> set xs. f y = Some x)"
  by (induction xs) (auto split: option.splits)

lemma map_filter_ordered:
  assumes "\<And>s s'. s \<in> set ss \<Longrightarrow> f s = Some s' \<Longrightarrow> inside s s'" and "disjoint_ordered ss"
  shows "disjoint_ordered (List.map_filter f ss)"
  using assms
proof (induction ss)
  case (Cons s ss)
  have rest: "disjoint_ordered (List.map_filter f ss)"
    using Cons.IH Cons.prems by (simp add: disjoint_ordered_def)
  show ?case
  proof (cases "f s")
    case (Some s')
    have in_s: "inside s s'" using Cons.prems(1) Some by simp
    have "sp_end s' \<le> sp_start t'" if "t' \<in> set (List.map_filter f ss)" for t'
    proof -
      obtain t where t: "t \<in> set ss" "f t = Some t'" using \<open>t' \<in> set (List.map_filter f ss)\<close> by (auto simp: map_filter_member)
      then have "inside t t'" "sp_end s \<le> sp_start t" using Cons.prems by (auto simp: disjoint_ordered_def)
      then show ?thesis using in_s by (simp add: inside_def)
    qed
    then show ?thesis using rest in_s Some by (auto simp: disjoint_ordered_def inside_def)
  qed (use rest in simp)
qed simp

lemma not_enhanced_kept:
  assumes "wf_span s" and "str_upper (sp_entity_type s) \<notin> set (enhanced_types e)"
  shows "enhanced e doc s = Some s"
proof -
  have "span_post_init (TierEnum (sp_tier s)) (s\<lparr>sp_confidence := sp_confidence s\<rparr>) = Inr s"
    using span_post_init_ok [OF assms(1)] by simp
  then show ?thesis using assms(2) by (simp add: enhanced_def enhance_span_def kept_as_def revised_def)
qed


lemma not_enhanced_filter:
  assumes "list_all wf_span ss"
  shows "filter (\<lambda>s. str_upper (sp_entity_type s) \<notin> set (enhanced_types e)) (List.map_filter (enhanced e doc) ss) =
    filter (\<lambda>s. str_upper (sp_entity_type s) \<notin> set (enhanced_types e)) ss"
  using assms
proof (induction ss)
  case (Cons s ss)
  then have rest: "filter (\<lambda>s. str_upper (sp_entity_type s) \<notin> set (enhanced_types e)) (List.map_filter (enhanced e doc) ss) =
    filter (\<lambda>s. str_upper (sp_entity_type s) \<notin> set (enhanced_types e)) ss" by simp
  show ?case
  proof (cases "str_upper (sp_entity_type s) \<in> set (enhanced_types e)")
    case True
    then have "sp_entity_type s' = sp_entity_type s" if "enhanced e doc s = Some s'" for s'
      using enhanced_inside [of s e doc s'] that Cons.prems by (simp add: inside_def)
    then show ?thesis using rest True by (auto split: option.split)
  next
    case False
    then show ?thesis using rest not_enhanced_kept [of s e doc] Cons.prems by simp
  qed
qed simp

text \<open>
  Enhancement never raises on the spans of a resolved text. The answer is ordered and free of
  overlaps again, each of its spans lies in a span it was made from and keeps type and tier, and
  the spans whose type is not enhanced are exactly those of the input.
\<close>

theorem enhancement_sound:
  assumes "disjoint_ordered ss"
  shows "\<exists>out. enhance e doc ss = Inr out \<and> disjoint_ordered out \<and> list_all (\<lambda>s'. list_ex (\<lambda>s. inside s s') ss) out \<and>
    filter (\<lambda>s. str_upper (sp_entity_type s) \<notin> set (enhanced_types e)) out =
    filter (\<lambda>s. str_upper (sp_entity_type s) \<notin> set (enhanced_types e)) ss"
proof -
  have wf: "list_all wf_span ss" using assms by (simp add: disjoint_ordered_def)
  then have made: "inside s s'" if "s \<in> set ss" "enhanced e doc s = Some s'" for s s'
    using enhanced_inside that by (simp add: list_all_iff)
  then have "list_all (\<lambda>s'. list_ex (\<lambda>s. inside s s') ss) (List.map_filter (enhanced e doc) ss)"
    unfolding list_all_iff list_ex_iff using map_filter_member [of _ "enhanced e doc" ss] by fast
  then show ?thesis
    using enhance_maps [OF wf] map_filter_ordered [OF made assms] not_enhanced_filter [OF wf] by blast
qed

section \<open>Detection with the enhancer\<close>

definition enhancer_step :: "enhancer \<Rightarrow> string \<Rightarrow> span list \<Rightarrow> py_exn + span list" where
  "enhancer_step e doc ss = as_value_error (enhance e doc ss)"

definition enhanced_orchestrator ::
    "(nat list \<Rightarrow> nat list) \<Rightarrow> detector option \<Rightarrow> detector list \<Rightarrow>
      (string \<Rightarrow> span list \<Rightarrow> py_exn + span list) option \<Rightarrow> enhancer \<Rightarrow> detection_config \<Rightarrow> orchestrator" where
  "enhanced_orchestrator sha256 hyperscan models coref e c =
     pattern_orchestrator sha256 hyperscan models coref (Some (enhancer_step e)) c"

lemma no_step: "optional_step None doc ss = Inr ss"
  by (simp add: optional_step_def)

lemma detect_sync_enhancer:
  assumes "str_strip doc \<noteq> []"
  shows "detect_sync eng o' finished doc =
    res_bind (detect_sync eng (o'\<lparr>o_enhancer := None\<rparr>) finished doc) (\<lambda>r.
    res_bind (optional_step (o_enhancer o') doc (dr_spans r)) (\<lambda>p.
      Inr (r\<lparr>dr_spans := p, dr_entity_counts := count_entities p,
        dr_policy_result := evaluate_spans eng (enable_policy (o_config o')) p\<rparr>)))"
proof (cases "collect (\<lambda>d. run_detector handled_by_orchestrator d doc) handled_by_orchestrator finished")
  case (Inr x)
  obtain all_spans used where x: "x = (all_spans, used)" by (cases x)
  show ?thesis
  proof (cases "as_value_error (post_process (cfg_threshold (o_config o')) all_spans)")
    case processed: (Inr p)
    show ?thesis
      using assms Inr x processed by (cases "optional_step (o_coref o') doc p") (simp_all add: detect_sync_def no_step)
  qed (use assms Inr x in \<open>simp add: detect_sync_def\<close>)
qed (use assms in \<open>simp add: detect_sync_def\<close>)

lemma enhanced_plain:
  "(enhanced_orchestrator sha256 hs ms cr e c)\<lparr>o_enhancer := None\<rparr> = pattern_orchestrator sha256 hs ms cr None c"
  by (simp add: enhanced_orchestrator_def pattern_orchestrator_def new_orchestrator_def)

lemma enhancer_step_sound:
  assumes "disjoint_ordered ss"
  shows "\<exists>out. optional_step (o_enhancer (enhanced_orchestrator sha256 hs ms cr e c)) doc ss = Inr out \<and> disjoint_ordered out \<and>
    filter (\<lambda>s. str_upper (sp_entity_type s) \<notin> set (enhanced_types e)) out =
    filter (\<lambda>s. str_upper (sp_entity_type s) \<notin> set (enhanced_types e)) ss"
proof -
  have wf: "list_all wf_span ss" using assms by (simp add: disjoint_ordered_def)
  then have "disjoint_ordered (List.map_filter (enhanced e doc) ss)"
    by (intro map_filter_ordered [OF enhanced_inside assms]) (simp_all add: list_all_iff)
  then show ?thesis
    using enhance_maps [OF wf, of e doc] not_enhanced_filter [OF wf, of e doc] assms
    by (simp add: enhanced_orchestrator_def pattern_orchestrator_def new_orchestrator_def optional_step_def enhancer_step_def as_value_error_def)
qed

text \<open>
  With the context enhancer, and without the accelerated detector, the models and the
  coreference, the scan of the repository still always answers, without
  overlaps, and spans of the types that are not enhanced carry the text at their position and meet
  the threshold.
\<close>

theorem enhanced_scan_sound:
  assumes "local_only c"
    and "set finished \<subseteq> set (o_detectors (enhanced_orchestrator sha256 hyperscan models coref e c))"
  shows "\<exists>r. detect_sync eng (enhanced_orchestrator sha256 hyperscan models coref e c) finished doc = Inr r \<and>
    disjoint_ordered (dr_spans r) \<and>
    list_all (\<lambda>s. str_upper (sp_entity_type s) \<notin> set (enhanced_types e) \<longrightarrow> anchored doc s \<and> cfg_threshold c \<le> sp_confidence s)
      (dr_spans r)"
proof (cases "str_strip doc = []")
  case True
  then show ?thesis by (simp add: detect_sync_def no_detection_def)
next
  case False
  let ?plain = "pattern_orchestrator sha256 hyperscan models coref None c"
  have "o_enhancer ?plain = None" by (simp add: pattern_orchestrator_def new_orchestrator_def)
  moreover have "set finished \<subseteq> set (o_detectors ?plain)"
    using assms(2) unfolding enhanced_orchestrator_def pattern_orchestrator_def new_orchestrator_def orchestrator.simps .
  ultimately obtain r where r: "detect_sync eng ?plain finished doc = Inr r" "disjoint_ordered (dr_spans r)"
    "list_all (\<lambda>s. anchored doc s \<and> cfg_threshold c \<le> sp_confidence s) (dr_spans r)"
    using repository_scan [OF assms(1)] by blast
  obtain out where out: "optional_step (o_enhancer (enhanced_orchestrator sha256 hyperscan models coref e c)) doc (dr_spans r) = Inr out"
    "disjoint_ordered out" "filter (\<lambda>s. str_upper (sp_entity_type s) \<notin> set (enhanced_types e)) out =
      filter (\<lambda>s. str_upper (sp_entity_type s) \<notin> set (enhanced_types e)) (dr_spans r)"
    using enhancer_step_sound [OF r(2)] by blast
  have "set (filter (\<lambda>s. str_upper (sp_entity_type s) \<notin> set (enhanced_types e)) out) \<subseteq> set (dr_spans r)"
    unfolding out(3) by auto
  then show ?thesis
    using detect_sync_enhancer [OF False, of eng "enhanced_orchestrator sha256 hyperscan models coref e c" finished] r out(1,2)
    by (auto simp: enhanced_plain list_all_iff)
qed

text \<open>A configuration with the enhancer, and a text in which a record number is found.\<close>

theorem enhanced_scan_sound_witness:
  "\<exists>r. detect_sync empty_engine
      (enhanced_orchestrator id None [] None default_enhancer (patterns_only\<lparr>enable_context_enhancement := True\<rparr>))
      (o_detectors (enhanced_orchestrator id None [] None default_enhancer (patterns_only\<lparr>enable_context_enhancement := True\<rparr>)))
      ''MRN: 12345678'' = Inr r \<and> disjoint_ordered (dr_spans r) \<and>
    list_all (\<lambda>s. str_upper (sp_entity_type s) \<notin> set (enhanced_types default_enhancer) \<longrightarrow>
      anchored ''MRN: 12345678'' s \<and> cfg_threshold (patterns_only\<lparr>enable_context_enhancement := True\<rparr>) \<le> sp_confidence s) (dr_spans r)"
  by (rule enhanced_scan_sound) (simp_all add: local_only_def patterns_only_def)

section \<open>What becomes of record numbers\<close>

lemma suffix_needs_blank:
  assumes "searches NUMERAL_SUFFIX v"
  shows "\<exists>c \<in> set v. is_space c"
proof -
  have "case re_compile (fst NUMERAL_SUFFIX) (snd NUMERAL_SUFFIX) of
      Some (No_Case (Seq (Rep g lo hi (Cls False [Space])) q)) \<Rightarrow> 0 < lo | _ \<Rightarrow> False"
    by code_simp
  then obtain g lo hi q where q: "0 < lo"
    "re_compile (fst NUMERAL_SUFFIX) (snd NUMERAL_SUFFIX) = Some (No_Case (Seq (Rep g lo hi (Cls False [Space])) q))"
    by (auto split: option.splits rx.splits list.splits class_item.splits bool.splits)
  then have "re_search (No_Case (Seq (Rep g lo hi (Cls False [Space])) q)) v \<noteq> None"
    using assms by (simp add: searches_def found_in_def)
  then obtain i j where "ends (Rep g lo hi (Cls False [Space])) v True i j" unfolding re_search_None by auto
  then obtain n where n: "lo \<le> n" "(ends (Cls False [Space]) v True ^^ n) i j" by (auto simp: repeats_ok_def)
  then obtain n' where "n = Suc n'" using q(1) by (cases n) auto
  then obtain k where "ends (Cls False [Space]) v True i k" using n(2) by (blast elim: relpowp_Suc_E2)
  then show ?thesis by (auto simp: class_matches_def)
qed

lemma digits_found:
  assumes "c \<in> set v" and "is_digit c"
  shows "searches HAS_DIGITS_PATTERN v"
proof -
  have "re_compile (fst HAS_DIGITS_PATTERN) (snd HAS_DIGITS_PATTERN) = Some (Cls False [Digit])" by code_simp
  moreover obtain i where "i < length v" "v ! i = c" using assms(1) by (auto simp: in_set_conv_nth)
  then have "ends (Cls False [Digit]) v False i (i + 1)" using assms(2) by (simp add: class_matches_def)
  then have "re_search (Cls False [Digit]) v \<noteq> None" using \<open>i < length v\<close> unfolding re_search_None by (metis less_imp_le)
  ultimately show ?thesis by (simp add: searches_def found_in_def)
qed

lemma dropWhile_keeps: "c \<in> set v \<Longrightarrow> \<not> P c \<Longrightarrow> c \<in> set (dropWhile P v)"
  by (induction v) auto

lemma normalized_keeps:
  assumes "c \<in> set v" and "is_digit c"
  shows "c \<in> set (normalize_span_text v)"
proof -
  have "c \<notin> set ''.,;:!?''" "\<not> is_space c" using assms(2) by (auto simp: is_digit_def is_space_def chr_code_def)
  then show ?thesis using assms(1) by (simp add: normalize_span_text_def str_strip_def rstrip_of_def dropWhile_keeps)
qed

lemma normalized_subset: "set (normalize_span_text v) \<subseteq> set v"
  by (auto simp: normalize_span_text_def str_strip_def rstrip_of_def dest!: set_dropWhileD)

text \<open>
  With its default settings the enhancer rejects every record number found by a pattern that has
  a digit and no blank, whatever its confidence: the exclusion of texts with digits was made for
  names, while record numbers are the only type the enhancer looks at.
\<close>

theorem record_numbers_rejected:
  assumes "str_upper (sp_entity_type s) = ''MRN''" and "sp_tier s < TIER_STRUCTURED"
    and "list_ex is_digit (sp_text s)" and "\<not> list_ex is_space (sp_text s)"
  shows "\<exists>reason. enhance_span default_enhancer doc s = Inr (rejected_for reason)"
proof -
  let ?v = "normalize_span_text (sp_text s)"
  have "searches HAS_DIGITS_PATTERN ?v"
    using assms(3) normalized_keeps digits_found by (auto simp: list_ex_iff)
  moreover have "\<not> searches NUMERAL_SUFFIX ?v"
    using assms(4) suffix_needs_blank [of ?v] normalized_subset [of "sp_text s"] by (auto simp: list_ex_iff)
  ultimately have "\<exists>reason. check_exclusions doc s = (Some reason, None, 0)"
    by (simp add: check_exclusions_def Let_def)
  then show ?thesis using assms(1,2) by (auto simp: enhance_span_def default_enhancer_def split: option.split)
qed


theorem record_numbers_rejected_witness:
  "\<exists>reason. enhance_span default_enhancer ''MRN: 12345678'' (ex_span 5 ''12345678'' ''MRN'' (95 / 100) TIER_PATTERN) =
    Inr (rejected_for reason)"
  by (rule record_numbers_rejected) (simp_all add: ex_span_def less_tier_def, code_simp+)

theorem enhancement_sound_witness:
  "\<exists>out. enhance default_enhancer ''ann 555'' [ex_span 0 ''ann'' ''NAME'' 1 TIER_ML, ex_span 4 ''555'' ''MRN'' 1 TIER_ML] = Inr out \<and>
    disjoint_ordered out \<and>
    list_all (\<lambda>s'. list_ex (\<lambda>s. inside s s') [ex_span 0 ''ann'' ''NAME'' 1 TIER_ML, ex_span 4 ''555'' ''MRN'' 1 TIER_ML]) out \<and>
    filter (\<lambda>s. str_upper (sp_entity_type s) \<notin> set (enhanced_types default_enhancer)) out =
    filter (\<lambda>s. str_upper (sp_entity_type s) \<notin> set (enhanced_types default_enhancer))
      [ex_span 0 ''ann'' ''NAME'' 1 TIER_ML, ex_span 4 ''555'' ''MRN'' 1 TIER_ML]"
  by (rule enhancement_sound) (simp add: disjoint_ordered_def ex_span_def wf_span_def)


end
