(* ===== verification/Directory_Index.thy ===== *)
theory Directory_Index
  imports OL_Prelude
begin

text \<open>
  The index of directories, \<^verbatim>\<open>src/openlabels/jobs/index.py\<close> and \<^verbatim>\<open>delta_sync.py\<close>: building it from a
  listing, resolving the links to parents, and the incremental synchronisation with its
  checkpoint. The table is the list of its rows; the listing of an adapter is the list it yields;
  new identifiers come from a sequence; times are seconds, and the statistics leave out elapsed times.
  Where an update joins a row with several others the database may take any of them: the choice
  is a parameter.
\<close>

section \<open>Rows\<close>

record folder_info =
  fi_path :: string
  fi_name :: string
  fi_modified :: "real option"
  fi_inode :: "int option"
  fi_parent_inode :: "int option"
  fi_child_dirs :: "int option"
  fi_child_files :: "int option"

record dir_row =
  dt_id :: nat
  dt_tenant :: nat
  dt_target :: nat
  dt_ref :: "int option"
  dt_parent_ref :: "int option"
  dt_parent_id :: "nat option"
  dt_path :: string
  dt_name :: string
  dt_sd_hash :: "string option"
  dt_share :: "nat option"
  dt_modified :: "real option"
  dt_child_dirs :: "int option"
  dt_child_files :: "int option"
  dt_updated :: real

text \<open>\<open>PurePosixPath(path).name\<close>: the last component that is neither empty nor a dot.\<close>

definition posix_name :: "string \<Rightarrow> string" where
  "posix_name p = (let parts = filter (\<lambda>c. c \<noteq> [] \<and> c \<noteq> ''.'') (str_split (CHR ''/'') p) in if parts = [] then [] else last parts)"

definition folder_info_to_row :: "nat \<Rightarrow> nat \<Rightarrow> nat \<Rightarrow> real \<Rightarrow> folder_info \<Rightarrow> dir_row" where
  "folder_info_to_row i tenant target now info =
     \<lparr>dt_id = i, dt_tenant = tenant, dt_target = target, dt_ref = fi_inode info, dt_parent_ref = fi_parent_inode info,
      dt_parent_id = None, dt_path = fi_path info,
      dt_name = (if fi_name info \<noteq> [] then fi_name info else if posix_name (fi_path info) \<noteq> [] then posix_name (fi_path info) else fi_path info),
      dt_sd_hash = None, dt_share = None, dt_modified = fi_modified info, dt_child_dirs = fi_child_dirs info,
      dt_child_files = fi_child_files info, dt_updated = now\<rparr>"

definition key_of :: "dir_row \<Rightarrow> nat \<times> nat \<times> string" where
  "key_of r = (dt_tenant r, dt_target r, dt_path r)"

definition of_target :: "nat \<Rightarrow> nat \<Rightarrow> dir_row \<Rightarrow> bool" where
  "of_target tenant target r \<longleftrightarrow> dt_tenant r = tenant \<and> dt_target r = target"

section \<open>Statements on the table\<close>

datatype index_error = CardinalityViolation

text \<open>\<open>ON CONFLICT DO UPDATE\<close>: the row that is there keeps identifier, parent and share.\<close>

definition excluded_into :: "bool \<Rightarrow> dir_row \<Rightarrow> dir_row \<Rightarrow> dir_row" where
  "excluded_into clear_sd new old =
     old\<lparr>dt_ref := dt_ref new, dt_parent_ref := dt_parent_ref new, dt_name := dt_name new, dt_modified := dt_modified new,
       dt_child_dirs := dt_child_dirs new, dt_child_files := dt_child_files new, dt_updated := dt_updated new,
       dt_sd_hash := (if clear_sd then None else dt_sd_hash old)\<rparr>"

definition upsert_row :: "bool \<Rightarrow> dir_row list \<Rightarrow> dir_row \<Rightarrow> dir_row list" where
  "upsert_row clear_sd tbl new =
     (if key_of new \<in> set (map key_of tbl) then map (\<lambda>r. if key_of r = key_of new then excluded_into clear_sd new r else r) tbl
      else tbl @ [new])"

text \<open>One statement must not touch a row twice.\<close>

definition upsert_batch :: "bool \<Rightarrow> dir_row list \<Rightarrow> dir_row list \<Rightarrow> index_error + dir_row list" where
  "upsert_batch clear_sd rows tbl =
     (if distinct (map key_of rows) then Inr (foldl (upsert_row clear_sd) tbl rows) else Inl CardinalityViolation)"

definition refreshed :: "real \<Rightarrow> folder_info \<Rightarrow> dir_row \<Rightarrow> dir_row" where
  "refreshed now info r =
     r\<lparr>dt_modified := fi_modified info, dt_ref := fi_inode info, dt_parent_ref := fi_parent_inode info,
       dt_child_dirs := fi_child_dirs info, dt_child_files := fi_child_files info, dt_sd_hash := None, dt_updated := now\<rparr>"

definition apply_updates :: "real \<Rightarrow> (nat \<times> folder_info) list \<Rightarrow> dir_row list \<Rightarrow> dir_row list" where
  "apply_updates now ups tbl = map (\<lambda>r. case map_of ups (dt_id r) of Some info \<Rightarrow> refreshed now info r | None \<Rightarrow> r) tbl"

text \<open>The foreign key of the parent cascades: rows below deleted rows are deleted as well.\<close>

definition hangs_on :: "nat list \<Rightarrow> dir_row \<Rightarrow> bool" where
  "hangs_on gone r \<longleftrightarrow> (case dt_parent_id r of Some i \<Rightarrow> i \<in> set gone | None \<Rightarrow> False)"

fun cascade :: "nat \<Rightarrow> nat list \<Rightarrow> dir_row list \<Rightarrow> dir_row list" where
  "cascade 0 gone tbl = tbl"
| "cascade (Suc n) gone tbl =
     (let dead = filter (hangs_on gone) tbl; alive = filter (\<lambda>r. \<not> hangs_on gone r) tbl in
      if dead = [] then tbl else cascade n (map dt_id dead) alive)"

definition delete_rows :: "(dir_row \<Rightarrow> bool) \<Rightarrow> dir_row list \<Rightarrow> nat \<times> dir_row list" where
  "delete_rows P tbl =
     (let gone = filter P tbl; rest = filter (\<lambda>r. \<not> P r) tbl in (length gone, cascade (length rest) (map dt_id gone) rest))"

definition UPSERT_BATCH_SIZE :: nat where
  "UPSERT_BATCH_SIZE = 2000"

function delete_missing :: "nat \<Rightarrow> nat \<Rightarrow> string list \<Rightarrow> dir_row list \<Rightarrow> nat \<times> dir_row list" where
  "delete_missing tenant target paths tbl =
     (if paths = [] then (0, tbl)
      else
        let batch = take UPSERT_BATCH_SIZE paths;
          (n, tbl') = delete_rows (\<lambda>r. of_target tenant target r \<and> dt_path r \<in> set batch) tbl;
          (m, tbl'') = delete_missing tenant target (drop UPSERT_BATCH_SIZE paths) tbl'
        in (n + m, tbl''))"
  by pat_completeness auto
termination by (relation "measure (\<lambda>(_, _, paths, _). length paths)") (auto simp: UPSERT_BATCH_SIZE_def)

definition clear_directory_tree :: "nat \<Rightarrow> nat \<Rightarrow> dir_row list \<Rightarrow> nat \<times> dir_row list" where
  "clear_directory_tree tenant target tbl = delete_rows (of_target tenant target) tbl"

section \<open>Links to parents\<close>

definition ref_parents :: "nat \<Rightarrow> nat \<Rightarrow> dir_row list \<Rightarrow> dir_row \<Rightarrow> dir_row list" where
  "ref_parents tenant target tbl child =
     (if of_target tenant target child \<and> dt_parent_id child = None \<and> dt_parent_ref child \<noteq> None then
        filter (\<lambda>p. dt_parent_ref child = dt_ref p \<and> of_target tenant target p \<and> dt_id child \<noteq> dt_id p) tbl
      else [])"

text \<open>\<open>regexp_replace(path, '/[^/]*$', '')\<close>: without the last slash and what follows it.\<close>

definition cut_component :: "string \<Rightarrow> string" where
  "cut_component p = (if CHR ''/'' \<in> set p then rev (tl (dropWhile (\<lambda>c. c \<noteq> CHR ''/'') (rev p))) else p)"

definition parent_path :: "string \<Rightarrow> string" where
  "parent_path p = (if p \<noteq> [] \<and> last p = CHR ''/'' then cut_component (butlast p) @ ''/'' else cut_component p)"

definition path_parents :: "nat \<Rightarrow> nat \<Rightarrow> dir_row list \<Rightarrow> dir_row \<Rightarrow> dir_row list" where
  "path_parents tenant target tbl child =
     (if of_target tenant target child \<and> dt_parent_id child = None then
        filter (\<lambda>p. of_target tenant target p \<and> dt_id child \<noteq> dt_id p \<and> dt_path p = parent_path (dt_path child)) tbl
      else [])"

definition link :: "(dir_row list \<Rightarrow> dir_row) \<Rightarrow> (dir_row \<Rightarrow> dir_row list) \<Rightarrow> dir_row \<Rightarrow> dir_row" where
  "link pick parents r = (if parents r = [] then r else r\<lparr>dt_parent_id := Some (dt_id (pick (parents r)))\<rparr>)"

definition link_all :: "(dir_row list \<Rightarrow> dir_row) \<Rightarrow> (dir_row \<Rightarrow> dir_row list) \<Rightarrow> dir_row list \<Rightarrow> nat \<times> dir_row list" where
  "link_all pick parents tbl = (length (filter (\<lambda>r. parents r \<noteq> []) tbl), map (link pick parents) tbl)"

definition resolve_parent_ids :: "(dir_row list \<Rightarrow> dir_row) \<Rightarrow> nat \<Rightarrow> nat \<Rightarrow> dir_row list \<Rightarrow> nat \<times> dir_row list" where
  "resolve_parent_ids pick tenant target tbl = link_all pick (ref_parents tenant target tbl) tbl"

definition resolve_parent_ids_by_path :: "(dir_row list \<Rightarrow> dir_row) \<Rightarrow> nat \<Rightarrow> nat \<Rightarrow> dir_row list \<Rightarrow> nat \<times> dir_row list" where
  "resolve_parent_ids_by_path pick tenant target tbl = link_all pick (path_parents tenant target tbl) tbl"

definition resolve_parents :: "(dir_row list \<Rightarrow> dir_row) \<Rightarrow> nat \<Rightarrow> nat \<Rightarrow> dir_row list \<Rightarrow> nat \<times> dir_row list" where
  "resolve_parents pick tenant target tbl =
     (let (n, tbl') = resolve_parent_ids pick tenant target tbl;
          (m, tbl'') = resolve_parent_ids_by_path pick tenant target tbl'
      in (n + m, tbl''))"

section \<open>Building the index\<close>

fun insert_batches :: "bool \<Rightarrow> dir_row list \<Rightarrow> dir_row list \<Rightarrow> dir_row list \<Rightarrow> index_error + dir_row list" where
  "insert_batches clear_sd batch [] tbl = (if batch = [] then Inr tbl else upsert_batch clear_sd batch tbl)"
| "insert_batches clear_sd batch (r # rs) tbl =
     (if UPSERT_BATCH_SIZE \<le> length (batch @ [r]) then
        res_bind (upsert_batch clear_sd (batch @ [r]) tbl) (insert_batches clear_sd [] rs)
      else insert_batches clear_sd (batch @ [r]) rs tbl)"

definition new_rows :: "(nat \<Rightarrow> nat) \<Rightarrow> nat \<Rightarrow> nat \<Rightarrow> real \<Rightarrow> folder_info list \<Rightarrow> dir_row list" where
  "new_rows gen tenant target now listing =
     map (\<lambda>(k, info). folder_info_to_row (gen k) tenant target now info) (zip [0..<length listing] listing)"

text \<open>The security descriptors are collected by a step of its own, here a function on the table.\<close>

definition bootstrap_directory_tree ::
    "(nat \<Rightarrow> nat) \<Rightarrow> (dir_row list \<Rightarrow> dir_row) \<Rightarrow> (dir_row list \<Rightarrow> dir_row list) option \<Rightarrow>
      nat \<Rightarrow> nat \<Rightarrow> real \<Rightarrow> folder_info list \<Rightarrow> dir_row list \<Rightarrow> index_error + (nat \<times> nat \<times> dir_row list)" where
  "bootstrap_directory_tree gen pick collect tenant target now listing tbl =
     res_bind (insert_batches False [] (new_rows gen tenant target now listing) tbl) (\<lambda>tbl1.
       let (resolved, tbl2) = resolve_parents pick tenant target tbl1 in
       Inr (length listing, resolved, case collect of Some f \<Rightarrow> f tbl2 | None \<Rightarrow> tbl2))"

record index_stats =
  total_dirs :: nat
  with_parent_link :: nat
  with_sd_hash :: nat
  with_share :: nat
  last_updated :: "real option"

definition get_index_stats :: "nat \<Rightarrow> nat \<Rightarrow> dir_row list \<Rightarrow> index_stats" where
  "get_index_stats tenant target tbl =
     (let rows = filter (of_target tenant target) tbl in
      \<lparr>total_dirs = length rows,
       with_parent_link = length (filter (\<lambda>r. dt_parent_id r \<noteq> None) rows),
       with_sd_hash = length (filter (\<lambda>r. dt_sd_hash r \<noteq> None) rows),
       with_share = length (filter (\<lambda>r. dt_share r \<noteq> None) rows),
       last_updated = (if rows = [] then None else Some (Max (set (map dt_updated rows))))\<rparr>)"

section \<open>Checkpoints\<close>

record checkpoint =
  cp_tenant :: nat
  cp_target :: nat
  last_full_sync :: "real option"
  last_delta_sync :: "real option"
  dirs_at_last_sync :: nat
  delta_token :: "string option"
  usn_journal_cursor :: "int option"

definition same_target :: "checkpoint \<Rightarrow> checkpoint \<Rightarrow> bool" where
  "same_target c d \<longleftrightarrow> cp_tenant c = cp_tenant d \<and> cp_target c = cp_target d"

definition get_checkpoint :: "nat \<Rightarrow> nat \<Rightarrow> checkpoint list \<Rightarrow> checkpoint option" where
  "get_checkpoint tenant target cps = List.find (\<lambda>c. cp_tenant c = tenant \<and> cp_target c = target) cps"

definition upsert_checkpoint :: "checkpoint \<Rightarrow> checkpoint list \<Rightarrow> checkpoint list" where
  "upsert_checkpoint c cps =
     (if list_ex (same_target c) cps then map (\<lambda>d. if same_target c d then c else d) cps else cps @ [c])"

section \<open>Incremental synchronisation\<close>

definition load_existing_dirs :: "nat \<Rightarrow> nat \<Rightarrow> dir_row list \<Rightarrow> string \<Rightarrow> (nat \<times> real option) option" where
  "load_existing_dirs tenant target tbl =
     map_of (map (\<lambda>r. (dt_path r, dt_id r, dt_modified r)) (rev (filter (of_target tenant target) tbl)))"

definition unmodified :: "real option \<Rightarrow> real option \<Rightarrow> bool" where
  "unmodified old live = (case (old, live) of (Some a, Some b) \<Rightarrow> \<bar>b - a\<bar> < 1 | _ \<Rightarrow> False)"

record sync =
  s_rows :: "dir_row list"
  s_inserts :: "dir_row list"
  s_updates :: "(nat \<times> folder_info) list"
  s_inserted :: nat
  s_updated :: nat
  s_unchanged :: nat
  s_processed :: nat

definition flush_updates :: "real \<Rightarrow> sync \<Rightarrow> sync" where
  "flush_updates now st =
     st\<lparr>s_rows := apply_updates now (s_updates st) (s_rows st), s_updated := s_updated st + length (s_updates st), s_updates := []\<rparr>"

definition flush_inserts :: "sync \<Rightarrow> index_error + sync" where
  "flush_inserts st =
     res_bind (upsert_batch True (s_inserts st) (s_rows st)) (\<lambda>tbl.
       Inr (st\<lparr>s_rows := tbl, s_inserted := s_inserted st + length (s_inserts st), s_inserts := []\<rparr>))"

definition sync_folder ::
    "(nat \<Rightarrow> nat) \<Rightarrow> nat \<Rightarrow> nat \<Rightarrow> real \<Rightarrow> (string \<Rightarrow> (nat \<times> real option) option) \<Rightarrow> sync \<Rightarrow> folder_info \<Rightarrow> index_error + sync" where
  "sync_folder gen tenant target now existing st0 info =
     (let st = st0\<lparr>s_processed := s_processed st0 + 1\<rparr> in
      case existing (fi_path info) of
        Some (i, mtime) \<Rightarrow>
          if unmodified mtime (fi_modified info) then Inr (st\<lparr>s_unchanged := s_unchanged st + 1\<rparr>)
          else
            let st' = st\<lparr>s_updates := s_updates st @ [(i, info)]\<rparr> in
            Inr (if UPSERT_BATCH_SIZE \<le> length (s_updates st') then flush_updates now st' else st')
      | None \<Rightarrow>
          let st' = st\<lparr>s_inserts := s_inserts st @ [folder_info_to_row (gen (s_processed st0)) tenant target now info]\<rparr> in
          if UPSERT_BATCH_SIZE \<le> length (s_inserts st') then flush_inserts st' else Inr st')"

fun sync_folders ::
    "(nat \<Rightarrow> nat) \<Rightarrow> nat \<Rightarrow> nat \<Rightarrow> real \<Rightarrow> (string \<Rightarrow> (nat \<times> real option) option) \<Rightarrow> sync \<Rightarrow> folder_info list \<Rightarrow> index_error + sync" where
  "sync_folders gen tenant target now existing st [] = Inr st"
| "sync_folders gen tenant target now existing st (f # fs) =
     res_bind (sync_folder gen tenant target now existing st f) (\<lambda>st'. sync_folders gen tenant target now existing st' fs)"

record sync_result =
  r_rows :: "dir_row list"
  r_checkpoints :: "checkpoint list"
  r_inserted :: nat
  r_updated :: nat
  r_deleted :: nat
  r_unchanged :: nat
  r_total :: nat
  r_resolved :: nat

definition new_checkpoint :: "nat \<Rightarrow> nat \<Rightarrow> real \<Rightarrow> nat \<Rightarrow> checkpoint" where
  "new_checkpoint tenant target now n =
     \<lparr>cp_tenant = tenant, cp_target = target, last_full_sync = None, last_delta_sync = Some now,
      dirs_at_last_sync = n, delta_token = None, usn_journal_cursor = None\<rparr>"

text \<open>The paths to delete are a set in the code; here they are taken in the order of the table.\<close>

definition finish_sync ::
    "(dir_row list \<Rightarrow> dir_row) \<Rightarrow> (dir_row list \<Rightarrow> dir_row list) option \<Rightarrow>
      nat \<Rightarrow> nat \<Rightarrow> real \<Rightarrow> string list \<Rightarrow> dir_row list \<Rightarrow> checkpoint list \<Rightarrow> sync \<Rightarrow> sync_result" where
  "finish_sync pick collect tenant target now seen tbl cps st2 =
     (let st3 = (if s_updates st2 = [] then st2 else flush_updates now st2);
          missing = filter (\<lambda>p. p \<notin> set seen) (map dt_path (filter (of_target tenant target) tbl));
          (deleted, tbl4) = delete_missing tenant target missing (s_rows st3);
          (resolved, tbl5) = (if 0 < s_inserted st3 then resolve_parents pick tenant target tbl4 else (0, tbl4));
          tbl6 = (case collect of Some f \<Rightarrow> if 0 < s_inserted st3 \<or> 0 < s_updated st3 then f tbl5 else tbl5 | None \<Rightarrow> tbl5)
      in \<lparr>r_rows = tbl6, r_checkpoints = upsert_checkpoint (new_checkpoint tenant target now (length seen)) cps,
          r_inserted = s_inserted st3, r_updated = s_updated st3, r_deleted = deleted, r_unchanged = s_unchanged st3,
          r_total = length seen, r_resolved = resolved\<rparr>)"

definition start_sync :: "dir_row list \<Rightarrow> sync" where
  "start_sync tbl = \<lparr>s_rows = tbl, s_inserts = [], s_updates = [], s_inserted = 0, s_updated = 0, s_unchanged = 0, s_processed = 0\<rparr>"

definition delta_sync_directory_tree ::
    "(nat \<Rightarrow> nat) \<Rightarrow> (dir_row list \<Rightarrow> dir_row) \<Rightarrow> (dir_row list \<Rightarrow> dir_row list) option \<Rightarrow>
      nat \<Rightarrow> nat \<Rightarrow> real \<Rightarrow> folder_info list \<Rightarrow> dir_row list \<Rightarrow> checkpoint list \<Rightarrow> index_error + sync_result" where
  "delta_sync_directory_tree gen pick collect tenant target now listing tbl cps =
     res_bind (sync_folders gen tenant target now (load_existing_dirs tenant target tbl) (start_sync tbl) listing) (\<lambda>st1.
     res_bind (if s_inserts st1 = [] then Inr st1 else flush_inserts st1) (\<lambda>st2.
       Inr (finish_sync pick collect tenant target now (remdups (map fi_path listing)) tbl cps st2)))"

section \<open>Deleting\<close>

text \<open>Cascading removes only rows that are to go, if no other row hangs on one of them.\<close>

definition clear_of :: "nat set \<Rightarrow> dir_row \<Rightarrow> bool" where
  "clear_of S r \<longleftrightarrow> (case dt_parent_id r of Some i \<Rightarrow> i \<notin> S | None \<Rightarrow> True)"

definition separated :: "(dir_row \<Rightarrow> bool) \<Rightarrow> nat set \<Rightarrow> dir_row list \<Rightarrow> bool" where
  "separated Q S tbl \<longleftrightarrow> list_all (\<lambda>r. if Q r then dt_id r \<in> S else clear_of S r) tbl"

lemma hangs_clear: "set gone \<subseteq> S \<Longrightarrow> clear_of S r \<Longrightarrow> \<not> hangs_on gone r"
  by (auto simp: hangs_on_def clear_of_def split: option.splits)

lemma cascade_keeps:
  "separated Q S tbl \<Longrightarrow> set gone \<subseteq> S \<Longrightarrow>
    filter (\<lambda>r. \<not> Q r) (cascade n gone tbl) = filter (\<lambda>r. \<not> Q r) tbl \<and> set (cascade n gone tbl) \<subseteq> set tbl"
proof (induction n arbitrary: gone tbl)
  case (Suc n)
  let ?dead = "filter (hangs_on gone) tbl" and ?alive = "filter (\<lambda>r. \<not> hangs_on gone r) tbl"
  have dead: "Q r" if "r \<in> set tbl" "hangs_on gone r" for r
    using hangs_clear [OF Suc.prems(2), of r] Suc.prems(1) that by (auto simp: separated_def list_all_iff split: if_splits)
  then have "set (map dt_id ?dead) \<subseteq> S" using Suc.prems(1) by (auto simp: separated_def list_all_iff split: if_splits)
  moreover have "separated Q S ?alive" using Suc.prems(1) by (auto simp: separated_def list_all_iff)
  ultimately have "filter (\<lambda>r. \<not> Q r) (cascade n (map dt_id ?dead) ?alive) = filter (\<lambda>r. \<not> Q r) ?alive \<and>
      set (cascade n (map dt_id ?dead) ?alive) \<subseteq> set ?alive"
    by (intro Suc.IH)
  moreover have "filter (\<lambda>r. \<not> Q r) ?alive = filter (\<lambda>r. \<not> Q r) tbl"
    unfolding filter_filter using dead by (intro filter_cong refl) auto
  ultimately show ?case by (auto simp: Let_def)
qed simp

lemma delete_rows_keeps:
  assumes "separated Q S tbl" and "\<And>r. P r \<Longrightarrow> Q r"
  shows "filter (\<lambda>r. \<not> Q r) (snd (delete_rows P tbl)) = filter (\<lambda>r. \<not> Q r) tbl \<and>
    set (snd (delete_rows P tbl)) \<subseteq> {r \<in> set tbl. \<not> P r}"
proof -
  let ?rest = "filter (\<lambda>r. \<not> P r) tbl"
  have "separated Q S ?rest" using assms(1) by (auto simp: separated_def list_all_iff)
  moreover have "set (map dt_id (filter P tbl)) \<subseteq> S"
    using assms by (auto simp: separated_def list_all_iff split: if_splits)
  moreover have "filter (\<lambda>r. \<not> Q r) ?rest = filter (\<lambda>r. \<not> Q r) tbl"
    unfolding filter_filter using assms(2) by (intro filter_cong refl) auto
  ultimately show ?thesis
    using cascade_keeps [of Q S ?rest "map dt_id (filter P tbl)" "length ?rest"] by (auto simp: delete_rows_def Let_def)
qed

declare delete_missing.simps [simp del]

lemma delete_missing_keeps:
  assumes "separated Q S tbl" and "\<And>r. of_target t g r \<and> dt_path r \<in> set ps \<Longrightarrow> Q r"
  shows "filter (\<lambda>r. \<not> Q r) (snd (delete_missing t g ps tbl)) = filter (\<lambda>r. \<not> Q r) tbl \<and>
    set (snd (delete_missing t g ps tbl)) \<subseteq> {r \<in> set tbl. \<not> (of_target t g r \<and> dt_path r \<in> set ps)}"
  using assms
proof (induction t g ps tbl rule: delete_missing.induct)
  case (1 t g ps tbl)
  show ?case
  proof (cases "ps = []")
    case True
    then show ?thesis by (simp add: delete_missing.simps)
  next
    case False
    let ?b = "take UPSERT_BATCH_SIZE ps" and ?d = "drop UPSERT_BATCH_SIZE ps"
    let ?P = "\<lambda>r. of_target t g r \<and> dt_path r \<in> set ?b"
    have sets: "set ps = set ?b \<union> set ?d" by (metis append_take_drop_id set_append)
    obtain n tbl' where del: "delete_rows ?P tbl = (n, tbl')" by (cases "delete_rows ?P tbl")
    obtain m out where rest: "delete_missing t g ?d tbl' = (m, out)" by (cases "delete_missing t g ?d tbl'")
    have one: "filter (\<lambda>r. \<not> Q r) tbl' = filter (\<lambda>r. \<not> Q r) tbl" "set tbl' \<subseteq> {r \<in> set tbl. \<not> ?P r}"
      using delete_rows_keeps [OF "1.prems"(1), of ?P] "1.prems"(2) sets del by auto
    then have "separated Q S tbl'" using "1.prems"(1) by (auto simp: separated_def list_all_iff)
    then have "filter (\<lambda>r. \<not> Q r) out = filter (\<lambda>r. \<not> Q r) tbl' \<and>
        set out \<subseteq> {r \<in> set tbl'. \<not> (of_target t g r \<and> dt_path r \<in> set ?d)}"
      using "1.IH" [OF False refl del [symmetric] refl] "1.prems"(2) sets rest by auto
    then show ?thesis using one sets False del rest by (subst (1 2) delete_missing.simps) auto
  qed
qed

section \<open>What a synchronisation leaves\<close>

definition well_indexed :: "dir_row list \<Rightarrow> bool" where
  "well_indexed tbl \<longleftrightarrow> distinct (map dt_id tbl) \<and> distinct (map key_of tbl)"

definition fresh_ids :: "(nat \<Rightarrow> nat) \<Rightarrow> dir_row list \<Rightarrow> bool" where
  "fresh_ids gen tbl \<longleftrightarrow> inj gen \<and> range gen \<inter> dt_id ` set tbl = {}"

definition info_at :: "folder_info list \<Rightarrow> string \<Rightarrow> folder_info option" where
  "info_at listing p = List.find (\<lambda>f. fi_path f = p) listing"

definition changed :: "folder_info list \<Rightarrow> dir_row \<Rightarrow> bool" where
  "changed listing r \<longleftrightarrow> (case info_at listing (dt_path r) of Some f \<Rightarrow> \<not> unmodified (dt_modified r) (fi_modified f) | None \<Rightarrow> False)"

definition synced_row :: "nat \<Rightarrow> nat \<Rightarrow> real \<Rightarrow> folder_info list \<Rightarrow> dir_row \<Rightarrow> dir_row" where
  "synced_row tenant target now listing r =
     (if of_target tenant target r \<and> changed listing r then refreshed now (the (info_at listing (dt_path r))) r else r)"

text \<open>The rows of the folders that are not in the table yet, numbered by their place in the listing.\<close>

definition absent_rows :: "(nat \<Rightarrow> nat) \<Rightarrow> nat \<Rightarrow> nat \<Rightarrow> real \<Rightarrow> dir_row list \<Rightarrow> folder_info list \<Rightarrow> dir_row list" where
  "absent_rows gen tenant target now tbl listing =
     map (\<lambda>(k, f). folder_info_to_row (gen k) tenant target now f)
       (filter (\<lambda>(k, f). (tenant, target, fi_path f) \<notin> set (map key_of tbl)) (zip [0..<length listing] listing))"

definition stays :: "nat \<Rightarrow> nat \<Rightarrow> folder_info list \<Rightarrow> dir_row \<Rightarrow> bool" where
  "stays tenant target listing r \<longleftrightarrow> \<not> of_target tenant target r \<or> dt_path r \<in> set (map fi_path listing)"

text \<open>The reference: rows that are listed or belong to another target stay, refreshed when they changed.\<close>

definition synced :: "(nat \<Rightarrow> nat) \<Rightarrow> nat \<Rightarrow> nat \<Rightarrow> real \<Rightarrow> folder_info list \<Rightarrow> dir_row list \<Rightarrow> dir_row list" where
  "synced gen tenant target now listing tbl =
     map (synced_row tenant target now listing) (filter (stays tenant target listing) tbl) @ absent_rows gen tenant target now tbl listing"

definition unlinked :: "dir_row \<Rightarrow> dir_row" where
  "unlinked r = r\<lparr>dt_parent_id := None\<rparr>"

definition pending :: "real \<Rightarrow> sync \<Rightarrow> dir_row list" where
  "pending now st = apply_updates now (s_updates st) (s_rows st) @ s_inserts st"

lemma refreshed_simps [simp]:
  "dt_id (refreshed now f r) = dt_id r" "key_of (refreshed now f r) = key_of r" "dt_path (refreshed now f r) = dt_path r"
  "dt_parent_id (refreshed now f r) = dt_parent_id r" "of_target t g (refreshed now f r) = of_target t g r"
  by (simp_all add: refreshed_def key_of_def of_target_def)

lemma new_row_simps [simp]:
  "dt_id (folder_info_to_row i t g now f) = i" "key_of (folder_info_to_row i t g now f) = (t, g, fi_path f)"
  "dt_path (folder_info_to_row i t g now f) = fi_path f" "of_target t g (folder_info_to_row i t g now f)"
  "dt_parent_id (folder_info_to_row i t g now f) = None"
  by (simp_all add: folder_info_to_row_def key_of_def of_target_def)

lemma synced_row_simps [simp]:
  "dt_id (synced_row t g now L r) = dt_id r" "key_of (synced_row t g now L r) = key_of r" "dt_path (synced_row t g now L r) = dt_path r"
  "dt_parent_id (synced_row t g now L r) = dt_parent_id r" "of_target t g (synced_row t g now L r) = of_target t g r"
  by (simp_all add: synced_row_def)

lemma apply_updates_keys [simp]:
  "map dt_id (apply_updates now ups tbl) = map dt_id tbl" "map key_of (apply_updates now ups tbl) = map key_of tbl"
  by (auto simp: apply_updates_def split: option.split)

lemma apply_updates_none: "set (map dt_id tbl) \<inter> fst ` set ups = {} \<Longrightarrow> apply_updates now ups tbl = tbl"
proof -
  assume no: "set (map dt_id tbl) \<inter> fst ` set ups = {}"
  have "map_of ups (dt_id r) = None" if "r \<in> set tbl" for r using no that by (auto simp: map_of_eq_None_iff)
  then show ?thesis by (auto simp: apply_updates_def intro!: map_idI)
qed

lemma apply_updates_snoc:
  "i \<notin> fst ` set ups \<Longrightarrow> apply_updates now (ups @ [(i, f)]) tbl =
    map (\<lambda>r. if dt_id r = i then refreshed now f r else r) (apply_updates now ups tbl)"
proof -
  assume "i \<notin> fst ` set ups"
  then have "map_of ups i = None" by (simp add: map_of_eq_None_iff)
  then show ?thesis by (auto simp: apply_updates_def map_add_def split: option.split)
qed

lemma upsert_fresh:
  "distinct (map key_of (tbl @ rows)) \<Longrightarrow> upsert_batch c rows tbl = Inr (tbl @ rows)"
proof -
  assume d: "distinct (map key_of (tbl @ rows))"
  have "foldl (upsert_row c) tbl rows = tbl @ rows"
    using d by (induction rows arbitrary: tbl) (auto simp: upsert_row_def)
  then show ?thesis using d by (simp add: upsert_batch_def)
qed

lemma existing_iff:
  assumes "well_indexed tbl"
  shows "load_existing_dirs t g tbl p = Some (i, m) \<longleftrightarrow> (\<exists>r \<in> set tbl. key_of r = (t, g, p) \<and> dt_id r = i \<and> dt_modified r = m)"
proof -
  have "inj_on key_of (set tbl)" using assms by (simp add: well_indexed_def distinct_map)
  then have "inj_on dt_path (set (filter (of_target t g) tbl))" by (auto simp: inj_on_def of_target_def key_of_def)
  moreover have "distinct (filter (of_target t g) tbl)" using assms by (auto simp: well_indexed_def distinct_map)
  ultimately have "distinct (map fst (map (\<lambda>r. (dt_path r, dt_id r, dt_modified r)) (rev (filter (of_target t g) tbl))))"
    by (simp add: comp_def distinct_map)
  then show ?thesis
    unfolding load_existing_dirs_def by (auto simp: of_target_def key_of_def)
qed

lemma existing_None:
  assumes "well_indexed tbl"
  shows "load_existing_dirs t g tbl p = None \<longleftrightarrow> (t, g, p) \<notin> set (map key_of tbl)"
proof (cases "load_existing_dirs t g tbl p")
  case None
  then have "key_of r \<noteq> (t, g, p)" if "r \<in> set tbl" for r
    using existing_iff [OF assms, of t g p "dt_id r" "dt_modified r"] that by auto
  then show ?thesis using None by force
next
  case (Some x)
  then obtain r where "r \<in> set tbl" "key_of r = (t, g, p)"
    using existing_iff [OF assms, of t g p "fst x" "snd x"] by auto
  then show ?thesis using Some by force
qed


lemma info_at_snoc: "info_at (L @ [f]) p = (case info_at L p of Some h \<Rightarrow> Some h | None \<Rightarrow> if fi_path f = p then Some f else None)"
  by (induction L) (auto simp: info_at_def)

lemma info_at_None: "info_at L p = None \<longleftrightarrow> p \<notin> set (map fi_path L)"
  by (induction L) (auto simp: info_at_def)

lemma absent_rows_snoc:
  "absent_rows gen t g now tbl (L @ [f]) =
    absent_rows gen t g now tbl L @
      (if (t, g, fi_path f) \<in> set (map key_of tbl) then [] else [folder_info_to_row (gen (length L)) t g now f])"
proof -
  have "zip [0..<length (L @ [f])] (L @ [f]) = zip [0..<length L] L @ [(length L, f)]" by (simp add: zip_append)
  then show ?thesis by (simp add: absent_rows_def)
qed

lemma absent_rows_member:
  "r \<in> set (absent_rows gen t g now tbl L) \<Longrightarrow>
    dt_id r \<in> range gen \<and> (\<exists>f \<in> set L. key_of r = (t, g, fi_path f)) \<and> key_of r \<notin> set (map key_of tbl)"
  by (auto simp: absent_rows_def dest!: set_zip_rightD)

lemma absent_rows_distinct:
  assumes "distinct (map fi_path L)"
  shows "distinct (map key_of (absent_rows gen t g now tbl L))"
  using assms
proof (induction L rule: rev_induct)
  case (snoc f L)
  then show ?case using absent_rows_member [of _ gen t g now tbl L] by (fastforce simp: absent_rows_snoc)
qed (simp add: absent_rows_def)

text \<open>What the loop keeps: the table with its batches is that of the reference over the folders seen.\<close>

definition in_step :: "(nat \<Rightarrow> nat) \<Rightarrow> nat \<Rightarrow> nat \<Rightarrow> real \<Rightarrow> dir_row list \<Rightarrow> folder_info list \<Rightarrow> sync \<Rightarrow> bool" where
  "in_step gen t g now tbl L st \<longleftrightarrow>
     pending now st = map (synced_row t g now L) tbl @ absent_rows gen t g now tbl L \<and>
     (\<forall>(i, f) \<in> set (s_updates st). f \<in> set L \<and> (\<exists>m. load_existing_dirs t g tbl (fi_path f) = Some (i, m))) \<and>
     dt_id ` set (s_inserts st) \<subseteq> range gen \<and> s_processed st = length L"

lemma in_step_keys:
  assumes "well_indexed tbl" and "distinct (map fi_path L)" and "in_step gen t g now tbl L st"
  shows "distinct (map key_of (s_rows st @ s_inserts st))"
proof -
  have "map key_of (s_rows st @ s_inserts st) = map key_of (pending now st)" by (simp add: pending_def)
  also have "\<dots> = map key_of tbl @ map key_of (absent_rows gen t g now tbl L)" using assms(3) by (simp add: in_step_def)
  finally have keys: "map key_of (s_rows st @ s_inserts st) = map key_of tbl @ map key_of (absent_rows gen t g now tbl L)" .
  have "set (map key_of tbl) \<inter> set (map key_of (absent_rows gen t g now tbl L)) = {}" using absent_rows_member by fastforce
  then show ?thesis unfolding keys distinct_append using assms(1) absent_rows_distinct [OF assms(2)] by (simp add: well_indexed_def)
qed

lemma update_ids:
  assumes "well_indexed tbl" and "in_step gen t g now tbl L st"
  shows "fst ` set (s_updates st) \<subseteq> dt_id ` set tbl"
  using assms(2) existing_iff [OF assms(1), of t g] by (fastforce simp: in_step_def)

lemma flush_inserts_in_step:
  assumes "well_indexed tbl" and "fresh_ids gen tbl" and "distinct (map fi_path L)" and "in_step gen t g now tbl L st"
  shows "\<exists>st'. flush_inserts st = Inr st' \<and> in_step gen t g now tbl L st' \<and> s_inserts st' = [] \<and> s_updates st' = s_updates st"
proof -
  have up: "upsert_batch True (s_inserts st) (s_rows st) = Inr (s_rows st @ s_inserts st)"
    using in_step_keys [OF assms(1,3,4)] by (rule upsert_fresh)
  have "dt_id ` set (s_inserts st) \<inter> fst ` set (s_updates st) = {}"
  proof -
    have "dt_id ` set (s_inserts st) \<subseteq> range gen" using assms(4) by (simp add: in_step_def)
    moreover have "range gen \<inter> dt_id ` set tbl = {}" using assms(2) by (simp add: fresh_ids_def)
    ultimately show ?thesis using update_ids [OF assms(1,4)] by fast
  qed
  then have "apply_updates now (s_updates st) (s_inserts st) = s_inserts st" by (intro apply_updates_none) simp
  then have *: "apply_updates now (s_updates st) (s_rows st @ s_inserts st) = pending now st"
    by (simp add: apply_updates_def pending_def)
  let ?st = "st\<lparr>s_rows := s_rows st @ s_inserts st, s_inserted := s_inserted st + length (s_inserts st), s_inserts := []\<rparr>"
  have "flush_inserts st = Inr ?st" using up by (simp add: flush_inserts_def)
  moreover have "pending now ?st = pending now st" using * unfolding pending_def by simp
  then have "in_step gen t g now tbl L ?st" using assms(4) unfolding in_step_def by simp
  ultimately show ?thesis by simp
qed

lemma flush_updates_in_step:
  "in_step gen t g now tbl L st \<Longrightarrow> in_step gen t g now tbl L (flush_updates now st)"
proof -
  assume "in_step gen t g now tbl L st"
  moreover have "pending now (flush_updates now st) = pending now st"
    by (simp add: pending_def flush_updates_def apply_updates_def)
  ultimately show ?thesis by (auto simp: in_step_def flush_updates_def)
qed


lemma synced_row_snoc_other:
  assumes "key_of r \<noteq> (t, g, fi_path f)"
  shows "synced_row t g now (L @ [f]) r = synced_row t g now L r"
  using assms by (auto simp: synced_row_def changed_def info_at_snoc key_of_def of_target_def split: option.splits)

lemma synced_row_snoc_same:
  assumes "key_of r = (t, g, fi_path f)" and "fi_path f \<notin> set (map fi_path L)"
  shows "synced_row t g now L r = r \<and>
    synced_row t g now (L @ [f]) r = (if unmodified (dt_modified r) (fi_modified f) then r else refreshed now f r)"
proof -
  have "info_at L (dt_path r) = None" using assms by (simp add: info_at_None key_of_def)
  then show ?thesis using assms(1) by (simp add: synced_row_def changed_def info_at_snoc key_of_def of_target_def)
qed

lemma sync_known:
  assumes tbl: "well_indexed tbl" "fresh_ids gen tbl" and r: "r \<in> set tbl" "key_of r = (t, g, fi_path f)"
    and new: "fi_path f \<notin> set (map fi_path L)" and st: "in_step gen t g now tbl L st"
    and changed: "\<not> unmodified (dt_modified r) (fi_modified f)"
  shows "in_step gen t g now tbl (L @ [f]) (st\<lparr>s_processed := s_processed st + 1, s_updates := s_updates st @ [(dt_id r, f)]\<rparr>)"
proof -
  let ?u = "\<lambda>x. if dt_id x = dt_id r then refreshed now f x else x"
  have ids: "inj_on dt_id (set tbl)" using tbl(1) by (simp add: well_indexed_def distinct_map)
  have "dt_id r \<notin> fst ` set (s_updates st)"
  proof
    assume "dt_id r \<in> fst ` set (s_updates st)"
    then obtain h where h: "(dt_id r, h) \<in> set (s_updates st)" by auto
    then obtain q where q: "q \<in> set tbl" "key_of q = (t, g, fi_path h)" "dt_id q = dt_id r" and L: "h \<in> set L"
      using st existing_iff [OF tbl(1), of t g] by (fastforce simp: in_step_def)
    then have "q = r" using ids r(1) by (simp add: inj_on_def)
    then show False using q(2) r(2) new L by auto
  qed
  then have upd: "apply_updates now (s_updates st @ [(dt_id r, f)]) (s_rows st) = map ?u (apply_updates now (s_updates st) (s_rows st))"
    by (rule apply_updates_snoc)
  have no_gen: "dt_id r \<notin> range gen" using tbl(2) r(1) by (auto simp: fresh_ids_def)
  have ins: "map ?u (s_inserts st) = s_inserts st"
  proof (rule map_idI)
    fix x assume "x \<in> set (s_inserts st)"
    then have "dt_id x \<in> range gen" using st by (auto simp: in_step_def)
    then show "?u x = x" using no_gen by auto
  qed
  have "pending now (st\<lparr>s_processed := s_processed st + 1, s_updates := s_updates st @ [(dt_id r, f)]\<rparr>) = map ?u (pending now st)"
    using upd ins by (simp add: pending_def)
  also have "\<dots> = map ?u (map (synced_row t g now L) tbl) @ map ?u (absent_rows gen t g now tbl L)"
    using st by (simp add: in_step_def)
  also have "map ?u (absent_rows gen t g now tbl L) = absent_rows gen t g now tbl L"
  proof (rule map_idI)
    fix x assume "x \<in> set (absent_rows gen t g now tbl L)"
    then have "dt_id x \<in> range gen" using absent_rows_member by blast
    then show "?u x = x" using no_gen by auto
  qed
  also have "map ?u (map (synced_row t g now L) tbl) = map (synced_row t g now (L @ [f])) tbl"
  proof -
    have "?u (synced_row t g now L x) = synced_row t g now (L @ [f]) x" if x: "x \<in> set tbl" for x
    proof (cases "x = r")
      case True
      then show ?thesis using synced_row_snoc_same [OF r(2) new, of now] changed by simp
    next
      case False
      then have "key_of x \<noteq> (t, g, fi_path f)" "dt_id x \<noteq> dt_id r"
        using tbl(1) r x by (auto simp: well_indexed_def distinct_map inj_on_def)
      then show ?thesis using synced_row_snoc_other by simp
    qed
    then show ?thesis by simp
  qed
  finally have "pending now (st\<lparr>s_processed := s_processed st + 1, s_updates := s_updates st @ [(dt_id r, f)]\<rparr>) =
    map (synced_row t g now (L @ [f])) tbl @ absent_rows gen t g now tbl (L @ [f])"
    using r by (force simp: absent_rows_snoc)
  moreover have "load_existing_dirs t g tbl (fi_path f) = Some (dt_id r, dt_modified r)"
    using existing_iff [OF tbl(1)] r by blast
  ultimately show ?thesis using st by (auto simp: in_step_def)
qed

lemma sync_unchanged:
  assumes tbl: "well_indexed tbl" and r: "r \<in> set tbl" "key_of r = (t, g, fi_path f)"
    and new: "fi_path f \<notin> set (map fi_path L)" and st: "in_step gen t g now tbl L st"
    and same: "unmodified (dt_modified r) (fi_modified f)"
  shows "in_step gen t g now tbl (L @ [f]) (st\<lparr>s_processed := s_processed st + 1, s_unchanged := n\<rparr>)"
proof -
  have "synced_row t g now (L @ [f]) x = synced_row t g now L x" if x: "x \<in> set tbl" for x
  proof (cases "x = r")
    case True
    then show ?thesis using synced_row_snoc_same [OF r(2) new, of now] same by simp
  next
    case False
    then have "key_of x \<noteq> (t, g, fi_path f)" using tbl r x by (auto simp: well_indexed_def distinct_map inj_on_def)
    then show ?thesis using synced_row_snoc_other by simp
  qed
  then have rows: "map (synced_row t g now (L @ [f])) tbl = map (synced_row t g now L) tbl" by simp
  have "absent_rows gen t g now tbl (L @ [f]) = absent_rows gen t g now tbl L" using r by (force simp: absent_rows_snoc)
  then show ?thesis using st rows by (auto simp: in_step_def pending_def)
qed

lemma sync_absent:
  assumes new: "(t, g, fi_path f) \<notin> set (map key_of tbl)" and st: "in_step gen t g now tbl L st"
  shows "in_step gen t g now tbl (L @ [f])
    (st\<lparr>s_processed := s_processed st + 1, s_inserts := s_inserts st @ [folder_info_to_row (gen (s_processed st)) t g now f]\<rparr>)"
proof -
  have "synced_row t g now (L @ [f]) x = synced_row t g now L x" if x: "x \<in> set tbl" for x
  proof -
    have "key_of x \<noteq> (t, g, fi_path f)" using new x by (metis image_eqI list.set_map)
    then show ?thesis by (rule synced_row_snoc_other)
  qed
  then have "map (synced_row t g now (L @ [f])) tbl = map (synced_row t g now L) tbl" by simp
  then show ?thesis using st new by (auto simp: in_step_def pending_def absent_rows_snoc)
qed

lemma sync_folder_in_step:
  assumes tbl: "well_indexed tbl" "fresh_ids gen tbl" and L: "distinct (map fi_path (L @ [f]))" and st: "in_step gen t g now tbl L st"
  shows "\<exists>st'. sync_folder gen t g now (load_existing_dirs t g tbl) st f = Inr st' \<and> in_step gen t g now tbl (L @ [f]) st'"
proof (cases "load_existing_dirs t g tbl (fi_path f)")
  case None
  then have "(t, g, fi_path f) \<notin> set (map key_of tbl)" using existing_None [OF tbl(1)] by blast
  from sync_absent [OF this st]
  have step: "in_step gen t g now tbl (L @ [f])
    (st\<lparr>s_processed := s_processed st + 1, s_inserts := s_inserts st @ [folder_info_to_row (gen (s_processed st)) t g now f]\<rparr>)"
    (is "in_step _ _ _ _ _ _ ?st") .
  obtain st2 where "flush_inserts ?st = Inr st2" "in_step gen t g now tbl (L @ [f]) st2"
    using flush_inserts_in_step [OF tbl L step] by blast
  then show ?thesis using None step by (simp add: sync_folder_def Let_def)
next
  case (Some x)
  obtain i m where x: "x = (i, m)" by (cases x)
  then obtain r where r: "r \<in> set tbl" "key_of r = (t, g, fi_path f)" and i: "dt_id r = i" "dt_modified r = m"
    using Some existing_iff [OF tbl(1)] by blast
  have new: "fi_path f \<notin> set (map fi_path L)" using L by simp
  show ?thesis
  proof (cases "unmodified m (fi_modified f)")
    case True
    then show ?thesis using Some x i sync_unchanged [OF tbl(1) r new st] by (simp add: sync_folder_def Let_def)
  next
    case False
    then have "in_step gen t g now tbl (L @ [f]) (st\<lparr>s_processed := s_processed st + 1, s_updates := s_updates st @ [(i, f)]\<rparr>)"
      using sync_known [OF tbl r new st] i by simp
    then show ?thesis using Some x False flush_updates_in_step by (simp add: sync_folder_def Let_def)
  qed
qed

lemma sync_folders_in_step:
  assumes tbl: "well_indexed tbl" "fresh_ids gen tbl"
  shows "distinct (map fi_path (L @ rest)) \<Longrightarrow> in_step gen t g now tbl L st \<Longrightarrow>
    \<exists>st'. sync_folders gen t g now (load_existing_dirs t g tbl) st rest = Inr st' \<and> in_step gen t g now tbl (L @ rest) st'"
proof (induction rest arbitrary: L st)
  case (Cons f rest)
  have "distinct (map fi_path (L @ [f]))" using Cons.prems(1) by auto
  then obtain mid where mid: "sync_folder gen t g now (load_existing_dirs t g tbl) st f = Inr mid" "in_step gen t g now tbl (L @ [f]) mid"
    using sync_folder_in_step [OF tbl _ Cons.prems(2)] by blast
  show ?case using Cons.IH [OF _ mid(2)] Cons.prems(1) mid(1) by simp
qed simp


section \<open>The result of a synchronisation\<close>

lemma unlinked_link [simp]: "unlinked (link pick parents r) = unlinked r"
  by (simp add: link_def unlinked_def)

lemma resolve_parents_unlinked: "map unlinked (snd (resolve_parents pick t g tbl)) = map unlinked tbl"
  by (simp add: resolve_parents_def resolve_parent_ids_def resolve_parent_ids_by_path_def link_all_def)

text \<open>Rows that stay hang on no row that goes.\<close>

definition links_tidy :: "nat \<Rightarrow> nat \<Rightarrow> folder_info list \<Rightarrow> dir_row list \<Rightarrow> bool" where
  "links_tidy tenant target listing tbl \<longleftrightarrow>
     list_all (\<lambda>r. stays tenant target listing r \<longrightarrow>
       clear_of (dt_id ` {q \<in> set tbl. \<not> stays tenant target listing q}) r) tbl"

lemma stays_synced [simp]: "stays t g L (synced_row t g now L r) = stays t g L r"
  by (simp add: stays_def)

lemma absent_stays: "r \<in> set (absent_rows gen t g now tbl L) \<Longrightarrow> stays t g L r"
  using absent_rows_member [of r gen t g now tbl L] by (auto simp: stays_def of_target_def key_of_def)

lemma absent_unlinked: "r \<in> set (absent_rows gen t g now tbl L) \<Longrightarrow> dt_parent_id r = None"
  by (auto simp: absent_rows_def)

lemma synced_separated:
  assumes "links_tidy t g L tbl"
  shows "separated (\<lambda>r. \<not> stays t g L r) (dt_id ` {q \<in> set tbl. \<not> stays t g L q})
    (map (synced_row t g now L) tbl @ absent_rows gen t g now tbl L)"
  using assms absent_stays absent_unlinked
  by (auto simp: separated_def links_tidy_def list_all_iff clear_of_def)

lemma missing_deleted:
  assumes "links_tidy t g L tbl"
  shows "snd (delete_missing t g (filter (\<lambda>p. p \<notin> set (map fi_path L)) (map dt_path (filter (of_target t g) tbl)))
      (map (synced_row t g now L) tbl @ absent_rows gen t g now tbl L)) = synced gen t g now L tbl"
    (is "snd (delete_missing t g ?ps ?tbl) = _")
proof -
  let ?Q = "\<lambda>r. \<not> stays t g L r"
  have ps: "of_target t g r \<and> dt_path r \<in> set ?ps \<Longrightarrow> ?Q r" for r by (auto simp: stays_def)
  have kept: "filter (\<lambda>r. \<not> ?Q r) (snd (delete_missing t g ?ps ?tbl)) = filter (\<lambda>r. \<not> ?Q r) ?tbl"
    "set (snd (delete_missing t g ?ps ?tbl)) \<subseteq> {r \<in> set ?tbl. \<not> (of_target t g r \<and> dt_path r \<in> set ?ps)}"
    using delete_missing_keeps [OF synced_separated [OF assms] ps] by blast+
  have "stays t g L r" if "r \<in> set ?tbl" "\<not> (of_target t g r \<and> dt_path r \<in> set ?ps)" for r
    using that absent_stays by (auto simp: stays_def)
  then have "stays t g L r" if "r \<in> set (snd (delete_missing t g ?ps ?tbl))" for r using kept(2) that by blast
  then have "filter (\<lambda>r. \<not> ?Q r) (snd (delete_missing t g ?ps ?tbl)) = snd (delete_missing t g ?ps ?tbl)"
    by (intro filter_True) auto
  moreover have "filter (\<lambda>r. \<not> ?Q r) ?tbl = synced gen t g now L tbl"
    using absent_stays [of _ gen t g now tbl L] by (simp add: synced_def filter_map comp_def)
  ultimately show ?thesis using kept(1) by simp
qed

lemma flushed_rows:
  assumes tbl: "well_indexed tbl" "fresh_ids gen tbl" and L: "distinct (map fi_path L)" and st: "in_step gen t g now tbl L st"
  shows "\<exists>st2. (if s_inserts st = [] then Inr st else flush_inserts st) = Inr st2 \<and>
    s_rows (if s_updates st2 = [] then st2 else flush_updates now st2) = map (synced_row t g now L) tbl @ absent_rows gen t g now tbl L"
proof -
  obtain st2 where st2: "(if s_inserts st = [] then Inr st else flush_inserts st) = Inr st2" "in_step gen t g now tbl L st2" "s_inserts st2 = []"
    using flush_inserts_in_step [OF tbl L st] st by (cases "s_inserts st = []") auto
  have "s_rows (if s_updates st2 = [] then st2 else flush_updates now st2) = pending now st2"
    using st2(3) by (simp add: pending_def flush_updates_def apply_updates_def)
  then show ?thesis using st2 by (auto simp: in_step_def)
qed

lemma finish_sync_total: "r_total (finish_sync pick collect t g now seen tbl cps st2) = length seen"
  by (simp add: finish_sync_def Let_def split: prod.split)

lemma finish_sync_checkpoints:
  "r_checkpoints (finish_sync pick collect t g now seen tbl cps st2) = upsert_checkpoint (new_checkpoint t g now (length seen)) cps"
  by (simp add: finish_sync_def Let_def split: prod.split)

lemma finish_sync_rows:
  assumes "links_tidy t g L tbl"
    and "s_rows (if s_updates st2 = [] then st2 else flush_updates now st2) = map (synced_row t g now L) tbl @ absent_rows gen t g now tbl L"
    and "out = finish_sync pick collect t g now (remdups (map fi_path L)) tbl cps st2"
  shows "\<exists>mid. map unlinked mid = map unlinked (synced gen t g now L tbl) \<and>
    r_rows out = (case collect of Some f \<Rightarrow> if 0 < r_inserted out \<or> 0 < r_updated out then f mid else mid | None \<Rightarrow> mid)"
proof -
  let ?rows = "synced gen t g now L tbl"
  let ?st3 = "if s_updates st2 = [] then st2 else flush_updates now st2"
  let ?mid = "if 0 < s_inserted ?st3 then snd (resolve_parents pick t g ?rows) else ?rows"
  have "map unlinked ?mid = map unlinked ?rows" by (simp add: resolve_parents_unlinked)
  moreover have "r_rows out = (case collect of Some f \<Rightarrow> if 0 < r_inserted out \<or> 0 < r_updated out then f ?mid else ?mid | None \<Rightarrow> ?mid)"
    using missing_deleted [OF assms(1), of now gen] assms(2,3) by (auto simp: finish_sync_def Let_def split: prod.split option.split)
  ultimately show ?thesis by blast
qed

text \<open>
  A synchronisation brings the rows of a target in line with the listing, whatever the sizes of
  the batches, up to the links to parents; what is left of it is the collection of descriptors.
\<close>

lemma delta_sync_rows:
  assumes "well_indexed tbl" and "fresh_ids gen tbl" and "distinct (map fi_path L)" and "links_tidy t g L tbl"
  shows "\<exists>out mid. delta_sync_directory_tree gen pick collect t g now L tbl cps = Inr out \<and>
    map unlinked mid = map unlinked (synced gen t g now L tbl) \<and> r_total out = length L \<and>
    r_rows out = (case collect of Some f \<Rightarrow> if 0 < r_inserted out \<or> 0 < r_updated out then f mid else mid | None \<Rightarrow> mid)"
proof -
  have "in_step gen t g now tbl [] (start_sync tbl)"
    by (auto simp: start_sync_def in_step_def pending_def apply_updates_def absent_rows_def synced_row_def changed_def info_at_def
      intro!: map_idI [symmetric])
  then obtain st1 where st1: "sync_folders gen t g now (load_existing_dirs t g tbl) (start_sync tbl) L = Inr st1" "in_step gen t g now tbl L st1"
    using sync_folders_in_step [OF assms(1,2), of "[]" L t g now "start_sync tbl"] assms(3) by auto
  obtain st2 where st2: "(if s_inserts st1 = [] then Inr st1 else flush_inserts st1) = Inr st2"
    "s_rows (if s_updates st2 = [] then st2 else flush_updates now st2) = map (synced_row t g now L) tbl @ absent_rows gen t g now tbl L"
    using flushed_rows [OF assms(1-3) st1(2)] by blast
  let ?out = "finish_sync pick collect t g now (remdups (map fi_path L)) tbl cps st2"
  have "length (remdups (map fi_path L)) = length L" using assms(3) by (simp add: distinct_remdups_id)
  then have "r_total ?out = length L" by (simp add: finish_sync_total)
  moreover have "delta_sync_directory_tree gen pick collect t g now L tbl cps = Inr ?out"
    using st1(1) st2(1) by (simp add: delta_sync_directory_tree_def)
  ultimately show ?thesis using finish_sync_rows [OF assms(4) st2(2) refl] by blast
qed

lemma unlinked_fields:
  "dt_id (unlinked r) = dt_id r" "key_of (unlinked r) = key_of r" "dt_tenant (unlinked r) = dt_tenant r"
  "dt_target (unlinked r) = dt_target r" "dt_path (unlinked r) = dt_path r" "dt_sd_hash (unlinked r) = dt_sd_hash r"
  by (simp_all add: unlinked_def key_of_def)

lemma synced_well_indexed:
  assumes "well_indexed tbl" and "fresh_ids gen tbl" and "distinct (map fi_path L)"
  shows "well_indexed (synced gen t g now L tbl)"
proof -
  let ?new = "absent_rows gen t g now tbl L"
  let ?old = "filter (stays t g L) tbl"
  have ids: "map dt_id (synced gen t g now L tbl) = map dt_id ?old @ map dt_id ?new"
    and keys: "map key_of (synced gen t g now L tbl) = map key_of ?old @ map key_of ?new"
    by (simp_all add: synced_def synced_row_def comp_def)
  have "map dt_id ?new = map gen (map fst (filter (\<lambda>(k, f). (t, g, fi_path f) \<notin> set (map key_of tbl)) (zip [0..<length L] L)))"
    by (simp add: absent_rows_def comp_def folder_info_to_row_def case_prod_unfold)
  moreover have "distinct (map fst (filter (\<lambda>(k, f). (t, g, fi_path f) \<notin> set (map key_of tbl)) (zip [0..<length L] L)))"
    by (rule distinct_map_filter) (simp add: map_fst_zip)
  moreover have "distinct (map gen ns)" if "distinct ns" for ns
    using that assms(2) by (auto simp: fresh_ids_def distinct_map intro: inj_on_subset)
  ultimately have new_ids: "distinct (map dt_id ?new)" by (simp only:)
  have "dt_id r \<in> range gen" and "key_of r \<notin> key_of ` set tbl" if "r \<in> set ?new" for r
    using absent_rows_member [OF that] by simp_all
  then have new: "dt_id ` set ?new \<subseteq> range gen" "key_of ` set ?new \<inter> key_of ` set tbl = {}" by blast+
  have old: "dt_id ` set ?old \<subseteq> dt_id ` set tbl" "key_of ` set ?old \<subseteq> key_of ` set tbl" by auto
  have "range gen \<inter> dt_id ` set tbl = {}" using assms(2) by (simp add: fresh_ids_def)
  then have "dt_id ` set ?old \<inter> dt_id ` set ?new = {}" using new(1) old(1) by blast
  moreover have "key_of ` set ?old \<inter> key_of ` set ?new = {}" using new(2) old(2) by blast
  ultimately have "set (map dt_id ?old) \<inter> set (map dt_id ?new) = {}" "set (map key_of ?old) \<inter> set (map key_of ?new) = {}"
    unfolding set_map .
  then show ?thesis
    using assms(1) new_ids absent_rows_distinct [OF assms(3)]
    unfolding well_indexed_def ids keys distinct_append by (intro conjI distinct_map_filter) simp_all
qed

section \<open>Synchronising again\<close>

lemma info_at_member: "distinct (map fi_path L) \<Longrightarrow> f \<in> set L \<Longrightarrow> info_at L (fi_path f) = Some f"
  by (induction L) (auto simp: info_at_def)

lemma info_at_SomeD: "info_at L p = Some f \<Longrightarrow> f \<in> set L \<and> fi_path f = p"
  by (auto simp: info_at_def find_Some_iff)

lemma unmodified_self: "m \<noteq> None \<Longrightarrow> unmodified m m"
  by (auto simp: unmodified_def)

lemma refreshed_unchanged:
  assumes "info_at L (dt_path r) = Some f" and "fi_modified f \<noteq> None"
  shows "\<not> changed L (refreshed now f r)"
  using assms unmodified_self by (simp add: changed_def) (simp add: refreshed_def)

text \<open>
  A synchronisation settles: if the listing gives every folder a time, synchronising again
  with the same listing leaves the table as it is.
\<close>

theorem sync_settles:
  assumes "distinct (map fi_path L)" and "list_all (\<lambda>f. fi_modified f \<noteq> None) L"
  shows "synced gen' t g later L (synced gen t g now L tbl) = synced gen t g now L tbl"
proof -
  let ?rows = "map (synced_row t g now L) (filter (stays t g L) tbl)"
  let ?new = "absent_rows gen t g now tbl L"
  have old: "synced_row t g later L (synced_row t g now L r) = synced_row t g now L r" for r
  proof (cases "of_target t g r \<and> changed L r")
    case True
    then obtain f where f: "info_at L (dt_path r) = Some f" by (auto simp: changed_def split: option.splits)
    then have "fi_modified f \<noteq> None" using assms(2) info_at_SomeD by (force simp: list_all_iff)
    then show ?thesis using refreshed_unchanged [OF f] True f by (simp add: synced_row_def)
  qed (auto simp: synced_row_def)
  have new: "synced_row t g later L r = r" if r: "r \<in> set ?new" for r
  proof -
    obtain k f where f: "f \<in> set L" "r = folder_info_to_row (gen k) t g now f"
      using r by (auto simp: absent_rows_def dest!: set_zip_rightD)
    then have "dt_modified r = fi_modified f" "dt_path r = fi_path f" by (simp_all add: folder_info_to_row_def)
    then have "\<not> changed L r"
      using assms(2) f(1) info_at_member [OF assms(1) f(1)] unmodified_self [of "fi_modified f"] by (simp add: changed_def list_all_iff)
    then show ?thesis by (simp add: synced_row_def)
  qed
  have "filter (stays t g L) (?rows @ ?new) = ?rows @ ?new"
    using absent_stays [of _ gen t g now tbl L] by (intro filter_True) auto
  moreover have "map (synced_row t g later L) (?rows @ ?new) = ?rows @ ?new" using old new by (auto intro!: map_idI)
  moreover have "(t, g, fi_path f) \<in> set (map key_of (?rows @ ?new))" if f: "f \<in> set L" for f
  proof (cases "(t, g, fi_path f) \<in> set (map key_of tbl)")
    case True
    then obtain r where r: "r \<in> set tbl" "key_of r = (t, g, fi_path f)" by auto
    then have "stays t g L r" using f by (auto simp: stays_def key_of_def)
    then show ?thesis using r by (force simp: comp_def)
  next
    case False
    obtain k where "k < length L" "L ! k = f" using f by (auto simp: in_set_conv_nth)
    then have "(k, f) \<in> set (zip [0..<length L] L)" by (force simp: set_zip)
    then have "folder_info_to_row (gen k) t g now f \<in> set ?new" using False by (force simp: absent_rows_def)
    then show ?thesis by (force simp: comp_def)
  qed
  then have "absent_rows gen' t g later (?rows @ ?new) L = []"
    unfolding absent_rows_def by (auto simp: filter_empty_conv dest!: set_zip_rightD)
  ultimately show ?thesis by (simp add: synced_def)
qed

section \<open>Links and checkpoints\<close>

text \<open>A link that is resolved leads to another row of the same target, the one with the reference if there is one.\<close>

lemma resolved_link:
  assumes "\<And>xs. xs \<noteq> [] \<Longrightarrow> pick xs \<in> set xs" and "r' \<in> set (snd (resolve_parent_ids pick t g tbl))" and "dt_parent_id r' = Some i"
  shows "\<exists>r \<in> set tbl. dt_id r = dt_id r' \<and> (dt_parent_id r = Some i \<or>
    (\<exists>p \<in> set tbl. dt_id p = i \<and> dt_ref p = dt_parent_ref r \<and> of_target t g p \<and> dt_id p \<noteq> dt_id r))"
proof -
  obtain r where r: "r \<in> set tbl" "r' = link pick (ref_parents t g tbl) r"
    using assms(2) by (auto simp: resolve_parent_ids_def link_all_def)
  show ?thesis
  proof (cases "ref_parents t g tbl r = []")
    case False
    define q where "q = pick (ref_parents t g tbl r)"
    have "q \<in> set (ref_parents t g tbl r)" unfolding q_def using False by (rule assms(1))
    then have "q \<in> set tbl" "dt_ref q = dt_parent_ref r" "of_target t g q" "dt_id q \<noteq> dt_id r"
      by (auto simp: ref_parents_def split: if_splits)
    moreover have "r' = r\<lparr>dt_parent_id := Some (dt_id q)\<rparr>" using r(2) False by (simp add: link_def q_def)
    then have "dt_id r = dt_id r'" "i = dt_id q" using assms(3) by simp_all
    ultimately show ?thesis using r(1) by blast
  qed (use r assms(3) in \<open>auto simp: link_def\<close>)
qed

text \<open>A synchronisation writes a checkpoint without the time of the last full run and without the cursors.\<close>

lemma delta_sync_forgets_full_sync:
  assumes "delta_sync_directory_tree gen pick collect t g now L tbl cps = Inr out"
  shows "\<exists>c. get_checkpoint t g (r_checkpoints out) = Some c \<and> last_full_sync c = None \<and> delta_token c = None \<and> usn_journal_cursor c = None"
proof -
  let ?c = "new_checkpoint t g now (length (remdups (map fi_path L)))"
  have "r_checkpoints out = upsert_checkpoint ?c cps"
    using assms by (auto simp: delta_sync_directory_tree_def finish_sync_checkpoints res_simps)
  moreover have "get_checkpoint t g (upsert_checkpoint ?c cps) = Some ?c"
    by (induction cps) (auto simp: get_checkpoint_def upsert_checkpoint_def same_target_def new_checkpoint_def)
  ultimately show ?thesis by (auto simp: new_checkpoint_def)
qed

text \<open>A folder directly below the root finds no parent by its path.\<close>

lemma root_children_unlinked: "parent_path ''/home'' = [] \<and> parent_path ''/home/ann'' = ''/home''"
  by code_simp


section \<open>Examples\<close>

definition ex_folder :: "string \<Rightarrow> int \<Rightarrow> int \<Rightarrow> folder_info" where
  "ex_folder p i q = \<lparr>fi_path = p, fi_name = [], fi_modified = Some 100, fi_inode = Some i, fi_parent_inode = Some q,
     fi_child_dirs = None, fi_child_files = None\<rparr>"

definition ex_table :: "dir_row list" where
  "ex_table = [folder_info_to_row 100 1 1 0 (ex_folder ''/old'' 5 2), folder_info_to_row 101 1 1 0 (ex_folder ''/new'' 5 2),
     (folder_info_to_row 102 1 1 0 (ex_folder ''/new/sub'' 7 5))\<lparr>dt_parent_id := Some 101\<rparr>]"

definition ex_listing :: "folder_info list" where
  "ex_listing = [ex_folder ''/new'' 5 2, ex_folder ''/new/sub'' 7 5, ex_folder ''/new/more'' 8 5]"

lemma ex_table_ok: "well_indexed ex_table" "distinct (map fi_path ex_listing)"
  by (simp_all add: well_indexed_def ex_table_def ex_listing_def ex_folder_def key_of_def folder_info_to_row_def)

lemma ex_links: "links_tidy 1 1 ex_listing ex_table"
  by (auto simp: links_tidy_def list_all_iff ex_table_def ex_listing_def ex_folder_def folder_info_to_row_def clear_of_def
    stays_def of_target_def)

lemma ex_fresh: "fresh_ids (\<lambda>k. k + 200) ex_table"
  by (auto simp: fresh_ids_def ex_table_def ex_folder_def folder_info_to_row_def inj_def)

theorem sync_settles_witness:
  "synced Suc 1 1 20 ex_listing (synced (\<lambda>k. k + 200) 1 1 9 ex_listing ex_table) = synced (\<lambda>k. k + 200) 1 1 9 ex_listing ex_table"
  by (rule sync_settles) (simp_all add: ex_listing_def ex_folder_def)

text \<open>
  A number that the file system used again: building the index anew keeps the row of the folder
  that is gone and may link a living folder to it; the next synchronisation deletes the row and,
  by the cascade, the living folder, which it counts as present.
\<close>

lemma reused_reference_loses_folder:
  "case bootstrap_directory_tree (\<lambda>k. k + 200) hd None 1 1 0 [ex_folder ''/new'' 5 2, ex_folder ''/new/sub'' 7 5]
      [folder_info_to_row 100 1 1 0 (ex_folder ''/old'' 5 2)] of
    Inr (n, k, tbl) \<Rightarrow>
      (case delta_sync_directory_tree (\<lambda>k. k + 300) hd None 1 1 9 [ex_folder ''/new'' 5 2, ex_folder ''/new/sub'' 7 5] tbl [] of
        Inr out \<Rightarrow> map dt_path (r_rows out) = [''/new''] \<and> r_total out = 2 \<and> r_unchanged out = 2
      | Inl e \<Rightarrow> False)
  | Inl e \<Rightarrow> False"
  by code_simp

end
