(* ===== verification/Descriptor_Collection.thy ===== *)
theory Descriptor_Collection
  imports Directory_Index "HOL-Library.List_Lexorder" "HOL-Library.Char_ord"
begin

text \<open>
  The collection of security descriptors, \<^verbatim>\<open>src/openlabels/jobs/sd_collect.py\<close>, and the
  synchronisation of the index that runs it. Reading the descriptor of one folder is a call to
  the operating system, a parameter: it gives the hash of the descriptor and whether it is
  accessible to everyone, or nothing. The order in which the database sorts paths is the order
  of a parameter \<open>key\<close>. Only the hashes of the stored descriptors are kept.
\<close>

section \<open>Collecting\<close>

definition READ_BATCH :: nat where
  "READ_BATCH = 5000"

definition SD_UPSERT_BATCH :: nat where
  "SD_UPSERT_BATCH = 2000"

type_synonym sd_reader = "string \<Rightarrow> (string \<times> bool) option"

record collection =
  c_rows :: "dir_row list"
  c_stored :: "string list"
  c_seen :: "string list"
  c_sds :: "string list"
  c_updates :: "(nat \<times> string) list"
  c_processed :: nat
  c_world :: nat

text \<open>\<open>ON CONFLICT DO NOTHING\<close> on the hash, and the update that joins the values by identifier.\<close>

definition upsert_sd_batch :: "string list \<Rightarrow> string list \<Rightarrow> string list" where
  "upsert_sd_batch hs stored = foldl (\<lambda>acc h. if h \<in> set acc then acc else acc @ [h]) stored hs"

definition update_hashes :: "real \<Rightarrow> (nat \<times> string) list \<Rightarrow> dir_row list \<Rightarrow> dir_row list" where
  "update_hashes now ups tbl =
     map (\<lambda>r. case map_of ups (dt_id r) of Some h \<Rightarrow> r\<lparr>dt_sd_hash := Some h, dt_updated := now\<rparr> | None \<Rightarrow> r) tbl"

definition without_sd :: "nat \<Rightarrow> nat \<Rightarrow> dir_row \<Rightarrow> bool" where
  "without_sd tenant target r \<longleftrightarrow> of_target tenant target r \<and> dt_sd_hash r = None"

definition next_page :: "(string \<Rightarrow> 'k::linorder) \<Rightarrow> nat \<Rightarrow> nat \<Rightarrow> string \<Rightarrow> dir_row list \<Rightarrow> dir_row list" where
  "next_page key tenant target last_path tbl =
     take READ_BATCH (sort_key (\<lambda>r. key (dt_path r))
       (filter (\<lambda>r. without_sd tenant target r \<and> key last_path < key (dt_path r)) tbl))"

definition collect_batch :: "sd_reader \<Rightarrow> string list \<Rightarrow> (string \<times> string \<times> bool) list" where
  "collect_batch read paths = List.map_filter (\<lambda>p. map_option (Pair p) (read p)) paths"

definition collect_one :: "real \<Rightarrow> (string \<rightharpoonup> nat) \<Rightarrow> collection \<Rightarrow> string \<times> string \<times> bool \<Rightarrow> collection" where
  "collect_one now id_by_path st x =
     (case x of (p, h, world) \<Rightarrow>
        let st1 = st\<lparr>c_world := c_world st + of_bool world, c_updates := c_updates st @ [(the (id_by_path p), h)]\<rparr>;
            st2 = (if h \<notin> set (c_seen st1) then st1\<lparr>c_seen := c_seen st1 @ [h], c_sds := c_sds st1 @ [h]\<rparr> else st1);
            st3 = (if SD_UPSERT_BATCH \<le> length (c_sds st2)
                   then st2\<lparr>c_stored := upsert_sd_batch (c_sds st2) (c_stored st2), c_sds := []\<rparr> else st2)
        in if SD_UPSERT_BATCH \<le> length (c_updates st3)
           then st3\<lparr>c_rows := update_hashes now (c_updates st3) (c_rows st3), c_updates := []\<rparr> else st3)"

definition collect_page :: "real \<Rightarrow> sd_reader \<Rightarrow> dir_row list \<Rightarrow> collection \<Rightarrow> collection" where
  "collect_page now read rows st =
     (let st' = foldl (collect_one now (map_of (rev (map (\<lambda>r. (dt_path r, dt_id r)) rows)))) st
        (collect_batch read (map dt_path rows))
      in st'\<lparr>c_processed := c_processed st' + length rows\<rparr>)"

text \<open>Every page but the last takes a row, so the number of rows bounds the turns of the loop.\<close>

fun collect_pages ::
    "nat \<Rightarrow> (string \<Rightarrow> 'k::linorder) \<Rightarrow> real \<Rightarrow> sd_reader \<Rightarrow> nat \<Rightarrow> nat \<Rightarrow> string \<Rightarrow> collection \<Rightarrow> collection" where
  "collect_pages 0 key now read tenant target last_path st = st"
| "collect_pages (Suc n) key now read tenant target last_path st =
     (let rows = next_page key tenant target last_path (c_rows st) in
      if rows = [] then st
      else collect_pages n key now read tenant target (dt_path (last rows)) (collect_page now read rows st))"

definition flush_collection :: "real \<Rightarrow> collection \<Rightarrow> collection" where
  "flush_collection now st =
     (let st1 = (if c_sds st = [] then st else st\<lparr>c_stored := upsert_sd_batch (c_sds st) (c_stored st), c_sds := []\<rparr>)
      in if c_updates st1 = [] then st1
         else st1\<lparr>c_rows := update_hashes now (c_updates st1) (c_rows st1), c_updates := []\<rparr>)"

definition start_collection :: "dir_row list \<Rightarrow> string list \<Rightarrow> collection" where
  "start_collection tbl stored =
     \<lparr>c_rows = tbl, c_stored = stored, c_seen = [], c_sds = [], c_updates = [], c_processed = 0, c_world = 0\<rparr>"

definition collect_security_descriptors ::
    "(string \<Rightarrow> 'k::linorder) \<Rightarrow> real \<Rightarrow> sd_reader \<Rightarrow> nat \<Rightarrow> nat \<Rightarrow> dir_row list \<Rightarrow> string list \<Rightarrow> collection" where
  "collect_security_descriptors key now read tenant target tbl stored =
     (let total_dirs = length (filter (without_sd tenant target) tbl) in
      if total_dirs = 0 then start_collection tbl stored
      else flush_collection now (collect_pages (Suc (length tbl)) key now read tenant target [] (start_collection tbl stored)))"

section \<open>What the collection leaves\<close>

text \<open>The reference: every row of the target without a hash, whose descriptor can be read, gets it.\<close>

definition described :: "real \<Rightarrow> sd_reader \<Rightarrow> nat \<Rightarrow> nat \<Rightarrow> dir_row \<Rightarrow> dir_row" where
  "described now read tenant target r =
     (if without_sd tenant target r \<and> dt_path r \<noteq> [] then
        (case read (dt_path r) of Some (h, w) \<Rightarrow> r\<lparr>dt_sd_hash := Some h, dt_updated := now\<rparr> | None \<Rightarrow> r)
      else r)"

definition collation :: "(string \<Rightarrow> 'k::linorder) \<Rightarrow> bool" where
  "collation key \<longleftrightarrow> inj key \<and> (\<forall>p. p \<noteq> [] \<longrightarrow> key [] < key p)"

definition hash_pairs :: "sd_reader \<Rightarrow> dir_row list \<Rightarrow> (nat \<times> string) list" where
  "hash_pairs read rows = List.map_filter (\<lambda>r. map_option (\<lambda>(h, w). (dt_id r, h)) (read (dt_path r))) rows"

lemma hash_pairs_append [simp]: "hash_pairs read (xs @ ys) = hash_pairs read xs @ hash_pairs read ys"
  by (induction xs) (auto simp: hash_pairs_def map_filter_simps split: option.split)

lemma hash_pairs_Cons:
  "hash_pairs read (r # rs) =
    (case read (dt_path r) of Some (h, w) \<Rightarrow> (dt_id r, h) # hash_pairs read rs | None \<Rightarrow> hash_pairs read rs)"
  by (simp add: hash_pairs_def map_filter_simps split: option.split prod.split)

lemma hash_pairs_ids: "fst ` set (hash_pairs read rows) \<subseteq> dt_id ` set rows"
  by (induction rows) (auto simp: hash_pairs_Cons hash_pairs_def map_filter_simps split: option.splits)

lemma map_of_hash_pairs:
  "distinct (map dt_id rows) \<Longrightarrow> map_of (hash_pairs read rows) i =
    (case List.find (\<lambda>r. dt_id r = i) rows of Some r \<Rightarrow> map_option fst (read (dt_path r)) | None \<Rightarrow> None)"
proof (induction rows)
  case (Cons r rs)
  have "map_of (hash_pairs read rs) (dt_id r) = None"
    using Cons.prems hash_pairs_ids [of read rs] by (force simp: map_of_eq_None_iff)
  with Cons show ?case by (auto simp: hash_pairs_Cons split: option.splits)
qed (simp add: hash_pairs_def map_filter_simps)

lemma hash_pairs_distinct: "distinct (map dt_id rows) \<Longrightarrow> distinct (map fst (hash_pairs read rows))"
proof (induction rows)
  case (Cons r rs)
  then show ?case using hash_pairs_ids [of read rs] by (auto simp: hash_pairs_Cons split: option.split)
qed (simp add: hash_pairs_def map_filter_simps)

lemma update_hashes_Nil [simp]: "update_hashes now [] tbl = tbl"
  by (simp add: update_hashes_def)

lemma update_hashes_append:
  "fst ` set ps \<inter> fst ` set qs = {} \<Longrightarrow>
    update_hashes now qs (update_hashes now ps tbl) = update_hashes now (ps @ qs) tbl"
proof -
  assume apart: "fst ` set ps \<inter> fst ` set qs = {}"
  have "map_of ps i = None" if "map_of qs i = Some h" for i h
    using apart map_of_SomeD [OF that] by (force simp: map_of_eq_None_iff)
  then show ?thesis by (auto simp: update_hashes_def map_add_def split: option.split)
qed

text \<open>The state after some pairs: a part of them is in the table, the rest waits.\<close>

definition collected :: "real \<Rightarrow> dir_row list \<Rightarrow> (nat \<times> string) list \<Rightarrow> collection \<Rightarrow> bool" where
  "collected now tbl acc st \<longleftrightarrow>
     (\<exists>ps. acc = ps @ c_updates st \<and> c_rows st = update_hashes now ps tbl)"

lemma collect_one_collected:
  assumes "collected now tbl acc st" and "distinct (map fst (acc @ [(i, h)]))" and "ids p = Some i"
  shows "collected now tbl (acc @ [(i, h)]) (collect_one now ids st (p, h, w))"
proof -
  obtain ps where ps: "acc = ps @ c_updates st" "c_rows st = update_hashes now ps tbl"
    using assms(1) by (auto simp: collected_def)
  have "fst ` set ps \<inter> fst ` set (c_updates st @ [(i, h)]) = {}" using assms(2) ps(1) by auto
  then have "update_hashes now (c_updates st @ [(i, h)]) (c_rows st) = update_hashes now (acc @ [(i, h)]) tbl"
    using update_hashes_append [of ps "c_updates st @ [(i, h)]" now tbl] ps by simp
  then show ?thesis using ps assms(3) by (auto simp: collected_def collect_one_def Let_def)
qed

lemma collect_batch_collected:
  assumes "\<And>r. r \<in> set rows \<Longrightarrow> ids (dt_path r) = Some (dt_id r)"
  shows "collected now tbl acc st \<Longrightarrow> distinct (map fst (acc @ hash_pairs read rows)) \<Longrightarrow>
    collected now tbl (acc @ hash_pairs read rows) (foldl (collect_one now ids) st (collect_batch read (map dt_path rows)))"
  using assms
proof (induction rows arbitrary: acc st)
  case (Cons r rs)
  show ?case
  proof (cases "read (dt_path r)")
    case None
    then show ?thesis using Cons by (simp add: hash_pairs_Cons collect_batch_def map_filter_simps)
  next
    case (Some x)
    obtain h w where x: "x = (h, w)" by (cases x)
    have "collected now tbl (acc @ [(dt_id r, h)]) (collect_one now ids st (dt_path r, h, w))"
      using Cons.prems Some x by (intro collect_one_collected) (auto simp: hash_pairs_Cons)
    then show ?thesis
      using Cons.IH [of "acc @ [(dt_id r, h)]"] Cons.prems Some x
      by (simp add: hash_pairs_Cons collect_batch_def map_filter_simps)
  qed
qed (simp add: hash_pairs_def collect_batch_def map_filter_simps)

lemma collected_processed [simp]: "collected now tbl acc (st\<lparr>c_processed := n\<rparr>) = collected now tbl acc st"
  by (simp add: collected_def)

lemma collect_page_collected:
  assumes "collected now tbl acc st" and "distinct (map fst (acc @ hash_pairs read rows))"
    and "distinct (map dt_path rows)"
  shows "collected now tbl (acc @ hash_pairs read rows) (collect_page now read rows st)"
proof -
  have "map_of (rev (map (\<lambda>r. (dt_path r, dt_id r)) rows)) (dt_path r) = Some (dt_id r)"
    if "r \<in> set rows" for r
    using assms(3) that by (intro map_of_is_SomeI) (auto simp: rev_map [symmetric] comp_def)
  then show ?thesis
    using collect_batch_collected [of rows _ now tbl acc st read] assms(1,2)
    by (simp add: collect_page_def Let_def)
qed

section \<open>Pages\<close>

definition todo :: "(string \<Rightarrow> 'k::linorder) \<Rightarrow> nat \<Rightarrow> nat \<Rightarrow> dir_row list \<Rightarrow> dir_row list" where
  "todo key tenant target tbl =
     sort_key (\<lambda>r. key (dt_path r)) (filter (\<lambda>r. without_sd tenant target r \<and> dt_path r \<noteq> []) tbl)"

lemma todo_paths:
  assumes "well_indexed tbl"
  shows "distinct (map dt_path (todo key t g tbl))" "distinct (map dt_id (todo key t g tbl))"
proof -
  have "distinct (map key_of tbl)" and ids: "distinct (map dt_id tbl)" using assms by (auto simp: well_indexed_def)
  then have "inj_on dt_path {r \<in> set tbl. without_sd t g r}" and "distinct tbl"
    by (auto simp: distinct_map inj_on_def key_of_def without_sd_def of_target_def)
  then show "distinct (map dt_path (todo key t g tbl))"
    by (auto simp: todo_def distinct_map intro: inj_on_subset)
  show "distinct (map dt_id (todo key t g tbl))"
    using ids by (auto simp: todo_def distinct_map intro: inj_on_subset)
qed

lemma todo_sorted:
  assumes "collation key" and "well_indexed tbl"
  shows "sorted_wrt (\<lambda>q r. key (dt_path q) < key (dt_path r)) (todo key t g tbl)"
proof -
  have "sorted (map (\<lambda>r. key (dt_path r)) (todo key t g tbl))" by (simp add: todo_def)
  moreover have "distinct (map (\<lambda>r. key (dt_path r)) (todo key t g tbl))"
    using todo_paths(1) [OF assms(2), of key t g] assms(1)
    by (auto simp: collation_def distinct_map inj_on_def inj_def)
  ultimately have "sorted_wrt (<) (map (\<lambda>r. key (dt_path r)) (todo key t g tbl))"
    by (simp add: strict_sorted_iff)
  then show ?thesis by (simp add: sorted_wrt_map)
qed

text \<open>Updates of rows already read leave the rows after the last path as they were.\<close>

lemma later_rows_unchanged:
  fixes key :: "string \<Rightarrow> 'k::linorder"
  assumes "\<And>r. r \<in> set tbl \<Longrightarrow> dt_id r \<in> fst ` set ps \<Longrightarrow> key (dt_path r) \<le> key p"
  shows "filter (\<lambda>r. without_sd t g r \<and> key p < key (dt_path r)) (update_hashes now ps tbl) =
    filter (\<lambda>r. without_sd t g r \<and> key p < key (dt_path r)) tbl"
  using assms
proof (induction tbl)
  case (Cons r tbl)
  have "map_of ps (dt_id r) = None \<or> key (dt_path r) \<le> key p"
    using Cons.prems [of r] by (force simp: map_of_eq_None_iff)
  moreover have "filter (\<lambda>r. without_sd t g r \<and> key p < key (dt_path r)) (update_hashes now ps tbl) =
      filter (\<lambda>r. without_sd t g r \<and> key p < key (dt_path r)) tbl"
    using Cons.prems by (intro Cons.IH) auto
  ultimately show ?case by (auto simp: update_hashes_def dest: leD split: option.split)
qed (simp add: update_hashes_def)

lemma next_page_todo:
  assumes "collation key" and "well_indexed tbl" and T: "todo key t g tbl = before @ rest"
    and p: "p = (if before = [] then [] else dt_path (last before))"
    and ps: "fst ` set ps \<subseteq> dt_id ` set before"
  shows "next_page key t g p (update_hashes now ps tbl) = take READ_BATCH rest"
proof -
  let ?f = "\<lambda>r. key (dt_path r)"
  have so: "sorted_wrt (\<lambda>q r. ?f q < ?f r) (before @ rest)" using todo_sorted [OF assms(1,2), of t g] T by simp
  have mem: "r \<in> set tbl \<and> without_sd t g r \<and> dt_path r \<noteq> []" if "r \<in> set (before @ rest)" for r
  proof -
    have "r \<in> set (todo key t g tbl)" using that T by simp
    then show ?thesis by (simp add: todo_def)
  qed
  have le: "?f r \<le> key p" if r: "r \<in> set before" for r
  proof -
    obtain bs b where b: "before = bs @ [b]" using r by (cases before rule: rev_cases) auto
    then show ?thesis using so r p by (auto simp: sorted_wrt_append intro: less_imp_le)
  qed
  have gt: "key p < ?f r" if "r \<in> set rest" for r
  proof (cases "before = []")
    case True
    then show ?thesis using mem [of r] that p assms(1) by (simp add: collation_def)
  next
    case False
    then show ?thesis using so that p by (auto simp: sorted_wrt_append)
  qed
  have nonempty: "key p < ?f r \<Longrightarrow> dt_path r \<noteq> []" for r
    using assms(1) by (cases "p = []") (auto simp: collation_def dest: less_trans)
  have same: "key (dt_path r) \<le> key p" if r: "r \<in> set tbl" "dt_id r \<in> fst ` set ps" for r
  proof -
    obtain b where b: "b \<in> set before" "dt_id b = dt_id r" using r(2) ps by auto
    then have "b = r" using mem [of b] r(1) assms(2) by (auto simp: well_indexed_def distinct_map inj_on_def)
    then show ?thesis using le b(1) by simp
  qed
  have "sort_key ?f (filter (\<lambda>r. without_sd t g r \<and> key p < ?f r) tbl) = filter (\<lambda>r. key p < ?f r) (todo key t g tbl)"
  proof -
    have "filter (\<lambda>r. without_sd t g r \<and> key p < ?f r) tbl =
        filter (\<lambda>r. key p < ?f r) (filter (\<lambda>r. without_sd t g r \<and> dt_path r \<noteq> []) tbl)"
      unfolding filter_filter using nonempty by (intro filter_cong refl) blast
    then show ?thesis by (simp add: todo_def filter_sort)
  qed
  also have "\<dots> = rest"
  proof -
    have "filter (\<lambda>r. key p < ?f r) before = []" using le by (force simp: filter_empty_conv)
    moreover have "filter (\<lambda>r. key p < ?f r) rest = rest" using gt by (simp add: filter_id_conv)
    ultimately show ?thesis using T by simp
  qed
  finally show ?thesis
    using later_rows_unchanged [of tbl ps key p t g now] same by (simp add: next_page_def)
qed

section \<open>The whole collection\<close>

lemma collect_pages_collected:
  assumes "collation key" and "well_indexed tbl"
  shows "todo key t g tbl = before @ rest \<Longrightarrow> p = (if before = [] then [] else dt_path (last before)) \<Longrightarrow>
    collected now tbl (hash_pairs read before) st \<Longrightarrow> length rest < n \<Longrightarrow>
    collected now tbl (hash_pairs read (todo key t g tbl)) (collect_pages n key now read t g p st)"
proof (induction n arbitrary: before rest p st)
  case (Suc n)
  obtain ps where ps: "hash_pairs read before = ps @ c_updates st" "c_rows st = update_hashes now ps tbl"
    using Suc.prems(3) by (auto simp: collected_def)
  have "fst ` set ps \<subseteq> dt_id ` set before" using hash_pairs_ids [of read before] ps(1) by auto
  then have page: "next_page key t g p (c_rows st) = take READ_BATCH rest"
    using next_page_todo [OF assms Suc.prems(1,2)] ps(2) by simp
  show ?case
  proof (cases "rest = []")
    case True
    then show ?thesis using Suc.prems(1,3) page by (simp add: Let_def)
  next
    case False
    let ?page = "take READ_BATCH rest"
    have page': "?page \<noteq> []" using False by (simp add: READ_BATCH_def)
    have split: "todo key t g tbl = before @ ?page @ drop READ_BATCH rest" using Suc.prems(1) by simp
    have ids: "distinct (map dt_id (before @ ?page))" and paths: "distinct (map dt_path ?page)"
      using todo_paths [OF assms(2), of key t g] unfolding split by (simp_all add: Int_Un_distrib del: append_take_drop_id)
    have "distinct (map fst (hash_pairs read (before @ ?page)))" by (rule hash_pairs_distinct [OF ids])
    then have step: "collected now tbl (hash_pairs read (before @ ?page)) (collect_page now read ?page st)"
      using collect_page_collected [OF Suc.prems(3), of read ?page] paths by simp
    have "collected now tbl (hash_pairs read (todo key t g tbl))
        (collect_pages n key now read t g (dt_path (last ?page)) (collect_page now read ?page st))"
    proof (rule Suc.IH [OF _ _ step])
      show "todo key t g tbl = (before @ ?page) @ drop READ_BATCH rest" using Suc.prems(1) by simp
      show "dt_path (last ?page) = (if before @ ?page = [] then [] else dt_path (last (before @ ?page)))"
        using page' by simp
      show "length (drop READ_BATCH rest) < n"
        using Suc.prems(4) False unfolding length_drop READ_BATCH_def by (cases rest) auto
    qed
    then show ?thesis using page page' by (simp add: Let_def)
  qed
qed simp

lemma flush_collected:
  assumes "collected now tbl acc st" and "distinct (map fst acc)"
  shows "c_rows (flush_collection now st) = update_hashes now acc tbl"
proof -
  obtain ps where ps: "acc = ps @ c_updates st" "c_rows st = update_hashes now ps tbl"
    using assms(1) by (auto simp: collected_def)
  then have "update_hashes now (c_updates st) (c_rows st) = update_hashes now acc tbl"
    using assms(2) update_hashes_append [of ps "c_updates st" now tbl] by simp
  then show ?thesis using ps by (auto simp: flush_collection_def Let_def)
qed

lemma find_by_id: "distinct (map dt_id rows) \<Longrightarrow> r \<in> set rows \<Longrightarrow> List.find (\<lambda>q. dt_id q = dt_id r) rows = Some r"
  by (induction rows) auto

lemma update_described:
  assumes "well_indexed tbl"
  shows "update_hashes now (hash_pairs read (todo key t g tbl)) tbl = map (described now read t g) tbl"
  unfolding update_hashes_def
proof (rule map_cong [OF refl])
  fix r assume r: "r \<in> set tbl"
  have "distinct (map dt_id (todo key t g tbl))" by (rule todo_paths(2) [OF assms])
  moreover have "List.find (\<lambda>q. dt_id q = dt_id r) (todo key t g tbl) =
      (if without_sd t g r \<and> dt_path r \<noteq> [] then Some r else None)"
  proof (cases "r \<in> set (todo key t g tbl)")
    case True
    then show ?thesis
      using find_by_id [OF todo_paths(2) [OF assms, of key t g] True] by (simp add: todo_def)
  next
    case False
    have "dt_id q \<noteq> dt_id r" if "q \<in> set (todo key t g tbl)" for q
      using that False r assms by (auto simp: todo_def well_indexed_def distinct_map inj_on_def)
    then have "List.find (\<lambda>q. dt_id q = dt_id r) (todo key t g tbl) = None" by (auto simp: find_None_iff)
    then show ?thesis using False r by (auto simp: todo_def)
  qed
  ultimately show "(case map_of (hash_pairs read (todo key t g tbl)) (dt_id r) of
      None \<Rightarrow> r | Some h \<Rightarrow> r\<lparr>dt_sd_hash := Some h, dt_updated := now\<rparr>) = described now read t g r"
    by (auto simp: map_of_hash_pairs described_def split: option.split)
qed

lemma collection_exact:
  assumes "collation key" and "well_indexed tbl"
  shows "c_rows (collect_security_descriptors key now read t g tbl stored) = map (described now read t g) tbl"
proof (cases "filter (without_sd t g) tbl = []")
  case True
  then have "map (described now read t g) tbl = tbl"
    by (intro map_idI) (auto simp: described_def filter_empty_conv)
  then show ?thesis using True by (simp add: collect_security_descriptors_def start_collection_def)
next
  case False
  have "collected now tbl (hash_pairs read (todo key t g tbl))
      (collect_pages (Suc (length tbl)) key now read t g [] (start_collection tbl stored))"
  proof (rule collect_pages_collected [OF assms])
    show "todo key t g tbl = [] @ todo key t g tbl" by simp
    show "collected now tbl (hash_pairs read []) (start_collection tbl stored)"
      by (simp add: collected_def start_collection_def hash_pairs_def map_filter_simps)
    show "length (todo key t g tbl) < Suc (length tbl)" by (simp add: todo_def less_Suc_eq_le)
  qed simp
  from flush_collected [OF this hash_pairs_distinct [OF todo_paths(2) [OF assms(2)]]]
  show ?thesis
    using update_described [OF assms(2)] False by (simp add: collect_security_descriptors_def del: collect_pages.simps)
qed

section \<open>A synchronisation with its collection\<close>

lemma described_unlinked: "unlinked (described now read t g r) = described now read t g (unlinked r)"
  by (auto simp: described_def without_sd_def of_target_def unlinked_def split: option.split)

lemma unlinked_map_described:
  "map unlinked mid = map unlinked rows \<Longrightarrow>
    map unlinked (map (described now read t g) mid) = map unlinked (map (described now read t g) rows)"
proof -
  have "map unlinked (map (described now read t g) xs) = map (described now read t g) (map unlinked xs)" for xs
    by (simp add: described_unlinked)
  then show "map unlinked mid = map unlinked rows \<Longrightarrow> ?thesis" by (simp only:)
qed

lemma unlinked_well_indexed:
  assumes "map unlinked mid = map unlinked rows" and "well_indexed rows"
  shows "well_indexed mid"
proof -
  have "map (f \<circ> unlinked) mid = map (f \<circ> unlinked) rows" for f :: "dir_row \<Rightarrow> 'b"
    using assms(1) by (metis map_map)
  from this [of dt_id] this [of key_of] show ?thesis
    using assms(2) by (simp add: well_indexed_def comp_def unlinked_fields)
qed

text \<open>
  C3: A synchronisation succeeds and brings the rows of a target in line with the listing, whatever
  the sizes of the batches: rows that are no longer listed are gone, rows whose folder changed carry
  its data, new folders have a row, and all other rows, those of other targets too, are
  untouched. With the collection of descriptors, which is the default, every row of the target that
  then has no hash and whose descriptor can be read has its hash as well, provided the run
  added or changed a row. Only the links to parents are resolved anew. The table has unique
  identifiers and unique paths per target, the listing gives every path once, the order
  of the database is a collation, and no row that stays hangs, by its link to a parent, on a row that goes
  (\<open>links_tidy\<close>): the key cascades, and \<open>reused_reference_loses_folder\<close> shows a listed folder lost
  where that fails.
\<close>

theorem delta_sync_exact:
  fixes key :: "string \<Rightarrow> 'k::linorder"
  assumes "well_indexed tbl" and "fresh_ids gen tbl" and "distinct (map fi_path L)" and "links_tidy t g L tbl"
    and "collation key"
    and "collect = map_option (\<lambda>read rows. c_rows (collect_security_descriptors key now' read t g rows stored)) reader"
  shows "\<exists>out. delta_sync_directory_tree gen pick collect t g now L tbl cps = Inr out \<and> r_total out = length L \<and>
    map unlinked (r_rows out) = map unlinked (case reader of
        Some read \<Rightarrow> if 0 < r_inserted out \<or> 0 < r_updated out
          then map (described now' read t g) (synced gen t g now L tbl) else synced gen t g now L tbl
      | None \<Rightarrow> synced gen t g now L tbl)"
proof -
  obtain out mid where out: "delta_sync_directory_tree gen pick collect t g now L tbl cps = Inr out" "r_total out = length L"
    and mid: "map unlinked mid = map unlinked (synced gen t g now L tbl)"
    and rows: "r_rows out = (case collect of Some f \<Rightarrow> if 0 < r_inserted out \<or> 0 < r_updated out then f mid else mid | None \<Rightarrow> mid)"
    using delta_sync_rows [OF assms(1-4), of pick collect now cps] by blast
  have "well_indexed mid"
    using unlinked_well_indexed [OF mid synced_well_indexed [OF assms(1-3)]] .
  then have "map unlinked (r_rows out) = map unlinked (case reader of
        Some read \<Rightarrow> if 0 < r_inserted out \<or> 0 < r_updated out
          then map (described now' read t g) (synced gen t g now L tbl) else synced gen t g now L tbl
      | None \<Rightarrow> synced gen t g now L tbl)"
    using rows mid unlinked_map_described [OF mid] collection_exact [OF assms(5)]
    by (cases reader) (simp_all add: assms(6))
  then show ?thesis using out by blast
qed

definition ex_reader :: sd_reader where
  "ex_reader p = (if p = ''/new/more'' then Some (''h'', True) else None)"

lemma collation_id: "collation (\<lambda>p :: string. p)"
  by (auto simp: collation_def neq_Nil_conv)

theorem delta_sync_exact_witness:
  "\<exists>out. delta_sync_directory_tree (\<lambda>k. k + 200) hd
      (Some (\<lambda>rows. c_rows (collect_security_descriptors (\<lambda>p. p) 10 ex_reader 1 1 rows []))) 1 1 9 ex_listing ex_table [] = Inr out \<and>
    r_total out = length ex_listing \<and> map unlinked (r_rows out) =
      map unlinked (if 0 < r_inserted out \<or> 0 < r_updated out
        then map (described 10 ex_reader 1 1) (synced (\<lambda>k. k + 200) 1 1 9 ex_listing ex_table)
        else synced (\<lambda>k. k + 200) 1 1 9 ex_listing ex_table)"
  by (rule delta_sync_exact [OF ex_table_ok(1) ex_fresh ex_table_ok(2) ex_links collation_id,
      where reader = "Some ex_reader", unfolded option.case]) simp

end
