(* ===== verification/Cloud_Listing.thy ===== *)
theory Cloud_Listing
  imports Py_Collections Py_Glob "HOL-Library.List_Lexorder" "HOL-Library.Char_ord"
begin

text \<open>
  What the storage adapters answer to a scan: \<^verbatim>\<open>src/openlabels/adapters/base.py\<close> (file
  filters, partitions, file information) and the recursive listing, the sample of keys and the top level
  prefixes of \<^verbatim>\<open>s3.py\<close>, \<^verbatim>\<open>gcs.py\<close> and \<^verbatim>\<open>azure_blob.py\<close>.

  The client libraries of the three services are parameters, one record each, with the pages they
  deliver. \<open>serves\<close> states what their documentation promises: names in lexicographic order, narrowed to
  a prefix, from an exclusive (S3) or inclusive (Cloud Storage) start. A call that fails answers the
  exception. The native filter of the Rust extension, listings of one level (\<open>recursive=False\<close>) and
  the times and permissions of a file are left out.
\<close>

section \<open>Strings\<close>

definition after_last :: "char \<Rightarrow> string \<Rightarrow> string" where
  "after_last c s = rev (takeWhile (\<lambda>x. x \<noteq> c) (rev s))"

definition strip_end :: "char \<Rightarrow> string \<Rightarrow> string" where
  "strip_end c s = rev (dropWhile (\<lambda>x. x = c) (rev s))"

text \<open>A string that the code tests for its truth: the empty one counts as absent.\<close>

definition given :: "string option \<Rightarrow> string option" where
  "given v = (case v of Some s \<Rightarrow> (if s = [] then None else Some s) | None \<Rightarrow> None)"

section \<open>Files and filters\<close>

record file_info =
  fi_path :: string
  fi_name :: string
  fi_size :: int
  fi_owner :: "string option"
  fi_adapter :: string
  fi_item :: string

record filter_config =
  exclude_extensions :: "string list"
  exclude_patterns :: "string list"
  exclude_accounts :: "string list"
  min_size_bytes :: "int option"
  max_size_bytes :: "int option"
  exclude_temp_files :: bool
  exclude_system_dirs :: bool

definition temp_extensions :: "string list" where
  "temp_extensions = [''tmp'', ''temp'', ''bak'', ''swp'', ''swo'', ''pyc'', ''pyo'', ''class'', ''o'', ''obj'', ''cache'']"

definition system_patterns :: "string list" where
  "system_patterns = [''.git/*'', ''.svn/*'', ''.hg/*'', ''node_modules/*'', ''__pycache__/*'', ''.venv/*'', ''venv/*'',
     ''.env/*'', ''*.egg-info/*'', ''dist/*'', ''build/*'', ''.tox/*'', ''.pytest_cache/*'']"

definition filter_post_init :: "filter_config \<Rightarrow> filter_config" where
  "filter_post_init f = f
     \<lparr>exclude_extensions := map (\<lambda>e. dropWhile (\<lambda>c. c = CHR ''.'') (str_lower e))
        (exclude_extensions f @ (if exclude_temp_files f then temp_extensions else [])),
      exclude_patterns := exclude_patterns f @ (if exclude_system_dirs f then system_patterns else [])\<rparr>"

definition default_filter :: filter_config where
  "default_filter = filter_post_init \<lparr>exclude_extensions = [], exclude_patterns = [], exclude_accounts = [],
     min_size_bytes = None, max_size_bytes = None, exclude_temp_files = True, exclude_system_dirs = True\<rparr>"

definition extension_of :: "string \<Rightarrow> string" where
  "extension_of n = (if CHR ''.'' \<in> set n then str_lower (after_last CHR ''.'' n) else [])"

definition path_excluded :: "string list \<Rightarrow> string \<Rightarrow> bool" where
  "path_excluded ps path = list_ex (\<lambda>p. fnmatch path p \<or> fnmatch path (''*/'' @ p)) ps"

definition account_excluded :: "string list \<Rightarrow> string option \<Rightarrow> bool" where
  "account_excluded accounts owner = (case given owner of
     None \<Rightarrow> False
   | Some w \<Rightarrow> list_ex (\<lambda>a. str_lower a = str_lower w \<or>
       ((CHR ''*'' \<in> set a \<or> CHR ''?'' \<in> set a) \<and> fnmatch (str_lower w) (str_lower a))) accounts)"

definition should_include :: "filter_config \<Rightarrow> file_info \<Rightarrow> bool" where
  "should_include f fi =
     (if exclude_extensions f \<noteq> [] \<and> extension_of (fi_name fi) \<in> set (exclude_extensions f) then False
      else if path_excluded (exclude_patterns f) (fi_path fi) then False
      else if account_excluded (exclude_accounts f) (fi_owner fi) then False
      else if (case min_size_bytes f of Some m \<Rightarrow> fi_size fi < m | None \<Rightarrow> False) then False
      else if (case max_size_bytes f of Some m \<Rightarrow> fi_size fi > m | None \<Rightarrow> False) then False
      else True)"

definition kept :: "filter_config option \<Rightarrow> file_info \<Rightarrow> bool" where
  "kept fc fi = (case fc of Some f \<Rightarrow> should_include f fi | None \<Rightarrow> True)"

definition label_compatible_extensions :: "string list" where
  "label_compatible_extensions = [''.docx'', ''.xlsx'', ''.pptx'', ''.pdf'', ''.doc'', ''.xls'', ''.ppt'', ''.csv'', ''.tsv'',
     ''.json'', ''.xml'', ''.txt'', ''.md'', ''.rst'', ''.html'', ''.htm'', ''.jpg'', ''.jpeg'', ''.png'', ''.gif'', ''.bmp'',
     ''.tiff'', ''.tif'', ''.zip'', ''.tar'', ''.gz'']"

definition is_label_compatible :: "string \<Rightarrow> bool" where
  "is_label_compatible n = (CHR ''.'' \<in> set n \<and>
     str_lower (CHR ''.'' # after_last CHR ''.'' n) \<in> set label_compatible_extensions)"

section \<open>Partitions\<close>

record partition_spec =
  start_after :: "string option"
  end_before :: "string option"
  spec_prefix :: "string option"
  spec_directory :: "string option"
  spec_site :: "string option"
  spec_user :: "string option"

definition whole_spec :: partition_spec where
  "whole_spec = \<lparr>start_after = None, end_before = None, spec_prefix = None, spec_directory = None, spec_site = None,
     spec_user = None\<rparr>"

definition without_none :: "(string \<times> string option) list \<Rightarrow> (string \<times> string) list" where
  "without_none kvs = List.map_filter (\<lambda>(k, v). map_option (Pair k) v) kvs"

definition spec_to_dict :: "partition_spec \<Rightarrow> (string \<times> string) list" where
  "spec_to_dict s = without_none
     [(''start_after'', start_after s), (''end_before'', end_before s), (''prefix'', spec_prefix s),
      (''directory'', spec_directory s), (''site_id'', spec_site s), (''user_id'', spec_user s)]"

definition spec_from_dict :: "(string \<times> string) list \<Rightarrow> partition_spec" where
  "spec_from_dict d = \<lparr>start_after = map_of d ''start_after'', end_before = map_of d ''end_before'',
     spec_prefix = map_of d ''prefix'', spec_directory = map_of d ''directory'', spec_site = map_of d ''site_id'',
     spec_user = map_of d ''user_id''\<rparr>"

section \<open>Object stores\<close>

text \<open>The exceptions of a call: those the coordinator catches (\<open>ConnectionError\<close>, \<open>OSError\<close>,
  \<open>RuntimeError\<close>, \<open>ValueError\<close>), with their text, and the others.\<close>

datatype call_error = Caught string | Uncaught string

record blob =
  blob_name :: string
  blob_size :: int

record s3_client =
  s3_pages :: "string \<Rightarrow> string option \<Rightarrow> nat option \<Rightarrow> call_error + blob list list"
  s3_prefix_pages :: "string \<Rightarrow> call_error + string list list"

record gcs_client =
  gcs_pages :: "string \<Rightarrow> string option \<Rightarrow> string option \<Rightarrow> call_error + blob list list"
  gcs_first :: "string \<Rightarrow> nat \<Rightarrow> call_error + blob list"
  gcs_prefixes :: "string \<Rightarrow> call_error + string list"

record azure_client =
  az_pages :: "string \<Rightarrow> call_error + blob list list"
  az_walk :: "string \<Rightarrow> call_error + (string \<times> bool) list"

text \<open>An adapter: its client, the bucket (and account) and the prefix it is configured with.\<close>

datatype cloud_adapter =
  S3 s3_client string string
| GCS gcs_client string string
| AzureBlob azure_client string string string

definition resolve_prefix :: "string \<Rightarrow> string \<Rightarrow> string" where
  "resolve_prefix pre target = (case filter (\<lambda>p. p \<noteq> []) [pre, target] of
     [] \<Rightarrow> [] | [p] \<Rightarrow> p | p # q # _ \<Rightarrow> p @ ''/'' @ q)"

primrec adapter_prefix :: "cloud_adapter \<Rightarrow> string" where
  "adapter_prefix (S3 c b p) = p"
| "adapter_prefix (GCS c b p) = p"
| "adapter_prefix (AzureBlob c a b p) = p"

primrec file_of :: "cloud_adapter \<Rightarrow> blob \<Rightarrow> file_info" where
  "file_of (S3 c bucket p) b = \<lparr>fi_path = ''s3://'' @ bucket @ ''/'' @ blob_name b,
     fi_name = after_last CHR ''/'' (blob_name b), fi_size = blob_size b, fi_owner = None, fi_adapter = ''s3'',
     fi_item = blob_name b\<rparr>"
| "file_of (GCS c bucket p) b = \<lparr>fi_path = ''gs://'' @ bucket @ ''/'' @ blob_name b,
     fi_name = after_last CHR ''/'' (blob_name b), fi_size = blob_size b, fi_owner = None, fi_adapter = ''gcs'',
     fi_item = blob_name b\<rparr>"
| "file_of (AzureBlob c account container p) b =
     \<lparr>fi_path = ''https://'' @ account @ ''.blob.core.windows.net/'' @ container @ ''/'' @ blob_name b,
     fi_name = after_last CHR ''/'' (blob_name b), fi_size = blob_size b, fi_owner = None, fi_adapter = ''azure_blob'',
     fi_item = blob_name b\<rparr>"

text \<open>What a listing loop does with an object: end the listing, pass over it, or yield it.\<close>

datatype verdict = Halt | Skip | Take

definition marker :: "string \<Rightarrow> bool" where
  "marker k = ends_with k ''/''"

definition past_end :: "string option \<Rightarrow> string \<Rightarrow> bool" where
  "past_end e k = (case given e of Some b \<Rightarrow> b \<le> k | None \<Rightarrow> False)"

definition s3_verdict :: "string option \<Rightarrow> blob \<Rightarrow> verdict" where
  "s3_verdict e b = (if past_end e (blob_name b) then Halt else if marker (blob_name b) then Skip else Take)"

definition gcs_verdict :: "string option \<Rightarrow> blob \<Rightarrow> verdict" where
  "gcs_verdict e b = (if marker (blob_name b) then Skip else if past_end e (blob_name b) then Halt else Take)"

definition azure_verdict :: "string option \<Rightarrow> string option \<Rightarrow> blob \<Rightarrow> verdict" where
  "azure_verdict a e b =
     (if marker (blob_name b) then Skip
      else if (case given a of Some k \<Rightarrow> blob_name b \<le> k | None \<Rightarrow> False) then Skip
      else if past_end e (blob_name b) then Halt else Take)"

text \<open>The loop over a page, with whether it hit the boundary, and the loop over the pages.\<close>

fun scan_page :: "(blob \<Rightarrow> verdict) \<Rightarrow> (file_info \<Rightarrow> bool) \<Rightarrow> (blob \<Rightarrow> file_info) \<Rightarrow> blob list \<Rightarrow> file_info list \<times> bool" where
  "scan_page v keep mk [] = ([], False)"
| "scan_page v keep mk (b # bs) = (case v b of
     Halt \<Rightarrow> ([], True)
   | Skip \<Rightarrow> scan_page v keep mk bs
   | Take \<Rightarrow> (let (fs, hit) = scan_page v keep mk bs in (if keep (mk b) then mk b # fs else fs, hit)))"

fun scan_pages :: "(blob \<Rightarrow> verdict) \<Rightarrow> (file_info \<Rightarrow> bool) \<Rightarrow> (blob \<Rightarrow> file_info) \<Rightarrow> blob list list \<Rightarrow> file_info list" where
  "scan_pages v keep mk [] = []"
| "scan_pages v keep mk (p # ps) =
     (let (fs, hit) = scan_page v keep mk p in fs @ (if hit then [] else scan_pages v keep mk ps))"

definition s3_list_files ::
  "s3_client \<Rightarrow> string \<Rightarrow> string \<Rightarrow> string \<Rightarrow> filter_config option \<Rightarrow> partition_spec option \<Rightarrow> call_error + file_info list" where
  "s3_list_files c bucket p target fc part =
     map_sum id (scan_pages (s3_verdict (Option.bind part end_before)) (kept fc) (file_of (S3 c bucket p)))
       (s3_pages c (resolve_prefix p target) (given (Option.bind part start_after)) None)"

definition gcs_list_files ::
  "gcs_client \<Rightarrow> string \<Rightarrow> string \<Rightarrow> string \<Rightarrow> filter_config option \<Rightarrow> partition_spec option \<Rightarrow> call_error + file_info list" where
  "gcs_list_files c bucket p target fc part =
     map_sum id (scan_pages (gcs_verdict (Option.bind part end_before)) (kept fc) (file_of (GCS c bucket p)))
       (gcs_pages c (resolve_prefix p target) (given (Option.bind part start_after)) (given (Option.bind part end_before)))"

definition azure_list_files ::
  "azure_client \<Rightarrow> string \<Rightarrow> string \<Rightarrow> string \<Rightarrow> string \<Rightarrow> filter_config option \<Rightarrow> partition_spec option \<Rightarrow>
   call_error + file_info list" where
  "azure_list_files c account container p target fc part =
     map_sum id (scan_pages (azure_verdict (Option.bind part start_after) (Option.bind part end_before)) (kept fc)
         (file_of (AzureBlob c account container p)))
       (az_pages c (resolve_prefix p target))"

primrec list_files ::
  "cloud_adapter \<Rightarrow> string \<Rightarrow> filter_config option \<Rightarrow> partition_spec option \<Rightarrow> call_error + file_info list" where
  "list_files (S3 c bucket p) = s3_list_files c bucket p"
| "list_files (GCS c bucket p) = gcs_list_files c bucket p"
| "list_files (AzureBlob c account container p) = azure_list_files c account container p"

definition s3_prefixes :: "s3_client \<Rightarrow> string \<Rightarrow> string \<Rightarrow> call_error + string list" where
  "s3_prefixes c p target = map_sum id concat (s3_prefix_pages c (resolve_prefix p target))"

definition gcs_top_prefixes :: "gcs_client \<Rightarrow> string \<Rightarrow> string \<Rightarrow> call_error + string list" where
  "gcs_top_prefixes c p target = gcs_prefixes c (resolve_prefix p target)"

definition azure_prefixes :: "azure_client \<Rightarrow> string \<Rightarrow> string \<Rightarrow> call_error + string list" where
  "azure_prefixes c p target =
     map_sum id (\<lambda>items. map fst (filter (\<lambda>(n, sized). \<not> sized) items)) (az_walk c (resolve_prefix p target))"

primrec list_top_level_prefixes :: "cloud_adapter \<Rightarrow> string \<Rightarrow> call_error + string list" where
  "list_top_level_prefixes (S3 c b p) = s3_prefixes c p"
| "list_top_level_prefixes (GCS c b p) = gcs_top_prefixes c p"
| "list_top_level_prefixes (AzureBlob c a b p) = azure_prefixes c p"

definition counted :: "blob list \<Rightarrow> nat \<times> string list" where
  "counted bs = (let keys = filter (\<lambda>k. \<not> marker k) (map blob_name bs) in (length keys, keys))"

definition s3_estimate :: "s3_client \<Rightarrow> string \<Rightarrow> string \<Rightarrow> nat \<Rightarrow> call_error + nat \<times> string list" where
  "s3_estimate c p target limit = map_sum id (counted \<circ> concat) (s3_pages c (resolve_prefix p target) None (Some limit))"

definition gcs_estimate :: "gcs_client \<Rightarrow> string \<Rightarrow> string \<Rightarrow> nat \<Rightarrow> call_error + nat \<times> string list" where
  "gcs_estimate c p target limit = map_sum id counted (gcs_first c (resolve_prefix p target) limit)"

definition azure_estimate :: "azure_client \<Rightarrow> string \<Rightarrow> string \<Rightarrow> nat \<Rightarrow> call_error + nat \<times> string list" where
  "azure_estimate c p target limit = map_sum id (counted \<circ> take limit \<circ> concat) (az_pages c (resolve_prefix p target))"

primrec estimate_object_count :: "cloud_adapter \<Rightarrow> string \<Rightarrow> nat \<Rightarrow> call_error + nat \<times> string list" where
  "estimate_object_count (S3 c b p) = s3_estimate c p"
| "estimate_object_count (GCS c b p) = gcs_estimate c p"
| "estimate_object_count (AzureBlob c a b p) = azure_estimate c p"

lemmas adapter_operations [simp] = s3_list_files_def gcs_list_files_def azure_list_files_def s3_prefixes_def
  gcs_top_prefixes_def azure_prefixes_def s3_estimate_def gcs_estimate_def azure_estimate_def

section \<open>What the services promise\<close>

definition in_order :: "blob list \<Rightarrow> bool" where
  "in_order objs = sorted_wrt (\<lambda>b c. blob_name b < blob_name c) objs"

definition under :: "string \<Rightarrow> blob list \<Rightarrow> blob list" where
  "under pre objs = filter (\<lambda>b. starts_with (blob_name b) pre) objs"

definition not_below :: "string option \<Rightarrow> string \<Rightarrow> bool" where
  "not_below a k = (case a of Some x \<Rightarrow> x \<le> k | None \<Rightarrow> True)"

definition above :: "string option \<Rightarrow> string \<Rightarrow> bool" where
  "above a k = (case a of Some x \<Rightarrow> x < k | None \<Rightarrow> True)"

definition before :: "string option \<Rightarrow> string \<Rightarrow> bool" where
  "before e k = (case e of Some x \<Rightarrow> k < x | None \<Rightarrow> True)"

definition delivers_pages :: "call_error + blob list list \<Rightarrow> blob list \<Rightarrow> bool" where
  "delivers_pages r bs = (case r of Inr pgs \<Rightarrow> concat pgs = bs | Inl _ \<Rightarrow> False)"

primrec serves :: "cloud_adapter \<Rightarrow> blob list \<Rightarrow> bool" where
  "serves (S3 c b p) objs = (in_order objs \<and> (\<forall>pre a m. delivers_pages (s3_pages c pre a m)
     ((case m of Some n \<Rightarrow> take n | None \<Rightarrow> id) (filter (\<lambda>x. above a (blob_name x)) (under pre objs)))))"
| "serves (GCS c b p) objs = (in_order objs \<and>
     (\<forall>pre a e. delivers_pages (gcs_pages c pre a e)
        (filter (\<lambda>x. not_below a (blob_name x) \<and> before e (blob_name x)) (under pre objs))) \<and>
     (\<forall>pre n. gcs_first c pre n = Inr (take n (under pre objs))))"
| "serves (AzureBlob c a b p) objs = (in_order objs \<and> (\<forall>pre. delivers_pages (az_pages c pre) (under pre objs)))"

section \<open>The listing of a partition\<close>

named_theorems listing

lemma in_order_under: "in_order objs \<Longrightarrow> in_order (under pre objs)"
  by (simp add: in_order_def under_def sorted_wrt_filter_list)

lemma past_end_up: "past_end e k \<Longrightarrow> k < l \<Longrightarrow> past_end e l"
  by (auto simp: past_end_def split: option.splits)

lemma verdict_halts [listing]:
  "s3_verdict e b = Halt \<Longrightarrow> blob_name b < blob_name c \<Longrightarrow> s3_verdict e c \<noteq> Take"
  "gcs_verdict e b = Halt \<Longrightarrow> blob_name b < blob_name c \<Longrightarrow> gcs_verdict e c \<noteq> Take"
  "azure_verdict a e b = Halt \<Longrightarrow> blob_name b < blob_name c \<Longrightarrow> azure_verdict a e c \<noteq> Take"
  using past_end_up [of e "blob_name b" "blob_name c"]
  by (simp_all add: s3_verdict_def gcs_verdict_def azure_verdict_def split: if_splits)

lemma scan_page_exact:
  assumes "sorted_wrt (\<lambda>b c. v b = Halt \<longrightarrow> v c \<noteq> Take) bs"
  shows "fst (scan_page v keep mk bs) = filter keep (map mk (filter (\<lambda>b. v b = Take) bs))"
    and "snd (scan_page v keep mk bs) \<longleftrightarrow> Halt \<in> v ` set bs"
  using assms by (induction bs) (auto split: verdict.splits prod.splits simp: filter_empty_conv)

lemma scan_pages_exact:
  "sorted_wrt (\<lambda>b c. v b = Halt \<longrightarrow> v c \<noteq> Take) (concat pgs) \<Longrightarrow>
   scan_pages v keep mk pgs = filter keep (map mk (filter (\<lambda>b. v b = Take) (concat pgs)))"
proof (induction pgs)
  case (Cons p ps)
  obtain fs hit where pg: "scan_page v keep mk p = (fs, hit)" by fastforce
  have ord: "sorted_wrt (\<lambda>b c. v b = Halt \<longrightarrow> v c \<noteq> Take) p"
    "sorted_wrt (\<lambda>b c. v b = Halt \<longrightarrow> v c \<noteq> Take) (concat ps)"
    and across: "\<forall>b\<in>set p. \<forall>c\<in>set (concat ps). v b = Halt \<longrightarrow> v c \<noteq> Take"
    using Cons.prems by (auto simp: sorted_wrt_append)
  have "hit \<Longrightarrow> filter (\<lambda>b. v b = Take) (concat ps) = []"
    using scan_page_exact(2) [OF ord(1), of keep mk] across pg by (fastforce simp: filter_empty_conv)
  then show ?case using Cons.IH [OF ord(2)] scan_page_exact(1) [OF ord(1), of keep mk] pg by auto
qed simp

lemma ordered_halts:
  assumes "in_order bs" "\<And>b c. v b = Halt \<Longrightarrow> blob_name b < blob_name c \<Longrightarrow> v c \<noteq> Take"
  shows "sorted_wrt (\<lambda>b c. v b = Halt \<longrightarrow> v c \<noteq> Take) bs"
  using assms(1) unfolding in_order_def by (rule sorted_wrt_mono_rel [rotated]) (use assms(2) in blast)

text \<open>The keys a partition covers, by adapter.\<close>

primrec starts_in :: "cloud_adapter \<Rightarrow> string option \<Rightarrow> string \<Rightarrow> bool" where
  "starts_in (S3 c b p) a = above a"
| "starts_in (GCS c b p) a = not_below a"
| "starts_in (AzureBlob c a' b p) a = above a"

definition in_part :: "cloud_adapter \<Rightarrow> partition_spec option \<Rightarrow> string \<Rightarrow> bool" where
  "in_part ad part k \<longleftrightarrow> starts_in ad (given (Option.bind part start_after)) k \<and>
     before (given (Option.bind part end_before)) k"

text \<open>The objects that a scan of the whole target reads.\<close>

definition scannable :: "cloud_adapter \<Rightarrow> string \<Rightarrow> blob list \<Rightarrow> blob list" where
  "scannable ad target objs = filter (\<lambda>x. \<not> marker (blob_name x)) (under (resolve_prefix (adapter_prefix ad) target) objs)"

definition listed :: "cloud_adapter \<Rightarrow> filter_config option \<Rightarrow> blob list \<Rightarrow> file_info list" where
  "listed ad fc bs = filter (kept fc) (map (file_of ad) bs)"

lemma before_past: "before (given e) k \<longleftrightarrow> \<not> past_end e k"
  by (auto simp: before_def past_end_def split: option.splits)

lemma delivered:
  assumes "delivers_pages r bs" "in_order bs"
    "\<And>b c. v b = Halt \<Longrightarrow> blob_name b < blob_name c \<Longrightarrow> v c \<noteq> Take"
  shows "map_sum id (scan_pages v keep mk) r = Inr (filter keep (map mk (filter (\<lambda>b. v b = Take) bs)))"
proof -
  obtain pgs where "r = Inr pgs" "concat pgs = bs"
    using assms(1) by (auto simp: delivers_pages_def split: sum.splits)
  then show ?thesis using scan_pages_exact [of v pgs keep mk] ordered_halts [OF assms(2), of v] assms(3) by auto
qed

lemma listing_of_partition:
  assumes "serves ad objs"
  shows "list_files ad target fc part =
    Inr (listed ad fc (filter (\<lambda>x. in_part ad part (blob_name x)) (scannable ad target objs)))"
proof (cases ad)
  case (S3 c b p)
  let ?e = "Option.bind part end_before" and ?a = "given (Option.bind part start_after)"
  let ?bs = "filter (\<lambda>x. above ?a (blob_name x)) (under (resolve_prefix p target) objs)"
  have "in_order ?bs" using assms S3 in_order_under [of objs] by (simp add: in_order_def sorted_wrt_filter_list)
  moreover have "delivers_pages (s3_pages c (resolve_prefix p target) ?a None) ?bs"
    using assms unfolding S3 serves.simps by (elim conjE allE [where x = "None :: nat option"] allE) (auto dest: spec)
  ultimately show ?thesis using S3
    by (simp add: delivered [OF _ _ verdict_halts(1)])
      (auto simp: listed_def scannable_def in_part_def before_past s3_verdict_def intro!: arg_cong [where f = "filter _"]
        arg_cong [where f = "map _"] filter_cong)
next
  case (GCS c b p)
  let ?e = "Option.bind part end_before" and ?a = "given (Option.bind part start_after)"
  let ?bs = "filter (\<lambda>x. not_below ?a (blob_name x) \<and> before (given ?e) (blob_name x)) (under (resolve_prefix p target) objs)"
  have "in_order ?bs" using assms GCS in_order_under [of objs] by (simp add: in_order_def sorted_wrt_filter_list)
  moreover have "delivers_pages (gcs_pages c (resolve_prefix p target) ?a (given ?e)) ?bs" using assms GCS by auto
  ultimately show ?thesis using GCS
    by (simp add: delivered [OF _ _ verdict_halts(2)])
      (auto simp: listed_def scannable_def in_part_def before_past gcs_verdict_def intro!: arg_cong [where f = "filter _"]
        arg_cong [where f = "map _"] filter_cong)
next
  case (AzureBlob c a b p)
  let ?e = "Option.bind part end_before" and ?a = "Option.bind part start_after"
  have "in_order (under (resolve_prefix p target) objs)" using assms AzureBlob in_order_under [of objs] by simp
  moreover have "delivers_pages (az_pages c (resolve_prefix p target)) (under (resolve_prefix p target) objs)"
    using assms AzureBlob by simp
  ultimately show ?thesis using AzureBlob
    by (simp add: delivered [OF _ _ verdict_halts(3)])
      (auto simp: listed_def scannable_def in_part_def before_past azure_verdict_def above_def
        intro!: arg_cong [where f = "filter _"] arg_cong [where f = "map _"] filter_cong split: option.splits)
qed

lemma start_in_None [simp]: "starts_in ad None k" "before None k"
  by (cases ad) (simp_all add: above_def not_below_def before_def)

lemma given_None [simp]: "given None = None"
  by (simp add: given_def)

lemma listing_of_target:
  "serves ad objs \<Longrightarrow> list_files ad target fc None = Inr (listed ad fc (scannable ad target objs))"
  by (simp add: listing_of_partition in_part_def)

text \<open>A serialised partition is read back as it was.\<close>

lemma map_of_given:
  "distinct (map fst kvs) \<Longrightarrow>
   map_of (without_none kvs) x = Option.bind (map_of kvs x) (\<lambda>v. v)"
proof (induction kvs)
  case (Cons kv kvs)
  have "x \<notin> fst ` set kvs \<Longrightarrow> map_of kvs x = None" by (simp add: map_of_eq_None_iff)
  with Cons show ?case by (cases kv) (auto simp: without_none_def split: option.splits)
qed (simp add: without_none_def)

lemma spec_roundtrip: "spec_from_dict (spec_to_dict s) = s"
  unfolding spec_from_dict_def spec_to_dict_def by (simp add: map_of_given)

section \<open>What the filters exclude\<close>

lemma fnmatch_star_append: "fnmatch s p \<Longrightarrow> fnmatch (a @ s) (CHR ''*'' # p)"
  by (induction a) (simp_all add: fnmatch.simps(2) [of _ "CHR ''*''" p])

lemma fnmatch_literal_star:
  "list_all (\<lambda>c. c \<notin> set ''*?['') d \<Longrightarrow> fnmatch (d @ r) (d @ ''*'')"
  by (simp add: fnmatch_prefix_star starts_with_iff)

lemma after_last_end: "c \<notin> set e \<Longrightarrow> after_last c (s @ c # e) = e"
proof -
  assume "c \<notin> set e"
  then have "\<And>r. takeWhile (\<lambda>x. x \<noteq> c) (rev e @ c # r) = rev e" by (subst takeWhile_append2) auto
  then show ?thesis by (simp add: after_last_def)
qed

text \<open>The files under a system directory at any depth, and the files with a temporary extension in any
  letter case, are excluded by default.\<close>

lemma system_directories_excluded:
  assumes "d @ ''*'' \<in> set system_patterns" "list_all (\<lambda>c. c \<notin> set ''*?['') d"
    and "fi_path fi = d @ rest \<or> fi_path fi = pre @ ''/'' @ d @ rest"
  shows "\<not> should_include default_filter fi"
proof -
  have "fnmatch (d @ rest) (d @ ''*'')" by (rule fnmatch_literal_star) (rule assms(2))
  moreover have "fnmatch (pre @ (''/'' @ d) @ rest) (CHR ''*'' # (''/'' @ d) @ ''*'')"
    by (rule fnmatch_star_append, rule fnmatch_literal_star) (use assms(2) in simp)
  ultimately have "path_excluded system_patterns (fi_path fi)"
    using assms(1,3) unfolding path_excluded_def list_ex_iff by (auto intro!: bexI [of _ "d @ ''*''"])
  then show ?thesis by (simp add: should_include_def default_filter_def filter_post_init_def)
qed

lemma temporary_files_excluded:
  assumes "str_lower e \<in> set temp_extensions" "CHR ''.'' \<notin> set e" "fi_name fi = stem @ ''.'' @ e"
  shows "\<not> should_include default_filter fi"
proof -
  have "extension_of (fi_name fi) = str_lower e" using assms(2,3) after_last_end [of "CHR ''.''" e stem] by (simp add: extension_of_def)
  moreover have "map (\<lambda>e. dropWhile (\<lambda>c. c = CHR ''.'') (str_lower e)) temp_extensions = temp_extensions" by code_simp
  ultimately show ?thesis using assms(1) by (auto simp: should_include_def default_filter_def filter_post_init_def)
qed

lemma lower_char_dot: "lower_char x = CHR ''.'' \<Longrightarrow> x = CHR ''.''"
proof (cases "is_upper x")
  case True
  assume "lower_char x = CHR ''.''"
  then have "chr_code (char_of (chr_code x + 32)) = 46" using True by (simp add: lower_char_def) (simp add: chr_code_def)
  then show ?thesis using True by (simp add: is_upper_def chr_code_char_of)
qed (simp add: lower_char_def)

text \<open>An extension of two parts excludes nothing.\<close>

lemma double_extension_ignored:
  assumes "CHR ''.'' \<in> set e"
  shows "extension_of n \<noteq> e"
proof -
  have "CHR ''.'' \<notin> set (after_last CHR ''.'' n)" by (auto simp: after_last_def dest: set_takeWhileD)
  then have "CHR ''.'' \<notin> set (str_lower (after_last CHR ''.'' n))"
    unfolding str_lower_def set_map by (metis imageE lower_char_dot)
  then show ?thesis using assms by (auto simp: extension_of_def)
qed

end
