(* ===== verification/Scan_Coordinator.thy ===== *)
theory Scan_Coordinator
  imports Cloud_Listing Job_Queue
begin

text \<open>
  Scans split over several workers: \<^verbatim>\<open>src/openlabels/jobs/coordinator.py\<close> (whether a scan is split,
  its partitions and their queued jobs) and the end of a partition's scan in
  \<^verbatim>\<open>src/openlabels/jobs/tasks/scan_partition.py\<close>, where the workers meet: the partition's status, the
  advisory lock and the totals of the parent job.

  \<open>fan_step\<close> interleaves the workers of one job. A worker is between two commits in a \<open>phase\<close>; the lock
  is held by the workers in the phases \<open>Holding\<close> and \<open>Leaving\<close>, from its request to the end of the
  transaction. The number a process derives from the job's identifier is the parameter \<open>lock_id\<close>. The
  files of a partition, its inventory and the progress messages are elsewhere or left out.
\<close>

section \<open>The decision\<close>

record fanout_settings =
  set_enabled :: "bool option"
  set_threshold :: "nat option"
  set_max_partitions :: "nat option"

definition DEFAULT_FANOUT_ENABLED :: bool where "DEFAULT_FANOUT_ENABLED = True"
definition DEFAULT_FANOUT_THRESHOLD :: nat where "DEFAULT_FANOUT_THRESHOLD = 10000"
definition DEFAULT_FANOUT_MAX_PARTITIONS :: nat where "DEFAULT_FANOUT_MAX_PARTITIONS = 16"
definition MIN_PARTITION_SIZE :: nat where "MIN_PARTITION_SIZE = 1000"

text \<open>A setting that is there, else the default.\<close>

definition setting :: "(fanout_settings \<Rightarrow> 'a option) \<Rightarrow> 'a \<Rightarrow> fanout_settings option \<Rightarrow> 'a" where
  "setting f d st = (case Option.bind st f of Some v \<Rightarrow> v | None \<Rightarrow> d)"

definition fanout_enabled :: "fanout_settings option \<Rightarrow> bool" where
  "fanout_enabled = setting set_enabled DEFAULT_FANOUT_ENABLED"

definition fanout_threshold :: "fanout_settings option \<Rightarrow> nat" where
  "fanout_threshold = setting set_threshold DEFAULT_FANOUT_THRESHOLD"

definition fanout_max_partitions :: "fanout_settings option \<Rightarrow> nat" where
  "fanout_max_partitions = setting set_max_partitions DEFAULT_FANOUT_MAX_PARTITIONS"

text \<open>The values the settings page stores.\<close>

definition clamped_settings :: "bool \<Rightarrow> int \<Rightarrow> int \<Rightarrow> fanout_settings" where
  "clamped_settings on threshold partitions = \<lparr>set_enabled = Some on,
     set_threshold = Some (nat (max 100 (min threshold 1000000))),
     set_max_partitions = Some (nat (max 1 (min partitions 128)))\<rparr>"

record fanout_decision =
  should_fanout :: bool
  fanout_reason :: string
  estimated_files :: nat
  num_partitions :: nat

definition single_worker :: "string \<Rightarrow> nat \<Rightarrow> fanout_decision" where
  "single_worker r est = \<lparr>should_fanout = False, fanout_reason = r, estimated_files = est, num_partitions = 0\<rparr>"

definition target_path :: "(string \<times> string) list \<Rightarrow> string" where
  "target_path config = (case given (map_of config ''path'') of
     Some p \<Rightarrow> p
   | None \<Rightarrow> (case given (map_of config ''bucket'') of Some b \<Rightarrow> b | None \<Rightarrow> []))"

definition split_in :: "nat \<Rightarrow> nat \<Rightarrow> nat" where
  "split_in most est = min most (max 2 (est div MIN_PARTITION_SIZE))"

text \<open>\<open>None\<close> is an adapter without the operations of an object store.\<close>

definition evaluate_fanout ::
  "fanout_settings option \<Rightarrow> string \<Rightarrow> (string \<times> string) list \<Rightarrow> cloud_adapter option \<Rightarrow> call_error + fanout_decision" where
  "evaluate_fanout st kind config adapter =
     (if \<not> fanout_enabled st then Inr (single_worker ''fanout_disabled'' 0)
      else if kind \<notin> {''s3'', ''gcs'', ''azure_blob''} then
        Inr (single_worker (''adapter_'' @ kind @ ''_not_partitionable'') 0)
      else (case adapter of
        None \<Rightarrow> Inr (single_worker ''adapter_missing_estimate_method'' 0)
      | Some ad \<Rightarrow> (case estimate_object_count ad (target_path config) (fanout_threshold st + 1) of
          Inl (Caught e) \<Rightarrow> Inr (single_worker (''estimate_failed: '' @ e) 0)
        | Inl e \<Rightarrow> Inl e
        | Inr (est, keys) \<Rightarrow>
            (if est < fanout_threshold st then
               Inr (single_worker (''below_threshold ('' @ show_nat est @ '' < '' @ show_nat (fanout_threshold st) @ '')'') est)
             else Inr \<lparr>should_fanout = True,
               fanout_reason = ''above_threshold ('' @ show_nat est @ '' >= '' @ show_nat (fanout_threshold st) @ '')'',
               estimated_files = est, num_partitions = split_in (fanout_max_partitions st) est\<rparr>))))"

section \<open>Partitions\<close>

definition range_spec :: "string option \<Rightarrow> string option \<Rightarrow> partition_spec" where
  "range_spec a e = whole_spec\<lparr>start_after := a, end_before := e\<rparr>"

definition prefix_group :: "string list \<Rightarrow> nat \<Rightarrow> nat \<Rightarrow> partition_spec option" where
  "prefix_group prefixes n i =
     (let chunk = length prefixes div n; from = i * chunk;
          until = (if i < n - 1 then from + chunk else length prefixes);
          group = take (until - from) (drop from prefixes)
      in if group = [] then None
         else Some (range_spec (if i > 0 then Some (strip_end CHR ''/'' (hd group)) else None)
           (if until < length prefixes then Some (strip_end CHR ''/'' (prefixes ! until)) else None)))"

definition prefix_partitions :: "cloud_adapter option \<Rightarrow> string \<Rightarrow> nat \<Rightarrow> call_error + partition_spec list" where
  "prefix_partitions adapter target n = (case adapter of
     None \<Rightarrow> Inr []
   | Some ad \<Rightarrow> (case list_top_level_prefixes ad target of
       Inl (Caught e) \<Rightarrow> Inr []
     | Inl e \<Rightarrow> Inl e
     | Inr prefixes \<Rightarrow>
         (if length prefixes < 2 then Inr []
          else if length prefixes \<le> n then Inr (map (\<lambda>p. whole_spec\<lparr>spec_prefix := Some p\<rparr>) prefixes)
          else if n = 0 then Inl (Uncaught ''ZeroDivisionError'')
          else Inr (List.map_filter (prefix_group prefixes n) [0..<n]))))"

definition key_range :: "string list \<Rightarrow> nat \<Rightarrow> nat \<Rightarrow> partition_spec" where
  "key_range keys n i =
     (let step = length keys div n; end_idx = (i + 1) * step
      in range_spec (if i > 0 then Some (keys ! (i * step)) else None)
           (if end_idx < length keys then Some (keys ! end_idx) else None))"

definition keyrange_partitions :: "cloud_adapter \<Rightarrow> string \<Rightarrow> nat \<Rightarrow> call_error + partition_spec list" where
  "keyrange_partitions ad target n = (case estimate_object_count ad target 10000 of
     Inl (Caught e) \<Rightarrow> Inr [whole_spec]
   | Inl e \<Rightarrow> Inl e
   | Inr (_, keys) \<Rightarrow>
       (if length keys < n * 2 then Inr [whole_spec]
        else if n = 0 then Inl (Uncaught ''ZeroDivisionError'')
        else Inr (map (key_range (sort keys) n) [0..<n])))"

definition partition_specs :: "cloud_adapter \<Rightarrow> string \<Rightarrow> nat \<Rightarrow> call_error + partition_spec list" where
  "partition_specs ad target n = res_bind (prefix_partitions (Some ad) target n) (\<lambda>specs.
     if length specs < 2 then keyrange_partitions ad target n else Inr specs)"

text \<open>The files the workers of all partitions list, one partition after the other.\<close>

fun scan_partitions ::
  "cloud_adapter \<Rightarrow> string \<Rightarrow> filter_config option \<Rightarrow> partition_spec list \<Rightarrow> call_error + file_info list" where
  "scan_partitions ad target fc [] = Inr []"
| "scan_partitions ad target fc (s # ss) = res_bind (list_files ad target fc (Some s)) (\<lambda>fs.
     map_sum id ((@) fs) (scan_partitions ad target fc ss))"

section \<open>Rows\<close>

record scan_job =
  sj_id :: uuid
  sj_tenant :: uuid
  scan_mode :: "string option"
  sj_status :: job_status
  sj_started :: "time option"
  sj_completed :: "time option"
  sj_error :: "string option"
  total_partitions :: nat
  partitions_completed :: nat
  partitions_failed :: nat
  total_files_estimated :: nat
  job_files_scanned :: nat
  job_files_with_pii :: nat

record scan_partition =
  sp_id :: uuid
  sp_tenant :: uuid
  sp_job :: uuid
  sp_index :: nat
  sp_total :: nat
  sp_spec :: "(string \<times> string) list"
  sp_status :: job_status
  files_scanned :: nat
  files_with_pii :: nat
  part_entities :: nat

definition fanout_job :: "time \<Rightarrow> nat \<Rightarrow> nat \<Rightarrow> scan_job \<Rightarrow> scan_job" where
  "fanout_job now actual est j = j\<lparr>scan_mode := Some ''fanout'', total_partitions := actual, partitions_completed := 0,
     partitions_failed := 0, total_files_estimated := est, sj_status := JS_RUNNING, sj_started := Some now\<rparr>"

definition partition_row :: "scan_job \<Rightarrow> (nat \<Rightarrow> uuid) \<Rightarrow> nat \<Rightarrow> nat \<Rightarrow> partition_spec \<Rightarrow> scan_partition" where
  "partition_row j ids actual i spec = \<lparr>sp_id = ids i, sp_tenant = sj_tenant j, sp_job = sj_id j, sp_index = i,
     sp_total = actual, sp_spec = spec_to_dict spec, sp_status = JS_PENDING, files_scanned = 0, files_with_pii = 0,
     part_entities = 0\<rparr>"

fun enqueue_partitions ::
  "'s job_db \<Rightarrow> scan_job \<Rightarrow> (nat \<Rightarrow> uuid) \<Rightarrow> (uuid \<Rightarrow> uuid \<Rightarrow> string) \<Rightarrow> time \<Rightarrow> scan_partition list \<Rightarrow> 's \<Rightarrow> 's" where
  "enqueue_partitions db j qids pay now [] s = s"
| "enqueue_partitions db j qids pay now (p # ps) s =
     enqueue_partitions db j qids pay now ps
       (snd (enqueue db (sj_tenant j) (qids (sp_index p)) now ''scan_partition'' (pay (sp_id p) (sj_id j)) 60 None s))"

definition create_partitions ::
  "'s job_db \<Rightarrow> (nat \<Rightarrow> uuid) \<Rightarrow> (nat \<Rightarrow> uuid) \<Rightarrow> (uuid \<Rightarrow> uuid \<Rightarrow> string) \<Rightarrow> time \<Rightarrow> cloud_adapter \<Rightarrow> (string \<times> string) list \<Rightarrow>
   nat \<Rightarrow> nat \<Rightarrow> scan_job \<Rightarrow> 's \<Rightarrow> call_error + scan_partition list \<times> scan_job \<times> 's" where
  "create_partitions db ids qids pay now ad config n est j s =
     res_bind (partition_specs ad (target_path config) n) (\<lambda>specs.
       let actual = length specs; j' = fanout_job now actual est j;
           parts = map (\<lambda>(i, spec). partition_row j' ids actual i spec) (List.enumerate 0 specs)
       in Inr (parts, j', enqueue_partitions db j' qids pay now parts s))"

section \<open>Ranges tile the keys\<close>

fun tiles :: "string option \<Rightarrow> string list \<Rightarrow> partition_spec list" where
  "tiles a [] = [range_spec a None]"
| "tiles a (b # bs) = range_spec a (Some b) # tiles (Some b) bs"







lemma length_tiles [simp]: "length (tiles a bs) = length bs + 1"
  by (induction bs arbitrary: a) simp_all





lemma in_part_range:
  "in_part ad (Some (range_spec a e)) k \<longleftrightarrow> starts_in ad (given a) k \<and> before (given e) k"
  by (simp add: in_part_def range_spec_def whole_spec_def)

lemma given_Some: "s \<noteq> [] \<Longrightarrow> given (Some s) = Some s"
  by (simp add: given_def)



lemma estimate_sample:
  assumes "serves ad objs"
  shows "estimate_object_count ad target limit =
    Inr (counted (take limit (under (resolve_prefix (adapter_prefix ad) target) objs)))"
proof (cases ad)
  case (S3 cl b p)
  let ?pre = "resolve_prefix (adapter_prefix ad) target"
  have "delivers_pages (s3_pages cl ?pre None (Some limit))
      ((case Some limit of Some n \<Rightarrow> take n | None \<Rightarrow> id) (filter (\<lambda>x. above None (blob_name x)) (under ?pre objs)))"
    using assms unfolding S3 serves.simps by blast
  then show ?thesis using S3 by (auto simp: delivers_pages_def above_def split: sum.splits)
next
  case (GCS cl b p)
  then show ?thesis using assms by simp
next
  case (AzureBlob cl a b p)
  then have "delivers_pages (az_pages cl (resolve_prefix p target)) (under (resolve_prefix p target) objs)" using assms by simp
  then show ?thesis using AzureBlob by (auto simp: delivers_pages_def split: sum.splits)
qed








section \<open>What the split gets wrong\<close>

text \<open>The adapters never look at the prefix of a partition: each partition by prefix lists the whole target.\<close>

lemma prefix_partition_lists_all: "list_files ad target fc (Some (whole_spec\<lparr>spec_prefix := p\<rparr>)) = list_files ad target fc None"
  by (cases ad) (simp_all add: whole_spec_def)

lemma prefix_partitions_repeat:
  assumes "list_top_level_prefixes ad target = Inr ps" "2 \<le> length ps" "length ps \<le> n"
    and "list_files ad target fc None = Inr whole"
  shows "\<exists>specs. partition_specs ad target n = Inr specs \<and>
    scan_partitions ad target fc specs = Inr (concat (replicate (length ps) whole))"
proof -
  have "scan_partitions ad target fc (map (\<lambda>p. whole_spec\<lparr>spec_prefix := Some p\<rparr>) qs) =
      Inr (concat (replicate (length qs) whole))" for qs
    by (induction qs) (simp_all add: prefix_partition_lists_all assms(4))
  then show ?thesis using assms(1-3) by (simp add: partition_specs_def prefix_partitions_def)
qed

text \<open>When the number of sampled keys is not a multiple, the last range ends at a sampled key: that object and
  all later ones, the whole bucket behind the sample, belong to no partition.\<close>

lemma key_ranges_miss_tail:
  assumes "sorted_wrt (<) ks" "0 < n" "n \<le> length ks" "\<not> n dvd length ks"
    and "s \<in> set (map (key_range ks n) [0..<n])" "in_part ad (Some s) k"
  shows "k < ks ! (n * (length ks div n))"
proof -
  obtain i where i: "i < n" "s = key_range ks n i" using assms(5) by auto
  have "n * (length ks div n) \<noteq> length ks" using assms(4) by (metis dvd_triv_left)
  then have tail: "n * (length ks div n) < length ks" using times_div_less_eq_dividend [of n "length ks"] by linarith
  have le: "(i + 1) * (length ks div n) \<le> n * (length ks div n)" using i by (intro mult_le_mono1) simp
  have pos: "0 < length ks div n" using assms(2,3) by (simp add: div_greater_zero_iff)
  have "ks ! 0 < ks ! ((i + 1) * (length ks div n))"
    using pos le tail by (intro sorted_wrt_nth_less [OF assms(1)]) auto
  then have "ks ! ((i + 1) * (length ks div n)) \<noteq> []" by auto
  then have "k < ks ! ((i + 1) * (length ks div n))"
    using assms(6) le tail by (simp add: i key_range_def Let_def in_part_range given_Some before_def split: if_splits)
  also have "\<dots> \<le> ks ! (n * (length ks div n))"
    using le tail assms(1) by (cases "(i + 1) * (length ks div n) = n * (length ks div n)")
      (auto intro!: less_imp_le sorted_wrt_nth_less [OF assms(1)])
  finally show ?thesis .
qed

text \<open>A target splits exactly when its sample has as many objects as the threshold; two directory markers in
  the sample are enough to keep a target of any size on one worker.\<close>

lemma fanout_decided:
  assumes "serves ad objs" "fanout_enabled st" "kind \<in> {''s3'', ''gcs'', ''azure_blob''}"
    and sample: "sample = take (fanout_threshold st + 1) (under (resolve_prefix (adapter_prefix ad) (target_path config)) objs)"
  shows "\<exists>d. evaluate_fanout st kind config (Some ad) = Inr d \<and>
    (should_fanout d \<longleftrightarrow> fanout_threshold st \<le> length (filter (\<lambda>x. \<not> marker (blob_name x)) sample)) \<and>
    (should_fanout d \<longrightarrow> estimated_files d \<le> fanout_threshold st + 1 \<and>
      num_partitions d \<le> fanout_max_partitions st \<and> num_partitions d \<le> max 2 ((fanout_threshold st + 1) div MIN_PARTITION_SIZE))"
proof -
  let ?est = "length (filter (\<lambda>x. \<not> marker (blob_name x)) sample)"
  have est: "estimate_object_count ad (target_path config) (fanout_threshold st + 1) = Inr (counted sample)"
    using estimate_sample [OF assms(1)] sample by simp
  have len: "fst (counted sample) = ?est" by (simp add: counted_def Let_def filter_map o_def)
  have "?est \<le> fanout_threshold st + 1"
    by (rule order_trans [OF length_filter_le]) (simp add: sample)
  moreover from this have "?est div MIN_PARTITION_SIZE \<le> (fanout_threshold st + 1) div MIN_PARTITION_SIZE"
    by (rule div_le_mono)
  ultimately show ?thesis using est len assms(2,3)
    by (cases "counted sample") (auto simp: evaluate_fanout_def single_worker_def split_in_def)
qed

lemma markers_defeat_fanout:
  assumes "serves ad objs" "fanout_enabled st" "kind \<in> {''s3'', ''gcs'', ''azure_blob''}"
    and "2 \<le> length (filter (\<lambda>x. marker (blob_name x))
      (take (fanout_threshold st + 1) (under (resolve_prefix (adapter_prefix ad) (target_path config)) objs)))"
  shows "\<exists>d. evaluate_fanout st kind config (Some ad) = Inr d \<and> \<not> should_fanout d"
proof -
  let ?sample = "take (fanout_threshold st + 1) (under (resolve_prefix (adapter_prefix ad) (target_path config)) objs)"
  have "length (filter (\<lambda>x. \<not> marker (blob_name x)) ?sample) + 2 \<le> length ?sample"
    using assms(4) sum_length_filter_compl [of "\<lambda>x. marker (blob_name x)" ?sample] by linarith
  moreover have "length ?sample \<le> fanout_threshold st + 1" by simp
  ultimately have "\<not> fanout_threshold st \<le> length (filter (\<lambda>x. \<not> marker (blob_name x)) ?sample)" by linarith
  then show ?thesis using fanout_decided [OF assms(1-3) refl, of config] by auto
qed

section \<open>A bucket\<close>

definition s3_bucket :: "string list \<Rightarrow> blob list \<Rightarrow> s3_client" where
  "s3_bucket prefixes objs = \<lparr>s3_pages = (\<lambda>pre a m. Inr [(case m of Some n \<Rightarrow> take n | None \<Rightarrow> id)
       (filter (\<lambda>x. above a (blob_name x)) (under pre objs))]), s3_prefix_pages = (\<lambda>pre. Inr [prefixes])\<rparr>"

definition ex_objects :: "blob list" where
  "ex_objects = map (\<lambda>k. \<lparr>blob_name = k, blob_size = 1\<rparr>) [''a/1'', ''b/1'', ''c'', ''c/1'', ''d/1'']"

definition ex_prefixes :: "string list" where "ex_prefixes = [''a/'', ''b/'', ''c/'', ''d/'']"

definition ex_s3 :: cloud_adapter where "ex_s3 = S3 (s3_bucket ex_prefixes ex_objects) ''bucket'' []"




text \<open>The object \<open>c\<close> is scanned by no worker.\<close>

lemma boundary_object_lost:
  "map_sum id (map fi_item) (list_files ex_s3 [] None None) = Inr [''a/1'', ''b/1'', ''c'', ''c/1'', ''d/1''] \<and>
   map_sum id (map fi_item) (res_bind (partition_specs ex_s3 [] 2) (scan_partitions ex_s3 [] None)) =
     Inr [''a/1'', ''b/1'', ''c/1'', ''d/1'']"
  by code_simp

section \<open>Where the workers meet\<close>

text \<open>\<open>_check_and_aggregate\<close> once it has the lock: the count of partitions that are not settled, and the totals.\<close>

definition unsettled :: "scan_partition \<Rightarrow> bool" where
  "unsettled p \<longleftrightarrow> sp_status p \<notin> {JS_COMPLETED, JS_FAILED, JS_CANCELLED}"

definition with_status :: "job_status \<Rightarrow> scan_partition list \<Rightarrow> scan_partition list" where
  "with_status st ps = filter (\<lambda>p. sp_status p = st) ps"

definition total_of :: "(scan_partition \<Rightarrow> nat) \<Rightarrow> scan_partition list \<Rightarrow> nat" where
  "total_of f ps = sum_list (map f (with_status JS_COMPLETED ps))"

definition aggregated :: "time \<Rightarrow> scan_partition list \<Rightarrow> scan_job \<Rightarrow> scan_job" where
  "aggregated now ps j =
     (let done = length (with_status JS_COMPLETED ps); failed = length (with_status JS_FAILED ps);
          j' = j\<lparr>job_files_scanned := total_of files_scanned ps, job_files_with_pii := total_of files_with_pii ps,
            partitions_completed := done, partitions_failed := failed, sj_completed := Some now\<rparr>
      in if failed > 0 \<and> done = 0 then
           j'\<lparr>sj_status := JS_FAILED, sj_error := Some (''All '' @ show_nat failed @ '' partitions failed'')\<rparr>
         else if failed > 0 then
           j'\<lparr>sj_status := JS_COMPLETED,
              sj_error := Some (show_nat failed @ ''/'' @ show_nat (length ps) @ '' partitions failed'')\<rparr>
         else j'\<lparr>sj_status := JS_COMPLETED\<rparr>)"

datatype phase = Waiting | Scanning | Committed | Holding | Leaving | Gone

record fan_state =
  fan_job :: scan_job
  fan_parts :: "scan_partition list"
  fan_phases :: "phase list"
  post_scans :: nat

text \<open>The steps: a worker takes its queued partition; its scan ends, or fails (and is queued again or not), or
  is cancelled; it asks for the lock; it counts and perhaps aggregates; its transaction ends. An exception may break
  off the aggregation before its totals are committed, or after that, in the post-scan operations: the handler
  records the completed partition as failed, if the session still commits, and the queue may run it again. A user
  cancels the job.\<close>

datatype fan_op =
  Begin nat
| Finish nat nat nat nat
| Fail nat bool
| Cancel nat
| Try_Lock nat
| Count nat
| Leave nat
| Break_Off nat bool bool
| Break_After nat bool bool
| Cancel_Job

definition set_part :: "nat \<Rightarrow> (scan_partition \<Rightarrow> scan_partition) \<Rightarrow> phase \<Rightarrow> fan_state \<Rightarrow> fan_state" where
  "set_part i f ph s = s\<lparr>fan_parts := (fan_parts s)[i := f (fan_parts s ! i)], fan_phases := (fan_phases s)[i := ph]\<rparr>"

definition set_phase :: "nat \<Rightarrow> phase \<Rightarrow> fan_state \<Rightarrow> fan_state" where
  "set_phase i ph s = s\<lparr>fan_phases := (fan_phases s)[i := ph]\<rparr>"

text \<open>The lock is free for a worker when no other one of the same number holds it.\<close>

definition lock_free :: "(nat \<Rightarrow> int) \<Rightarrow> nat \<Rightarrow> fan_state \<Rightarrow> bool" where
  "lock_free lock_id i s = list_all (\<lambda>k. k = i \<or> lock_id k \<noteq> lock_id i \<or> fan_phases s ! k \<notin> {Holding, Leaving})
     [0..<length (fan_phases s)]"

definition in_phase :: "nat \<Rightarrow> phase \<Rightarrow> fan_state \<Rightarrow> bool" where
  "in_phase i ph s \<longleftrightarrow> i < length (fan_phases s) \<and> fan_phases s ! i = ph"

definition begin_step :: "nat \<Rightarrow> fan_state \<Rightarrow> fan_state" where
  "begin_step i s = (if sj_status (fan_job s) = JS_CANCELLED then set_part i (\<lambda>p. p\<lparr>sp_status := JS_CANCELLED\<rparr>) Gone s
     else set_part i (\<lambda>p. p\<lparr>sp_status := JS_RUNNING\<rparr>) Scanning s)"

definition finished_part :: "nat \<Rightarrow> nat \<Rightarrow> nat \<Rightarrow> scan_partition \<Rightarrow> scan_partition" where
  "finished_part fs pii ents p = p\<lparr>sp_status := JS_COMPLETED, files_scanned := fs, files_with_pii := pii, part_entities := ents\<rparr>"

definition count_step :: "time \<Rightarrow> nat \<Rightarrow> fan_state \<Rightarrow> fan_state" where
  "count_step now i s = (if list_ex unsettled (fan_parts s) then set_phase i Leaving s
     else (set_phase i Gone s)\<lparr>fan_job := aggregated now (fan_parts s) (fan_job s), post_scans := post_scans s + 1\<rparr>)"

definition broken_step :: "nat \<Rightarrow> bool \<Rightarrow> bool \<Rightarrow> fan_state \<Rightarrow> fan_state" where
  "broken_step i recorded again s =
     set_part i (\<lambda>p. if recorded then p\<lparr>sp_status := JS_FAILED\<rparr> else p) (if again then Waiting else Gone) s"

primrec fan_step :: "(nat \<Rightarrow> int) \<Rightarrow> time \<Rightarrow> fan_op \<Rightarrow> fan_state \<Rightarrow> fan_state" where
  "fan_step lock_id now (Begin i) s = (if in_phase i Waiting s then begin_step i s else s)"
| "fan_step lock_id now (Finish i fs pii ents) s =
     (if in_phase i Scanning s then set_part i (finished_part fs pii ents) Committed s else s)"
| "fan_step lock_id now (Fail i again) s =
     (if in_phase i Scanning s then set_part i (\<lambda>p. p\<lparr>sp_status := JS_FAILED\<rparr>) (if again then Waiting else Gone) s else s)"
| "fan_step lock_id now (Cancel i) s =
     (if in_phase i Scanning s then set_part i (\<lambda>p. p\<lparr>sp_status := JS_CANCELLED\<rparr>) Gone s else s)"
| "fan_step lock_id now (Try_Lock i) s =
     (if in_phase i Committed s then set_phase i (if lock_free lock_id i s then Holding else Gone) s else s)"
| "fan_step lock_id now (Count i) s = (if in_phase i Holding s then count_step now i s else s)"
| "fan_step lock_id now (Leave i) s = (if in_phase i Leaving s then set_phase i Gone s else s)"
| "fan_step lock_id now (Break_Off i recorded again) s =
     (if in_phase i Committed s \<or> in_phase i Holding s then broken_step i recorded again s else s)"
| "fan_step lock_id now (Break_After i recorded again) s =
     (if in_phase i Holding s \<and> \<not> list_ex unsettled (fan_parts s)
      then broken_step i recorded again (count_step now i s) else s)"
| "fan_step lock_id now Cancel_Job s = s\<lparr>fan_job := (fan_job s)\<lparr>sj_status := JS_CANCELLED\<rparr>\<rparr>"

definition fan_run :: "(nat \<Rightarrow> int) \<Rightarrow> time \<Rightarrow> fan_op list \<Rightarrow> fan_state \<Rightarrow> fan_state" where
  "fan_run lock_id now ops s = fold (fan_step lock_id now) ops s"

definition fan_start :: "scan_partition list \<Rightarrow> scan_job \<Rightarrow> fan_state" where
  "fan_start ps j = \<lparr>fan_job = j, fan_parts = ps, fan_phases = replicate (length ps) Waiting, post_scans = 0\<rparr>"

subsection \<open>Totals\<close>

text \<open>A partition that is scanned once: it is settled from the commit of its worker on, and its worker gets to
  the end of the aggregation.\<close>

primrec gives_up :: "fan_op \<Rightarrow> bool" where
  "gives_up (Fail i again) = (\<not> again)"
| "gives_up (Begin i) = True"
| "gives_up (Finish i a b c) = True"
| "gives_up (Cancel i) = True"
| "gives_up (Try_Lock i) = True"
| "gives_up (Count i) = True"
| "gives_up (Leave i) = True"
| "gives_up (Break_Off i r again) = False"
| "gives_up (Break_After i r again) = False"
| "gives_up Cancel_Job = True"

definition active :: "phase \<Rightarrow> bool" where
  "active ph \<longleftrightarrow> ph = Waiting \<or> ph = Scanning"

text \<open>What the totals of a job say of its partitions.\<close>

definition totals_of :: "scan_partition list \<Rightarrow> scan_job \<Rightarrow> bool" where
  "totals_of ps j \<longleftrightarrow> job_files_scanned j = total_of files_scanned ps \<and> job_files_with_pii j = total_of files_with_pii ps \<and>
     partitions_completed j = length (with_status JS_COMPLETED ps) \<and> partitions_failed j = length (with_status JS_FAILED ps)"

definition fan_ok :: "fan_state \<Rightarrow> bool" where
  "fan_ok s \<longleftrightarrow> length (fan_phases s) = length (fan_parts s) \<and>
     (\<forall>i<length (fan_parts s). unsettled (fan_parts s ! i) \<longleftrightarrow> active (fan_phases s ! i)) \<and>
     (0 < post_scans s \<longrightarrow> \<not> list_ex unsettled (fan_parts s) \<and> totals_of (fan_parts s) (fan_job s))"

lemma totals_aggregated: "totals_of ps (aggregated now ps j)"
  by (simp add: totals_of_def aggregated_def Let_def)

lemma fan_ok_start: "list_all unsettled ps \<Longrightarrow> fan_ok (fan_start ps j)"
  by (simp add: fan_ok_def fan_start_def active_def list_all_length)

lemma fan_ok_phase:
  assumes "fan_ok s" "in_phase i ph s" "active ph' = active ph"
  shows "fan_ok (set_phase i ph' s)"
proof -
  have "unsettled (fan_parts s ! k) \<longleftrightarrow> active ((fan_phases s)[i := ph'] ! k)" if "k < length (fan_parts s)" for k
    using assms that by (cases "k = i") (auto simp: fan_ok_def in_phase_def)
  then show ?thesis using assms(1) by (simp add: fan_ok_def set_phase_def)
qed

lemma fan_ok_part:
  assumes "fan_ok s" "in_phase i ph s" "active ph" "\<And>p. unsettled (f p) = active ph'"
  shows "fan_ok (set_part i f ph' s)"
proof -
  have i: "i < length (fan_parts s)" "unsettled (fan_parts s ! i)"
    using assms(1-3) by (auto simp: fan_ok_def in_phase_def)
  then have "post_scans s = 0" using assms(1) by (auto simp: fan_ok_def list_ex_length)
  moreover have "unsettled ((fan_parts s)[i := f (fan_parts s ! i)] ! k) \<longleftrightarrow> active ((fan_phases s)[i := ph'] ! k)"
    if "k < length (fan_parts s)" for k
    using assms i that by (cases "k = i") (auto simp: fan_ok_def in_phase_def)
  ultimately show ?thesis using assms(1) by (simp add: fan_ok_def set_part_def)
qed

lemma fan_ok_count:
  assumes "fan_ok s" "in_phase i Holding s"
  shows "fan_ok (count_step now i s)"
proof (cases "list_ex unsettled (fan_parts s)")
  case True
  then show ?thesis using fan_ok_phase [OF assms] by (simp add: count_step_def active_def)
next
  case False
  then have "fan_ok (set_phase i Gone s)" using fan_ok_phase [OF assms] by (simp add: active_def)
  then show ?thesis using False by (simp add: count_step_def fan_ok_def set_phase_def totals_aggregated)
qed

lemma totals_status [simp]: "totals_of ps (j\<lparr>sj_status := st\<rparr>) = totals_of ps j"
  by (simp add: totals_of_def)

lemma fan_step_ok: "fan_ok s \<Longrightarrow> gives_up op \<Longrightarrow> fan_ok (fan_step lock_id now op s)"
proof (cases op)
  case Cancel_Job
  assume "fan_ok s" with Cancel_Job show ?thesis by (simp add: fan_ok_def)
next
  case (Count i)
  assume "fan_ok s" with Count show ?thesis by (simp add: fan_ok_count)
qed (auto simp: begin_step_def finished_part_def unsettled_def active_def intro!: fan_ok_phase fan_ok_part)

interpretation workers: event_machine "\<lambda>op s. if gives_up op then fan_step lock_id now op s else s" fan_ok
  for lock_id now
  by unfold_locales (simp add: fan_step_ok)

lemma fan_run_ok: "fan_ok s \<Longrightarrow> list_all gives_up ops \<Longrightarrow> fan_ok (fan_run lock_id now ops s)"
proof -
  assume ok: "fan_ok s" and ops: "list_all gives_up ops"
  have "fan_run lock_id now ops s = fold (\<lambda>op s. if gives_up op then fan_step lock_id now op s else s) ops s"
    unfolding fan_run_def using ops by (intro fold_cong) (auto simp: list_all_iff)
  then show ?thesis using workers.fold_inv [OF ok, of lock_id now ops] by simp
qed

text \<open>however the workers of a job interleave, each scanning its partition once, and whatever numbers their
  locks have: the post-scan operations run only when every partition has settled, and from then on the job's
  totals are the sums over the completed partitions and the numbers of those completed and failed.\<close>

theorem fan_in_exact:
  assumes "list_all unsettled ps" "list_all gives_up ops" "s = fan_run lock_id now ops (fan_start ps j)" "0 < post_scans s"
  shows "\<not> list_ex unsettled (fan_parts s) \<and> job_files_scanned (fan_job s) = total_of files_scanned (fan_parts s) \<and>
    job_files_with_pii (fan_job s) = total_of files_with_pii (fan_parts s) \<and>
    partitions_completed (fan_job s) = length (with_status JS_COMPLETED (fan_parts s)) \<and>
    partitions_failed (fan_job s) = length (with_status JS_FAILED (fan_parts s))"
proof -
  have "fan_ok s" unfolding assms(3) using assms(1,2) by (intro fan_run_ok fan_ok_start)
  then show ?thesis using assms(4) by (simp add: fan_ok_def totals_of_def)
qed

subsection \<open>One worker after the other\<close>

datatype outcome = Scanned nat nat nat | Broke | Stopped

primrec worker_ops :: "nat \<Rightarrow> outcome \<Rightarrow> fan_op list" where
  "worker_ops i (Scanned fs pii ents) = [Begin i, Finish i fs pii ents, Try_Lock i, Count i, Leave i]"
| "worker_ops i Broke = [Begin i, Fail i False]"
| "worker_ops i Stopped = [Begin i, Cancel i]"

primrec settled_part :: "outcome \<Rightarrow> scan_partition \<Rightarrow> scan_partition" where
  "settled_part (Scanned fs pii ents) p = finished_part fs pii ents p"
| "settled_part Broke p = p\<lparr>sp_status := JS_FAILED\<rparr>"
| "settled_part Stopped p = p\<lparr>sp_status := JS_CANCELLED\<rparr>"

definition scanned :: "outcome \<Rightarrow> bool" where
  "scanned out = (case out of Scanned a b c \<Rightarrow> True | _ \<Rightarrow> False)"

definition serial :: "(nat \<times> outcome) list \<Rightarrow> fan_op list" where
  "serial os = concat (map (\<lambda>(i, out). worker_ops i out) os)"

text \<open>The state between two workers.\<close>

definition rested :: "(nat \<times> outcome) list \<Rightarrow> scan_partition list \<Rightarrow> fan_state \<Rightarrow> bool" where
  "rested os ps s \<longleftrightarrow> length (fan_parts s) = length ps \<and>
     fan_phases s = map (\<lambda>i. if i \<in> fst ` set os then Gone else Waiting) [0..<length ps] \<and>
     (\<forall>i<length ps. i \<notin> fst ` set os \<longrightarrow> fan_parts s ! i = ps ! i) \<and>
     (\<forall>(i, out)\<in>set os. i < length ps \<longrightarrow> sp_status (fan_parts s ! i) = sp_status (settled_part out (ps ! i)))"

lemma settled_part_running [simp]:
  "finished_part a b c (p\<lparr>sp_status := st\<rparr>) = finished_part a b c p"
  by (simp add: finished_part_def)

lemma settled_part_settled [simp]: "\<not> unsettled (settled_part out p)"
  by (cases out) (simp_all add: unsettled_def finished_part_def)

lemma worker_run:
  assumes "i < length (fan_phases s)" "length (fan_parts s) = length (fan_phases s)" "fan_phases s ! i = Waiting"
    and "\<forall>k<length (fan_phases s). fan_phases s ! k \<in> {Waiting, Gone}" "sj_status (fan_job s) \<noteq> JS_CANCELLED"
    and s'_def: "s' = set_part i (settled_part out) Gone s"
  shows "fan_run lock_id now (worker_ops i out) s =
    (if scanned out \<and> \<not> list_ex unsettled (fan_parts s')
     then s'\<lparr>fan_job := aggregated now (fan_parts s') (fan_job s), post_scans := post_scans s + 1\<rparr> else s')"
proof (cases out)
  case (Scanned a b c)
  define t where "t = set_part i (finished_part a b c) Committed s"
  have up: "fan_run lock_id now [Begin i, Finish i a b c] s = t"
    using assms(1-3,5) by (simp add: fan_run_def t_def in_phase_def begin_step_def set_part_def)
  have "lock_free lock_id i t"
    using assms(1,4) by (auto simp: lock_free_def list_all_iff t_def set_part_def nth_list_update)
  moreover have "in_phase i Committed t" using assms(1) by (simp add: t_def in_phase_def set_part_def)
  ultimately have "fan_run lock_id now [Try_Lock i, Count i, Leave i] t =
      (if list_ex unsettled (fan_parts t) then set_phase i Gone t
       else (set_phase i Gone t)\<lparr>fan_job := aggregated now (fan_parts t) (fan_job t), post_scans := post_scans t + 1\<rparr>)"
    by (simp add: fan_run_def in_phase_def set_phase_def count_step_def)
  moreover have "fan_run lock_id now (worker_ops i out) s =
      fan_run lock_id now [Try_Lock i, Count i, Leave i] (fan_run lock_id now [Begin i, Finish i a b c] s)"
    by (simp add: Scanned fan_run_def)
  moreover have "set_phase i Gone t = s'" by (simp add: s'_def t_def Scanned set_phase_def set_part_def)
  moreover have "fan_parts t = fan_parts s'" "fan_job t = fan_job s" "post_scans t = post_scans s"
    by (simp_all add: s'_def t_def Scanned set_part_def)
  ultimately show ?thesis using up by (simp add: scanned_def Scanned)
qed (use assms(1-3,5) in \<open>simp_all add: s'_def fan_run_def in_phase_def begin_step_def set_part_def scanned_def\<close>)

lemma fan_run_append: "fan_run lock_id now (xs @ ys) s = fan_run lock_id now ys (fan_run lock_id now xs s)"
  by (simp add: fan_run_def)

lemma rested_worker:
  assumes "rested os ps s" "i < length ps" "i \<notin> fst ` set os"
  shows "rested (os @ [(i, out)]) ps (set_part i (settled_part out) Gone s)"
proof -
  have "(map (\<lambda>k. if k \<in> fst ` set os then Gone else Waiting) [0..<length ps])[i := Gone] =
      map (\<lambda>k. if k = i \<or> k \<in> fst ` set os then Gone else Waiting) [0..<length ps]"
    using assms(2) by (auto intro!: nth_equalityI simp: nth_list_update)
  moreover have "\<forall>(k, w)\<in>set os. k \<noteq> i" using assms(3) by force
  ultimately show ?thesis using assms by (fastforce simp: rested_def set_part_def nth_list_update)
qed

lemma some_left:
  assumes "rested os ps s" "list_all unsettled ps" "k < length ps" "k \<notin> fst ` set os"
  shows "list_ex unsettled (fan_parts s)"
  using assms by (auto simp: rested_def list_all_length list_ex_length)

lemma none_left:
  assumes "rested os ps s" "{..<length ps} \<subseteq> fst ` set os"
  shows "\<not> list_ex unsettled (fan_parts s)"
proof -
  have "\<not> unsettled (fan_parts s ! k)" if k: "k < length ps" for k
  proof -
    obtain out where "(k, out) \<in> set os" using k assms(2) by force
    then have "sp_status (fan_parts s ! k) = sp_status (settled_part out (ps ! k))"
      using assms(1) k by (auto simp: rested_def)
    moreover have "\<not> unsettled (settled_part out (ps ! k))" by simp
    ultimately show ?thesis by (simp add: unsettled_def)
  qed
  then show ?thesis using assms(1) by (simp add: list_ex_length rested_def)
qed

lemma serial_snoc: "serial (os @ [(i, out)]) = serial os @ worker_ops i out"
  by (simp add: serial_def)

lemma rested_run:
  assumes "rested os ps s" "i < length ps" "i \<notin> fst ` set os" "sj_status (fan_job s) \<noteq> JS_CANCELLED"
  shows "fan_run lock_id now (worker_ops i out) s =
    (let s' = set_part i (settled_part out) Gone s
     in if scanned out \<and> \<not> list_ex unsettled (fan_parts s')
        then s'\<lparr>fan_job := aggregated now (fan_parts s') (fan_job s), post_scans := post_scans s + 1\<rparr> else s')"
  unfolding Let_def using assms by (intro worker_run [OF _ _ _ _ _ refl]) (auto simp: rested_def)

lemma serial_prefix:
  assumes "list_all unsettled ps" "sj_status j \<noteq> JS_CANCELLED"
  shows "distinct (map fst os) \<Longrightarrow> set (map fst os) \<subset> {..<length ps} \<Longrightarrow>
    (let s = fan_run lock_id now (serial os) (fan_start ps j) in rested os ps s \<and> fan_job s = j \<and> post_scans s = 0)"
proof (induction os rule: rev_induct)
  case Nil
  have "map (\<lambda>i. Waiting) [0..<length ps] = replicate (length ps) Waiting" by (simp add: map_replicate_const)
  then show ?case by (simp add: serial_def fan_run_def fan_start_def rested_def)
next
  case (snoc x os)
  obtain i out where x: "x = (i, out)" by fastforce
  let ?s = "fan_run lock_id now (serial os) (fan_start ps j)"
  let ?s' = "set_part i (settled_part out) Gone ?s"
  have i: "i < length ps" "i \<notin> fst ` set os" using snoc.prems x by auto
  have "distinct (map fst os)" "set (map fst os) \<subset> {..<length ps}" using snoc.prems by auto
  then have IH: "rested os ps ?s" "fan_job ?s = j" "post_scans ?s = 0" using snoc.IH by (simp_all add: Let_def)
  have rest: "rested (os @ [(i, out)]) ps ?s'" using rested_worker [OF IH(1) i] .
  obtain k where "k < length ps" "k \<notin> fst ` set (os @ [(i, out)])" using snoc.prems(2) x by force
  then have "list_ex unsettled (fan_parts ?s')" using some_left [OF rest assms(1)] by simp
  then have "fan_run lock_id now (serial (os @ [x])) (fan_start ps j) = ?s'"
    using rested_run [OF IH(1) i] IH(2) assms(2) by (simp add: x serial_snoc fan_run_append Let_def)
  then show ?case using rest IH by (simp add: x set_part_def)
qed

text \<open>When the workers of a split job run one after the other, in any order, each partition is tried once and
  no aggregation raises, the job is finished, and its
  post-scan operations run once, exactly when the last partition to settle is one that completes; when that one
  fails or is cancelled nothing aggregates and the job stays as the coordinator left it.\<close>

theorem last_worker_decides:
  assumes "list_all unsettled ps" "sj_status j \<noteq> JS_CANCELLED" "distinct (map fst (os @ [(i, out)]))"
    and "set (map fst (os @ [(i, out)])) = {..<length ps}"
    and "s = fan_run lock_id now (serial (os @ [(i, out)])) (fan_start ps j)"
  shows "if scanned out then post_scans s = 1 \<and> sj_status (fan_job s) = JS_COMPLETED \<and> totals_of (fan_parts s) (fan_job s)
    else post_scans s = 0 \<and> fan_job s = j"
proof -
  let ?s = "fan_run lock_id now (serial os) (fan_start ps j)"
  let ?s' = "set_part i (settled_part out) Gone ?s"
  have i: "i < length ps" "i \<notin> fst ` set os" using assms(3,4) by auto
  have before: "rested os ps ?s" "fan_job ?s = j" "post_scans ?s = 0"
    using serial_prefix [OF assms(1,2), of os lock_id now] assms(3,4) i by (auto simp: Let_def)
  have rest: "rested (os @ [(i, out)]) ps ?s'" using rested_worker [OF before(1) i] .
  then have "\<not> list_ex unsettled (fan_parts ?s')" by (rule none_left) (use assms(4) in auto)
  then have s: "s = (if scanned out then ?s'\<lparr>fan_job := aggregated now (fan_parts ?s') j, post_scans := 1\<rparr> else ?s')"
    using rested_run [OF before(1) i] before assms(2) by (simp add: assms(5) serial_snoc fan_run_append Let_def)
  show ?thesis
  proof (cases "scanned out")
    case True
    then have "sp_status (fan_parts ?s' ! i) = JS_COMPLETED"
      using before(1) i by (auto simp: rested_def set_part_def scanned_def finished_part_def split: outcome.splits)
    moreover have "i < length (fan_parts ?s')" using rest i by (simp add: rested_def)
    ultimately have "with_status JS_COMPLETED (fan_parts ?s') \<noteq> []"
      by (auto simp: with_status_def filter_empty_conv dest: nth_mem)
    then show ?thesis using True s by (simp add: totals_aggregated) (simp add: aggregated_def Let_def)
  next
    case False
    then show ?thesis using s before by (simp add: set_part_def)
  qed
qed

subsection \<open>Any interleaving\<close>

definition holds_lock :: "fan_state \<Rightarrow> nat \<Rightarrow> bool" where
  "holds_lock s i \<longleftrightarrow> in_phase i Holding s \<or> in_phase i Leaving s"


definition commits_kept :: "fan_state \<Rightarrow> bool" where
  "commits_kept s \<longleftrightarrow> length (fan_phases s) = length (fan_parts s) \<and>
     (\<forall>i. holds_lock s i \<or> in_phase i Committed s \<longrightarrow> sp_status (fan_parts s ! i) = JS_COMPLETED)"

definition job_kept :: "scan_job \<Rightarrow> fan_state \<Rightarrow> bool" where
  "job_kept j s \<longleftrightarrow> (if post_scans s = 0 then fan_job s = j \<or> fan_job s = j\<lparr>sj_status := JS_CANCELLED\<rparr>
     else sj_status (fan_job s) \<in> {JS_COMPLETED, JS_CANCELLED} \<and> 0 < partitions_completed (fan_job s) \<and>
       sj_completed (fan_job s) \<noteq> None)"

lemma in_phase_set_part [simp]:
  "in_phase k ph (set_part i f ph' s) = (k < length (fan_phases s) \<and> (if k = i then ph' = ph else in_phase k ph s))"
  "in_phase k ph (set_phase i ph' s) = (k < length (fan_phases s) \<and> (if k = i then ph' = ph else in_phase k ph s))"
  by (auto simp: in_phase_def set_part_def set_phase_def nth_list_update)


lemma in_phase_aggregated [simp]:
  "in_phase k ph (s\<lparr>fan_job := j, post_scans := n\<rparr>) = in_phase k ph s" "in_phase k ph (s\<lparr>fan_job := j\<rparr>) = in_phase k ph s"
  by (simp_all add: in_phase_def)




lemma commits_kept_job [simp]:
  "commits_kept (s\<lparr>fan_job := j, post_scans := n\<rparr>) = commits_kept s" "commits_kept (s\<lparr>fan_job := j\<rparr>) = commits_kept s"
  by (simp_all add: commits_kept_def holds_lock_def)



lemma job_kept_same:
  "fan_job t = fan_job s \<Longrightarrow> post_scans t = post_scans s \<Longrightarrow> job_kept j t = job_kept j s"
  by (simp add: job_kept_def)

lemma part_job [simp]:
  "fan_job (set_part i f ph s) = fan_job s" "post_scans (set_part i f ph s) = post_scans s"
  "fan_job (set_phase i ph s) = fan_job s" "post_scans (set_phase i ph s) = post_scans s"
  by (simp_all add: set_part_def set_phase_def)





text \<open>A job none of whose partitions is ever scanned to the end is never finished.\<close>

lemma all_failed_unfinished:
  assumes "list_all (\<lambda>op. \<forall>i fs pii ents. op \<noteq> Finish i fs pii ents) ops"
  shows "post_scans (fan_run lock_id now ops (fan_start ps j)) = 0"
proof -
  define idle where "idle = (\<lambda>s :: fan_state. post_scans s = 0 \<and> (\<forall>ph\<in>set (fan_phases s). ph \<in> {Waiting, Scanning, Gone}))"
  have phases: "set ((fan_phases s)[i := ph]) \<subseteq> insert ph (set (fan_phases s))" for s :: fan_state and i ph
    by (rule set_update_subset_insert)
  have none: "\<not> in_phase i ph s" if "idle s" "ph \<notin> {Waiting, Scanning, Gone}" for s i ph
    using that by (auto simp: idle_def in_phase_def dest: nth_mem)
  have idle_part: "idle (set_part i f ph s)" if "idle s" "ph \<in> {Waiting, Scanning, Gone}" for s i f ph
    using that phases [of s i ph] by (auto simp: idle_def set_part_def)
  have "idle (fan_step lock_id now op s)" if "idle s" "\<forall>i a b c. op \<noteq> Finish i a b c" for op s
    using that none [OF that(1)] by (cases op) (auto simp: begin_step_def intro: idle_part, auto simp: idle_def)
  then have "list_all (\<lambda>op. \<forall>i a b c. op \<noteq> Finish i a b c) xs \<Longrightarrow> idle s \<Longrightarrow> idle (fold (fan_step lock_id now) xs s)" for xs s
    by (induction xs arbitrary: s) auto
  from this [OF assms, of "fan_start ps j"] show ?thesis by (simp add: fan_run_def idle_def fan_start_def)
qed

section \<open>Where the interleaving goes wrong\<close>

definition ex_part :: "nat \<Rightarrow> scan_partition" where
  "ex_part i = \<lparr>sp_id = i, sp_tenant = 0, sp_job = 7, sp_index = i, sp_total = 2, sp_spec = [], sp_status = JS_PENDING,
     files_scanned = 0, files_with_pii = 0, part_entities = 0\<rparr>"

definition ex_scan_job :: scan_job where
  "ex_scan_job = \<lparr>sj_id = 7, sj_tenant = 0, scan_mode = Some ''fanout'', sj_status = JS_RUNNING, sj_started = None,
     sj_completed = None, sj_error = None, total_partitions = 2, partitions_completed = 0, partitions_failed = 0,
     total_files_estimated = 10000, job_files_scanned = 0, job_files_with_pii = 0\<rparr>"

definition ex_fan :: fan_state where "ex_fan = fan_start [ex_part 0, ex_part 1] ex_scan_job"

lemmas fan_eval = fan_run_def ex_fan_def fan_start_def ex_part_def ex_scan_job_def in_phase_def begin_step_def set_part_def
  set_phase_def lock_free_def count_step_def finished_part_def unsettled_def aggregated_def total_of_def with_status_def

text \<open>A worker that counts while the last other one still scans keeps the lock until its transaction ends. The
  other one finishes, finds the lock taken and goes: both partitions are completed and nobody aggregates.\<close>

lemma aggregation_skipped:
  fixes lock_id :: "nat \<Rightarrow> int"
  assumes "lock_id 0 = lock_id 1"
  defines "s \<equiv> fan_run lock_id 0 [Begin 0, Begin 1, Finish 0 5 1 2, Try_Lock 0, Count 0, Finish 1 6 0 0, Try_Lock 1, Leave 0] ex_fan"
  shows "fan_phases s = [Gone, Gone]" "map sp_status (fan_parts s) = [JS_COMPLETED, JS_COMPLETED]"
    "post_scans s = 0" "sj_status (fan_job s) = JS_RUNNING"
  using assms(1) by (simp_all add: s_def fan_eval upt_rec)

text \<open>Two workers that both committed aggregate one after the other, so the post-scan operations run twice.\<close>

lemma aggregated_twice:
  fixes lock_id :: "nat \<Rightarrow> int"
  defines "s \<equiv> fan_run lock_id 0 [Begin 0, Begin 1, Finish 0 5 1 2, Finish 1 6 0 0, Try_Lock 0, Count 0, Try_Lock 1, Count 1] ex_fan"
  shows "post_scans s = 2" "job_files_scanned (fan_job s) = 11"
  by (simp_all add: s_def fan_eval upt_rec)

text \<open>A partition whose job waits for its retry counts as failed: the parent is completed without it.\<close>

lemma retry_not_awaited:
  fixes lock_id :: "nat \<Rightarrow> int"
  defines "s \<equiv> fan_run lock_id 0 [Begin 0, Fail 0 True, Begin 1, Finish 1 6 0 0, Try_Lock 1, Count 1] ex_fan"
  shows "sj_status (fan_job s) = JS_COMPLETED" "fan_phases s ! 0 = Waiting" "job_files_scanned (fan_job s) = 6"
  by (simp_all add: s_def fan_eval upt_rec)

text \<open>A cancelled job becomes a completed one.\<close>

lemma cancelled_job_completed:
  fixes lock_id :: "nat \<Rightarrow> int"
  defines "s \<equiv> fan_run lock_id 0 [Begin 0, Begin 1, Finish 0 5 1 2, Cancel_Job, Cancel 1, Try_Lock 0, Count 0] ex_fan"
  shows "sj_status (fan_job s) = JS_COMPLETED"
  by (simp add: s_def fan_eval upt_rec)

lemma fan_in_exact_witness:
  "let s = fan_run (\<lambda>i. 3) 0 [Begin 0, Begin 1, Finish 0 5 1 2, Finish 1 6 0 0, Try_Lock 0, Count 0]
      (fan_start [ex_part 0, ex_part 1] ex_scan_job)
   in \<not> list_ex unsettled (fan_parts s) \<and> job_files_scanned (fan_job s) = total_of files_scanned (fan_parts s) \<and>
    job_files_with_pii (fan_job s) = total_of files_with_pii (fan_parts s) \<and>
    partitions_completed (fan_job s) = length (with_status JS_COMPLETED (fan_parts s)) \<and>
    partitions_failed (fan_job s) = length (with_status JS_FAILED (fan_parts s))"
  unfolding Let_def by (rule fan_in_exact [OF _ _ refl]) (simp_all add: fan_eval upt_rec)


text \<open>The aggregation breaks off after its commit: a completed job with no completed partition.\<close>

lemma completed_without_partition:
  fixes lock_id :: "nat \<Rightarrow> int"
  defines "s \<equiv> fan_run lock_id 0 [Begin 0, Fail 0 False, Begin 1, Finish 1 6 0 0, Try_Lock 1, Break_After 1 True False] ex_fan"
  shows "sj_status (fan_job s) = JS_COMPLETED" "map sp_status (fan_parts s) = [JS_FAILED, JS_FAILED]"
    "job_files_scanned (fan_job s) = 6" "partitions_completed (fan_job s) = 1"
  by (simp_all add: s_def fan_eval upt_rec broken_step_def)

lemma last_worker_decides_witness:
  "if scanned (Scanned 5 1 2)
   then post_scans (fan_run (\<lambda>i. 3) 0 (serial ([(1, Broke)] @ [(0, Scanned 5 1 2)])) ex_fan) = 1 \<and>
     sj_status (fan_job (fan_run (\<lambda>i. 3) 0 (serial ([(1, Broke)] @ [(0, Scanned 5 1 2)])) ex_fan)) = JS_COMPLETED \<and>
     totals_of (fan_parts (fan_run (\<lambda>i. 3) 0 (serial ([(1, Broke)] @ [(0, Scanned 5 1 2)])) ex_fan))
       (fan_job (fan_run (\<lambda>i. 3) 0 (serial ([(1, Broke)] @ [(0, Scanned 5 1 2)])) ex_fan))
   else post_scans (fan_run (\<lambda>i. 3) 0 (serial ([(1, Broke)] @ [(0, Scanned 5 1 2)])) ex_fan) = 0 \<and>
     fan_job (fan_run (\<lambda>i. 3) 0 (serial ([(1, Broke)] @ [(0, Scanned 5 1 2)])) ex_fan) = ex_scan_job"
proof (rule last_worker_decides)
  show "fan_run (\<lambda>i. 3) 0 (serial ([(1, Broke)] @ [(0, Scanned 5 1 2)])) ex_fan =
    fan_run (\<lambda>i. 3) 0 (serial ([(1, Broke)] @ [(0, Scanned 5 1 2)])) (fan_start [ex_part 0, ex_part 1] ex_scan_job)"
    by (simp add: ex_fan_def)
  show "set (map fst ([(1, Broke)] @ [(0, Scanned 5 1 2)])) = {..<length [ex_part 0, ex_part 1]}"
    by (simp add: lessThan_Suc)
qed (simp_all add: ex_part_def ex_scan_job_def unsettled_def)

section \<open>The queued partitions\<close>

text \<open>Every partition has its pending job, behind the rows of the table.\<close>

lemma enqueue_partitions_rows:
  "enqueue_partitions table_db j qids pay now parts s = s @ map (\<lambda>p.
     \<lparr>jid = qids (sp_index p), tenant_id = sj_tenant j, task_type = ''scan_partition'', payload = pay (sp_id p) (sj_id j),
      priority = 60, status = JS_PENDING, scheduled_for = None, started_at = None, completed_at = None, worker_id = None,
      job_result = None, job_error = None, retry_count = 0, max_retries = 3, created_at = now\<rparr>) parts"
  by (induction parts arbitrary: s) (simp_all add: enqueue_def table_db_def)

lemma partitions_queued:
  assumes "distinct (map jid s @ map (\<lambda>p. qids (sp_index p)) parts)"
  shows "get_pending_count table_db (sj_tenant j) (enqueue_partitions table_db j qids pay now parts s) =
    get_pending_count table_db (sj_tenant j) s + length parts"
proof -
  have "table_rows s = s" using assms by (intro table_rows_id) simp
  moreover have "table_rows (enqueue_partitions table_db j qids pay now parts s) = enqueue_partitions table_db j qids pay now parts s"
    using assms by (intro table_rows_id) (simp add: enqueue_partitions_rows o_def)
  moreover have "db_rows table_db = table_rows" by (simp add: table_db_def)
  ultimately show ?thesis
    by (simp add: get_pending_count_def count_status_def) (simp add: enqueue_partitions_rows filter_map o_def)
qed
end
