(* ===== verification/Scan_Inventory.thy ===== *)
theory Scan_Inventory
  imports Cloud_Listing Job_Queue
begin

text \<open>
  The inventory that makes a scan incremental: class \<open>InventoryService\<close> of
  \<^verbatim>\<open>src/openlabels/jobs/inventory.py\<close> over the tables \<open>file_inventory\<close> and \<open>folder_inventory\<close>, and what
  \<^verbatim>\<open>src/openlabels/jobs/tasks/scan.py\<close> does with one file and at the end of a scan.

  A row is an object of the database session, so the bounded caches map a path to the identity of a row
  and changing the object changes the row. Files are taken one after the other. The content of a file, its
  hash and what the detectors find in it are parameters; the distributed cache, which the program never switches
  on, policy actions and progress messages are left out.
\<close>

section \<open>Rows\<close>

record listed_file = file_info +
  fi_modified :: "time option"
  fi_exposure :: string

record file_row =
  fv_id :: uuid
  fv_tenant :: uuid
  fv_target :: uuid
  fv_folder :: "uuid option"
  fv_path :: string
  fv_name :: string
  fv_adapter :: string
  fv_hash :: "string option"
  fv_size :: "int option"
  fv_modified :: "time option"
  fv_score :: int
  fv_tier :: string
  fv_counts :: "(string \<times> nat) list"
  fv_entities :: nat
  fv_exposure :: "string option"
  fv_owner :: "string option"
  fv_label :: "(string \<times> string \<times> time) option"
  fv_scanned_at :: time
  fv_job :: "uuid option"
  fv_scans :: nat
  fv_changes :: nat
  fv_rescan :: bool

record folder_row =
  fo_id :: uuid
  fo_tenant :: uuid
  fo_target :: uuid
  fo_path :: string
  fo_adapter :: string
  fo_files :: nat
  fo_bytes :: int
  fo_modified :: "time option"
  fo_scanned_at :: "time option"
  fo_job :: "uuid option"
  fo_sensitive :: bool
  fo_risk :: "string option"
  fo_entities :: nat

record scan_result =
  sr_score :: int
  sr_tier :: string
  sr_counts :: "(string \<times> nat) list"
  sr_entities :: nat
  sr_exposure :: "string option"
  sr_owner :: "string option"
  sr_label :: "(string \<times> string \<times> time) option"

text \<open>The service, for one target of a tenant, with its two caches, and the tables.\<close>

record inventory =
  iv_tenant :: uuid
  iv_target :: uuid
  iv_files :: "file_row list"
  iv_folders :: "folder_row list"
  iv_file_cache :: "(string \<times> uuid) list"
  iv_folder_cache :: "(string \<times> uuid) list"

definition FILE_CACHE_MAX :: nat where "FILE_CACHE_MAX = 2000"
definition FOLDER_CACHE_MAX :: nat where "FOLDER_CACHE_MAX = 500"

section \<open>Lookups\<close>

text \<open>\<open>scalar_one_or_none\<close> of a query with several rows.\<close>

datatype inventory_error = Multiple_Results_Found

function trim :: "nat \<Rightarrow> 'a list \<Rightarrow> 'a list" where
  "trim n c = (if length c > n then trim n (tl c) else c)"
  by pat_completeness auto
termination by (relation "measure (\<lambda>(n, c). length c)") auto

declare trim.simps [simp del]

definition cache_put :: "nat \<Rightarrow> string \<Rightarrow> uuid \<Rightarrow> (string \<times> uuid) list \<Rightarrow> (string \<times> uuid) list" where
  "cache_put limit p i c = trim limit (dict_del p c @ [(p, i)])"

text \<open>The cache, else the query; a row that the query answers is cached.\<close>

definition cached_row ::
  "('r \<Rightarrow> uuid) \<Rightarrow> ('r \<Rightarrow> bool) \<Rightarrow> nat \<Rightarrow> string \<Rightarrow> 'r list \<Rightarrow> (string \<times> uuid) list \<Rightarrow>
   inventory_error + 'r option \<times> (string \<times> uuid) list" where
  "cached_row ident wanted limit p rows c = (case map_of c p of
     Some i \<Rightarrow> Inr (find (\<lambda>r. ident r = i) rows, dict_del p c @ [(p, i)])
   | None \<Rightarrow> (case filter wanted rows of
       [] \<Rightarrow> Inr (None, c)
     | [r] \<Rightarrow> Inr (Some r, cache_put limit p (ident r) c)
     | _ \<Rightarrow> Inl Multiple_Results_Found))"

definition own_file :: "uuid \<Rightarrow> uuid \<Rightarrow> file_row \<Rightarrow> bool" where
  "own_file t g r \<longleftrightarrow> fv_tenant r = t \<and> fv_target r = g"

definition own_folder :: "uuid \<Rightarrow> uuid \<Rightarrow> folder_row \<Rightarrow> bool" where
  "own_folder t g r \<longleftrightarrow> fo_tenant r = t \<and> fo_target r = g"

definition get_file_inv :: "string \<Rightarrow> inventory \<Rightarrow> inventory_error + file_row option \<times> inventory" where
  "get_file_inv p iv = map_sum id (\<lambda>(r, c). (r, iv\<lparr>iv_file_cache := c\<rparr>))
     (cached_row fv_id (\<lambda>r. own_file (iv_tenant iv) (iv_target iv) r \<and> fv_path r = p) FILE_CACHE_MAX p
       (iv_files iv) (iv_file_cache iv))"

definition get_folder_inv :: "string \<Rightarrow> inventory \<Rightarrow> inventory_error + folder_row option \<times> inventory" where
  "get_folder_inv p iv = map_sum id (\<lambda>(r, c). (r, iv\<lparr>iv_folder_cache := c\<rparr>))
     (cached_row fo_id (\<lambda>r. own_folder (iv_tenant iv) (iv_target iv) r \<and> fo_path r = p) FOLDER_CACHE_MAX p
       (iv_folders iv) (iv_folder_cache iv))"

definition cache_file :: "file_row \<Rightarrow> inventory \<Rightarrow> inventory" where
  "cache_file r iv = iv\<lparr>iv_file_cache := cache_put FILE_CACHE_MAX (fv_path r) (fv_id r) (iv_file_cache iv)\<rparr>"

definition cache_folder :: "folder_row \<Rightarrow> inventory \<Rightarrow> inventory" where
  "cache_folder r iv = iv\<lparr>iv_folder_cache := cache_put FOLDER_CACHE_MAX (fo_path r) (fo_id r) (iv_folder_cache iv)\<rparr>"

section \<open>What needs scanning\<close>

definition later :: "time option \<Rightarrow> time option \<Rightarrow> bool" where
  "later a b = (case (a, b) of (Some x, Some y) \<Rightarrow> x > y | _ \<Rightarrow> False)"

definition folder_due :: "time option \<Rightarrow> folder_row option \<Rightarrow> bool" where
  "folder_due modified row = (case row of None \<Rightarrow> True
   | Some r \<Rightarrow> fo_scanned_at r = None \<or> later modified (fo_modified r) \<or> fo_sensitive r)"

definition should_scan_folder :: "string \<Rightarrow> time option \<Rightarrow> bool \<Rightarrow> inventory \<Rightarrow> inventory_error + bool \<times> inventory" where
  "should_scan_folder p modified force iv = (if force then Inr (True, iv)
     else map_sum id (\<lambda>(r, iv'). (folder_due modified r, iv')) (get_folder_inv p iv))"

definition file_due :: "listed_file \<Rightarrow> string option \<Rightarrow> file_row option \<Rightarrow> bool \<times> string" where
  "file_due f h row = (case row of None \<Rightarrow> (True, ''new_file'')
   | Some r \<Rightarrow>
       if fv_rescan r then (True, ''flagged_rescan'')
       else if given h \<noteq> None \<and> given (fv_hash r) \<noteq> None \<and> h \<noteq> fv_hash r then (True, ''content_changed'')
       else if later (fi_modified f) (fv_modified r) then (True, ''modified_time'')
       else if Some (fi_size f) \<noteq> fv_size r then (True, ''size_changed'')
       else (False, ''unchanged''))"

definition should_scan_file ::
  "listed_file \<Rightarrow> string option \<Rightarrow> bool \<Rightarrow> inventory \<Rightarrow> inventory_error + (bool \<times> string) \<times> inventory" where
  "should_scan_file f h force iv = (if force then Inr ((True, ''full_scan''), iv)
     else map_sum id (\<lambda>(r, iv'). (file_due f h r, iv')) (get_file_inv (fi_path f) iv))"

section \<open>Updates\<close>

definition replace_row :: "('r \<Rightarrow> uuid) \<Rightarrow> uuid \<Rightarrow> ('r \<Rightarrow> 'r) \<Rightarrow> 'r list \<Rightarrow> 'r list" where
  "replace_row ident i f rows = map (\<lambda>r. if ident r = i then f r else r) rows"

definition updated_folder :: "uuid \<Rightarrow> time \<Rightarrow> nat \<Rightarrow> int \<Rightarrow> time option \<Rightarrow> bool \<Rightarrow> string option \<Rightarrow> nat \<Rightarrow> folder_row \<Rightarrow> folder_row" where
  "updated_folder job now n bytes modified sensitive risk ents r = r\<lparr>fo_files := n, fo_bytes := bytes,
     fo_modified := modified, fo_scanned_at := Some now, fo_job := Some job, fo_sensitive := sensitive, fo_risk := risk,
     fo_entities := ents\<rparr>"

definition update_folder_inventory ::
  "uuid \<Rightarrow> string \<Rightarrow> string \<Rightarrow> uuid \<Rightarrow> time \<Rightarrow> nat \<Rightarrow> int \<Rightarrow> time option \<Rightarrow> bool \<Rightarrow> string option \<Rightarrow> nat \<Rightarrow> inventory \<Rightarrow>
   inventory_error + inventory" where
  "update_folder_inventory new_id p kind job now n bytes modified sensitive risk ents iv =
     res_bind (get_folder_inv p iv) (\<lambda>(row, iv'). case row of
       Some r \<Rightarrow> Inr (iv'\<lparr>iv_folders := replace_row fo_id (fo_id r)
           (updated_folder job now n bytes modified sensitive risk ents) (iv_folders iv')\<rparr>)
     | None \<Rightarrow>
         (let r = \<lparr>fo_id = new_id, fo_tenant = iv_tenant iv', fo_target = iv_target iv', fo_path = p, fo_adapter = kind,
            fo_files = n, fo_bytes = bytes, fo_modified = modified, fo_scanned_at = Some now, fo_job = Some job,
            fo_sensitive = sensitive, fo_risk = risk, fo_entities = ents\<rparr>
          in Inr (cache_folder r (iv'\<lparr>iv_folders := iv_folders iv' @ [r]\<rparr>))))"

definition updated_file :: "listed_file \<Rightarrow> scan_result \<Rightarrow> string \<Rightarrow> uuid \<Rightarrow> time \<Rightarrow> file_row \<Rightarrow> file_row" where
  "updated_file f sr h job now r = r\<lparr>fv_changes := (if fv_hash r \<noteq> Some h then fv_changes r + 1 else fv_changes r),
     fv_hash := Some h, fv_size := Some (fi_size f), fv_modified := fi_modified f, fv_score := sr_score sr,
     fv_tier := sr_tier sr, fv_counts := sr_counts sr, fv_entities := sr_entities sr, fv_exposure := sr_exposure sr,
     fv_owner := sr_owner sr, fv_scanned_at := now, fv_job := Some job, fv_scans := fv_scans r + 1, fv_rescan := False,
     fv_label := (case sr_label sr of Some l \<Rightarrow> Some l | None \<Rightarrow> fv_label r)\<rparr>"

definition new_file_row ::
  "uuid \<Rightarrow> uuid \<Rightarrow> uuid \<Rightarrow> uuid option \<Rightarrow> listed_file \<Rightarrow> scan_result \<Rightarrow> string \<Rightarrow> uuid \<Rightarrow> time \<Rightarrow> file_row" where
  "new_file_row new_id t g folder f sr h job now = \<lparr>fv_id = new_id, fv_tenant = t, fv_target = g, fv_folder = folder,
     fv_path = fi_path f, fv_name = fi_name f, fv_adapter = fi_adapter f, fv_hash = Some h, fv_size = Some (fi_size f),
     fv_modified = fi_modified f, fv_score = sr_score sr, fv_tier = sr_tier sr, fv_counts = sr_counts sr,
     fv_entities = sr_entities sr, fv_exposure = sr_exposure sr, fv_owner = sr_owner sr, fv_label = sr_label sr,
     fv_scanned_at = now, fv_job = Some job, fv_scans = 1, fv_changes = 0, fv_rescan = False\<rparr>"

definition update_file_inventory ::
  "uuid \<Rightarrow> listed_file \<Rightarrow> scan_result \<Rightarrow> string \<Rightarrow> uuid \<Rightarrow> uuid option \<Rightarrow> time \<Rightarrow> inventory \<Rightarrow> inventory_error + inventory" where
  "update_file_inventory new_id f sr h job folder now iv =
     res_bind (get_file_inv (fi_path f) iv) (\<lambda>(row, iv'). case row of
       Some r \<Rightarrow> Inr (iv'\<lparr>iv_files := replace_row fv_id (fv_id r) (updated_file f sr h job now) (iv_files iv')\<rparr>)
     | None \<Rightarrow>
         (let r = new_file_row new_id (iv_tenant iv') (iv_target iv') folder f sr h job now
          in Inr (cache_file r (iv'\<lparr>iv_files := iv_files iv' @ [r]\<rparr>))))"

definition unseen :: "uuid \<Rightarrow> inventory \<Rightarrow> file_row \<Rightarrow> bool" where
  "unseen job iv r \<longleftrightarrow> own_file (iv_tenant iv) (iv_target iv) r \<and>
     (case fv_job r of Some k \<Rightarrow> k \<noteq> job | None \<Rightarrow> False) \<and> \<not> fv_rescan r"

definition mark_missing_files :: "uuid \<Rightarrow> inventory \<Rightarrow> nat \<times> inventory" where
  "mark_missing_files job iv = (length (filter (unseen job iv) (iv_files iv)),
     iv\<lparr>iv_files := map (\<lambda>r. if unseen job iv r then r\<lparr>fv_rescan := True\<rparr> else r) (iv_files iv)\<rparr>)"

record inventory_stats =
  total_folders :: nat
  total_sensitive_files :: nat
  risk_tier_breakdown :: "(string \<times> nat) list"
  stats_entities :: nat
  labeled_files :: nat
  pending_rescan :: nat

definition get_inventory_stats :: "inventory \<Rightarrow> inventory_stats" where
  "get_inventory_stats iv =
     (let own = filter (own_file (iv_tenant iv) (iv_target iv)) (iv_files iv)
      in \<lparr>total_folders = length (filter (own_folder (iv_tenant iv) (iv_target iv)) (iv_folders iv)),
          total_sensitive_files = length own,
          risk_tier_breakdown = map (\<lambda>t. (t, length (filter (\<lambda>r. fv_tier r = t) own)))
            [''CRITICAL'', ''HIGH'', ''MEDIUM'', ''LOW'', ''MINIMAL''],
          stats_entities = sum_list (map fv_entities own),
          labeled_files = length (filter (\<lambda>r. fv_label r \<noteq> None) own),
          pending_rescan = length (filter fv_rescan own)\<rparr>)"

section \<open>Folders of paths\<close>

text \<open>\<open>str(Path(p).parent)\<close> on POSIX: repeated separators and points are dropped.\<close>

definition path_root :: "string \<Rightarrow> string" where
  "path_root p = (if starts_with p ''//'' \<and> \<not> starts_with p ''///'' then ''//''
     else if starts_with p ''/'' then ''/'' else [])"

definition path_parts :: "string \<Rightarrow> string list" where
  "path_parts p = filter (\<lambda>c. c \<noteq> [] \<and> c \<noteq> ''.'') (str_split CHR ''/'' p)"

fun join_with :: "string \<Rightarrow> string list \<Rightarrow> string" where
  "join_with sep [] = []"
| "join_with sep [p] = p"
| "join_with sep (p # q # ps) = p @ sep @ join_with sep (q # ps)"

definition get_folder_path :: "string \<Rightarrow> string" where
  "get_folder_path p =
     (let s = path_root p @ join_with ''/'' (butlast (path_parts p)) in if s = [] then ''.'' else s)"

section \<open>One file of a scan\<close>

record pipeline_stats =
  pl_scanned :: nat
  pl_with_pii :: nat
  pl_entities :: nat
  pl_tiers :: "(string \<times> nat) list"
  pl_skipped :: nat
  pl_errored :: nat

definition fresh_stats :: pipeline_stats where
  "fresh_stats = \<lparr>pl_scanned = 0, pl_with_pii = 0, pl_entities = 0,
     pl_tiers = [(''critical'', 0), (''high'', 0), (''medium'', 0), (''low'', 0), (''minimal'', 0)],
     pl_skipped = 0, pl_errored = 0\<rparr>"

definition record_result :: "string \<Rightarrow> nat \<Rightarrow> pipeline_stats \<Rightarrow> pipeline_stats" where
  "record_result tier n s = s\<lparr>pl_scanned := pl_scanned s + 1, pl_with_pii := pl_with_pii s + (if n > 0 then 1 else 0),
     pl_entities := pl_entities s + n,
     pl_tiers := map (\<lambda>(k, c). (k, if k = str_lower tier then c + 1 else c)) (pl_tiers s)\<rparr>"

record folder_stats =
  fs_files :: nat
  fs_bytes :: int
  fs_sensitive :: bool
  fs_risk :: "string option"
  fs_entities :: nat

definition empty_folder :: folder_stats where
  "empty_folder = \<lparr>fs_files = 0, fs_bytes = 0, fs_sensitive = False, fs_risk = None, fs_entities = 0\<rparr>"

definition RISK_TIER_PRIORITY :: "(string \<times> nat) list" where
  "RISK_TIER_PRIORITY = [(''CRITICAL'', 5), (''HIGH'', 4), (''MEDIUM'', 3), (''LOW'', 2), (''MINIMAL'', 1)]"

definition higher_risk :: "string option \<Rightarrow> string \<Rightarrow> string option" where
  "higher_risk cur t = (case cur of None \<Rightarrow> Some t
   | Some c \<Rightarrow> if dict_get RISK_TIER_PRIORITY t 0 > dict_get RISK_TIER_PRIORITY c 0 then Some t else Some c)"

definition folder_seen :: "listed_file \<Rightarrow> folder_stats \<Rightarrow> folder_stats" where
  "folder_seen f s = s\<lparr>fs_files := fs_files s + 1, fs_bytes := fs_bytes s + fi_size f\<rparr>"

definition folder_hit :: "scan_result \<Rightarrow> folder_stats \<Rightarrow> folder_stats" where
  "folder_hit sr s = s\<lparr>fs_sensitive := True, fs_entities := fs_entities s + sr_entities sr,
     fs_risk := higher_risk (fs_risk s) (sr_tier sr)\<rparr>"

definition at_folder :: "string \<Rightarrow> (folder_stats \<Rightarrow> folder_stats) \<Rightarrow> (string \<times> folder_stats) list \<Rightarrow> (string \<times> folder_stats) list" where
  "at_folder p g fs = dict_set p (g (dict_get fs p empty_folder)) fs"

text \<open>The world of a scan: contents, their hash, the detectors, the keys of new rows.\<close>

record scan_world =
  sw_read :: "listed_file \<Rightarrow> string option"
  sw_hash :: "string \<Rightarrow> string"
  sw_detect :: "string \<Rightarrow> listed_file \<Rightarrow> scan_result"
  sw_new_id :: "string \<Rightarrow> uuid"
  sw_limit :: int
  sw_force :: bool
  sw_job :: uuid
  sw_now :: time

record scan_state =
  ss_inv :: inventory
  ss_stats :: pipeline_stats
  ss_folders :: "(string \<times> folder_stats) list"
  ss_results :: "(string \<times> scan_result) list"

definition skip_file :: "scan_state \<Rightarrow> scan_state" where
  "skip_file s = s\<lparr>ss_stats := (ss_stats s)\<lparr>pl_skipped := pl_skipped (ss_stats s) + 1\<rparr>\<rparr>"

definition error_file :: "scan_state \<Rightarrow> scan_state" where
  "error_file s = s\<lparr>ss_stats := (ss_stats s)\<lparr>pl_errored := pl_errored (ss_stats s) + 1\<rparr>\<rparr>"

text \<open>The result of the detectors: counted in any case, kept when it found something.\<close>

definition save_result :: "scan_world \<Rightarrow> listed_file \<Rightarrow> string \<Rightarrow> scan_result \<Rightarrow> scan_state \<Rightarrow> scan_state" where
  "save_result w f h sr s =
     (let s1 = s\<lparr>ss_stats := record_result (sr_tier sr) (sr_entities sr) (ss_stats s)\<rparr>
      in if sr_entities sr = 0 then s1
         else let s2 = s1\<lparr>ss_results := ss_results s1 @ [(fi_path f, sr)],
                ss_folders := at_folder (get_folder_path (fi_path f)) (folder_hit sr) (ss_folders s1)\<rparr>
              in case update_file_inventory (sw_new_id w (fi_path f)) f sr h (sw_job w) None (sw_now w) (ss_inv s2) of
                   Inl e \<Rightarrow> error_file s2
                 | Inr iv \<Rightarrow> s2\<lparr>ss_inv := iv\<rparr>)"

definition process_one_file :: "scan_world \<Rightarrow> listed_file \<Rightarrow> scan_state \<Rightarrow> scan_state" where
  "process_one_file w f s0 =
     (let s = s0\<lparr>ss_folders := at_folder (get_folder_path (fi_path f)) (folder_seen f) (ss_folders s0)\<rparr>
      in if fi_size f > sw_limit w then skip_file s
         else case sw_read w f of
           None \<Rightarrow> error_file s
         | Some content \<Rightarrow>
             (let h = sw_hash w content
              in case should_scan_file f (Some h) (sw_force w) (ss_inv s) of
                   Inl e \<Rightarrow> error_file s
                 | Inr ((must, reason), iv) \<Rightarrow>
                     (let s' = s\<lparr>ss_inv := iv\<rparr>
                      in if \<not> must then skip_file s' else save_result w f h (sw_detect w content f) s')))"

text \<open>The folders at the end of a scan, then the files that were not seen.\<close>

fun write_folders :: "(string \<Rightarrow> uuid) \<Rightarrow> string \<Rightarrow> uuid \<Rightarrow> time \<Rightarrow> (string \<times> folder_stats) list \<Rightarrow> inventory \<Rightarrow> inventory_error + inventory" where
  "write_folders new_id kind job now [] iv = Inr iv"
| "write_folders new_id kind job now ((p, s) # rest) iv =
     res_bind (update_folder_inventory (new_id p) p kind job now (fs_files s) (fs_bytes s) None (fs_sensitive s) (fs_risk s)
       (fs_entities s) iv) (write_folders new_id kind job now rest)"

definition fresh_scan :: "inventory \<Rightarrow> scan_state" where
  "fresh_scan iv = \<lparr>ss_inv = iv, ss_stats = fresh_stats, ss_folders = [], ss_results = []\<rparr>"

definition process_files :: "scan_world \<Rightarrow> listed_file list \<Rightarrow> inventory \<Rightarrow> scan_state" where
  "process_files w files iv = fold (process_one_file w) files (fresh_scan iv)"

definition run_scan ::
  "scan_world \<Rightarrow> (string \<Rightarrow> uuid) \<Rightarrow> string \<Rightarrow> listed_file list \<Rightarrow> inventory \<Rightarrow> inventory_error + pipeline_stats \<times> nat \<times> inventory" where
  "run_scan w folder_id kind files iv =
     (let s = process_files w files iv
      in res_bind (write_folders folder_id kind (sw_job w) (sw_now w) (ss_folders s) (ss_inv s)) (\<lambda>iv'.
           let (n, iv'') = mark_missing_files (sw_job w) iv' in Inr (ss_stats s, n, iv'')))"

section \<open>The caches answer what the tables hold\<close>

lemma trim_drop: "trim n c = drop (length c - n) c"
proof (induction n c rule: trim.induct)
  case (1 n c)
  then show ?case by (cases c) (simp_all add: trim.simps Suc_diff_le)
qed

definition rows_ok :: "('r \<Rightarrow> uuid) \<Rightarrow> ('r \<Rightarrow> bool) \<Rightarrow> ('r \<Rightarrow> string) \<Rightarrow> 'r list \<Rightarrow> bool" where
  "rows_ok ident own path rows \<longleftrightarrow> distinct (map ident rows) \<and> distinct (map path (filter own rows))"

definition lru_ok ::
  "('r \<Rightarrow> uuid) \<Rightarrow> ('r \<Rightarrow> bool) \<Rightarrow> ('r \<Rightarrow> string) \<Rightarrow> nat \<Rightarrow> 'r list \<Rightarrow> (string \<times> uuid) list \<Rightarrow> bool" where
  "lru_ok ident own path limit rows c \<longleftrightarrow> distinct (map fst c) \<and> length c \<le> limit \<and>
     (\<forall>(p, i)\<in>set c. \<exists>r\<in>set rows. ident r = i \<and> own r \<and> path r = p)"

definition row_at :: "('r \<Rightarrow> bool) \<Rightarrow> ('r \<Rightarrow> string) \<Rightarrow> string \<Rightarrow> 'r list \<Rightarrow> 'r option" where
  "row_at own path p rows = find (\<lambda>r. own r \<and> path r = p) rows"

locale row_cache =
  fixes ident :: "'r \<Rightarrow> uuid" and own :: "'r \<Rightarrow> bool" and path :: "'r \<Rightarrow> string" and limit :: nat
  assumes limit_pos: "0 < limit"
begin

lemma own_unique:
  "rows_ok ident own path rows \<Longrightarrow> r \<in> set rows \<Longrightarrow> s \<in> set rows \<Longrightarrow> own r \<Longrightarrow> own s \<Longrightarrow> path r = path s \<Longrightarrow> r = s"
  by (auto simp: rows_ok_def distinct_map inj_on_def)

lemma row_at_eq: "rows_ok ident own path rows \<Longrightarrow> r \<in> set rows \<Longrightarrow> own r \<Longrightarrow> row_at own path (path r) rows = Some r"
proof -
  assume ok: "rows_ok ident own path rows" and r: "r \<in> set rows" "own r"
  then have "row_at own path (path r) rows \<noteq> None" by (auto simp: row_at_def find_None_iff)
  then obtain s where s: "row_at own path (path r) rows = Some s" by auto
  then have "s \<in> set rows" "own s" "path s = path r" by (auto simp: row_at_def dest: find_SomeD)
  then show ?thesis using own_unique [OF ok _ r(1)] s r(2) by simp
qed

lemma row_by_id: "rows_ok ident own path rows \<Longrightarrow> r \<in> set rows \<Longrightarrow> find (\<lambda>s. ident s = ident r) rows = Some r"
  by (rule find_unique [where k = ident]) (auto simp: rows_ok_def)

lemma lru_subset:
  "lru_ok ident own path limit rows c \<Longrightarrow> set c' \<subseteq> set c \<Longrightarrow> distinct (map fst c') \<Longrightarrow> length c' \<le> limit \<Longrightarrow>
   lru_ok ident own path limit rows c'"
  by (fastforce simp: lru_ok_def)

lemma lru_put:
  assumes "lru_ok ident own path limit rows c" "r \<in> set rows" "own r"
  shows "lru_ok ident own path limit rows (cache_put limit (path r) (ident r) c)"
proof -
  let ?c = "dict_del (path r) c @ [(path r, ident r)]"
  define c' where "c' = drop (length ?c - limit) ?c"
  have "distinct (map fst ?c)" using assms(1) by (auto simp: lru_ok_def dict_del_def distinct_map_filter)
  then have "distinct (map fst c')" unfolding c'_def by (simp only: drop_map [symmetric] distinct_drop)
  moreover have "length c' \<le> limit" by (simp add: c'_def)
  moreover have "\<exists>s\<in>set rows. ident s = i \<and> own s \<and> path s = p" if "(p, i) \<in> set c'" for p i
  proof -
    have "(p, i) \<in> set ?c" using that unfolding c'_def by (rule in_set_dropD)
    then have "(p, i) = (path r, ident r) \<or> (p, i) \<in> set c" by (auto simp: dict_del_def)
    then show ?thesis using assms by (auto simp: lru_ok_def)
  qed
  ultimately show ?thesis by (auto simp: lru_ok_def cache_put_def trim_drop c'_def)
qed

lemma put_found: "map_of (cache_put limit p i c) p = Some i"
proof -
  let ?c = "dict_del p c @ [(p, i)]"
  have "drop (length ?c - limit) ?c = drop (length ?c - limit) (dict_del p c) @ [(p, i)]" using limit_pos by simp
  moreover have "map_of (drop k (dict_del p c)) p = None" for k
    unfolding map_of_eq_None_iff by (auto simp: dict_del_def dest: in_set_dropD)
  ultimately show ?thesis by (simp add: cache_put_def trim_drop map_add_def)
qed

lemma cached_row_correct:
  assumes "rows_ok ident own path rows" "lru_ok ident own path limit rows c"
  shows "\<exists>c'. cached_row ident (\<lambda>r. own r \<and> path r = p) limit p rows c = Inr (row_at own path p rows, c') \<and>
    lru_ok ident own path limit rows c'"
proof (cases "map_of c p")
  case (Some i)
  then have mem: "(p, i) \<in> set c" by (rule map_of_SomeD)
  then obtain r where r: "r \<in> set rows" "ident r = i" "own r" "path r = p" using assms(2) by (auto simp: lru_ok_def)
  let ?c = "dict_del p c @ [(p, i)]"
  have "distinct (map fst c)" "length c \<le> limit" using assms(2) by (auto simp: lru_ok_def)
  moreover have "length (dict_del p c) < length c" using mem by (auto simp: dict_del_def length_filter_less)
  ultimately have "lru_ok ident own path limit rows ?c"
    using mem by (intro lru_subset [OF assms(2)]) (auto simp: dict_del_def distinct_map_filter)
  moreover have "find (\<lambda>s. ident s = i) rows = row_at own path p rows"
    using row_by_id [OF assms(1) r(1)] row_at_eq [OF assms(1) r(1,3)] r by simp
  ultimately show ?thesis using Some by (simp add: cached_row_def)
next
  case None
  have filt: "filter (\<lambda>r. own r \<and> path r = p) rows = (case row_at own path p rows of None \<Rightarrow> [] | Some r \<Rightarrow> [r])"
  proof (cases "row_at own path p rows")
    case None
    then have "filter (\<lambda>r. own r \<and> path r = p) rows = []" by (auto simp: row_at_def find_None_iff filter_empty_conv)
    then show ?thesis using None by simp
  next
    case (Some r)
    then have r: "r \<in> set rows" "own r" "path r = p" by (auto simp: row_at_def dest: find_SomeD)
    have "\<forall>s\<in>set rows. (own s \<and> path s = p) = (s = r)" using own_unique [OF assms(1) _ r(1) _ r(2)] r by metis
    moreover have "distinct rows" using assms(1) by (auto simp: rows_ok_def distinct_map)
    then have "filter (\<lambda>s. s = r) rows = [r]" using r(1) by (induction rows) (auto simp: filter_empty_conv)
    ultimately show ?thesis using Some filter_cong [of rows rows "\<lambda>s. own s \<and> path s = p" "\<lambda>s. s = r"] by simp
  qed
  show ?thesis
  proof (cases "row_at own path p rows")
    case (Some r)
    then have "r \<in> set rows" "own r" "path r = p" by (auto simp: row_at_def dest: find_SomeD)
    then show ?thesis using lru_put [OF assms(2), of r] \<open>map_of c p = None\<close> filt Some by (auto simp: cached_row_def)
  qed (use \<open>map_of c p = None\<close> filt assms(2) in \<open>simp add: cached_row_def\<close>)
qed

text \<open>Changes of rows that keep identity, owner and path, and new rows, leave the cache good.\<close>

lemma rows_ok_replace:
  assumes "rows_ok ident own path rows" "\<And>r. ident (f r) = ident r \<and> own (f r) = own r \<and> path (f r) = path r"
  shows "rows_ok ident own path (map f rows)"
  using assms by (simp add: rows_ok_def filter_map o_def)

lemma lru_ok_replace:
  assumes "lru_ok ident own path limit rows c" "\<And>r. ident (f r) = ident r \<and> own (f r) = own r \<and> path (f r) = path r"
  shows "lru_ok ident own path limit (map f rows) c"
  using assms unfolding lru_ok_def by fastforce

lemma rows_ok_add:
  assumes "rows_ok ident own path rows" "ident r \<notin> ident ` set rows" "row_at own path (path r) rows = None"
  shows "rows_ok ident own path (rows @ [r])"
  using assms by (auto simp: rows_ok_def row_at_def find_None_iff)

lemma lru_ok_add: "lru_ok ident own path limit rows c \<Longrightarrow> lru_ok ident own path limit (rows @ [r]) c"
  by (fastforce simp: lru_ok_def)

end

interpretation file_cache: row_cache fv_id "own_file t g" fv_path FILE_CACHE_MAX for t g
  by unfold_locales (simp add: FILE_CACHE_MAX_def)

interpretation folder_cache: row_cache fo_id "own_folder t g" fo_path FOLDER_CACHE_MAX for t g
  by unfold_locales (simp add: FOLDER_CACHE_MAX_def)

section \<open>A scan and its reference\<close>

definition own_rows :: "inventory \<Rightarrow> file_row \<Rightarrow> bool" where
  "own_rows iv = own_file (iv_tenant iv) (iv_target iv)"

definition inventory_ok :: "inventory \<Rightarrow> bool" where
  "inventory_ok iv \<longleftrightarrow> rows_ok fv_id (own_file (iv_tenant iv) (iv_target iv)) fv_path (iv_files iv) \<and>
     lru_ok fv_id (own_file (iv_tenant iv) (iv_target iv)) fv_path FILE_CACHE_MAX (iv_files iv) (iv_file_cache iv) \<and>
     rows_ok fo_id (own_folder (iv_tenant iv) (iv_target iv)) fo_path (iv_folders iv) \<and>
     lru_ok fo_id (own_folder (iv_tenant iv) (iv_target iv)) fo_path FOLDER_CACHE_MAX (iv_folders iv) (iv_folder_cache iv)"

text \<open>What happens to a file, by the row it has.\<close>

datatype fate = Passed_Over | Broken | Examined string scan_result

definition fate :: "scan_world \<Rightarrow> listed_file \<Rightarrow> file_row option \<Rightarrow> fate" where
  "fate w f row = (if fi_size f > sw_limit w then Passed_Over
     else case sw_read w f of
       None \<Rightarrow> Broken
     | Some c \<Rightarrow> (if sw_force w \<or> fst (file_due f (Some (sw_hash w c)) row) then Examined (sw_hash w c) (sw_detect w c f)
         else Passed_Over))"

definition kept_row :: "scan_world \<Rightarrow> listed_file \<Rightarrow> file_row \<Rightarrow> file_row" where
  "kept_row w f r = (case fate w f (Some r) of
     Examined h sr \<Rightarrow> (if sr_entities sr = 0 then r else updated_file f sr h (sw_job w) (sw_now w) r)
   | _ \<Rightarrow> r)"

definition added_rows :: "scan_world \<Rightarrow> uuid \<Rightarrow> uuid \<Rightarrow> listed_file \<Rightarrow> file_row list" where
  "added_rows w t g f = (case fate w f None of
     Examined h sr \<Rightarrow> (if sr_entities sr = 0 then []
       else [new_file_row (sw_new_id w (fi_path f)) t g None f sr h (sw_job w) (sw_now w)])
   | _ \<Rightarrow> [])"

definition tally :: "fate \<Rightarrow> pipeline_stats \<Rightarrow> pipeline_stats" where
  "tally ft s = (case ft of
     Passed_Over \<Rightarrow> s\<lparr>pl_skipped := pl_skipped s + 1\<rparr>
   | Broken \<Rightarrow> s\<lparr>pl_errored := pl_errored s + 1\<rparr>
   | Examined h sr \<Rightarrow> record_result (sr_tier sr) (sr_entities sr) s)"

definition own_at :: "inventory \<Rightarrow> string \<Rightarrow> file_row option" where
  "own_at iv p = row_at (own_file (iv_tenant iv) (iv_target iv)) fv_path p (iv_files iv)"

lemma updated_file_key [simp]:
  "fv_id (updated_file f sr h job now r) = fv_id r" "fv_path (updated_file f sr h job now r) = fv_path r"
  "own_file t g (updated_file f sr h job now r) = own_file t g r" "fv_job (updated_file f sr h job now r) = Some job"
  by (simp_all add: updated_file_def own_file_def)

lemma kept_row_key [simp]:
  "fv_id (kept_row w f r) = fv_id r" "fv_path (kept_row w f r) = fv_path r" "own_file t g (kept_row w f r) = own_file t g r"
  by (simp_all add: kept_row_def split: fate.split)

lemma new_file_row_key [simp]:
  "fv_id (new_file_row i t g fo f sr h job now) = i" "fv_path (new_file_row i t g fo f sr h job now) = fi_path f"
  "own_file t' g' (new_file_row i t g fo f sr h job now) \<longleftrightarrow> t' = t \<and> g' = g"
  by (auto simp: new_file_row_def own_file_def)

definition same_but_files :: "inventory \<Rightarrow> inventory \<Rightarrow> bool" where
  "same_but_files iv iv' \<longleftrightarrow> iv_tenant iv' = iv_tenant iv \<and> iv_target iv' = iv_target iv \<and>
     iv_folders iv' = iv_folders iv \<and> iv_folder_cache iv' = iv_folder_cache iv"

lemma same_but_files_trans: "same_but_files a b \<Longrightarrow> same_but_files b c \<Longrightarrow> same_but_files a c"
  by (simp add: same_but_files_def)

lemma get_file_inv_ok:
  assumes "inventory_ok iv"
  shows "\<exists>iv'. get_file_inv p iv = Inr (own_at iv p, iv') \<and> inventory_ok iv' \<and> iv_files iv' = iv_files iv \<and> same_but_files iv iv'"
proof -
  obtain c where "cached_row fv_id (\<lambda>r. own_file (iv_tenant iv) (iv_target iv) r \<and> fv_path r = p) FILE_CACHE_MAX p
      (iv_files iv) (iv_file_cache iv) = Inr (own_at iv p, c)"
    "lru_ok fv_id (own_file (iv_tenant iv) (iv_target iv)) fv_path FILE_CACHE_MAX (iv_files iv) c"
    using assms file_cache.cached_row_correct [of "iv_tenant iv" "iv_target iv" "iv_files iv" "iv_file_cache iv" p]
    by (auto simp: inventory_ok_def own_at_def)
  then show ?thesis using assms by (auto simp: get_file_inv_def inventory_ok_def same_but_files_def)
qed

lemma replace_row_own:
  assumes "inventory_ok iv" "own_at iv p = Some r"
  shows "replace_row fv_id (fv_id r) g (iv_files iv) =
    map (\<lambda>r. if own_rows iv r \<and> fv_path r = p then g r else r) (iv_files iv)"
  unfolding replace_row_def
proof (rule map_cong [OF refl])
  fix s assume s: "s \<in> set (iv_files iv)"
  have ok: "rows_ok fv_id (own_file (iv_tenant iv) (iv_target iv)) fv_path (iv_files iv)"
    using assms(1) by (simp add: inventory_ok_def)
  have r: "r \<in> set (iv_files iv)" "own_file (iv_tenant iv) (iv_target iv) r" "fv_path r = p"
    using assms(2) by (auto simp: own_at_def row_at_def dest: find_SomeD)
  have "fv_id s = fv_id r \<longleftrightarrow> s = r" using s r(1) ok by (auto simp: rows_ok_def distinct_map inj_on_def)
  moreover have "own_rows iv s \<and> fv_path s = p \<longleftrightarrow> s = r"
    using file_cache.own_unique [OF ok s r(1)] r by (auto simp: own_rows_def)
  ultimately show "(if fv_id s = fv_id r then g s else s) = (if own_rows iv s \<and> fv_path s = p then g s else s)" by simp
qed

lemma no_own_row:
  "own_at iv p = None \<Longrightarrow> map (\<lambda>r. if own_rows iv r \<and> fv_path r = p then g r else r) (iv_files iv) = iv_files iv"
  by (rule map_idI) (auto simp: own_at_def row_at_def find_None_iff own_rows_def)

lemma update_file_ok:
  assumes "inventory_ok iv" "new_id \<notin> fv_id ` set (iv_files iv)"
    and new_row_def: "new_row = new_file_row new_id (iv_tenant iv) (iv_target iv) folder f sr h job now"
  shows "\<exists>iv'. update_file_inventory new_id f sr h job folder now iv = Inr iv' \<and> inventory_ok iv' \<and> same_but_files iv iv' \<and>
    iv_files iv' = map (\<lambda>r. if own_rows iv r \<and> fv_path r = fi_path f then updated_file f sr h job now r else r) (iv_files iv) @
      (if own_at iv (fi_path f) = None then [new_row] else [])"
proof -
  obtain iv1 where iv1: "get_file_inv (fi_path f) iv = Inr (own_at iv (fi_path f), iv1)" "inventory_ok iv1"
    "iv_files iv1 = iv_files iv" "same_but_files iv iv1"
    using get_file_inv_ok [OF assms(1)] by blast
  have same: "iv_tenant iv1 = iv_tenant iv" "iv_target iv1 = iv_target iv" "own_rows iv1 = own_rows iv" "own_at iv1 = own_at iv"
    using iv1(3,4) by (simp_all add: same_but_files_def own_rows_def own_at_def fun_eq_iff)
  show ?thesis
  proof (cases "own_at iv (fi_path f)")
    case (Some r)
    let ?g = "\<lambda>r. if own_rows iv r \<and> fv_path r = fi_path f then updated_file f sr h job now r else r"
    let ?iv = "iv1\<lparr>iv_files := map ?g (iv_files iv)\<rparr>"
    have "inventory_ok ?iv"
      using iv1(2,3) file_cache.rows_ok_replace [of _ _ "iv_files iv" ?g] file_cache.lru_ok_replace [of _ _ "iv_files iv" _ ?g]
      by (simp add: inventory_ok_def)
    moreover have "replace_row fv_id (fv_id r) (updated_file f sr h job now) (iv_files iv1) = map ?g (iv_files iv)"
      using replace_row_own [OF iv1(2), of "fi_path f" r] same Some iv1(3) by simp
    ultimately show ?thesis using iv1 Some by (simp add: update_file_inventory_def same_but_files_def)
  next
    case None
    let ?iv = "cache_file new_row (iv1\<lparr>iv_files := iv_files iv @ [new_row]\<rparr>)"
    have new: "own_file (iv_tenant iv) (iv_target iv) new_row" "fv_path new_row = fi_path f" "fv_id new_row = new_id"
      by (simp_all add: new_row_def)
    have "inventory_ok ?iv"
      using iv1(2,3) same new assms(2) None file_cache.rows_ok_add [of "iv_tenant iv" "iv_target iv" "iv_files iv" new_row]
        file_cache.lru_put [OF file_cache.lru_ok_add [of "iv_tenant iv" "iv_target iv" "iv_files iv" "iv_file_cache iv1" new_row], of new_row]
      by (simp add: inventory_ok_def cache_file_def own_at_def)
    then show ?thesis using iv1 None same no_own_row [OF None]
      by (simp add: update_file_inventory_def Let_def new_row_def [symmetric]) (simp add: same_but_files_def cache_file_def)
  qed
qed

text \<open>One file.\<close>

definition refreshed_by :: "scan_world \<Rightarrow> inventory \<Rightarrow> listed_file \<Rightarrow> file_row list \<Rightarrow> file_row list" where
  "refreshed_by w iv f rows = map (\<lambda>r. if own_rows iv r \<and> fv_path r = fi_path f then kept_row w f r else r) rows"

definition added_by :: "scan_world \<Rightarrow> inventory \<Rightarrow> listed_file \<Rightarrow> file_row list" where
  "added_by w iv f = (if own_at iv (fi_path f) = None then added_rows w (iv_tenant iv) (iv_target iv) f else [])"

definition fate_of :: "scan_world \<Rightarrow> inventory \<Rightarrow> listed_file \<Rightarrow> fate" where
  "fate_of w iv f = fate w f (own_at iv (fi_path f))"

lemma should_scan_ok:
  assumes "inventory_ok iv"
  shows "\<exists>iv' reason. should_scan_file f h force iv = Inr ((force \<or> fst (file_due f h (own_at iv (fi_path f))), reason), iv') \<and>
    inventory_ok iv' \<and> iv_files iv' = iv_files iv \<and> same_but_files iv iv'"
proof (cases force)
  case False
  obtain iv' where "get_file_inv (fi_path f) iv = Inr (own_at iv (fi_path f), iv')" "inventory_ok iv'"
    "iv_files iv' = iv_files iv" "same_but_files iv iv'" using get_file_inv_ok [OF assms] by blast
  then show ?thesis using False by (cases "file_due f h (own_at iv (fi_path f))") (simp add: should_scan_file_def)
qed (use assms in \<open>simp add: should_scan_file_def same_but_files_def\<close>)

lemma unaffected:
  assumes "\<And>h sr. fate_of w iv f = Examined h sr \<Longrightarrow> sr_entities sr = 0" "inventory_ok iv"
  shows "refreshed_by w iv f (iv_files iv) = iv_files iv" "added_by w iv f = []"
proof -
  have "kept_row w f r = r" if "r \<in> set (iv_files iv)" "own_rows iv r" "fv_path r = fi_path f" for r
  proof -
    have "own_at iv (fi_path f) = Some r"
      using file_cache.row_at_eq [of "iv_tenant iv" "iv_target iv" "iv_files iv" r] that assms(2)
      by (simp add: inventory_ok_def own_at_def own_rows_def)
    then have "fate w f (Some r) = fate_of w iv f" by (simp add: fate_of_def)
    then show ?thesis using assms(1) by (auto simp: kept_row_def split: fate.split)
  qed
  then show "refreshed_by w iv f (iv_files iv) = iv_files iv" by (auto simp: refreshed_by_def intro!: map_idI)
  show "added_by w iv f = []" using assms(1) by (auto simp: added_by_def added_rows_def fate_of_def split: fate.split)
qed

lemma process_one_exact:
  assumes "inventory_ok (ss_inv s)" "sw_new_id w (fi_path f) \<notin> fv_id ` set (iv_files (ss_inv s))"
  defines "s' \<equiv> process_one_file w f s" and "iv \<equiv> ss_inv s"
  shows "inventory_ok (ss_inv s') \<and> same_but_files iv (ss_inv s') \<and>
    iv_files (ss_inv s') = refreshed_by w iv f (iv_files iv) @ added_by w iv f \<and>
    ss_stats s' = tally (fate_of w iv f) (ss_stats s)"
proof (cases "fate_of w iv f")
  case Broken
  then have "refreshed_by w iv f (iv_files iv) = iv_files iv" "added_by w iv f = []"
    using unaffected [of w iv f] assms(1) by (simp_all add: iv_def)
  then show ?thesis using Broken assms(1)
    by (auto simp: s'_def iv_def process_one_file_def fate_of_def fate_def tally_def error_file_def same_but_files_def Let_def
        split: if_splits option.splits)
next
  case Passed_Over
  then have same: "refreshed_by w iv f (iv_files iv) = iv_files iv" "added_by w iv f = []"
    using unaffected [of w iv f] assms(1) by (simp_all add: iv_def)
  show ?thesis
  proof (cases "fi_size f > sw_limit w")
    case True
    then show ?thesis using same Passed_Over assms(1)
      by (simp add: s'_def iv_def process_one_file_def skip_file_def tally_def same_but_files_def Let_def)
  next
    case False
    then obtain c where c: "sw_read w f = Some c" "\<not> sw_force w"
      "\<not> fst (file_due f (Some (sw_hash w c)) (own_at iv (fi_path f)))"
      using Passed_Over by (auto simp: fate_of_def fate_def split: option.splits if_splits)
    obtain iv' reason where "should_scan_file f (Some (sw_hash w c)) (sw_force w) iv = Inr ((False, reason), iv')"
      "inventory_ok iv'" "iv_files iv' = iv_files iv" "same_but_files iv iv'"
      using should_scan_ok [of iv f "Some (sw_hash w c)" "sw_force w"] c assms(1) by (auto simp: iv_def)
    then show ?thesis using same Passed_Over False c(1)
      by (simp add: s'_def iv_def process_one_file_def skip_file_def tally_def Let_def)
  qed
next
  case (Examined h sr)
  then obtain c where c: "\<not> fi_size f > sw_limit w" "sw_read w f = Some c" "h = sw_hash w c" "sr = sw_detect w c f"
    "sw_force w \<or> fst (file_due f (Some h) (own_at iv (fi_path f)))"
    by (auto simp: fate_of_def fate_def split: option.splits if_splits)
  obtain iv1 reason where scan: "should_scan_file f (Some h) (sw_force w) iv = Inr ((True, reason), iv1)"
    and iv1: "inventory_ok iv1" "iv_files iv1 = iv_files iv" "same_but_files iv iv1"
    using should_scan_ok [of iv f "Some h" "sw_force w"] c(5) assms(1) by (auto simp: iv_def)
  have step: "s' = save_result w f h sr (s\<lparr>ss_folders := at_folder (get_folder_path (fi_path f)) (folder_seen f) (ss_folders s),
      ss_inv := iv1\<rparr>)"
    using scan c by (simp add: s'_def iv_def process_one_file_def Let_def)
  have known: "fate w f (Some r) = Examined h sr" if "own_at iv (fi_path f) = Some r" for r
    using Examined that by (simp add: fate_of_def)
  show ?thesis
  proof (cases "sr_entities sr = 0")
    case True
    then have "refreshed_by w iv f (iv_files iv) = iv_files iv" "added_by w iv f = []"
      using unaffected [of w iv f] Examined assms(1) by (simp_all add: iv_def)
    then show ?thesis using True iv1 Examined by (simp add: step save_result_def tally_def Let_def)
  next
    case False
    have same: "own_at iv1 = own_at iv" "own_rows iv1 = own_rows iv" "iv_tenant iv1 = iv_tenant iv" "iv_target iv1 = iv_target iv"
      using iv1(2,3) by (simp_all add: same_but_files_def own_at_def own_rows_def fun_eq_iff)
    obtain iv2 where iv2: "update_file_inventory (sw_new_id w (fi_path f)) f sr h (sw_job w) None (sw_now w) iv1 = Inr iv2"
      "inventory_ok iv2" "same_but_files iv1 iv2"
      "iv_files iv2 = map (\<lambda>r. if own_rows iv r \<and> fv_path r = fi_path f then updated_file f sr h (sw_job w) (sw_now w) r else r)
          (iv_files iv) @ (if own_at iv (fi_path f) = None
            then [new_file_row (sw_new_id w (fi_path f)) (iv_tenant iv) (iv_target iv) None f sr h (sw_job w) (sw_now w)] else [])"
      using update_file_ok [OF iv1(1) _ refl, of "sw_new_id w (fi_path f)" f sr h "sw_job w" None "sw_now w"] assms(2) iv1(2) same
      unfolding iv_def by auto
    have "updated_file f sr h (sw_job w) (sw_now w) r = kept_row w f r"
      if "r \<in> set (iv_files iv)" "own_rows iv r" "fv_path r = fi_path f" for r
    proof -
      have "own_at iv (fi_path f) = Some r"
        using file_cache.row_at_eq [of "iv_tenant iv" "iv_target iv" "iv_files iv" r] that assms(1)
        by (simp add: inventory_ok_def own_at_def own_rows_def iv_def)
      then show ?thesis using known False by (simp add: kept_row_def)
    qed
    then have "iv_files iv2 = refreshed_by w iv f (iv_files iv) @ added_by w iv f"
      using iv2(4) Examined False by (auto simp: refreshed_by_def added_by_def added_rows_def fate_of_def)
    then show ?thesis using False iv2 iv1(3) Examined same_but_files_trans
      by (simp add: step save_result_def tally_def Let_def)
  qed
qed

text \<open>All files: each row by the listed file of its path, and the rows of new files behind.\<close>

definition refreshed_row :: "scan_world \<Rightarrow> inventory \<Rightarrow> listed_file list \<Rightarrow> file_row \<Rightarrow> file_row" where
  "refreshed_row w iv files r = (case find (\<lambda>f. own_rows iv r \<and> fi_path f = fv_path r) files of
     Some f \<Rightarrow> kept_row w f r | None \<Rightarrow> r)"

definition scanned_rows :: "scan_world \<Rightarrow> inventory \<Rightarrow> listed_file list \<Rightarrow> file_row list" where
  "scanned_rows w iv files = map (refreshed_row w iv files) (iv_files iv) @ concat (map (added_by w iv) files)"

definition scanned_stats :: "scan_world \<Rightarrow> inventory \<Rightarrow> listed_file list \<Rightarrow> pipeline_stats" where
  "scanned_stats w iv files = fold (\<lambda>f. tally (fate_of w iv f)) files fresh_stats"

definition fresh_ids :: "scan_world \<Rightarrow> inventory \<Rightarrow> listed_file list \<Rightarrow> bool" where
  "fresh_ids w iv files \<longleftrightarrow> inj_on (sw_new_id w) (fi_path ` set files) \<and>
     (\<forall>f\<in>set files. sw_new_id w (fi_path f) \<notin> fv_id ` set (iv_files iv))"

lemma refreshed_row_key [simp]:
  "fv_id (refreshed_row w iv files r) = fv_id r" "fv_path (refreshed_row w iv files r) = fv_path r"
  "own_rows iv' (refreshed_row w iv files r) = own_rows iv' r"
  by (simp_all add: refreshed_row_def own_rows_def split: option.split)

lemma refreshed_row_other: "\<forall>g\<in>set files. fi_path g \<noteq> fv_path r \<Longrightarrow> refreshed_row w iv files r = r"
  by (auto simp: refreshed_row_def find_None_iff [THEN iffD2] split: option.split dest: find_SomeD)

lemma added_by_key:
  "r \<in> set (added_by w iv f) \<Longrightarrow> fv_path r = fi_path f \<and> fv_id r = sw_new_id w (fi_path f) \<and> fv_job r = Some (sw_job w)"
  by (auto simp: added_by_def added_rows_def new_file_row_def split: fate.splits if_splits)

lemma find_append: "find P (xs @ ys) = (case find P xs of Some x \<Rightarrow> Some x | None \<Rightarrow> find P ys)"
  by (induction xs) simp_all

lemma row_after:
  assumes "fi_path f \<notin> fi_path ` set files"
  shows "refreshed_row w iv (files @ [f]) r =
    (if own_rows iv r \<and> fv_path r = fi_path f then kept_row w f (refreshed_row w iv files r) else refreshed_row w iv files r)"
proof (cases "own_rows iv r \<and> fv_path r = fi_path f")
  case True
  then have "refreshed_row w iv files r = r" using assms by (intro refreshed_row_other) (metis imageI)
  moreover have "find (\<lambda>f. own_rows iv r \<and> fi_path f = fv_path r) files = None"
    unfolding find_None_iff using True assms by (metis imageI)
  ultimately show ?thesis using True by (simp add: refreshed_row_def find_append)
next
  case False
  then show ?thesis by (auto simp: refreshed_row_def find_append split: option.split)
qed

lemma own_at_scanned:
  assumes "fi_path f \<notin> fi_path ` set files" "same_but_files iv iv'" "iv_files iv' = scanned_rows w iv files"
  shows "own_at iv' (fi_path f) = own_at iv (fi_path f)"
proof -
  let ?P = "\<lambda>r. own_rows iv r \<and> fv_path r = fi_path f"
  have "\<not> ?P r" if "r \<in> set (concat (map (added_by w iv) files))" for r
    using that assms(1) by (auto dest!: added_by_key)
  then have "find ?P (concat (map (added_by w iv) files)) = None"
    unfolding find_None_iff by blast
  moreover have "find ?P (map (refreshed_row w iv files) rows) = find ?P rows" for rows
  proof (induction rows)
    case (Cons r rows)
    have "?P r \<Longrightarrow> refreshed_row w iv files r = r" using assms(1) by (intro refreshed_row_other) (metis imageI)
    with Cons show ?case by simp
  qed simp
  ultimately show ?thesis using assms(2,3)
    by (simp add: own_at_def row_at_def scanned_rows_def find_append own_rows_def same_but_files_def split: option.split)
qed

lemma process_files_exact:
  assumes "inventory_ok iv"
  shows "distinct (map fi_path files) \<Longrightarrow> fresh_ids w iv files \<Longrightarrow>
    (let s = process_files w files iv
     in inventory_ok (ss_inv s) \<and> same_but_files iv (ss_inv s) \<and> iv_files (ss_inv s) = scanned_rows w iv files \<and>
        ss_stats s = scanned_stats w iv files)"
proof (induction files rule: rev_induct)
  case Nil
  have "map (refreshed_row w iv []) (iv_files iv) = iv_files iv" by (rule map_idI) (simp add: refreshed_row_def)
  then show ?case using assms
    by (simp add: process_files_def fresh_scan_def scanned_rows_def scanned_stats_def same_but_files_def)
next
  case (snoc f files)
  let ?s = "process_files w files iv"
  have f: "fi_path f \<notin> fi_path ` set files" using snoc.prems(1) by auto
  have fresh: "fresh_ids w iv files" "sw_new_id w (fi_path f) \<notin> fv_id ` set (iv_files iv)"
    "sw_new_id w (fi_path f) \<notin> (\<lambda>g. sw_new_id w (fi_path g)) ` set files"
    using snoc.prems f by (auto simp: fresh_ids_def inj_on_def)
  have IH: "inventory_ok (ss_inv ?s)" "same_but_files iv (ss_inv ?s)" "iv_files (ss_inv ?s) = scanned_rows w iv files"
    "ss_stats ?s = scanned_stats w iv files"
    using snoc.IH snoc.prems(1) fresh(1) by (simp_all add: Let_def)
  have at: "own_at (ss_inv ?s) (fi_path f) = own_at iv (fi_path f)" using own_at_scanned [OF f IH(2,3)] .
  have same: "own_rows (ss_inv ?s) = own_rows iv" "iv_tenant (ss_inv ?s) = iv_tenant iv" "iv_target (ss_inv ?s) = iv_target iv"
    using IH(2) by (simp_all add: same_but_files_def own_rows_def)
  have new: "sw_new_id w (fi_path f) \<notin> fv_id ` set (iv_files (ss_inv ?s))"
    using fresh(2,3) by (auto simp: IH(3) scanned_rows_def dest: added_by_key)
  have "refreshed_by w (ss_inv ?s) f (scanned_rows w iv files) @ added_by w (ss_inv ?s) f = scanned_rows w iv (files @ [f])"
  proof -
    have "added_by w (ss_inv ?s) f = added_by w iv f" by (simp add: added_by_def at same)
    moreover have "refreshed_by w (ss_inv ?s) f (concat (map (added_by w iv) files)) = concat (map (added_by w iv) files)"
      unfolding refreshed_by_def using f by (intro map_idI) (auto dest!: added_by_key)
    ultimately show ?thesis
      using row_after [OF f, of w iv] by (simp add: refreshed_by_def scanned_rows_def same)
  qed
  then show ?case
    using process_one_exact [OF IH(1) new] IH at same same_but_files_trans [OF IH(2)]
    by (simp add: process_files_def Let_def scanned_stats_def fate_of_def)
qed

text \<open>The folders of the scan are written without touching the files.\<close>

lemma get_folder_inv_ok:
  assumes "inventory_ok iv"
  shows "\<exists>iv' row. get_folder_inv p iv = Inr (row, iv') \<and> inventory_ok iv' \<and> iv_files iv' = iv_files iv \<and>
    iv_folders iv' = iv_folders iv \<and> iv_tenant iv' = iv_tenant iv \<and> iv_target iv' = iv_target iv \<and>
    row = row_at (own_folder (iv_tenant iv) (iv_target iv)) fo_path p (iv_folders iv)"
proof -
  obtain row c where "cached_row fo_id (\<lambda>r. own_folder (iv_tenant iv) (iv_target iv) r \<and> fo_path r = p) FOLDER_CACHE_MAX p
      (iv_folders iv) (iv_folder_cache iv) = Inr (row, c)" "row = row_at (own_folder (iv_tenant iv) (iv_target iv)) fo_path p (iv_folders iv)"
    "lru_ok fo_id (own_folder (iv_tenant iv) (iv_target iv)) fo_path FOLDER_CACHE_MAX (iv_folders iv) c"
    using assms folder_cache.cached_row_correct [of "iv_tenant iv" "iv_target iv" "iv_folders iv" "iv_folder_cache iv" p]
    by (auto simp: inventory_ok_def)
  then show ?thesis using assms by (auto simp: get_folder_inv_def inventory_ok_def)
qed

lemma update_folder_ok:
  assumes "inventory_ok iv" "new_id \<notin> fo_id ` set (iv_folders iv)"
  shows "\<exists>iv'. update_folder_inventory new_id p kind job now n bytes m sens risk ents iv = Inr iv' \<and> inventory_ok iv' \<and>
    iv_files iv' = iv_files iv \<and> iv_tenant iv' = iv_tenant iv \<and> iv_target iv' = iv_target iv \<and>
    fo_id ` set (iv_folders iv') \<subseteq> insert new_id (fo_id ` set (iv_folders iv))"
proof -
  obtain iv1 row where g: "get_folder_inv p iv = Inr (row, iv1)" "inventory_ok iv1" "iv_files iv1 = iv_files iv"
    "iv_folders iv1 = iv_folders iv" "iv_tenant iv1 = iv_tenant iv" "iv_target iv1 = iv_target iv"
    "row = row_at (own_folder (iv_tenant iv) (iv_target iv)) fo_path p (iv_folders iv)"
    using get_folder_inv_ok [OF assms(1)] by blast
  show ?thesis
  proof (cases row)
    case (Some r)
    let ?g = "\<lambda>s. if fo_id s = fo_id r then updated_folder job now n bytes m sens risk ents s else s"
    have key: "fo_id (?g s) = fo_id s \<and> own_folder t g (?g s) = own_folder t g s \<and> fo_path (?g s) = fo_path s" for s t g
      by (simp add: updated_folder_def own_folder_def)
    have "inventory_ok (iv1\<lparr>iv_folders := map ?g (iv_folders iv)\<rparr>)"
      using g(2,4) folder_cache.rows_ok_replace [of _ _ "iv_folders iv" ?g, OF _ key]
        folder_cache.lru_ok_replace [of _ _ "iv_folders iv" _ ?g, OF _ key] by (simp add: inventory_ok_def)
    moreover have "update_folder_inventory new_id p kind job now n bytes m sens risk ents iv =
        Inr (iv1\<lparr>iv_folders := map ?g (iv_folders iv)\<rparr>)"
      unfolding update_folder_inventory_def g(1) by (simp only: Some res_bind.simps split option.case replace_row_def g(4))
    ultimately show ?thesis using g(3,5,6) by (auto simp: updated_folder_def) (metis imageI)
  next
    case None
    define r where "r = \<lparr>fo_id = new_id, fo_tenant = iv_tenant iv1, fo_target = iv_target iv1, fo_path = p, fo_adapter = kind,
      fo_files = n, fo_bytes = bytes, fo_modified = m, fo_scanned_at = Some now, fo_job = Some job, fo_sensitive = sens,
      fo_risk = risk, fo_entities = ents\<rparr>"
    have new: "own_folder (iv_tenant iv) (iv_target iv) r" "fo_path r = p" "fo_id r = new_id"
      using g(5,6) by (simp_all add: r_def own_folder_def)
    have "inventory_ok (cache_folder r (iv1\<lparr>iv_folders := iv_folders iv @ [r]\<rparr>))"
      using g(2-7) new assms(2) None folder_cache.rows_ok_add [of "iv_tenant iv" "iv_target iv" "iv_folders iv" r]
        folder_cache.lru_put [OF folder_cache.lru_ok_add [of "iv_tenant iv" "iv_target iv" "iv_folders iv" "iv_folder_cache iv1" r], of r]
      by (simp add: inventory_ok_def cache_folder_def)
    moreover have "update_folder_inventory new_id p kind job now n bytes m sens risk ents iv =
        Inr (cache_folder r (iv1\<lparr>iv_folders := iv_folders iv @ [r]\<rparr>))"
      unfolding update_folder_inventory_def g(1) by (simp only: None res_bind.simps split option.case Let_def r_def g(4))
    ultimately show ?thesis using g(3,5,6) new(3) by (auto simp: cache_folder_def)
  qed
qed

lemma still_disjoint: "A \<subseteq> insert p B \<Longrightarrow> p \<notin> F \<Longrightarrow> F \<inter> B = {} \<Longrightarrow> F \<inter> A = {}"
  by blast

lemma write_folders_ok:
  "inventory_ok iv \<Longrightarrow> distinct (map fst fs) \<Longrightarrow> inj_on folder_id (fst ` set fs) \<Longrightarrow> folder_id ` fst ` set fs \<inter> fo_id ` set (iv_folders iv) = {} \<Longrightarrow>
   \<exists>iv'. write_folders folder_id kind job now fs iv = Inr iv' \<and> iv_files iv' = iv_files iv \<and>
     iv_tenant iv' = iv_tenant iv \<and> iv_target iv' = iv_target iv"
proof (induction fs arbitrary: iv)
  case (Cons x fs)
  obtain p st where x: "x = (p, st)" by fastforce
  obtain iv1 where iv1: "update_folder_inventory (folder_id p) p kind job now (fs_files st) (fs_bytes st) None (fs_sensitive st)
      (fs_risk st) (fs_entities st) iv = Inr iv1" "inventory_ok iv1" "iv_files iv1 = iv_files iv" "iv_tenant iv1 = iv_tenant iv"
    "iv_target iv1 = iv_target iv" "fo_id ` set (iv_folders iv1) \<subseteq> insert (folder_id p) (fo_id ` set (iv_folders iv))"
    using update_folder_ok [OF Cons.prems(1), of "folder_id p" p kind job now "fs_files st" "fs_bytes st" None "fs_sensitive st"
        "fs_risk st" "fs_entities st"] Cons.prems(4) x by auto
  have "folder_id p \<notin> folder_id ` fst ` set fs" using Cons.prems(2,3) x by (auto simp: inj_on_def)
  moreover have "folder_id ` fst ` set fs \<inter> fo_id ` set (iv_folders iv) = {}" using Cons.prems(4) x by auto
  ultimately have "folder_id ` fst ` set fs \<inter> fo_id ` set (iv_folders iv1) = {}" by (rule still_disjoint [OF iv1(6)])
  then obtain iv2 where "write_folders folder_id kind job now fs iv1 = Inr iv2" "iv_files iv2 = iv_files iv1"
    "iv_tenant iv2 = iv_tenant iv1" "iv_target iv2 = iv_target iv1"
    using Cons.IH [OF iv1(2)] Cons.prems(2,3) x by auto
  then show ?case using iv1 x by simp
qed simp

lemma at_folder_distinct: "distinct (map fst fs) \<Longrightarrow> distinct (map fst (at_folder p g fs))"
  by (simp add: at_folder_def distinct_dict_set)

lemma process_one_folders: "distinct (map fst (ss_folders s)) \<Longrightarrow> distinct (map fst (ss_folders (process_one_file w f s)))"
  by (auto simp: process_one_file_def save_result_def skip_file_def error_file_def Let_def at_folder_distinct
      split: option.splits sum.splits)

lemma process_files_folders: "distinct (map fst (ss_folders (process_files w files iv)))"
  by (induction files rule: rev_induct) (simp_all add: process_files_def fresh_scan_def process_one_folders)

lemma keys_at_folder: "fst ` set (at_folder p g fs) = insert p (fst ` set fs)"
proof -
  have "set (map fst (dict_set p v fs)) = insert p (set (map fst fs))" for v
    unfolding keys_dict_set by auto
  then show ?thesis by (simp add: at_folder_def)
qed

lemma process_one_folder_keys:
  "fst ` set (ss_folders (process_one_file w f s)) \<subseteq> insert (get_folder_path (fi_path f)) (fst ` set (ss_folders s))"
  by (auto simp: process_one_file_def save_result_def skip_file_def error_file_def Let_def keys_at_folder
      split: option.splits sum.splits)

lemma process_files_folder_keys:
  "fst ` set (ss_folders (process_files w files iv)) \<subseteq> (\<lambda>f. get_folder_path (fi_path f)) ` set files"
proof (induction files rule: rev_induct)
  case (snoc f files)
  have "process_files w (files @ [f]) iv = process_one_file w f (process_files w files iv)" by (simp add: process_files_def)
  then have "fst ` set (ss_folders (process_files w (files @ [f]) iv)) \<subseteq>
      insert (get_folder_path (fi_path f)) (fst ` set (ss_folders (process_files w files iv)))"
    using process_one_folder_keys [of w f "process_files w files iv"] by simp
  then show ?case using snoc by (simp only: set_append list.set image_Un image_insert) blast
qed (simp add: process_files_def fresh_scan_def)

text \<open>What the mark of the missing files makes of a row.\<close>

definition settled :: "scan_world \<Rightarrow> inventory \<Rightarrow> file_row \<Rightarrow> file_row" where
  "settled w iv r = (if own_rows iv r \<and> fv_job r \<notin> {None, Some (sw_job w)} then r\<lparr>fv_rescan := True\<rparr> else r)"

lemma settled_unseen: "settled w iv r = (if unseen (sw_job w) iv r then r\<lparr>fv_rescan := True\<rparr> else r)"
  by (cases r) (auto simp: settled_def unseen_def own_rows_def own_file_def split: option.splits)

text \<open>C12: a scan of files with different paths, whatever the caches hold, leaves in the table of files exactly the
  reference: the own row of each examined sensitive file refreshed, one row for each new sensitive file, every own
  row of an earlier scan that was not refreshed flagged, the rows of other targets and tenants untouched; and
  its statistics are those of the fates of the files against the table as it was before the scan.\<close>

theorem delta_scan_exact:
  assumes "inventory_ok iv" "distinct (map fi_path files)" "fresh_ids w iv files"
    and "inj_on folder_id ((\<lambda>f. get_folder_path (fi_path f)) ` set files)"
    and "(\<lambda>f. folder_id (get_folder_path (fi_path f))) ` set files \<inter> fo_id ` set (iv_folders iv) = {}"
  shows "\<exists>n iv'. run_scan w folder_id kind files iv = Inr (scanned_stats w iv files, n, iv') \<and>
    iv_files iv' = map (settled w iv) (scanned_rows w iv files)"
proof -
  let ?s = "process_files w files iv"
  have s: "inventory_ok (ss_inv ?s)" "same_but_files iv (ss_inv ?s)" "iv_files (ss_inv ?s) = scanned_rows w iv files"
    "ss_stats ?s = scanned_stats w iv files"
    using process_files_exact [OF assms(1-3)] by (simp_all add: Let_def)
  have keys: "fst ` set (ss_folders ?s) \<subseteq> (\<lambda>f. get_folder_path (fi_path f)) ` set files"
    by (rule process_files_folder_keys)
  have "folder_id ` fst ` set (ss_folders ?s) \<subseteq> (\<lambda>f. folder_id (get_folder_path (fi_path f))) ` set files"
    using image_mono [OF keys, of folder_id] by (simp add: image_image)
  then have "folder_id ` fst ` set (ss_folders ?s) \<inter> fo_id ` set (iv_folders (ss_inv ?s)) = {}"
    using assms(5) s(2) by (auto simp: same_but_files_def)
  then obtain iv' where "write_folders folder_id kind (sw_job w) (sw_now w) (ss_folders ?s) (ss_inv ?s) = Inr iv'"
    "iv_files iv' = scanned_rows w iv files" "iv_tenant iv' = iv_tenant iv" "iv_target iv' = iv_target iv"
    using write_folders_ok [OF s(1) process_files_folders inj_on_subset [OF assms(4) keys], of kind "sw_job w" "sw_now w"] s(2,3) by (auto simp: same_but_files_def)
  moreover from this have "unseen (sw_job w) iv' = unseen (sw_job w) iv" by (simp add: unseen_def fun_eq_iff)
  ultimately show ?thesis using s(4)
    by (simp add: run_scan_def Let_def mark_missing_files_def settled_unseen [abs_def])
qed

text \<open>Every listed file is counted once: scanned, skipped or broken.\<close>

lemma tally_counts:
  "pl_scanned (tally ft s) + pl_skipped (tally ft s) + pl_errored (tally ft s) = pl_scanned s + pl_skipped s + pl_errored s + 1"
  by (simp add: tally_def record_result_def split: fate.split)

lemma scanned_stats_count:
  "pl_scanned (scanned_stats w iv files) + pl_skipped (scanned_stats w iv files) + pl_errored (scanned_stats w iv files) = length files"
  by (induction files rule: rev_induct) (simp_all add: scanned_stats_def tally_counts, simp add: fresh_stats_def)

section \<open>What the inventory gets wrong\<close>

lemma file_due_flagged: "fv_rescan r \<Longrightarrow> file_due f h (Some r) = (True, ''flagged_rescan'')"
  by (simp add: file_due_def)

text \<open>A file that was seen but not examined, because it did not change, is flagged as missing, so the next
  scan examines it: an unchanged sensitive file is examined in every second scan.\<close>

lemma unchanged_file_flagged:
  assumes "own_rows iv r" "fate w f (Some r) = Passed_Over" "fv_job r = Some k" "k \<noteq> sw_job w"
  shows "fv_rescan (settled w iv (kept_row w f r))"
  using assms by (simp add: settled_def kept_row_def own_rows_def)

lemma unchanged_examined_every_other:
  assumes "own_rows iv r" "fate w f (Some r) = Passed_Over" "fv_job r = Some k" "k \<noteq> sw_job w"
    and "\<not> fi_size f > sw_limit w'" "sw_read w' f = Some c" "sr_entities (sw_detect w' c f) > 0"
  defines "r1 \<equiv> settled w iv (kept_row w f r)"
  defines "r2 \<equiv> settled w' iv (kept_row w' f r1)"
  shows "fate w' f (Some r1) = Examined (sw_hash w' c) (sw_detect w' c f)" "\<not> fv_rescan r2"
proof -
  have "fv_rescan r1" unfolding r1_def using unchanged_file_flagged [OF assms(1-4)] .
  then show ex: "fate w' f (Some r1) = Examined (sw_hash w' c) (sw_detect w' c f)"
    using assms(5,6) by (simp add: fate_def file_due_flagged)
  show "\<not> fv_rescan r2" using ex assms(7) by (simp add: r2_def settled_def kept_row_def) (simp add: updated_file_def)
qed

text \<open>A rescan of one file flags all other files of the target.\<close>

lemma rescan_flags_others:
  assumes "own_rows iv r" "fv_path r \<noteq> fi_path f" "fv_job r = Some k" "k \<noteq> sw_job w"
  shows "fv_rescan (settled w iv (refreshed_row w iv [f] r))"
proof -
  have "refreshed_row w iv [f] r = r" using assms(2) by (intro refreshed_row_other) simp
  then show ?thesis using assms by (simp add: settled_def)
qed

text \<open>A file whose sensitive data was removed keeps its row with the old tier, and is examined by every scan.\<close>

lemma cleaned_file_stays:
  assumes "fate w f (Some r) = Examined h sr" "sr_entities sr = 0"
  shows "kept_row w f r = r"
  using assms by (simp add: kept_row_def)

text \<open>A file without sensitive data has no row: every scan examines it.\<close>

lemma clean_file_always_new:
  assumes "own_at iv (fi_path f) = None" "\<not> fi_size f > sw_limit w" "sw_read w f = Some c" "sr_entities (sw_detect w c f) = 0"
  shows "fate_of w iv f = Examined (sw_hash w c) (sw_detect w c f)" "added_by w iv f = []"
  using assms by (simp_all add: fate_of_def fate_def file_due_def added_by_def added_rows_def)

section \<open>A target\<close>

definition ex_inventory :: inventory where
  "ex_inventory = \<lparr>iv_tenant = 1, iv_target = 2, iv_files = [], iv_folders = [], iv_file_cache = [], iv_folder_cache = []\<rparr>"

definition ex_file :: "string \<Rightarrow> listed_file" where
  "ex_file p = \<lparr>fi_path = p, fi_name = p, fi_size = 4, fi_owner = None, fi_adapter = ''s3'', fi_item = p,
     fi_modified = None, fi_exposure = ''PRIVATE''\<rparr>"

definition ex_world :: "uuid \<Rightarrow> scan_world" where
  "ex_world job = \<lparr>sw_read = (\<lambda>f. Some ''text''), sw_hash = (\<lambda>c. c),
     sw_detect = (\<lambda>c f. \<lparr>sr_score = 50, sr_tier = ''HIGH'', sr_counts = [(''SSN'', 1)], sr_entities = 1,
       sr_exposure = None, sr_owner = None, sr_label = None\<rparr>),
     sw_new_id = length, sw_limit = 100, sw_force = False, sw_job = job, sw_now = 0\<rparr>"

definition ex_scan :: "uuid \<Rightarrow> inventory \<Rightarrow> inventory" where
  "ex_scan job iv = (case run_scan (ex_world job) (\<lambda>p. 9) ''s3'' [ex_file ''/d/a''] iv of Inr (st, n, iv') \<Rightarrow> iv' | Inl e \<Rightarrow> iv)"

text \<open>After an incremental scan that passes over its unchanged files a folder no longer counts as sensitive.\<close>

lemma folder_forgets_sensitive:
  "map (\<lambda>f. (fo_path f, fo_sensitive f)) (iv_folders (ex_scan 1 ex_inventory)) = [(''/d'', True)] \<and>
   map (\<lambda>f. (fo_path f, fo_sensitive f)) (iv_folders (ex_scan 2 (ex_scan 1 ex_inventory))) = [(''/d'', False)] \<and>
   map (\<lambda>r. (fv_path r, fv_tier r)) (iv_files (ex_scan 2 (ex_scan 1 ex_inventory))) = [(''/d/a'', ''HIGH'')]"
  by code_simp

text \<open>The folder of an object in a bucket is not a prefix of its path.\<close>

lemma cloud_folder_path: "get_folder_path ''s3://bucket/a/b'' = ''s3:/bucket/a''"
  by code_simp

lemma delta_scan_exact_witness:
  "\<exists>n iv'. run_scan (ex_world 1) (\<lambda>p. length p) ''s3'' [ex_file ''/d/a'', ex_file ''/d/bc''] ex_inventory =
      Inr (scanned_stats (ex_world 1) ex_inventory [ex_file ''/d/a'', ex_file ''/d/bc''], n, iv') \<and>
    iv_files iv' = map (settled (ex_world 1) ex_inventory) (scanned_rows (ex_world 1) ex_inventory [ex_file ''/d/a'', ex_file ''/d/bc''])"
proof (rule delta_scan_exact)
  show "inventory_ok ex_inventory" by (simp add: inventory_ok_def rows_ok_def lru_ok_def ex_inventory_def)
  have "get_folder_path ''/d/a'' = ''/d''" "get_folder_path ''/d/bc'' = ''/d''" by code_simp+
  then show "inj_on (\<lambda>p. length p) ((\<lambda>f. get_folder_path (fi_path f)) ` set [ex_file ''/d/a'', ex_file ''/d/bc''])"
    by (simp add: ex_file_def)
qed (simp_all add: ex_file_def ex_world_def ex_inventory_def fresh_ids_def)
end
