(* ===== verification/File_Pipeline.thy ===== *)
theory File_Pipeline
  imports Scan_Inventory "HOL-Library.Multiset"
begin

text \<open>
  The concurrent pipeline of a scan, \<^verbatim>\<open>src/openlabels/jobs/pipeline.py\<close>: the loop of \<open>FilePipeline.run\<close>, the
  semaphore of its slots, the memory budget and the tasks.

  \<open>pipe_step\<close> is the interleaving of the loop and its tasks between two points where they wait: the loop
  takes a file, waits for a slot, waits for memory and makes a task; a task starts, and ends with the outcome
  of its file, which is the parameter \<open>out\<close>; the loop waits for the last tasks and commits. \<open>cancels\<close> is the answer of the
  cancellation function, which is asked only when \<open>check_due\<close>. The function for a file either counts it in one
  of the three ways or raises before it does.
\<close>

section \<open>Configuration and state\<close>

record pipeline_config =
  max_concurrent_files :: nat
  memory_budget_mb :: nat
  commit_interval :: nat
  cancellation_check_interval :: nat

definition default_pipeline :: pipeline_config where
  "default_pipeline = \<lparr>max_concurrent_files = 8, memory_budget_mb = 512, commit_interval = 50, cancellation_check_interval = 10\<rparr>"

text \<open>\<open>_build_pipeline_config\<close>: the settings of the server (\<open>None\<close> when it has none), overridden by those of the
  tenant that are positive; a disabled pipeline takes one file at a time.\<close>

record pipeline_settings =
  pipeline_max_concurrent_files :: nat
  pipeline_memory_budget_mb :: nat
  pipeline_enabled :: bool

definition override :: "nat option \<Rightarrow> nat \<Rightarrow> nat" where
  "override o' d = (case o' of Some n \<Rightarrow> if n > 0 then n else d | None \<Rightarrow> d)"

definition build_pipeline_config :: "pipeline_settings option \<Rightarrow> nat option \<Rightarrow> nat option \<Rightarrow> pipeline_config" where
  "build_pipeline_config jobs ts_concurrent ts_memory =
     (let conc = override ts_concurrent (case jobs of Some j \<Rightarrow> pipeline_max_concurrent_files j | None \<Rightarrow> 8);
          mem = override ts_memory (case jobs of Some j \<Rightarrow> pipeline_memory_budget_mb j | None \<Rightarrow> 512);
          on = (case jobs of Some j \<Rightarrow> pipeline_enabled j | None \<Rightarrow> True)
      in default_pipeline\<lparr>max_concurrent_files := (if on then conc else 1), memory_budget_mb := mem\<rparr>)"

lemma built_config_positive:
  "(\<And>j. jobs = Some j \<Longrightarrow> 0 < pipeline_max_concurrent_files j) \<Longrightarrow> 0 < max_concurrent_files (build_pipeline_config jobs c m)"
  by (auto simp: build_pipeline_config_def override_def Let_def split: option.splits)

definition max_bytes :: "pipeline_config \<Rightarrow> nat" where
  "max_bytes cfg = memory_budget_mb cfg * 1024 * 1024"

datatype 'f loop = Next_File | Need_Slot 'f | Need_Memory 'f | Draining | Returned

record 'f task =
  t_file :: 'f
  t_size :: nat
  t_started :: bool

record 'f pipeline =
  p_files :: "'f list"
  p_loop :: "'f loop"
  p_tasks :: "'f task list"
  p_slots :: nat
  p_bytes :: nat
  p_active :: nat
  p_high :: nat
  p_since :: nat
  p_commits :: nat
  p_cancelled :: bool
  p_stats :: pipeline_stats

definition new_pipeline :: "pipeline_config \<Rightarrow> 'f list \<Rightarrow> 'f pipeline" where
  "new_pipeline cfg files = \<lparr>p_files = files, p_loop = Next_File, p_tasks = [], p_slots = max_concurrent_files cfg,
     p_bytes = 0, p_active = 0, p_high = 0, p_since = 0, p_commits = 0, p_cancelled = False, p_stats = fresh_stats\<rparr>"

section \<open>The memory budget\<close>

definition available_bytes :: "pipeline_config \<Rightarrow> 'f pipeline \<Rightarrow> nat" where
  "available_bytes cfg s = max_bytes cfg - p_bytes s"

definition admits :: "pipeline_config \<Rightarrow> nat \<Rightarrow> 'f pipeline \<Rightarrow> bool" where
  "admits cfg sz s \<longleftrightarrow> p_bytes s + sz \<le> max_bytes cfg \<or> p_bytes s = 0"

definition acquire_memory :: "nat \<Rightarrow> 'f pipeline \<Rightarrow> 'f pipeline" where
  "acquire_memory sz s = s\<lparr>p_bytes := p_bytes s + sz\<rparr>"

definition release_memory :: "nat \<Rightarrow> 'f pipeline \<Rightarrow> 'f pipeline" where
  "release_memory sz s = s\<lparr>p_bytes := nat (max 0 (int (p_bytes s) - int sz))\<rparr>"

definition estimate_size :: "listed_file \<Rightarrow> nat" where
  "estimate_size f = nat (max (fi_size f) 1024)"

section \<open>Steps\<close>

definition total_processed :: "'f pipeline \<Rightarrow> nat" where
  "total_processed s = pl_scanned (p_stats s) + pl_skipped (p_stats s) + pl_errored (p_stats s)"

definition check_due :: "pipeline_config \<Rightarrow> 'f pipeline \<Rightarrow> bool" where
  "check_due cfg s \<longleftrightarrow> total_processed s mod cancellation_check_interval cfg = 0"

definition increment_active :: "'f pipeline \<Rightarrow> 'f pipeline" where
  "increment_active s = s\<lparr>p_active := p_active s + 1, p_high := max (p_high s) (p_active s + 1)\<rparr>"

definition count_commit :: "pipeline_config \<Rightarrow> 'f pipeline \<Rightarrow> 'f pipeline" where
  "count_commit cfg s = (if p_since s + 1 \<ge> commit_interval cfg then s\<lparr>p_since := 0, p_commits := p_commits s + 1\<rparr>
     else s\<lparr>p_since := p_since s + 1\<rparr>)"

text \<open>The end of \<open>_run_one\<close>: the count, the periodic commit unless the file failed, and what it gives back.
  The commit returns, or raises one of the errors that are caught where it is called (\<open>OSError\<close>, \<open>RuntimeError\<close>),
  which are only logged; any other error of the session, which would count the file once more as an error, is outside
  the model.\<close>

definition end_task :: "pipeline_config \<Rightarrow> fate \<Rightarrow> nat \<Rightarrow> 'f pipeline \<Rightarrow> 'f pipeline" where
  "end_task cfg ft sz s =
     (let s1 = s\<lparr>p_stats := tally ft (p_stats s)\<rparr>;
          s2 = (if ft = Broken then s1 else count_commit cfg s1);
          s3 = release_memory sz s2
      in s3\<lparr>p_active := p_active s3 - 1, p_slots := p_slots s3 + 1\<rparr>)"

inductive pipe_step ::
  "pipeline_config \<Rightarrow> ('f \<Rightarrow> nat) \<Rightarrow> ('f \<Rightarrow> fate) \<Rightarrow> 'f pipeline \<Rightarrow> 'f pipeline \<Rightarrow> bool"
  for cfg :: pipeline_config and sz :: "'f \<Rightarrow> nat" and out :: "'f \<Rightarrow> fate" where
  listing_ends: "p_loop s = Next_File \<Longrightarrow> p_files s = [] \<Longrightarrow> pipe_step cfg sz out s (s\<lparr>p_loop := Draining\<rparr>)"
| stops: "p_loop s = Next_File \<Longrightarrow> p_files s = f # fs \<Longrightarrow> p_cancelled s \<Longrightarrow>
    pipe_step cfg sz out s (s\<lparr>p_files := fs, p_loop := Draining\<rparr>)"
| cancels: "p_loop s = Next_File \<Longrightarrow> p_files s = f # fs \<Longrightarrow> \<not> p_cancelled s \<Longrightarrow> check_due cfg s \<Longrightarrow>
    pipe_step cfg sz out s (s\<lparr>p_files := fs, p_cancelled := True, p_loop := Draining\<rparr>)"
| takes: "p_loop s = Next_File \<Longrightarrow> p_files s = f # fs \<Longrightarrow> \<not> p_cancelled s \<Longrightarrow>
    pipe_step cfg sz out s (s\<lparr>p_files := fs, p_loop := Need_Slot f\<rparr>)"
| gets_slot: "p_loop s = Need_Slot f \<Longrightarrow> 0 < p_slots s \<Longrightarrow>
    pipe_step cfg sz out s (s\<lparr>p_slots := p_slots s - 1, p_loop := Need_Memory f\<rparr>)"
| gets_memory: "p_loop s = Need_Memory f \<Longrightarrow> admits cfg (sz f) s \<Longrightarrow>
    pipe_step cfg sz out s ((acquire_memory (sz f) s)\<lparr>p_loop := Next_File,
      p_tasks := p_tasks s @ [\<lparr>t_file = f, t_size = sz f, t_started = False\<rparr>]\<rparr>)"
| starts: "p_tasks s = ts @ t # ts' \<Longrightarrow> \<not> t_started t \<Longrightarrow>
    pipe_step cfg sz out s ((increment_active s)\<lparr>p_tasks := ts @ t\<lparr>t_started := True\<rparr> # ts'\<rparr>)"
| ends: "p_tasks s = ts @ t # ts' \<Longrightarrow> t_started t \<Longrightarrow>
    pipe_step cfg sz out s ((end_task cfg (out (t_file t)) (t_size t) s)\<lparr>p_tasks := ts @ ts'\<rparr>)"
| returns: "p_loop s = Draining \<Longrightarrow> p_tasks s = [] \<Longrightarrow>
    pipe_step cfg sz out s (s\<lparr>p_loop := Returned, p_commits := p_commits s + 1\<rparr>)"

inductive_cases pipe_stepE: "pipe_step cfg sz out s s'"

section \<open>The order of the tasks does not matter\<close>

definition tallies :: "('f \<Rightarrow> fate) \<Rightarrow> 'f list \<Rightarrow> pipeline_stats" where
  "tallies out fs = fold (\<lambda>f. tally (out f)) fs fresh_stats"

lemma tally_commutes: "tally a (tally b s) = tally b (tally a s)"
  by (cases a; cases b) (auto simp: tally_def record_result_def o_def case_prod_unfold)

lemma tallies_mset: "mset fs = mset gs \<Longrightarrow> tallies out fs = tallies out gs"
  unfolding tallies_def by (rule fun_cong [OF fold_multiset_equiv]) (auto simp: tally_commutes fun_eq_iff)

section \<open>The invariant\<close>

definition waiting_file :: "'f loop \<Rightarrow> 'f multiset" where
  "waiting_file l = (case l of Need_Slot f \<Rightarrow> {#f#} | Need_Memory f \<Rightarrow> {#f#} | _ \<Rightarrow> {#})"

definition holds_slot :: "'f loop \<Rightarrow> nat" where
  "holds_slot l = (case l of Need_Memory f \<Rightarrow> 1 | _ \<Rightarrow> 0)"

text \<open>Every file is on one of four places: to come, with the loop, in a task, counted.\<close>

definition accounted :: "('f \<Rightarrow> fate) \<Rightarrow> 'f list \<Rightarrow> 'f pipeline \<Rightarrow> bool" where
  "accounted out files s \<longleftrightarrow> (\<exists>ds. p_stats s = tallies out ds \<and>
     (p_cancelled s \<or> mset (p_files s) + waiting_file (p_loop s) + mset (map t_file (p_tasks s)) + mset ds = mset files))"

definition within_limits :: "pipeline_config \<Rightarrow> ('f \<Rightarrow> nat) \<Rightarrow> 'f pipeline \<Rightarrow> bool" where
  "within_limits cfg sz s \<longleftrightarrow>
     p_slots s + length (p_tasks s) + holds_slot (p_loop s) = max_concurrent_files cfg \<and>
     p_bytes s = sum_list (map t_size (p_tasks s)) \<and> (\<forall>t\<in>set (p_tasks s). t_size t = sz (t_file t)) \<and>
     (p_bytes s \<le> max_bytes cfg \<or> length (p_tasks s) = 1) \<and>
     p_active s = length (filter t_started (p_tasks s)) \<and> p_high s \<le> max_concurrent_files cfg \<and>
     (p_loop s \<in> {Draining, Returned} \<longrightarrow> p_files s = [] \<or> p_cancelled s) \<and> (p_loop s = Returned \<longrightarrow> p_tasks s = [])"

lemma active_bounded: "within_limits cfg sz s \<Longrightarrow> p_active s \<le> length (p_tasks s)"
  by (simp add: within_limits_def)

lemma step_within:
  assumes "pipe_step cfg sz out s s'" "\<And>f. 0 < sz f" "within_limits cfg sz s"
  shows "within_limits cfg sz s'"
  using assms(1)
proof cases
  case (starts ts t ts')
  have "length (filter t_started (p_tasks s)) < length (p_tasks s)" 
    using starts by (simp add: le_imp_less_Suc add_mono)
  then have "p_active s + 1 \<le> max_concurrent_files cfg" using assms(3) by (simp add: within_limits_def)
  then show ?thesis using starts assms(3) by (auto simp: within_limits_def increment_active_def)
next
  case (ends ts t ts')
  then show ?thesis using assms(3)
    by (auto simp: within_limits_def end_task_def release_memory_def count_commit_def Let_def)
next
  case (gets_memory f)
  have "p_tasks s = []" if "p_bytes s = 0"
  proof (rule ccontr)
    assume "p_tasks s \<noteq> []"
    then obtain t ts where "p_tasks s = t # ts" by (cases "p_tasks s") auto
    then show False using that assms(3) assms(2) [of "t_file t"] by (simp add: within_limits_def)
  qed
  then show ?thesis using gets_memory assms(3) 
    by (auto simp: within_limits_def acquire_memory_def admits_def holds_slot_def)
qed (use assms(3) in \<open>auto simp: within_limits_def holds_slot_def\<close>)

lemma step_accounted:
  assumes "pipe_step cfg sz out s s'" "accounted out files s"
  shows "accounted out files s'"
proof -
  obtain ds where ds: "p_stats s = tallies out ds"
    "p_cancelled s \<or> mset (p_files s) + waiting_file (p_loop s) + mset (map t_file (p_tasks s)) + mset ds = mset files"
    using assms(2) by (auto simp: accounted_def)
  show ?thesis using assms(1)
  proof cases
    case (ends ts t ts')
    have "tally (out (t_file t)) (p_stats s) = tallies out (ds @ [t_file t])" by (simp add: ds(1) tallies_def)
    then show ?thesis using ds(2) ends unfolding accounted_def
      by (intro exI [of _ "ds @ [t_file t]"]) (auto simp: end_task_def release_memory_def count_commit_def Let_def add_ac)
  qed (use ds in \<open>auto simp: accounted_def waiting_file_def increment_active_def acquire_memory_def add_ac intro!: exI [of _ ds]\<close>)
qed

section \<open>Progress and the number of steps\<close>

definition loop_work :: "'f loop \<Rightarrow> nat" where
  "loop_work l = (case l of Next_File \<Rightarrow> 2 | Need_Slot f \<Rightarrow> 6 | Need_Memory f \<Rightarrow> 5 | Draining \<Rightarrow> 1 | Returned \<Rightarrow> 0)"

definition work :: "'f pipeline \<Rightarrow> nat" where
  "work s = 5 * length (p_files s) + loop_work (p_loop s) + sum_list (map (\<lambda>t. if t_started t then 1 else 2) (p_tasks s))"

lemma step_works: "pipe_step cfg sz out s s' \<Longrightarrow> work s' < work s"
  by (induction rule: pipe_step.induct)
    (auto simp: work_def loop_work_def increment_active_def acquire_memory_def end_task_def release_memory_def
      count_commit_def Let_def)

lemma task_moves:
  assumes "p_tasks s \<noteq> []"
  shows "\<exists>s'. pipe_step cfg sz out s s'"
proof -
  obtain t ts where "p_tasks s = [] @ t # ts" using assms by (cases "p_tasks s") auto
  then show ?thesis using pipe_step.starts pipe_step.ends by (cases "t_started t") blast+
qed

lemma step_enabled:
  assumes "within_limits cfg sz s" "0 < max_concurrent_files cfg" "p_loop s \<noteq> Returned"
  shows "\<exists>s'. pipe_step cfg sz out s s'"
proof (cases "p_loop s")
  case Next_File
  show ?thesis
  proof (cases "p_files s")
    case Nil
    then show ?thesis using listing_ends [OF Next_File] by blast
  next
    case (Cons f fs)
    then show ?thesis using stops [OF Next_File Cons] takes [OF Next_File Cons] by blast
  qed
next
  case (Need_Slot f)
  show ?thesis
  proof (cases "p_tasks s")
    case Nil
    then have "0 < p_slots s" using assms Need_Slot by (simp add: within_limits_def holds_slot_def)
    then show ?thesis using gets_slot [OF Need_Slot] by blast
  qed (rule task_moves, simp)
next
  case (Need_Memory f)
  show ?thesis
  proof (cases "p_tasks s")
    case Nil
    then have "admits cfg (sz f) s" using assms by (simp add: within_limits_def admits_def)
    then show ?thesis using gets_memory [OF Need_Memory] by blast
  qed (rule task_moves, simp)
next
  case Draining
  then show ?thesis using returns [OF Draining] task_moves [of s] by (cases "p_tasks s = []") auto
qed (use assms(3) in simp)

lemma run_facts:
  assumes "(pipe_step cfg sz out ^^ k) (new_pipeline cfg files) s" "\<And>f. 0 < sz f"
  shows "within_limits cfg sz s \<and> accounted out files s \<and> work s + k \<le> 5 * length files + 2"
  using assms(1)
proof (induction k arbitrary: s)
  case 0
  have "accounted out files (new_pipeline cfg files)"
    unfolding accounted_def by (rule exI [of _ "[]"]) (simp add: new_pipeline_def waiting_file_def tallies_def)
  with 0 show ?case by (auto simp: new_pipeline_def within_limits_def holds_slot_def work_def loop_work_def)
next
  case (Suc k)
  then obtain s1 where s1: "(pipe_step cfg sz out ^^ k) (new_pipeline cfg files) s1" "pipe_step cfg sz out s1 s" by auto
  then show ?case using Suc.IH [OF s1(1)] step_within [OF s1(2) assms(2)] step_accounted [OF s1(2)] step_works [OF s1(2)]
    by auto
qed

lemma estimate_positive: "0 < estimate_size f"
  by (simp add: estimate_size_def)

text \<open>C13: whatever the interleaving of the loop and its tasks, the pipeline never gets stuck before it returns and
  returns within five steps for each file and two more; when it returns and was not cancelled its statistics
  are those of taking the files one after the other.\<close>

theorem pipeline_completes:
  assumes "(pipe_step cfg estimate_size (fate_of w iv) ^^ k) (new_pipeline cfg files) s" "0 < max_concurrent_files cfg"
  shows "k \<le> 5 * length files + 2 \<and>
    (p_loop s \<noteq> Returned \<longrightarrow> (\<exists>s'. pipe_step cfg estimate_size (fate_of w iv) s s')) \<and>
    (p_loop s = Returned \<and> \<not> p_cancelled s \<longrightarrow> p_stats s = scanned_stats w iv files)"
proof -
  have inv: "within_limits cfg estimate_size s" "accounted (fate_of w iv) files s" "work s + k \<le> 5 * length files + 2"
    using run_facts [OF assms(1) estimate_positive] by auto
  have "p_stats s = scanned_stats w iv files" if "p_loop s = Returned" "\<not> p_cancelled s"
  proof -
    have rest: "p_files s = []" "p_tasks s = []" using inv(1) that by (simp_all add: within_limits_def)
    obtain ds where ds: "p_stats s = tallies (fate_of w iv) ds" "p_cancelled s \<or>
        mset (p_files s) + waiting_file (p_loop s) + mset (map t_file (p_tasks s)) + mset ds = mset files"
      using inv(2) unfolding accounted_def by blast
    have "mset ds = mset files" using ds(2) rest that by (simp add: waiting_file_def)
    with ds(1) show ?thesis using tallies_mset [of ds files "fate_of w iv"] by (simp add: tallies_def scanned_stats_def)
  qed
  moreover have "\<exists>s'. pipe_step cfg estimate_size (fate_of w iv) s s'" if "p_loop s \<noteq> Returned"
    using step_enabled [OF inv(1) assms(2) that] .
  ultimately show ?thesis using inv(3) by (intro conjI impI) (linarith | blast)+
qed

text \<open>at every moment no more tasks run than there are slots, the budget is the memory of the tasks in flight,
  and it is kept except by a single file that is larger than the whole budget.\<close>

theorem pipeline_bounded:
  assumes "(pipe_step cfg estimate_size out ^^ k) (new_pipeline cfg files) s"
  shows "length (p_tasks s) \<le> max_concurrent_files cfg \<and> p_high s \<le> max_concurrent_files cfg \<and>
    p_bytes s = sum_list (map (\<lambda>t. estimate_size (t_file t)) (p_tasks s)) \<and>
    (p_bytes s \<le> max_bytes cfg \<or> length (p_tasks s) = 1)"
proof -
  have inv: "within_limits cfg estimate_size s" using run_facts [OF assms estimate_positive] by auto
  then have sizes: "map t_size (p_tasks s) = map (\<lambda>t. estimate_size (t_file t)) (p_tasks s)" by (simp add: within_limits_def)
  have "length (p_tasks s) \<le> max_concurrent_files cfg" "p_high s \<le> max_concurrent_files cfg"
    "p_bytes s = sum_list (map t_size (p_tasks s))" "p_bytes s \<le> max_bytes cfg \<or> length (p_tasks s) = 1"
    using inv by (auto simp: within_limits_def)
  then show ?thesis unfolding sizes by blast
qed

section \<open>A run\<close>

definition ex_pipeline :: pipeline_config where
  "ex_pipeline = default_pipeline\<lparr>max_concurrent_files := 1, memory_budget_mb := 0\<rparr>"

definition ex_returned :: "(listed_file \<Rightarrow> fate) \<Rightarrow> listed_file pipeline" where
  "ex_returned out = \<lparr>p_files = [], p_loop = Returned, p_tasks = [], p_slots = 1, p_bytes = 0, p_active = 0, p_high = 1,
     p_since = (if out (ex_file ''/d/a'') = Broken then 0 else 1), p_commits = 1, p_cancelled = False,
     p_stats = tally (out (ex_file ''/d/a'')) fresh_stats\<rparr>"

lemma ex_run: "(pipe_step ex_pipeline estimate_size out ^^ 7) (new_pipeline ex_pipeline [ex_file ''/d/a'']) (ex_returned out)"
proof -
  let ?f = "ex_file ''/d/a''" and ?step = "pipe_step ex_pipeline estimate_size out"
  define s0 where "s0 = new_pipeline ex_pipeline [?f]"
  define s1 where "s1 = s0\<lparr>p_files := [], p_loop := Need_Slot ?f\<rparr>"
  define s2 where "s2 = s1\<lparr>p_slots := p_slots s1 - 1, p_loop := Need_Memory ?f\<rparr>"
  define s3 where "s3 = (acquire_memory (estimate_size ?f) s2)\<lparr>p_loop := Next_File,
    p_tasks := p_tasks s2 @ [\<lparr>t_file = ?f, t_size = estimate_size ?f, t_started = False\<rparr>]\<rparr>"
  define s4 where "s4 = (increment_active s3)\<lparr>p_tasks := [\<lparr>t_file = ?f, t_size = estimate_size ?f, t_started = True\<rparr>]\<rparr>"
  define s5 where "s5 = (end_task ex_pipeline (out ?f) (estimate_size ?f) s4)\<lparr>p_tasks := []\<rparr>"
  define s6 where "s6 = s5\<lparr>p_loop := Draining\<rparr>"
  define s7 where "s7 = s6\<lparr>p_loop := Returned, p_commits := p_commits s6 + 1\<rparr>"
  note eval = s0_def s1_def s2_def s3_def s4_def s5_def s6_def s7_def new_pipeline_def ex_pipeline_def default_pipeline_def
    acquire_memory_def increment_active_def end_task_def count_commit_def release_memory_def Let_def
  have "?step s0 s1" unfolding s1_def by (rule takes) (simp_all add: eval)
  moreover have "?step s1 s2" unfolding s2_def by (rule gets_slot) (simp_all add: eval)
  moreover have "?step s2 s3" unfolding s3_def by (rule gets_memory) (simp_all add: eval admits_def)
  moreover have "?step s3 s4" unfolding s4_def
    using starts [of s3 "[]" "\<lparr>t_file = ?f, t_size = estimate_size ?f, t_started = False\<rparr>" "[]"] by (simp add: eval)
  moreover have "?step s4 s5" unfolding s5_def
    using ends [of s4 "[]" "\<lparr>t_file = ?f, t_size = estimate_size ?f, t_started = True\<rparr>" "[]"] by (simp add: s4_def)
  moreover have "?step s5 s6" unfolding s6_def by (rule listing_ends) (simp_all add: eval)
  moreover have "?step s6 s7" unfolding s7_def by (rule returns) (simp_all add: eval)
  moreover have "s7 = ex_returned out" by (simp add: eval ex_returned_def)
  ultimately show ?thesis unfolding s0_def [symmetric]
    by (simp add: numeral_eq_Suc relpowp.simps relcompp.simps) blast
qed

lemma pipeline_completes_witness:
  "(7 :: nat) \<le> 5 * length [ex_file ''/d/a''] + 2 \<and>
   p_loop (ex_returned (fate_of (ex_world 1) ex_inventory)) = Returned \<and>
   p_stats (ex_returned (fate_of (ex_world 1) ex_inventory)) = scanned_stats (ex_world 1) ex_inventory [ex_file ''/d/a'']"
proof -
  have "p_loop (ex_returned out) = Returned" "\<not> p_cancelled (ex_returned out)" for out by (simp_all add: ex_returned_def)
  moreover have "0 < max_concurrent_files ex_pipeline" by (simp add: ex_pipeline_def default_pipeline_def)
  ultimately show ?thesis using pipeline_completes [OF ex_run] by blast
qed

lemma pipeline_bounded_witness:
  "length (p_tasks (ex_returned (\<lambda>f. Broken))) \<le> max_concurrent_files ex_pipeline \<and>
   p_high (ex_returned (\<lambda>f. Broken)) \<le> max_concurrent_files ex_pipeline \<and>
   p_bytes (ex_returned (\<lambda>f. Broken)) = sum_list (map (\<lambda>t. estimate_size (t_file t)) (p_tasks (ex_returned (\<lambda>f. Broken)))) \<and>
   (p_bytes (ex_returned (\<lambda>f. Broken)) \<le> max_bytes ex_pipeline \<or> length (p_tasks (ex_returned (\<lambda>f. Broken))) = 1)"
  by (rule pipeline_bounded [OF ex_run])

end
