(* ===== verification/Scan_Trigger.thy ===== *)
theory Scan_Trigger
  imports Py_Collections Job_Queue
begin

text \<open>
  Scans triggered by changes of watched files: \<open>ScanTriggerBuffer\<close> of \<^verbatim>\<open>src/openlabels/monitoring/scan_trigger.py\<close>.

  Times are those of the monotonic clock, in seconds. The registry is a parameter that answers the risk tier of
  a watched file at a time; what the dispatch callback was given is the list \<open>tg_log\<close>. An exception of the callback is
  caught and logged, so it changes nothing here. The loop \<open>run\<close> is a sequence of ticks between the changes.
\<close>

section \<open>The buffer\<close>

record pending_scan =
  ps_path :: string
  ps_tier :: string
  ps_until :: time
  ps_priority :: int
  ps_events :: nat
  ps_first :: time
  ps_last :: time

record trigger_config =
  tc_lookup :: "time \<Rightarrow> string \<Rightarrow> string option"
  tc_rate :: nat
  tc_cooldown :: real
  tc_min :: string

record trigger =
  tg_pending :: "(string \<times> pending_scan) list"
  tg_cooldowns :: "(string \<times> time) list"
  tg_times :: "time list"
  tg_received :: nat
  tg_dispatched :: nat
  tg_filtered :: nat
  tg_debounced :: nat
  tg_rate_limited :: nat
  tg_log :: "(time \<times> string \<times> string) list"

definition new_trigger :: trigger where
  "new_trigger = \<lparr>tg_pending = [], tg_cooldowns = [], tg_times = [], tg_received = 0, tg_dispatched = 0, tg_filtered = 0,
     tg_debounced = 0, tg_rate_limited = 0, tg_log = []\<rparr>"

definition debounce_by_tier :: "(string \<times> real) list" where
  "debounce_by_tier = [(''CRITICAL'', 2), (''HIGH'', 5), (''MEDIUM'', 30)]"

definition tier_priority :: "(string \<times> int) list" where
  "tier_priority = [(''CRITICAL'', 0), (''HIGH'', 1), (''MEDIUM'', 2)]"

definition RISK_TIER_ORDER :: "string list" where
  "RISK_TIER_ORDER = [''MINIMAL'', ''LOW'', ''MEDIUM'', ''HIGH'', ''CRITICAL'']"

text \<open>\<open>list.index\<close>, with \<open>None\<close> for its exception.\<close>

fun index_of :: "'a \<Rightarrow> 'a list \<Rightarrow> nat option" where
  "index_of x [] = None"
| "index_of x (y # ys) = (if x = y then Some 0 else map_option Suc (index_of x ys))"

definition tier_meets_threshold :: "trigger_config \<Rightarrow> string \<Rightarrow> bool" where
  "tier_meets_threshold cfg tier = (case (index_of tier RISK_TIER_ORDER, index_of (tc_min cfg) RISK_TIER_ORDER) of
     (Some i, Some m) \<Rightarrow> i \<ge> m | _ \<Rightarrow> False)"

definition filtered :: "trigger \<Rightarrow> trigger" where
  "filtered s = s\<lparr>tg_filtered := tg_filtered s + 1\<rparr>"

definition debounced :: "string \<Rightarrow> string \<Rightarrow> time \<Rightarrow> trigger \<Rightarrow> trigger" where
  "debounced path tier now s =
     (let until = now + dict_get debounce_by_tier tier 30
      in case map_of (tg_pending s) path of
           Some p \<Rightarrow> s\<lparr>tg_pending := dict_set path (p\<lparr>ps_until := until, ps_events := ps_events p + 1, ps_last := now\<rparr>) (tg_pending s),
             tg_debounced := tg_debounced s + 1\<rparr>
         | None \<Rightarrow> s\<lparr>tg_pending := dict_set path \<lparr>ps_path = path, ps_tier = tier, ps_until = until,
             ps_priority = dict_get tier_priority tier 2, ps_events = 1, ps_first = now, ps_last = now\<rparr> (tg_pending s)\<rparr>)"

definition on_event :: "trigger_config \<Rightarrow> time \<Rightarrow> string \<Rightarrow> trigger \<Rightarrow> trigger" where
  "on_event cfg now path s0 =
     (let s = s0\<lparr>tg_received := tg_received s0 + 1\<rparr>
      in if now < dict_get (tg_cooldowns s) path 0 then filtered s
         else case tc_lookup cfg now path of
           None \<Rightarrow> filtered s
         | Some tier \<Rightarrow> if \<not> tier_meets_threshold cfg tier then filtered s else debounced path tier now s)"

definition dispatch_one :: "trigger_config \<Rightarrow> time \<Rightarrow> pending_scan \<Rightarrow> trigger \<Rightarrow> trigger" where
  "dispatch_one cfg now p s =
     (if length (tg_times s) \<ge> tc_rate cfg then
        s\<lparr>tg_pending := dict_set (ps_path p) (p\<lparr>ps_until := now + 5\<rparr>) (tg_pending s),
          tg_rate_limited := tg_rate_limited s + 1\<rparr>
      else s\<lparr>tg_log := tg_log s @ [(now, ps_path p, ps_tier p)], tg_times := tg_times s @ [now],
          tg_cooldowns := dict_set (ps_path p) (now + tc_cooldown cfg) (tg_cooldowns s),
          tg_dispatched := tg_dispatched s + 1\<rparr>)"

definition cleaned :: "time \<Rightarrow> trigger \<Rightarrow> trigger" where
  "cleaned now s = s\<lparr>tg_cooldowns := filter (\<lambda>(p, t). \<not> t \<le> now) (tg_cooldowns s),
     tg_times := filter (\<lambda>t. t > now - 60) (tg_times s)\<rparr>"

definition dispatch_ready :: "trigger_config \<Rightarrow> time \<Rightarrow> trigger \<Rightarrow> trigger" where
  "dispatch_ready cfg now s0 =
     (let s = cleaned now s0;
          ready = map snd (filter (\<lambda>(q, p). ps_until p \<le> now) (tg_pending s));
          s' = s\<lparr>tg_pending := filter (\<lambda>(q, p). \<not> ps_until p \<le> now) (tg_pending s)\<rparr>
      in fold (dispatch_one cfg now) (sort_key ps_priority ready) s')"

datatype trigger_op = Change time string | Tick time

primrec op_time :: "trigger_op \<Rightarrow> time" where
  "op_time (Change t p) = t"
| "op_time (Tick t) = t"

primrec trigger_step :: "trigger_config \<Rightarrow> trigger_op \<Rightarrow> trigger \<Rightarrow> trigger" where
  "trigger_step cfg (Change t p) s = on_event cfg t p s"
| "trigger_step cfg (Tick t) s = dispatch_ready cfg t s"

record trigger_stats =
  st_received :: nat
  st_dispatched :: nat
  st_filtered :: nat
  st_debounced :: nat
  st_rate_limited :: nat
  st_pending :: nat
  st_cooldowns :: nat

definition get_stats :: "trigger \<Rightarrow> trigger_stats" where
  "get_stats s = \<lparr>st_received = tg_received s, st_dispatched = tg_dispatched s, st_filtered = tg_filtered s,
     st_debounced = tg_debounced s, st_rate_limited = tg_rate_limited s, st_pending = length (tg_pending s),
     st_cooldowns = length (tg_cooldowns s)\<rparr>"

section \<open>The invariant\<close>

text \<open>The dispatches in the minute that ends at a time.\<close>

definition in_minute :: "time \<Rightarrow> (time \<times> string \<times> string) list \<Rightarrow> nat" where
  "in_minute t lg = length (filter (\<lambda>(x, _). t - 60 < x \<and> x \<le> t) lg)"

definition spaced :: "real \<Rightarrow> (time \<times> string \<times> string) list \<Rightarrow> bool" where
  "spaced c lg = sorted_wrt (\<lambda>(x, p, _) (y, q, _). p = q \<longrightarrow> x + c \<le> y) lg"

definition recent :: "time \<Rightarrow> time list \<Rightarrow> time list" where
  "recent now ts = filter (\<lambda>t. t > now - 60) ts"

text \<open>Pending files have no running cooldown; a running cooldown is remembered.\<close>

definition trigger_ok :: "trigger_config \<Rightarrow> time \<Rightarrow> trigger \<Rightarrow> bool" where
  "trigger_ok cfg now s \<longleftrightarrow>
     distinct (map fst (tg_pending s)) \<and> (\<forall>(q, p)\<in>set (tg_pending s). ps_path p = q) \<and>
     (\<forall>(x, p, _)\<in>set (tg_log s). x \<le> now) \<and>
     recent now (map fst (tg_log s)) = recent now (tg_times s) \<and>
     (\<forall>t. in_minute t (tg_log s) \<le> tc_rate cfg) \<and> spaced (tc_cooldown cfg) (tg_log s) \<and>
     (\<forall>(x, p, _)\<in>set (tg_log s). p \<in> fst ` set (tg_pending s) \<longrightarrow> x + tc_cooldown cfg \<le> now) \<and>
     (\<forall>(x, p, _)\<in>set (tg_log s). now < x + tc_cooldown cfg \<longrightarrow> x + tc_cooldown cfg \<le> dict_get (tg_cooldowns s) p 0)"

definition balanced :: "trigger \<Rightarrow> bool" where
  "balanced s \<longleftrightarrow> tg_dispatched s = length (tg_log s) \<and>
     tg_received s = tg_filtered s + tg_debounced s + tg_dispatched s + length (tg_pending s)"

lemma recent_later: "now \<le> now' \<Longrightarrow> recent now' (recent now ts) = recent now' ts"
  by (induction ts) (auto simp: recent_def)

lemma trigger_ok_later:
  assumes "trigger_ok cfg now s" "now \<le> now'"
  shows "trigger_ok cfg now' s"
proof -
  have "recent now' (map fst (tg_log s)) = recent now' (tg_times s)"
    using assms recent_later [OF assms(2)] unfolding trigger_ok_def by metis
  moreover have "\<forall>(x, p, _)\<in>set (tg_log s). x \<le> now'" "\<forall>(x, p, _)\<in>set (tg_log s). p \<in> fst ` set (tg_pending s) \<longrightarrow>
      x + tc_cooldown cfg \<le> now'"
    "\<forall>(x, p, _)\<in>set (tg_log s). now' < x + tc_cooldown cfg \<longrightarrow> x + tc_cooldown cfg \<le> dict_get (tg_cooldowns s) p 0"
    using assms unfolding trigger_ok_def by fastforce+
  ultimately show ?thesis using assms(1) unfolding trigger_ok_def by blast
qed

lemma fst_dict_set: "fst ` set (dict_set k v d) = insert k (fst ` set d)"
proof -
  have "set (map fst (dict_set k v d)) = insert k (set (map fst d))" unfolding keys_dict_set by auto
  then show ?thesis by simp
qed

lemma dict_set_entries: "(q, p) \<in> set (dict_set k v d) \<Longrightarrow> q = k \<and> p = v \<or> (q, p) \<in> set d"
  by (induction k v d rule: dict_set.induct) (auto split: if_splits)

lemma dict_get_set: "dict_get (dict_set k v d) q x = (if q = k then v else dict_get d q x)"
  by (simp add: dict_get_def)

lemma fresh_trigger_ok: "trigger_ok cfg now new_trigger"
  by (simp add: trigger_ok_def new_trigger_def recent_def in_minute_def spaced_def)

text \<open>A change.\<close>

lemma on_event_ok:
  assumes "trigger_ok cfg now s"
  shows "trigger_ok cfg now (on_event cfg now path s)"
proof -
  have calm: "x + tc_cooldown cfg \<le> now" if "(x, p, k) \<in> set (tg_log s)" "p = path" "\<not> now < dict_get (tg_cooldowns s) path 0" for x p k
    using assms that unfolding trigger_ok_def by fastforce
  show ?thesis
  proof (cases "now < dict_get (tg_cooldowns s) path 0 \<or> tc_lookup cfg now path = None \<or>
      \<not> tier_meets_threshold cfg (the (tc_lookup cfg now path))")
    case True
    then have "on_event cfg now path s = filtered (s\<lparr>tg_received := tg_received s + 1\<rparr>)"
      by (auto simp: on_event_def Let_def split: option.splits)
    then show ?thesis using assms by (simp add: trigger_ok_def filtered_def)
  next
    case False
    then obtain tier where tier: "tc_lookup cfg now path = Some tier" "on_event cfg now path s =
        debounced path tier now (s\<lparr>tg_received := tg_received s + 1\<rparr>)"
      by (auto simp: on_event_def Let_def split: option.splits)
    obtain v n where v: "ps_path v = path" "on_event cfg now path s =
        s\<lparr>tg_received := tg_received s + 1, tg_pending := dict_set path v (tg_pending s), tg_debounced := n\<rparr>"
    proof (cases "map_of (tg_pending s) path")
      case None
      show ?thesis
        by (rule that [of "\<lparr>ps_path = path, ps_tier = tier, ps_until = now + dict_get debounce_by_tier tier 30,
            ps_priority = dict_get tier_priority tier 2, ps_events = 1, ps_first = now, ps_last = now\<rparr>" "tg_debounced s"])
          (use tier(2) None in \<open>simp_all add: debounced_def Let_def\<close>)
    next
      case (Some p)
      then have "ps_path p = path" using assms by (auto simp: trigger_ok_def dest: map_of_SomeD)
      then show ?thesis
        by (intro that [of "p\<lparr>ps_until := now + dict_get debounce_by_tier tier 30, ps_events := ps_events p + 1, ps_last := now\<rparr>"
            "tg_debounced s + 1"]) (use tier(2) Some in \<open>simp_all add: debounced_def Let_def\<close>)
    qed
    have "\<forall>(q, p)\<in>set (dict_set path v (tg_pending s)). ps_path p = q"
      using assms v(1) by (auto simp: trigger_ok_def dest!: dict_set_entries)
    moreover have "distinct (map fst (dict_set path v (tg_pending s)))" using assms by (auto simp: trigger_ok_def)
    ultimately show ?thesis using assms calm False unfolding v(2) trigger_ok_def by (auto simp: fst_dict_set)
  qed
qed

text \<open>A tick, scan by scan.\<close>

definition may_go :: "trigger_config \<Rightarrow> time \<Rightarrow> pending_scan list \<Rightarrow> trigger \<Rightarrow> bool" where
  "may_go cfg now rs s \<longleftrightarrow> distinct (map ps_path rs) \<and> ps_path ` set rs \<inter> fst ` set (tg_pending s) = {} \<and>
     (\<forall>r\<in>set rs. \<forall>(x, p, _)\<in>set (tg_log s). p = ps_path r \<longrightarrow> x + tc_cooldown cfg \<le> now) \<and> recent now (tg_times s) = tg_times s"

lemma minute_of_dispatch:
  assumes "recent now (map fst lg) = ts" "length ts < n" "\<And>t. in_minute t lg \<le> n"
  shows "in_minute t (lg @ [(now, p, k)]) \<le> n"
proof (cases "t < now")
  case False
  have "in_minute t lg \<le> length (recent now (map fst lg))"
    using False unfolding in_minute_def recent_def filter_map length_map
    by (induction lg) auto
  then show ?thesis using assms(1,2) by (simp add: in_minute_def)
qed (use assms(3) in \<open>simp add: in_minute_def\<close>)

lemma dispatch_one_ok:
  assumes "trigger_ok cfg now s" "may_go cfg now (r # rs) s"
  shows "trigger_ok cfg now (dispatch_one cfg now r s) \<and> may_go cfg now rs (dispatch_one cfg now r s)"
proof (cases "length (tg_times s) \<ge> tc_rate cfg")
  case True
  let ?p = "dict_set (ps_path r) (r\<lparr>ps_until := now + 5\<rparr>) (tg_pending s)"
  have "\<forall>(q, p)\<in>set ?p. ps_path p = q" using assms(1) by (auto simp: trigger_ok_def dest!: dict_set_entries)
  moreover have "distinct (map fst ?p)" using assms(1) by (auto simp: trigger_ok_def)
  ultimately have "trigger_ok cfg now (dispatch_one cfg now r s)"
    using assms True unfolding trigger_ok_def dispatch_one_def may_go_def by (auto simp: fst_dict_set)
  moreover have "may_go cfg now rs (dispatch_one cfg now r s)"
    using assms(2) True unfolding dispatch_one_def may_go_def by (auto simp: fst_dict_set)
  ultimately show ?thesis ..
next
  case False
  let ?s = "dispatch_one cfg now r s"
  have parts: "tg_log ?s = tg_log s @ [(now, ps_path r, ps_tier r)]" "tg_times ?s = tg_times s @ [now]"
    "tg_pending ?s = tg_pending s" "tg_cooldowns ?s = dict_set (ps_path r) (now + tc_cooldown cfg) (tg_cooldowns s)"
    using False by (simp_all add: dispatch_one_def)
  have times: "recent now (map fst (tg_log s)) = tg_times s" using assms by (simp add: trigger_ok_def may_go_def)
  have "in_minute t (tg_log ?s) \<le> tc_rate cfg" for t
    unfolding parts using minute_of_dispatch [OF times] False assms(1) by (simp add: trigger_ok_def)
  moreover have "spaced (tc_cooldown cfg) (tg_log ?s)"
    using assms unfolding parts trigger_ok_def may_go_def spaced_def by (auto simp: sorted_wrt_append)
  moreover have "recent now (map fst (tg_log ?s)) = recent now (tg_times ?s)"
    using times assms(2) by (simp add: parts may_go_def) (simp add: recent_def)
  moreover have "\<forall>(x, p, _)\<in>set (tg_log ?s). now < x + tc_cooldown cfg \<longrightarrow>
      x + tc_cooldown cfg \<le> dict_get (tg_cooldowns ?s) p 0"
    using assms(1) unfolding parts trigger_ok_def by (auto simp: dict_get_set)
  moreover have "\<forall>(x, p, _)\<in>set (tg_log ?s). p \<in> fst ` set (tg_pending ?s) \<longrightarrow> x + tc_cooldown cfg \<le> now"
    using assms unfolding parts trigger_ok_def may_go_def by auto
  ultimately have "trigger_ok cfg now ?s" using assms(1) unfolding trigger_ok_def by (simp add: parts)
  moreover have "may_go cfg now rs ?s" using assms(2) unfolding may_go_def parts by (auto simp: recent_def)
  ultimately show ?thesis ..
qed

lemma dispatch_all_ok:
  "trigger_ok cfg now s \<Longrightarrow> may_go cfg now rs s \<Longrightarrow> trigger_ok cfg now (fold (dispatch_one cfg now) rs s)"
  by (induction rs arbitrary: s) (simp_all add: dispatch_one_ok)

lemma filter_keeps_map: "map_of d p = Some t \<Longrightarrow> P (p, t) \<Longrightarrow> map_of (filter P d) p = Some t"
  by (induction d) auto

lemma cleaned_ok:
  assumes "trigger_ok cfg now s"
  shows "trigger_ok cfg now (cleaned now s)" "recent now (tg_times (cleaned now s)) = tg_times (cleaned now s)"
proof -
  have "x + tc_cooldown cfg \<le> dict_get (tg_cooldowns (cleaned now s)) p 0"
    if "(x, p, k) \<in> set (tg_log s)" "now < x + tc_cooldown cfg" for x p k
  proof -
    have le: "x + tc_cooldown cfg \<le> dict_get (tg_cooldowns s) p 0" using assms that unfolding trigger_ok_def by fastforce
    show ?thesis
    proof (cases "map_of (tg_cooldowns s) p")
      case None
      then have "map_of (filter (\<lambda>(p, t). \<not> t \<le> now) (tg_cooldowns s)) p = None" by (auto simp: map_of_eq_None_iff)
      then show ?thesis using le None by (simp add: cleaned_def dict_get_def)
    next
      case (Some t)
      then have "map_of (filter (\<lambda>(p, t). \<not> t \<le> now) (tg_cooldowns s)) p = Some t"
        using le that(2) by (intro filter_keeps_map) (auto simp: dict_get_def)
      then show ?thesis using le Some by (simp add: cleaned_def dict_get_def)
    qed
  qed
  then show "trigger_ok cfg now (cleaned now s)"
    using assms unfolding trigger_ok_def by (auto simp: cleaned_def recent_def)
  show "recent now (tg_times (cleaned now s)) = tg_times (cleaned now s)" by (simp add: cleaned_def recent_def)
qed

lemma distinct_map_sort: "distinct (map f (sort_key g xs)) \<longleftrightarrow> distinct (map f xs)"
  by (simp add: distinct_map)

lemma dispatch_ready_ok:
  assumes "trigger_ok cfg now s"
  shows "trigger_ok cfg now (dispatch_ready cfg now s)"
proof -
  let ?s = "cleaned now s" and ?due = "\<lambda>(q, p). ps_until p \<le> now"
  let ?ready = "map snd (filter ?due (tg_pending ?s))"
  let ?t = "?s\<lparr>tg_pending := filter (\<lambda>(q, p). \<not> ps_until p \<le> now) (tg_pending ?s)\<rparr>"
  have ok: "trigger_ok cfg now ?s" by (rule cleaned_ok(1) [OF assms])
  then have keys: "distinct (map fst (tg_pending ?s))" "\<forall>(q, p)\<in>set (tg_pending ?s). ps_path p = q"
    by (auto simp: trigger_ok_def)
  have t: "trigger_ok cfg now ?t" using ok unfolding trigger_ok_def by (fastforce simp: distinct_map_filter)
  have paths: "map ps_path ?ready = map fst (filter ?due (tg_pending ?s))" using keys(2) by auto
  have "ps_path ` set ?ready \<inter> fst ` set (tg_pending ?t) = {}"
  proof -
    have "ps_path ` set ?ready = fst ` set (filter ?due (tg_pending ?s))"
      using arg_cong [OF paths, of set] by (simp only: set_map)
    moreover have "fst ` set (filter ?due xs) \<inter> fst ` set (filter (\<lambda>x. \<not> ?due x) xs) = {}" if "distinct (map fst xs)" for xs :: "(string \<times> pending_scan) list"
      using that by (induction xs) (auto simp: rev_image_eqI)
    ultimately show ?thesis using keys(1) by (simp add: case_prod_unfold)
  qed
  moreover have "distinct (map ps_path ?ready)" unfolding paths using keys(1) by (rule distinct_map_filter)
  moreover have "x + tc_cooldown cfg \<le> now" if "r \<in> set ?ready" "(x, p, k) \<in> set (tg_log ?t)" "p = ps_path r" for r x p k
  proof -
    have "p \<in> fst ` set (tg_pending ?s)" using that keys(2) by force
    then show ?thesis using ok that(2) unfolding trigger_ok_def by fastforce
  qed
  ultimately have "may_go cfg now ?ready ?t" using cleaned_ok(2) [OF assms] unfolding may_go_def by fastforce
  then have "may_go cfg now (sort_key ps_priority ?ready) ?t"
    unfolding may_go_def distinct_map_sort set_sort .
  then show ?thesis using dispatch_all_ok [OF t] by (simp add: dispatch_ready_def Let_def)
qed

lemma trigger_step_ok:
  "trigger_ok cfg now s \<Longrightarrow> now \<le> op_time op \<Longrightarrow> trigger_ok cfg (op_time op) (trigger_step cfg op s)"
  by (cases op) (auto intro: on_event_ok dispatch_ready_ok trigger_ok_later)

lemma trigger_run_ok:
  "trigger_ok cfg now s \<Longrightarrow> sorted (now # map op_time ops) \<Longrightarrow> \<exists>now'. trigger_ok cfg now' (fold (trigger_step cfg) ops s)"
proof (induction ops arbitrary: now s)
  case (Cons op ops)
  then have "trigger_ok cfg (op_time op) (trigger_step cfg op s)" by (intro trigger_step_ok) auto
  then show ?case using Cons.IH Cons.prems(2) by simp
qed auto

section \<open>No event is lost from the books\<close>

lemma length_dict_set_new: "map_of d k = None \<Longrightarrow> length (dict_set k v d) = length d + 1"
  by (simp add: length_dict_set map_of_eq_None_iff)

lemma length_dict_set_old: "map_of d k = Some x \<Longrightarrow> length (dict_set k v d) = length d"
  by (force simp: length_dict_set dest: map_of_SomeD)

lemma on_event_balanced: "balanced s \<Longrightarrow> balanced (on_event cfg now path s)"
  by (auto simp: balanced_def on_event_def filtered_def debounced_def Let_def length_dict_set_new length_dict_set_old
      split: option.splits)

lemma dispatch_one_balance:
  assumes "ps_path r \<notin> fst ` set (tg_pending s)"
  shows "tg_received (dispatch_one cfg now r s) = tg_received s \<and> tg_filtered (dispatch_one cfg now r s) = tg_filtered s \<and>
    tg_debounced (dispatch_one cfg now r s) = tg_debounced s \<and>
    (tg_dispatched s = length (tg_log s) \<longrightarrow> tg_dispatched (dispatch_one cfg now r s) = length (tg_log (dispatch_one cfg now r s))) \<and>
    tg_dispatched (dispatch_one cfg now r s) + length (tg_pending (dispatch_one cfg now r s)) =
      tg_dispatched s + length (tg_pending s) + 1"
  using assms by (auto simp: dispatch_one_def length_dict_set)

lemma apart: "A \<subseteq> insert p B \<Longrightarrow> p \<notin> F \<Longrightarrow> F \<inter> B = {} \<Longrightarrow> F \<inter> A = {}"
  by blast

lemma dispatch_all_balance:
  "distinct (map ps_path rs) \<Longrightarrow> ps_path ` set rs \<inter> fst ` set (tg_pending s) = {} \<Longrightarrow> tg_dispatched s = length (tg_log s) \<Longrightarrow>
   (let s' = fold (dispatch_one cfg now) rs s
    in tg_received s' = tg_received s \<and> tg_filtered s' = tg_filtered s \<and> tg_debounced s' = tg_debounced s \<and>
       tg_dispatched s' = length (tg_log s') \<and>
       tg_dispatched s' + length (tg_pending s') = tg_dispatched s + length (tg_pending s) + length rs)"
proof (induction rs arbitrary: s)
  case (Cons r rs)
  have r: "ps_path r \<notin> fst ` set (tg_pending s)" using Cons.prems(2) by auto
  have "fst ` set (tg_pending (dispatch_one cfg now r s)) \<subseteq> insert (ps_path r) (fst ` set (tg_pending s))"
    by (auto simp: dispatch_one_def fst_dict_set)
  moreover have "ps_path r \<notin> ps_path ` set rs" "ps_path ` set rs \<inter> fst ` set (tg_pending s) = {}" using Cons.prems(1,2) by auto
  ultimately have "ps_path ` set rs \<inter> fst ` set (tg_pending (dispatch_one cfg now r s)) = {}" by (rule apart)
  then show ?case using Cons.IH [of "dispatch_one cfg now r s"] Cons.prems dispatch_one_balance [OF r, of cfg now]
    by (simp add: Let_def)
qed simp

lemma dispatch_ready_balanced:
  assumes "trigger_ok cfg now s" "balanced s"
  shows "balanced (dispatch_ready cfg now s)"
proof -
  let ?due = "\<lambda>x. ps_until (snd x) \<le> now" and ?pend = "tg_pending s"
  let ?ready = "sort_key ps_priority (map snd (filter ?due ?pend))"
  let ?t = "(cleaned now s)\<lparr>tg_pending := filter (\<lambda>x. \<not> ?due x) ?pend\<rparr>"
  have keys: "distinct (map fst ?pend)" "\<forall>x\<in>set ?pend. ps_path (snd x) = fst x" using assms(1) by (auto simp: trigger_ok_def)
  have "map ps_path (map snd (filter ?due ?pend)) = map fst (filter ?due ?pend)" using keys(2) by simp
  then have "distinct (map ps_path (map snd (filter ?due ?pend)))" "ps_path ` set (map snd (filter ?due ?pend)) = fst ` set (filter ?due ?pend)"
    using keys(1) by (metis distinct_map_filter, metis set_map)
  moreover have "fst ` set (filter ?due xs) \<inter> fst ` set (filter (\<lambda>x. \<not> ?due x) xs) = {}" if "distinct (map fst xs)" for xs :: "(string \<times> pending_scan) list"
    using that by (induction xs) (auto simp: rev_image_eqI)
  ultimately have "distinct (map ps_path ?ready)" "ps_path ` set ?ready \<inter> fst ` set (tg_pending ?t) = {}"
    using keys(1) unfolding distinct_map_sort set_sort by simp_all
  note bal = dispatch_all_balance [OF this, of cfg now]
  have "dispatch_ready cfg now s = fold (dispatch_one cfg now) ?ready ?t"
    by (simp add: dispatch_ready_def Let_def cleaned_def case_prod_unfold)
  moreover have "length (filter ?due ?pend) + length (filter (\<lambda>x. \<not> ?due x) ?pend) = length ?pend"
    by (rule sum_length_filter_compl)
  ultimately show ?thesis using bal assms(2) by (simp add: balanced_def Let_def cleaned_def)
qed

lemma trigger_run_balanced:
  "trigger_ok cfg now s \<Longrightarrow> balanced s \<Longrightarrow> sorted (now # map op_time ops) \<Longrightarrow> balanced (fold (trigger_step cfg) ops s)"
proof (induction ops arbitrary: now s)
  case (Cons op ops)
  have le: "now \<le> op_time op" using Cons.prems(3) by simp
  then have "trigger_ok cfg (op_time op) (trigger_step cfg op s)" using Cons.prems(1) by (intro trigger_step_ok)
  moreover have "balanced (trigger_step cfg op s)"
    using Cons.prems(2) trigger_ok_later [OF Cons.prems(1) le] by (cases op) (simp_all add: on_event_balanced dispatch_ready_balanced)
  ultimately show ?case using Cons.IH Cons.prems(3) by simp
qed simp

text \<open>C14: whatever the changes and the ticks, at times that do not decrease: no minute has more dispatches than the
  limit, two dispatches of one file are at least the cooldown apart, and every change received was
  filtered, joined to a pending scan, dispatched or is pending.\<close>

theorem triggers_limited:
  assumes "sorted (map op_time ops)" "s = fold (trigger_step cfg) ops new_trigger"
  shows "(\<forall>t. in_minute t (tg_log s) \<le> tc_rate cfg) \<and> spaced (tc_cooldown cfg) (tg_log s) \<and>
    tg_dispatched s = length (tg_log s) \<and>
    tg_received s = tg_filtered s + tg_debounced s + tg_dispatched s + length (tg_pending s)"
proof -
  define start where "start = (case ops of [] \<Rightarrow> 0 | op # _ \<Rightarrow> op_time op)"
  have "sorted (start # map op_time ops)" using assms(1) by (auto simp: start_def split: list.splits)
  then have "\<exists>now. trigger_ok cfg now s" "balanced s"
    unfolding assms(2) using trigger_run_ok [OF fresh_trigger_ok] trigger_run_balanced [OF fresh_trigger_ok]
    by (auto simp: balanced_def new_trigger_def)
  then show ?thesis by (auto simp: trigger_ok_def balanced_def)
qed

section \<open>What the buffer loses\<close>

text \<open>A file that changes more often than its window is never scanned: every change restarts the window.\<close>

definition ex_trigger :: trigger_config where
  "ex_trigger = \<lparr>tc_lookup = (\<lambda>t p. if p = ''/a'' then Some (if t < 10 then ''MEDIUM'' else ''CRITICAL'') else Some ''HIGH''),
     tc_rate = 1, tc_cooldown = 60, tc_min = ''MEDIUM''\<rparr>"

lemma busy_file_waits:
  assumes "map_of (tg_pending s) path = Some p" "ps_path p = path" "\<not> now < dict_get (tg_cooldowns s) path 0"
    "tc_lookup cfg now path = Some tier" "tier_meets_threshold cfg tier" "now' < now + dict_get debounce_by_tier tier 30"
  shows "\<exists>p'. map_of (tg_pending (on_event cfg now path s)) path = Some p' \<and> now' < ps_until p'"
  using assms by (simp add: on_event_def debounced_def Let_def)

text \<open>A pending scan keeps the tier and the priority of its first change.\<close>

lemma tier_kept:
  "map (\<lambda>(q, p). (q, ps_tier p, ps_priority p)) (tg_pending (fold (trigger_step ex_trigger) [Change 1 ''/a'', Change 20 ''/a''] new_trigger)) =
    [(''/a'', ''MEDIUM'', 2)]"
  by (simp add: ex_trigger_def on_event_def new_trigger_def debounced_def tier_meets_threshold_def RISK_TIER_ORDER_def
      debounce_by_tier_def tier_priority_def dict_get_def Let_def)

text \<open>The dispatch at the end of the loop takes only what is due: the other pending scans are dropped.\<close>

lemma shutdown_drops_pending:
  "tg_log (fold (trigger_step ex_trigger) [Change 1 ''/b'', Tick 2] new_trigger) = [] \<and>
   length (tg_pending (fold (trigger_step ex_trigger) [Change 1 ''/b'', Tick 2] new_trigger)) = 1"
  by (simp add: ex_trigger_def on_event_def new_trigger_def debounced_def tier_meets_threshold_def RISK_TIER_ORDER_def
      debounce_by_tier_def tier_priority_def dict_get_def Let_def dispatch_ready_def cleaned_def)

lemma triggers_limited_witness:
  "let s = fold (trigger_step ex_trigger) [Change 1 ''/b'', Tick 7, Change 8 ''/b''] new_trigger
   in (\<forall>t. in_minute t (tg_log s) \<le> tc_rate ex_trigger) \<and> spaced (tc_cooldown ex_trigger) (tg_log s) \<and>
    tg_dispatched s = length (tg_log s) \<and>
    tg_received s = tg_filtered s + tg_debounced s + tg_dispatched s + length (tg_pending s)"
  unfolding Let_def by (rule triggers_limited [OF _ refl]) simp
end
