(* ===== verification/Spec2Isabelle.thy ===== *)
theory Spec2Isabelle
  imports Risk_Scoring Span_Validation Checksum_Validators Circuit_Breaker
    Filter_Executor Job_Queue Entity_Resolver Policy_Service
    Path_Validation Rate_Limit Session_Store Csrf_Guard Pagination
    Text_Chunking Tiered_Pipeline Cache_Store Context_Enhancer Descriptor_Collection Scan_Coordinator File_Pipeline Scan_Trigger
begin

text \<open>
  Verification library of OpenLabels, a server and command line tool that scans files for personal
  and secret data, scores and labels them and evaluates compliance policies. All source names below
  are relative to \<^verbatim>\<open>src/src/openlabels/\<close>.

  \<^bold>\<open>The program and the theories.\<close> A detector reports spans, pieces of a text with an entity
  type and a confidence. The pipeline removes overlaps, checks positions and groups mentions into
  entities; the scorer turns entity counts into a risk score; the policy engine decides which packs
  apply and combines what they require. Results live in database tables behind the server, whose
  jobs are drawn from a queue; the command line filters them with a query language.

  \<^item> \<open>OL_Prelude\<close>, \<open>Py_Collections\<close>: results that may raise, Python strings, slices,
    dictionaries in insertion order, grouping, stable sorting, and the locale \<open>event_machine\<close>
    (a step function keeps an invariant), which every component with state interprets.
  \<^item> \<open>Entity_Types\<close> (\<^verbatim>\<open>core/types.py\<close>): tiers, entity types and aliases, spans and their validation.
  \<^item> \<open>Risk_Scoring\<close> (\<^verbatim>\<open>core/scoring/scorer.py\<close>): all tables and functions of the scorer;
    bounds, monotonicity, the maximum that the co-occurrence loop computes.
  \<^item> \<open>Span_Resolution\<close>, \<open>Span_Validation\<close> (\<^verbatim>\<open>core/pipeline/span_resolver.py\<close>, \<^verbatim>\<open>span_validation.py\<close> and
    the Rust file \<^verbatim>\<open>core/_rust/src/spans.rs\<close>): the merge scan keeps a list of disjoint ordered
    spans, the overlap loops find exactly the overlapping pairs.
  \<^item> \<open>Entity_Resolver\<close> (\<^verbatim>\<open>core/pipeline/entity_resolver.py\<close>): union-find with path compression as
    a function on lists, with the interpreter's recursion limit as a number; the locale
    \<open>partition_store\<close> states what the sieves rely on.
  \<^item> \<open>Checksum_Validators\<close> (\<^verbatim>\<open>core/_rust/validators_py.py\<close>, \<^verbatim>\<open>core/detectors/checksum.py\<close>,
    \<^verbatim>\<open>financial.py\<close>): the check digit algorithms and the errors they find.
  \<^item> \<open>Filter_Lexer\<close>, \<open>Filter_Parser\<close>, \<open>Filter_Executor\<close> (\<^verbatim>\<open>cli/filter_parser.py\<close>,
    \<^verbatim>\<open>cli/filter_executor.py\<close>): the query language. The parser and the evaluator recurse with the
    nesting of the filter; how many nested calls the interpreter's stack has room for is an argument, and running
    out of it an error. \<open>nesting\<close> and \<open>height\<close> say how many are enough. The parser is compared with a
    grammar (\<open>g_cond\<close>), the evaluator with a semantics of the operators (\<open>holds\<close>).
  \<^item> \<open>Policy_Engine\<close>, \<open>Policy_Packs\<close>, \<open>Policy_Service\<close> (\<^verbatim>\<open>core/policies/\<close>,
    \<^verbatim>\<open>server/services/policy_service.py\<close>): schema, engine, built-in packs, loader and the table of
    stored policies per tenant, whose ties of priority the database may order as it likes.
  \<^item> \<open>Circuit_Breaker\<close> (\<^verbatim>\<open>core/circuit_breaker.py\<close>) and \<open>Job_Queue\<close> (\<^verbatim>\<open>jobs/queue.py\<close>): state machines over
    sequences of events, with invariants; the breaker is compared with a labelled machine with guards
    (\<open>moves\<close>); the queue runs over a database session that is given by
    the promises of the locale \<open>job_session\<close>.
  \<^item> \<open>Path_Validation\<close> (\<^verbatim>\<open>core/path_validation.py\<close>): \<open>os.path\<close> on POSIX and the path guard.
  \<^item> \<open>Rate_Limit\<close>, \<open>Csrf_Guard\<close>, \<open>Session_Store\<close>, \<open>Pagination\<close> (\<^verbatim>\<open>server/middleware/\<close>,
    \<^verbatim>\<open>server/session.py\<close>, \<^verbatim>\<open>server/pagination.py\<close>, \<^verbatim>\<open>server/schemas/pagination.py\<close>): request limits, origin and token checks,
    sessions as a map with expiry, and pages; the locale \<open>pager\<close> states what a page promises to
    a client that follows cursors.
  \<^item> \<open>Text_Chunking\<close>, \<open>Detection_Engine\<close>, \<open>Tiered_Pipeline\<close> (\<^verbatim>\<open>core/pipeline/chunking.py\<close>, \<^verbatim>\<open>confidence.py\<close>,
    \<^verbatim>\<open>tiered.py\<close>, \<^verbatim>\<open>core/detectors/orchestrator.py\<close>): the two ways detectors are run, on top of
    the resolver and the policy engine; detectors are functions on texts that may raise, and the
    order in which the threads finish is an argument.
  \<^item> \<open>Py_Glob\<close>, \<open>Cache_Store\<close> (\<^verbatim>\<open>server/cache.py\<close>): shell patterns as \<^verbatim>\<open>fnmatch\<close> reads them; the
    cache with its memory and Redis backends, whose client is a record of functions.
  \<^item> \<open>Py_Regex\<close>, \<open>Regex_Syntax\<close>, \<open>Pattern_Tables\<close>, \<open>Detector_Tables\<close>, \<open>Pattern_Filters\<close>,
    \<open>Pattern_Detectors\<close>, \<open>Detector_Registry\<close> (\<^verbatim>\<open>core/detectors/\<close>): the backtracking matcher of Python's
    \<^verbatim>\<open>re\<close> with its denotation, a reader of the pattern syntax (fuel \<open>3 * length p + 3\<close>, one unit per
    character and level of precedence), the tables of the six detectors as they are written, with a
    backquote for the backslash, and the loops over them. The locale \<open>span_scanner\<close> states what the loops
    share; with the registry the orchestrator is composed with the real detectors.
  \<^item> \<open>Context_Enhancer\<close> (\<^verbatim>\<open>core/pipeline/context_enhancer.py\<close>): deny lists, exclusions and hot words over
    the same expressions, and the orchestrator with this step.
  \<^item> \<open>Directory_Index\<close>, \<open>Descriptor_Collection\<close> (\<^verbatim>\<open>jobs/index.py\<close>, \<^verbatim>\<open>jobs/delta_sync.py\<close>, \<^verbatim>\<open>jobs/sd_collect.py\<close>): the table of directories, its
    statements with the cascading key, and the loops with their batches; the loop invariant
    \<open>in_step\<close> says that table and batches together are the reference over the folders seen so far; then
    the pages of the collection of security descriptors, whose loop is bounded by the number of rows.
  \<^item> \<open>Cloud_Listing\<close>, \<open>Scan_Coordinator\<close> (\<^verbatim>\<open>adapters/\<close>, \<^verbatim>\<open>jobs/coordinator.py\<close>,
    \<^verbatim>\<open>jobs/tasks/scan_partition.py\<close>): the listing of an object store, page by page, and its split into ranges;
    \<open>tiles\<close> are ranges that meet, and \<open>fan_step\<close> interleaves the workers, their retries and broken off
    aggregations included, up to the lock and the totals.
  \<^item> \<open>Scan_Inventory\<close>, \<open>File_Pipeline\<close> (\<^verbatim>\<open>jobs/inventory.py\<close>, \<^verbatim>\<open>jobs/pipeline.py\<close> and the file loop of
    \<^verbatim>\<open>jobs/tasks/scan.py\<close>): what makes a scan incremental, over rows shared by identity with two bounded caches (locale
    \<open>row_cache\<close>), and the loop that takes several files at a time, as a step relation with a measure that
    bounds its steps.
  \<^item> \<open>Scan_Trigger\<close> (\<^verbatim>\<open>monitoring/scan_trigger.py\<close>): changes of watched files, debounced and limited.

  \<^bold>\<open>Conventions.\<close> A raised exception is a value \<open>Inl e\<close>. A Python object that is mutated is a
  record that is passed on; a table of the database is the list of its rows, and a transaction is
  that of the caller. Integers are unbounded as in Python. Floats are reals: rounding of binary
  floating point is outside the model. A character of a string is one \<open>char\<close>, and what is said
  about letters and blanks is said about ASCII text. Times are reals or integers of seconds.

  \<^bold>\<open>Parameters.\<close> What is not code of the repository is an argument of the definitions: number
  formatting, the expressions given by users, the database session, the YAML parser and the file
  system, the cipher, the Redis client, base64 and JSON text, message authentication codes, and the
  iteration order of sets. What a theorem needs of them is a named hypothesis, and a witness
  instantiates it.

  \<^bold>\<open>Theorems.\<close> The numbered claims stand at the component they are about; the claims that span
  components stand at the end of the last component they use or below.

  \<^bold>\<open>Not modelled.\<close> Adapters for storage services, HTTP routes, the command line around the filter
  language, report rendering and the columnar analytics are input and output around third-party
  clients. Machine learning models are third-party engines; the coreference step of the two pipelines is a
  parameter. Log messages and metrics are left out everywhere.
\<close>

section \<open>From detection to validated spans\<close>

lemma anchored_in_text: "wf_span s \<Longrightarrow> anchored doc s \<Longrightarrow> in_text doc s"
  by (auto simp: wf_span_def anchored_def in_text_def length_py_slice_inside)

lemma disjoint_pairs: "disjoint_ordered xs \<Longrightarrow> overlap_outer allow xs = []"
proof (induction xs)
  case (Cons s ss)
  then have "overlap_inner allow s ss = []"
    by (cases ss) (auto simp: disjoint_ordered_def)
  with Cons show ?case by (simp add: disjoint_ordered_def)
qed simp

lemma disjoint_sorted: "disjoint_ordered xs \<Longrightarrow> sort_key range_key xs = xs"
  using disjoint_ordered_starts [of xs]
  by (intro sort_key_id_if_sorted)
    (auto simp: sorted_wrt_map range_key_def less_eq_prod_def elim: sorted_wrt_mono_rel [rotated])

text \<open>
  C24: What the resolver hands on passes the validation that follows it: when the detectors report
  well-formed spans that carry the text at their positions, resolution succeeds, strict
  validation against the same text accepts the result unchanged, and the overlap diagnosis, in
  Python and in Rust, finds nothing, identical ranges included.
\<close>

theorem resolved_spans_validate:
  assumes "list_all wf_span xs" and "list_all (anchored doc) xs"
  shows "\<exists>out. resolve_spans xs c strategy = Inr out \<and> validate_span_positions doc out True = Inr out \<and>
    check_for_overlaps out False = []"
proof -
  let ?out = "foldl (push strategy) [] (eligible c xs)"
  have inv: "resolve_spans xs c strategy = Inr ?out" "disjoint_ordered ?out"
    using resolve_spans_fold [OF assms(1)] by blast+
  have "list_all (anchored doc) ?out"
    by (rule resolve_spans_all [where P = "anchored doc", OF joined_anchored assms(1)]) (use assms(2) in \<open>auto simp: list_all_iff\<close>)
  with inv(2) have "list_all (in_text doc) ?out"
    by (auto simp: disjoint_ordered_def list_all_iff intro: anchored_in_text)
  then have "find (\<lambda>s. \<not> in_text doc s) ?out = None"
    by (simp add: find_None_iff list_all_iff)
  then have "validate_span_positions doc ?out True = Inr ?out"
    by (simp add: validate_span_positions_def validate_loop_strict)
  moreover have "check_for_overlaps ?out False = []"
    using inv(2) by (simp add: check_for_overlaps_def disjoint_sorted disjoint_pairs)
  ultimately show ?thesis using inv(1) by blast
qed

theorem resolved_spans_validate_witness:
  "\<exists>out. resolve_spans ex_email (1/2) LONGER_SPAN = Inr out \<and>
    validate_span_positions ''ann@x.org'' out True = Inr out \<and> check_for_overlaps out False = []"
  by (rule resolved_spans_validate [OF ex_email_ok(1,2)])

end
